(* ===== verification/Prelude.thy ===== *)
theory Prelude
  imports Main "HOL-Library.Char_ord" "HOL-Library.List_Lexorder"
    "HOL-Library.Product_Lexorder" "HOL-Library.Option_ord" "HOL-Library.Multiset"
begin

text \<open>
  What every component shares: the errors the Python code raises, results that are an error
  or a value, sequences of validation checks, comprehensions and loops that stop at the first
  error, Python text (as UTF-8 bytes), dictionaries in insertion order, and the facts about
  stable sorting by a key on which the canonical order of every value rests.

  Text. A Python \<open>str\<close> without surrogates is modelled by its UTF-8 encoding, a list of
  \<open>char\<close> (bytes). Equality and concatenation carry over, and the order of UTF-8 byte
  strings is the order by code points that Python uses.
\<close>

section \<open>Errors and results\<close>

text \<open>The exceptions the modelled code raises, with the message where the code gives one.\<close>

datatype py_error =
    DomainValidationError string
  | QuotaExceeded string int int int
  | OverflowError
  | KeyError
  | IndexError
  | DivisionByZero
  | InvalidOperation
  | AssertionError
  | TypeError
  | AttributeError
  | ValueError
  | LookupError string
  | RuntimeError string
  | IntegrityError string
  | WorkspaceUnavailable
  | WorkItemUnavailable
  | QuotaReleaseConflict string
  | CleanupStateConflict string
  | TransientJobFailure string
  | DecisionMutationUnavailable
  | InitialDecisionActionRequired string
  | DecisionMutationConflict string string "(string \<times> string) list"
  | FieldInterpretationError int string string "string option" string
  | InvalidSourceContract string
  | ArtifactIntakeError string "int option"

type_synonym 'a result = "py_error + 'a"

named_theorems result_simps \<open>characteristic equations of the result combinators\<close>
named_theorems eval_simps \<open>equations that evaluate the model on concrete inputs\<close>

fun rbind :: "'a result \<Rightarrow> ('a \<Rightarrow> 'b result) \<Rightarrow> 'b result" where
  "rbind (Inl e) f = Inl e"
| "rbind (Inr x) f = f x"

lemma rbind_Inr_iff [result_simps]:
  "rbind m f = Inr y \<longleftrightarrow> (\<exists>x. m = Inr x \<and> f x = Inr y)"
  by (cases m) auto

lemma rbind_Inl_iff:
  "rbind m f = Inl e \<longleftrightarrow> m = Inl e \<or> (\<exists>x. m = Inr x \<and> f x = Inl e)"
  by (cases m) auto

lemma rbind_cong [fundef_cong]:
  "m = m' \<Longrightarrow> (\<And>x. m' = Inr x \<Longrightarrow> f x = g x) \<Longrightarrow> rbind m f = rbind m' g"
  by (cases m') auto

text \<open>
  A sequence of \<open>if condition: raise DomainValidationError(message)\<close> statements: the first
  condition that holds is the error, and the value is returned where none holds.
\<close>

primrec checks :: "(bool \<times> string) list \<Rightarrow> 'a \<Rightarrow> 'a result" where
  "checks [] x = Inr x"
| "checks (c # cs) x = (if fst c then Inl (DomainValidationError (snd c)) else checks cs x)"

lemma checks_Inr_iff [result_simps]:
  "checks cs x = Inr y \<longleftrightarrow> y = x \<and> (\<forall>c \<in> set cs. \<not> fst c)"
  by (induction cs) auto

declare checks.simps [simp del, eval_simps]

lemma checks_append:
  "checks (cs @ ds) x = rbind (checks cs x) (checks ds)"
  by (induction cs) (auto simp: checks.simps)

lemma checks_total: "(\<And>c. c \<in> set cs \<Longrightarrow> \<not> fst c) \<Longrightarrow> checks cs x = Inr x"
  by (simp add: checks_Inr_iff)

text \<open>\<open>[f(x) for x in xs]\<close>, stopping at the first error.\<close>

fun rmap :: "('a \<Rightarrow> 'b result) \<Rightarrow> 'a list \<Rightarrow> 'b list result" where
  "rmap f [] = Inr []"
| "rmap f (x # xs) = rbind (f x) (\<lambda>y. rbind (rmap f xs) (\<lambda>ys. Inr (y # ys)))"

lemma rmap_Inr_iff:
  "rmap f xs = Inr ys \<longleftrightarrow> list_all2 (\<lambda>x y. f x = Inr y) xs ys"
  by (induction xs arbitrary: ys) (auto simp: rbind_Inr_iff list_all2_Cons1)

lemma rmap_total:
  "(\<And>x. x \<in> set xs \<Longrightarrow> f x = Inr (g x)) \<Longrightarrow> rmap f xs = Inr (map g xs)"
  by (induction xs) auto

lemma rmap_total_ex:
  "(\<And>x. x \<in> set xs \<Longrightarrow> \<exists>y. f x = Inr y) \<Longrightarrow> \<exists>ys. rmap f xs = Inr ys"
  by (induction xs) (fastforce simp: rbind_Inr_iff)+

lemma rmap_cong [fundef_cong]:
  "xs = ys \<Longrightarrow> (\<And>x. x \<in> set ys \<Longrightarrow> f x = g x) \<Longrightarrow> rmap f xs = rmap g ys"
proof (induction xs arbitrary: ys)
  case Nil
  then show ?case by auto
next
  case (Cons a xs)
  then show ?case by (cases ys) auto
qed

lemma rmap_length: "rmap f xs = Inr ys \<Longrightarrow> length ys = length xs"
  by (simp add: rmap_Inr_iff list_all2_lengthD)

lemma rmap_in:
  "rmap f xs = Inr ys \<Longrightarrow> y \<in> set ys \<Longrightarrow> \<exists>x \<in> set xs. f x = Inr y"
  by (induction xs arbitrary: ys) (auto simp: rbind_Inr_iff)

lemma list_all2_in_rev: "list_all2 P xs ys \<Longrightarrow> y \<in> set ys \<Longrightarrow> \<exists>x \<in> set xs. P x y"
  by (induction rule: list_all2_induct) auto

lemma rmap_in_rev:
  "rmap f xs = Inr ys \<Longrightarrow> x \<in> set xs \<Longrightarrow> \<exists>y \<in> set ys. f x = Inr y"
  by (induction xs arbitrary: ys) (auto simp: rbind_Inr_iff)

lemma rmap_map_eq:
  "rmap f xs = Inr ys \<Longrightarrow> (\<And>x y. x \<in> set xs \<Longrightarrow> f x = Inr y \<Longrightarrow> h y = k x)
   \<Longrightarrow> map h ys = map k xs"
  by (induction xs arbitrary: ys) (auto simp: rbind_Inr_iff)

text \<open>A \<open>for\<close> loop over a state whose body may raise.\<close>

fun rfold :: "('s \<Rightarrow> 'a \<Rightarrow> 's result) \<Rightarrow> 's \<Rightarrow> 'a list \<Rightarrow> 's result" where
  "rfold f s [] = Inr s"
| "rfold f s (x # xs) = rbind (f s x) (\<lambda>s'. rfold f s' xs)"

lemma rfold_append: "rfold f s (xs @ ys) = rbind (rfold f s xs) (\<lambda>t. rfold f t ys)"
proof (induction xs arbitrary: s)
  case Nil
  then show ?case by simp
next
  case (Cons x xs)
  then show ?case by (cases "f s x") auto
qed

lemma rfold_inv:
  assumes "rfold f s xs = Inr t" and "P s"
    and "\<And>x s s'. x \<in> set xs \<Longrightarrow> P s \<Longrightarrow> f s x = Inr s' \<Longrightarrow> P s'"
  shows "P t"
  using assms by (induction xs arbitrary: s) (auto simp: rbind_Inr_iff)

lemma rfold_total:
  assumes "P s"
    and "\<And>x s. x \<in> set xs \<Longrightarrow> P s \<Longrightarrow> \<exists>s'. f s x = Inr s' \<and> P s'"
  shows "\<exists>t. rfold f s xs = Inr t \<and> P t"
  using assms
proof (induction xs arbitrary: s)
  case Nil
  then show ?case by simp
next
  case (Cons x xs)
  then obtain s' where "f s x = Inr s'" and "P s'" by (meson list.set_intros(1))
  moreover have "\<exists>t. rfold f s' xs = Inr t \<and> P t"
    using Cons.prems(2) by (intro Cons.IH \<open>P s'\<close>) auto
  ultimately show ?case by auto
qed

text \<open>Invariants that also depend on the elements the loop has already consumed.\<close>

lemma rfold_total_prefix:
  assumes "P [] s"
    and "\<And>ys x zs s. xs = ys @ x # zs \<Longrightarrow> P ys s \<Longrightarrow> \<exists>s'. f s x = Inr s' \<and> P (ys @ [x]) s'"
  shows "\<exists>t. rfold f s xs = Inr t \<and> P xs t"
proof -
  have "\<exists>t. rfold f s ys = Inr t \<and> P ys t" if "xs = ys @ zs" for ys zs
    using that
  proof (induction ys arbitrary: zs rule: rev_induct)
    case Nil
    then show ?case using assms(1) by simp
  next
    case (snoc y ys)
    then obtain t where "rfold f s ys = Inr t" and "P ys t" by fastforce
    moreover from snoc.prems this(2) assms(2) [of ys y zs t]
    obtain t' where "f t y = Inr t'" and "P (ys @ [y]) t'" by auto
    ultimately show ?case by (auto simp: rfold_append)
  qed
  from this [of xs "[]"] show ?thesis by simp
qed

lemma rfold_inv_prefix:
  assumes "rfold f s xs = Inr t" and "P [] s"
    and "\<And>ys x zs s s'. xs = ys @ x # zs \<Longrightarrow> P ys s \<Longrightarrow> f s x = Inr s' \<Longrightarrow> P (ys @ [x]) s'"
  shows "P xs t"
proof -
  have "P ys t'" if "xs = ys @ zs" and "rfold f s ys = Inr t'" for ys zs t'
    using that
  proof (induction ys arbitrary: zs t' rule: rev_induct)
    case Nil
    then show ?case using assms(2) by simp
  next
    case (snoc y ys)
    then obtain u where "rfold f s ys = Inr u" and "f u y = Inr t'"
      by (auto simp: rfold_append rbind_Inr_iff)
    then show ?case using assms(3) [of ys y zs] snoc by auto
  qed
  from this [of xs "[]"] assms(1) show ?thesis by simp
qed

section \<open>Text\<close>

text \<open>
  \<open>str.strip()\<close> removes the characters for which \<open>str.isspace()\<close> holds. Their UTF-8
  encodings: U+0009 to U+000D, U+001C to U+0020, U+0085, U+00A0, U+1680, U+2000 to U+200A,
  U+2028, U+2029, U+202F, U+205F and U+3000.
\<close>

definition py_whitespace :: "string list" where
  "py_whitespace = map (map char_of)
     [[9], [10], [11], [12], [13], [28], [29], [30], [31], [32 :: nat],
      [194, 133], [194, 160], [225, 154, 128],
      [226, 128, 128], [226, 128, 129], [226, 128, 130], [226, 128, 131], [226, 128, 132],
      [226, 128, 133], [226, 128, 134], [226, 128, 135], [226, 128, 136], [226, 128, 137],
      [226, 128, 138], [226, 128, 168], [226, 128, 169], [226, 128, 175],
      [226, 129, 159], [227, 128, 128]]"

definition starts_with :: "string \<Rightarrow> string \<Rightarrow> bool" where
  "starts_with w s \<longleftrightarrow> take (length w) s = w"

definition space_length :: "string \<Rightarrow> nat" where
  "space_length s = (case find (\<lambda>w. starts_with w s) py_whitespace of
     None \<Rightarrow> 0 | Some w \<Rightarrow> length w)"

lemma find_SomeD: "find P xs = Some x \<Longrightarrow> x \<in> set xs \<and> P x"
  by (induction xs) (auto split: if_splits)

lemma space_length_le: "space_length s \<le> length s"
proof (cases "find (\<lambda>w. starts_with w s) py_whitespace")
  case None
  then show ?thesis by (simp add: space_length_def)
next
  case (Some w)
  then have "take (length w) s = w"
    by (auto simp: find_Some_iff starts_with_def)
  then have "length w \<le> length s" by (metis length_take min.cobounded2 min_def nat_le_linear)
  with Some show ?thesis by (simp add: space_length_def)
qed

function py_lstrip :: "string \<Rightarrow> string" where
  "py_lstrip s = (if space_length s = 0 then s else py_lstrip (drop (space_length s) s))"
  by pat_completeness auto
termination
proof (relation "measure length")
  fix s :: string
  assume "space_length s \<noteq> 0"
  with space_length_le [of s] show "(drop (space_length s) s, s) \<in> measure length" by simp
qed simp

declare py_lstrip.simps [simp del]

text \<open>Trailing white space: the same on the reversed bytes, with the reversed encodings.\<close>

definition space_length_rev :: "string \<Rightarrow> nat" where
  "space_length_rev s = (case find (\<lambda>w. starts_with (rev w) s) py_whitespace of
     None \<Rightarrow> 0 | Some w \<Rightarrow> length w)"

lemma space_length_rev_le: "space_length_rev s \<le> length s"
proof (cases "find (\<lambda>w. starts_with (rev w) s) py_whitespace")
  case None
  then show ?thesis by (simp add: space_length_rev_def)
next
  case (Some w)
  then have "take (length w) s = rev w"
    by (auto simp: find_Some_iff starts_with_def)
  then have "length w \<le> length s"
    by (metis length_rev length_take min.cobounded2 min_def nat_le_linear)
  with Some show ?thesis by (simp add: space_length_rev_def)
qed

function py_strip_rev :: "string \<Rightarrow> string" where
  "py_strip_rev s =
     (if space_length_rev s = 0 then s else py_strip_rev (drop (space_length_rev s) s))"
  by pat_completeness auto
termination
proof (relation "measure length")
  fix s :: string
  assume "space_length_rev s \<noteq> 0"
  with space_length_rev_le [of s] show "(drop (space_length_rev s) s, s) \<in> measure length" by simp
qed simp

declare py_strip_rev.simps [simp del]

definition py_strip :: "string \<Rightarrow> string" where
  "py_strip s = rev (py_strip_rev (rev (py_lstrip s)))"

text \<open>\<open>not value.strip()\<close>: nothing is left of the text once its white space is removed.\<close>

definition blank :: "string \<Rightarrow> bool" where
  "blank s \<longleftrightarrow> py_lstrip s = []"

lemma py_lstrip_Nil [simp]: "py_lstrip [] = []"
  by (subst py_lstrip.simps) (simp add: space_length_def find_None_iff [THEN iffD2]
      py_whitespace_def starts_with_def)

lemma blank_Nil [simp]: "blank []"
  by (simp add: blank_def)

lemma blank_py_strip: "blank s \<longleftrightarrow> py_strip s = []"
proof
  assume "blank s"
  then show "py_strip s = []"
    by (subst (asm) blank_def)
       (simp add: py_strip_def py_strip_rev.simps [of "[]"] space_length_rev_def
         py_whitespace_def starts_with_def)
next
  have first: "space_length (py_lstrip t) = 0" for t
  proof (induction t rule: py_lstrip.induct)
    case (1 t)
    then show ?case by (cases "space_length t = 0") (simp_all add: py_lstrip.simps [of t])
  qed
  have gone: "py_strip_rev t = [] \<Longrightarrow> t \<noteq> [] \<Longrightarrow>
      \<exists>w \<in> set py_whitespace. \<exists>u. t = u @ rev w" for t
  proof (induction t rule: py_strip_rev.induct)
    case (1 t)
    let ?n = "space_length_rev t"
    show ?case
    proof (cases "?n = 0")
      case True
      with "1.prems" show ?thesis by (simp add: py_strip_rev.simps [of t])
    next
      case False
      then obtain w where "w \<in> set py_whitespace" and "take (length w) t = rev w"
        and n: "?n = length w"
        by (auto simp: space_length_rev_def starts_with_def split: option.splits
            dest!: find_SomeD)
      then have t: "t = rev w @ drop ?n t" by (metis append_take_drop_id)
      show ?thesis
      proof (cases "drop ?n t = []")
        case True
        with t \<open>w \<in> set py_whitespace\<close> have "t = [] @ rev w" by simp
        with \<open>w \<in> set py_whitespace\<close> show ?thesis by blast
      next
        case nonempty: False
        have "py_strip_rev (drop ?n t) = []"
          using "1.prems"(1) False by (simp add: py_strip_rev.simps [of t])
        with "1.IH" False nonempty obtain v u
          where "v \<in> set py_whitespace" and "drop ?n t = u @ rev v" by blast
        with t have "t = (rev w @ u) @ rev v" by (metis append_assoc)
        with \<open>v \<in> set py_whitespace\<close> show ?thesis by blast
      qed
    qed
  qed
  assume "py_strip s = []"
  show "blank s"
  proof (rule ccontr)
    assume "\<not> blank s"
    then have ne: "py_lstrip s \<noteq> []" by (simp add: blank_def)
    with \<open>py_strip s = []\<close> gone [of "rev (py_lstrip s)"]
    obtain w u where w: "w \<in> set py_whitespace" and "rev (py_lstrip s) = u @ rev w"
      by (auto simp: py_strip_def)
    then have "py_lstrip s = w @ rev u" by (metis rev_append rev_rev_ident)
    then have "starts_with w (py_lstrip s)" by (simp add: starts_with_def)
    with w have "find (\<lambda>w. starts_with w (py_lstrip s)) py_whitespace \<noteq> None"
      by (auto simp: find_None_iff)
    moreover have "\<forall>w \<in> set py_whitespace. length w \<noteq> 0"
      by (simp add: py_whitespace_def)
    ultimately have "space_length (py_lstrip s) \<noteq> 0"
      by (auto simp: space_length_def find_Some_iff split: option.splits)
    with first [of s] show False by simp
  qed
qed

text \<open>A text that starts with a visible ASCII character is not blank.\<close>

lemma not_blank_graph [simp]:
  assumes "33 \<le> (of_char c :: nat)" and "(of_char c :: nat) \<le> 127"
  shows "\<not> blank (c # s)"
proof -
  have "\<not> starts_with w (c # s)" if "w \<in> set py_whitespace" for w
    using that assms by (auto simp: py_whitespace_def starts_with_def)
  then have "find (\<lambda>w. starts_with w (c # s)) py_whitespace = None"
    by (simp add: find_None_iff)
  then have "space_length (c # s) = 0" by (simp add: space_length_def)
  then show ?thesis by (simp add: blank_def py_lstrip.simps [of "c # s"])
qed

text \<open>A text that contains a visible ASCII character is not blank.\<close>

lemma space_length_visible:
  assumes "space_length s = n" and "k < n" and "k < length s"
  shows "\<not> (33 \<le> (of_char (s ! k) :: nat) \<and> (of_char (s ! k) :: nat) \<le> 127)"
proof (cases "find (\<lambda>w. starts_with w s) py_whitespace")
  case None
  with assms show ?thesis by (simp add: space_length_def)
next
  case (Some w)
  then have w: "w \<in> set py_whitespace" "take (length w) s = w" and n: "n = length w"
    using find_SomeD [OF Some] assms(1) by (auto simp: starts_with_def space_length_def)
  have "s ! k = w ! k" using w(2) assms(2) n by (metis nth_take)
  then have "s ! k \<in> set w" using assms(2) n by simp
  then show ?thesis using w(1) by (auto simp: py_whitespace_def)
qed

lemma blank_not_visible:
  assumes "c \<in> set s" and "33 \<le> (of_char c :: nat)" and "(of_char c :: nat) \<le> 127"
  shows "\<not> blank s"
  using assms(1)
proof (induction s rule: py_lstrip.induct)
  case (1 s)
  show ?case
  proof (cases "space_length s = 0")
    case True
    with 1 show ?thesis by (auto simp: blank_def py_lstrip.simps [of s])
  next
    case False
    from "1.prems" obtain k where k: "k < length s" "s ! k = c" by (auto simp: in_set_conv_nth)
    with space_length_visible [OF refl, of k s] assms have "space_length s \<le> k" by force
    then have "c \<in> set (drop (space_length s) s)"
      using k by (auto simp: in_set_conv_nth intro!: exI [of _ "k - space_length s"])
    with "1.IH" False show ?thesis by (simp add: blank_def py_lstrip.simps [of s])
  qed
qed

definition required_text :: "string \<Rightarrow> string \<Rightarrow> (bool \<times> string)" where
  "required_text value name = (blank value, name @ '' must be nonblank text'')"

definition optional_text :: "string option \<Rightarrow> string \<Rightarrow> (bool \<times> string)" where
  "optional_text value name =
     (case value of None \<Rightarrow> (False, []) | Some v \<Rightarrow> required_text v name)"

definition unique_check :: "'a list \<Rightarrow> string \<Rightarrow> (bool \<times> string)" where
  "unique_check values name = (\<not> distinct values, name @ '' must be unique'')"

lemma fst_required_text [simp]: "fst (required_text v name) \<longleftrightarrow> blank v"
  by (simp add: required_text_def)

lemma fst_optional_text [simp]:
  "fst (optional_text v name) \<longleftrightarrow> (case v of None \<Rightarrow> False | Some w \<Rightarrow> blank w)"
  by (simp add: optional_text_def split: option.splits)

lemma fst_unique_check [simp]: "fst (unique_check vs name) \<longleftrightarrow> \<not> distinct vs"
  by (simp add: unique_check_def)

text \<open>Decimal text of integers, and the joining and padding of f-strings.\<close>

definition digit_char :: "nat \<Rightarrow> char" where
  "digit_char n = char_of (48 + n)"

fun nat_text :: "nat \<Rightarrow> string" where
  "nat_text n = (if n < 10 then [digit_char n] else nat_text (n div 10) @ [digit_char (n mod 10)])"

declare nat_text.simps [simp del]

definition int_text :: "int \<Rightarrow> string" where
  "int_text i = (if i < 0 then ''-'' @ nat_text (nat (- i)) else nat_text (nat i))"

definition zero_padded :: "nat \<Rightarrow> nat \<Rightarrow> string" where
  "zero_padded width n = (let t = nat_text n in replicate (width - length t) (CHR ''0'') @ t)"

lemma digit_char_simps [simp]:
  "digit_char 0 = CHR ''0''" "digit_char (Suc 0) = CHR ''1''" "digit_char 1 = CHR ''1''"
  "digit_char 2 = CHR ''2''" "digit_char 3 = CHR ''3''" "digit_char 4 = CHR ''4''"
  "digit_char 5 = CHR ''5''" "digit_char 6 = CHR ''6''" "digit_char 7 = CHR ''7''"
  "digit_char 8 = CHR ''8''" "digit_char 9 = CHR ''9''"
  by (simp_all add: digit_char_def char_of_def bit_0)

lemma nat_text_nonempty [simp]: "nat_text n \<noteq> []"
  by (subst nat_text.simps) simp

lemma digit_char_inject: "m < 10 \<Longrightarrow> n < 10 \<Longrightarrow> digit_char m = digit_char n \<longleftrightarrow> m = n"
  by (simp add: digit_char_def char_of_eq_iff take_bit_nat_eq_self)

lemma nat_text_inject: "nat_text m = nat_text n \<longleftrightarrow> m = n"
proof
  show "nat_text m = nat_text n \<Longrightarrow> m = n"
  proof (induction m arbitrary: n rule: nat_text.induct)
    case (1 m)
    show ?case
    proof (cases "m < 10")
      case True
      with "1.prems" show ?thesis
        by (cases "n < 10")
           (simp_all add: nat_text.simps [of m] nat_text.simps [of n] digit_char_inject
             Cons_eq_append_conv)
    next
      case False
      with "1.prems" show ?thesis
      proof (cases "n < 10")
        case True
        with "1.prems" False show ?thesis
          by (simp add: nat_text.simps [of m] nat_text.simps [of n] append_eq_Cons_conv)
      next
        case large: False
        with "1.prems" False have "nat_text (m div 10) = nat_text (n div 10)"
          and "m mod 10 = n mod 10"
          by (simp_all add: nat_text.simps [of m] nat_text.simps [of n] digit_char_inject)
        with "1.IH" [OF False] have "m div 10 = n div 10" by blast
        with \<open>m mod 10 = n mod 10\<close> show ?thesis by (metis div_mult_mod_eq)
      qed
    qed
  qed
qed simp

section \<open>Dictionaries\<close>

text \<open>
  A Python dictionary keeps its keys in insertion order: an association list with distinct
  keys, where \<open>d[k] = v\<close> replaces the value in place or appends a new entry.
\<close>

primrec dict_set :: "('k \<times> 'v) list \<Rightarrow> 'k \<Rightarrow> 'v \<Rightarrow> ('k \<times> 'v) list" where
  "dict_set [] k v = [(k, v)]"
| "dict_set (e # es) k v = (if fst e = k then (k, v) # es else e # dict_set es k v)"

abbreviation dict_get :: "('k \<times> 'v) list \<Rightarrow> 'k \<Rightarrow> 'v option" where
  "dict_get \<equiv> map_of"

definition dict_keys :: "('k \<times> 'v) list \<Rightarrow> 'k list" where
  "dict_keys d = map fst d"

definition dict_index :: "('k \<times> 'v) list \<Rightarrow> 'k \<Rightarrow> 'v result" where
  "dict_index d k = (case map_of d k of None \<Rightarrow> Inl KeyError | Some v \<Rightarrow> Inr v)"

text \<open>The dictionary comprehension \<open>{key(x): x for x in xs}\<close>: a later entry wins.\<close>

definition dict_of :: "('a \<Rightarrow> 'k) \<Rightarrow> 'a list \<Rightarrow> ('k \<times> 'a) list" where
  "dict_of key xs = fold (\<lambda>x d. dict_set d (key x) x) xs []"

text \<open>What the components rely on, stated for any implementation of a dictionary.\<close>

locale dictionary =
  fixes empty :: "'d"
    and lookup :: "'d \<Rightarrow> 'k \<Rightarrow> 'v option"
    and update :: "'d \<Rightarrow> 'k \<Rightarrow> 'v \<Rightarrow> 'd"
    and keys :: "'d \<Rightarrow> 'k list"
  assumes lookup_empty: "lookup empty k = None"
    and keys_empty: "keys empty = []"
    and lookup_update: "lookup (update d k v) = (lookup d)(k \<mapsto> v)"
    and keys_update: "keys (update d k v) = (if k \<in> set (keys d) then keys d else keys d @ [k])"
    and lookup_None_iff: "lookup d k = None \<longleftrightarrow> k \<notin> set (keys d)"
begin

lemma lookup_update_same: "lookup (update d k v) k = Some v"
  by (simp add: lookup_update)

lemma lookup_update_other: "j \<noteq> k \<Longrightarrow> lookup (update d k v) j = lookup d j"
  by (simp add: lookup_update)

lemma set_keys_update: "set (keys (update d k v)) = insert k (set (keys d))"
  by (auto simp: keys_update)

lemma distinct_keys_update: "distinct (keys d) \<Longrightarrow> distinct (keys (update d k v))"
  by (auto simp: keys_update)

lemma lookup_SomeD: "lookup d k = Some v \<Longrightarrow> k \<in> set (keys d)"
  using lookup_None_iff [of d k] by auto

text \<open>Filling a dictionary from a list: the last element with a key is the one found.\<close>

lemma lookup_fold:
  "lookup (fold (\<lambda>x d. update d (key x) (val x)) xs d) k =
     (case find (\<lambda>x. key x = k) (rev xs) of None \<Rightarrow> lookup d k | Some x \<Rightarrow> Some (val x))"
proof (induction xs arbitrary: d)
  case Nil
  then show ?case by simp
next
  case (Cons x xs)
  have snoc: "find P (ys @ [x]) = (case find P ys of None \<Rightarrow> if P x then Some x else None | s \<Rightarrow> s)"
    for P and ys
    by (induction ys) auto
  show ?case
    by (auto simp: Cons.IH lookup_update snoc split: option.splits)
qed

lemma set_keys_fold:
  "set (keys (fold (\<lambda>x d. update d (key x) (val x)) xs d)) = set (keys d) \<union> key ` set xs"
  by (induction xs arbitrary: d) (auto simp: set_keys_update)

lemma distinct_keys_fold:
  "distinct (keys d) \<Longrightarrow> distinct (keys (fold (\<lambda>x d. update d (key x) (val x)) xs d))"
  by (induction xs arbitrary: d) (auto simp: distinct_keys_update)

lemma keys_fold_distinct:
  "distinct (map key xs) \<Longrightarrow> set (keys d) \<inter> key ` set xs = {} \<Longrightarrow>
   keys (fold (\<lambda>x d. update d (key x) (val x)) xs d) = keys d @ map key xs"
  by (induction xs arbitrary: d) (auto simp: keys_update)

end

lemma map_of_dict_set: "map_of (dict_set d k v) = (map_of d)(k \<mapsto> v)"
  by (induction d) auto

lemma dict_keys_set:
  "dict_keys (dict_set d k v) = (if k \<in> set (dict_keys d) then dict_keys d else dict_keys d @ [k])"
  by (induction d) (auto simp: dict_keys_def)

interpretation dict: dictionary "[]" map_of dict_set dict_keys
  by unfold_locales (auto simp: map_of_dict_set dict_keys_set map_of_eq_None_iff,
      (force simp: dict_keys_def)+)

lemma dict_index_Inr: "dict_index d k = Inr v \<longleftrightarrow> map_of d k = Some v"
  by (simp add: dict_index_def split: option.splits)

text \<open>A dictionary filled from a list holds elements of the list.\<close>

lemma dict_of_value: "map_of (dict_of key xs) k = Some x \<Longrightarrow> x \<in> set xs \<and> key x = k"
proof (cases "find (\<lambda>x. key x = k) (rev xs)")
  case None
  assume "map_of (dict_of key xs) k = Some x"
  with None show ?thesis
    unfolding dict_of_def dict.lookup_fold [where val = "\<lambda>x. x"] by simp
next
  case (Some y)
  assume "map_of (dict_of key xs) k = Some x"
  with Some have "x = y" unfolding dict_of_def dict.lookup_fold [where val = "\<lambda>x. x"] by simp
  with find_SomeD [OF Some] show ?thesis by simp
qed

lemma map_of_dict_of:
  "distinct (map key xs) \<Longrightarrow> map_of (dict_of key xs) k = find (\<lambda>x. key x = k) xs"
proof -
  assume d: "distinct (map key xs)"
  have "find P (rev xs) = find P xs" if "\<And>x y. x \<in> set xs \<Longrightarrow> y \<in> set xs \<Longrightarrow> P x \<Longrightarrow> P y \<Longrightarrow> x = y" for P
    using that
  proof (cases "find P xs")
    case None
    then have "find P (rev xs) = None" by (simp add: find_None_iff)
    with None show ?thesis by simp
  next
    case (Some x)
    then have x: "x \<in> set xs" "P x" by (auto dest: find_SomeD)
    then have "find P (rev xs) \<noteq> None" by (auto simp: find_None_iff)
    then obtain y where y: "find P (rev xs) = Some y" by blast
    then have "y \<in> set xs" "P y" by (auto dest!: find_SomeD)
    with x that [of x y] y Some show ?thesis by simp
  qed
  moreover have "x = y" if "x \<in> set xs" "y \<in> set xs" "key x = k" "key y = k" for x y
    using d that by (metis distinct_map inj_onD)
  ultimately show ?thesis
    unfolding dict_of_def dict.lookup_fold [where val = "\<lambda>x. x"]
    by (auto split: option.splits)
qed

lemma map_of_dict_of_Some:
  "distinct (map key xs) \<Longrightarrow> map_of (dict_of key xs) k = Some x \<longleftrightarrow> x \<in> set xs \<and> key x = k"
proof -
  assume d: "distinct (map key xs)"
  show ?thesis
  proof
    assume "map_of (dict_of key xs) k = Some x"
    with d show "x \<in> set xs \<and> key x = k" by (auto simp: map_of_dict_of dest: find_SomeD)
  next
    assume x: "x \<in> set xs \<and> key x = k"
    then obtain y where y: "find (\<lambda>x. key x = k) xs = Some y"
      by (cases "find (\<lambda>x. key x = k) xs") (auto simp: find_None_iff)
    then have "y \<in> set xs \<and> key y = k" by (auto dest: find_SomeD)
    with d x have "x = y" by (metis distinct_map inj_onD)
    with y d show "map_of (dict_of key xs) k = Some x" by (simp add: map_of_dict_of)
  qed
qed

lemma set_dict_keys_of: "set (dict_keys (dict_of key xs)) = key ` set xs"
  using dict.set_keys_fold [where val = "\<lambda>x. x" and d = "[]" and xs = xs and key = key]
  by (simp add: dict_of_def dict_keys_def)

lemma map_of_dict_of_None: "map_of (dict_of key xs) k = None \<longleftrightarrow> k \<notin> key ` set xs"
  by (simp add: dict.lookup_None_iff set_dict_keys_of)

section \<open>Stable sorting by a key\<close>

lemma sort_key_eq_Nil [simp]: "sort_key f xs = [] \<longleftrightarrow> xs = []"
  by (metis set_empty set_sort)

lemma sort_key_idem [simp]: "sort_key f (sort_key f xs) = sort_key f xs"
  by (simp add: sort_key_id_if_sorted)

lemma sort_key_map: "sort_key f (map g xs) = map g (sort_key (\<lambda>x. f (g x)) xs)"
proof -
  have "insort_key f (g x) (map g ys) = map g (insort_key (\<lambda>x. f (g x)) x ys)" for x ys
    by (induction ys) auto
  then show ?thesis by (induction xs) auto
qed

lemma distinct_map_sort_key [simp]: "distinct (map g (sort_key f xs)) = distinct (map g xs)"
proof -
  have "mset (map g (sort_key f xs)) = mset (map g xs)" by simp
  then show ?thesis by (metis mset_eq_imp_distinct_iff)
qed

lemma sum_list_sort_key [simp]:
  "sum_list (map g (sort_key f xs)) = sum_list (map (g :: 'a \<Rightarrow> 'b :: comm_monoid_add) xs)"
proof -
  have "mset (map g (sort_key f xs)) = mset (map g xs)" by simp
  then show ?thesis by (metis sum_mset_sum_list)
qed

text \<open>
  With distinct keys the order of the input does not matter: sorting gives every collection
  of elements one canonical form.
\<close>

lemma sort_key_canonical:
  assumes "mset xs = mset ys" and "distinct (map f xs)"
  shows "sort_key f xs = sort_key f ys"
proof (rule map_inj_on [where f = f])
  have "distinct (map f ys)"
    using assms by (metis mset_eq_imp_distinct_iff mset_map)
  have "set (map f xs) = set (map f ys)"
    using assms(1) by (metis mset_eq_setD mset_map)
  then show "map f (sort_key f xs) = map f (sort_key f ys)"
    using assms(2) \<open>distinct (map f ys)\<close>
    by (intro sorted_distinct_set_unique) auto
  show "inj_on f (set (sort_key f xs) \<union> set (sort_key f ys))"
    using assms mset_eq_setD [OF assms(1)] by (simp add: distinct_map)
qed

lemma sort_canonical:
  "set xs = set ys \<Longrightarrow> distinct xs \<Longrightarrow> distinct ys \<Longrightarrow> sort xs = sort (ys :: 'a :: linorder list)"
  by (rule sorted_distinct_set_unique) auto

text \<open>\<open>tuple(sorted(set(xs)))\<close>.\<close>

definition sorted_set :: "'a :: linorder list \<Rightarrow> 'a list" where
  "sorted_set xs = sort (remdups xs)"

lemma set_sorted_set [simp]: "set (sorted_set xs) = set xs"
  by (simp add: sorted_set_def)

lemma distinct_sorted_set [simp]: "distinct (sorted_set xs)"
  by (simp add: sorted_set_def)

lemma sorted_sorted_set [simp]: "sorted (sorted_set xs)"
  by (simp add: sorted_set_def)

lemma sorted_set_eq_Nil [simp]: "sorted_set xs = [] \<longleftrightarrow> xs = []"
  by (metis set_empty set_sorted_set)

lemma sorted_set_idem [simp]: "sorted_set (sorted_set xs) = sorted_set xs"
  by (simp add: sorted_set_def distinct_remdups_id sort_key_id_if_sorted)

lemma sorted_set_id: "sorted xs \<Longrightarrow> distinct xs \<Longrightarrow> sorted_set xs = xs"
  by (simp add: sorted_set_def distinct_remdups_id sort_key_id_if_sorted)

section \<open>Values with a canonicalising constructor\<close>

text \<open>
  The frozen dataclasses of the domain check and normalise their fields in
  \<open>__post_init__\<close>. It is modelled as a function from the raw field values to the value that
  is constructed, or the error that is raised. Constructing again from the fields of a
  constructed value (what \<open>dataclasses.replace\<close> does) changes nothing and cannot fail.
\<close>

locale canonical_value =
  fixes post_init :: "'a \<Rightarrow> 'a result"
  assumes post_init_idem: "post_init x = Inr y \<Longrightarrow> post_init y = Inr y"
begin

definition canonical :: "'a \<Rightarrow> bool" where
  "canonical x \<longleftrightarrow> post_init x = Inr x"

lemma canonical_post_init: "post_init x = Inr y \<Longrightarrow> canonical y"
  by (simp add: canonical_def post_init_idem)

lemma canonical_iff: "canonical x \<longleftrightarrow> (\<exists>y. post_init y = Inr x)"
  using canonical_post_init canonical_def by blast

lemma rmap_canonical: "list_all canonical xs \<Longrightarrow> rmap post_init xs = Inr xs"
  by (induction xs) (auto simp: canonical_def)

lemma rmap_post_init_canonical: "rmap post_init xs = Inr ys \<Longrightarrow> list_all canonical ys"
  by (induction xs arbitrary: ys) (auto simp: rbind_Inr_iff intro: canonical_post_init)

end

end
