(* ===== verification/PyDecimal.thy ===== *)
theory PyDecimal
  imports Complex_Main Prelude
begin

text \<open>
  The finite decimals of Python's \<open>decimal\<close> module, as far as the engine uses them: a sign, a
  coefficient and an exponent; comparison by value; addition, subtraction, multiplication,
  division and absolute value rounded half-even to the precision of the context (80 inside
  scoring, the default 28 elsewhere); \<open>quantize(Decimal("1"))\<close>, \<open>normalize\<close>, \<open>str\<close> and
  \<open>format(_, "f")\<close>. The exponent limits of the context (999999) are not modelled: the values
  of the engine come from \<open>NUMERIC(38, 12)\<close> columns. NaN and the infinities, which the
  engine's value types reject, have no representation here.
\<close>

datatype dec = Dec (dneg: bool) (dcoef: nat) (dexp: int)

named_theorems dec_value \<open>the rational value of decimal operations\<close>

section \<open>Values and comparison\<close>

definition dval :: "dec \<Rightarrow> rat" where
  "dval d = (if dneg d then - 1 else 1) * of_nat (dcoef d) * 10 powi (dexp d)"

text \<open>The value in units of \<open>10 ^ m\<close>, for an exponent \<open>m\<close> not above the decimal's.\<close>

definition scaled :: "dec \<Rightarrow> int \<Rightarrow> int" where
  "scaled d m = (if dneg d then - 1 else 1) * int (dcoef d) * 10 ^ nat (dexp d - m)"

definition dec_less :: "dec \<Rightarrow> dec \<Rightarrow> bool" where
  "dec_less a b = (let m = min (dexp a) (dexp b) in scaled a m < scaled b m)"

definition dec_le :: "dec \<Rightarrow> dec \<Rightarrow> bool" where
  "dec_le a b \<longleftrightarrow> \<not> dec_less b a"

definition dec_is_zero :: "dec \<Rightarrow> bool" where
  "dec_is_zero a \<longleftrightarrow> dcoef a = 0"

text \<open>\<open>max(a, b)\<close> returns its second argument only where it is greater.\<close>

definition dec_max :: "dec \<Rightarrow> dec \<Rightarrow> dec" where
  "dec_max a b = (if dec_less a b then b else a)"

definition dec_of_int :: "int \<Rightarrow> dec" where
  "dec_of_int i = Dec (i < 0) (nat \<bar>i\<bar>) 0"

lemma powi_10_pos [simp]: "(0 :: rat) < 10 powi e"
  by (simp add: zero_less_power_int)

lemma powi_10_nonneg [simp]: "(0 :: rat) \<le> 10 powi e"
  by (simp add: less_imp_le)

lemma powi_10_not_nonpos [simp]: "\<not> (10 :: rat) powi e \<le> 0"
  by (simp add: not_le)

lemma powi_10_add_nat: "(10 :: rat) powi (e + int k) = 10 powi e * 10 ^ k"
  by (simp add: power_int_add)

lemma scaled_dval:
  assumes "m \<le> dexp d"
  shows "of_int (scaled d m) * 10 powi m = dval d"
proof -
  have "(10 :: rat) ^ nat (dexp d - m) * 10 powi m = 10 powi (dexp d - m) * 10 powi m"
    using assms by (simp add: power_int_def)
  also have "\<dots> = 10 powi dexp d"
    by (simp flip: power_int_add)
  finally show ?thesis by (simp add: scaled_def dval_def)
qed

lemma dec_less_iff [dec_value]: "dec_less a b \<longleftrightarrow> dval a < dval b"
proof -
  let ?m = "min (dexp a) (dexp b)"
  have "dval a < dval b \<longleftrightarrow> of_int (scaled a ?m) * (10 :: rat) powi ?m < of_int (scaled b ?m) * 10 powi ?m"
    by (simp add: scaled_dval)
  also have "\<dots> \<longleftrightarrow> scaled a ?m < scaled b ?m"
    by (simp add: mult_less_cancel_right_pos)
  finally show ?thesis by (simp add: dec_less_def Let_def)
qed

lemma dec_le_iff [dec_value]: "dec_le a b \<longleftrightarrow> dval a \<le> dval b"
  by (auto simp: dec_le_def dec_less_iff)

lemma dec_is_zero_iff [dec_value]: "dec_is_zero a \<longleftrightarrow> dval a = 0"
  by (simp add: dec_is_zero_def dval_def)

lemma dval_dec_max [dec_value]: "dval (dec_max a b) = max (dval a) (dval b)"
  by (auto simp: dec_max_def dec_less_iff)

lemma dval_dec_of_int [dec_value]: "dval (dec_of_int i) = of_int i"
  by (simp add: dval_def dec_of_int_def)

lemma dval_nonneg_iff: "0 \<le> dval d \<longleftrightarrow> \<not> dneg d \<or> dcoef d = 0"
  by (auto simp: dval_def zero_le_mult_iff)

section \<open>Rounding to a precision\<close>

fun ndigits :: "nat \<Rightarrow> nat" where
  "ndigits n = (if n < 10 then 1 else Suc (ndigits (n div 10)))"

declare ndigits.simps [simp del]

text \<open>\<open>c / m\<close> to the nearest integer, a tie to the even one (\<open>ROUND_HALF_EVEN\<close>).\<close>

definition half_even_div :: "nat \<Rightarrow> nat \<Rightarrow> nat" where
  "half_even_div c m =
     (let q = c div m; r = c mod m in if m < 2 * r \<or> (2 * r = m \<and> odd q) then q + 1 else q)"

text \<open>\<open>Decimal._fix\<close>: keep at most \<open>p\<close> digits; a carry into a new digit drops it again.\<close>

definition dec_fix :: "nat \<Rightarrow> dec \<Rightarrow> dec" where
  "dec_fix p d =
     (let n = ndigits (dcoef d) in
      if n \<le> p then d
      else let k = n - p; q = half_even_div (dcoef d) (10 ^ k)
           in if p < ndigits q then Dec (dneg d) (q div 10) (dexp d + int k + 1)
              else Dec (dneg d) q (dexp d + int k))"

lemma ndigits_pos [simp]: "0 < ndigits n"
  by (subst ndigits.simps) simp

lemma ndigits_upper: "n < 10 ^ ndigits n"
proof (induction n rule: ndigits.induct)
  case (1 n)
  show ?case
  proof (cases "n < 10")
    case True
    then show ?thesis by (simp add: ndigits.simps [of n])
  next
    case False
    with 1 have "n div 10 < 10 ^ ndigits (n div 10)" by simp
    with False show ?thesis by (simp add: ndigits.simps [of n])
  qed
qed

lemma ndigits_lower: "0 < n \<Longrightarrow> 10 ^ (ndigits n - 1) \<le> n"
proof (induction n rule: ndigits.induct)
  case (1 n)
  show ?case
  proof (cases "n < 10")
    case True
    with "1.prems" show ?thesis by (simp add: ndigits.simps [of n])
  next
    case False
    with "1.IH" have "10 ^ (ndigits (n div 10) - 1) \<le> n div 10" by simp
    then have "10 * 10 ^ (ndigits (n div 10) - 1) \<le> n" by linarith
    with False show ?thesis
      by (simp add: ndigits.simps [of n] flip: power_Suc)
  qed
qed

lemma ndigits_le_iff: "0 < p \<Longrightarrow> ndigits n \<le> p \<longleftrightarrow> n < 10 ^ p"
proof
  assume "ndigits n \<le> p"
  then have "(10 :: nat) ^ ndigits n \<le> 10 ^ p" by (simp add: power_increasing)
  with ndigits_upper [of n] show "n < 10 ^ p" by linarith
next
  assume p: "0 < p" and n: "n < 10 ^ p"
  show "ndigits n \<le> p"
  proof (cases "n = 0")
    case True
    with p show ?thesis by (simp add: ndigits.simps)
  next
    case False
    then have "(10 :: nat) ^ (ndigits n - 1) \<le> n" by (intro ndigits_lower) simp
    then have "(10 :: nat) ^ (ndigits n - 1) < 10 ^ p" using n by (rule le_less_trans)
    then have "ndigits n - 1 < p" by (rule power_less_imp_less_exp [of "10 :: nat", rotated]) simp
    then show ?thesis by simp
  qed
qed

lemma half_even_div_le: "0 < m \<Longrightarrow> c \<le> q * m \<Longrightarrow> half_even_div c m \<le> q"
proof -
  assume m: "0 < m" and c: "c \<le> q * m"
  have "c div m \<le> q" using c m by (metis div_le_mono nonzero_mult_div_cancel_right not_gr_zero)
  moreover have "c mod m = 0" if "c div m = q"
    using c that by (metis add_le_same_cancel1 div_mult_mod_eq le_zero_eq)
  ultimately show ?thesis
    by (auto simp: half_even_div_def Let_def le_eq_less_or_eq)
qed

lemma half_even_div_ge: "0 < m \<Longrightarrow> q * m \<le> c \<Longrightarrow> q \<le> half_even_div c m"
  by (auto simp: half_even_div_def Let_def less_eq_div_iff_mult_less_eq intro: le_SucI)

text \<open>The rounded quotient is at most half a unit away.\<close>

lemma half_even_div_error:
  assumes "0 < m"
  shows "\<bar>2 * (int (half_even_div c m) * int m) - 2 * int c\<bar> \<le> int m"
proof -
  have c: "int c = int (c div m) * int m + int (c mod m)"
    by (metis div_mult_mod_eq of_nat_add of_nat_mult)
  have r: "int (c mod m) < int m" using assms by simp
  show ?thesis
  proof (cases "m < 2 * (c mod m) \<or> (2 * (c mod m) = m \<and> odd (c div m))")
    case True
    then have "half_even_div c m = c div m + 1" and "int m \<le> 2 * int (c mod m)"
      by (auto simp: half_even_div_def Let_def)
    with c r show ?thesis by (simp add: distrib_right)
  next
    case False
    then have "half_even_div c m = c div m" and "2 * int (c mod m) \<le> int m"
      by (auto simp: half_even_div_def Let_def)
    with c show ?thesis by simp
  qed
qed

text \<open>A tie goes to the even neighbour.\<close>

lemma half_even_div_tie:
  "0 < m \<Longrightarrow> 2 * (c mod m) = m \<Longrightarrow> even (half_even_div c m)"
  by (auto simp: half_even_div_def Let_def)

text \<open>The rounded decimal: a multiple of the new unit, whether or not a carry drops a digit.\<close>

definition dropped_digits :: "nat \<Rightarrow> dec \<Rightarrow> nat" where
  "dropped_digits p d = ndigits (dcoef d) - p"

lemma half_even_div_bound:
  assumes "0 < p" and "p < ndigits c"
  shows "half_even_div c (10 ^ (ndigits c - p)) \<le> 10 ^ p"
proof (rule half_even_div_le)
  have "c < 10 ^ ndigits c" by (rule ndigits_upper)
  also have "(10 :: nat) ^ ndigits c = 10 ^ p * 10 ^ (ndigits c - p)"
    using assms(2) by (simp flip: power_add)
  finally show "c \<le> 10 ^ p * 10 ^ (ndigits c - p)" by simp
qed simp

lemma dval_dec_fix:
  assumes "0 < p" and "p < ndigits (dcoef d)"
  shows "dval (dec_fix p d) =
    (if dneg d then - 1 else 1) *
    of_nat (half_even_div (dcoef d) (10 ^ dropped_digits p d)) *
    10 powi (dexp d + int (dropped_digits p d))"
proof -
  let ?k = "ndigits (dcoef d) - p" and ?q = "half_even_div (dcoef d) (10 ^ (ndigits (dcoef d) - p))"
  show ?thesis
  proof (cases "p < ndigits ?q")
    case True
    with assms half_even_div_bound [OF assms] have q: "?q = 10 ^ p"
      using ndigits_le_iff [of p ?q] by simp
    then have "10 dvd ?q" using assms(1) by (simp add: dvd_power)
    then have "(of_nat ?q :: rat) = of_nat (?q div 10) * 10" by (metis dvd_div_mult_self of_nat_mult of_nat_numeral)
    with True assms show ?thesis
      by (simp add: dec_fix_def Let_def dval_def dropped_digits_def power_int_add add.assoc)
  next
    case False
    with assms show ?thesis by (simp add: dec_fix_def Let_def dval_def dropped_digits_def)
  qed
qed

lemma dec_fix_exact: "ndigits (dcoef d) \<le> p \<Longrightarrow> dec_fix p d = d"
  by (simp add: dec_fix_def)

lemma dec_fix_zero [simp]: "0 < p \<Longrightarrow> dcoef d = 0 \<Longrightarrow> dec_fix p d = d"
  by (simp add: dec_fix_def ndigits.simps [of 0])

lemma dneg_dec_fix [simp]: "dneg (dec_fix p d) = dneg d"
  by (simp add: dec_fix_def Let_def)

lemma ndigits_dec_fix:
  assumes "0 < p"
  shows "ndigits (dcoef (dec_fix p d)) \<le> p"
proof (cases "ndigits (dcoef d) \<le> p")
  case True
  then show ?thesis by (simp add: dec_fix_def)
next
  case False
  let ?q = "half_even_div (dcoef d) (10 ^ (ndigits (dcoef d) - p))"
  have "?q \<le> 10 ^ p" using False assms by (intro half_even_div_bound) auto
  then have "?q div 10 < 10 ^ p" using assms by (simp add: div_less_iff_less_mult order_le_less_trans)
  then have "ndigits (?q div 10) \<le> p" by (simp add: ndigits_le_iff assms)
  with False show ?thesis by (auto simp: dec_fix_def Let_def)
qed

text \<open>
  Rounding is correct: the result has at most \<open>p\<close> digits and is at most half a unit of the
  last kept digit away.
\<close>

lemma dec_fix_error:
  assumes "0 < p"
  shows "\<bar>dval (dec_fix p d) - dval d\<bar> \<le> 10 powi (dexp d + int (dropped_digits p d)) / 2"
proof (cases "ndigits (dcoef d) \<le> p")
  case True
  then show ?thesis by (simp add: dec_fix_exact less_imp_le)
next
  case False
  let ?k = "dropped_digits p d" and ?c = "dcoef d"
  let ?q = "half_even_div ?c (10 ^ ?k)"
  have v: "dval d = (if dneg d then - 1 else 1) * of_nat ?c / 10 ^ ?k * 10 powi (dexp d + int ?k)"
    by (simp add: dval_def power_int_add)
  have "\<bar>2 * (int ?q * int (10 ^ ?k)) - 2 * int ?c\<bar> \<le> int (10 ^ ?k)"
    by (rule half_even_div_error) simp
  then have "\<bar>2 * (of_nat ?q * 10 ^ ?k) - 2 * of_nat ?c\<bar> \<le> (10 ^ ?k :: rat)"
    by (metis (mono_tags, lifting) of_int_abs of_int_diff of_int_le_iff of_int_mult of_int_numeral
        of_int_of_nat_eq of_nat_numeral of_nat_power)
  moreover have "of_nat ?q - of_nat ?c / 10 ^ ?k
      = (2 * (of_nat ?q * 10 ^ ?k) - 2 * of_nat ?c) / (2 * 10 ^ ?k :: rat)"
    by (simp add: field_simps)
  ultimately have le: "\<bar>of_nat ?q - of_nat ?c / 10 ^ ?k\<bar> \<le> (1 / 2 :: rat)"
    by (simp only: abs_divide) (simp add: divide_le_eq)
  have "dval (dec_fix p d) - dval d
      = (if dneg d then - 1 else 1) * (of_nat ?q - of_nat ?c / 10 ^ ?k) * 10 powi (dexp d + int ?k)"
    using False assms dval_dec_fix [of p d] v by (simp add: algebra_simps)
  then have "\<bar>dval (dec_fix p d) - dval d\<bar>
      = \<bar>of_nat ?q - of_nat ?c / 10 ^ ?k\<bar> * 10 powi (dexp d + int ?k)"
    by (auto simp: abs_mult less_imp_le)
  also have "\<dots> \<le> 1 / 2 * 10 powi (dexp d + int ?k)"
    using le by (intro mult_right_mono) (auto simp: less_imp_le)
  finally show ?thesis by simp
qed

text \<open>Rounding respects every integer bound the precision can represent.\<close>

lemma dec_fix_nonneg: "0 \<le> dval d \<Longrightarrow> 0 < p \<Longrightarrow> 0 \<le> dval (dec_fix p d)"
proof -
  assume d: "0 \<le> dval d" and p: "0 < p"
  have "dcoef (dec_fix p d) = 0" if "dcoef d = 0" using that p by simp
  with d show ?thesis by (auto simp: dval_nonneg_iff)
qed

lemma dec_fix_nonpos: "dval d \<le> 0 \<Longrightarrow> 0 < p \<Longrightarrow> dval (dec_fix p d) \<le> 0"
proof -
  assume d: "dval d \<le> 0" and p: "0 < p"
  show ?thesis
  proof (cases "dcoef d = 0")
    case True
    with d p show ?thesis by simp
  next
    case False
    with d have "dneg d" by (auto simp: dval_def mult_le_0_iff split: if_splits)
    then show ?thesis by (simp add: dval_def mult_nonneg_nonneg less_imp_le)
  qed
qed

lemma dec_fix_le_nat:
  assumes p: "0 < p" and le: "dval d \<le> of_nat b" and b: "b < 10 ^ p"
  shows "dval (dec_fix p d) \<le> of_nat b"
proof (cases "dneg d \<or> ndigits (dcoef d) \<le> p")
  case True
  then show ?thesis
  proof
    assume "dneg d"
    then have "dval d \<le> 0" by (simp add: dval_def mult_nonneg_nonneg less_imp_le)
    then have "dval (dec_fix p d) \<le> 0" by (rule dec_fix_nonpos [OF _ p])
    then show ?thesis by (meson of_nat_0_le_iff order_trans)
  next
    assume "ndigits (dcoef d) \<le> p"
    with le show ?thesis by (simp add: dec_fix_exact)
  qed
next
  case False
  let ?c = "dcoef d" and ?n = "ndigits (dcoef d)" and ?e = "dexp d"
  let ?k = "?n - p"
  have cpos: "0 < ?c" using False p by (cases "?c = 0") (auto simp: ndigits.simps [of 0])
  have val: "dval d = of_nat ?c * 10 powi ?e" using False by (simp add: dval_def)
  have small: "?e + int ?k \<le> 0"
  proof -
    have "(10 :: rat) powi (int (?n - 1) + ?e) = of_nat (10 ^ (?n - 1)) * 10 powi ?e"
      by (simp add: power_int_add)
    also have "\<dots> \<le> of_nat ?c * 10 powi ?e"
      using ndigits_lower [OF cpos]
      by (intro mult_right_mono) (simp_all only: of_nat_le_iff powi_10_nonneg)
    also have "\<dots> \<le> of_nat b" using le val by simp
    also have "\<dots> < of_nat (10 ^ p)" using b by (simp only: of_nat_less_iff)
    also have "\<dots> = 10 powi (int p)" by simp
    finally have "int (?n - 1) + ?e < int p"
      by (intro power_int_le_imp_less_exp [of "10 :: rat"]) simp_all
    with False show ?thesis by auto
  qed
  let ?u = "nat (- (?e + int ?k))"
  have unit: "(10 :: rat) powi (?e + int ?k) = 1 / 10 ^ ?u"
    using small by (simp add: power_int_def inverse_eq_divide power_one_over)
  have "(10 :: rat) powi ?e * (10 ^ ?u * 10 ^ ?k) = 10 powi ?e * 10 ^ ?k * 10 ^ ?u"
    by (simp only: mult_ac)
  also have "(10 :: rat) powi ?e * 10 ^ ?k = 1 / 10 ^ ?u"
    using unit by (simp only: powi_10_add_nat)
  finally have one: "(10 :: rat) powi ?e * (10 ^ ?u * 10 ^ ?k) = 1" by simp
  have "(of_nat ?c :: rat) = dval d * (10 ^ ?u * 10 ^ ?k)"
    unfolding val using one by (simp only: mult.assoc mult_1_right)
  also have "\<dots> \<le> of_nat b * (10 ^ ?u * 10 ^ ?k)"
    using le by (intro mult_right_mono) simp_all
  finally have "(of_nat ?c :: rat) \<le> of_nat (b * 10 ^ ?u * 10 ^ ?k)"
    by (simp add: mult.assoc)
  then have "?c \<le> b * 10 ^ ?u * 10 ^ ?k" by (simp only: of_nat_le_iff)
  then have "half_even_div ?c (10 ^ ?k) \<le> b * 10 ^ ?u" by (intro half_even_div_le) simp_all
  then have "(of_nat (half_even_div ?c (10 ^ ?k)) :: rat) \<le> of_nat (b * 10 ^ ?u)"
    by (simp only: of_nat_le_iff)
  then have "of_nat (half_even_div ?c (10 ^ ?k)) * (1 / 10 ^ ?u) \<le> (of_nat b * 10 ^ ?u) * (1 / 10 ^ ?u :: rat)"
    by (intro mult_right_mono) simp_all
  with False p unit show ?thesis
    by (simp add: dval_dec_fix dropped_digits_def)
qed

section \<open>Arithmetic in a context of precision p\<close>

definition dec_neg :: "dec \<Rightarrow> dec" where
  "dec_neg a = Dec (\<not> dneg a) (dcoef a) (dexp a)"

text \<open>The exact sum; an exact zero is negative only where both operands are.\<close>

definition exact_add :: "dec \<Rightarrow> dec \<Rightarrow> dec" where
  "exact_add a b =
     (let m = min (dexp a) (dexp b); s = scaled a m + scaled b m
      in if s = 0 then Dec (dcoef a = 0 \<and> dcoef b = 0 \<and> dneg a \<and> dneg b) 0 m
         else Dec (s < 0) (nat \<bar>s\<bar>) m)"

definition exact_mul :: "dec \<Rightarrow> dec \<Rightarrow> dec" where
  "exact_mul a b = Dec (dneg a \<noteq> dneg b) (dcoef a * dcoef b) (dexp a + dexp b)"

definition dec_add :: "nat \<Rightarrow> dec \<Rightarrow> dec \<Rightarrow> dec" where
  "dec_add p a b = dec_fix p (exact_add a b)"

definition dec_sub :: "nat \<Rightarrow> dec \<Rightarrow> dec \<Rightarrow> dec" where
  "dec_sub p a b = dec_add p a (dec_neg b)"

definition dec_mul :: "nat \<Rightarrow> dec \<Rightarrow> dec \<Rightarrow> dec" where
  "dec_mul p a b = dec_fix p (exact_mul a b)"

definition dec_abs :: "nat \<Rightarrow> dec \<Rightarrow> dec" where
  "dec_abs p a = dec_fix p (Dec False (dcoef a) (dexp a))"

text \<open>
  Division: one guard digit more than the precision, a nonzero remainder kept visible to the
  rounding in the last digit, and an exact quotient brought back towards its ideal exponent.
\<close>

fun strip_zeros :: "nat \<Rightarrow> int \<Rightarrow> int \<Rightarrow> nat \<times> int" where
  "strip_zeros c e ideal =
     (if e < ideal \<and> c mod 10 = 0 \<and> 0 < c then strip_zeros (c div 10) (e + 1) ideal else (c, e))"

declare strip_zeros.simps [simp del]

definition dec_div :: "nat \<Rightarrow> dec \<Rightarrow> dec \<Rightarrow> dec result" where
  "dec_div p a b =
     (if dcoef b = 0 then Inl DivisionByZero
      else if dcoef a = 0 then Inr (dec_fix p (Dec (dneg a \<noteq> dneg b) 0 (dexp a - dexp b)))
      else let shift = int (ndigits (dcoef b)) - int (ndigits (dcoef a)) + int p + 1;
               e = dexp a - dexp b - shift;
               n = (if 0 \<le> shift then dcoef a * 10 ^ nat shift else dcoef a);
               d = (if 0 \<le> shift then dcoef b else dcoef b * 10 ^ nat (- shift));
               c = n div d;
               r = n mod d
           in if r \<noteq> 0
              then Inr (dec_fix p (Dec (dneg a \<noteq> dneg b) (if c mod 5 = 0 then c + 1 else c) e))
              else case strip_zeros c e (dexp a - dexp b) of
                     (c', e') \<Rightarrow> Inr (dec_fix p (Dec (dneg a \<noteq> dneg b) c' e')))"

text \<open>\<open>int(value.quantize(Decimal("1"), ROUND_HALF_EVEN))\<close>.\<close>

definition dec_quantize_int :: "nat \<Rightarrow> dec \<Rightarrow> int result" where
  "dec_quantize_int p d =
     (let c = (if 0 \<le> dexp d then dcoef d * 10 ^ nat (dexp d)
               else half_even_div (dcoef d) (10 ^ nat (- dexp d)))
      in if p < ndigits c then Inl InvalidOperation
         else Inr (if dneg d then - int c else int c))"

lemma dval_dec_neg [dec_value]: "dval (dec_neg a) = - dval a"
  by (simp add: dval_def dec_neg_def)

lemma dval_signed: "dval (Dec (s < 0) (nat \<bar>s\<bar>) m) = of_int s * 10 powi m"
  by (cases "s < 0") (simp_all add: dval_def)

lemma dval_exact_add: "dval (exact_add a b) = dval a + dval b"
proof -
  let ?m = "min (dexp a) (dexp b)"
  let ?s = "scaled a ?m + scaled b ?m"
  have "dval a + dval b = of_int ?s * 10 powi ?m"
    unfolding of_int_add distrib_right by (simp only: scaled_dval min.cobounded1 min.cobounded2)
  moreover have "dval (Dec (?s < 0) (nat \<bar>?s\<bar>) ?m) = of_int ?s * 10 powi ?m"
    by (rule dval_signed)
  moreover have "dval (Dec z 0 ?m) = 0" for z
    by (simp add: dval_def)
  ultimately show ?thesis by (simp only: exact_add_def Let_def if_distrib [of dval]) simp
qed

lemma dval_exact_mul: "dval (exact_mul a b) = dval a * dval b"
  by (auto simp: dval_def exact_mul_def power_int_add)

lemma dval_Dec_False: "dval (Dec False (dcoef a) (dexp a)) = \<bar>dval a\<bar>"
  by (auto simp: dval_def abs_mult)

lemma dec_abs_nonneg: "0 < p \<Longrightarrow> 0 \<le> dval (dec_abs p a)"
  unfolding dec_abs_def by (rule dec_fix_nonneg) (simp_all add: dval_Dec_False)

lemma dec_sub_zero_iff: "0 < p \<Longrightarrow> dec_is_zero (dec_sub p a b) \<longleftrightarrow> dval a = dval b"
proof -
  assume p: "0 < p"
  have coef0: "dcoef (dec_fix p d) = 0 \<longleftrightarrow> dcoef d = 0" for d
  proof (cases "ndigits (dcoef d) \<le> p")
    case True
    then show ?thesis by (simp add: dec_fix_exact)
  next
    case False
    let ?n = "ndigits (dcoef d)"
    let ?q = "half_even_div (dcoef d) (10 ^ (?n - p))"
    have c: "dcoef d \<noteq> 0" using False p by (intro notI) (simp add: ndigits.simps [of 0])
    then have "10 ^ (?n - 1) \<le> dcoef d" by (intro ndigits_lower) simp
    moreover have "(10 :: nat) ^ (?n - 1) = 10 ^ (p - 1) * 10 ^ (?n - p)"
      using False p by (simp flip: power_add)
    ultimately have q: "10 ^ (p - 1) \<le> ?q" by (intro half_even_div_ge) simp_all
    then have "?q \<noteq> 0" by (metis le_zero_eq power_not_zero zero_neq_numeral)
    moreover have "?q div 10 \<noteq> 0" if "p < ndigits ?q"
    proof -
      have "10 ^ p \<le> ?q" using that p by (metis ndigits_le_iff not_le)
      moreover have "(10 :: nat) ^ 1 \<le> 10 ^ p" using p by (intro power_increasing) auto
      ultimately show ?thesis by (simp add: div_eq_0_iff)
    qed
    ultimately show ?thesis using False c by (auto simp: dec_fix_def Let_def)
  qed
  have "dec_is_zero (dec_sub p a b) \<longleftrightarrow> dval (exact_add a (dec_neg b)) = 0"
    by (simp add: dec_sub_def dec_add_def dec_is_zero_def coef0 flip: dec_is_zero_iff)
  then show ?thesis by (simp add: dval_exact_add dval_dec_neg)
qed

lemma dec_div_total: "dcoef b \<noteq> 0 \<Longrightarrow> \<exists>q. dec_div p a b = Inr q"
  by (auto simp: dec_div_def Let_def split: prod.split)

lemma dec_div_nonneg:
  assumes "dec_div p a b = Inr q" and "0 \<le> dval a" and "0 \<le> dval b" and "0 < p"
  shows "0 \<le> dval q"
proof (cases "dcoef a = 0")
  case True
  with assms show ?thesis by (auto simp: dec_div_def dval_nonneg_iff split: if_splits)
next
  case False
  with assms(1) have "dcoef b \<noteq> 0" by (auto simp: dec_div_def split: if_splits)
  with assms(2,3) False have "dneg a = dneg b" by (auto simp: dval_nonneg_iff)
  with assms(1) False show ?thesis
    by (auto simp: dec_div_def Let_def dval_nonneg_iff split: if_splits prod.splits)
qed

text \<open>Quantizing keeps the integer bounds of the value, so it cannot overflow the precision.\<close>

lemma dec_quantize_int_bounds:
  assumes "0 \<le> dval d" and "dval d \<le> of_nat b" and "b < 10 ^ p" and "0 < p"
  shows "\<exists>i. dec_quantize_int p d = Inr i \<and> 0 \<le> i \<and> i \<le> int b"
proof -
  let ?c = "if 0 \<le> dexp d then dcoef d * 10 ^ nat (dexp d)
            else half_even_div (dcoef d) (10 ^ nat (- dexp d))"
  have abs: "of_nat (dcoef d) * 10 powi dexp d \<le> (of_nat b :: rat)"
    using assms(1,2) by (auto simp: dval_nonneg_iff dval_def split: if_splits)
  have "?c \<le> b"
  proof (cases "0 \<le> dexp d")
    case True
    with abs have "(of_nat (dcoef d * 10 ^ nat (dexp d)) :: rat) \<le> of_nat b"
      by (simp add: power_int_def)
    with True show ?thesis by (simp only: of_nat_le_iff if_True)
  next
    case False
    have "of_nat (dcoef d) = of_nat (dcoef d) * 10 powi dexp d * (10 ^ nat (- dexp d) :: rat)"
      using False powi_10_add_nat [of "dexp d" "nat (- dexp d)"] by (simp add: mult.assoc)
    also have "\<dots> \<le> of_nat b * 10 ^ nat (- dexp d)"
      using abs by (intro mult_right_mono) simp_all
    finally have "(of_nat (dcoef d) :: rat) \<le> of_nat (b * 10 ^ nat (- dexp d))" by simp
    then have "dcoef d \<le> b * 10 ^ nat (- dexp d)" by (simp only: of_nat_le_iff)
    with False show ?thesis by (simp add: half_even_div_le)
  qed
  moreover from this assms(3) have "?c < 10 ^ p" by (rule le_less_trans)
  then have "ndigits ?c \<le> p" by (simp only: ndigits_le_iff assms(4))
  moreover have "?c = 0" if "dneg d"
    using that assms(1) by (auto simp: dval_nonneg_iff half_even_div_def)
  ultimately show ?thesis
    by (auto simp: dec_quantize_int_def Let_def)
qed

section \<open>Normal form and text\<close>

text \<open>The default context: every operation outside a \<open>localcontext\<close> rounds to 28 digits.\<close>

definition default_precision :: nat where
  "default_precision = 28"

fun strip_all_zeros :: "nat \<Rightarrow> int \<Rightarrow> nat \<times> int" where
  "strip_all_zeros c e = (if 0 < c \<and> c mod 10 = 0 then strip_all_zeros (c div 10) (e + 1) else (c, e))"

declare strip_all_zeros.simps [simp del]

definition dec_normalize :: "nat \<Rightarrow> dec \<Rightarrow> dec" where
  "dec_normalize p d =
     (let a = dec_fix p d in
      if dcoef a = 0 then Dec (dneg a) 0 0
      else case strip_all_zeros (dcoef a) (dexp a) of (c, e) \<Rightarrow> Dec (dneg a) c e)"

definition sign_text :: "dec \<Rightarrow> string" where
  "sign_text d = (if dneg d then ''-'' else [])"

text \<open>\<open>str(d)\<close>, also the text of an f-string field: scientific for large or tiny exponents.\<close>

definition dec_text :: "dec \<Rightarrow> string" where
  "dec_text d =
     (let ds = nat_text (dcoef d); n = int (length ds); left = dexp d + n;
          dot = (if dexp d \<le> 0 \<and> - 6 < left then left else 1);
          digits = (if dot \<le> 0 then ''0.'' @ replicate (nat (- dot)) (CHR ''0'') @ ds
                    else if n \<le> dot then ds @ replicate (nat (dot - n)) (CHR ''0'')
                    else take (nat dot) ds @ ''.'' @ drop (nat dot) ds);
          ex = (if left = dot then []
                else ''E'' @ (if 0 \<le> left - dot then ''+'' else []) @ int_text (left - dot))
      in sign_text d @ digits @ ex)"

text \<open>\<open>format(d, "f")\<close>: never scientific; a zero with a positive exponent is rescaled first.\<close>

definition dec_text_f :: "dec \<Rightarrow> string" where
  "dec_text_f d =
     (let e = (if dcoef d = 0 \<and> 0 < dexp d then 0 else dexp d);
          ds = nat_text (dcoef d); n = int (length ds); dot = e + n;
          whole = (if dot < 0 then ''0''
                   else if n < dot then ds @ replicate (nat (dot - n)) (CHR ''0'')
                   else if dot = 0 then ''0'' else take (nat dot) ds);
          part = (if dot < 0 then replicate (nat (- dot)) (CHR ''0'') @ ds
                  else if n < dot then [] else drop (nat dot) ds)
      in sign_text d @ whole @ (if part = [] then [] else ''.'' @ part))"

lemma strip_all_zeros_value:
  "strip_all_zeros c e = (c', e') \<Longrightarrow> of_nat c' * 10 powi e' = (of_nat c * 10 powi e :: rat)"
proof (induction c e arbitrary: c' e' rule: strip_all_zeros.induct)
  case (1 c e)
  show ?case
  proof (cases "0 < c \<and> c mod 10 = 0")
    case True
    with "1.prems" have "strip_all_zeros (c div 10) (e + 1) = (c', e')"
      by (simp add: strip_all_zeros.simps [of c e])
    with "1.IH" [OF True] have "of_nat c' * 10 powi e' = (of_nat (c div 10) * 10 powi (e + 1) :: rat)"
      by simp
    moreover have "c = c div 10 * 10" using True by auto
    then have "(of_nat c :: rat) = of_nat (c div 10) * 10" by (metis of_nat_mult of_nat_numeral)
    ultimately show ?thesis by (simp add: power_int_add)
  next
    case False
    with "1.prems" show ?thesis by (auto simp: strip_all_zeros.simps [of c e])
  qed
qed

lemma dval_dec_normalize: "0 < p \<Longrightarrow> dval (dec_normalize p d) = dval (dec_fix p d)"
proof -
  assume "0 < p"
  obtain c e where ce: "strip_all_zeros (dcoef (dec_fix p d)) (dexp (dec_fix p d)) = (c, e)"
    by fastforce
  from strip_all_zeros_value [OF this] show ?thesis
    by (simp add: dec_normalize_def Let_def ce dval_def mult.assoc)
qed

end
