(* ===== verification/PyTime.thy ===== *)
theory PyTime
  imports PyDecimal
begin

text \<open>
  Timezone-aware timestamps and durations. After \<open>astimezone(UTC)\<close> a timestamp is the number
  of microseconds since 0001-01-01T00:00:00Z; a duration is a number of microseconds. The
  arithmetic raises \<open>OverflowError\<close> outside the years 1 to 9999 as Python does. Timestamps
  without a time zone, which the value types reject, are the concern of the ingestion layer.
\<close>

type_synonym datetime = int
type_synonym timedelta = int

definition us_per_second :: int where "us_per_second = 1000000"
definition us_per_day :: int where "us_per_day = 86400000000"

text \<open>9999-12-31T23:59:59.999999Z.\<close>

definition datetime_max :: int where
  "datetime_max = 3652059 * us_per_day - 1"

definition valid_datetime :: "datetime \<Rightarrow> bool" where
  "valid_datetime t \<longleftrightarrow> 0 \<le> t \<and> t \<le> datetime_max"

definition dt_add :: "datetime \<Rightarrow> timedelta \<Rightarrow> datetime result" where
  "dt_add t d = (if valid_datetime (t + d) then Inr (t + d) else Inl OverflowError)"

lemma dt_add_Inr: "dt_add t d = Inr u \<longleftrightarrow> u = t + d \<and> valid_datetime (t + d)"
  by (auto simp: dt_add_def)

section \<open>The calendar (\<open>datetime._ord2ymd\<close>)\<close>

definition is_leap :: "int \<Rightarrow> bool" where
  "is_leap y \<longleftrightarrow> y mod 4 = 0 \<and> (y mod 100 \<noteq> 0 \<or> y mod 400 = 0)"

definition month_lengths :: "int \<Rightarrow> int list" where
  "month_lengths y = [31, if is_leap y then 29 else 28, 31, 30, 31, 30, 31, 31, 30, 31, 30, 31]"

fun month_day :: "int list \<Rightarrow> int \<Rightarrow> int \<Rightarrow> int \<times> int" where
  "month_day (l # l' # ls) m n = (if n < l then (m, n + 1) else month_day (l' # ls) (m + 1) (n - l))"
| "month_day _ m n = (m, n + 1)"

text \<open>Year, month and day of the \<open>n\<close>-th day counted from 0001-01-01 as 0.\<close>

definition ymd_of_days :: "int \<Rightarrow> int \<times> int \<times> int" where
  "ymd_of_days n =
     (let n400 = n div 146097; r400 = n mod 146097;
          n100 = r400 div 36524; r100 = r400 mod 36524;
          n4 = r100 div 1461; r4 = r100 mod 1461;
          n1 = r4 div 365; r1 = r4 mod 365;
          y = n400 * 400 + n100 * 100 + n4 * 4 + n1 + 1
      in if n1 = 4 \<or> n100 = 4 then (y - 1, 12, 31)
         else case month_day (month_lengths y) 1 r1 of (m, d) \<Rightarrow> (y, m, d))"

text \<open>\<open>datetime.isoformat()\<close> of a UTC timestamp; the fraction only where it is not zero.\<close>

definition clock_text :: "int \<Rightarrow> string" where
  "clock_text s =
     zero_padded 2 (nat (s div 3600)) @ '':'' @ zero_padded 2 (nat (s div 60 mod 60)) @ '':'' @
     zero_padded 2 (nat (s mod 60))"

definition date_text :: "int \<Rightarrow> string" where
  "date_text n = (case ymd_of_days n of (y, m, d) \<Rightarrow>
     zero_padded 4 (nat y) @ ''-'' @ zero_padded 2 (nat m) @ ''-'' @ zero_padded 2 (nat d))"

definition isoformat :: "datetime \<Rightarrow> string" where
  "isoformat t =
     (let us = t mod us_per_second; s = t mod us_per_day div us_per_second
      in date_text (t div us_per_day) @ ''T'' @ clock_text s @
         (if us = 0 then [] else ''.'' @ zero_padded 6 (nat us)) @ ''+00:00'')"

text \<open>\<open>str(timedelta)\<close>: days where there are any, then hours without padding.\<close>

definition timedelta_text :: "timedelta \<Rightarrow> string" where
  "timedelta_text d =
     (let days = d div us_per_day; s = d mod us_per_day div us_per_second; us = d mod us_per_second
      in (if days = 0 then []
          else int_text days @ (if \<bar>days\<bar> = 1 then '' day, '' else '' days, '')) @
         nat_text (nat (s div 3600)) @ '':'' @ zero_padded 2 (nat (s div 60 mod 60)) @ '':'' @
         zero_padded 2 (nat (s mod 60)) @
         (if us = 0 then [] else ''.'' @ zero_padded 6 (nat us)))"

end
