(* ===== verification/Canonical.thy ===== *)
theory Canonical
  imports PyTime
begin

text \<open>
  The enumerations of the ingestion contract (\<open>reconciliation/domain/ingestion.py\<close>), with the
  text of each member. The engine uses the canonical side and state of a transaction.
\<close>

datatype dataset_mode = FULL_SNAPSHOT | DELTA

datatype ingestion_operation = SNAPSHOT | UPSERT | CANCEL | RETRACT

datatype reference_semantics = TRUSTED_SHARED | SECONDARY | NO_REFERENCE

datatype raw_cell_kind = MISSING_CELL | NULL_CELL | EMPTY_CELL | VALUE_CELL

datatype canonical_side = BUY | SELL

datatype canonical_state = SETTLED | CANCELLED

datatype date_fold_policy = REJECT_FOLD | EARLIER_FOLD | LATER_FOLD

primrec side_value :: "canonical_side \<Rightarrow> string" where
  "side_value BUY = ''BUY''"
| "side_value SELL = ''SELL''"

primrec state_value :: "canonical_state \<Rightarrow> string" where
  "state_value SETTLED = ''SETTLED''"
| "state_value CANCELLED = ''CANCELLED''"

lemma side_value_inject [simp]: "side_value a = side_value b \<longleftrightarrow> a = b"
  by (cases a; cases b) simp_all

lemma state_value_inject [simp]: "state_value a = state_value b \<longleftrightarrow> a = b"
  by (cases a; cases b) simp_all

end
