(* ===== verification/Contracts.thy ===== *)
theory Contracts
  imports Canonical
begin

text \<open>
  The immutable values of the engine (\<open>reconciliation/domain/reconciliation.py\<close>): one record
  per dataclass, in the order of the source. \<open>X_normal\<close> is the normalisation and
  \<open>X_checks\<close> the sequence of raises of \<open>X.__post_init__\<close>; \<open>X_post_init\<close> composes them.
  Checks by \<open>isinstance\<close> and of decimals for finiteness hold by typing. Every constructor is
  shown to be an instance of the interface \<open>canonical_value\<close>.
\<close>

definition SCORE_SCALE_BP :: int where "SCORE_SCALE_BP = 10000"

datatype record_side = LEFT | RIGHT

datatype reference_contract = SHARED_MUST_AGREE | SOURCE_LOCAL_OR_ALIAS

datatype match_feature = QUANTITY | TIMESTAMP | UNIT_PRICE | GROSS_AMOUNT

datatype pair_origin = MANUAL | AUTHORITATIVE_REFERENCE | WEIGHTED_GLOBAL

datatype unpaired_reason =
    ACCEPTED_UNMATCHED | CANCELLED_EXCLUDED | REVIEWER_RESERVED | MANUAL_ATTENTION
  | DUPLICATE_REFERENCE | PROHIBITED | NO_CANDIDATE | BELOW_ASSIGNMENT_FLOOR | AMBIGUOUS
  | COMPUTATION_LIMITED

datatype comparison_status = EXACT | WITHIN_TOLERANCE | DISCREPANT | NOT_COMPARABLE | MISSING

datatype diagnostic_kind = ACCEPTED_UNMATCHED_CANDIDATE | INCOMPLETE_SEARCH

primrec record_side_value :: "record_side \<Rightarrow> string" where
  "record_side_value LEFT = ''LEFT''"
| "record_side_value RIGHT = ''RIGHT''"

primrec feature_value :: "match_feature \<Rightarrow> string" where
  "feature_value QUANTITY = ''QUANTITY''"
| "feature_value TIMESTAMP = ''TIMESTAMP''"
| "feature_value UNIT_PRICE = ''UNIT_PRICE''"
| "feature_value GROSS_AMOUNT = ''GROSS_AMOUNT''"

primrec origin_value :: "pair_origin \<Rightarrow> string" where
  "origin_value MANUAL = ''MANUAL''"
| "origin_value AUTHORITATIVE_REFERENCE = ''AUTHORITATIVE_REFERENCE''"
| "origin_value WEIGHTED_GLOBAL = ''WEIGHTED_GLOBAL''"

primrec diagnostic_kind_value :: "diagnostic_kind \<Rightarrow> string" where
  "diagnostic_kind_value ACCEPTED_UNMATCHED_CANDIDATE = ''ACCEPTED_UNMATCHED_CANDIDATE''"
| "diagnostic_kind_value INCOMPLETE_SEARCH = ''INCOMPLETE_SEARCH''"

lemma record_side_value_inject [simp]: "record_side_value a = record_side_value b \<longleftrightarrow> a = b"
  by (cases a; cases b) simp_all

lemma feature_value_inject [simp]: "feature_value a = feature_value b \<longleftrightarrow> a = b"
  by (cases a; cases b) simp_all

lemma origin_value_inject [simp]: "origin_value a = origin_value b \<longleftrightarrow> a = b"
  by (cases a; cases b) simp_all

lemma diagnostic_kind_value_inject [simp]:
  "diagnostic_kind_value a = diagnostic_kind_value b \<longleftrightarrow> a = b"
  by (cases a; cases b) simp_all

text \<open>\<open>str | Decimal | datetime\<close> and \<open>Decimal | timedelta\<close>; \<open>None\<close> is the option's.\<close>

datatype scalar_value = SText string | SDecimal dec | SDatetime datetime

datatype difference_value = DDecimal dec | DDelta timedelta

section \<open>Validators\<close>

definition finite_decimal :: "dec \<Rightarrow> string \<Rightarrow> (bool \<times> string)" where
  "finite_decimal value name = (dneg value \<and> dcoef value \<noteq> 0, name @ '' must be nonnegative'')"

definition optional_decimal :: "dec option \<Rightarrow> string \<Rightarrow> (bool \<times> string)" where
  "optional_decimal value name =
     (case value of None \<Rightarrow> (False, []) | Some v \<Rightarrow> finite_decimal v name)"

definition nonnegative_int :: "int \<Rightarrow> string \<Rightarrow> (bool \<times> string)" where
  "nonnegative_int value name = (value < 0, name @ '' must be a nonnegative integer'')"

definition positive_int :: "int \<Rightarrow> string \<Rightarrow> (bool \<times> string) list" where
  "positive_int value name =
     [nonnegative_int value name, (value = 0, name @ '' must be greater than zero'')]"

definition score_bp :: "int \<Rightarrow> string \<Rightarrow> (bool \<times> string) list" where
  "score_bp value name =
     [nonnegative_int value name,
      (SCORE_SCALE_BP < value, name @ '' must be between 0 and 10000'')]"

text \<open>The text \<open>f"{left}\0{right}"\<close> by which edges are compared for uniqueness.\<close>

definition edge_text :: "string \<Rightarrow> string \<Rightarrow> string" where
  "edge_text left right = left @ [char_of (0 :: nat)] @ right"

lemma fst_finite_decimal [simp]: "fst (finite_decimal v name) \<longleftrightarrow> dval v < 0"
  unfolding finite_decimal_def fst_conv by (metis dval_nonneg_iff not_le)

lemma fst_optional_decimal [simp]:
  "fst (optional_decimal v name) \<longleftrightarrow> (case v of None \<Rightarrow> False | Some d \<Rightarrow> dval d < 0)"
  by (simp add: optional_decimal_def split: option.splits)

lemma fst_nonnegative_int [simp]: "fst (nonnegative_int v name) \<longleftrightarrow> v < 0"
  by (simp add: nonnegative_int_def)

section \<open>Records and snapshots\<close>

record match_record =
  mr_observation_id :: string
  mr_logical_transaction_id :: string
  mr_source_record_key :: string
  mr_state :: canonical_state
  mr_instrument :: "string option"
  mr_side :: "canonical_side option"
  mr_currency :: "string option"
  mr_quantity :: "dec option"
  mr_executed_at :: "datetime option"
  mr_unit_price :: "dec option"
  mr_gross_amount :: "dec option"
  mr_reference_value :: "string option"
  mr_shared_reference_alias :: "string option"

definition match_record_post_init :: "match_record \<Rightarrow> match_record result" where
  "match_record_post_init r = checks
     [required_text (mr_observation_id r) ''observation_id'',
      required_text (mr_logical_transaction_id r) ''logical_transaction_id'',
      required_text (mr_source_record_key r) ''source_record_key'',
      optional_text (mr_instrument r) ''instrument'',
      optional_text (mr_currency r) ''currency'',
      optional_text (mr_reference_value r) ''reference_value'',
      optional_text (mr_shared_reference_alias r) ''shared_reference_alias'',
      optional_decimal (mr_quantity r) ''quantity'',
      optional_decimal (mr_unit_price r) ''unit_price'',
      optional_decimal (mr_gross_amount r) ''gross_amount''] r"

definition eligible :: "match_record \<Rightarrow> bool" where
  "eligible r \<longleftrightarrow> mr_state r \<noteq> CANCELLED"

record engine_snapshot =
  es_left_revision_id :: string
  es_right_revision_id :: string
  es_left :: "match_record list"
  es_right :: "match_record list"

definition engine_snapshot_normal :: "engine_snapshot \<Rightarrow> engine_snapshot" where
  "engine_snapshot_normal s = s\<lparr>
     es_left := sort_key mr_observation_id (es_left s),
     es_right := sort_key mr_observation_id (es_right s)\<rparr>"

definition engine_snapshot_checks :: "engine_snapshot \<Rightarrow> (bool \<times> string) list" where
  "engine_snapshot_checks s =
     (let left_ids = map mr_observation_id (sort_key mr_observation_id (es_left s));
          right_ids = map mr_observation_id (sort_key mr_observation_id (es_right s))
      in [required_text (es_left_revision_id s) ''left_revision_id'',
          required_text (es_right_revision_id s) ''right_revision_id'',
          unique_check left_ids ''left observation identities'',
          unique_check right_ids ''right observation identities'',
          (\<exists>i \<in> set left_ids. i \<in> set right_ids,
           ''observation identities must be unique across sides'')])"

definition engine_snapshot_post_init :: "engine_snapshot \<Rightarrow> engine_snapshot result" where
  "engine_snapshot_post_init s = checks (engine_snapshot_checks s) (engine_snapshot_normal s)"

definition input_left_ids :: "engine_snapshot \<Rightarrow> string list" where
  "input_left_ids s = map mr_observation_id (es_left s)"

definition input_right_ids :: "engine_snapshot \<Rightarrow> string list" where
  "input_right_ids s = map mr_observation_id (es_right s)"

section \<open>Reviewer decisions\<close>

record manual_link =
  ml_decision_id :: string
  ml_revision_id :: string
  ml_left_id :: string
  ml_right_id :: string

definition manual_link_post_init :: "manual_link \<Rightarrow> manual_link result" where
  "manual_link_post_init m = checks
     [required_text (ml_decision_id m) ''decision_id'',
      required_text (ml_revision_id m) ''revision_id'',
      required_text (ml_left_id m) ''left_id'',
      required_text (ml_right_id m) ''right_id''] m"

record accepted_unmatched =
  au_decision_id :: string
  au_revision_id :: string
  au_record_id :: string

definition accepted_unmatched_post_init :: "accepted_unmatched \<Rightarrow> accepted_unmatched result" where
  "accepted_unmatched_post_init a = checks
     [required_text (au_decision_id a) ''decision_id'',
      required_text (au_revision_id a) ''revision_id'',
      required_text (au_record_id a) ''record_id''] a"

record rejected_relationship =
  rr_decision_id :: string
  rr_revision_id :: string
  rr_left_id :: string
  rr_right_id :: string

definition rejected_relationship_post_init ::
    "rejected_relationship \<Rightarrow> rejected_relationship result" where
  "rejected_relationship_post_init x = checks
     [required_text (rr_decision_id x) ''decision_id'',
      required_text (rr_revision_id x) ''revision_id'',
      required_text (rr_left_id x) ''left_id'',
      required_text (rr_right_id x) ''right_id''] x"

record reserved_identity =
  ri_decision_id :: string
  ri_revision_id :: string
  ri_record_id :: string

definition reserved_identity_post_init :: "reserved_identity \<Rightarrow> reserved_identity result" where
  "reserved_identity_post_init x = checks
     [required_text (ri_decision_id x) ''decision_id'',
      required_text (ri_revision_id x) ''revision_id'',
      required_text (ri_record_id x) ''record_id''] x"

record decision_inputs =
  di_manual_links :: "manual_link list"
  di_accepted_unmatched :: "accepted_unmatched list"
  di_rejected_relationships :: "rejected_relationship list"
  di_reserved_identities :: "reserved_identity list"

definition decision_inputs_normal :: "decision_inputs \<Rightarrow> decision_inputs" where
  "decision_inputs_normal d = \<lparr>
     di_manual_links =
       sort_key (\<lambda>x. (ml_left_id x, ml_right_id x, ml_decision_id x)) (di_manual_links d),
     di_accepted_unmatched =
       sort_key (\<lambda>x. (au_record_id x, au_decision_id x)) (di_accepted_unmatched d),
     di_rejected_relationships =
       sort_key (\<lambda>x. (rr_left_id x, rr_right_id x, rr_decision_id x)) (di_rejected_relationships d),
     di_reserved_identities =
       sort_key (\<lambda>x. (ri_record_id x, ri_decision_id x)) (di_reserved_identities d)\<rparr>"

definition decision_inputs_checks :: "decision_inputs \<Rightarrow> (bool \<times> string) list" where
  "decision_inputs_checks d =
     (let n = decision_inputs_normal d;
          decision_ids = map ml_decision_id (di_manual_links n) @
            map au_decision_id (di_accepted_unmatched n) @
            map rr_decision_id (di_rejected_relationships n) @
            map ri_decision_id (di_reserved_identities n);
          manual_left = map ml_left_id (di_manual_links n);
          manual_right = map ml_right_id (di_manual_links n);
          single = map au_record_id (di_accepted_unmatched n) @
            map ri_record_id (di_reserved_identities n)
      in [unique_check decision_ids ''active decision identities'',
          unique_check manual_left ''manual-link left identities'',
          unique_check manual_right ''manual-link right identities'',
          unique_check single ''single-record reservation identities'',
          (\<exists>i \<in> set manual_left \<union> set manual_right. i \<in> set single,
           ''an identity cannot be both manually linked and singly reserved''),
          unique_check (map (\<lambda>x. edge_text (rr_left_id x) (rr_right_id x))
            (di_rejected_relationships n)) ''rejected relationships''])"

definition decision_inputs_post_init :: "decision_inputs \<Rightarrow> decision_inputs result" where
  "decision_inputs_post_init d = checks (decision_inputs_checks d) (decision_inputs_normal d)"

section \<open>Policies\<close>

record blocking_pass =
  bp_pass_id :: string
  bp_version :: string
  bp_time_window :: "timedelta option"
  bp_require_instrument :: bool
  bp_require_side :: bool
  bp_require_currency :: bool
  bp_use_shared_alias :: bool

definition blocking_pass_post_init :: "blocking_pass \<Rightarrow> blocking_pass result" where
  "blocking_pass_post_init p = checks
     [required_text (bp_pass_id p) ''pass_id'',
      required_text (bp_version p) ''blocking pass version'',
      (case bp_time_window p of None \<Rightarrow> False | Some w \<Rightarrow> w \<le> 0,
       ''blocking time_window must be None or greater than zero'')] p"

record numeric_similarity =
  ns_absolute_band :: dec
  ns_relative_band :: dec

definition numeric_similarity_post_init :: "numeric_similarity \<Rightarrow> numeric_similarity result" where
  "numeric_similarity_post_init p = checks
     [finite_decimal (ns_absolute_band p) ''absolute_band'',
      finite_decimal (ns_relative_band p) ''relative_band'',
      (dec_less (dec_of_int 1) (ns_relative_band p),
       ''relative_band must be between zero and one'')] p"

record timestamp_similarity =
  ts_band :: timedelta

definition timestamp_similarity_post_init ::
    "timestamp_similarity \<Rightarrow> timestamp_similarity result" where
  "timestamp_similarity_post_init p = checks
     [(ts_band p < 0, ''timestamp similarity band must be nonnegative'')] p"

record feature_weight =
  fw_feature :: match_feature
  fw_weight_bp :: int

definition feature_weight_post_init :: "feature_weight \<Rightarrow> feature_weight result" where
  "feature_weight_post_init w = checks (score_bp (fw_weight_bp w) ''feature weight_bp'') w"

record capacity_limits =
  cl_max_component_nodes :: int
  cl_max_component_edges :: int
  cl_max_run_candidate_edges :: int
  cl_max_candidates_per_record :: int

definition capacity_limits_post_init :: "capacity_limits \<Rightarrow> capacity_limits result" where
  "capacity_limits_post_init l = checks
     (positive_int (cl_max_component_nodes l) ''max_component_nodes'' @
      positive_int (cl_max_component_edges l) ''max_component_edges'' @
      positive_int (cl_max_run_candidate_edges l) ''max_run_candidate_edges'' @
      positive_int (cl_max_candidates_per_record l) ''max_candidates_per_record'') l"

definition default_limits :: capacity_limits where
  "default_limits = \<lparr>cl_max_component_nodes = 100, cl_max_component_edges = 2500,
     cl_max_run_candidate_edges = 250000, cl_max_candidates_per_record = 200\<rparr>"

record matching_policy =
  mp_policy_version :: string
  mp_engine_version :: string
  mp_solver_version :: string
  mp_reference_contract :: reference_contract
  mp_blocking_passes :: "blocking_pass list"
  mp_feature_weights :: "feature_weight list"
  mp_quantity_similarity :: numeric_similarity
  mp_timestamp_similarity :: timestamp_similarity
  mp_unit_price_similarity :: numeric_similarity
  mp_gross_amount_similarity :: numeric_similarity
  mp_assignment_floor_bp :: int
  mp_automatic_threshold_bp :: int
  mp_minimum_global_gap_bp :: int
  mp_limits :: capacity_limits

definition matching_policy_normal :: "matching_policy \<Rightarrow> matching_policy" where
  "matching_policy_normal p = p\<lparr>
     mp_blocking_passes := sort_key (\<lambda>x. (bp_pass_id x, bp_version x)) (mp_blocking_passes p),
     mp_feature_weights := sort_key (\<lambda>x. feature_value (fw_feature x)) (mp_feature_weights p)\<rparr>"

definition all_features :: "match_feature list" where
  "all_features = [QUANTITY, TIMESTAMP, UNIT_PRICE, GROSS_AMOUNT]"

definition matching_policy_checks :: "matching_policy \<Rightarrow> (bool \<times> string) list" where
  "matching_policy_checks p =
     (let n = matching_policy_normal p;
          features = map (\<lambda>x. feature_value (fw_feature x)) (mp_feature_weights n);
          floor = mp_assignment_floor_bp p; threshold = mp_automatic_threshold_bp p;
          gap = mp_minimum_global_gap_bp p
      in [required_text (mp_policy_version p) ''policy_version'',
          required_text (mp_engine_version p) ''engine_version'',
          required_text (mp_solver_version p) ''solver_version'',
          (mp_blocking_passes p = [], ''matching policy requires at least one blocking pass''),
          unique_check (map bp_pass_id (mp_blocking_passes n)) ''blocking pass identities'',
          unique_check features ''feature weights'',
          (set features \<noteq> set (map feature_value all_features),
           ''matching policy must weight every matching feature exactly once''),
          (sum_list (map fw_weight_bp (mp_feature_weights n)) \<noteq> SCORE_SCALE_BP,
           ''feature weights must total 10000 basis points'')] @
         score_bp floor ''assignment_floor_bp'' @
         score_bp threshold ''automatic_threshold_bp'' @
         score_bp gap ''minimum_global_gap_bp'' @
         [(threshold \<le> floor, ''assignment floor must be lower than automatic threshold''),
          (threshold < gap, ''minimum global gap cannot exceed automatic threshold'')])"

definition matching_policy_post_init :: "matching_policy \<Rightarrow> matching_policy result" where
  "matching_policy_post_init p = checks (matching_policy_checks p) (matching_policy_normal p)"

text \<open>\<open>MatchingPolicy.initial_demo()\<close> with its default arguments, before normalisation.\<close>

definition demo_blocking_pass :: blocking_pass where
  "demo_blocking_pass = \<lparr>bp_pass_id = ''general-compatible-24h'', bp_version = ''1'',
     bp_time_window = Some us_per_day, bp_require_instrument = True, bp_require_side = True,
     bp_require_currency = True, bp_use_shared_alias = False\<rparr>"

definition demo_numeric :: "dec \<Rightarrow> numeric_similarity" where
  "demo_numeric band = \<lparr>ns_absolute_band = band, ns_relative_band = Dec False 1 (- 2)\<rparr>"

definition demo_matching_policy :: matching_policy where
  "demo_matching_policy = \<lparr>
     mp_policy_version = ''demo-matching-v1'',
     mp_engine_version = ''reconciliation-engine-v1'',
     mp_solver_version = ''scipy-1.18.1-linear-sum-assignment-v1'',
     mp_reference_contract = SHARED_MUST_AGREE,
     mp_blocking_passes = [demo_blocking_pass],
     mp_feature_weights =
       [\<lparr>fw_feature = QUANTITY, fw_weight_bp = 3500\<rparr>,
        \<lparr>fw_feature = TIMESTAMP, fw_weight_bp = 2500\<rparr>,
        \<lparr>fw_feature = UNIT_PRICE, fw_weight_bp = 1500\<rparr>,
        \<lparr>fw_feature = GROSS_AMOUNT, fw_weight_bp = 2500\<rparr>],
     mp_quantity_similarity = demo_numeric (Dec False 0 0),
     mp_timestamp_similarity = \<lparr>ts_band = 600000000\<rparr>,
     mp_unit_price_similarity = demo_numeric (Dec False 1 (- 2)),
     mp_gross_amount_similarity = demo_numeric (Dec False 1 (- 2)),
     mp_assignment_floor_bp = 7000,
     mp_automatic_threshold_bp = 9000,
     mp_minimum_global_gap_bp = 800,
     mp_limits = default_limits\<rparr>"

record decimal_tolerance =
  dt_absolute :: dec
  dt_relative :: dec

definition decimal_tolerance_post_init :: "decimal_tolerance \<Rightarrow> decimal_tolerance result" where
  "decimal_tolerance_post_init t = checks
     [finite_decimal (dt_absolute t) ''decimal tolerance absolute'',
      finite_decimal (dt_relative t) ''decimal tolerance relative'',
      (dec_less (dec_of_int 1) (dt_relative t),
       ''decimal tolerance relative must be between zero and one'')] t"

record comparison_policy =
  cp_policy_version :: string
  cp_timestamp_tolerance :: timedelta
  cp_quantity_tolerance :: decimal_tolerance
  cp_unit_price_tolerance :: decimal_tolerance
  cp_gross_amount_tolerance :: decimal_tolerance
  cp_compatible_state_pairs :: "(canonical_state \<times> canonical_state) list"

definition comparison_policy_normal :: "comparison_policy \<Rightarrow> comparison_policy" where
  "comparison_policy_normal p = p\<lparr>cp_compatible_state_pairs :=
     sort_key (\<lambda>x. (state_value (fst x), state_value (snd x)))
       (remdups (cp_compatible_state_pairs p))\<rparr>"

definition comparison_policy_post_init :: "comparison_policy \<Rightarrow> comparison_policy result" where
  "comparison_policy_post_init p = checks
     [required_text (cp_policy_version p) ''comparison policy_version'',
      (cp_timestamp_tolerance p < 0, ''timestamp_tolerance must be nonnegative'')]
     (comparison_policy_normal p)"

definition demo_comparison_policy :: comparison_policy where
  "demo_comparison_policy = \<lparr>
     cp_policy_version = ''demo-comparison-v1'',
     cp_timestamp_tolerance = 60000000,
     cp_quantity_tolerance = \<lparr>dt_absolute = Dec False 1 (- 8), dt_relative = Dec False 0 0\<rparr>,
     cp_unit_price_tolerance = \<lparr>dt_absolute = Dec False 1 (- 2), dt_relative = Dec False 0 0\<rparr>,
     cp_gross_amount_tolerance = \<lparr>dt_absolute = Dec False 5 (- 2), dt_relative = Dec False 0 0\<rparr>,
     cp_compatible_state_pairs = [(SETTLED, SETTLED)]\<rparr>"

end
