(* ===== verification/Evidence.thy ===== *)
theory Evidence
  imports Contracts
begin

text \<open>
  The evidence and outcome values of the engine (\<open>reconciliation/domain/reconciliation.py\<close>,
  from \<open>FeatureEvidence\<close> to \<open>EngineResult\<close>), in the same shape as the contracts.
\<close>

section \<open>Feature and candidate evidence\<close>

record feature_evidence =
  fe_feature :: match_feature
  fe_left_value :: "scalar_value option"
  fe_right_value :: "scalar_value option"
  fe_difference :: "difference_value option"
  fe_band :: difference_value
  fe_present :: bool
  fe_similarity_bp :: int
  fe_weight_bp :: int
  fe_contribution_bp :: int
  fe_rule :: string

primrec is_datetime :: "scalar_value \<Rightarrow> bool" where
  "is_datetime (SText _) = False" | "is_datetime (SDecimal _) = False" | "is_datetime (SDatetime _) = True"

primrec is_decimal :: "scalar_value \<Rightarrow> bool" where
  "is_decimal (SText _) = False" | "is_decimal (SDecimal _) = True" | "is_decimal (SDatetime _) = False"

primrec is_delta :: "difference_value \<Rightarrow> bool" where
  "is_delta (DDecimal _) = False" | "is_delta (DDelta _) = True"

primrec difference_negative :: "difference_value \<Rightarrow> bool" where
  "difference_negative (DDecimal d) = (dneg d \<and> dcoef d \<noteq> 0)"
| "difference_negative (DDelta t) = (t < 0)"

definition none_or :: "('a \<Rightarrow> bool) \<Rightarrow> 'a option \<Rightarrow> bool" where
  "none_or p v = (case v of None \<Rightarrow> True | Some x \<Rightarrow> p x)"

definition feature_evidence_post_init :: "feature_evidence \<Rightarrow> feature_evidence result" where
  "feature_evidence_post_init f =
     (let timestamp = (fe_feature f = TIMESTAMP);
          values_valid = (if timestamp
            then none_or is_datetime (fe_left_value f) \<and> none_or is_datetime (fe_right_value f)
            else none_or is_decimal (fe_left_value f) \<and> none_or is_decimal (fe_right_value f));
          shape_valid = (if timestamp
            then is_delta (fe_band f) \<and> none_or is_delta (fe_difference f)
            else \<not> is_delta (fe_band f) \<and> none_or (\<lambda>d. \<not> is_delta d) (fe_difference f));
          values_present = (fe_left_value f \<noteq> None \<and> fe_right_value f \<noteq> None)
      in checks
       (score_bp (fe_similarity_bp f) ''similarity_bp'' @
        score_bp (fe_weight_bp f) ''weight_bp'' @
        score_bp (fe_contribution_bp f) ''contribution_bp'' @
        [required_text (fe_rule f) ''feature rule'',
         (\<not> fe_present f \<and> (fe_similarity_bp f \<noteq> 0 \<or> fe_contribution_bp f \<noteq> 0),
          ''a missing feature must contribute zero''),
         (fe_weight_bp f < fe_contribution_bp f, ''feature contribution cannot exceed its weight''),
         (difference_negative (fe_band f),
          (if is_delta (fe_band f)
           then ''feature band must be a nonnegative Decimal or timedelta''
           else ''feature band must be nonnegative'')),
         (\<not> values_valid \<or> \<not> shape_valid,
          ''feature evidence values, difference, and band must match its feature''),
         (fe_present f \<noteq> values_present \<or> fe_present f \<noteq> (fe_difference f \<noteq> None),
          ''feature presence must match its values and difference'')]) f)"

record candidate_evidence =
  ce_left_id :: string
  ce_right_id :: string
  ce_blocking_reasons :: "string list"
  ce_features :: "feature_evidence list"
  ce_contradictions :: "string list"
  ce_coverage_failures :: "string list"
  ce_coverage_sufficient :: bool
  ce_complete_computation :: bool
  ce_score_bp :: int
  ce_score_label :: string

abbreviation ce_edge :: "candidate_evidence \<Rightarrow> string \<times> string" where
  "ce_edge c \<equiv> (ce_left_id c, ce_right_id c)"

definition candidate_evidence_normal :: "candidate_evidence \<Rightarrow> candidate_evidence" where
  "candidate_evidence_normal c = c\<lparr>
     ce_blocking_reasons := sorted_set (ce_blocking_reasons c),
     ce_features := sort_key (\<lambda>f. feature_value (fe_feature f)) (ce_features c),
     ce_contradictions := sorted_set (ce_contradictions c),
     ce_coverage_failures := sorted_set (ce_coverage_failures c)\<rparr>"

definition candidate_evidence_checks :: "candidate_evidence \<Rightarrow> (bool \<times> string) list" where
  "candidate_evidence_checks c =
     (let n = candidate_evidence_normal c;
          names = map (\<lambda>f. feature_value (fe_feature f)) (ce_features n)
      in [required_text (ce_left_id c) ''candidate left_id'',
          required_text (ce_right_id c) ''candidate right_id'',
          (ce_blocking_reasons c = [], ''candidate evidence requires a blocking reason''),
          (list_ex blank (ce_blocking_reasons c), ''blocking reason must be nonblank text''),
          (list_ex blank (ce_contradictions c), ''contradiction must be nonblank text''),
          (list_ex blank (ce_coverage_failures c), ''coverage failure must be nonblank text''),
          unique_check names ''candidate feature evidence'',
          (set names \<noteq> set (map feature_value all_features),
           ''candidate evidence must record every matching feature'')] @
         score_bp (ce_score_bp c) ''candidate score_bp'' @
         [(ce_score_bp c \<noteq> sum_list (map fe_contribution_bp (ce_features n)),
           ''candidate score must equal feature contributions''),
          (ce_coverage_sufficient c = (ce_coverage_failures n \<noteq> []),
           ''coverage_sufficient must be true exactly when coverage failures are empty''),
          (ce_score_label c \<noteq> ''Rule score'',
           ''candidate score label must be '' @ [CHR 0x27] @ ''Rule score'' @ [CHR 0x27])])"

definition candidate_evidence_post_init :: "candidate_evidence \<Rightarrow> candidate_evidence result" where
  "candidate_evidence_post_init c =
     checks (candidate_evidence_checks c) (candidate_evidence_normal c)"

section \<open>Proposals and assignment components\<close>

record proposal_evidence =
  pe_left_id :: string
  pe_right_id :: string
  pe_score_bp :: int
  pe_counterfactual_objective_bp :: int
  pe_global_gap_bp :: int
  pe_accepted :: bool
  pe_gate_reasons :: "string list"

abbreviation pe_edge :: "proposal_evidence \<Rightarrow> string \<times> string" where
  "pe_edge p \<equiv> (pe_left_id p, pe_right_id p)"

definition proposal_evidence_post_init :: "proposal_evidence \<Rightarrow> proposal_evidence result" where
  "proposal_evidence_post_init p = checks
     ([required_text (pe_left_id p) ''proposal left_id'',
       required_text (pe_right_id p) ''proposal right_id''] @
      score_bp (pe_score_bp p) ''proposal score_bp'' @
      [nonnegative_int (pe_counterfactual_objective_bp p) ''counterfactual_objective_bp'',
       nonnegative_int (pe_global_gap_bp p) ''global_gap_bp'',
       (list_ex blank (pe_gate_reasons p), ''gate reason must be nonblank text''),
       (pe_accepted p \<and> sorted_set (pe_gate_reasons p) \<noteq> [],
        ''an accepted proposal cannot contain failing gate reasons''),
       (\<not> pe_accepted p \<and> sorted_set (pe_gate_reasons p) = [],
        ''a rejected proposal requires at least one gate reason'')])
     (p\<lparr>pe_gate_reasons := sorted_set (pe_gate_reasons p)\<rparr>)"

record component_evidence =
  ac_component_id :: string
  ac_graph_digest :: string
  ac_solver_version :: string
  ac_left_ids :: "string list"
  ac_right_ids :: "string list"
  ac_candidate_count :: int
  ac_optimal_utility_bp :: int
  ac_complete :: bool
  ac_limit_reason :: "string option"
  ac_proposals :: "proposal_evidence list"

definition component_evidence_normal :: "component_evidence \<Rightarrow> component_evidence" where
  "component_evidence_normal c = c\<lparr>
     ac_left_ids := sort (ac_left_ids c),
     ac_right_ids := sort (ac_right_ids c),
     ac_proposals := sort_key pe_edge (ac_proposals c)\<rparr>"

definition component_evidence_checks :: "component_evidence \<Rightarrow> (bool \<times> string) list" where
  "component_evidence_checks c =
     (let n = component_evidence_normal c
      in [required_text (ac_component_id c) ''component_id'',
          required_text (ac_graph_digest c) ''graph_digest'',
          required_text (ac_solver_version c) ''solver_version'',
          unique_check (ac_left_ids n) ''component left identities'',
          unique_check (ac_right_ids n) ''component right identities'',
          (ac_left_ids n = [] \<and> ac_right_ids n = [], ''assignment component cannot be empty''),
          nonnegative_int (ac_candidate_count c) ''candidate_count'',
          nonnegative_int (ac_optimal_utility_bp c) ''optimal_utility_bp'',
          optional_text (ac_limit_reason c) ''limit_reason'',
          (ac_complete c = (ac_limit_reason c \<noteq> None),
           ''complete components have no limit reason; incomplete components require one''),
          unique_check (map (\<lambda>p. edge_text (pe_left_id p) (pe_right_id p)) (ac_proposals n))
            ''component proposals'',
          (\<not> ac_complete c \<and> ac_proposals n \<noteq> [],
           ''an incomplete component cannot contain proposals''),
          (list_ex (\<lambda>p. pe_left_id p \<notin> set (ac_left_ids n) \<or> pe_right_id p \<notin> set (ac_right_ids n))
             (ac_proposals n),
           ''component proposals must reference component members''),
          (list_ex (\<lambda>p. ac_optimal_utility_bp c < pe_counterfactual_objective_bp p \<or>
              pe_global_gap_bp p \<noteq> ac_optimal_utility_bp c - pe_counterfactual_objective_bp p)
             (ac_proposals n),
           ''component proposal gaps must equal base minus counterfactual objective'')])"

definition component_evidence_post_init :: "component_evidence \<Rightarrow> component_evidence result" where
  "component_evidence_post_init c =
     checks (component_evidence_checks c) (component_evidence_normal c)"

section \<open>Field comparisons and terminal outcomes\<close>

record field_comparison =
  fc_field :: string
  fc_status :: comparison_status
  fc_left_value :: "scalar_value option"
  fc_right_value :: "scalar_value option"
  fc_signed_difference :: "difference_value option"
  fc_allowed_difference :: "difference_value option"
  fc_explanation :: string

definition same_difference_type :: "difference_value option \<Rightarrow> difference_value option \<Rightarrow> bool" where
  "same_difference_type a b = (case (a, b) of (Some x, Some y) \<Rightarrow> is_delta x = is_delta y | _ \<Rightarrow> True)"

definition field_comparison_post_init :: "field_comparison \<Rightarrow> field_comparison result" where
  "field_comparison_post_init f =
     (let signed = fc_signed_difference f; allowed = fc_allowed_difference f
      in checks
       [required_text (fc_field f) ''comparison field'',
        required_text (fc_explanation f) ''comparison explanation'',
        ((signed = None) \<noteq> (allowed = None),
         ''comparison signed and allowed differences must both be present or absent''),
        (\<not> same_difference_type signed allowed,
         ''comparison signed and allowed differences must have the same type''),
        (case allowed of None \<Rightarrow> False | Some d \<Rightarrow> \<not> is_delta d \<and> difference_negative d,
         ''comparison allowed decimal difference must be nonnegative''),
        (case allowed of None \<Rightarrow> False | Some d \<Rightarrow> is_delta d \<and> difference_negative d,
         ''comparison allowed elapsed difference must be nonnegative''),
        (fc_status f \<in> {MISSING, NOT_COMPARABLE} \<and> (signed \<noteq> None \<or> allowed \<noteq> None),
         ''missing and not-comparable comparisons cannot contain calculated differences'')] f)"

record pair_outcome =
  po_left_id :: string
  po_right_id :: string
  po_origin :: pair_origin
  po_score_bp :: "int option"
  po_global_gap_bp :: "int option"
  po_comparisons :: "field_comparison list"

abbreviation po_edge :: "pair_outcome \<Rightarrow> string \<times> string" where
  "po_edge p \<equiv> (po_left_id p, po_right_id p)"

definition pair_outcome_checks :: "pair_outcome \<Rightarrow> (bool \<times> string) list" where
  "pair_outcome_checks p =
     [required_text (po_left_id p) ''pair left_id'',
      required_text (po_right_id p) ''pair right_id''] @
     (if po_origin p = WEIGHTED_GLOBAL then
        (case (po_score_bp p, po_global_gap_bp p) of
           (Some s, Some g) \<Rightarrow>
             score_bp s ''pair score_bp'' @ [nonnegative_int g ''pair global_gap_bp'']
         | _ \<Rightarrow> [(True, ''weighted-global pairs require score and global gap'')])
      else
        [(po_score_bp p \<noteq> None \<or> po_global_gap_bp p \<noteq> None,
          ''manual and authoritative pairs do not carry heuristic scores'')]) @
     [unique_check (map fc_field (sort_key fc_field (po_comparisons p))) ''pair comparison fields'']"

definition pair_outcome_post_init :: "pair_outcome \<Rightarrow> pair_outcome result" where
  "pair_outcome_post_init p =
     checks (pair_outcome_checks p) (p\<lparr>po_comparisons := sort_key fc_field (po_comparisons p)\<rparr>)"

text \<open>\<open>PairOutcome(left, right, origin)\<close>.\<close>

definition new_pair :: "string \<Rightarrow> string \<Rightarrow> pair_origin \<Rightarrow> pair_outcome" where
  "new_pair l r origin = \<lparr>po_left_id = l, po_right_id = r, po_origin = origin, po_score_bp = None,
     po_global_gap_bp = None, po_comparisons = []\<rparr>"

record unpaired_outcome =
  uo_record_id :: string
  uo_side :: record_side
  uo_reason :: unpaired_reason
  uo_explanation :: string
  uo_related_ids :: "string list"

definition unpaired_outcome_post_init :: "unpaired_outcome \<Rightarrow> unpaired_outcome result" where
  "unpaired_outcome_post_init u = checks
     [required_text (uo_record_id u) ''unpaired record_id'',
      required_text (uo_explanation u) ''unpaired explanation'',
      unique_check (sort (uo_related_ids u)) ''unpaired related identities'']
     (u\<lparr>uo_related_ids := sort (uo_related_ids u)\<rparr>)"

record diagnostic =
  dg_kind :: diagnostic_kind
  dg_record_id :: string
  dg_candidate_id :: "string option"
  dg_candidate_current_pair_id :: "string option"
  dg_complete :: bool
  dg_explanation :: string

definition diagnostic_post_init :: "diagnostic \<Rightarrow> diagnostic result" where
  "diagnostic_post_init d = checks
     [required_text (dg_record_id d) ''diagnostic record_id'',
      optional_text (dg_candidate_id d) ''diagnostic candidate_id'',
      optional_text (dg_candidate_current_pair_id d) ''diagnostic candidate_current_pair_id'',
      required_text (dg_explanation d) ''diagnostic explanation'',
      (dg_kind d = ACCEPTED_UNMATCHED_CANDIDATE \<and> dg_candidate_id d = None,
       ''accepted-unmatched candidate diagnostic requires candidate_id''),
      (dg_kind d = INCOMPLETE_SEARCH \<and> dg_complete d,
       ''incomplete-search diagnostic cannot be complete''),
      (dg_candidate_current_pair_id d \<noteq> None \<and> dg_candidate_id d = None,
       ''diagnostic allocation requires candidate_id'')] d"

section \<open>The engine result\<close>

record engine_result =
  er_left_revision_id :: string
  er_right_revision_id :: string
  er_matching_policy_version :: string
  er_comparison_policy_version :: string
  er_engine_version :: string
  er_solver_version :: string
  er_input_left_ids :: "string list"
  er_input_right_ids :: "string list"
  er_pairs :: "pair_outcome list"
  er_unpaired :: "unpaired_outcome list"
  er_candidates :: "candidate_evidence list"
  er_components :: "component_evidence list"
  er_diagnostics :: "diagnostic list"

definition text_or_empty :: "string option \<Rightarrow> string" where
  "text_or_empty v = (case v of None \<Rightarrow> [] | Some t \<Rightarrow> t)"

definition diagnostic_key :: "diagnostic \<Rightarrow> string \<times> string \<times> string" where
  "diagnostic_key d =
     (dg_record_id d, text_or_empty (dg_candidate_id d), diagnostic_kind_value (dg_kind d))"

definition diagnostic_key_text :: "diagnostic \<Rightarrow> string" where
  "diagnostic_key_text d =
     edge_text (dg_record_id d)
       (edge_text (text_or_empty (dg_candidate_id d)) (diagnostic_kind_value (dg_kind d)))"

definition unpaired_key :: "unpaired_outcome \<Rightarrow> string \<times> string" where
  "unpaired_key u = (record_side_value (uo_side u), uo_record_id u)"

definition engine_result_normal :: "engine_result \<Rightarrow> engine_result" where
  "engine_result_normal r = r\<lparr>
     er_input_left_ids := sort (er_input_left_ids r),
     er_input_right_ids := sort (er_input_right_ids r),
     er_pairs := sort_key (\<lambda>p. (po_left_id p, po_right_id p, origin_value (po_origin p))) (er_pairs r),
     er_unpaired := sort_key unpaired_key (er_unpaired r),
     er_candidates := sort_key ce_edge (er_candidates r),
     er_components := sort_key ac_component_id (er_components r),
     er_diagnostics := sort_key diagnostic_key (er_diagnostics r)\<rparr>"

definition unpaired_ids :: "record_side \<Rightarrow> unpaired_outcome list \<Rightarrow> string list" where
  "unpaired_ids side us = map uo_record_id (filter (\<lambda>u. uo_side u = side) us)"

definition pair_key_text :: "pair_outcome \<Rightarrow> string" where
  "pair_key_text p = po_left_id p @ '':'' @ po_right_id p"

text \<open>Every text that identifies the run is nonblank, and the inputs are unique.\<close>

definition result_identity_checks :: "engine_result \<Rightarrow> (bool \<times> string) list" where
  "result_identity_checks r =
     [required_text (er_left_revision_id r) ''left_revision_id'',
      required_text (er_right_revision_id r) ''right_revision_id'',
      required_text (er_matching_policy_version r) ''matching_policy_version'',
      required_text (er_comparison_policy_version r) ''comparison_policy_version'',
      required_text (er_engine_version r) ''engine_version'',
      required_text (er_solver_version r) ''solver_version'',
      unique_check (er_input_left_ids r) ''result input left identities'',
      unique_check (er_input_right_ids r) ''result input right identities'',
      (\<exists>i \<in> set (er_input_left_ids r). i \<in> set (er_input_right_ids r),
       ''result input identities must be unique across sides'')]"

definition result_diagnostic_checks :: "engine_result \<Rightarrow> (bool \<times> string) list" where
  "result_diagnostic_checks r =
     (let inputs = set (er_input_left_ids r) \<union> set (er_input_right_ids r)
      in [unique_check (map diagnostic_key_text (er_diagnostics r)) ''decision-health diagnostics'',
          (list_ex (\<lambda>d. dg_record_id d \<notin> inputs \<or>
              (case dg_candidate_id d of None \<Rightarrow> False | Some c \<Rightarrow> c \<notin> inputs)) (er_diagnostics r),
           ''decision-health diagnostics must reference result inputs'')])"

text \<open>One terminal outcome per input record.\<close>

definition result_partition_checks :: "engine_result \<Rightarrow> (bool \<times> string) list" where
  "result_partition_checks r =
     (let paired_left = map po_left_id (er_pairs r);
          paired_right = map po_right_id (er_pairs r);
          unpaired_left = unpaired_ids LEFT (er_unpaired r);
          unpaired_right = unpaired_ids RIGHT (er_unpaired r)
      in [unique_check paired_left ''paired left identities'',
          unique_check paired_right ''paired right identities'',
          unique_check unpaired_left ''unpaired left identities'',
          unique_check unpaired_right ''unpaired right identities'',
          ((\<exists>i \<in> set paired_left. i \<in> set unpaired_left) \<or>
           (\<exists>i \<in> set paired_right. i \<in> set unpaired_right),
           ''a record cannot be both paired and unpaired''),
          (set paired_left \<union> set unpaired_left \<noteq> set (er_input_left_ids r) \<or>
           set paired_right \<union> set unpaired_right \<noteq> set (er_input_right_ids r),
           ''every input record must have exactly one terminal pair or unpaired outcome'')])"

definition result_proposals :: "engine_result \<Rightarrow> proposal_evidence list" where
  "result_proposals r = concat (map ac_proposals (er_components r))"

text \<open>The evidence is about the inputs, and weighted pairs are the accepted proposals.\<close>

definition result_evidence_checks :: "engine_result \<Rightarrow> (bool \<times> string) list" where
  "result_evidence_checks r =
     (let lefts = set (er_input_left_ids r); rights = set (er_input_right_ids r);
          candidate_by_edge = dict_of ce_edge (er_candidates r);
          proposals = result_proposals r;
          accepted_by_edge = dict_of pe_edge (filter pe_accepted proposals);
          weighted_by_edge = dict_of po_edge (filter (\<lambda>p. po_origin p = WEIGHTED_GLOBAL) (er_pairs r))
      in [unique_check (map (\<lambda>c. edge_text (ce_left_id c) (ce_right_id c)) (er_candidates r))
            ''candidate edges'',
          (list_ex (\<lambda>c. ce_left_id c \<notin> lefts \<or> ce_right_id c \<notin> rights) (er_candidates r),
           ''candidate edges must reference result inputs''),
          unique_check (map ac_component_id (er_components r)) ''assignment component identities'',
          (list_ex (\<lambda>c. \<not> set (ac_left_ids c) \<subseteq> lefts \<or> \<not> set (ac_right_ids c) \<subseteq> rights)
             (er_components r),
           ''assignment components must reference result inputs''),
          (list_ex (\<lambda>p. case dict_get candidate_by_edge (pe_edge p) of
               None \<Rightarrow> True | Some c \<Rightarrow> ce_score_bp c \<noteq> pe_score_bp p) proposals,
           ''assignment proposals must match result candidate evidence''),
          (set (dict_keys accepted_by_edge) \<noteq> set (dict_keys weighted_by_edge) \<or>
           list_ex (\<lambda>(e, p). case dict_get weighted_by_edge e of
               None \<Rightarrow> True
             | Some w \<Rightarrow> po_score_bp w \<noteq> Some (pe_score_bp p) \<or>
                 po_global_gap_bp w \<noteq> Some (pe_global_gap_bp p)) accepted_by_edge,
           ''weighted-global pairs must exactly match accepted assignment proposals''),
          (list_ex (\<lambda>d. case dg_candidate_current_pair_id d of
               None \<Rightarrow> False | Some k \<Rightarrow> k \<notin> set (map pair_key_text (er_pairs r)))
             (er_diagnostics r),
           ''diagnostic current allocations must reference result pairs'')])"

definition engine_result_checks :: "engine_result \<Rightarrow> (bool \<times> string) list" where
  "engine_result_checks r =
     (let n = engine_result_normal r
      in result_identity_checks n @ result_diagnostic_checks n @ result_partition_checks n @
         result_evidence_checks n)"

definition engine_result_post_init :: "engine_result \<Rightarrow> engine_result result" where
  "engine_result_post_init r = checks (engine_result_checks r) (engine_result_normal r)"

section \<open>Every constructor is canonicalising\<close>

text \<open>The shape all the constructors share: checks that depend on the normal form only.\<close>

lemma canonical_valueI:
  assumes "\<And>x. post_init x = checks (cs x) (nf x)"
    and "\<And>x. nf (nf x) = nf x"
    and "\<And>x. cs (nf x) = cs x"
  shows "canonical_value post_init"
proof
  fix x y
  assume "post_init x = Inr y"
  then have y: "y = nf x" and "\<forall>c \<in> set (cs x). \<not> fst c"
    by (auto simp: assms(1) checks_Inr_iff)
  with assms(3) [of x] show "post_init y = Inr y"
    by (simp add: assms(1) assms(2) checks_Inr_iff)
qed

text \<open>Constructors that only check.\<close>

lemma canonical_value_checksI:
  "(\<And>x y. post_init x = Inr y \<Longrightarrow> y = x) \<Longrightarrow> canonical_value post_init"
  by unfold_locales metis

interpretation cv_match_record: canonical_value match_record_post_init
  by (rule canonical_value_checksI) (simp add: match_record_post_init_def checks_Inr_iff)

interpretation cv_snapshot: canonical_value engine_snapshot_post_init
  by (rule canonical_valueI [OF engine_snapshot_post_init_def])
    (simp_all add: engine_snapshot_normal_def engine_snapshot_checks_def)

interpretation cv_manual_link: canonical_value manual_link_post_init
  by (rule canonical_value_checksI) (simp add: manual_link_post_init_def checks_Inr_iff)

interpretation cv_decisions: canonical_value decision_inputs_post_init
proof (rule canonical_valueI [OF decision_inputs_post_init_def])
  show idem: "decision_inputs_normal (decision_inputs_normal x) = decision_inputs_normal x" for x
    by (simp add: decision_inputs_normal_def)
  show "decision_inputs_checks (decision_inputs_normal x) = decision_inputs_checks x" for x
    by (simp add: decision_inputs_checks_def idem)
qed

interpretation cv_policy: canonical_value matching_policy_post_init
proof (rule canonical_valueI [OF matching_policy_post_init_def])
  show idem: "matching_policy_normal (matching_policy_normal x) = matching_policy_normal x" for x
    by (simp add: matching_policy_normal_def)
  show "matching_policy_checks (matching_policy_normal x) = matching_policy_checks x" for x
    by (simp add: matching_policy_checks_def idem) (simp add: matching_policy_normal_def)
qed

interpretation cv_comparison_policy: canonical_value comparison_policy_post_init
proof (rule canonical_valueI [OF comparison_policy_post_init_def])
  show "comparison_policy_normal (comparison_policy_normal x) = comparison_policy_normal x" for x
    by (simp add: comparison_policy_normal_def distinct_remdups_id)
qed (simp add: comparison_policy_normal_def)

interpretation cv_feature: canonical_value feature_evidence_post_init
  by (rule canonical_value_checksI) (simp add: feature_evidence_post_init_def checks_Inr_iff Let_def)

interpretation cv_candidate: canonical_value candidate_evidence_post_init
proof (rule canonical_valueI [OF candidate_evidence_post_init_def])
  show idem: "candidate_evidence_normal (candidate_evidence_normal x) = candidate_evidence_normal x" for x
    by (simp add: candidate_evidence_normal_def)
  have "list_ex p (sorted_set xs) = list_ex p xs" for p and xs :: "string list"
    by (simp add: list_ex_iff)
  then show "candidate_evidence_checks (candidate_evidence_normal x) = candidate_evidence_checks x" for x
    by (simp add: candidate_evidence_checks_def idem) (simp add: candidate_evidence_normal_def)
qed

interpretation cv_proposal: canonical_value proposal_evidence_post_init
  by (rule canonical_valueI [OF proposal_evidence_post_init_def]) (simp_all add: list_ex_iff)

interpretation cv_component: canonical_value component_evidence_post_init
proof (rule canonical_valueI [OF component_evidence_post_init_def])
  show idem: "component_evidence_normal (component_evidence_normal x) = component_evidence_normal x" for x
    by (simp add: component_evidence_normal_def)
  show "component_evidence_checks (component_evidence_normal x) = component_evidence_checks x" for x
    by (simp add: component_evidence_checks_def idem) (simp add: component_evidence_normal_def)
qed

interpretation cv_comparison: canonical_value field_comparison_post_init
  by (rule canonical_value_checksI) (simp add: field_comparison_post_init_def checks_Inr_iff Let_def)

interpretation cv_pair: canonical_value pair_outcome_post_init
proof (rule canonical_valueI [OF pair_outcome_post_init_def])
  show "pair_outcome_checks (x\<lparr>po_comparisons := sort_key fc_field (po_comparisons x)\<rparr>)
      = pair_outcome_checks x" for x
    by (simp add: pair_outcome_checks_def)
qed simp

interpretation cv_unpaired: canonical_value unpaired_outcome_post_init
  by (rule canonical_valueI [OF unpaired_outcome_post_init_def]) simp_all

interpretation cv_diagnostic: canonical_value diagnostic_post_init
  by (rule canonical_value_checksI) (simp add: diagnostic_post_init_def checks_Inr_iff)

interpretation cv_result: canonical_value engine_result_post_init
proof (rule canonical_valueI [OF engine_result_post_init_def])
  show idem: "engine_result_normal (engine_result_normal x) = engine_result_normal x" for x
    by (simp add: engine_result_normal_def)
  show "engine_result_checks (engine_result_normal x) = engine_result_checks x" for x
    by (simp add: engine_result_checks_def idem)
qed

end
