(* ===== verification/References.thy ===== *)
theory References
  imports Evidence
begin

text \<open>
  Reservation, exclusion and authoritative-reference preprocessing
  (\<open>reconciliation/domain/references.py\<close>). The two sets of remaining identities, the pairs and
  the dictionary of terminal outcomes that \<open>preprocess_references\<close> updates are the fields of
  \<open>pre_state\<close>; a Python set is a list without repetitions whose order no result depends on.
\<close>

section \<open>Values\<close>

record prohibited_relationship =
  pr_left_id :: string
  pr_right_id :: string
  pr_decision_id :: string
  pr_revision_id :: string

definition prohibited_post_init :: "prohibited_relationship \<Rightarrow> prohibited_relationship result" where
  "prohibited_post_init p = checks
     [required_text (pr_left_id p) ''prohibited relationship left_id'',
      required_text (pr_right_id p) ''prohibited relationship right_id'',
      required_text (pr_decision_id p) ''prohibited relationship decision_id'',
      required_text (pr_revision_id p) ''prohibited relationship revision_id''] p"

record reference_conflict =
  rc_reference_key :: string
  rc_left_ids :: "string list"
  rc_right_ids :: "string list"

definition reference_conflict_post_init :: "reference_conflict \<Rightarrow> reference_conflict result" where
  "reference_conflict_post_init c =
     (let left_ids = sort (rc_left_ids c); right_ids = sort (rc_right_ids c)
      in checks
       [(blank (rc_reference_key c), ''reference conflict key must not be blank''),
        (\<not> distinct left_ids \<or> \<not> distinct right_ids,
         ''reference conflict identities must be unique''),
        (length left_ids \<le> 1 \<and> length right_ids \<le> 1,
         ''reference conflict requires a duplicate on at least one side'')]
       (c\<lparr>rc_left_ids := left_ids, rc_right_ids := right_ids\<rparr>))"

record preprocessing_result =
  rp_input_left_ids :: "string list"
  rp_input_right_ids :: "string list"
  rp_pairs :: "pair_outcome list"
  rp_terminal_unpaired :: "unpaired_outcome list"
  rp_remaining_left :: "match_record list"
  rp_remaining_right :: "match_record list"
  rp_prohibited :: "prohibited_relationship list"
  rp_conflicts :: "reference_conflict list"

definition preprocessing_normal :: "preprocessing_result \<Rightarrow> preprocessing_result" where
  "preprocessing_normal r = \<lparr>
     rp_input_left_ids = sort (rp_input_left_ids r),
     rp_input_right_ids = sort (rp_input_right_ids r),
     rp_pairs = sort_key po_edge (rp_pairs r),
     rp_terminal_unpaired = sort_key unpaired_key (rp_terminal_unpaired r),
     rp_remaining_left = sort_key mr_observation_id (rp_remaining_left r),
     rp_remaining_right = sort_key mr_observation_id (rp_remaining_right r),
     rp_prohibited = sort_key (\<lambda>p. (pr_left_id p, pr_right_id p, pr_decision_id p)) (rp_prohibited r),
     rp_conflicts = sort_key rc_reference_key (rp_conflicts r)\<rparr>"

definition unique_ids_check :: "string list \<Rightarrow> string \<Rightarrow> (bool \<times> string)" where
  "unique_ids_check values name =
     (\<not> distinct values, ''preprocessing '' @ name @ '' identities must be unique'')"

definition preprocessing_checks :: "preprocessing_result \<Rightarrow> (bool \<times> string) list" where
  "preprocessing_checks r =
     (let n = preprocessing_normal r;
          input_left = rp_input_left_ids n; input_right = rp_input_right_ids n;
          paired_left = map po_left_id (rp_pairs n); paired_right = map po_right_id (rp_pairs n);
          terminal_left = unpaired_ids LEFT (rp_terminal_unpaired n);
          terminal_right = unpaired_ids RIGHT (rp_terminal_unpaired n);
          remaining_left = map mr_observation_id (rp_remaining_left n);
          remaining_right = map mr_observation_id (rp_remaining_right n)
      in [(\<not> distinct input_left \<or> \<not> distinct input_right,
           ''preprocessing input identities must be unique''),
          (set input_left \<inter> set input_right \<noteq> {},
           ''preprocessing input identities must be unique across sides''),
          unique_ids_check paired_left ''paired left'',
          unique_ids_check paired_right ''paired right'',
          unique_ids_check terminal_left ''terminal left'',
          unique_ids_check terminal_right ''terminal right'',
          unique_ids_check remaining_left ''remaining left'',
          unique_ids_check remaining_right ''remaining right'',
          (set paired_left \<union> set terminal_left \<union> set remaining_left \<noteq> set input_left,
           ''preprocessing must partition every left input''),
          (set paired_right \<union> set terminal_right \<union> set remaining_right \<noteq> set input_right,
           ''preprocessing must partition every right input''),
          (set paired_left \<inter> set terminal_left \<noteq> {} \<or>
           set paired_left \<inter> set remaining_left \<noteq> {} \<or>
           set terminal_left \<inter> set remaining_left \<noteq> {} \<or>
           set paired_right \<inter> set terminal_right \<noteq> {} \<or>
           set paired_right \<inter> set remaining_right \<noteq> {} \<or>
           set terminal_right \<inter> set remaining_right \<noteq> {},
           ''preprocessing partitions cannot overlap'')])"

definition preprocessing_post_init :: "preprocessing_result \<Rightarrow> preprocessing_result result" where
  "preprocessing_post_init r = checks (preprocessing_checks r) (preprocessing_normal r)"

interpretation cv_preprocessing: canonical_value preprocessing_post_init
proof (rule canonical_valueI [OF preprocessing_post_init_def])
  show idem: "preprocessing_normal (preprocessing_normal x) = preprocessing_normal x" for x
    by (simp add: preprocessing_normal_def)
  show "preprocessing_checks (preprocessing_normal x) = preprocessing_checks x" for x
    by (simp add: preprocessing_checks_def idem)
qed

section \<open>The state of the loops\<close>

record pre_state =
  ps_left :: "string list"
  ps_right :: "string list"
  ps_pairs :: "pair_outcome list"
  ps_terminal :: "(string \<times> unpaired_outcome) list"

definition set_remove :: "'a \<Rightarrow> 'a list \<Rightarrow> 'a list result" where
  "set_remove x xs = (if x \<in> set xs then Inr (removeAll x xs) else Inl KeyError)"

text \<open>\<open>terminal[record_id] = UnpairedOutcome(...)\<close>.\<close>

definition set_terminal ::
    "record_side \<Rightarrow> string \<Rightarrow> unpaired_reason \<Rightarrow> string \<Rightarrow> string list \<Rightarrow> pre_state \<Rightarrow> pre_state result"
where
  "set_terminal side i reason explanation related st =
     rbind (unpaired_outcome_post_init \<lparr>uo_record_id = i, uo_side = side, uo_reason = reason,
              uo_explanation = explanation, uo_related_ids = related\<rparr>)
       (\<lambda>u. Inr (st\<lparr>ps_terminal := dict_set (ps_terminal st) i u\<rparr>))"

primrec remove_remaining :: "record_side \<Rightarrow> string \<Rightarrow> pre_state \<Rightarrow> pre_state result" where
  "remove_remaining LEFT i st = rbind (set_remove i (ps_left st)) (\<lambda>l. Inr (st\<lparr>ps_left := l\<rparr>))"
| "remove_remaining RIGHT i st = rbind (set_remove i (ps_right st)) (\<lambda>r. Inr (st\<lparr>ps_right := r\<rparr>))"

text \<open>\<open>_remove\<close>: discarding an absent identity is not an error.\<close>

primrec discard_remaining :: "record_side \<Rightarrow> string \<Rightarrow> pre_state \<Rightarrow> pre_state" where
  "discard_remaining LEFT i st = st\<lparr>ps_left := removeAll i (ps_left st)\<rparr>"
| "discard_remaining RIGHT i st = st\<lparr>ps_right := removeAll i (ps_right st)\<rparr>"

definition terminate ::
    "record_side \<Rightarrow> string \<Rightarrow> unpaired_reason \<Rightarrow> string \<Rightarrow> string list \<Rightarrow> pre_state \<Rightarrow> pre_state result"
where
  "terminate side i reason explanation related st =
     rbind (set_terminal side i reason explanation related st) (remove_remaining side i)"

definition add_pair :: "string \<Rightarrow> string \<Rightarrow> pair_origin \<Rightarrow> pre_state \<Rightarrow> pre_state result" where
  "add_pair l r origin st =
     rbind (pair_outcome_post_init (new_pair l r origin))
       (\<lambda>p. rbind (remove_remaining LEFT l (st\<lparr>ps_pairs := ps_pairs st @ [p]\<rparr>))
         (remove_remaining RIGHT r))"

section \<open>The steps\<close>

text \<open>\<open>_validate_relationship_orientation\<close>, one relationship.\<close>

definition orientation_checks ::
    "string list \<Rightarrow> string list \<Rightarrow> string \<Rightarrow> string \<Rightarrow> string \<Rightarrow> (bool \<times> string) list"
where
  "orientation_checks lefts rights decision l r =
     [(l \<in> set rights, ''decision '' @ decision @ '' uses a right-side record as left_id''),
      (r \<in> set lefts, ''decision '' @ decision @ '' uses a left-side record as right_id'')]"

definition validate_orientation :: "decision_inputs \<Rightarrow> string list \<Rightarrow> string list \<Rightarrow> unit result" where
  "validate_orientation d lefts rights =
     checks (concat
       (map (\<lambda>m. orientation_checks lefts rights (ml_decision_id m) (ml_left_id m) (ml_right_id m))
          (di_manual_links d) @
        map (\<lambda>x. orientation_checks lefts rights (rr_decision_id x) (rr_left_id x) (rr_right_id x))
          (di_rejected_relationships d))) ()"

definition exclude_cancelled :: "record_side \<Rightarrow> pre_state \<Rightarrow> match_record \<Rightarrow> pre_state result" where
  "exclude_cancelled side st r =
     (if eligible r then Inr st
      else rbind (set_terminal side (mr_observation_id r) CANCELLED_EXCLUDED
             ''The source marked this record cancelled, so automatic matching excluded it.'' [] st)
           (\<lambda>st'. Inr (discard_remaining side (mr_observation_id r) st')))"

definition attention_text :: string where
  "attention_text = ''Its saved manual counterpart is absent or excluded in this snapshot; reviewer attention is required.''"

definition apply_manual_link :: "pre_state \<Rightarrow> manual_link \<Rightarrow> pre_state result" where
  "apply_manual_link st m =
     (let left_available = ml_left_id m \<in> set (ps_left st);
          right_available = ml_right_id m \<in> set (ps_right st)
      in if left_available \<and> right_available
         then add_pair (ml_left_id m) (ml_right_id m) MANUAL st
         else rbind
           (if left_available
            then terminate LEFT (ml_left_id m) MANUAL_ATTENTION attention_text [ml_right_id m] st
            else Inr st)
           (\<lambda>st'. if right_available
              then terminate RIGHT (ml_right_id m) MANUAL_ATTENTION attention_text [ml_left_id m] st'
              else Inr st'))"

definition reserve_single :: "unpaired_reason \<Rightarrow> string \<Rightarrow> pre_state \<Rightarrow> string \<Rightarrow> pre_state result" where
  "reserve_single reason explanation st i =
     (if i \<in> set (ps_left st) then terminate LEFT i reason explanation [] st
      else if i \<in> set (ps_right st) then terminate RIGHT i reason explanation [] st
      else Inr st)"

definition accepted_text :: string where
  "accepted_text = ''A reviewer accepted this record as unmatched; it remains reserved from automatic matching.''"

definition reserved_text :: string where
  "reserved_text = ''A reviewer decision reserves this identity from automatic matching.''"

definition duplicate_text :: string where
  "duplicate_text = ''This trusted reference is not unique in the current scope, so it cannot establish an authoritative pair.''"

definition reference_key :: "reference_contract \<Rightarrow> match_record \<Rightarrow> string option" where
  "reference_key contract r =
     (if contract = SHARED_MUST_AGREE then mr_reference_value r else mr_shared_reference_alias r)"

definition index_record ::
    "reference_contract \<Rightarrow> match_record \<Rightarrow> (string \<times> string list) list \<Rightarrow> (string \<times> string list) list"
where
  "index_record contract r d =
     (case reference_key contract r of
        None \<Rightarrow> d
      | Some k \<Rightarrow> dict_set d k
          ((case dict_get d k of None \<Rightarrow> [] | Some ids \<Rightarrow> ids) @ [mr_observation_id r]))"

definition reference_index ::
    "reference_contract \<Rightarrow> match_record list \<Rightarrow> (string \<times> string list) list"
where
  "reference_index contract records =
     map (\<lambda>(k, ids). (k, sort ids)) (fold (index_record contract) records [])"

definition ids_for :: "(string \<times> string list) list \<Rightarrow> string \<Rightarrow> string list" where
  "ids_for index k = (case dict_get index k of None \<Rightarrow> [] | Some ids \<Rightarrow> ids)"

text \<open>One key of the first loop over the references: a duplicate makes its records terminal.\<close>

definition resolve_conflict ::
    "(string \<times> string list) list \<Rightarrow> (string \<times> string list) list \<Rightarrow>
     reference_conflict list \<times> pre_state \<Rightarrow> string \<Rightarrow> (reference_conflict list \<times> pre_state) result"
where
  "resolve_conflict left_refs right_refs acc k =
     (case acc of (conflicts, st) \<Rightarrow>
      let left_ids = sort (ids_for left_refs k); right_ids = sort (ids_for right_refs k);
          all_ids = sort (left_ids @ right_ids)
      in if length left_ids \<le> 1 \<and> length right_ids \<le> 1 then Inr (conflicts, st)
         else rbind (reference_conflict_post_init
                \<lparr>rc_reference_key = k, rc_left_ids = left_ids, rc_right_ids = right_ids\<rparr>)
           (\<lambda>c. rbind (rfold (\<lambda>s i. terminate LEFT i DUPLICATE_REFERENCE duplicate_text all_ids s)
                  st left_ids)
             (\<lambda>st'. rbind (rfold (\<lambda>s i. terminate RIGHT i DUPLICATE_REFERENCE duplicate_text all_ids s)
                  st' right_ids)
               (\<lambda>st''. Inr (conflicts @ [c], st'')))))"

text \<open>One key of the second loop: a reference that is unique on both sides pairs its records.\<close>

definition pair_by_reference ::
    "(string \<times> string list) list \<Rightarrow> (string \<times> string list) list \<Rightarrow> (string \<times> string) set \<Rightarrow>
     pre_state \<Rightarrow> string \<Rightarrow> pre_state result"
where
  "pair_by_reference left_refs right_refs prohibited st k =
     (case (ids_for left_refs k, ids_for right_refs k) of
        ([l], [r]) \<Rightarrow>
          if l \<notin> set (ps_left st) \<or> r \<notin> set (ps_right st) \<or> (l, r) \<in> prohibited then Inr st
          else add_pair l r AUTHORITATIVE_REFERENCE st
      | _ \<Rightarrow> Inr st)"

definition prohibited_of ::
    "decision_inputs \<Rightarrow> string list \<Rightarrow> string list \<Rightarrow> prohibited_relationship list result"
where
  "prohibited_of d lefts rights =
     rmap (\<lambda>x. prohibited_post_init \<lparr>pr_left_id = rr_left_id x, pr_right_id = rr_right_id x,
                 pr_decision_id = rr_decision_id x, pr_revision_id = rr_revision_id x\<rparr>)
       (filter (\<lambda>x. rr_left_id x \<in> set lefts \<and> rr_right_id x \<in> set rights)
          (di_rejected_relationships d))"

text \<open>The reviewer-controlled part: cancellation, manual links, accepted and reserved records.\<close>

definition reserve_reviewed ::
    "engine_snapshot \<Rightarrow> decision_inputs \<Rightarrow> pre_state result"
where
  "reserve_reviewed s d =
     rbind (rfold (exclude_cancelled LEFT)
              \<lparr>ps_left = input_left_ids s, ps_right = input_right_ids s, ps_pairs = [],
               ps_terminal = []\<rparr> (es_left s))
     (\<lambda>st1. rbind (rfold (exclude_cancelled RIGHT) st1 (es_right s))
     (\<lambda>st2. rbind (rfold apply_manual_link st2 (di_manual_links d))
     (\<lambda>st3. rbind (rfold (reserve_single ACCEPTED_UNMATCHED accepted_text) st3
              (map au_record_id (di_accepted_unmatched d)))
     (\<lambda>st4. rfold (reserve_single REVIEWER_RESERVED reserved_text) st4
              (map ri_record_id (di_reserved_identities d))))))"

definition records_in :: "string list \<Rightarrow> match_record list \<Rightarrow> match_record list" where
  "records_in ids records = filter (\<lambda>r. mr_observation_id r \<in> set ids) records"

text \<open>The keys of both indexes, in the order both loops visit them.\<close>

definition reference_keys ::
    "(string \<times> string list) list \<Rightarrow> (string \<times> string list) list \<Rightarrow> string list"
where
  "reference_keys left_refs right_refs = sorted_set (dict_keys left_refs @ dict_keys right_refs)"

definition preprocess_references ::
    "engine_snapshot \<Rightarrow> decision_inputs \<Rightarrow> reference_contract \<Rightarrow> preprocessing_result result"
where
  "preprocess_references s d contract =
     rbind (validate_orientation d (input_left_ids s) (input_right_ids s))
     (\<lambda>_. rbind (reserve_reviewed s d)
     (\<lambda>st. rbind (prohibited_of d (input_left_ids s) (input_right_ids s))
     (\<lambda>prohibited.
        let edges = set (map (\<lambda>p. (pr_left_id p, pr_right_id p)) prohibited);
            left_refs = reference_index contract (records_in (ps_left st) (es_left s));
            right_refs = reference_index contract (records_in (ps_right st) (es_right s));
            keys = reference_keys left_refs right_refs
        in rbind (rfold (resolve_conflict left_refs right_refs) ([], st) keys)
           (\<lambda>(conflicts, st').
              rbind (rfold (pair_by_reference left_refs right_refs edges) st' keys)
              (\<lambda>st''. preprocessing_post_init \<lparr>
                 rp_input_left_ids = input_left_ids s,
                 rp_input_right_ids = input_right_ids s,
                 rp_pairs = ps_pairs st'',
                 rp_terminal_unpaired = map snd (ps_terminal st''),
                 rp_remaining_left = records_in (ps_left st'') (es_left s),
                 rp_remaining_right = records_in (ps_right st'') (es_right s),
                 rp_prohibited = prohibited,
                 rp_conflicts = conflicts\<rparr>)))))"

end
