(* ===== verification/Json.thy ===== *)
theory Json
  imports Prelude
begin

text \<open>
  The JSON values the program serialises and the text
  \<open>json.dumps(value, ensure_ascii=False, separators=(",", ":"))\<close> gives them. Objects with
  \<open>sort_keys=True\<close> are built by \<open>json_object\<close>, which sorts the members. The text determines the
  value, so two values collide under a digest only where the hash function itself collides.
\<close>

datatype json =
    JNull
  | JBool bool
  | JInt int
  | JText string
  | JArray "json list"
  | JObject "(string \<times> json) list"

definition json_object :: "(string \<times> json) list \<Rightarrow> json" where
  "json_object members = JObject (sort_key fst members)"

definition json_texts :: "string list \<Rightarrow> json" where
  "json_texts xs = JArray (map JText xs)"

definition json_text_or_null :: "string option \<Rightarrow> json" where
  "json_text_or_null v = (case v of None \<Rightarrow> JNull | Some t \<Rightarrow> JText t)"

definition hex_digit :: "nat \<Rightarrow> char" where
  "hex_digit n = char_of (if n < 10 then 48 + n else 87 + n)"

text \<open>Quotation marks, backslashes and control characters are escaped, all else is kept.\<close>

definition escape_char :: "char \<Rightarrow> string" where
  "escape_char c =
     (let n = of_char c :: nat
      in if n = 34 then [CHR 0x5C, CHR 0x22]
         else if n = 92 then [CHR 0x5C, CHR 0x5C]
         else if n = 8 then [CHR 0x5C, CHR 0x62]
         else if n = 9 then [CHR 0x5C, CHR 0x74]
         else if n = 10 then [CHR 0x5C, CHR 0x6E]
         else if n = 12 then [CHR 0x5C, CHR 0x66]
         else if n = 13 then [CHR 0x5C, CHR 0x72]
         else if n < 32 then CHR 0x5C # ''u00'' @ [hex_digit (n div 16), hex_digit (n mod 16)]
         else [c])"

definition quoted :: "string \<Rightarrow> string" where
  "quoted s = CHR 0x22 # concat (map escape_char s) @ [CHR 0x22]"

fun json_dumps :: "json \<Rightarrow> string" and json_items :: "json list \<Rightarrow> string"
  and json_members :: "(string \<times> json) list \<Rightarrow> string" where
  "json_dumps JNull = ''null''"
| "json_dumps (JBool b) = (if b then ''true'' else ''false'')"
| "json_dumps (JInt i) = int_text i"
| "json_dumps (JText s) = quoted s"
| "json_dumps (JArray js) = ''['' @ json_items js @ '']''"
| "json_dumps (JObject ms) = ''{'' @ json_members ms @ ''}''"
| "json_items [] = []"
| "json_items (j # js) = json_dumps j @ (if js = [] then [] else '','' @ json_items js)"
| "json_members [] = []"
| "json_members (m # ms) = quoted (fst m) @ '':'' @ json_dumps (snd m) @
     (if ms = [] then [] else '','' @ json_members ms)"

section \<open>The text determines the value\<close>

text \<open>Escapes can be read back one character at a time.\<close>

definition hex_value :: "char \<Rightarrow> nat" where
  "hex_value c = (if of_char c < (58 :: nat) then of_char c - 48 else of_char c - 87)"

fun unescape :: "string \<Rightarrow> (char \<times> string) option" where
  "unescape [] = None"
| "unescape (c # s) =
     (if c \<noteq> CHR 0x5C then Some (c, s)
      else case s of
          [] \<Rightarrow> None
        | d # r \<Rightarrow>
            if d = CHR ''b'' then Some (char_of (8 :: nat), r)
            else if d = CHR ''t'' then Some (char_of (9 :: nat), r)
            else if d = CHR ''n'' then Some (char_of (10 :: nat), r)
            else if d = CHR ''f'' then Some (char_of (12 :: nat), r)
            else if d = CHR ''r'' then Some (char_of (13 :: nat), r)
            else if d = CHR ''u'' then
              Some (char_of (16 * hex_value (r ! 2) + hex_value (r ! 3)), drop 4 r)
            else Some (d, r))"

lemma of_char_char_of_nat [simp]: "(of_char (char_of (n :: nat)) :: nat) = n mod 256"
  by simp

lemma hex_value_digit: "n < 16 \<Longrightarrow> hex_value (hex_digit n) = n"
  by (auto simp: hex_value_def hex_digit_def)

lemma unescape_escape [simp]: "unescape (escape_char c @ s) = Some (c, s)"
proof -
  let ?n = "of_char c :: nat"
  have c: "char_of m = c \<longleftrightarrow> ?n = m" if "m < 256" for m
    using that by (metis char_of_char mod_less of_char_char_of_nat)
  have special: "c = CHR 0x5C \<longleftrightarrow> ?n = 92" "c = CHR 0x22 \<longleftrightarrow> ?n = 34"
    using of_char_eq_iff [of c "CHR 0x5C", where ?'a = nat] of_char_eq_iff [of c "CHR 0x22", where ?'a = nat]
    by simp_all
  consider "?n \<in> {34, 92, 8, 9, 10, 12, 13}"
    | "?n < 32" "?n \<notin> {34, 92, 8, 9, 10, 12, 13}" | "\<not> ?n < 32" "?n \<notin> {34, 92}" by auto
  then show ?thesis
  proof cases
    case 1
    with c special show ?thesis by (auto simp: escape_char_def)
  next
    case 2
    have "16 * (?n div 16) + ?n mod 16 = ?n" by simp
    with 2 show ?thesis
      by (simp add: escape_char_def Let_def hex_value_digit numeral_2_eq_2 numeral_3_eq_3)
  next
    case 3
    with special show ?thesis by (simp add: escape_char_def Let_def)
  qed
qed

lemma escape_not_quote: "\<exists>e es. escape_char c = e # es \<and> e \<noteq> CHR 0x22"
proof -
  have "c = CHR 0x22 \<longleftrightarrow> of_char c = (34 :: nat)"
    using of_char_eq_iff [of c "CHR 0x22", where ?'a = nat] by simp
  then show ?thesis by (auto simp: escape_char_def Let_def)
qed

lemma quoted_append_inject:
  "quoted a @ s = quoted b @ t \<longleftrightarrow> a = b \<and> s = t"
proof
  assume "quoted a @ s = quoted b @ t"
  then have "concat (map escape_char a) @ CHR 0x22 # s = concat (map escape_char b) @ CHR 0x22 # t"
    by (simp add: quoted_def)
  then show "a = b \<and> s = t"
  proof (induction a arbitrary: b)
    case Nil
    then show ?case
    proof (cases b)
      case (Cons c cs)
      obtain e es where "escape_char c = e # es" "e \<noteq> CHR 0x22" using escape_not_quote by blast
      with Nil Cons show ?thesis by simp
    qed simp
  next
    case (Cons c cs)
    show ?case
    proof (cases b)
      case Nil
      obtain e es where "escape_char c = e # es" "e \<noteq> CHR 0x22" using escape_not_quote by blast
      with Cons.prems Nil show ?thesis by simp
    next
      case (Cons d ds)
      with Cons.prems have
        "escape_char c @ (concat (map escape_char cs) @ CHR 0x22 # s) =
         escape_char d @ (concat (map escape_char ds) @ CHR 0x22 # t)" by simp
      then have "Some (c, concat (map escape_char cs) @ CHR 0x22 # s) =
        Some (d, concat (map escape_char ds) @ CHR 0x22 # t)"
        by (metis unescape_escape)
      with Cons.IH [of ds] Cons show ?thesis by simp
    qed
  qed
qed simp

text \<open>A number ends where the digits end.\<close>

definition is_digit :: "char \<Rightarrow> bool" where
  "is_digit c \<longleftrightarrow> c \<in> digit_char ` {0, 1, 2, 3, 4, 5, 6, 7, 8, 9}"

definition stops :: "string \<Rightarrow> bool" where
  "stops s \<longleftrightarrow> s = [] \<or> \<not> is_digit (hd s)"

lemma nat_text_digits: "c \<in> set (nat_text n) \<Longrightarrow> is_digit c"
proof (induction n rule: nat_text.induct)
  case (1 n)
  have d: "is_digit (digit_char m)" if "m < 10" for m
  proof -
    from that have "m \<in> {0, 1, 2, 3, 4, 5, 6, 7, 8, 9}" by auto
    then show ?thesis unfolding is_digit_def by (rule imageI)
  qed
  show ?case
  proof (cases "n < 10")
    case True
    with "1.prems" d show ?thesis by (simp add: nat_text.simps [of n])
  next
    case False
    with "1.prems" have "c \<in> set (nat_text (n div 10)) \<or> c = digit_char (n mod 10)"
      by (auto simp: nat_text.simps [of n])
    with "1.IH" [OF False] d [of "n mod 10"] show ?thesis by auto
  qed
qed

lemma takeWhile_digits: "stops s \<Longrightarrow> takeWhile is_digit (nat_text n @ s) = nat_text n"
  using takeWhile_append2 [of "nat_text n" is_digit s] nat_text_digits [of _ n]
  by (cases s) (simp_all add: stops_def)

lemma nat_text_append_inject:
  "stops s \<Longrightarrow> stops t \<Longrightarrow> nat_text m @ s = nat_text n @ t \<longleftrightarrow> m = n \<and> s = t"
  by (metis nat_text_inject same_append_eq takeWhile_digits)

lemma is_digit_code: "is_digit c \<longleftrightarrow> c \<in> set ''0123456789''"
  by (simp add: is_digit_def)

lemma nat_text_not_minus: "nat_text n \<noteq> CHR ''-'' # s"
  using nat_text_digits [of "CHR ''-''" n] by (auto simp: is_digit_code)

lemma int_text_append_inject:
  assumes "stops s" "stops t"
  shows "int_text i @ s = int_text j @ t \<longleftrightarrow> i = j \<and> s = t"
proof -
  have hd: "\<exists>d ds. nat_text n = d # ds \<and> d \<noteq> CHR ''-''" for n
    using nat_text_not_minus [of n] by (metis list.exhaust nat_text_nonempty)
  show ?thesis
    using hd [of "nat i"] hd [of "nat j"] nat_text_append_inject [OF assms]
    by (auto simp: int_text_def)
qed

text \<open>
  The head of each kind of value: what follows a value inside an array or an object never
  extends a number, and no value starts like another kind.
\<close>

definition json_head :: "json \<Rightarrow> char \<Rightarrow> bool" where
  "json_head j c \<longleftrightarrow> (case j of
      JNull \<Rightarrow> c = CHR ''n''
    | JBool b \<Rightarrow> c = (if b then CHR ''t'' else CHR ''f'')
    | JInt i \<Rightarrow> is_digit c \<or> c = CHR ''-''
    | JText s \<Rightarrow> c = CHR 0x22
    | JArray js \<Rightarrow> c = CHR ''[''
    | JObject ms \<Rightarrow> c = CHR ''{'')"

lemma json_dumps_head: "\<exists>c cs. json_dumps j = c # cs \<and> json_head j c"
proof (cases j)
  case (JInt i)
  have "\<exists>c cs. nat_text n = c # cs \<and> is_digit c" for n
    using nat_text_digits [of "hd (nat_text n)" n] by (cases "nat_text n") auto
  from this [of "nat i"] show ?thesis
    by (cases "i < 0") (auto simp: JInt int_text_def json_head_def)
qed (auto simp: json_head_def quoted_def)

lemma json_head_disjoint:
  assumes "json_head a c" "json_head b c"
  shows "(a = JNull \<longleftrightarrow> b = JNull) \<and> ((\<exists>x. a = JBool x) \<longleftrightarrow> (\<exists>x. b = JBool x)) \<and>
    ((\<exists>x. a = JInt x) \<longleftrightarrow> (\<exists>x. b = JInt x)) \<and> ((\<exists>x. a = JText x) \<longleftrightarrow> (\<exists>x. b = JText x)) \<and>
    ((\<exists>x. a = JArray x) \<longleftrightarrow> (\<exists>x. b = JArray x)) \<and> ((\<exists>x. a = JObject x) \<longleftrightarrow> (\<exists>x. b = JObject x))"
  using assms by (cases a; cases b) (auto simp: json_head_def is_digit_code split: if_splits)

lemma json_head_not_close: "json_head j c \<Longrightarrow> c \<noteq> CHR '']'' \<and> c \<noteq> CHR ''}'' \<and> c \<noteq> CHR '',''"
  by (cases j) (auto simp: json_head_def is_digit_code split: if_splits)

lemma stops_delimiter [simp]: "stops (CHR '','' # s)" "stops (CHR '']'' # s)" "stops (CHR ''}'' # s)" "stops []"
  by (simp_all add: stops_def is_digit_code)

lemma json_items_tail:
  "json_items (j # js) @ CHR '']'' # s =
   json_dumps j @ (if js = [] then CHR '']'' # s else CHR '','' # json_items js @ CHR '']'' # s)"
  by simp

lemma json_members_tail:
  "json_members (m # ms) @ CHR ''}'' # s = quoted (fst m) @ CHR '':'' # json_dumps (snd m) @
   (if ms = [] then CHR ''}'' # s else CHR '','' # json_members ms @ CHR ''}'' # s)"
  by simp

lemma json_inject:
  "(\<forall>b s t. stops s \<longrightarrow> stops t \<longrightarrow> json_dumps a @ s = json_dumps b @ t \<longrightarrow> a = b \<and> s = t)"
  "(\<forall>bs s t. json_items as @ CHR '']'' # s = json_items bs @ CHR '']'' # t \<longrightarrow> as = bs \<and> s = t)"
  "(\<forall>ns s t. json_members ms @ CHR ''}'' # s = json_members ns @ CHR ''}'' # t \<longrightarrow> ms = ns \<and> s = t)"
proof (induction a and as and ms rule: json_dumps_json_items_json_members.induct)
  have same: "(a = JNull \<longleftrightarrow> b = JNull) \<and> ((\<exists>x. a = JBool x) \<longleftrightarrow> (\<exists>x. b = JBool x)) \<and>
    ((\<exists>x. a = JInt x) \<longleftrightarrow> (\<exists>x. b = JInt x)) \<and> ((\<exists>x. a = JText x) \<longleftrightarrow> (\<exists>x. b = JText x)) \<and>
    ((\<exists>x. a = JArray x) \<longleftrightarrow> (\<exists>x. b = JArray x)) \<and> ((\<exists>x. a = JObject x) \<longleftrightarrow> (\<exists>x. b = JObject x))"
    if "json_dumps a @ s = json_dumps b @ t" for a b s t
  proof -
    obtain c cs where a: "json_dumps a = c # cs" "json_head a c" using json_dumps_head by blast
    obtain d ds where b: "json_dumps b = d # ds" "json_head b d" using json_dumps_head by blast
    from that a b have "c = d" by simp
    with a b show ?thesis using json_head_disjoint by blast
  qed
  {
    case 1
    show ?case
    proof (intro allI impI)
      fix b s t assume eq: "json_dumps JNull @ s = json_dumps b @ t"
      from same [OF eq] have "b = JNull" by blast
      with eq show "JNull = b \<and> s = t" by simp
    qed
  next
    case (2 x)
    show ?case
    proof (intro allI impI)
      fix b s t assume eq: "json_dumps (JBool x) @ s = json_dumps b @ t"
      from same [OF eq] obtain y where "b = JBool y" by blast
      with eq show "JBool x = b \<and> s = t" by (cases x; cases y) simp_all
    qed
  next
    case (3 i)
    show ?case
    proof (intro allI impI)
      fix b s t assume st: "stops s" "stops t" and eq: "json_dumps (JInt i) @ s = json_dumps b @ t"
      from same [OF eq] obtain j where "b = JInt j" by blast
      with st eq show "JInt i = b \<and> s = t" by (simp add: int_text_append_inject)
    qed
  next
    case (4 x)
    show ?case
    proof (intro allI impI)
      fix b s t assume eq: "json_dumps (JText x) @ s = json_dumps b @ t"
      from same [OF eq] obtain y where "b = JText y" by blast
      with eq show "JText x = b \<and> s = t" by (simp add: quoted_append_inject)
    qed
  next
    case (5 js)
    show ?case
    proof (intro allI impI)
      fix b s t assume eq: "json_dumps (JArray js) @ s = json_dumps b @ t"
      from same [OF eq] obtain ks where b: "b = JArray ks" by blast
      with eq have "json_items js @ CHR '']'' # s = json_items ks @ CHR '']'' # t" by simp
      with 5 have "js = ks \<and> s = t" by blast
      with b show "JArray js = b \<and> s = t" by simp
    qed
  next
    case (6 ms)
    show ?case
    proof (intro allI impI)
      fix b s t assume eq: "json_dumps (JObject ms) @ s = json_dumps b @ t"
      from same [OF eq] obtain ns where b: "b = JObject ns" by blast
      with eq have "json_members ms @ CHR ''}'' # s = json_members ns @ CHR ''}'' # t" by simp
      with 6 have "ms = ns \<and> s = t" by blast
      with b show "JObject ms = b \<and> s = t" by simp
    qed
  next
    case 7
    show ?case
    proof (intro allI impI)
      fix bs s t assume eq: "json_items [] @ CHR '']'' # s = json_items bs @ CHR '']'' # t"
      show "[] = bs \<and> s = t"
      proof (cases bs)
        case (Cons b bs')
        obtain d ds where "json_dumps b = d # ds" "json_head b d" using json_dumps_head by blast
        with eq Cons json_head_not_close show ?thesis by fastforce
      qed (use eq in simp)
    qed
  next
    case (8 j js)
    show ?case
    proof (intro allI impI)
      fix bs s t assume eq: "json_items (j # js) @ CHR '']'' # s = json_items bs @ CHR '']'' # t"
      show "j # js = bs \<and> s = t"
      proof (cases bs)
        case Nil
        obtain d ds where "json_dumps j = d # ds" "json_head j d" using json_dumps_head by blast
        with eq Nil json_head_not_close show ?thesis by fastforce
      next
        case (Cons b bs')
        let ?tail = "\<lambda>js s. if js = [] then CHR '']'' # s else CHR '','' # json_items js @ CHR '']'' # s"
        from eq have eq': "json_dumps j @ ?tail js s = json_dumps b @ ?tail bs' t"
          unfolding Cons json_items_tail .
        have "stops (?tail js s)" "stops (?tail bs' t)" by simp_all
        with 8(1) eq' have "j = b" and tail: "?tail js s = ?tail bs' t" by blast+
        show ?thesis
        proof (cases "js = [] \<or> bs' = []")
          case True
          with tail \<open>j = b\<close> Cons show ?thesis by (auto split: if_splits)
        next
          case False
          with tail have "json_items js @ CHR '']'' # s = json_items bs' @ CHR '']'' # t" by simp
          with 8(2) False have "js = bs' \<and> s = t" by blast
          with \<open>j = b\<close> Cons show ?thesis by simp
        qed
      qed
    qed
  next
    case 9
    show ?case
    proof (intro allI impI)
      fix ns s t assume eq: "json_members [] @ CHR ''}'' # s = json_members ns @ CHR ''}'' # t"
      show "[] = ns \<and> s = t" using eq by (cases ns) (simp_all add: quoted_def)
    qed
  next
    case (10 m ms)
    show ?case
    proof (intro allI impI)
      fix ns s t assume eq: "json_members (m # ms) @ CHR ''}'' # s = json_members ns @ CHR ''}'' # t"
      show "m # ms = ns \<and> s = t"
      proof (cases ns)
        case Nil
        with eq show ?thesis by (simp add: quoted_def)
      next
        case (Cons n ns')
        let ?tail = "\<lambda>ms s. if ms = [] then CHR ''}'' # s else CHR '','' # json_members ms @ CHR ''}'' # s"
        from eq have "quoted (fst m) @ (CHR '':'' # json_dumps (snd m) @ ?tail ms s) =
            quoted (fst n) @ (CHR '':'' # json_dumps (snd n) @ ?tail ns' t)"
          unfolding Cons json_members_tail .
        then have k: "fst m = fst n" and v: "json_dumps (snd m) @ ?tail ms s = json_dumps (snd n) @ ?tail ns' t"
          unfolding quoted_append_inject by simp_all
        have "stops (?tail ms s)" "stops (?tail ns' t)" by simp_all
        with v 10(1) have "snd m = snd n" and tail: "?tail ms s = ?tail ns' t" by blast+
        with k have "m = n" by (simp add: prod_eq_iff)
        show ?thesis
        proof (cases "ms = [] \<or> ns' = []")
          case True
          with tail \<open>m = n\<close> Cons show ?thesis by (auto split: if_splits)
        next
          case False
          with tail have "json_members ms @ CHR ''}'' # s = json_members ns' @ CHR ''}'' # t" by simp
          with 10(2) False have "ms = ns' \<and> s = t" by blast
          with \<open>m = n\<close> Cons show ?thesis by simp
        qed
      qed
    qed
  }
qed

lemma json_dumps_inject: "json_dumps a = json_dumps b \<longleftrightarrow> a = b"
  using json_inject(1) [of a] by (metis append_Nil2 stops_delimiter(4))

end
