(* ===== verification/Candidates.thy ===== *)
theory Candidates
  imports References Json
begin

text \<open>
  Bounded candidate generation (\<open>reconciliation/domain/candidates.py\<close>). The dictionary from
  edges to their sets of blocking reasons, the two degree counters and the flag
  \<open>run_limited\<close> are the fields of \<open>scan_state\<close>; \<open>_MutablePartition\<close> is \<open>scan_partition\<close>. The
  function \<open>sha256\<close> from a text to the hexadecimal digest of its UTF-8 bytes is a parameter.
\<close>

section \<open>Values\<close>

datatype candidate_limit = PER_RECORD_LIMIT | RUN_EDGE_LIMIT | CONNECTED_TO_INCOMPLETE_PARTITION

record candidate_edge =
  cg_left_id :: string
  cg_right_id :: string
  cg_blocking_reasons :: "string list"

abbreviation cg_edge :: "candidate_edge \<Rightarrow> string \<times> string" where
  "cg_edge c \<equiv> (cg_left_id c, cg_right_id c)"

definition candidate_edge_post_init :: "candidate_edge \<Rightarrow> candidate_edge result" where
  "candidate_edge_post_init c =
     (let reasons = sorted_set (cg_blocking_reasons c)
      in checks
       [required_text (cg_left_id c) ''candidate edge left_id'',
        required_text (cg_right_id c) ''candidate edge right_id'',
        (reasons = [] \<or> list_ex blank reasons, ''candidate edge requires nonblank blocking reasons'')]
       (c\<lparr>cg_blocking_reasons := reasons\<rparr>))"

record partition_evidence =
  pt_partition_id :: string
  pt_blocking_pass :: string
  pt_left_ids :: "string list"
  pt_right_ids :: "string list"
  pt_enumerated_edge_count :: int
  pt_complete :: bool
  pt_limit_reason :: "candidate_limit option"

definition partition_evidence_post_init :: "partition_evidence \<Rightarrow> partition_evidence result" where
  "partition_evidence_post_init p =
     (let left_ids = sort (pt_left_ids p); right_ids = sort (pt_right_ids p)
      in checks
       [required_text (pt_partition_id p) ''candidate partition partition_id'',
        required_text (pt_blocking_pass p) ''candidate partition blocking_pass'',
        (left_ids = [] \<or> right_ids = [], ''candidate partition requires records on both sides''),
        (\<not> distinct left_ids \<or> \<not> distinct right_ids, ''candidate partition identities must be unique''),
        (pt_enumerated_edge_count p < 0, ''enumerated_edge_count must be a nonnegative integer''),
        (pt_complete p \<and> pt_limit_reason p \<noteq> None,
         ''a complete candidate partition cannot have a limit reason''),
        (\<not> pt_complete p \<and> pt_limit_reason p = None,
         ''an incomplete candidate partition requires a limit reason'')]
       (p\<lparr>pt_left_ids := left_ids, pt_right_ids := right_ids\<rparr>))"

record generation_result =
  gr_candidates :: "candidate_edge list"
  gr_partitions :: "partition_evidence list"
  gr_limited_record_ids :: "string list"
  gr_complete :: bool

definition generation_normal :: "generation_result \<Rightarrow> generation_result" where
  "generation_normal g = g\<lparr>
     gr_candidates := sort_key cg_edge (gr_candidates g),
     gr_partitions := sort_key pt_partition_id (gr_partitions g),
     gr_limited_record_ids := sort (gr_limited_record_ids g)\<rparr>"

text \<open>The identities of the members of incomplete partitions.\<close>

definition incomplete_members :: "partition_evidence list \<Rightarrow> string list" where
  "incomplete_members ps =
     concat (map (\<lambda>p. pt_left_ids p @ pt_right_ids p) (filter (\<lambda>p. \<not> pt_complete p) ps))"

definition generation_checks :: "generation_result \<Rightarrow> (bool \<times> string) list" where
  "generation_checks g =
     (let n = generation_normal g
      in [(\<not> distinct (map cg_edge (gr_candidates n)), ''candidate generation edges must be unique''),
          (\<not> distinct (map pt_partition_id (gr_partitions n)),
           ''candidate partition identities must be unique''),
          (\<not> distinct (gr_limited_record_ids n), ''limited record identities must be unique''),
          (set (gr_limited_record_ids n) \<noteq> set (incomplete_members (gr_partitions n)),
           ''limited identities must equal the members of incomplete partitions''),
          (gr_complete g \<noteq> list_all pt_complete (gr_partitions n),
           ''candidate generation completeness must match its partitions'')])"

definition generation_post_init :: "generation_result \<Rightarrow> generation_result result" where
  "generation_post_init g = checks (generation_checks g) (generation_normal g)"

interpretation cv_edge: canonical_value candidate_edge_post_init
  by (rule canonical_valueI [where nf = "\<lambda>c. c\<lparr>cg_blocking_reasons := sorted_set (cg_blocking_reasons c)\<rparr>",
        OF candidate_edge_post_init_def [unfolded Let_def]])
    simp_all

interpretation cv_partition: canonical_value partition_evidence_post_init
  by (rule canonical_valueI [where nf = "\<lambda>p. p\<lparr>pt_left_ids := sort (pt_left_ids p),
          pt_right_ids := sort (pt_right_ids p)\<rparr>",
        OF partition_evidence_post_init_def [unfolded Let_def]])
    simp_all

interpretation cv_generation: canonical_value generation_post_init
proof (rule canonical_valueI [OF generation_post_init_def])
  show idem: "generation_normal (generation_normal x) = generation_normal x" for x
    by (simp add: generation_normal_def)
  show "generation_checks (generation_normal x) = generation_checks x" for x
    by (simp add: generation_checks_def idem) (simp add: generation_normal_def)
qed

section \<open>Blocking groups\<close>

definition required_time :: "match_record \<Rightarrow> datetime result" where
  "required_time r = (case mr_executed_at r of
     None \<Rightarrow> Inl (DomainValidationError ''candidate partition record is missing executed_at'')
   | Some t \<Rightarrow> Inr t)"

definition blocking_reason :: "blocking_pass \<Rightarrow> string" where
  "blocking_reason p = bp_pass_id p @ ''@'' @ bp_version p"

type_synonym group_key = "string option list"

definition key_json :: "group_key \<Rightarrow> json" where
  "key_json k = JArray (map json_text_or_null k)"

definition key_sort_value :: "group_key \<Rightarrow> string" where
  "key_sort_value k = json_dumps (key_json k)"

definition partition_id :: "(string \<Rightarrow> string) \<Rightarrow> string \<Rightarrow> group_key \<Rightarrow> string" where
  "partition_id sha256 reason k =
     ''partition-'' @ take 16 (sha256 (json_dumps (json_object
       [(''blocking_pass'', JText reason), (''key'', key_json k)])))"

text \<open>The key under which a pass groups a record; \<open>None\<close> where the pass skips it.\<close>

definition record_key :: "blocking_pass \<Rightarrow> match_record \<Rightarrow> group_key option" where
  "record_key p r =
     (if bp_time_window p \<noteq> None \<and> mr_executed_at r = None then None
      else if bp_require_instrument p \<and> mr_instrument r = None then None
      else if bp_require_side p \<and> mr_side r = None then None
      else if bp_require_currency p \<and> mr_currency r = None then None
      else if bp_use_shared_alias p \<and> mr_shared_reference_alias r = None then None
      else Some
       [if bp_require_instrument p then mr_instrument r else None,
        if bp_require_side p then map_option side_value (mr_side r) else None,
        if bp_require_currency p then mr_currency r else None,
        if bp_use_shared_alias p then mr_shared_reference_alias r else None])"

definition group_record ::
    "blocking_pass \<Rightarrow> match_record \<Rightarrow> (group_key \<times> match_record list) list \<Rightarrow>
     (group_key \<times> match_record list) list"
where
  "group_record p r groups =
     (case record_key p r of
        None \<Rightarrow> groups
      | Some k \<Rightarrow> dict_set groups k
          ((case dict_get groups k of None \<Rightarrow> [] | Some rs \<Rightarrow> rs) @ [r]))"

definition time_of :: "match_record \<Rightarrow> datetime" where
  "time_of r = (case mr_executed_at r of None \<Rightarrow> 0 | Some t \<Rightarrow> t)"

definition sort_group :: "blocking_pass \<Rightarrow> match_record list \<Rightarrow> match_record list result" where
  "sort_group p rs =
     (if bp_time_window p \<noteq> None
      then rbind (rmap required_time rs) (\<lambda>_. Inr (sort_key (\<lambda>r. (time_of r, mr_observation_id r)) rs))
      else Inr (sort_key (\<lambda>r. (mr_observation_id r, mr_observation_id r)) rs))"

definition group_records ::
    "match_record list \<Rightarrow> blocking_pass \<Rightarrow> (group_key \<times> match_record list) list result"
where
  "group_records records p =
     rmap (\<lambda>(k, rs). rbind (sort_group p rs) (\<lambda>rs'. Inr (k, rs')))
       (fold (group_record p) records [])"

section \<open>Binary search (\<open>bisect\<close>)\<close>

function bisect_loop :: "('a \<Rightarrow> bool) \<Rightarrow> 'a list \<Rightarrow> nat \<Rightarrow> nat \<Rightarrow> nat" where
  "bisect_loop earlier xs lo hi =
     (if lo < hi
      then let mid = (lo + hi) div 2
           in if earlier (xs ! mid) then bisect_loop earlier xs (mid + 1) hi
              else bisect_loop earlier xs lo mid
      else lo)"
  by pat_completeness auto
termination by (relation "measure (\<lambda>(_, _, lo, hi). hi - lo)") auto

declare bisect_loop.simps [simp del]

definition bisect_left :: "int list \<Rightarrow> int \<Rightarrow> nat" where
  "bisect_left xs x = bisect_loop (\<lambda>y. y < x) xs 0 (length xs)"

definition bisect_right :: "int list \<Rightarrow> int \<Rightarrow> nat" where
  "bisect_right xs x = bisect_loop (\<lambda>y. \<not> x < y) xs 0 (length xs)"

section \<open>The bounded scan\<close>

record scan_state =
  ss_edges :: "((string \<times> string) \<times> string list) list"
  ss_left_degree :: "(string \<times> int) list"
  ss_right_degree :: "(string \<times> int) list"
  ss_run_limited :: bool

record scan_partition =
  sp_partition_id :: string
  sp_blocking_pass :: string
  sp_left_ids :: "string list"
  sp_right_ids :: "string list"
  sp_enumerated_edge_count :: int
  sp_limit_reason :: "candidate_limit option"

definition degree :: "(string \<times> int) list \<Rightarrow> string \<Rightarrow> int" where
  "degree d i = (case dict_get d i of None \<Rightarrow> 0 | Some n \<Rightarrow> n)"

definition set_add :: "'a \<Rightarrow> 'a list \<Rightarrow> 'a list" where
  "set_add x xs = (if x \<in> set xs then xs else xs @ [x])"

definition new_edge :: "string \<times> string \<Rightarrow> string \<Rightarrow> scan_state \<Rightarrow> scan_state" where
  "new_edge e reason st = st\<lparr>
     ss_edges := dict_set (ss_edges st) e [reason],
     ss_left_degree := dict_set (ss_left_degree st) (fst e) (degree (ss_left_degree st) (fst e) + 1),
     ss_right_degree := dict_set (ss_right_degree st) (snd e) (degree (ss_right_degree st) (snd e) + 1)\<rparr>"

text \<open>
  The loop over the right records of one left record, with the number of edges counted for the
  partition. It stops at the first limit, which it returns.
\<close>

fun scan_rights ::
    "capacity_limits \<Rightarrow> (string \<times> string) list \<Rightarrow> string \<Rightarrow> string \<Rightarrow> match_record list \<Rightarrow>
     scan_state \<Rightarrow> int \<Rightarrow> candidate_limit option \<times> scan_state \<times> int"
where
  "scan_rights limits prohibited reason l [] st n = (None, st, n)"
| "scan_rights limits prohibited reason l (r # rs) st n =
     (let e = (l, mr_observation_id r)
      in if e \<in> set prohibited then scan_rights limits prohibited reason l rs st n
         else case dict_get (ss_edges st) e of
            Some reasons \<Rightarrow>
              scan_rights limits prohibited reason l rs
                (st\<lparr>ss_edges := dict_set (ss_edges st) e (set_add reason reasons)\<rparr>) (n + 1)
          | None \<Rightarrow>
              if cl_max_candidates_per_record limits \<le> degree (ss_left_degree st) (fst e) \<or>
                 cl_max_candidates_per_record limits \<le> degree (ss_right_degree st) (snd e)
              then (Some PER_RECORD_LIMIT, st, n)
              else if cl_max_run_candidate_edges limits \<le> int (length (ss_edges st))
              then (Some RUN_EDGE_LIMIT, st\<lparr>ss_run_limited := True\<rparr>, n)
              else scan_rights limits prohibited reason l rs (new_edge e reason st) (n + 1))"

text \<open>The right records a left record is scanned against: all, or those of its time window.\<close>

definition scan_window ::
    "blocking_pass \<Rightarrow> int list \<Rightarrow> match_record list \<Rightarrow> match_record \<Rightarrow> match_record list result"
where
  "scan_window p right_times rights l =
     (case bp_time_window p of
        None \<Rightarrow> Inr rights
      | Some w \<Rightarrow> rbind (required_time l)
          (\<lambda>t. rbind (dt_add t (- w))
          (\<lambda>lo. rbind (dt_add t w)
          (\<lambda>hi. Inr (drop (bisect_left right_times lo) (take (bisect_right right_times hi) rights))))))"

fun scan_lefts ::
    "capacity_limits \<Rightarrow> (string \<times> string) list \<Rightarrow> blocking_pass \<Rightarrow> int list \<Rightarrow> match_record list \<Rightarrow>
     match_record list \<Rightarrow> scan_state \<Rightarrow> int \<Rightarrow> (candidate_limit option \<times> scan_state \<times> int) result"
where
  "scan_lefts limits prohibited p right_times rights [] st n = Inr (None, st, n)"
| "scan_lefts limits prohibited p right_times rights (l # ls) st n =
     rbind (scan_window p right_times rights l)
       (\<lambda>rs. case scan_rights limits prohibited (blocking_reason p) (mr_observation_id l) rs st n of
          (Some limit, st', n') \<Rightarrow> Inr (Some limit, st', n')
        | (None, st', n') \<Rightarrow> scan_lefts limits prohibited p right_times rights ls st' n')"

text \<open>One key of a blocking pass: the partition it adds and the state after its scan.\<close>

definition scan_key ::
    "(string \<Rightarrow> string) \<Rightarrow> capacity_limits \<Rightarrow> (string \<times> string) list \<Rightarrow> blocking_pass \<Rightarrow>
     (group_key \<times> match_record list) list \<Rightarrow> (group_key \<times> match_record list) list \<Rightarrow>
     scan_partition list \<times> scan_state \<Rightarrow> group_key \<Rightarrow> (scan_partition list \<times> scan_state) result"
where
  "scan_key sha256 limits prohibited p left_groups right_groups acc k =
     (case acc of (ps, st) \<Rightarrow>
      rbind (dict_index left_groups k)
      (\<lambda>lefts. rbind (dict_index right_groups k)
      (\<lambda>rights.
         let part = \<lparr>sp_partition_id = partition_id sha256 (blocking_reason p) k,
               sp_blocking_pass = blocking_reason p,
               sp_left_ids = map mr_observation_id lefts,
               sp_right_ids = map mr_observation_id rights,
               sp_enumerated_edge_count = 0, sp_limit_reason = None\<rparr>
         in if ss_run_limited st
            then Inr (ps @ [part\<lparr>sp_limit_reason := Some RUN_EDGE_LIMIT\<rparr>], st)
            else rbind (if bp_time_window p = None then Inr [] else rmap required_time rights)
              (\<lambda>right_times. rbind (scan_lefts limits prohibited p right_times rights lefts st 0)
                (\<lambda>(limit, st', n).
                  Inr (ps @ [part\<lparr>sp_enumerated_edge_count := n, sp_limit_reason := limit\<rparr>], st'))))))"

definition shared_group_keys ::
    "(group_key \<times> match_record list) list \<Rightarrow> (group_key \<times> match_record list) list \<Rightarrow> group_key list"
where
  "shared_group_keys left_groups right_groups =
     sort_key key_sort_value
       (filter (\<lambda>k. k \<in> set (dict_keys right_groups)) (dict_keys left_groups))"

definition scan_pass ::
    "(string \<Rightarrow> string) \<Rightarrow> capacity_limits \<Rightarrow> (string \<times> string) list \<Rightarrow> match_record list \<Rightarrow>
     match_record list \<Rightarrow> scan_partition list \<times> scan_state \<Rightarrow> blocking_pass \<Rightarrow>
     (scan_partition list \<times> scan_state) result"
where
  "scan_pass sha256 limits prohibited lefts rights acc p =
     rbind (group_records lefts p)
     (\<lambda>left_groups. rbind (group_records rights p)
     (\<lambda>right_groups. rfold (scan_key sha256 limits prohibited p left_groups right_groups) acc
        (shared_group_keys left_groups right_groups)))"

section \<open>Propagation of incompleteness\<close>

definition sp_members :: "scan_partition \<Rightarrow> string list" where
  "sp_members p = sp_left_ids p @ sp_right_ids p"

text \<open>\<open>memberships[identity]\<close>: the indexes of the partitions an identity is a member of.\<close>

definition memberships :: "scan_partition list \<Rightarrow> string \<Rightarrow> nat list" where
  "memberships ps i = concat (map (\<lambda>k. map (\<lambda>_. k) (filter (\<lambda>j. j = i) (sp_members (ps ! k)))) [0..<length ps])"

text \<open>The body of the inner loop: a connected partition is marked, and queued once.\<close>

definition visit_partition ::
    "scan_partition list \<times> nat list \<times> nat list \<Rightarrow> nat \<Rightarrow> scan_partition list \<times> nat list \<times> nat list"
where
  "visit_partition acc k =
     (case acc of (ps, visited, queue) \<Rightarrow>
       (if sp_limit_reason (ps ! k) = None
        then ps[k := (ps ! k)\<lparr>sp_limit_reason := Some CONNECTED_TO_INCOMPLETE_PARTITION\<rparr>] else ps,
        if k \<in> set visited then visited else visited @ [k],
        if k \<in> set visited then queue else queue @ [k]))"

definition connected_partitions :: "scan_partition list \<Rightarrow> nat \<Rightarrow> nat list" where
  "connected_partitions ps k = concat (map (memberships ps) (sp_members (ps ! k)))"

lemma memberships_less: "k \<in> set (memberships ps i) \<Longrightarrow> k < length ps"
  by (auto simp: memberships_def)

lemma memberships_iff: "k \<in> set (memberships ps i) \<longleftrightarrow> k < length ps \<and> i \<in> set (sp_members (ps ! k))"
  by (auto simp: memberships_def)

lemma connected_partitions_iff:
  "j \<in> set (connected_partitions ps k) \<longleftrightarrow>
   j < length ps \<and> set (sp_members (ps ! j)) \<inter> set (sp_members (ps ! k)) \<noteq> {}"
  by (auto simp: connected_partitions_def memberships_iff)

lemma visit_measure:
  assumes "fold (\<lambda>k acc. visit_partition acc k) ks (ps, visited, queue) = (ps', visited', queue')"
    and "\<And>k. k \<in> set ks \<Longrightarrow> k < n"
  shows "length queue' + card ({..<n} - set visited') = length queue + card ({..<n} - set visited)"
  using assms
proof (induction ks arbitrary: ps visited queue)
  case Nil
  then show ?case by simp
next
  case (Cons k ks)
  obtain ps1 v1 q1 where step: "visit_partition (ps, visited, queue) k = (ps1, v1, q1)"
    by (cases "visit_partition (ps, visited, queue) k")
  have "length q1 + card ({..<n} - set v1) = length queue + card ({..<n} - set visited)"
  proof (cases "k \<in> set visited")
    case True
    with step show ?thesis by (auto simp: visit_partition_def)
  next
    case False
    with step have q1: "length q1 = Suc (length queue)" and "set v1 = insert k (set visited)"
      by (auto simp: visit_partition_def)
    then have eq: "{..<n} - set visited = insert k ({..<n} - set v1)"
      using False Cons.prems(2) [of k] \<open>set v1 = insert k (set visited)\<close> by auto
    have "card ({..<n} - set visited) = Suc (card ({..<n} - set v1))"
      unfolding eq by (rule card_insert_disjoint) (simp_all add: \<open>set v1 = insert k (set visited)\<close>)
    then show ?thesis using q1 by linarith
  qed
  with Cons.IH [of ps1 v1 q1] Cons.prems step show ?case by simp
qed

function propagate_loop ::
    "scan_partition list \<Rightarrow> scan_partition list \<Rightarrow> nat list \<Rightarrow> nat list \<Rightarrow> scan_partition list"
where
  "propagate_loop origin ps visited [] = ps"
| "propagate_loop origin ps visited (k # queue) =
     (case fold (\<lambda>j acc. visit_partition acc j) (connected_partitions origin k) (ps, visited, queue) of
        (ps', visited', queue') \<Rightarrow> propagate_loop origin ps' visited' queue')"
  by pat_completeness auto
termination
proof (relation "measure (\<lambda>(origin, ps, visited, queue). length queue + card ({..<length origin} - set visited))",
    goal_cases)
  case (2 origin ps visited k queue p1 p2 y z)
  then have "fold (\<lambda>j acc. visit_partition acc j) (connected_partitions origin k) (ps, visited, queue) = (p1, y, z)"
    by simp
  from visit_measure [OF this, of "length origin"] show ?case by (simp add: connected_partitions_iff)
qed simp

definition propagate_incomplete_partitions :: "scan_partition list \<Rightarrow> scan_partition list" where
  "propagate_incomplete_partitions ps =
     (let queue = filter (\<lambda>k. sp_limit_reason (ps ! k) \<noteq> None) [0..<length ps]
      in propagate_loop ps ps queue queue)"

section \<open>Generation\<close>

definition evidence_of :: "scan_partition \<Rightarrow> partition_evidence result" where
  "evidence_of p = partition_evidence_post_init \<lparr>pt_partition_id = sp_partition_id p,
     pt_blocking_pass = sp_blocking_pass p, pt_left_ids = sp_left_ids p,
     pt_right_ids = sp_right_ids p, pt_enumerated_edge_count = sp_enumerated_edge_count p,
     pt_complete = (sp_limit_reason p = None), pt_limit_reason = sp_limit_reason p\<rparr>"

definition initial_scan :: scan_state where
  "initial_scan = \<lparr>ss_edges = [], ss_left_degree = [], ss_right_degree = [], ss_run_limited = False\<rparr>"

definition prohibited_edges :: "preprocessing_result \<Rightarrow> (string \<times> string) list" where
  "prohibited_edges pre = map (\<lambda>p. (pr_left_id p, pr_right_id p)) (rp_prohibited pre)"

definition generate_candidates ::
    "(string \<Rightarrow> string) \<Rightarrow> preprocessing_result \<Rightarrow> matching_policy \<Rightarrow> generation_result result"
where
  "generate_candidates sha256 pre policy =
     rbind (rfold (scan_pass sha256 (mp_limits policy) (prohibited_edges pre)
              (rp_remaining_left pre) (rp_remaining_right pre)) ([], initial_scan) (mp_blocking_passes policy))
     (\<lambda>(ps, st). rbind (rmap evidence_of (propagate_incomplete_partitions ps))
     (\<lambda>evidence. rbind (rmap (\<lambda>((l, r), reasons). candidate_edge_post_init
            \<lparr>cg_left_id = l, cg_right_id = r, cg_blocking_reasons = reasons\<rparr>) (ss_edges st))
     (\<lambda>edges. generation_post_init \<lparr>
        gr_candidates = edges,
        gr_partitions = evidence,
        gr_limited_record_ids = remdups (incomplete_members evidence),
        gr_complete = list_all pt_complete evidence\<rparr>)))"

end
