(* ===== verification/Scoring.thy ===== *)
theory Scoring
  imports Candidates
begin

text \<open>
  Rule scoring (\<open>reconciliation/domain/scoring.py\<close>): per feature a linear similarity computed
  with 80 digits and rounded half to even to basis points, and from the features the score,
  contradictions and coverage failures of a candidate. \<open>score_precision\<close> is the precision of
  the \<open>localcontext\<close> blocks.
\<close>

datatype contradiction_code =
    INSTRUMENT_MISMATCH | SIDE_MISMATCH | CURRENCY_MISMATCH | SHARED_REFERENCE_MISMATCH
  | SHARED_ALIAS_MISMATCH

datatype coverage_failure =
    MISSING_INSTRUMENT | MISSING_SIDE | MISSING_CURRENCY | MISSING_QUANTITY | MISSING_TIMESTAMP
  | MISSING_MONETARY_FIELD

primrec contradiction_value :: "contradiction_code \<Rightarrow> string" where
  "contradiction_value INSTRUMENT_MISMATCH = ''INSTRUMENT_MISMATCH''"
| "contradiction_value SIDE_MISMATCH = ''SIDE_MISMATCH''"
| "contradiction_value CURRENCY_MISMATCH = ''CURRENCY_MISMATCH''"
| "contradiction_value SHARED_REFERENCE_MISMATCH = ''SHARED_REFERENCE_MISMATCH''"
| "contradiction_value SHARED_ALIAS_MISMATCH = ''SHARED_ALIAS_MISMATCH''"

primrec coverage_value :: "coverage_failure \<Rightarrow> string" where
  "coverage_value MISSING_INSTRUMENT = ''MISSING_INSTRUMENT''"
| "coverage_value MISSING_SIDE = ''MISSING_SIDE''"
| "coverage_value MISSING_CURRENCY = ''MISSING_CURRENCY''"
| "coverage_value MISSING_QUANTITY = ''MISSING_QUANTITY''"
| "coverage_value MISSING_TIMESTAMP = ''MISSING_TIMESTAMP''"
| "coverage_value MISSING_MONETARY_FIELD = ''MISSING_MONETARY_FIELD''"

definition score_precision :: nat where
  "score_precision = 80"

section \<open>Similarity\<close>

definition linear_similarity :: "dec \<Rightarrow> dec \<Rightarrow> dec result" where
  "linear_similarity difference band =
     (if dec_is_zero band
      then Inr (if dec_is_zero difference then dec_of_int 1 else dec_of_int 0)
      else rbind (dec_div score_precision difference band)
        (\<lambda>q. Inr (dec_max (dec_of_int 0) (dec_sub score_precision (dec_of_int 1) q))))"

definition quantize_bp :: "dec \<Rightarrow> int result" where
  "quantize_bp value = dec_quantize_int score_precision value"

definition timedelta_seconds :: "timedelta \<Rightarrow> dec result" where
  "timedelta_seconds d =
     rbind (dec_div score_precision (dec_of_int (d mod us_per_second)) (dec_of_int 1000000))
       (\<lambda>fraction. Inr (dec_add score_precision (dec_of_int (d div us_per_second)) fraction))"

text \<open>The similarity and the contribution of a factor between zero and one.\<close>

definition scaled_bp :: "int \<Rightarrow> dec \<Rightarrow> int result" where
  "scaled_bp scale factor = quantize_bp (dec_mul score_precision (dec_of_int scale) factor)"

section \<open>Feature evidence\<close>

primrec feature_name :: "match_feature \<Rightarrow> string" where
  "feature_name QUANTITY = ''Quantity''"
| "feature_name TIMESTAMP = ''Timestamp''"
| "feature_name UNIT_PRICE = ''Unit Price''"
| "feature_name GROSS_AMOUNT = ''Gross Amount''"

definition missing_evidence ::
    "match_feature \<Rightarrow> scalar_value option \<Rightarrow> scalar_value option \<Rightarrow> difference_value \<Rightarrow> int \<Rightarrow> string \<Rightarrow>
     feature_evidence result"
where
  "missing_evidence feature left right band weight rule = feature_evidence_post_init
     \<lparr>fe_feature = feature, fe_left_value = left, fe_right_value = right, fe_difference = None,
      fe_band = band, fe_present = False, fe_similarity_bp = 0, fe_weight_bp = weight,
      fe_contribution_bp = 0, fe_rule = rule\<rparr>"

definition numeric_difference :: "dec \<Rightarrow> dec \<Rightarrow> dec" where
  "numeric_difference left right = dec_abs score_precision (dec_sub score_precision right left)"

definition numeric_band :: "numeric_similarity \<Rightarrow> dec \<Rightarrow> dec \<Rightarrow> dec" where
  "numeric_band policy left right =
     dec_max (ns_absolute_band policy)
       (dec_mul score_precision (ns_relative_band policy)
         (dec_max (dec_abs score_precision left) (dec_abs score_precision right)))"

definition numeric_evidence ::
    "match_feature \<Rightarrow> dec option \<Rightarrow> dec option \<Rightarrow> numeric_similarity \<Rightarrow> int \<Rightarrow> feature_evidence result"
where
  "numeric_evidence feature left right policy weight =
     (case (left, right) of
        (Some l, Some r) \<Rightarrow>
          (let difference = numeric_difference l r; band = numeric_band policy l r
           in rbind (linear_similarity difference band)
              (\<lambda>factor. rbind (scaled_bp SCORE_SCALE_BP factor)
              (\<lambda>similarity. rbind (scaled_bp weight factor)
              (\<lambda>contribution. feature_evidence_post_init
                \<lparr>fe_feature = feature, fe_left_value = Some (SDecimal l), fe_right_value = Some (SDecimal r),
                 fe_difference = Some (DDecimal difference), fe_band = DDecimal band, fe_present = True,
                 fe_similarity_bp = similarity, fe_weight_bp = weight, fe_contribution_bp = contribution,
                 fe_rule = feature_name feature @ '' uses linear similarity from absolute difference '' @
                   dec_text difference @ '' across band '' @ dec_text band @ ''; fixed weight '' @
                   int_text weight @ '' basis points.''\<rparr>))))
      | _ \<Rightarrow> missing_evidence feature (map_option SDecimal left) (map_option SDecimal right)
          (DDecimal (ns_absolute_band policy)) weight
          (feature_name feature @ '' is missing on one or both records; '' @
           ''its contribution is zero and feature weights remain unchanged.''))"

definition timestamp_evidence ::
    "datetime option \<Rightarrow> datetime option \<Rightarrow> timedelta \<Rightarrow> int \<Rightarrow> feature_evidence result"
where
  "timestamp_evidence left right band weight =
     (case (left, right) of
        (Some l, Some r) \<Rightarrow>
          (let difference = \<bar>r - l\<bar>
           in rbind (timedelta_seconds difference)
              (\<lambda>ds. rbind (timedelta_seconds band)
              (\<lambda>bs. rbind (linear_similarity ds bs)
              (\<lambda>factor. rbind (scaled_bp SCORE_SCALE_BP factor)
              (\<lambda>similarity. rbind (scaled_bp weight factor)
              (\<lambda>contribution. feature_evidence_post_init
                \<lparr>fe_feature = TIMESTAMP, fe_left_value = Some (SDatetime l), fe_right_value = Some (SDatetime r),
                 fe_difference = Some (DDelta difference), fe_band = DDelta band, fe_present = True,
                 fe_similarity_bp = similarity, fe_weight_bp = weight, fe_contribution_bp = contribution,
                 fe_rule = ''Timestamp uses linear similarity from elapsed difference '' @
                   timedelta_text difference @ '' across band '' @ timedelta_text band @
                   ''; fixed weight '' @ int_text weight @ '' basis points.''\<rparr>))))))
      | _ \<Rightarrow> missing_evidence TIMESTAMP (map_option SDatetime left) (map_option SDatetime right)
          (DDelta band) weight
          (''Timestamp is missing on one or both records; its contribution is zero '' @
           ''and feature weights remain unchanged.''))"

section \<open>Contradictions and coverage\<close>

definition differ :: "'a option \<Rightarrow> 'a option \<Rightarrow> bool" where
  "differ a b \<longleftrightarrow> a \<noteq> None \<and> b \<noteq> None \<and> a \<noteq> b"

definition contradictions ::
    "match_record \<Rightarrow> match_record \<Rightarrow> reference_contract \<Rightarrow> contradiction_code list" where
  "contradictions l r contract = sort_key contradiction_value
     ((if differ (mr_instrument l) (mr_instrument r) then [INSTRUMENT_MISMATCH] else []) @
      (if differ (mr_side l) (mr_side r) then [SIDE_MISMATCH] else []) @
      (if differ (mr_currency l) (mr_currency r) then [CURRENCY_MISMATCH] else []) @
      (if contract = SHARED_MUST_AGREE
       then if differ (mr_reference_value l) (mr_reference_value r) then [SHARED_REFERENCE_MISMATCH] else []
       else if differ (mr_shared_reference_alias l) (mr_shared_reference_alias r)
            then [SHARED_ALIAS_MISMATCH] else []))"

definition absent :: "'a option \<Rightarrow> 'b option \<Rightarrow> bool" where
  "absent a b \<longleftrightarrow> a = None \<or> b = None"

definition coverage_failures :: "match_record \<Rightarrow> match_record \<Rightarrow> coverage_failure list" where
  "coverage_failures l r = sort_key coverage_value
     ((if absent (mr_instrument l) (mr_instrument r) then [MISSING_INSTRUMENT] else []) @
      (if absent (mr_side l) (mr_side r) then [MISSING_SIDE] else []) @
      (if absent (mr_currency l) (mr_currency r) then [MISSING_CURRENCY] else []) @
      (if absent (mr_quantity l) (mr_quantity r) then [MISSING_QUANTITY] else []) @
      (if absent (mr_executed_at l) (mr_executed_at r) then [MISSING_TIMESTAMP] else []) @
      (if absent (mr_unit_price l) (mr_unit_price r) \<and> absent (mr_gross_amount l) (mr_gross_amount r)
       then [MISSING_MONETARY_FIELD] else []))"

section \<open>Scoring a candidate\<close>

definition weight_of :: "matching_policy \<Rightarrow> match_feature \<Rightarrow> int result" where
  "weight_of policy f =
     rbind (dict_index (dict_of fw_feature (mp_feature_weights policy)) f) (\<lambda>w. Inr (fw_weight_bp w))"

definition score_candidate ::
    "match_record \<Rightarrow> match_record \<Rightarrow> string list \<Rightarrow> bool \<Rightarrow> matching_policy \<Rightarrow> candidate_evidence result"
where
  "score_candidate l r reasons computed policy =
     rbind (rbind (weight_of policy QUANTITY)
        (numeric_evidence QUANTITY (mr_quantity l) (mr_quantity r) (mp_quantity_similarity policy)))
     (\<lambda>quantity. rbind (rbind (weight_of policy TIMESTAMP)
        (timestamp_evidence (mr_executed_at l) (mr_executed_at r) (ts_band (mp_timestamp_similarity policy))))
     (\<lambda>timestamp. rbind (rbind (weight_of policy UNIT_PRICE)
        (numeric_evidence UNIT_PRICE (mr_unit_price l) (mr_unit_price r) (mp_unit_price_similarity policy)))
     (\<lambda>price. rbind (rbind (weight_of policy GROSS_AMOUNT)
        (numeric_evidence GROSS_AMOUNT (mr_gross_amount l) (mr_gross_amount r) (mp_gross_amount_similarity policy)))
     (\<lambda>amount. let features = [quantity, timestamp, price, amount]
        in candidate_evidence_post_init
          \<lparr>ce_left_id = mr_observation_id l, ce_right_id = mr_observation_id r,
           ce_blocking_reasons = reasons, ce_features = features,
           ce_contradictions = map contradiction_value (contradictions l r (mp_reference_contract policy)),
           ce_coverage_failures = map coverage_value (coverage_failures l r),
           ce_coverage_sufficient = (coverage_failures l r = []),
           ce_complete_computation = computed,
           ce_score_bp = sum_list (map fe_contribution_bp features),
           ce_score_label = ''Rule score''\<rparr>))))"

definition score_edge ::
    "(string \<times> match_record) list \<Rightarrow> (string \<times> match_record) list \<Rightarrow> string list \<Rightarrow> matching_policy \<Rightarrow>
     candidate_edge \<Rightarrow> candidate_evidence result"
where
  "score_edge left_by_id right_by_id limited policy c =
     (case (dict_get left_by_id (cg_left_id c), dict_get right_by_id (cg_right_id c)) of
        (Some l, Some r) \<Rightarrow> score_candidate l r (cg_blocking_reasons c)
          (cg_left_id c \<notin> set limited \<and> cg_right_id c \<notin> set limited) policy
      | _ \<Rightarrow> Inl (DomainValidationError
          ''candidate edge must reference records remaining after preprocessing''))"

definition score_candidates ::
    "preprocessing_result \<Rightarrow> generation_result \<Rightarrow> matching_policy \<Rightarrow> candidate_evidence list result"
where
  "score_candidates pre generated policy =
     rbind (rmap (score_edge (dict_of mr_observation_id (rp_remaining_left pre))
         (dict_of mr_observation_id (rp_remaining_right pre)) (gr_limited_record_ids generated) policy)
         (gr_candidates generated))
       (\<lambda>scored. Inr (sort_key ce_edge scored))"

end
