(* ===== verification/Assignment.thy ===== *)
theory Assignment
  imports Scoring
begin

text \<open>
  Connected components and the optional-unmatched assignment
  (\<open>reconciliation/domain/assignment.py\<close>) and the SciPy adapter
  (\<open>reconciliation/solvers/scipy_assignment.py\<close>). A solver is the record of its version and
  its \<open>minimize\<close>; \<open>linear_sum_assignment\<close> and the version of SciPy, which are not part of
  the repository, are parameters of the adapter, and \<open>sha256\<close> is a parameter as before.
\<close>

section \<open>Values\<close>

datatype assignment_limit = INCOMPLETE_CANDIDATE_GRAPH | COMPONENT_NODE_LIMIT | COMPONENT_EDGE_LIMIT

type_synonym cost_matrix = "int list list"
type_synonym selection = "(int \<times> int) list"

record solver =
  sv_version :: string
  sv_minimize :: "cost_matrix \<Rightarrow> selection result"

record selected_edge =
  se_left_id :: string
  se_right_id :: string
  se_score_bp :: int
  se_utility_bp :: int

abbreviation se_edge :: "selected_edge \<Rightarrow> string \<times> string" where
  "se_edge e \<equiv> (se_left_id e, se_right_id e)"

definition selected_edge_post_init :: "selected_edge \<Rightarrow> selected_edge result" where
  "selected_edge_post_init e = checks
     [required_text (se_left_id e) ''selected assignment left_id'',
      required_text (se_right_id e) ''selected assignment right_id'',
      (se_score_bp e \<le> 0, ''selected assignment score_bp must be a positive integer''),
      (se_utility_bp e \<le> 0, ''selected assignment utility_bp must be a positive integer''),
      (10000 < se_score_bp e \<or> se_score_bp e < se_utility_bp e,
       ''selected assignment score or utility is outside its integer scale'')] e"

record solved_component =
  sc_component_id :: string
  sc_graph_digest :: string
  sc_solver_version :: string
  sc_left_ids :: "string list"
  sc_right_ids :: "string list"
  sc_candidate_count :: int
  sc_optimal_utility_bp :: int
  sc_complete :: bool
  sc_limit_reason :: "assignment_limit option"
  sc_selected_edges :: "selected_edge list"

definition solved_component_normal :: "solved_component \<Rightarrow> solved_component" where
  "solved_component_normal c = c\<lparr>
     sc_left_ids := sort (sc_left_ids c),
     sc_right_ids := sort (sc_right_ids c),
     sc_selected_edges := sort_key se_edge (sc_selected_edges c)\<rparr>"

definition solved_component_checks :: "solved_component \<Rightarrow> (bool \<times> string) list" where
  "solved_component_checks c =
     (let n = solved_component_normal c;
          lefts = map se_left_id (sc_selected_edges n);
          rights = map se_right_id (sc_selected_edges n)
      in [required_text (sc_component_id c) ''assignment component component_id'',
          required_text (sc_graph_digest c) ''assignment component graph_digest'',
          required_text (sc_solver_version c) ''assignment component solver_version'',
          (sc_left_ids n = [] \<or> sc_right_ids n = [], ''assignment component requires records on both sides''),
          (\<not> distinct (sc_left_ids n) \<or> \<not> distinct (sc_right_ids n),
           ''assignment component identities must be unique''),
          (sc_candidate_count c \<le> 0, ''assignment candidate_count must be positive''),
          (sc_optimal_utility_bp c < 0, ''optimal_utility_bp must be a nonnegative integer''),
          (sc_complete c \<and> sc_limit_reason c \<noteq> None,
           ''a complete assignment component cannot have a limit reason''),
          (\<not> sc_complete c \<and> sc_limit_reason c = None,
           ''an incomplete assignment component requires a limit reason''),
          (\<not> distinct lefts \<or> \<not> distinct rights, ''selected assignment edges must be one-to-one''),
          (\<not> set lefts \<subseteq> set (sc_left_ids n) \<or> \<not> set rights \<subseteq> set (sc_right_ids n),
           ''selected assignment edge must belong to its component''),
          (\<not> sc_complete c \<and> sc_selected_edges n \<noteq> [],
           ''an incomplete assignment component cannot select edges''),
          (sc_optimal_utility_bp c \<noteq> sum_list (map se_utility_bp (sc_selected_edges n)),
           ''component objective must equal selected edge utilities'')])"

definition solved_component_post_init :: "solved_component \<Rightarrow> solved_component result" where
  "solved_component_post_init c = checks (solved_component_checks c) (solved_component_normal c)"

record solve_result =
  sr_components :: "solved_component list"
  sr_selected_edges :: "selected_edge list"
  sr_source_limited_record_ids :: "string list"
  sr_limited_record_ids :: "string list"

definition solve_result_normal :: "solve_result \<Rightarrow> solve_result" where
  "solve_result_normal r = \<lparr>
     sr_components = sort_key sc_component_id (sr_components r),
     sr_selected_edges = sort_key se_edge (sr_selected_edges r),
     sr_source_limited_record_ids = sort (sr_source_limited_record_ids r),
     sr_limited_record_ids = sort (sr_limited_record_ids r)\<rparr>"

definition incomplete_component_members :: "solved_component list \<Rightarrow> string list" where
  "incomplete_component_members cs =
     concat (map (\<lambda>c. sc_left_ids c @ sc_right_ids c) (filter (\<lambda>c. \<not> sc_complete c) cs))"

definition solve_result_checks :: "solve_result \<Rightarrow> (bool \<times> string) list" where
  "solve_result_checks r =
     (let n = solve_result_normal r
      in [(\<not> distinct (map sc_component_id (sr_components n)),
           ''assignment component identities must be unique''),
          (sr_selected_edges n \<noteq> sort_key se_edge (concat (map sc_selected_edges (sr_components n))),
           ''assignment selected edges must equal component selections''),
          (\<not> distinct (map se_left_id (sr_selected_edges n)) \<or>
           \<not> distinct (map se_right_id (sr_selected_edges n)),
           ''assignment result selections must be globally one-to-one''),
          (\<not> distinct (sr_source_limited_record_ids n),
           ''source limited record identities must be unique''),
          (set (sr_limited_record_ids n) \<noteq> set (sr_source_limited_record_ids n) \<union>
             set (incomplete_component_members (sr_components n)),
           ''assignment limited identities must equal source and incomplete component members'')])"

definition solve_result_post_init :: "solve_result \<Rightarrow> solve_result result" where
  "solve_result_post_init r = checks (solve_result_checks r) (solve_result_normal r)"

interpretation cv_selected: canonical_value selected_edge_post_init
  by (rule canonical_value_checksI) (simp add: selected_edge_post_init_def checks_Inr_iff)

interpretation cv_solved: canonical_value solved_component_post_init
proof (rule canonical_valueI [OF solved_component_post_init_def])
  show idem: "solved_component_normal (solved_component_normal x) = solved_component_normal x" for x
    by (simp add: solved_component_normal_def)
  show "solved_component_checks (solved_component_normal x) = solved_component_checks x" for x
    by (simp add: solved_component_checks_def idem) (simp add: solved_component_normal_def)
qed

interpretation cv_solve_result: canonical_value solve_result_post_init
proof (rule canonical_valueI [OF solve_result_post_init_def])
  show idem: "solve_result_normal (solve_result_normal x) = solve_result_normal x" for x
    by (simp add: solve_result_normal_def)
  show "solve_result_checks (solve_result_normal x) = solve_result_checks x" for x
    by (simp add: solve_result_checks_def idem)
qed

section \<open>Connected components\<close>

text \<open>\<open>by_node[("L", id)]\<close> and \<open>by_node[("R", id)]\<close>: the candidates at a record.\<close>

definition left_indices :: "candidate_evidence list \<Rightarrow> string \<Rightarrow> nat list" where
  "left_indices cs i = filter (\<lambda>k. ce_left_id (cs ! k) = i) [0..<length cs]"

definition right_indices :: "candidate_evidence list \<Rightarrow> string \<Rightarrow> nat list" where
  "right_indices cs i = filter (\<lambda>k. ce_right_id (cs ! k) = i) [0..<length cs]"

definition edge_neighbours :: "candidate_evidence list \<Rightarrow> nat \<Rightarrow> nat list" where
  "edge_neighbours cs k = left_indices cs (ce_left_id (cs ! k)) @ right_indices cs (ce_right_id (cs ! k))"

lemma edge_neighbours_iff:
  "j \<in> set (edge_neighbours cs k) \<longleftrightarrow> j < length cs \<and>
   (ce_left_id (cs ! j) = ce_left_id (cs ! k) \<or> ce_right_id (cs ! j) = ce_right_id (cs ! k))"
  by (auto simp: edge_neighbours_def left_indices_def right_indices_def)

text \<open>The inner loop, from the indices collected so far, the unvisited ones and the queue.\<close>

function component_loop ::
    "candidate_evidence list \<Rightarrow> nat list \<Rightarrow> nat list \<Rightarrow> nat list \<Rightarrow> nat list \<times> nat list"
where
  "component_loop cs indices unvisited [] = (indices, unvisited)"
| "component_loop cs indices unvisited (k # queue) =
     (if k \<in> set indices then component_loop cs indices unvisited queue
      else component_loop cs (indices @ [k]) (filter (\<lambda>j. j \<noteq> k) unvisited)
        (queue @ filter (\<lambda>j. j \<notin> set (indices @ [k])) (edge_neighbours cs k)))"
  by pat_completeness auto
termination
proof (relation "measures [\<lambda>(cs, indices, unvisited, queue). card (({..<length cs} \<union> set queue) - set indices),
    \<lambda>(cs, indices, unvisited, queue). length queue]", goal_cases)
  case (2 cs indices unvisited k queue)
  then show ?case by (simp add: insert_absorb)
next
  case (3 cs indices unvisited k queue)
  let ?q = "queue @ filter (\<lambda>j. j \<notin> set (indices @ [k])) (edge_neighbours cs k)"
  have "({..<length cs} \<union> set ?q) - set (indices @ [k]) \<subset> ({..<length cs} \<union> set (k # queue)) - set indices"
    using 3 by (auto simp: edge_neighbours_iff)
  then have "card (({..<length cs} \<union> set ?q) - set (indices @ [k])) <
      card (({..<length cs} \<union> set (k # queue)) - set indices)"
    by (rule psubset_card_mono [rotated]) simp
  then show ?case by simp
qed simp

text \<open>\<open>min(unvisited, key=...)\<close>: the first index with the least edge.\<close>

fun min_index :: "candidate_evidence list \<Rightarrow> nat list \<Rightarrow> nat" where
  "min_index cs [] = 0"
| "min_index cs [k] = k"
| "min_index cs (k # j # ks) =
     (let m = min_index cs (j # ks) in if ce_edge (cs ! m) < ce_edge (cs ! k) then m else k)"

lemma min_index_in: "ks \<noteq> [] \<Longrightarrow> min_index cs ks \<in> set ks"
  by (induction cs ks rule: min_index.induct) (auto simp: Let_def)

lemma component_loop_unvisited:
  "component_loop cs indices unvisited queue = (indices', unvisited') \<Longrightarrow>
   set indices \<inter> set unvisited = {} \<Longrightarrow>
   set indices \<union> set queue \<subseteq> set indices' \<and> unvisited' = filter (\<lambda>j. j \<notin> set indices') unvisited"
proof (induction cs indices unvisited queue rule: component_loop.induct)
  case (1 cs indices unvisited)
  then have "filter (\<lambda>j. j \<notin> set indices) unvisited = unvisited" by (intro filter_True) auto
  with 1 show ?case by simp
next
  case (2 cs indices unvisited k queue)
  show ?case
  proof (cases "k \<in> set indices")
    case True
    with 2 show ?thesis by auto
  next
    case False
    let ?q = "queue @ filter (\<lambda>j. j \<notin> set (indices @ [k])) (edge_neighbours cs k)"
    have "component_loop cs (indices @ [k]) (filter (\<lambda>j. j \<noteq> k) unvisited) ?q = (indices', unvisited')"
      using 2(3) False by simp
    moreover have "set (indices @ [k]) \<inter> set (filter (\<lambda>j. j \<noteq> k) unvisited) = {}" using 2(4) by auto
    ultimately have ih: "set (indices @ [k]) \<union> set ?q \<subseteq> set indices' \<and>
        unvisited' = filter (\<lambda>j. j \<notin> set indices') (filter (\<lambda>j. j \<noteq> k) unvisited)"
      by (rule 2(2) [OF False])
    moreover have "filter (\<lambda>j. j \<notin> set indices') (filter (\<lambda>j. j \<noteq> k) unvisited) =
        filter (\<lambda>j. j \<notin> set indices') unvisited"
      using ih by (auto intro: filter_cong)
    ultimately show ?thesis by auto
  qed
qed

function components_loop :: "candidate_evidence list \<Rightarrow> nat list \<Rightarrow> candidate_evidence list list" where
  "components_loop cs unvisited =
     (if unvisited = [] then []
      else let (indices, unvisited') = component_loop cs [] unvisited [min_index cs unvisited]
           in map ((!) cs) (sort indices) # components_loop cs unvisited')"
  by pat_completeness auto
termination
proof (relation "measure (\<lambda>(cs, unvisited). length unvisited)", goal_cases)
  case (2 cs unvisited x indices unvisited')
  then have "set [] \<union> set [min_index cs unvisited] \<subseteq> set indices \<and>
      unvisited' = filter (\<lambda>j. j \<notin> set indices) unvisited"
    by (intro component_loop_unvisited) auto
  moreover have "min_index cs unvisited \<in> set unvisited" using 2(1) by (rule min_index_in)
  ultimately show ?case by (auto intro!: length_filter_less)
qed simp

declare components_loop.simps [simp del]

definition min_edge :: "candidate_evidence list \<Rightarrow> string \<times> string" where
  "min_edge cs = Min (set (map ce_edge cs))"

definition edge_components :: "candidate_evidence list \<Rightarrow> candidate_evidence list list" where
  "edge_components cs = sort_key min_edge (components_loop cs [0..<length cs])"

section \<open>Identities and digests\<close>

definition component_id :: "(string \<Rightarrow> string) \<Rightarrow> string list \<Rightarrow> string list \<Rightarrow> string" where
  "component_id sha256 left_ids right_ids =
     ''component-'' @ take 16 (sha256 (json_dumps (json_object
       [(''left'', json_texts left_ids), (''right'', json_texts right_ids)])))"

definition graph_edge_json :: "candidate_evidence \<Rightarrow> json" where
  "graph_edge_json c = json_object
     [(''left_id'', JText (ce_left_id c)), (''right_id'', JText (ce_right_id c)),
      (''score_bp'', JInt (ce_score_bp c)), (''complete'', JBool (ce_complete_computation c))]"

definition assignment_graph_digest ::
    "(string \<Rightarrow> string) \<Rightarrow> string \<Rightarrow> int \<Rightarrow> candidate_evidence list \<Rightarrow> string" where
  "assignment_graph_digest sha256 comp_id floor_bp edges =
     sha256 (json_dumps (json_object
       [(''component_id'', JText comp_id), (''assignment_floor_bp'', JInt floor_bp),
        (''edges'', JArray (map graph_edge_json (sort_key ce_edge edges)))]))"

section \<open>Solving a component\<close>

definition validate_solver_selection :: "selection \<Rightarrow> nat \<Rightarrow> nat \<Rightarrow> unit result" where
  "validate_solver_selection sel row_count column_count = checks
     [(length sel \<noteq> row_count, ''assignment solver must select exactly one column per row''),
      (set (map fst sel) \<noteq> set (map int [0..<row_count]) \<or> \<not> distinct (map snd sel),
       ''assignment solver returned duplicate or missing row/column selections''),
      (list_ex (\<lambda>c. c < 0 \<or> int column_count \<le> c) (map snd sel),
       ''assignment solver returned an out-of-range column'')] ()"

definition edge_cost ::
    "((string \<times> string) \<times> candidate_evidence) list \<Rightarrow> int \<Rightarrow> (string \<times> string) list \<Rightarrow> int \<Rightarrow>
     string \<times> string \<Rightarrow> int"
where
  "edge_cost edges floor_bp forbidden forbidden_cost e =
     (case dict_get edges e of
        Some c \<Rightarrow> if e \<notin> set forbidden then - (ce_score_bp c - floor_bp) else forbidden_cost
      | None \<Rightarrow> forbidden_cost)"

definition assignment_costs ::
    "string list \<Rightarrow> string list \<Rightarrow> ((string \<times> string) \<times> candidate_evidence) list \<Rightarrow> int \<Rightarrow>
     (string \<times> string) list \<Rightarrow> cost_matrix"
where
  "assignment_costs left_ids right_ids edges floor_bp forbidden =
     (let forbidden_cost = int (length left_ids) * 10001 + 1
      in map (\<lambda>l. map (\<lambda>r. edge_cost edges floor_bp forbidden forbidden_cost (l, r)) right_ids @
           map (\<lambda>_. 0) left_ids) left_ids)"

definition select_edge ::
    "string list \<Rightarrow> string list \<Rightarrow> ((string \<times> string) \<times> candidate_evidence) list \<Rightarrow> int \<Rightarrow>
     (string \<times> string) list \<Rightarrow> int \<times> int \<Rightarrow> selected_edge result"
where
  "select_edge left_ids right_ids edges floor_bp forbidden pos =
     (let l = left_ids ! nat (fst pos); r = right_ids ! nat (snd pos)
      in case if (l, r) \<in> set forbidden then None else dict_get edges (l, r) of
           None \<Rightarrow> Inl (DomainValidationError ''assignment solver selected a forbidden relationship'')
         | Some c \<Rightarrow>
             (let utility = ce_score_bp c - floor_bp
              in if utility \<le> 0
                 then Inl (DomainValidationError ''assignment solver selected a nonpositive real edge'')
                 else selected_edge_post_init
                   \<lparr>se_left_id = l, se_right_id = r, se_score_bp = ce_score_bp c, se_utility_bp = utility\<rparr>))"

definition solve_component ::
    "string list \<Rightarrow> string list \<Rightarrow> candidate_evidence list \<Rightarrow> int \<Rightarrow> solver \<Rightarrow>
     (string \<times> string) list \<Rightarrow> selected_edge list result"
where
  "solve_component left_ids right_ids candidates floor_bp solver forbidden =
     (let edges = dict_of ce_edge candidates
      in if \<not> set forbidden \<subseteq> set (dict_keys edges)
         then Inl (DomainValidationError ''counterfactual forbidden edges must belong to the component'')
         else rbind (sv_minimize solver (assignment_costs left_ids right_ids edges floor_bp forbidden))
           (\<lambda>sel. rbind (validate_solver_selection sel (length left_ids) (length right_ids + length left_ids))
           (\<lambda>_. rbind (rmap (select_edge left_ids right_ids edges floor_bp forbidden)
                  (filter (\<lambda>pos. snd pos < int (length right_ids)) sel))
           (\<lambda>selected. Inr (sort_key se_edge selected)))))"

section \<open>Solving the assignment\<close>

definition component_limit ::
    "string list \<Rightarrow> matching_policy \<Rightarrow> string list \<Rightarrow> string list \<Rightarrow> candidate_evidence list \<Rightarrow>
     assignment_limit option"
where
  "component_limit limited policy left_ids right_ids edges =
     (if (\<exists>i \<in> set (left_ids @ right_ids). i \<in> set limited) \<or> list_ex (\<lambda>c. \<not> ce_complete_computation c) edges
      then Some INCOMPLETE_CANDIDATE_GRAPH
      else if cl_max_component_nodes (mp_limits policy) < int (length left_ids) + int (length right_ids)
      then Some COMPONENT_NODE_LIMIT
      else if cl_max_component_edges (mp_limits policy) < int (length edges)
      then Some COMPONENT_EDGE_LIMIT
      else None)"

definition assign_component ::
    "(string \<Rightarrow> string) \<Rightarrow> string list \<Rightarrow> matching_policy \<Rightarrow> solver \<Rightarrow> candidate_evidence list \<Rightarrow>
     solved_component result"
where
  "assign_component sha256 limited policy solver edges =
     (let left_ids = sorted_set (map ce_left_id edges);
          right_ids = sorted_set (map ce_right_id edges);
          comp_id = component_id sha256 left_ids right_ids;
          limit = component_limit limited policy left_ids right_ids edges;
          component = \<lparr>sc_component_id = comp_id,
            sc_graph_digest = assignment_graph_digest sha256 comp_id (mp_assignment_floor_bp policy) edges,
            sc_solver_version = sv_version solver, sc_left_ids = left_ids, sc_right_ids = right_ids,
            sc_candidate_count = int (length edges), sc_optimal_utility_bp = 0, sc_complete = False,
            sc_limit_reason = limit, sc_selected_edges = []\<rparr>
      in if limit \<noteq> None then solved_component_post_init component
         else rbind (solve_component left_ids right_ids edges (mp_assignment_floor_bp policy) solver [])
           (\<lambda>selected. solved_component_post_init (component
             \<lparr>sc_optimal_utility_bp := sum_list (map se_utility_bp selected), sc_complete := True,
              sc_selected_edges := selected\<rparr>)))"

definition eligible_candidates :: "matching_policy \<Rightarrow> candidate_evidence list \<Rightarrow> candidate_evidence list" where
  "eligible_candidates policy candidates =
     sort_key ce_edge (filter (\<lambda>c. mp_assignment_floor_bp policy < ce_score_bp c) candidates)"

definition solve_assignment ::
    "(string \<Rightarrow> string) \<Rightarrow> candidate_evidence list \<Rightarrow> generation_result \<Rightarrow> matching_policy \<Rightarrow> solver \<Rightarrow>
     solve_result result"
where
  "solve_assignment sha256 candidates generated policy solver =
     rbind (checks
       [(sv_version solver \<noteq> mp_solver_version policy,
         ''assignment solver version must match the matching policy''),
        (\<not> distinct (map ce_edge candidates), ''scored assignment candidates must be unique''),
        (set (map ce_edge candidates) \<noteq> set (map cg_edge (gr_candidates generated)),
         ''scored candidates must exactly cover generated candidate edges'')] ())
     (\<lambda>_. rbind (rmap (assign_component sha256 (gr_limited_record_ids generated) policy solver)
            (edge_components (eligible_candidates policy candidates)))
     (\<lambda>components. solve_result_post_init \<lparr>
        sr_components = components,
        sr_selected_edges = concat (map sc_selected_edges components),
        sr_source_limited_record_ids = gr_limited_record_ids generated,
        sr_limited_record_ids = remdups (gr_limited_record_ids generated @
          incomplete_component_members components)\<rparr>))"

section \<open>The SciPy adapter\<close>

definition int64 :: "int \<Rightarrow> bool" where
  "int64 c \<longleftrightarrow> - (2 ^ 63) \<le> c \<and> c < 2 ^ 63"

definition scipy_solver :: "string \<Rightarrow> (cost_matrix \<Rightarrow> int list \<times> int list) \<Rightarrow> solver" where
  "scipy_solver scipy_version linear_sum_assignment = \<lparr>
     sv_version = ''scipy-'' @ scipy_version @ ''-linear-sum-assignment-v1'',
     sv_minimize = (\<lambda>costs.
       if costs = [] then Inr []
       else if hd costs = [] \<or> list_ex (\<lambda>row. length row \<noteq> length (hd costs)) costs
       then Inl (DomainValidationError ''assignment cost matrix must be nonempty and rectangular'')
       else if list_ex (list_ex (\<lambda>c. \<not> int64 c)) costs then Inl OverflowError
       else case linear_sum_assignment costs of
          (rows, columns) \<Rightarrow>
            if length rows \<noteq> length columns then Inl ValueError
            else Inr (sort_key fst (zip rows columns)))\<rparr>"

end
