(* ===== verification/Gating.thy ===== *)
theory Gating
  imports Assignment
begin

text \<open>
  The gates of automatic acceptance (\<open>reconciliation/domain/gating.py\<close>). The loop over the
  components carries the edges assigned so far and the evidence of the components before.
\<close>

datatype gate_reason =
    SCORE_BELOW_AUTOMATIC_THRESHOLD | INSUFFICIENT_EVIDENCE | HARD_CONTRADICTION
  | INCOMPLETE_COMPUTATION | GLOBAL_GAP_BELOW_MINIMUM

primrec gate_reason_value :: "gate_reason \<Rightarrow> string" where
  "gate_reason_value SCORE_BELOW_AUTOMATIC_THRESHOLD = ''SCORE_BELOW_AUTOMATIC_THRESHOLD''"
| "gate_reason_value INSUFFICIENT_EVIDENCE = ''INSUFFICIENT_EVIDENCE''"
| "gate_reason_value HARD_CONTRADICTION = ''HARD_CONTRADICTION''"
| "gate_reason_value INCOMPLETE_COMPUTATION = ''INCOMPLETE_COMPUTATION''"
| "gate_reason_value GLOBAL_GAP_BELOW_MINIMUM = ''GLOBAL_GAP_BELOW_MINIMUM''"

primrec assignment_limit_value :: "assignment_limit \<Rightarrow> string" where
  "assignment_limit_value INCOMPLETE_CANDIDATE_GRAPH = ''INCOMPLETE_CANDIDATE_GRAPH''"
| "assignment_limit_value COMPONENT_NODE_LIMIT = ''COMPONENT_NODE_LIMIT''"
| "assignment_limit_value COMPONENT_EDGE_LIMIT = ''COMPONENT_EDGE_LIMIT''"

record gated_result =
  gt_components :: "component_evidence list"
  gt_proposals :: "proposal_evidence list"
  gt_accepted_proposals :: "proposal_evidence list"

definition gated_normal :: "gated_result \<Rightarrow> gated_result" where
  "gated_normal g = \<lparr>
     gt_components = sort_key ac_component_id (gt_components g),
     gt_proposals = sort_key pe_edge (gt_proposals g),
     gt_accepted_proposals = sort_key pe_edge (gt_accepted_proposals g)\<rparr>"

definition gated_checks :: "gated_result \<Rightarrow> (bool \<times> string) list" where
  "gated_checks g =
     (let n = gated_normal g
      in [(\<not> distinct (map ac_component_id (gt_components n)),
           ''gated assignment component identities must be unique''),
          (gt_proposals n \<noteq> sort_key pe_edge (concat (map ac_proposals (gt_components n))),
           ''gated proposals must exactly equal the component proposal evidence''),
          (gt_accepted_proposals n \<noteq> filter pe_accepted (gt_proposals n),
           ''accepted proposals must exactly equal the accepted flagged subset''),
          (\<not> distinct (map pe_left_id (gt_accepted_proposals n)) \<or>
           \<not> distinct (map pe_right_id (gt_accepted_proposals n)),
           ''accepted proposals must be one-to-one'')])"

definition gated_post_init :: "gated_result \<Rightarrow> gated_result result" where
  "gated_post_init g = checks (gated_checks g) (gated_normal g)"

interpretation cv_gated: canonical_value gated_post_init
proof (rule canonical_valueI [OF gated_post_init_def])
  show idem: "gated_normal (gated_normal x) = gated_normal x" for x
    by (simp add: gated_normal_def)
  show "gated_checks (gated_normal x) = gated_checks x" for x
    by (simp add: gated_checks_def idem)
qed

definition gate_reasons :: "candidate_evidence \<Rightarrow> int \<Rightarrow> matching_policy \<Rightarrow> gate_reason list" where
  "gate_reasons c gap policy =
     (if ce_score_bp c < mp_automatic_threshold_bp policy then [SCORE_BELOW_AUTOMATIC_THRESHOLD] else []) @
     (if \<not> ce_coverage_sufficient c then [INSUFFICIENT_EVIDENCE] else []) @
     (if ce_contradictions c \<noteq> [] then [HARD_CONTRADICTION] else []) @
     (if \<not> ce_complete_computation c then [INCOMPLETE_COMPUTATION] else []) @
     (if gap < mp_minimum_global_gap_bp policy then [GLOBAL_GAP_BELOW_MINIMUM] else [])"

text \<open>The eligible candidates between the members of a component.\<close>

definition component_candidates ::
    "candidate_evidence list \<Rightarrow> matching_policy \<Rightarrow> solved_component \<Rightarrow> candidate_evidence list" where
  "component_candidates candidates policy solved = sort_key ce_edge
     (filter (\<lambda>c. ce_left_id c \<in> set (sc_left_ids solved) \<and> ce_right_id c \<in> set (sc_right_ids solved) \<and>
        mp_assignment_floor_bp policy < ce_score_bp c) candidates)"

definition gate_selected ::
    "((string \<times> string) \<times> candidate_evidence) list \<Rightarrow> matching_policy \<Rightarrow> solver \<Rightarrow> solved_component \<Rightarrow>
     candidate_evidence list \<Rightarrow> selected_edge \<Rightarrow> proposal_evidence result"
where
  "gate_selected by_edge policy solver solved edges sel =
     (case dict_get by_edge (se_edge sel) of
        None \<Rightarrow> Inl (DomainValidationError ''assignment proposal must reference a scored candidate'')
      | Some c \<Rightarrow>
          if se_score_bp sel \<noteq> ce_score_bp c \<or> se_utility_bp sel \<noteq> ce_score_bp c - mp_assignment_floor_bp policy
          then Inl (DomainValidationError
            ''assignment proposal score and utility must match its candidate evidence'')
          else rbind (solve_component (sc_left_ids solved) (sc_right_ids solved) edges
              (mp_assignment_floor_bp policy) solver [se_edge sel])
            (\<lambda>counterfactual.
               let objective = sum_list (map se_utility_bp counterfactual);
                   gap = sc_optimal_utility_bp solved - objective;
                   reasons = gate_reasons c gap policy
               in if gap < 0
                  then Inl (DomainValidationError
                    ''counterfactual objective cannot exceed the base optimal objective'')
                  else proposal_evidence_post_init
                    \<lparr>pe_left_id = se_left_id sel, pe_right_id = se_right_id sel, pe_score_bp = se_score_bp sel,
                     pe_counterfactual_objective_bp = objective, pe_global_gap_bp = gap,
                     pe_accepted = (reasons = []), pe_gate_reasons = map gate_reason_value reasons\<rparr>))"

definition gate_component ::
    "(string \<Rightarrow> string) \<Rightarrow> candidate_evidence list \<Rightarrow> matching_policy \<Rightarrow> solver \<Rightarrow>
     (string \<times> string) list \<times> component_evidence list \<Rightarrow> solved_component \<Rightarrow>
     ((string \<times> string) list \<times> component_evidence list) result"
where
  "gate_component sha256 candidates policy solver acc solved =
     (case acc of (assigned, evidence) \<Rightarrow>
      let edges = component_candidates candidates policy solved; keys = map ce_edge edges
      in rbind (checks
         [(sc_solver_version solved \<noteq> mp_solver_version policy,
           ''assignment component solver version must match the matching policy''),
          (int (length edges) \<noteq> sc_candidate_count solved,
           ''assignment component candidate count must match the eligible candidate graph''),
          (\<exists>k \<in> set keys. k \<in> set assigned, ''eligible candidate edges cannot span assignment components''),
          (sc_graph_digest solved \<noteq>
             assignment_graph_digest sha256 (sc_component_id solved) (mp_assignment_floor_bp policy) edges,
           ''assignment component graph digest must match the eligible candidate graph'')] ())
         (\<lambda>_. rbind (if sc_complete solved
             then rmap (gate_selected (dict_of ce_edge candidates) policy solver solved edges) (sc_selected_edges solved)
             else Inr [])
         (\<lambda>proposals. rbind (component_evidence_post_init
             \<lparr>ac_component_id = sc_component_id solved, ac_graph_digest = sc_graph_digest solved,
              ac_solver_version = sc_solver_version solved, ac_left_ids = sc_left_ids solved,
              ac_right_ids = sc_right_ids solved, ac_candidate_count = sc_candidate_count solved,
              ac_optimal_utility_bp = sc_optimal_utility_bp solved, ac_complete = sc_complete solved,
              ac_limit_reason = map_option assignment_limit_value (sc_limit_reason solved),
              ac_proposals = proposals\<rparr>)
         (\<lambda>component. Inr (assigned @ keys, evidence @ [component])))))"

definition gate_assignment ::
    "(string \<Rightarrow> string) \<Rightarrow> candidate_evidence list \<Rightarrow> solve_result \<Rightarrow> matching_policy \<Rightarrow> solver \<Rightarrow>
     gated_result result"
where
  "gate_assignment sha256 candidates assignment policy solver =
     rbind (checks
       [(sv_version solver \<noteq> mp_solver_version policy,
         ''counterfactual solver version must match the matching policy''),
        (length (dict_of ce_edge candidates) \<noteq> length candidates,
         ''counterfactual candidates must be unique'')] ())
     (\<lambda>_. rbind (rfold (gate_component sha256 candidates policy solver) ([], []) (sr_components assignment))
     (\<lambda>(assigned, components).
        if set assigned \<noteq> set (map fst (filter (\<lambda>(e, c). mp_assignment_floor_bp policy < ce_score_bp c)
             (dict_of ce_edge candidates)))
        then Inl (DomainValidationError ''assignment components must exactly partition the eligible candidate graph'')
        else let proposals = concat (map ac_proposals components)
             in gated_post_init \<lparr>gt_components = components, gt_proposals = proposals,
               gt_accepted_proposals = filter pe_accepted proposals\<rparr>))"

end
