(* ===== verification/Comparison.thy ===== *)
theory Comparison
  imports Evidence
begin

text \<open>
  Field comparison of established pairs (\<open>reconciliation/domain/comparison.py\<close>). The arithmetic
  runs in the default decimal context.
\<close>

definition spaced_lower :: "pair_origin \<Rightarrow> string" where
  "spaced_lower origin = (case origin of MANUAL \<Rightarrow> ''manual''
     | AUTHORITATIVE_REFERENCE \<Rightarrow> ''authoritative reference'' | WEIGHTED_GLOBAL \<Rightarrow> ''weighted global'')"

text \<open>\<open>FieldComparison(field, status, left, right, signed, allowed, explanation)\<close>.\<close>

definition new_comparison ::
    "string \<Rightarrow> comparison_status \<Rightarrow> scalar_value option \<Rightarrow> scalar_value option \<Rightarrow> difference_value option \<Rightarrow>
     difference_value option \<Rightarrow> string \<Rightarrow> field_comparison result"
where
  "new_comparison field status left right signed allowed explanation = field_comparison_post_init
     \<lparr>fc_field = field, fc_status = status, fc_left_value = left, fc_right_value = right,
      fc_signed_difference = signed, fc_allowed_difference = allowed, fc_explanation = explanation\<rparr>"

text \<open>A comparison of two texts; the tail of the explanation depends on the field.\<close>

definition reference_comparison ::
    "match_record \<Rightarrow> match_record \<Rightarrow> pair_origin \<Rightarrow> reference_contract \<Rightarrow> field_comparison result"
where
  "reference_comparison l r origin contract =
     (let left = (if contract = SHARED_MUST_AGREE then mr_reference_value l else mr_shared_reference_alias l);
          right = (if contract = SHARED_MUST_AGREE then mr_reference_value r else mr_shared_reference_alias r);
          kind = (if contract = SHARED_MUST_AGREE then ''Shared reference'' else ''Shared reference alias'');
          role = spaced_lower origin
      in case (left, right) of
           (Some a, Some b) \<Rightarrow>
             if a = b
             then new_comparison ''reference'' EXACT (Some (SText a)) (Some (SText b)) None None
               (kind @ '' is exactly equal at '' @ a @ ''; the pair origin is '' @ role @ ''.'')
             else new_comparison ''reference'' DISCREPANT (Some (SText a)) (Some (SText b)) None None
               (kind @ '' differs: left is '' @ a @ '' and right is '' @ b @ ''; the pair origin is '' @ role @ ''.'')
         | _ \<Rightarrow> new_comparison ''reference'' MISSING (map_option SText left) (map_option SText right) None None
             (kind @ '' is missing on one or both records; the pair origin is '' @ role @ ''.''))"

definition categorical ::
    "string \<Rightarrow> string \<Rightarrow> string option \<Rightarrow> string option \<Rightarrow> field_comparison result"
where
  "categorical field label left right =
     (case (left, right) of
        (Some a, Some b) \<Rightarrow>
          if a = b
          then new_comparison field EXACT (Some (SText a)) (Some (SText b)) None None
            (label @ '' is exactly equal at '' @ a @ ''.'')
          else new_comparison field DISCREPANT (Some (SText a)) (Some (SText b)) None None
            (label @ '' differs: left is '' @ a @ '' and right is '' @ b @ ''.'')
      | _ \<Rightarrow> new_comparison field MISSING (map_option SText left) (map_option SText right) None None
          (label @ '' is missing on one or both records; no comparison was calculated.''))"

definition allowed_decimal :: "decimal_tolerance \<Rightarrow> dec \<Rightarrow> dec \<Rightarrow> dec" where
  "allowed_decimal tolerance l r =
     dec_max (dt_absolute tolerance)
       (dec_mul default_precision (dt_relative tolerance)
         (dec_max (dec_abs default_precision l) (dec_abs default_precision r)))"

definition decimal_comparison ::
    "string \<Rightarrow> string \<Rightarrow> dec option \<Rightarrow> dec option \<Rightarrow> decimal_tolerance \<Rightarrow> field_comparison result"
where
  "decimal_comparison field label left right tolerance =
     (case (left, right) of
        (Some l, Some r) \<Rightarrow>
          (let signed = dec_sub default_precision r l; allowed = allowed_decimal tolerance l r;
               differs = label @ '' differs by '' @ dec_text signed @ ''; the allowed difference is '' @
                 dec_text allowed @ ''.'';
               (status, explanation) =
                 (if dec_is_zero signed then (EXACT, label @ '' is exactly equal at '' @ dec_text l @ ''.'')
                  else if dec_le (dec_abs default_precision signed) allowed then (WITHIN_TOLERANCE, differs)
                  else (DISCREPANT, differs))
           in new_comparison field status (Some (SDecimal l)) (Some (SDecimal r))
                (Some (DDecimal signed)) (Some (DDecimal allowed)) explanation)
      | _ \<Rightarrow> new_comparison field MISSING (map_option SDecimal left) (map_option SDecimal right) None None
          (label @ '' is missing on one or both records; no difference was calculated.''))"

definition duration_text :: "timedelta \<Rightarrow> string result" where
  "duration_text d =
     rbind (dec_div default_precision (dec_of_int d) (dec_of_int 1000000))
       (\<lambda>seconds. Inr (dec_text_f seconds @ '' seconds''))"

definition timestamp_comparison ::
    "datetime option \<Rightarrow> datetime option \<Rightarrow> timedelta \<Rightarrow> field_comparison result"
where
  "timestamp_comparison left right tolerance =
     (case (left, right) of
        (Some l, Some r) \<Rightarrow>
          (let signed = r - l;
               stamped = (\<lambda>status explanation. new_comparison ''timestamp'' status (Some (SDatetime l))
                 (Some (SDatetime r)) (Some (DDelta signed)) (Some (DDelta tolerance)) explanation)
           in if signed = 0 then stamped EXACT (''Timestamp is exactly equal at '' @ isoformat l @ ''.'')
              else rbind (duration_text signed)
                (\<lambda>by. rbind (duration_text tolerance)
                (\<lambda>most. stamped (if \<bar>signed\<bar> \<le> tolerance then WITHIN_TOLERANCE else DISCREPANT)
                  (''Timestamp differs by '' @ by @ ''; the allowed elapsed difference is '' @ most @ ''.''))))
      | _ \<Rightarrow> new_comparison ''timestamp'' MISSING (map_option SDatetime left) (map_option SDatetime right) None None
          ''Timestamp is missing on one or both records; no elapsed difference was calculated.'')"

definition monetary_comparison ::
    "string \<Rightarrow> string \<Rightarrow> dec option \<Rightarrow> dec option \<Rightarrow> decimal_tolerance \<Rightarrow> string option \<Rightarrow> string option \<Rightarrow>
     bool \<Rightarrow> field_comparison result"
where
  "monetary_comparison field label left right tolerance left_currency right_currency currencies_equal =
     (case (left_currency, right_currency) of
        (Some a, Some b) \<Rightarrow>
          if \<not> currencies_equal
          then new_comparison field NOT_COMPARABLE (map_option SDecimal left) (map_option SDecimal right) None None
            (label @ '' is not comparable because currencies differ: left is '' @ a @ '' and right is '' @ b @ ''.'')
          else decimal_comparison field label left right tolerance
      | _ \<Rightarrow> new_comparison field NOT_COMPARABLE (map_option SDecimal left) (map_option SDecimal right) None None
          (label @ '' is not comparable because currency is missing on one or both records.''))"

definition state_comparison ::
    "canonical_state \<Rightarrow> canonical_state \<Rightarrow> comparison_policy \<Rightarrow> field_comparison result"
where
  "state_comparison l r policy =
     (let left = state_value l; right = state_value r;
          stated = (\<lambda>status explanation. new_comparison ''state'' status (Some (SText left)) (Some (SText right))
            None None explanation);
          compatible = ((l, r) \<in> set (cp_compatible_state_pairs policy))
      in if l = r then stated EXACT (''State is exactly equal at '' @ left @ ''.'')
         else stated (if compatible then WITHIN_TOLERANCE else DISCREPANT)
           (''State differs: left is '' @ left @ '' and right is '' @ right @ ''; the policy marks this pair '' @
            (if compatible then ''compatible'' else ''not compatible'') @ ''.''))"

text \<open>The comparisons in the order they are made, and their order in the result.\<close>

definition field_comparisons ::
    "match_record \<Rightarrow> match_record \<Rightarrow> pair_origin \<Rightarrow> comparison_policy \<Rightarrow> reference_contract \<Rightarrow>
     field_comparison result list"
where
  "field_comparisons l r origin policy contract =
     (let equal = (mr_currency l \<noteq> None \<and> mr_currency r \<noteq> None \<and> mr_currency l = mr_currency r)
      in [reference_comparison l r origin contract,
          categorical ''instrument'' ''Instrument'' (mr_instrument l) (mr_instrument r),
          categorical ''side'' ''Side'' (map_option side_value (mr_side l)) (map_option side_value (mr_side r)),
          decimal_comparison ''quantity'' ''Quantity'' (mr_quantity l) (mr_quantity r) (cp_quantity_tolerance policy),
          timestamp_comparison (mr_executed_at l) (mr_executed_at r) (cp_timestamp_tolerance policy),
          monetary_comparison ''unit_price'' ''Unit price'' (mr_unit_price l) (mr_unit_price r)
            (cp_unit_price_tolerance policy) (mr_currency l) (mr_currency r) equal,
          monetary_comparison ''gross_amount'' ''Gross amount'' (mr_gross_amount l) (mr_gross_amount r)
            (cp_gross_amount_tolerance policy) (mr_currency l) (mr_currency r) equal,
          categorical ''currency'' ''Currency'' (mr_currency l) (mr_currency r),
          state_comparison (mr_state l) (mr_state r) policy])"

definition compare_pair_fields ::
    "match_record \<Rightarrow> match_record \<Rightarrow> pair_origin \<Rightarrow> comparison_policy \<Rightarrow> reference_contract \<Rightarrow>
     field_comparison list result"
where
  "compare_pair_fields l r origin policy contract =
     rbind (rmap (\<lambda>c. c) (field_comparisons l r origin policy contract))
       (\<lambda>comparisons. Inr (sort_key fc_field comparisons))"

end
