(* ===== verification/Diagnostics.thy ===== *)
theory Diagnostics
  imports Scoring
begin

text \<open>
  Health diagnostics for accepted-unmatched decisions (\<open>reconciliation/domain/diagnostics.py\<close>).
  The loop over the decisions carries the edges the run may still enumerate and the diagnostics
  so far.
\<close>

definition incomplete_diagnostic :: "string \<Rightarrow> string \<Rightarrow> diagnostic result" where
  "incomplete_diagnostic record_id limit = diagnostic_post_init
     \<lparr>dg_kind = INCOMPLETE_SEARCH, dg_record_id = record_id, dg_candidate_id = None,
      dg_candidate_current_pair_id = None, dg_complete = False,
      dg_explanation = ''Decision-health search is incomplete because it reached the '' @ limit @
        ''; absence of another diagnostic does not establish that no candidate exists.''\<rparr>"

definition candidate_explanation :: "string \<Rightarrow> int \<Rightarrow> pair_outcome option \<Rightarrow> string" where
  "candidate_explanation candidate_id score current_pair =
     ''Candidate '' @ candidate_id @ '' has rule score '' @ int_text score @ '' under the current policy; '' @
     (case current_pair of
        None \<Rightarrow> ''the candidate is not currently paired''
      | Some p \<Rightarrow> ''the candidate is currently paired with '' @
          (if po_left_id p = candidate_id then po_right_id p else po_left_id p)) @ ''.''"

definition accepted_record ::
    "string \<Rightarrow> (string \<times> match_record) list \<Rightarrow> (string \<times> match_record) list \<Rightarrow>
     record_side \<times> match_record option"
where
  "accepted_record i left_by_id right_by_id =
     (case dict_get left_by_id i of
        Some r \<Rightarrow> (LEFT, Some r)
      | None \<Rightarrow> (case dict_get right_by_id i of Some r \<Rightarrow> (RIGHT, Some r) | None \<Rightarrow> (LEFT, None)))"

definition diagnostic_preprocessing ::
    "match_record \<Rightarrow> record_side \<Rightarrow> match_record list \<Rightarrow> prohibited_relationship list \<Rightarrow>
     preprocessing_result result"
where
  "diagnostic_preprocessing r side opposite prohibited =
     (let lefts = (if side = LEFT then [r] else opposite);
          rights = (if side = LEFT then opposite else [r]);
          left_ids = remdups (map mr_observation_id lefts); right_ids = remdups (map mr_observation_id rights)
      in preprocessing_post_init
        \<lparr>rp_input_left_ids = left_ids, rp_input_right_ids = right_ids, rp_pairs = [],
         rp_terminal_unpaired = [], rp_remaining_left = lefts, rp_remaining_right = rights,
         rp_prohibited = filter (\<lambda>p. pr_left_id p \<in> set left_ids \<and> pr_right_id p \<in> set right_ids) prohibited,
         rp_conflicts = []\<rparr>)"

text \<open>\<open>{identity: pair for pair in pairs for identity in (pair.left_id, pair.right_id)}\<close>.\<close>

definition pair_by_record :: "pair_outcome list \<Rightarrow> (string \<times> pair_outcome) list" where
  "pair_by_record pairs = fold (\<lambda>p d. dict_set (dict_set d (po_left_id p) p) (po_right_id p) p) pairs []"

definition plausible :: "matching_policy \<Rightarrow> candidate_evidence \<Rightarrow> bool" where
  "plausible policy c \<longleftrightarrow> \<not> (ce_score_bp c < mp_automatic_threshold_bp policy \<or>
     \<not> ce_coverage_sufficient c \<or> ce_contradictions c \<noteq> [])"

definition candidate_diagnostic ::
    "string \<Rightarrow> record_side \<Rightarrow> (string \<times> pair_outcome) list \<Rightarrow> candidate_evidence \<Rightarrow> diagnostic result"
where
  "candidate_diagnostic record_id side pairs c =
     (let candidate_id = (if side = LEFT then ce_right_id c else ce_left_id c);
          current_pair = dict_get pairs candidate_id
      in diagnostic_post_init
        \<lparr>dg_kind = ACCEPTED_UNMATCHED_CANDIDATE, dg_record_id = record_id, dg_candidate_id = Some candidate_id,
         dg_candidate_current_pair_id = map_option pair_key_text current_pair,
         dg_complete = ce_complete_computation c,
         dg_explanation = candidate_explanation candidate_id (ce_score_bp c) current_pair\<rparr>)"

definition limited_policy :: "matching_policy \<Rightarrow> int \<Rightarrow> matching_policy result" where
  "limited_policy policy run_edges =
     rbind (capacity_limits_post_init ((mp_limits policy)\<lparr>cl_max_run_candidate_edges := run_edges\<rparr>))
       (\<lambda>limits. matching_policy_post_init (policy\<lparr>mp_limits := limits\<rparr>))"

definition diagnose_record ::
    "(string \<Rightarrow> string) \<Rightarrow> engine_snapshot \<Rightarrow> matching_policy \<Rightarrow> (string \<times> pair_outcome) list \<Rightarrow>
     prohibited_relationship list \<Rightarrow> int \<times> diagnostic list \<Rightarrow> accepted_unmatched \<Rightarrow>
     (int \<times> diagnostic list) result"
where
  "diagnose_record sha256 s policy pairs prohibited acc a =
     (case acc of (run_edges, diagnostics) \<Rightarrow>
      case accepted_record (au_record_id a) (dict_of mr_observation_id (es_left s))
          (dict_of mr_observation_id (es_right s)) of
        (side, None) \<Rightarrow> Inr acc
      | (side, Some r) \<Rightarrow>
          if \<not> eligible r then Inr acc
          else if run_edges = 0
          then rbind (incomplete_diagnostic (au_record_id a) ''run edge limit'')
            (\<lambda>d. Inr (run_edges, diagnostics @ [d]))
          else rbind (limited_policy policy run_edges)
            (\<lambda>limited. rbind (diagnostic_preprocessing r side
                (filter eligible (if side = LEFT then es_right s else es_left s)) prohibited)
            (\<lambda>pre. rbind (generate_candidates sha256 pre limited)
            (\<lambda>generated. rbind (score_candidates pre generated limited)
            (\<lambda>candidates. rbind (rmap (candidate_diagnostic (au_record_id a) side pairs)
                (filter (plausible policy) candidates))
            (\<lambda>found. rbind (if gr_complete generated then Inr []
                else rbind (incomplete_diagnostic (au_record_id a) ''candidate enumeration limit'') (\<lambda>d. Inr [d]))
            (\<lambda>incomplete. Inr (run_edges - int (length (gr_candidates generated)),
               diagnostics @ found @ incomplete))))))))"

definition diagnose_accepted_unmatched ::
    "(string \<Rightarrow> string) \<Rightarrow> engine_snapshot \<Rightarrow> decision_inputs \<Rightarrow> matching_policy \<Rightarrow> engine_result \<Rightarrow>
     diagnostic list result"
where
  "diagnose_accepted_unmatched sha256 s d policy primary =
     rbind (prohibited_of d (input_left_ids s) (input_right_ids s))
     (\<lambda>prohibited. rbind (rfold (diagnose_record sha256 s policy (pair_by_record (er_pairs primary)) prohibited)
         (cl_max_run_candidate_edges (mp_limits policy), []) (di_accepted_unmatched d))
     (\<lambda>(run_edges, diagnostics). Inr (sort_key diagnostic_key diagnostics)))"

end
