(* ===== verification/Engine.thy ===== *)
theory Engine
  imports Gating Comparison Diagnostics
begin

text \<open>
  The orchestration of a run (\<open>reconciliation/domain/engine.py\<close>, \<open>reconcile\<close>): preprocessing,
  candidate generation, scoring, assignment, gating, comparison, one outcome for every record
  that is left, the result, and the diagnostics.
\<close>

definition compare_pair ::
    "matching_policy \<Rightarrow> comparison_policy \<Rightarrow> pair_outcome \<Rightarrow> match_record \<Rightarrow> match_record \<Rightarrow> pair_outcome result"
where
  "compare_pair policy comparison p l r =
     rbind (compare_pair_fields l r (po_origin p) comparison (mp_reference_contract policy))
       (\<lambda>cs. pair_outcome_post_init \<lparr>po_left_id = po_left_id p, po_right_id = po_right_id p,
          po_origin = po_origin p, po_score_bp = po_score_bp p, po_global_gap_bp = po_global_gap_bp p,
          po_comparisons = cs\<rparr>)"

text \<open>\<open>_compare_pair(pair=..., left=left_by_id[...], right=right_by_id[...])\<close>.\<close>

definition compare_known_pair ::
    "engine_snapshot \<Rightarrow> matching_policy \<Rightarrow> comparison_policy \<Rightarrow> pair_outcome \<Rightarrow> pair_outcome result"
where
  "compare_known_pair s policy comparison p =
     rbind (dict_index (dict_of mr_observation_id (es_left s)) (po_left_id p))
     (\<lambda>l. rbind (dict_index (dict_of mr_observation_id (es_right s)) (po_right_id p))
     (\<lambda>r. compare_pair policy comparison p l r))"

definition accepted_pair :: "proposal_evidence \<Rightarrow> pair_outcome result" where
  "accepted_pair p = pair_outcome_post_init \<lparr>po_left_id = pe_left_id p, po_right_id = pe_right_id p,
     po_origin = WEIGHTED_GLOBAL, po_score_bp = Some (pe_score_bp p),
     po_global_gap_bp = Some (pe_global_gap_bp p), po_comparisons = []\<rparr>"

definition own_id :: "record_side \<Rightarrow> string \<times> string \<Rightarrow> string" where
  "own_id side e = (if side = LEFT then fst e else snd e)"

definition counterpart_id :: "record_side \<Rightarrow> string \<times> string \<Rightarrow> string" where
  "counterpart_id side e = (if side = LEFT then snd e else fst e)"

definition automatic_unpaired ::
    "candidate_evidence list \<Rightarrow> preprocessing_result \<Rightarrow> string list \<Rightarrow> int \<Rightarrow> record_side \<Rightarrow> match_record \<Rightarrow>
     unpaired_outcome result"
where
  "automatic_unpaired candidates pre limited floor_bp side r =
     (let i = mr_observation_id r;
          related = filter (\<lambda>c. own_id side (ce_edge c) = i) candidates;
          prohibited = map (counterpart_id side) (filter (\<lambda>e. own_id side e = i) (prohibited_edges pre));
          related_ids = sorted_set (map (\<lambda>c. counterpart_id side (ce_edge c)) related @ prohibited);
          outcome = (\<lambda>reason explanation ids. unpaired_outcome_post_init
            \<lparr>uo_record_id = i, uo_side = side, uo_reason = reason, uo_explanation = explanation,
             uo_related_ids = ids\<rparr>)
      in if i \<in> set limited
         then outcome COMPUTATION_LIMITED
           ''Candidate enumeration or assignment was incomplete for this record, so automatic matching was withheld.''
           related_ids
         else if related = []
         then if prohibited \<noteq> []
           then outcome PROHIBITED
             ''The available relationship for this record was prohibited by an active reviewer decision.'' related_ids
           else outcome NO_CANDIDATE ''No candidate was found in the complete configured search.'' []
         else if list_all (\<lambda>c. ce_contradictions c \<noteq> []) related
         then outcome PROHIBITED ''Every retained candidate for this record contains a hard contradiction.'' related_ids
         else if list_all (\<lambda>c. ce_score_bp c \<le> floor_bp) related
         then outcome BELOW_ASSIGNMENT_FLOOR
           ''Every candidate rule score was at or below the assignment floor.'' related_ids
         else outcome AMBIGUOUS ''No proposal for this record passed every automatic acceptance gate.'' related_ids)"

definition pair_ids :: "pair_outcome list \<Rightarrow> string list" where
  "pair_ids pairs = concat (map (\<lambda>p. [po_left_id p, po_right_id p]) pairs)"

definition primary_result ::
    "engine_snapshot \<Rightarrow> matching_policy \<Rightarrow> comparison_policy \<Rightarrow> pair_outcome list \<Rightarrow> unpaired_outcome list \<Rightarrow>
     candidate_evidence list \<Rightarrow> component_evidence list \<Rightarrow> engine_result"
where
  "primary_result s policy comparison pairs unpaired candidates components = \<lparr>
     er_left_revision_id = es_left_revision_id s, er_right_revision_id = es_right_revision_id s,
     er_matching_policy_version = mp_policy_version policy,
     er_comparison_policy_version = cp_policy_version comparison,
     er_engine_version = mp_engine_version policy, er_solver_version = mp_solver_version policy,
     er_input_left_ids = input_left_ids s, er_input_right_ids = input_right_ids s,
     er_pairs = pairs, er_unpaired = unpaired, er_candidates = candidates,
     er_components = components, er_diagnostics = []\<rparr>"

text \<open>What follows the gates: the pairs, the unpaired records and the result.\<close>

definition assemble ::
    "(string \<Rightarrow> string) \<Rightarrow> engine_snapshot \<Rightarrow> decision_inputs \<Rightarrow> matching_policy \<Rightarrow> comparison_policy \<Rightarrow>
     preprocessing_result \<Rightarrow> candidate_evidence list \<Rightarrow> solve_result \<Rightarrow> gated_result \<Rightarrow> engine_result result"
where
  "assemble sha256 s d policy comparison pre candidates assignment gated =
     rbind (rmap (compare_known_pair s policy comparison) (rp_pairs pre))
     (\<lambda>established. rbind (rmap (\<lambda>p. rbind (accepted_pair p) (compare_known_pair s policy comparison))
         (gt_accepted_proposals gated))
     (\<lambda>accepted.
        let pairs = established @ accepted;
            left_over = filter (\<lambda>r. mr_observation_id r \<notin> set (pair_ids pairs));
            unpair = automatic_unpaired candidates pre (sr_limited_record_ids assignment) (mp_assignment_floor_bp policy)
        in rbind (rmap (unpair LEFT) (left_over (rp_remaining_left pre)))
           (\<lambda>lefts. rbind (rmap (unpair RIGHT) (left_over (rp_remaining_right pre)))
           (\<lambda>rights. rbind (engine_result_post_init (primary_result s policy comparison pairs
               (rp_terminal_unpaired pre @ lefts @ rights) candidates (gt_components gated)))
           (\<lambda>primary. rbind (diagnose_accepted_unmatched sha256 s d policy primary)
           (\<lambda>diagnostics. engine_result_post_init (primary\<lparr>er_diagnostics := diagnostics\<rparr>)))))))"

definition reconcile ::
    "(string \<Rightarrow> string) \<Rightarrow> engine_snapshot \<Rightarrow> matching_policy \<Rightarrow> comparison_policy \<Rightarrow> decision_inputs \<Rightarrow>
     solver \<Rightarrow> engine_result result"
where
  "reconcile sha256 s policy comparison d solver =
     rbind (preprocess_references s d (mp_reference_contract policy))
     (\<lambda>pre. rbind (generate_candidates sha256 pre policy)
     (\<lambda>generated. rbind (score_candidates pre generated policy)
     (\<lambda>candidates. rbind (solve_assignment sha256 candidates generated policy solver)
     (\<lambda>assignment. rbind (gate_assignment sha256 candidates assignment policy solver)
     (\<lambda>gated. assemble sha256 s d policy comparison pre candidates assignment gated)))))"

end
