(* ===== verification/SolverContract.thy ===== *)
theory SolverContract
  imports Assignment
begin

text \<open>
  The contract between the domain and its solver. \<open>linear_sum_assignment\<close> is what SciPy
  documents of its function; \<open>minimizing_solver\<close> is what the domain relies on. The adapter
  turns the first into the second, and an exhaustive search, on which the sample runs are
  evaluated, meets the first.

  SciPy computes in double precision, so the contract is stated for matrices whose totals are
  integers of at most 53 bits.
\<close>

definition valid_selection :: "nat \<Rightarrow> nat \<Rightarrow> selection \<Rightarrow> bool" where
  "valid_selection rows columns sel \<longleftrightarrow> length sel = rows \<and>
     set (map fst sel) = set (map int [0..<rows]) \<and> distinct (map snd sel) \<and>
     (\<forall>c \<in> set (map snd sel). 0 \<le> c \<and> c < int columns)"

definition selection_cost :: "cost_matrix \<Rightarrow> selection \<Rightarrow> int" where
  "selection_cost costs sel = sum_list (map (\<lambda>p. costs ! nat (fst p) ! nat (snd p)) sel)"

definition optimal_selection :: "cost_matrix \<Rightarrow> selection \<Rightarrow> bool" where
  "optimal_selection costs sel \<longleftrightarrow> valid_selection (length costs) (length (hd costs)) sel \<and>
     (\<forall>sel'. valid_selection (length costs) (length (hd costs)) sel' \<longrightarrow>
        selection_cost costs sel \<le> selection_cost costs sel')"

definition cost_problem :: "cost_matrix \<Rightarrow> bool" where
  "cost_problem costs \<longleftrightarrow> costs \<noteq> [] \<and> (\<forall>row \<in> set costs. length row = length (hd costs)) \<and>
     length costs \<le> length (hd costs) \<and>
     (\<forall>row \<in> set costs. \<forall>c \<in> set row. int (length costs) * \<bar>c\<bar> \<le> 2 ^ 53)"

lemma cost_problem_shape:
  assumes "cost_problem costs"
  shows "costs \<noteq> []" and "hd costs \<noteq> []" and "length costs \<le> length (hd costs)"
    and "\<not> list_ex (\<lambda>row. length row \<noteq> length (hd costs)) costs"
proof -
  show "costs \<noteq> []" and le: "length costs \<le> length (hd costs)"
    using assms unfolding cost_problem_def by blast+
  then show "hd costs \<noteq> []" by (metis le_zero_eq length_0_conv)
  show "\<not> list_ex (\<lambda>row. length row \<noteq> length (hd costs)) costs"
    using assms unfolding cost_problem_def list_ex_iff by blast
qed

locale minimizing_solver =
  fixes minimize :: "cost_matrix \<Rightarrow> selection result"
  assumes minimize_optimal: "cost_problem costs \<Longrightarrow> \<exists>sel. minimize costs = Inr sel \<and> optimal_selection costs sel"
begin

lemma minimize_total: "cost_problem costs \<Longrightarrow> \<exists>sel. minimize costs = Inr sel"
  using minimize_optimal by blast

lemma minimize_valid:
  "cost_problem costs \<Longrightarrow> minimize costs = Inr sel \<Longrightarrow> valid_selection (length costs) (length (hd costs)) sel"
  using minimize_optimal [of costs] by (auto simp: optimal_selection_def)

lemma minimize_least:
  "cost_problem costs \<Longrightarrow> minimize costs = Inr sel \<Longrightarrow>
   valid_selection (length costs) (length (hd costs)) sel' \<Longrightarrow>
   selection_cost costs sel \<le> selection_cost costs sel'"
  using minimize_optimal [of costs] by (auto simp: optimal_selection_def)

end

locale linear_sum_assignment =
  fixes lsa :: "cost_matrix \<Rightarrow> int list \<times> int list"
  assumes lsa_optimal: "cost_problem costs \<Longrightarrow>
    \<exists>rows columns. lsa costs = (rows, columns) \<and> length rows = length columns \<and>
      optimal_selection costs (zip rows columns)"

text \<open>What the domain checks of a selection is that it is valid.\<close>

lemma validate_solver_selection_iff:
  "validate_solver_selection sel n k = Inr () \<longleftrightarrow> valid_selection n k sel"
  by (auto simp: validate_solver_selection_def valid_selection_def checks_Inr_iff list_ex_iff not_less not_le)

lemma valid_selection_perm:
  assumes "mset sel = mset sel'"
  shows "valid_selection n k sel = valid_selection n k sel'"
    and "selection_cost costs sel = selection_cost costs sel'"
proof -
  have len: "length sel = length sel'" and s: "set sel = set sel'"
    using assms by (metis size_mset, metis set_mset_mset)
  have d: "distinct (map snd sel) = distinct (map snd sel')"
    using assms by (metis mset_eq_imp_distinct_iff mset_map)
  show "valid_selection n k sel = valid_selection n k sel'"
    unfolding valid_selection_def by (simp only: len d set_map s)
  have "mset (map (\<lambda>p. costs ! nat (fst p) ! nat (snd p)) sel) = mset (map (\<lambda>p. costs ! nat (fst p) ! nat (snd p)) sel')"
    using assms by simp
  then show "selection_cost costs sel = selection_cost costs sel'"
    unfolding selection_cost_def sum_mset_sum_list [symmetric] by (rule arg_cong)
qed

lemma cost_problem_int64:
  assumes "cost_problem costs"
  shows "\<not> list_ex (list_ex (\<lambda>c. \<not> int64 c)) costs"
proof -
  have "int64 c" if "row \<in> set costs" "c \<in> set row" for row c
  proof -
    have "1 \<le> int (length costs)" using assms by (cases costs) (simp_all add: cost_problem_def)
    then have "1 * \<bar>c\<bar> \<le> int (length costs) * \<bar>c\<bar>" by (intro mult_right_mono) auto
    also have "\<dots> \<le> 2 ^ 53" using assms that by (auto simp: cost_problem_def)
    finally have "\<bar>c\<bar> \<le> 2 ^ 53" by simp
    then show ?thesis unfolding int64_def by (simp add: abs_le_iff)
  qed
  then show ?thesis by (auto simp: list_ex_iff)
qed

text \<open>The adapter keeps the documented result, sorted by row.\<close>

sublocale linear_sum_assignment \<subseteq> adapter: minimizing_solver "sv_minimize (scipy_solver version lsa)"
proof
  fix costs
  assume problem: "cost_problem costs"
  from lsa_optimal [OF problem] obtain rows columns where lsa: "lsa costs = (rows, columns)"
    "length rows = length columns" "optimal_selection costs (zip rows columns)" by blast
  note rect = cost_problem_shape [OF problem]
  have "optimal_selection costs (sort_key fst (zip rows columns))"
    using lsa(3) valid_selection_perm [of "sort_key fst (zip rows columns)" "zip rows columns"]
    by (simp add: optimal_selection_def)
  moreover have "sv_minimize (scipy_solver version lsa) costs = Inr (sort_key fst (zip rows columns))"
    using lsa(1,2) rect cost_problem_int64 [OF problem] by (simp add: scipy_solver_def)
  ultimately show "\<exists>sel. sv_minimize (scipy_solver version lsa) costs = Inr sel \<and> optimal_selection costs sel"
    by blast
qed

section \<open>Exhaustive search\<close>

definition all_columns :: "nat \<Rightarrow> nat \<Rightarrow> nat list list" where
  "all_columns rows columns = filter distinct (List.n_lists rows [0..<columns])"

definition selection_of :: "nat list \<Rightarrow> selection" where
  "selection_of cs = zip (map int [0..<length cs]) (map int cs)"

fun cheapest :: "('a \<Rightarrow> int) \<Rightarrow> 'a \<Rightarrow> 'a list \<Rightarrow> 'a" where
  "cheapest f best [] = best"
| "cheapest f best (x # xs) = cheapest f (if f x < f best then x else best) xs"

lemma cheapest_least: "cheapest f b xs \<in> insert b (set xs) \<and> (\<forall>x \<in> insert b (set xs). f (cheapest f b xs) \<le> f x)"
proof (induction xs arbitrary: b)
  case Nil
  then show ?case by simp
next
  case (Cons x xs)
  from Cons.IH [of "if f x < f b then x else b"] show ?case by (cases "f x < f b") fastforce+
qed

definition exhaustive_lsa :: "cost_matrix \<Rightarrow> int list \<times> int list" where
  "exhaustive_lsa costs =
     (let choices = all_columns (length costs) (length (hd costs));
          best = cheapest (\<lambda>cs. selection_cost costs (selection_of cs)) (hd choices) (tl choices)
      in (map int [0..<length costs], map int best))"

lemma all_columns_iff:
  "cs \<in> set (all_columns n k) \<longleftrightarrow> length cs = n \<and> distinct cs \<and> (\<forall>c \<in> set cs. c < k)"
  by (auto simp: all_columns_def set_n_lists)

lemma selection_of_valid: "cs \<in> set (all_columns n k) \<Longrightarrow> valid_selection n k (selection_of cs)"
  by (auto simp: all_columns_iff valid_selection_def selection_of_def distinct_map inj_on_def)

text \<open>Up to their order, the valid selections are those the search considers.\<close>

lemma valid_selection_columns:
  assumes "valid_selection n k sel"
  shows "\<exists>cs \<in> set (all_columns n k). mset (selection_of cs) = mset sel"
proof -
  let ?s = "sort_key fst sel" and ?cs = "map (\<lambda>p. nat (snd p)) (sort_key fst sel)"
  have len: "length sel = n" and rows: "set (map fst sel) = set (map int [0..<n])"
    and cols: "distinct (map snd sel)" "\<forall>c \<in> set (map snd sel). 0 \<le> c \<and> c < int k"
    using assms by (auto simp: valid_selection_def)
  have inj: "inj int" by (simp add: inj_on_def)
  have "card (set (map fst sel)) = length (map fst sel)"
    unfolding rows using len by (simp add: card_image inj_on_def)
  then have "distinct (map fst sel)" by (rule card_distinct)
  then have "map fst ?s = map int [0..<n]"
    using rows by (intro sorted_distinct_set_unique) (simp_all add: distinct_map inj_on_def sorted_wrt_map [of _ int] del: sorted_map)
  moreover have "map snd ?s = map int ?cs"
    using cols(2) by (auto simp: comp_def)
  ultimately have "?s = zip (map int [0..<n]) (map int ?cs)" by (metis zip_map_fst_snd)
  then have "selection_of ?cs = ?s" using len by (simp add: selection_of_def)
  moreover have "?cs \<in> set (all_columns n k)"
  proof -
    have d: "distinct (map snd ?s)" using cols(1) by simp
    have "inj_on nat (set (map snd ?s))" using cols(2) by (intro inj_onI) (metis nat_0_le set_map set_sort)
    with d have "distinct (map nat (map snd ?s))" by (simp only: distinct_map simp_thms)
    then show ?thesis using len cols(2) by (auto simp: all_columns_iff comp_def)
  qed
  moreover have "mset ?s = mset sel" by simp
  ultimately show ?thesis by metis
qed

interpretation exhaustive: linear_sum_assignment exhaustive_lsa
proof
  fix costs
  assume problem: "cost_problem costs"
  let ?n = "length costs" and ?k = "length (hd costs)"
  let ?choices = "all_columns ?n ?k" and ?f = "\<lambda>cs. selection_cost costs (selection_of cs)"
  let ?best = "cheapest ?f (hd ?choices) (tl ?choices)"
  have "[0..<?n] \<in> set ?choices" using cost_problem_shape(3) [OF problem] by (simp add: all_columns_iff)
  then have ne: "?choices \<noteq> []" by auto
  then have set: "insert (hd ?choices) (set (tl ?choices)) = set ?choices"
    by (metis list.collapse list.simps(15))
  from cheapest_least [of ?f "hd ?choices" "tl ?choices", unfolded set]
  have best: "?best \<in> set ?choices" "\<And>cs. cs \<in> set ?choices \<Longrightarrow> ?f ?best \<le> ?f cs" by auto
  have sel: "zip (map int [0..<?n]) (map int ?best) = selection_of ?best"
    using best(1) by (simp add: selection_of_def all_columns_iff)
  have "optimal_selection costs (selection_of ?best)"
    unfolding optimal_selection_def
  proof (intro conjI allI impI)
    show "valid_selection ?n ?k (selection_of ?best)" by (rule selection_of_valid [OF best(1)])
    fix sel' assume "valid_selection ?n ?k sel'"
    then obtain cs where "cs \<in> set ?choices" "mset (selection_of cs) = mset sel'"
      using valid_selection_columns by blast
    with best(2) valid_selection_perm(2) show "selection_cost costs (selection_of ?best) \<le> selection_cost costs sel'"
      by metis
  qed
  moreover have "exhaustive_lsa costs = (map int [0..<?n], map int ?best)"
    by (simp only: exhaustive_lsa_def Let_def)
  moreover have "length ?best = ?n" using best(1) by (simp only: all_columns_iff)
  ultimately show "\<exists>rows columns. exhaustive_lsa costs = (rows, columns) \<and> length rows = length columns \<and>
      optimal_selection costs (zip rows columns)"
    by (intro exI conjI) (assumption, simp, simp only: sel)
qed

end
