(* ===== verification/ComponentFacts.thy ===== *)
theory ComponentFacts
  imports Assignment
begin

text \<open>
  The breadth-first search for connected components: its result partitions the candidates, two
  candidates that share a record are in one component, and a component is connected.
\<close>

section \<open>The inner loop collects what can be reached\<close>

definition linked :: "candidate_evidence list \<Rightarrow> (nat \<times> nat) set" where
  "linked cs = {(i, j). i < length cs \<and> j \<in> set (edge_neighbours cs i)}"

lemma linked_sym: "(i, j) \<in> linked cs \<Longrightarrow> (j, i) \<in> linked cs"
  by (auto simp: linked_def edge_neighbours_iff)

lemma linked_less: "(i, j) \<in> linked cs \<Longrightarrow> i < length cs \<and> j < length cs"
  by (simp add: linked_def edge_neighbours_iff)

lemma linked_star_sym: "(i, j) \<in> (linked cs)\<^sup>* \<Longrightarrow> (j, i) \<in> (linked cs)\<^sup>*"
  using linked_sym by (metis sym_def sym_rtrancl symD)

definition search_inv :: "candidate_evidence list \<Rightarrow> nat \<Rightarrow> nat list \<Rightarrow> nat list \<Rightarrow> bool" where
  "search_inv cs s indices queue \<longleftrightarrow> distinct indices \<and> s \<in> set indices \<union> set queue \<and>
     set indices \<union> set queue \<subseteq> (linked cs)\<^sup>* `` {s} \<and>
     linked cs `` set indices \<subseteq> set indices \<union> set queue"

lemma component_loop_reaches:
  assumes "component_loop cs indices unvisited queue = (indices', unvisited')"
    and "search_inv cs s indices queue" and "s < length cs"
  shows "search_inv cs s indices' []"
  using assms
proof (induction cs indices unvisited queue rule: component_loop.induct)
  case (1 cs indices unvisited)
  then show ?case by simp
next
  case (2 cs indices unvisited k queue)
  show ?case
  proof (cases "k \<in> set indices")
    case True
    with 2 show ?thesis by (simp add: search_inv_def insert_absorb)
  next
    case False
    let ?q = "queue @ filter (\<lambda>j. j \<notin> set (indices @ [k])) (edge_neighbours cs k)"
    have step: "component_loop cs (indices @ [k]) (filter (\<lambda>j. j \<noteq> k) unvisited) ?q = (indices', unvisited')"
      using "2.prems"(1) False by simp
    have k: "(s, k) \<in> (linked cs)\<^sup>*" using "2.prems"(2) by (auto simp: search_inv_def)
    then have kn: "k < length cs" using "2.prems"(3) linked_less by (induction rule: rtrancl_induct) auto
    have "(s, j) \<in> (linked cs)\<^sup>*" if "j \<in> set (edge_neighbours cs k)" for j
      using k that kn by (auto simp: linked_def intro: rtrancl_into_rtrancl)
    then have "search_inv cs s (indices @ [k]) ?q"
      using "2.prems"(2) False k by (auto simp: search_inv_def linked_def)
    with "2.IH"(2) [OF False step] "2.prems"(3) show ?thesis by blast
  qed
qed

lemma component_loop_reach:
  assumes "component_loop cs [] unvisited [s] = (indices, unvisited')" and "s < length cs"
  shows "distinct indices \<and> set indices = (linked cs)\<^sup>* `` {s}"
proof -
  have "search_inv cs s [] [s]" by (simp add: search_inv_def)
  then have inv: "search_inv cs s indices []" by (rule component_loop_reaches [OF assms(1) _ assms(2)])
  have "j \<in> set indices" if "(s, j) \<in> (linked cs)\<^sup>*" for j
    using that
  proof (induction rule: rtrancl_induct)
    case base
    with inv show ?case by (simp add: search_inv_def)
  next
    case (step i j)
    with inv show ?case by (auto simp: search_inv_def)
  qed
  with inv show ?thesis by (auto simp: search_inv_def)
qed

section \<open>The outer loop partitions the indices\<close>

definition component_index :: "candidate_evidence list \<Rightarrow> nat list \<Rightarrow> bool" where
  "component_index cs is \<longleftrightarrow> sorted is \<and> (\<exists>s < length cs. set is = (linked cs)\<^sup>* `` {s})"

lemma components_loop_partition:
  assumes "distinct unvisited" and "set unvisited \<subseteq> {..<length cs}"
    and "linked cs `` set unvisited \<subseteq> set unvisited"
  shows "\<exists>iss. components_loop cs unvisited = map (map ((!) cs)) iss \<and> distinct (concat iss) \<and>
    set (concat iss) = set unvisited \<and> (\<forall>is \<in> set iss. component_index cs is)"
  using assms
proof (induction "length unvisited" arbitrary: unvisited rule: less_induct)
  case less
  show ?case
  proof (cases "unvisited = []")
    case True
    then show ?thesis by (intro exI [of _ "[]"]) (simp add: components_loop.simps)
  next
    case False
    let ?s = "min_index cs unvisited"
    have s: "?s \<in> set unvisited" "?s < length cs" using min_index_in [OF False, of cs] less.prems(2) by auto
    obtain indices unvisited' where loop: "component_loop cs [] unvisited [?s] = (indices, unvisited')"
      by (cases "component_loop cs [] unvisited [?s]")
    then have rest: "unvisited' = filter (\<lambda>j. j \<notin> set indices) unvisited" and "?s \<in> set indices"
      using component_loop_unvisited [OF loop] by auto
    have ix: "distinct indices" "set indices = (linked cs)\<^sup>* `` {?s}"
      using component_loop_reach [OF loop s(2)] by auto
    have sub: "set indices \<subseteq> set unvisited"
    proof -
      have "j \<in> set unvisited" if "(?s, j) \<in> (linked cs)\<^sup>*" for j
        using that s(1) less.prems(3) by (induction rule: rtrancl_induct) auto
      with ix(2) show ?thesis by auto
    qed
    have closed: "linked cs `` set unvisited' \<subseteq> set unvisited'"
    proof
      fix j assume "j \<in> linked cs `` set unvisited'"
      then obtain i where i: "i \<in> set unvisited'" "(i, j) \<in> linked cs" by auto
      have "j \<notin> set indices"
      proof
        assume "j \<in> set indices"
        then have "(?s, i) \<in> (linked cs)\<^sup>*" using ix(2) linked_sym [OF i(2)] by (auto intro: rtrancl_into_rtrancl)
        with i(1) ix(2) rest show False by simp
      qed
      with i less.prems(3) rest show "j \<in> set unvisited'" by auto
    qed
    have shorter: "length unvisited' < length unvisited"
      using rest s(1) \<open>?s \<in> set indices\<close> by (auto intro!: length_filter_less)
    have "\<exists>iss. components_loop cs unvisited' = map (map ((!) cs)) iss \<and> distinct (concat iss) \<and>
        set (concat iss) = set unvisited' \<and> (\<forall>is \<in> set iss. component_index cs is)"
      using less.prems rest closed by (intro less.hyps [OF shorter]) auto
    then obtain iss where iss: "components_loop cs unvisited' = map (map ((!) cs)) iss" "distinct (concat iss)"
      "set (concat iss) = set unvisited'" "\<forall>is \<in> set iss. component_index cs is" by blast
    have "components_loop cs unvisited = map (map ((!) cs)) (sort indices # iss)"
      using False loop iss(1) by (simp add: components_loop.simps [of cs unvisited])
    moreover have "distinct (concat (sort indices # iss))"
      using ix(1) iss(2,3) rest by auto
    moreover have "set (concat (sort indices # iss)) = set unvisited"
      using iss(3) rest sub by auto
    moreover have "component_index cs (sort indices)"
      using ix s(2) by (auto simp: component_index_def)
    ultimately show ?thesis using iss(4) by (intro exI [of _ "sort indices # iss"]) auto
  qed
qed

section \<open>Components of candidates\<close>

text \<open>Two candidates are connected by a chain in which neighbours share a record.\<close>

definition shares_record :: "candidate_evidence \<Rightarrow> candidate_evidence \<Rightarrow> bool" where
  "shares_record c d \<longleftrightarrow> ce_left_id c = ce_left_id d \<or> ce_right_id c = ce_right_id d"

inductive connected :: "candidate_evidence list \<Rightarrow> candidate_evidence \<Rightarrow> candidate_evidence \<Rightarrow> bool"
  for cs where
  connected_refl: "c \<in> set cs \<Longrightarrow> connected cs c c"
| connected_step: "connected cs c d \<Longrightarrow> e \<in> set cs \<Longrightarrow> shares_record d e \<Longrightarrow> connected cs c e"

lemma linked_connected:
  assumes "(i, j) \<in> (linked cs)\<^sup>*" and "i < length cs"
  shows "connected cs (cs ! i) (cs ! j)"
  using assms
proof (induction rule: rtrancl_induct)
  case base
  then show ?case by (simp add: connected_refl)
next
  case (step j k)
  then show ?case
    by (auto simp: linked_def edge_neighbours_iff shares_record_def intro!: connected_step [of cs "cs ! i" "cs ! j"])
qed

lemma connected_linked:
  assumes "connected cs c d" and "distinct cs" and "i < length cs" and "cs ! i = c"
  shows "\<exists>j < length cs. cs ! j = d \<and> (i, j) \<in> (linked cs)\<^sup>*"
  using assms
proof (induction rule: connected.induct)
  case (connected_refl c)
  then show ?case by auto
next
  case (connected_step c d e)
  then obtain j where j: "j < length cs" "cs ! j = d" "(i, j) \<in> (linked cs)\<^sup>*" by blast
  from connected_step.hyps(2) obtain k where k: "k < length cs" "cs ! k = e" by (auto simp: in_set_conv_nth)
  with j connected_step.hyps(3) have "(j, k) \<in> linked cs"
    by (auto simp: linked_def edge_neighbours_iff shares_record_def)
  with j k show ?case by (auto intro: rtrancl_into_rtrancl)
qed

lemma mset_edge_components: "mset (concat (edge_components cs)) = mset cs"
proof -
  obtain iss where iss: "components_loop cs [0..<length cs] = map (map ((!) cs)) iss" "distinct (concat iss)"
    "set (concat iss) = set [0..<length cs]"
    using components_loop_partition [of "[0..<length cs]" cs] linked_less by fastforce
  have "mset (concat iss) = mset [0..<length cs]"
    using iss(2,3) distinct_upt set_eq_iff_mset_eq_distinct by blast
  then have "mset (map ((!) cs) (concat iss)) = mset (map ((!) cs) [0..<length cs])" by simp
  then have "mset (concat (components_loop cs [0..<length cs])) = mset cs"
    by (simp add: iss(1) map_concat map_nth)
  moreover have "mset (concat (edge_components cs)) = mset (concat (components_loop cs [0..<length cs]))"
    unfolding edge_components_def by (simp add: mset_concat flip: sum_mset_sum_list)
  ultimately show ?thesis by simp
qed

lemma edge_component_connected:
  assumes "distinct cs" and "es \<in> set (edge_components cs)" and "c \<in> set es"
  shows "d \<in> set es \<longleftrightarrow> connected cs c d"
proof -
  obtain iss where iss: "components_loop cs [0..<length cs] = map (map ((!) cs)) iss"
    and ix: "\<forall>is \<in> set iss. component_index cs is"
    using components_loop_partition [of "[0..<length cs]" cs] linked_less by fastforce
  with assms(2) obtain "is" where "is": "is \<in> set iss" "es = map ((!) cs) is"
    by (auto simp: edge_components_def)
  then obtain s where s: "s < length cs" "set is = (linked cs)\<^sup>* `` {s}"
    using ix by (auto simp: component_index_def)
  from assms(3) "is" s obtain i where i: "(s, i) \<in> (linked cs)\<^sup>*" "cs ! i = c" by auto
  have inside: "j < length cs" if "(s, j) \<in> (linked cs)\<^sup>*" for j
    using that s(1) linked_less by (induction rule: rtrancl_induct) auto
  show ?thesis
  proof
    assume "d \<in> set es"
    then obtain j where j: "(s, j) \<in> (linked cs)\<^sup>*" "cs ! j = d" using "is" s by auto
    with i have "(i, j) \<in> (linked cs)\<^sup>*" by (meson linked_star_sym rtrancl_trans)
    with linked_connected [of i j cs] inside i j show "connected cs c d" by auto
  next
    assume "connected cs c d"
    from connected_linked [OF this assms(1)] inside i
    obtain j where "cs ! j = d" "(i, j) \<in> (linked cs)\<^sup>*" by blast
    with i s "is" show "d \<in> set es" by (auto intro: rtrancl_trans)
  qed
qed

lemma edge_components_nonempty: "es \<in> set (edge_components cs) \<Longrightarrow> es \<noteq> []"
proof -
  assume es: "es \<in> set (edge_components cs)"
  obtain iss where iss: "components_loop cs [0..<length cs] = map (map ((!) cs)) iss"
    and ix: "\<forall>is \<in> set iss. component_index cs is"
    using components_loop_partition [of "[0..<length cs]" cs] linked_less by fastforce
  with es obtain "is" where "is": "is \<in> set iss" "es = map ((!) cs) is" by (auto simp: edge_components_def)
  with ix obtain s where "set is = (linked cs)\<^sup>* `` {s}" by (auto simp: component_index_def)
  then have "s \<in> set is" by simp
  with "is" show "es \<noteq> []" by auto
qed

lemma edge_components_set: "set (concat (edge_components cs)) = set cs"
  by (rule mset_eq_setD [OF mset_edge_components])

lemma edge_components_disjoint:
  assumes "distinct cs" and "es \<in> set (edge_components cs)" and "fs \<in> set (edge_components cs)"
    and "c \<in> set es" and "d \<in> set fs" and "shares_record c d"
  shows "set es = set fs"
proof -
  have "d \<in> set cs" using assms(3,5) edge_components_set [of cs] by auto
  moreover have "c \<in> set cs" using assms(2,4) edge_components_set [of cs] by auto
  ultimately have "connected cs c d" using assms(6) by (intro connected_step [OF connected_refl]) auto
  with edge_component_connected [OF assms(1,2,4)] have d: "d \<in> set es" by simp
  show ?thesis
    using edge_component_connected [OF assms(1,2) d] edge_component_connected [OF assms(1,3,5)] by blast
qed

end
