(* ===== verification/ReferenceFates.thy ===== *)
theory ReferenceFates
  imports References
begin

text \<open>
  What \<open>preprocess_references\<close> promises: the fate of every record as a function of the inputs
  (\<open>record_fate\<close>), and the proof that the loops over mutable sets, the list of pairs and the
  dictionary of terminal outcomes implement it. \<open>represents\<close> relates a state of the loops to
  the fates decided so far; every step of every loop is shown to extend it, never to fail, and
  the last state decides every record.
\<close>

section \<open>Specification: the fate of a record\<close>

text \<open>
  What preprocessing decides about one record, as a function of the inputs alone: it is paired
  with a record of the other side, terminally unpaired, or left to the automatic stages.
\<close>

datatype fate = Paired string pair_origin | Unpaired unpaired_reason "string list" | Remains

primrec other_side :: "record_side \<Rightarrow> record_side" where
  "other_side LEFT = RIGHT"
| "other_side RIGHT = LEFT"

primrec side_records :: "engine_snapshot \<Rightarrow> record_side \<Rightarrow> match_record list" where
  "side_records s LEFT = es_left s"
| "side_records s RIGHT = es_right s"

definition side_ids :: "engine_snapshot \<Rightarrow> record_side \<Rightarrow> string list" where
  "side_ids s side = map mr_observation_id (side_records s side)"

definition eligible_ids :: "engine_snapshot \<Rightarrow> record_side \<Rightarrow> string list" where
  "eligible_ids s side = map mr_observation_id (filter eligible (side_records s side))"

primrec link_id :: "record_side \<Rightarrow> manual_link \<Rightarrow> string" where
  "link_id LEFT m = ml_left_id m"
| "link_id RIGHT m = ml_right_id m"

definition linked_to :: "decision_inputs \<Rightarrow> record_side \<Rightarrow> string \<Rightarrow> string option" where
  "linked_to d side i =
     map_option (link_id (other_side side)) (find (\<lambda>m. link_id side m = i) (di_manual_links d))"

definition single_ids :: "decision_inputs \<Rightarrow> string list" where
  "single_ids d = map au_record_id (di_accepted_unmatched d) @
     map ri_record_id (di_reserved_identities d)"

text \<open>The records of a side that no reviewer decision and no cancellation takes away.\<close>

definition open_records :: "engine_snapshot \<Rightarrow> decision_inputs \<Rightarrow> record_side \<Rightarrow> match_record list" where
  "open_records s d side = filter (\<lambda>r. eligible r \<and>
       linked_to d side (mr_observation_id r) = None \<and>
       mr_observation_id r \<notin> set (single_ids d)) (side_records s side)"

definition holders ::
    "engine_snapshot \<Rightarrow> decision_inputs \<Rightarrow> reference_contract \<Rightarrow> record_side \<Rightarrow> string \<Rightarrow> string list"
where
  "holders s d contract side k = sort (map mr_observation_id
     (filter (\<lambda>r. reference_key contract r = Some k) (open_records s d side)))"

definition rejected_edges :: "decision_inputs \<Rightarrow> (string \<times> string) list" where
  "rejected_edges d = map (\<lambda>x. (rr_left_id x, rr_right_id x)) (di_rejected_relationships d)"

primrec oriented :: "record_side \<Rightarrow> string \<Rightarrow> string \<Rightarrow> string \<times> string" where
  "oriented LEFT i j = (i, j)"
| "oriented RIGHT i j = (j, i)"

definition reference_fate ::
    "engine_snapshot \<Rightarrow> decision_inputs \<Rightarrow> reference_contract \<Rightarrow> record_side \<Rightarrow> match_record \<Rightarrow> fate"
where
  "reference_fate s d contract side r =
     (case reference_key contract r of None \<Rightarrow> Remains
      | Some k \<Rightarrow>
        let own = holders s d contract side k; others = holders s d contract (other_side side) k
        in if 1 < length own \<or> 1 < length others
           then Unpaired DUPLICATE_REFERENCE (sort (own @ others))
           else (case others of [] \<Rightarrow> Remains
             | j # _ \<Rightarrow> if oriented side (mr_observation_id r) j \<in> set (rejected_edges d)
                 then Remains else Paired j AUTHORITATIVE_REFERENCE))"

definition record_fate ::
    "engine_snapshot \<Rightarrow> decision_inputs \<Rightarrow> reference_contract \<Rightarrow> record_side \<Rightarrow> match_record \<Rightarrow> fate"
where
  "record_fate s d contract side r =
     (let i = mr_observation_id r in
      if \<not> eligible r then Unpaired CANCELLED_EXCLUDED []
      else case linked_to d side i of
          Some j \<Rightarrow> if j \<in> set (eligible_ids s (other_side side)) then Paired j MANUAL
                  else Unpaired MANUAL_ATTENTION [j]
        | None \<Rightarrow>
            if i \<in> set (map au_record_id (di_accepted_unmatched d)) then Unpaired ACCEPTED_UNMATCHED []
            else if i \<in> set (map ri_record_id (di_reserved_identities d))
            then Unpaired REVIEWER_RESERVED []
            else reference_fate s d contract side r)"


definition id_fate ::
    "engine_snapshot \<Rightarrow> decision_inputs \<Rightarrow> reference_contract \<Rightarrow> record_side \<Rightarrow> string \<Rightarrow> fate"
where
  "id_fate s d contract side i =
     (case find (\<lambda>r. mr_observation_id r = i) (side_records s side) of
        None \<Rightarrow> Remains | Some r \<Rightarrow> record_fate s d contract side r)"

section \<open>The state of the loops represents a partial assignment of fates\<close>

definition reason_text :: "unpaired_reason \<Rightarrow> string" where
  "reason_text reason =
     (if reason = CANCELLED_EXCLUDED
      then ''The source marked this record cancelled, so automatic matching excluded it.''
      else if reason = MANUAL_ATTENTION then attention_text
      else if reason = ACCEPTED_UNMATCHED then accepted_text
      else if reason = REVIEWER_RESERVED then reserved_text
      else duplicate_text)"

definition outcome_of :: "record_side \<Rightarrow> string \<Rightarrow> unpaired_reason \<Rightarrow> string list \<Rightarrow> unpaired_outcome" where
  "outcome_of side i reason related = \<lparr>uo_record_id = i, uo_side = side, uo_reason = reason,
     uo_explanation = reason_text reason, uo_related_ids = sort related\<rparr>"

lemma outcome_of_sel [simp]:
  "uo_record_id (outcome_of side i reason related) = i"
  "uo_side (outcome_of side i reason related) = side"
  by (simp_all add: outcome_of_def)

type_synonym fates = "record_side \<Rightarrow> string \<Rightarrow> fate"

definition fate_outcome :: "fates \<Rightarrow> record_side \<Rightarrow> string \<Rightarrow> unpaired_outcome option" where
  "fate_outcome F side i =
     (case F side i of Unpaired reason related \<Rightarrow> Some (outcome_of side i reason related) | _ \<Rightarrow> None)"

definition open_match :: "string set \<Rightarrow> string set \<Rightarrow> fates \<Rightarrow> pre_state \<Rightarrow> bool" where
  "open_match L R F st \<longleftrightarrow>
     set (ps_left st) = {i \<in> L. F LEFT i = Remains} \<and>
     set (ps_right st) = {i \<in> R. F RIGHT i = Remains}"

definition pairs_match :: "string set \<Rightarrow> string set \<Rightarrow> fates \<Rightarrow> pair_outcome list \<Rightarrow> bool" where
  "pairs_match L R F ps \<longleftrightarrow>
     (\<forall>l r origin. new_pair l r origin \<in> set ps \<longleftrightarrow> l \<in> L \<and> F LEFT l = Paired r origin) \<and>
     (\<forall>l r origin. new_pair l r origin \<in> set ps \<longleftrightarrow> r \<in> R \<and> F RIGHT r = Paired l origin) \<and>
     (\<forall>p \<in> set ps. p = new_pair (po_left_id p) (po_right_id p) (po_origin p)) \<and>
     distinct (map po_left_id ps) \<and> distinct (map po_right_id ps)"

definition terminal_match ::
    "string set \<Rightarrow> string set \<Rightarrow> fates \<Rightarrow> (string \<times> unpaired_outcome) list \<Rightarrow> bool"
where
  "terminal_match L R F d \<longleftrightarrow>
     (\<forall>i \<in> L. dict_get d i = fate_outcome F LEFT i) \<and>
     (\<forall>i \<in> R. dict_get d i = fate_outcome F RIGHT i) \<and>
     set (dict_keys d) \<subseteq> L \<union> R \<and> distinct (dict_keys d)"

definition represents :: "string set \<Rightarrow> string set \<Rightarrow> fates \<Rightarrow> pre_state \<Rightarrow> bool" where
  "represents L R F st \<longleftrightarrow> open_match L R F st \<and> pairs_match L R F (ps_pairs st) \<and>
     terminal_match L R F (ps_terminal st)"

definition set_fate :: "record_side \<Rightarrow> string \<Rightarrow> fate \<Rightarrow> fates \<Rightarrow> fates" where
  "set_fate side i f F = (\<lambda>side' i'. if side' = side \<and> i' = i then f else F side' i')"

primrec ids_of :: "string set \<Rightarrow> string set \<Rightarrow> record_side \<Rightarrow> string set" where
  "ids_of L R LEFT = L" | "ids_of L R RIGHT = R"

lemma represents_cong:
  assumes "\<And>side i. i \<in> ids_of L R side \<Longrightarrow> F side i = G side i"
  shows "represents L R F st = represents L R G st"
proof -
  have [simp]: "F LEFT i = G LEFT i" if "i \<in> L" for i using assms [of i LEFT] that by simp
  have [simp]: "F RIGHT i = G RIGHT i" if "i \<in> R" for i using assms [of i RIGHT] that by simp
  have "open_match L R F st = open_match L R G st"
    by (simp add: open_match_def cong: conj_cong)
  moreover have "pairs_match L R F ps = pairs_match L R G ps" for ps
    by (simp add: pairs_match_def cong: conj_cong)
  moreover have "terminal_match L R F d = terminal_match L R G d" for d
    by (simp add: terminal_match_def fate_outcome_def)
  ultimately show ?thesis by (simp add: represents_def)
qed

lemma not_blank_reason_text [simp]: "\<not> blank (reason_text reason)"
  by (simp add: reason_text_def attention_text_def accepted_text_def reserved_text_def duplicate_text_def)

lemma set_terminal_total:
  assumes "\<not> blank i" and "distinct related" and "msg = reason_text reason"
  shows "set_terminal side i reason msg related st =
    Inr (st\<lparr>ps_terminal := dict_set (ps_terminal st) i (outcome_of side i reason related)\<rparr>)"
  using assms
  by (simp add: set_terminal_def unpaired_outcome_post_init_def outcome_of_def checks.simps)

lemma fate_outcome_set:
  "fate_outcome (set_fate side i f F) side' j =
     (if side' = side \<and> j = i
      then (case f of Unpaired reason related \<Rightarrow> Some (outcome_of side i reason related) | _ \<Rightarrow> None)
      else fate_outcome F side' j)"
  by (auto simp: fate_outcome_def set_fate_def)

lemma open_match_set:
  "open_match L R F st \<Longrightarrow> f \<noteq> Remains \<Longrightarrow>
   open_match L R (set_fate side i f F) (discard_remaining side i st)"
  by (cases side) (auto simp: open_match_def set_fate_def)

lemma pairs_match_unpaired:
  assumes "pairs_match L R F ps" and "F side i = Remains"
  shows "pairs_match L R (set_fate side i (Unpaired reason related) F) ps"
proof -
  have eqs: "set_fate side i (Unpaired reason related) F LEFT l = Paired r origin \<longleftrightarrow> F LEFT l = Paired r origin"
    "set_fate side i (Unpaired reason related) F RIGHT l = Paired r origin \<longleftrightarrow> F RIGHT l = Paired r origin"
    for l r origin
    using assms(2) by (auto simp: set_fate_def)
  show ?thesis using assms(1) unfolding pairs_match_def eqs .
qed

lemma terminal_match_set:
  assumes "terminal_match L R F d" and "L \<inter> R = {}" and "i \<in> ids_of L R side"
  shows "terminal_match L R (set_fate side i (Unpaired reason related) F)
    (dict_set d i (outcome_of side i reason related))"
proof (cases side)
  case LEFT
  with assms(2,3) have "i \<in> L" "i \<notin> R" by auto
  with assms(1) LEFT show ?thesis
    by (auto simp: terminal_match_def fate_outcome_set map_of_dict_set dict_keys_set)
next
  case RIGHT
  with assms(2,3) have "i \<in> R" "i \<notin> L" by auto
  with assms(1) RIGHT show ?thesis
    by (auto simp: terminal_match_def fate_outcome_set map_of_dict_set dict_keys_set)
qed

lemma represents_terminate:
  assumes rep: "represents L R F st" and LR: "L \<inter> R = {}" and i: "i \<in> ids_of L R side"
    and free: "F side i = Remains"
  shows "represents L R (set_fate side i (Unpaired reason related) F)
    (discard_remaining side i
      (st\<lparr>ps_terminal := dict_set (ps_terminal st) i (outcome_of side i reason related)\<rparr>))"
proof -
  let ?st = "st\<lparr>ps_terminal := dict_set (ps_terminal st) i (outcome_of side i reason related)\<rparr>"
  have "open_match L R F ?st" using rep by (simp add: represents_def open_match_def)
  then have "open_match L R (set_fate side i (Unpaired reason related) F) (discard_remaining side i ?st)"
    by (rule open_match_set) simp
  moreover have "ps_pairs (discard_remaining side i ?st) = ps_pairs st"
    "ps_terminal (discard_remaining side i ?st) =
     dict_set (ps_terminal st) i (outcome_of side i reason related)"
    by (cases side, simp_all)+
  ultimately show ?thesis
    using rep pairs_match_unpaired [where F = F and i = i and side = side, OF _ free] terminal_match_set [OF _ LR i]
    by (simp add: represents_def)
qed

lemma terminate_total:
  assumes rep: "represents L R F st" and LR: "L \<inter> R = {}" and i: "i \<in> ids_of L R side"
    and free: "F side i = Remains" and "\<not> blank i" and "distinct related" and "msg = reason_text reason"
  shows "\<exists>st'. terminate side i reason msg related st = Inr st' \<and>
    represents L R (set_fate side i (Unpaired reason related) F) st'"
proof -
  let ?st = "st\<lparr>ps_terminal := dict_set (ps_terminal st) i (outcome_of side i reason related)\<rparr>"
  have "remove_remaining side i ?st = Inr (discard_remaining side i ?st)"
    using rep i free by (cases side) (auto simp: represents_def open_match_def set_remove_def)
  with represents_terminate [OF rep LR i free, of reason related] show ?thesis
    by (simp add: terminate_def set_terminal_total assms(5-))
qed

lemma new_pair_inject [simp]:
  "new_pair l r c = new_pair l' r' c' \<longleftrightarrow> l = l' \<and> r = r' \<and> c = c'"
  by (simp add: new_pair_def)

lemma new_pair_sel [simp]:
  "po_left_id (new_pair l r c) = l" "po_right_id (new_pair l r c) = r" "po_origin (new_pair l r c) = c"
  by (simp_all add: new_pair_def)

lemma pairs_match_add:
  assumes m: "pairs_match L R F ps" and l: "l \<in> L" "F LEFT l = Remains"
    and r: "r \<in> R" "F RIGHT r = Remains"
  shows "pairs_match L R (set_fate LEFT l (Paired r c) (set_fate RIGHT r (Paired l c) F))
    (ps @ [new_pair l r c])"
proof -
  let ?G = "set_fate LEFT l (Paired r c) (set_fate RIGHT r (Paired l c) F)"
  have 1: "new_pair l' r' c' \<in> set ps \<longleftrightarrow> l' \<in> L \<and> F LEFT l' = Paired r' c'"
    "new_pair l' r' c' \<in> set ps \<longleftrightarrow> r' \<in> R \<and> F RIGHT r' = Paired l' c'" for l' r' c'
    using m unfolding pairs_match_def by blast+
  have 2: "p \<in> set ps \<Longrightarrow> p = new_pair (po_left_id p) (po_right_id p) (po_origin p)" for p
    using m by (simp add: pairs_match_def)
  have l_new: "l \<notin> set (map po_left_id ps)"
  proof
    assume "l \<in> set (map po_left_id ps)"
    then obtain p where "p \<in> set ps" "l = po_left_id p" by auto
    with 2 [of p] 1(1) [of "po_left_id p" "po_right_id p" "po_origin p"] l show False by simp
  qed
  have r_new: "r \<notin> set (map po_right_id ps)"
  proof
    assume "r \<in> set (map po_right_id ps)"
    then obtain p where "p \<in> set ps" "r = po_right_id p" by auto
    with 2 [of p] 1(2) [of "po_left_id p" "po_right_id p" "po_origin p"] r show False by simp
  qed
  have "new_pair l' r' c' \<in> set (ps @ [new_pair l r c]) \<longleftrightarrow> l' \<in> L \<and> ?G LEFT l' = Paired r' c'" for l' r' c'
    using 1(1) [of l' r' c'] l by (auto simp: set_fate_def)
  moreover have "new_pair l' r' c' \<in> set (ps @ [new_pair l r c]) \<longleftrightarrow> r' \<in> R \<and> ?G RIGHT r' = Paired l' c'" for l' r' c'
    using 1(2) [of l' r' c'] r by (auto simp: set_fate_def)
  moreover have "\<forall>p \<in> set (ps @ [new_pair l r c]). p = new_pair (po_left_id p) (po_right_id p) (po_origin p)"
    using 2 by simp
  moreover have "distinct (map po_left_id (ps @ [new_pair l r c]))"
    "distinct (map po_right_id (ps @ [new_pair l r c]))"
    using m l_new r_new by (simp_all add: pairs_match_def)
  ultimately show ?thesis unfolding pairs_match_def by blast
qed

lemma add_pair_total:
  assumes rep: "represents L R F st" and l: "l \<in> L" "F LEFT l = Remains"
    and r: "r \<in> R" "F RIGHT r = Remains" and "\<not> blank l" "\<not> blank r"
    and c: "c \<noteq> WEIGHTED_GLOBAL"
  shows "\<exists>st'. add_pair l r c st = Inr st' \<and>
    represents L R (set_fate LEFT l (Paired r c) (set_fate RIGHT r (Paired l c) F)) st'"
proof -
  let ?st = "st\<lparr>ps_pairs := ps_pairs st @ [new_pair l r c]\<rparr>"
  let ?st' = "discard_remaining LEFT l (discard_remaining RIGHT r ?st)"
  let ?G = "set_fate LEFT l (Paired r c) (set_fate RIGHT r (Paired l c) F)"
  have "pair_outcome_post_init (new_pair l r c) = Inr (new_pair l r c)"
    using assms by (simp add: pair_outcome_post_init_def pair_outcome_checks_def new_pair_def checks.simps)
  then have "add_pair l r c st = Inr ?st'"
    using rep l r by (simp add: add_pair_def represents_def open_match_def set_remove_def)
  moreover have "open_match L R F ?st"
    using rep by (simp add: represents_def open_match_def)
  then have "open_match L R ?G ?st'" by (intro open_match_set) simp_all
  moreover have "pairs_match L R ?G (ps_pairs ?st')"
    using rep pairs_match_add [OF _ l r, of "ps_pairs st" c] by (simp add: represents_def)
  moreover have "fate_outcome F LEFT l = None" "fate_outcome F RIGHT r = None"
    using l r by (simp_all add: fate_outcome_def)
  then have "terminal_match L R ?G (ps_terminal ?st')"
    using rep by (simp add: represents_def terminal_match_def fate_outcome_set)
  ultimately show ?thesis by (auto simp: represents_def)
qed


section \<open>Each loop decides the fates of the records it visits\<close>

definition valid_snapshot :: "engine_snapshot \<Rightarrow> bool" where
  "valid_snapshot s \<longleftrightarrow> engine_snapshot_post_init s = Inr s \<and>
     list_all (\<lambda>r. match_record_post_init r = Inr r) (es_left s @ es_right s)"

definition valid_decisions :: "decision_inputs \<Rightarrow> bool" where
  "valid_decisions d \<longleftrightarrow> decision_inputs_post_init d = Inr d \<and>
     list_all (\<lambda>m. manual_link_post_init m = Inr m) (di_manual_links d) \<and>
     list_all (\<lambda>x. rejected_relationship_post_init x = Inr x) (di_rejected_relationships d)"

definition upto_fates :: "(record_side \<times> string) set \<Rightarrow> fates \<Rightarrow> fates" where
  "upto_fates D G = (\<lambda>side i. if (side, i) \<in> D then G side i else Remains)"

lemma set_fate_upto:
  "set_fate side i (G side i) (upto_fates D G) = upto_fates (insert (side, i) D) G"
  by (auto simp: set_fate_def upto_fates_def fun_eq_iff)

lemma represents_absorb:
  assumes "represents L R (upto_fates D G) st"
    and "\<And>side i. (side, i) \<in> E \<Longrightarrow> i \<in> ids_of L R side \<Longrightarrow> (side, i) \<in> D \<or> G side i = Remains"
  shows "represents L R (upto_fates (D \<union> E) G) st"
  using assms(1)
proof (rule represents_cong [THEN iffD1, rotated])
  fix side i
  assume "i \<in> ids_of L R side"
  with assms(2) [of side i] show "upto_fates D G side i = upto_fates (D \<union> E) G side i"
    by (auto simp: upto_fates_def)
qed

lemma phase:
  assumes "represents L R (upto_fates D G) st"
    and "\<And>ys x zs st. xs = ys @ x # zs \<Longrightarrow> represents L R (upto_fates (D \<union> \<Union> (E ` set ys)) G) st \<Longrightarrow>
      \<exists>st'. f st x = Inr st' \<and> represents L R (upto_fates (D \<union> \<Union> (E ` set ys) \<union> E x) G) st'"
  shows "\<exists>st'. rfold f st xs = Inr st' \<and> represents L R (upto_fates (D \<union> \<Union> (E ` set xs)) G) st'"
proof (rule rfold_total_prefix [where P = "\<lambda>ys. represents L R (upto_fates (D \<union> \<Union> (E ` set ys)) G)"])
  show "represents L R (upto_fates (D \<union> \<Union> (E ` set [])) G) st" using assms(1) by simp
  fix ys x zs st
  assume "xs = ys @ x # zs" and "represents L R (upto_fates (D \<union> \<Union> (E ` set ys)) G) st"
  from assms(2) [OF this] show "\<exists>s'. f st x = Inr s' \<and>
      represents L R (upto_fates (D \<union> \<Union> (E ` set (ys @ [x]))) G) s'"
    by (simp add: Un_ac)
qed

lemma represents_free:
  "represents L R (upto_fates D G) st \<Longrightarrow>
   i \<in> set (ps_left st) \<longleftrightarrow> i \<in> L \<and> ((LEFT, i) \<in> D \<longrightarrow> G LEFT i = Remains)"
  "represents L R (upto_fates D G) st \<Longrightarrow>
   i \<in> set (ps_right st) \<longleftrightarrow> i \<in> R \<and> ((RIGHT, i) \<in> D \<longrightarrow> G RIGHT i = Remains)"
  by (auto simp: represents_def open_match_def upto_fates_def)

lemma terminate_upto:
  assumes rep: "represents L R (upto_fates D G) st" and "L \<inter> R = {}" and "i \<in> ids_of L R side"
    and "(side, i) \<in> D \<longrightarrow> G side i = Remains" and "G side i = Unpaired reason related"
    and "\<not> blank i" and "distinct related" and "msg = reason_text reason"
  shows "\<exists>st'. terminate side i reason msg related st = Inr st' \<and>
    represents L R (upto_fates (insert (side, i) D) G) st'"
proof -
  have "upto_fates D G side i = Remains" using assms(4) by (simp add: upto_fates_def)
  from terminate_total [OF rep assms(2,3) this assms(6-8)] set_fate_upto [of side i G D] assms(5)
  show ?thesis by simp
qed

lemma valid_snapshot_distinct: "valid_snapshot s \<Longrightarrow> distinct (side_ids s side)"
  by (cases side)
    (auto simp: valid_snapshot_def engine_snapshot_post_init_def engine_snapshot_checks_def
      checks_Inr_iff side_ids_def)

lemma valid_snapshot_disjoint: "valid_snapshot s \<Longrightarrow> set (side_ids s LEFT) \<inter> set (side_ids s RIGHT) = {}"
  by (auto simp: valid_snapshot_def engine_snapshot_post_init_def engine_snapshot_checks_def
      checks_Inr_iff side_ids_def Let_def)

lemma valid_snapshot_not_blank: "valid_snapshot s \<Longrightarrow> i \<in> set (side_ids s side) \<Longrightarrow> \<not> blank i"
  by (cases side)
    (auto simp: valid_snapshot_def list_all_iff match_record_post_init_def checks_Inr_iff side_ids_def)

lemma valid_decisions_links:
  assumes "valid_decisions d"
  shows "distinct (map (link_id side) (di_manual_links d))"
    and "m \<in> set (di_manual_links d) \<Longrightarrow> link_id side m \<notin> set (single_ids d)"
    and "distinct (single_ids d)"
proof -
  have *: "distinct (map ml_left_id (di_manual_links d))" "distinct (map ml_right_id (di_manual_links d))"
    "\<forall>i \<in> ml_left_id ` set (di_manual_links d) \<union> ml_right_id ` set (di_manual_links d). i \<notin> set (single_ids d)"
    and "distinct (map au_record_id (di_accepted_unmatched (decision_inputs_normal d)) @
      map ri_record_id (di_reserved_identities (decision_inputs_normal d)))"
    and n: "decision_inputs_normal d = d"
    using assms
    by (auto simp: valid_decisions_def decision_inputs_post_init_def decision_inputs_checks_def
      checks_Inr_iff Let_def decision_inputs_normal_def single_ids_def)
  then show "distinct (single_ids d)" by (simp add: single_ids_def)
  have eq: "map (link_id LEFT) ms = map ml_left_id ms" "map (link_id RIGHT) ms = map ml_right_id ms" for ms
    by simp_all
  show "distinct (map (link_id side) (di_manual_links d))"
    using * by (cases side) (simp_all only: eq)
  show "m \<in> set (di_manual_links d) \<Longrightarrow> link_id side m \<notin> set (single_ids d)"
    using * by (cases side) auto
qed

lemma find_key: "distinct (map f xs) \<Longrightarrow> x \<in> set xs \<Longrightarrow> find (\<lambda>y. f y = f x) xs = Some x"
  by (induction xs) (auto simp: image_iff)

lemma linked_to_link:
  "valid_decisions d \<Longrightarrow> m \<in> set (di_manual_links d) \<Longrightarrow>
   linked_to d side (link_id side m) = Some (link_id (other_side side) m)"
  by (simp add: linked_to_def find_key valid_decisions_links(1))

lemma linked_to_None_iff:
  "linked_to d side i = None \<longleftrightarrow> i \<notin> link_id side ` set (di_manual_links d)"
  by (auto simp: linked_to_def find_None_iff)

lemma id_fate_record:
  "valid_snapshot s \<Longrightarrow> r \<in> set (side_records s side) \<Longrightarrow>
   id_fate s d c side (mr_observation_id r) = record_fate s d c side r"
  using valid_snapshot_distinct [of s side] by (simp add: id_fate_def find_key side_ids_def)

lemma other_id_not_in:
  "valid_snapshot s \<Longrightarrow> i \<in> set (side_ids s side) \<Longrightarrow> i \<notin> set (side_ids s (other_side side))"
  using valid_snapshot_disjoint [of s] by (cases side) auto

abbreviation represents_upto where
  "represents_upto s d c D st \<equiv> represents (set (side_ids s LEFT)) (set (side_ids s RIGHT))
     (upto_fates D (id_fate s d c)) st"

lemma ids_of_side [simp]: "ids_of (set (side_ids s LEFT)) (set (side_ids s RIGHT)) side = set (side_ids s side)"
  by (cases side) simp_all

definition cancelled_done :: "record_side \<Rightarrow> match_record \<Rightarrow> (record_side \<times> string) set" where
  "cancelled_done side r = (if eligible r then {} else {(side, mr_observation_id r)})"

lemma distinct_prefix:
  "distinct (map f xs) \<Longrightarrow> xs = ys @ x # zs \<Longrightarrow> f x \<notin> f ` set ys"
  by auto

lemma exclude_cancelled_phase:
  assumes v: "valid_snapshot s" and rep: "represents_upto s d c D st"
    and D: "\<And>i. (side, i) \<notin> D"
  shows "\<exists>st'. rfold (exclude_cancelled side) st (side_records s side) = Inr st' \<and>
    represents_upto s d c (D \<union> \<Union> (cancelled_done side ` set (side_records s side))) st'"
proof (rule phase [OF rep])
  fix ys x zs st
  assume xs: "side_records s side = ys @ x # zs"
    and rep: "represents_upto s d c (D \<union> \<Union> (cancelled_done side ` set ys)) st"
  let ?D = "D \<union> \<Union> (cancelled_done side ` set ys)"
  let ?i = "mr_observation_id x"
  show "\<exists>st'. exclude_cancelled side st x = Inr st' \<and> represents_upto s d c (?D \<union> cancelled_done side x) st'"
  proof (cases "eligible x")
    case True
    with rep show ?thesis by (simp add: exclude_cancelled_def cancelled_done_def)
  next
    case False
    have x: "x \<in> set (side_records s side)" using xs by simp
    then have i: "?i \<in> set (side_ids s side)" by (simp add: side_ids_def)
    have "?i \<notin> mr_observation_id ` set ys"
      using distinct_prefix [OF _ xs, of mr_observation_id] valid_snapshot_distinct [OF v, of side] by (simp add: side_ids_def)
    then have "(side, ?i) \<notin> ?D" using D by (auto simp: cancelled_done_def split: if_splits)
    then have free: "upto_fates ?D (id_fate s d c) side ?i = Remains" by (simp add: upto_fates_def)
    have fate: "id_fate s d c side ?i = Unpaired CANCELLED_EXCLUDED []"
      using False id_fate_record [OF v x, of d c] by (simp add: record_fate_def)
    have "set_terminal side ?i CANCELLED_EXCLUDED
             ''The source marked this record cancelled, so automatic matching excluded it.'' [] st =
      Inr (st\<lparr>ps_terminal := dict_set (ps_terminal st) ?i (outcome_of side ?i CANCELLED_EXCLUDED [])\<rparr>)"
      by (rule set_terminal_total) (simp_all add: valid_snapshot_not_blank [OF v i] reason_text_def)
    with represents_terminate [OF rep valid_snapshot_disjoint [OF v] _ free, of CANCELLED_EXCLUDED "[]"]
      False i fate set_fate_upto [of side ?i "id_fate s d c" ?D]
    show ?thesis by (simp add: exclude_cancelled_def cancelled_done_def)
  qed
qed

definition link_done :: "manual_link \<Rightarrow> (record_side \<times> string) set" where
  "link_done m = {(LEFT, ml_left_id m), (RIGHT, ml_right_id m)}"

definition cancelled_ids :: "engine_snapshot \<Rightarrow> (record_side \<times> string) set" where
  "cancelled_ids s = {(side, i). i \<in> set (side_ids s side) \<and> i \<notin> set (eligible_ids s side)}"

lemma cancelled_done_ids:
  assumes "valid_snapshot s"
  shows "\<Union> (cancelled_done LEFT ` set (side_records s LEFT)) \<union>
    \<Union> (cancelled_done RIGHT ` set (side_records s RIGHT)) = cancelled_ids s"
proof -
  have 1: "r = r'" if "mr_observation_id r = mr_observation_id r'" "r \<in> set (side_records s side)"
    "r' \<in> set (side_records s side)" for r r' side
    using that valid_snapshot_distinct [OF assms, of side] by (auto simp: side_ids_def distinct_map inj_on_def)
  show ?thesis (is "?A = ?B")
  proof (intro equalityI subsetI)
    fix x assume "x \<in> ?A"
    then obtain side r where x: "x = (side, mr_observation_id r)" "r \<in> set (side_records s side)" "\<not> eligible r"
      by (auto simp: cancelled_done_def split: if_splits)
    then show "x \<in> ?B" using 1 by (fastforce simp: cancelled_ids_def side_ids_def eligible_ids_def)
  next
    fix x assume "x \<in> ?B"
    then obtain side r where "x = (side, mr_observation_id r)" "r \<in> set (side_records s side)" "\<not> eligible r"
      by (force simp: cancelled_ids_def side_ids_def eligible_ids_def)
    then show "x \<in> ?A" by (cases side) (force simp: cancelled_done_def)+
  qed
qed

lemma eligible_id_record:
  "i \<in> set (eligible_ids s side) \<longleftrightarrow>
   (\<exists>r \<in> set (side_records s side). mr_observation_id r = i \<and> eligible r)"
  by (auto simp: eligible_ids_def)

lemma eligible_side_ids: "i \<in> set (eligible_ids s side) \<Longrightarrow> i \<in> set (side_ids s side)"
  by (auto simp: eligible_ids_def side_ids_def)

lemma link_fate:
  assumes v: "valid_snapshot s" "valid_decisions d" and m: "m \<in> set (di_manual_links d)"
    and i: "link_id side m \<in> set (eligible_ids s side)"
  shows "id_fate s d c side (link_id side m) =
    (let j = link_id (other_side side) m
     in if j \<in> set (eligible_ids s (other_side side)) then Paired j MANUAL else Unpaired MANUAL_ATTENTION [j])"
proof -
  from i obtain r where r: "r \<in> set (side_records s side)" "mr_observation_id r = link_id side m" "eligible r"
    by (auto simp: eligible_id_record)
  with id_fate_record [OF v(1) r(1), of d c] linked_to_link [OF v(2) m, of side] show ?thesis
    by (simp add: record_fate_def Let_def)
qed

lemma manual_link_phase:
  assumes v: "valid_snapshot s" "valid_decisions d"
    and rep: "represents_upto s d c (cancelled_ids s) st"
  shows "\<exists>st'. rfold apply_manual_link st (di_manual_links d) = Inr st' \<and>
    represents_upto s d c (cancelled_ids s \<union> \<Union> (link_done ` set (di_manual_links d))) st'"
proof (rule phase [OF rep])
  fix ys m zs st
  assume ms: "di_manual_links d = ys @ m # zs"
    and rep: "represents_upto s d c (cancelled_ids s \<union> \<Union> (link_done ` set ys)) st"
  let ?D = "cancelled_ids s \<union> \<Union> (link_done ` set ys)" and ?G = "id_fate s d c"
  let ?l = "ml_left_id m" and ?r = "ml_right_id m"
  have m: "m \<in> set (di_manual_links d)" using ms by simp
  have "link_id side m \<notin> link_id side ` set ys" for side
    by (rule distinct_prefix [OF valid_decisions_links(1) [OF v(2)] ms])
  from this [of LEFT] this [of RIGHT] have new: "?l \<notin> ml_left_id ` set ys" "?r \<notin> ml_right_id ` set ys"
    by simp_all
  have fate_l: "?G LEFT ?l = (if ?r \<in> set (eligible_ids s RIGHT) then Paired ?r MANUAL
      else Unpaired MANUAL_ATTENTION [?r])" if "?l \<in> set (eligible_ids s LEFT)"
    using link_fate [OF v m, of LEFT c] that by simp
  have fate_r: "?G RIGHT ?r = (if ?l \<in> set (eligible_ids s LEFT) then Paired ?l MANUAL
      else Unpaired MANUAL_ATTENTION [?l])" if "?r \<in> set (eligible_ids s RIGHT)"
    using link_fate [OF v m, of RIGHT c] that by simp
  have D_l: "(LEFT, ?l) \<in> ?D \<longleftrightarrow> ?l \<in> set (side_ids s LEFT) \<and> ?l \<notin> set (eligible_ids s LEFT)"
    using new by (auto simp: cancelled_ids_def link_done_def)
  have D_r: "(RIGHT, ?r) \<in> ?D \<longleftrightarrow> ?r \<in> set (side_ids s RIGHT) \<and> ?r \<notin> set (eligible_ids s RIGHT)"
    using new by (auto simp: cancelled_ids_def link_done_def)
  have cancelled: "?G side i \<noteq> Remains" if "(side, i) \<in> cancelled_ids s" for side i
  proof -
    from that obtain r where "r \<in> set (side_records s side)" "mr_observation_id r = i" "\<not> eligible r"
      by (force simp: cancelled_ids_def side_ids_def eligible_ids_def)
    with id_fate_record [OF v(1) this(1), of d c] show ?thesis by (simp add: record_fate_def)
  qed
  have avail_l: "?l \<in> set (ps_left st) \<longleftrightarrow> ?l \<in> set (eligible_ids s LEFT)"
    using represents_free(1) [OF rep] D_l cancelled [of LEFT ?l] eligible_side_ids [of ?l s LEFT]
    by (auto simp: cancelled_ids_def)
  have avail_r: "?r \<in> set (ps_right st) \<longleftrightarrow> ?r \<in> set (eligible_ids s RIGHT)"
    using represents_free(2) [OF rep] D_r cancelled [of RIGHT ?r] eligible_side_ids [of ?r s RIGHT]
    by (auto simp: cancelled_ids_def)
  have free_l: "upto_fates ?D ?G LEFT ?l = Remains" if "?l \<in> set (eligible_ids s LEFT)"
    using D_l that by (simp add: upto_fates_def)
  have free_r: "upto_fates ?D ?G RIGHT ?r = Remains" if "?r \<in> set (eligible_ids s RIGHT)"
    using D_r that by (simp add: upto_fates_def)
  note LR = valid_snapshot_disjoint [OF v(1)] and nb = valid_snapshot_not_blank [OF v(1) eligible_side_ids]
  show "\<exists>st'. apply_manual_link st m = Inr st' \<and> represents_upto s d c (?D \<union> link_done m) st'"
  proof (cases "?l \<in> set (eligible_ids s LEFT)")
    case l: True
    show ?thesis
    proof (cases "?r \<in> set (eligible_ids s RIGHT)")
      case r: True
      from add_pair_total [OF rep eligible_side_ids [OF l] free_l [OF l] eligible_side_ids [OF r] free_r [OF r]
          nb [OF l] nb [OF r], of MANUAL]
      obtain st' where "add_pair ?l ?r MANUAL st = Inr st'"
        and "represents (set (side_ids s LEFT)) (set (side_ids s RIGHT))
          (set_fate LEFT ?l (Paired ?r MANUAL) (set_fate RIGHT ?r (Paired ?l MANUAL) (upto_fates ?D ?G))) st'"
        by auto
      with fate_l [OF l] fate_r [OF r] l r set_fate_upto [of LEFT ?l ?G "insert (RIGHT, ?r) ?D"]
        set_fate_upto [of RIGHT ?r ?G ?D] avail_l avail_r
      show ?thesis by (simp add: apply_manual_link_def link_done_def)
    next
      case r: False
      from terminate_upto [OF rep LR, of ?l LEFT MANUAL_ATTENTION "[?r]" attention_text] l r fate_l
        eligible_side_ids [OF l] D_l nb [OF l]
      obtain st' where "terminate LEFT ?l MANUAL_ATTENTION attention_text [?r] st = Inr st'"
        and rep': "represents_upto s d c (insert (LEFT, ?l) ?D) st'"
        by (auto simp: reason_text_def)
      moreover have "represents_upto s d c (insert (LEFT, ?l) ?D \<union> {(RIGHT, ?r)}) st'"
        by (rule represents_absorb [OF rep']) (use D_r r in auto)
      then have "represents_upto s d c (?D \<union> link_done m) st'" by (simp add: link_done_def insert_commute)
      ultimately show ?thesis using l r avail_l avail_r by (simp add: apply_manual_link_def)
    qed
  next
    case l: False
    show ?thesis
    proof (cases "?r \<in> set (eligible_ids s RIGHT)")
      case r: True
      from terminate_upto [OF rep LR, of ?r RIGHT MANUAL_ATTENTION "[?l]" attention_text] l r fate_r
        eligible_side_ids [OF r] D_r nb [OF r]
      obtain st' where "terminate RIGHT ?r MANUAL_ATTENTION attention_text [?l] st = Inr st'"
        and rep': "represents_upto s d c (insert (RIGHT, ?r) ?D) st'"
        by (auto simp: reason_text_def)
      moreover have "represents_upto s d c (insert (RIGHT, ?r) ?D \<union> {(LEFT, ?l)}) st'"
        by (rule represents_absorb [OF rep']) (use D_l l in auto)
      then have "represents_upto s d c (?D \<union> link_done m) st'" by (simp add: link_done_def insert_commute)
      ultimately show ?thesis using l r avail_l avail_r by (simp add: apply_manual_link_def)
    next
      case r: False
      from represents_absorb [OF rep, of "link_done m"] D_l D_r l r
      have "represents_upto s d c (?D \<union> link_done m) st" by (auto simp: link_done_def)
      with l r avail_l avail_r show ?thesis by (simp add: apply_manual_link_def)
    qed
  qed
qed

definition single_done :: "string \<Rightarrow> (record_side \<times> string) set" where
  "single_done i = {(LEFT, i), (RIGHT, i)}"

definition decided_ids :: "engine_snapshot \<Rightarrow> decision_inputs \<Rightarrow> (record_side \<times> string) set" where
  "decided_ids s d = cancelled_ids s \<union> \<Union> (link_done ` set (di_manual_links d))"

lemma link_done_iff: "(side, i) \<in> \<Union> (link_done ` set ms) \<longleftrightarrow> i \<in> link_id side ` set ms"
  by (cases side) (auto simp: link_done_def)

lemma decided_iff:
  "(side, i) \<in> decided_ids s d \<longleftrightarrow> (i \<in> set (side_ids s side) \<and> i \<notin> set (eligible_ids s side)) \<or>
     linked_to d side i \<noteq> None"
  unfolding decided_ids_def Un_iff link_done_iff by (simp add: linked_to_None_iff cancelled_ids_def)

lemma decided_fate:
  assumes v: "valid_snapshot s" "valid_decisions d"
    and i: "i \<in> set (side_ids s side)" "(side, i) \<in> decided_ids s d"
  shows "id_fate s d c side i \<noteq> Remains"
proof -
  from i(1) obtain r where r: "r \<in> set (side_records s side)" "mr_observation_id r = i"
    by (auto simp: side_ids_def)
  show ?thesis
  proof (cases "eligible r")
    case False
    with id_fate_record [OF v(1) r(1), of d c] r show ?thesis by (simp add: record_fate_def)
  next
    case True
    with r have "i \<in> set (eligible_ids s side)" by (auto simp: eligible_ids_def)
    with i(2) obtain j where "linked_to d side i = Some j" by (auto simp: decided_iff)
    with True id_fate_record [OF v(1) r(1), of d c] r show ?thesis by (simp add: record_fate_def)
  qed
qed

text \<open>
  Both loops over singly reserved records: \<open>is\<close> is the list of one of them, \<open>D\<close> what has
  been decided before.
\<close>

lemma reserve_single_phase:
  assumes v: "valid_snapshot s" "valid_decisions d"
    and rep: "represents_upto s d c D st"
    and sub: "decided_ids s d \<subseteq> D" and new: "\<And>side i. i \<in> set xs \<Longrightarrow> (side, i) \<in> D \<Longrightarrow> (side, i) \<in> decided_ids s d"
    and xs: "distinct xs" "set xs \<subseteq> set (single_ids d)" and msg: "msg = reason_text reason"
    and fate: "\<And>side i. i \<in> set xs \<Longrightarrow> i \<in> set (eligible_ids s side) \<Longrightarrow>
      id_fate s d c side i = Unpaired reason []"
  shows "\<exists>st'. rfold (reserve_single reason msg) st xs = Inr st' \<and>
    represents_upto s d c (D \<union> \<Union> (single_done ` set xs)) st'"
proof (rule phase [OF rep])
  fix ys i zs st
  assume split: "xs = ys @ i # zs"
    and rep: "represents_upto s d c (D \<union> \<Union> (single_done ` set ys)) st"
  let ?D = "D \<union> \<Union> (single_done ` set ys)" and ?G = "id_fate s d c"
  have i: "i \<in> set xs" and unseen: "i \<notin> set ys" using split xs(1) by auto
  have "linked_to d side i = None" for side
    using i xs(2) valid_decisions_links(2) [OF v(2)] by (auto simp: linked_to_None_iff)
  then have D: "(side, i) \<in> ?D \<longleftrightarrow> i \<in> set (side_ids s side) \<and> i \<notin> set (eligible_ids s side)" for side
    using sub new [OF i, of side] decided_iff [of side i s d] unseen by (auto simp: single_done_def)
  have nr: "?G side i \<noteq> Remains" if "i \<in> set (side_ids s side)" for side
  proof (cases "i \<in> set (eligible_ids s side)")
    case True
    with fate [OF i] show ?thesis by simp
  next
    case False
    with that decided_fate [OF v that] show ?thesis by (simp add: decided_iff)
  qed
  have open_l: "i \<in> set (ps_left st) \<longleftrightarrow> i \<in> set (eligible_ids s LEFT)"
    using represents_free(1) [OF rep] D [of LEFT] nr [of LEFT] eligible_side_ids [of i s LEFT] by auto
  have open_r: "i \<in> set (ps_right st) \<longleftrightarrow> i \<in> set (eligible_ids s RIGHT)"
    using represents_free(2) [OF rep] D [of RIGHT] nr [of RIGHT] eligible_side_ids [of i s RIGHT] by auto
  have step: "\<exists>st'. terminate side i reason msg [] st = Inr st' \<and>
      represents_upto s d c (?D \<union> single_done i) st'" if e: "i \<in> set (eligible_ids s side)" for side
  proof -
    have side: "i \<in> set (side_ids s side)" by (rule eligible_side_ids [OF e])
    from terminate_upto [OF rep valid_snapshot_disjoint [OF v(1)], of i side reason "[]" msg]
      D [of side] fate [OF i e] msg e side valid_snapshot_not_blank [OF v(1) side]
    obtain st' where st': "terminate side i reason msg [] st = Inr st'"
      and rep': "represents_upto s d c (insert (side, i) ?D) st'" by auto
    have "insert (side, i) ?D \<union> {(other_side side, i)} = ?D \<union> single_done i"
      by (cases side) (auto simp: single_done_def)
    with represents_absorb [OF rep', of "{(other_side side, i)}"] other_id_not_in [OF v(1) side]
    have "represents_upto s d c (?D \<union> single_done i) st'" by auto
    with st' show ?thesis by blast
  qed
  show "\<exists>st'. reserve_single reason msg st i = Inr st' \<and>
      represents_upto s d c (?D \<union> single_done i) st'"
  proof (cases "i \<in> set (ps_left st) \<or> i \<in> set (ps_right st)")
    case True
    with step [of LEFT] step [of RIGHT] open_l open_r show ?thesis
      by (auto simp: reserve_single_def)
  next
    case False
    from represents_absorb [OF rep, of "single_done i"] False D open_l open_r
    have "represents_upto s d c (?D \<union> single_done i) st" by (auto simp: single_done_def)
    with False show ?thesis by (simp add: reserve_single_def)
  qed
qed

lemma record_of_eligible:
  assumes "i \<in> set (eligible_ids s side)"
  obtains r where "r \<in> set (side_records s side)" "mr_observation_id r = i" "eligible r"
  using assms by (auto simp: eligible_id_record)

lemma represents_initial:
  "represents_upto s d c {} \<lparr>ps_left = input_left_ids s, ps_right = input_right_ids s, ps_pairs = [],
     ps_terminal = []\<rparr>"
  by (auto simp: represents_def open_match_def pairs_match_def terminal_match_def upto_fates_def
      fate_outcome_def side_ids_def input_left_ids_def input_right_ids_def dict_keys_def)

definition reviewed_ids :: "engine_snapshot \<Rightarrow> decision_inputs \<Rightarrow> (record_side \<times> string) set" where
  "reviewed_ids s d = decided_ids s d \<union> \<Union> (single_done ` set (single_ids d))"

lemma reserve_reviewed_total:
  assumes v: "valid_snapshot s" "valid_decisions d"
  shows "\<exists>st. reserve_reviewed s d = Inr st \<and> represents_upto s d c (reviewed_ids s d) st"
proof -
  let ?G = "id_fate s d c"
  from exclude_cancelled_phase [OF v(1) represents_initial, of LEFT d c]
  obtain st1 where st1: "rfold (exclude_cancelled LEFT) \<lparr>ps_left = input_left_ids s,
      ps_right = input_right_ids s, ps_pairs = [], ps_terminal = []\<rparr> (es_left s) = Inr st1"
    and "represents_upto s d c (\<Union> (cancelled_done LEFT ` set (side_records s LEFT))) st1" by auto
  with exclude_cancelled_phase [OF v(1), where d = d and c = c and st = st1 and side = RIGHT]
    cancelled_done_ids [OF v(1)]
  obtain st2 where st2: "rfold (exclude_cancelled RIGHT) st1 (es_right s) = Inr st2"
    and rep2: "represents_upto s d c (cancelled_ids s) st2"
    by (fastforce simp: cancelled_done_def split: if_splits)
  from manual_link_phase [OF v rep2]
  obtain st3 where st3: "rfold apply_manual_link st2 (di_manual_links d) = Inr st3"
    and rep3: "represents_upto s d c (decided_ids s d) st3" by (auto simp: decided_ids_def)
  let ?as = "map au_record_id (di_accepted_unmatched d)" and ?rs = "map ri_record_id (di_reserved_identities d)"
  have ds: "distinct ?as" "distinct ?rs" "set ?as \<inter> set ?rs = {}" "set ?as \<subseteq> set (single_ids d)"
    "set ?rs \<subseteq> set (single_ids d)"
    using valid_decisions_links(3) [OF v(2)] by (auto simp: single_ids_def)
  have unlinked: "linked_to d side i = None" if "i \<in> set (single_ids d)" for side i
    using that valid_decisions_links(2) [OF v(2)] by (auto simp: linked_to_None_iff)
  have fate: "?G side i = (if i \<in> set ?as then Unpaired ACCEPTED_UNMATCHED [] else Unpaired REVIEWER_RESERVED [])"
    if "i \<in> set (single_ids d)" "i \<in> set (eligible_ids s side)" for side i
  proof -
    from that(2) obtain r where r: "r \<in> set (side_records s side)" "mr_observation_id r = i" "eligible r"
      by (rule record_of_eligible)
    have "i \<in> set ?as \<or> i \<in> set ?rs" using that(1) by (simp add: single_ids_def)
    with id_fate_record [OF v(1) r(1), of d c] unlinked [OF that(1), of side] r show ?thesis
      by (auto simp: record_fate_def)
  qed
  have fate_a: "?G side i = Unpaired ACCEPTED_UNMATCHED []"
    if "i \<in> set ?as" "i \<in> set (eligible_ids s side)" for side i
    using fate [of i side] that ds by auto
  have fate_r: "?G side i = Unpaired REVIEWER_RESERVED []"
    if "i \<in> set ?rs" "i \<in> set (eligible_ids s side)" for side i
  proof -
    have "i \<notin> set ?as" "i \<in> set (single_ids d)" using that(1) ds by blast+
    with fate [of i side] that show ?thesis by simp
  qed
  have "\<exists>st'. rfold (reserve_single ACCEPTED_UNMATCHED accepted_text) st3 ?as = Inr st' \<and>
    represents_upto s d c (decided_ids s d \<union> \<Union> (single_done ` set ?as)) st'"
    by (rule reserve_single_phase [OF v rep3])
      (use ds fate_a in \<open>simp_all add: reason_text_def\<close>)
  then obtain st4 where st4: "rfold (reserve_single ACCEPTED_UNMATCHED accepted_text) st3 ?as = Inr st4"
    and rep4: "represents_upto s d c (decided_ids s d \<union> \<Union> (single_done ` set ?as)) st4" by blast
  have "\<exists>st'. rfold (reserve_single REVIEWER_RESERVED reserved_text) st4 ?rs = Inr st' \<and>
    represents_upto s d c (decided_ids s d \<union> \<Union> (single_done ` set ?as) \<union> \<Union> (single_done ` set ?rs)) st'"
  proof (rule reserve_single_phase [OF v rep4])
    show "(side, i) \<in> decided_ids s d" if "i \<in> set ?rs"
      "(side, i) \<in> decided_ids s d \<union> \<Union> (single_done ` set ?as)" for side i
      using that ds(3) by (auto simp: single_done_def)
    show "?G side i = Unpaired REVIEWER_RESERVED []"
      if "i \<in> set ?rs" "i \<in> set (eligible_ids s side)" for side i
      by (rule fate_r [OF that])
  qed (use ds in \<open>simp_all add: reason_text_def\<close>)
  moreover have "decided_ids s d \<union> \<Union> (single_done ` set ?as) \<union> \<Union> (single_done ` set ?rs) = reviewed_ids s d"
    by (auto simp: reviewed_ids_def single_ids_def)
  ultimately show ?thesis using st1 st2 st3 st4 by (auto simp: reserve_reviewed_def)
qed

section \<open>Trusted references\<close>

lemma reviewed_iff:
  "(side, i) \<in> reviewed_ids s d \<longleftrightarrow> (i \<in> set (side_ids s side) \<and> i \<notin> set (eligible_ids s side)) \<or>
     linked_to d side i \<noteq> None \<or> i \<in> set (single_ids d)"
  unfolding reviewed_ids_def Un_iff decided_iff by (cases side) (auto simp: single_done_def)

lemma eligible_record_iff:
  assumes "valid_snapshot s" and "r \<in> set (side_records s side)"
  shows "mr_observation_id r \<in> set (eligible_ids s side) \<longleftrightarrow> eligible r"
proof -
  have "r = r'" if "r' \<in> set (side_records s side)" "mr_observation_id r' = mr_observation_id r" for r'
    using that assms(2) valid_snapshot_distinct [OF assms(1), of side]
    by (auto simp: side_ids_def distinct_map inj_on_def)
  with assms(2) show ?thesis by (auto simp: eligible_id_record)
qed

lemma reviewed_record_iff:
  "valid_snapshot s \<Longrightarrow> r \<in> set (side_records s side) \<Longrightarrow>
   (side, mr_observation_id r) \<in> reviewed_ids s d \<longleftrightarrow> r \<notin> set (open_records s d side)"
  by (auto simp: reviewed_iff open_records_def eligible_record_iff side_ids_def)

lemma open_record_fate:
  "r \<in> set (open_records s d side) \<Longrightarrow> record_fate s d c side r = reference_fate s d c side r"
  by (auto simp: open_records_def record_fate_def single_ids_def)

lemma reviewed_fate:
  assumes v: "valid_snapshot s" "valid_decisions d"
    and r: "r \<in> set (side_records s side)" "r \<notin> set (open_records s d side)"
  shows "id_fate s d c side (mr_observation_id r) \<noteq> Remains"
  using r unfolding id_fate_record [OF v(1) r(1)]
  by (auto simp: record_fate_def open_records_def single_ids_def Let_def split: option.split)

lemma open_records_represented:
  assumes v: "valid_snapshot s" "valid_decisions d"
    and rep: "represents_upto s d c (reviewed_ids s d) st"
  shows "records_in (ps_left st) (es_left s) = open_records s d LEFT"
    and "records_in (ps_right st) (es_right s) = open_records s d RIGHT"
proof -
  have l: "mr_observation_id r \<in> set (ps_left st) \<longleftrightarrow> r \<in> set (open_records s d LEFT)"
    if "r \<in> set (es_left s)" for r
    using represents_free(1) [OF rep] reviewed_record_iff [OF v(1), of r LEFT d] reviewed_fate [OF v, of r LEFT c] that
    by (auto simp: side_ids_def)
  have r: "mr_observation_id r \<in> set (ps_right st) \<longleftrightarrow> r \<in> set (open_records s d RIGHT)"
    if "r \<in> set (es_right s)" for r
    using represents_free(2) [OF rep] reviewed_record_iff [OF v(1), of r RIGHT d] reviewed_fate [OF v, of r RIGHT c] that
    by (auto simp: side_ids_def)
  show "records_in (ps_left st) (es_left s) = open_records s d LEFT"
    unfolding records_in_def open_records_def using l by (intro filter_cong) (auto simp: open_records_def)
  show "records_in (ps_right st) (es_right s) = open_records s d RIGHT"
    unfolding records_in_def open_records_def using r by (intro filter_cong) (auto simp: open_records_def)
qed

lemma index_fold:
  "map_of (fold (index_record c) rs acc) k =
     (let ids = map mr_observation_id (filter (\<lambda>r. reference_key c r = Some k) rs)
      in if ids = [] then map_of acc k
         else Some ((case map_of acc k of None \<Rightarrow> [] | Some xs \<Rightarrow> xs) @ ids))"
proof (induction rs arbitrary: acc)
  case Nil
  then show ?case by simp
next
  case (Cons r rs)
  have "map_of (index_record c r acc) k =
      (if reference_key c r = Some k
       then Some ((case map_of acc k of None \<Rightarrow> [] | Some xs \<Rightarrow> xs) @ [mr_observation_id r])
       else map_of acc k)"
    by (auto simp: index_record_def map_of_dict_set split: option.split)
  then show ?case using Cons.IH [of "index_record c r acc"] by (simp add: Let_def)
qed

lemma ids_for_index:
  "ids_for (reference_index c rs) k =
   sort (map mr_observation_id (filter (\<lambda>r. reference_key c r = Some k) rs))"
proof -
  have "map_of (map (\<lambda>(k, ids). (k, sort ids)) d) k = map_option sort (map_of d k)"
    for d :: "(string \<times> string list) list"
    by (induction d) auto
  then show ?thesis by (auto simp: ids_for_def reference_index_def index_fold Let_def)
qed

lemma reference_index_keys:
  "k \<in> set (dict_keys (reference_index c rs)) \<longleftrightarrow> (\<exists>r \<in> set rs. reference_key c r = Some k)"
proof -
  have "dict_keys (reference_index c rs) = dict_keys (fold (index_record c) rs [])"
    by (auto simp: dict_keys_def reference_index_def)
  moreover have "k \<in> set (dict_keys (fold (index_record c) rs [])) \<longleftrightarrow>
      (\<exists>r \<in> set rs. reference_key c r = Some k)"
    using dict.lookup_None_iff [of "fold (index_record c) rs []" k]
    by (auto simp: index_fold Let_def filter_empty_conv split: if_splits)
  ultimately show ?thesis by simp
qed

lemma holders_iff:
  "i \<in> set (holders s d c side k) \<longleftrightarrow>
   (\<exists>r \<in> set (open_records s d side). mr_observation_id r = i \<and> reference_key c r = Some k)"
  by (auto simp: holders_def)

lemma open_records_sub: "r \<in> set (open_records s d side) \<Longrightarrow> r \<in> set (side_records s side)"
  by (simp add: open_records_def)

lemma distinct_holders: "valid_snapshot s \<Longrightarrow> distinct (holders s d c side k)"
  using valid_snapshot_distinct [of s side]
  by (auto simp: holders_def open_records_def side_ids_def distinct_map intro: inj_on_subset)

lemma holders_sub: "i \<in> set (holders s d c side k) \<Longrightarrow> i \<in> set (side_ids s side)"
  by (auto simp: holders_iff side_ids_def dest: open_records_sub)

lemma holder_key_unique:
  assumes "valid_snapshot s" "i \<in> set (holders s d c side k)" "i \<in> set (holders s d c side k')"
  shows "k = k'"
proof -
  from assms(2,3) obtain r r' where r: "r \<in> set (side_records s side)" "r' \<in> set (side_records s side)"
    "mr_observation_id r = mr_observation_id r'" "reference_key c r = Some k" "reference_key c r' = Some k'"
    by (auto simp: holders_iff dest!: open_records_sub)
  then have "r = r'"
    using valid_snapshot_distinct [OF assms(1), of side] by (auto simp: side_ids_def distinct_map inj_on_def)
  with r show ?thesis by simp
qed

lemma holder_fate:
  assumes v: "valid_snapshot s" and i: "i \<in> set (holders s d c side k)"
  shows "id_fate s d c side i =
    (let own = holders s d c side k; others = holders s d c (other_side side) k
     in if 1 < length own \<or> 1 < length others then Unpaired DUPLICATE_REFERENCE (sort (own @ others))
        else (case others of [] \<Rightarrow> Remains
          | j # _ \<Rightarrow> if oriented side i j \<in> set (rejected_edges d)
              then Remains else Paired j AUTHORITATIVE_REFERENCE))"
proof -
  from i obtain r where r: "r \<in> set (open_records s d side)" "mr_observation_id r = i" "reference_key c r = Some k"
    by (auto simp: holders_iff)
  with id_fate_record [OF v open_records_sub [OF r(1)], of d c] open_record_fate [OF r(1), of c]
  have "id_fate s d c side i = reference_fate s d c side r" by simp
  with r(2,3) show ?thesis unfolding reference_fate_def by auto
qed

lemma holder_not_reviewed:
  assumes "valid_snapshot s" "i \<in> set (holders s d c side k)"
  shows "(side, i) \<notin> reviewed_ids s d"
  using assms reviewed_record_iff [OF assms(1), of _ side d]
  by (auto simp: holders_iff dest: open_records_sub)

lemma holders_nonempty_sides:
  "valid_snapshot s \<Longrightarrow> set (holders s d c side k) \<inter> set (holders s d c (other_side side) k') = {}"
  using other_id_not_in [of s _ side] holders_sub by blast

definition conflict_key ::
    "engine_snapshot \<Rightarrow> decision_inputs \<Rightarrow> reference_contract \<Rightarrow> string \<Rightarrow> bool"
where
  "conflict_key s d c k \<longleftrightarrow>
     1 < length (holders s d c LEFT k) \<or> 1 < length (holders s d c RIGHT k)"

definition key_done ::
    "engine_snapshot \<Rightarrow> decision_inputs \<Rightarrow> reference_contract \<Rightarrow> string \<Rightarrow> (record_side \<times> string) set"
where
  "key_done s d c k = {(side, i). i \<in> set (holders s d c side k)}"

definition conflict_done ::
    "engine_snapshot \<Rightarrow> decision_inputs \<Rightarrow> reference_contract \<Rightarrow> string \<Rightarrow> (record_side \<times> string) set"
where
  "conflict_done s d c k = (if conflict_key s d c k then key_done s d c k else {})"

definition conflict_of ::
    "engine_snapshot \<Rightarrow> decision_inputs \<Rightarrow> reference_contract \<Rightarrow> string \<Rightarrow> reference_conflict"
where
  "conflict_of s d c k = \<lparr>rc_reference_key = k, rc_left_ids = holders s d c LEFT k,
     rc_right_ids = holders s d c RIGHT k\<rparr>"

text \<open>The inner loops over one side of a duplicated reference.\<close>

lemma duplicate_phase:
  assumes v: "valid_snapshot s" and rep: "represents_upto s d c D st"
    and k: "conflict_key s d c k"
    and new: "\<And>i. i \<in> set (holders s d c side k) \<Longrightarrow> (side, i) \<notin> D"
    and rel: "related = sort (holders s d c LEFT k @ holders s d c RIGHT k)"
  shows "\<exists>st'. rfold (\<lambda>s i. terminate side i DUPLICATE_REFERENCE duplicate_text related s) st
      (holders s d c side k) = Inr st' \<and>
    represents_upto s d c (D \<union> {side} \<times> set (holders s d c side k)) st'"
proof -
  have fate: "id_fate s d c side i = Unpaired DUPLICATE_REFERENCE related"
    if "i \<in> set (holders s d c side k)" for i
  proof -
    have "sort (holders s d c side k @ holders s d c (other_side side) k) = related"
      unfolding rel by (cases side) (auto intro!: properties_for_sort)
    with holder_fate [OF v that] k show ?thesis by (cases side) (auto simp: conflict_key_def)
  qed
  have "set (holders s d c LEFT k) \<inter> set (holders s d c RIGHT k) = {}"
    using holders_nonempty_sides [OF v, of d c LEFT k k] by simp
  then have dist: "distinct related" using distinct_holders [OF v] by (simp add: rel)
  have "\<exists>st'. rfold (\<lambda>s i. terminate side i DUPLICATE_REFERENCE duplicate_text related s) st
      (holders s d c side k) = Inr st' \<and>
    represents_upto s d c (D \<union> \<Union> ((\<lambda>i. {(side, i)}) ` set (holders s d c side k))) st'"
  proof (rule phase [OF rep])
    fix ys i zs st
    assume split: "holders s d c side k = ys @ i # zs"
      and rep: "represents_upto s d c (D \<union> \<Union> ((\<lambda>i. {(side, i)}) ` set ys)) st"
    have i: "i \<in> set (holders s d c side k)" and "i \<notin> set ys"
      using split distinct_holders [OF v, of d c side k] by auto
    then have "(side, i) \<notin> D \<union> \<Union> ((\<lambda>i. {(side, i)}) ` set ys)" using new by auto
    with terminate_upto [OF rep valid_snapshot_disjoint [OF v] _ _ fate [OF i]
        valid_snapshot_not_blank [OF v holders_sub [OF i]] dist, of duplicate_text] holders_sub [OF i]
    show "\<exists>st'. terminate side i DUPLICATE_REFERENCE duplicate_text related st = Inr st' \<and>
      represents_upto s d c (D \<union> \<Union> ((\<lambda>i. {(side, i)}) ` set ys) \<union> {(side, i)}) st'"
      by (simp add: reason_text_def)
  qed
  moreover have "\<Union> ((\<lambda>i. {(side, i)}) ` set (holders s d c side k)) = {side} \<times> set (holders s d c side k)"
    by auto
  ultimately show ?thesis by simp
qed

lemma conflict_of_total:
  assumes "valid_snapshot s" "conflict_key s d c k" "\<not> blank k"
  shows "reference_conflict_post_init (conflict_of s d c k) = Inr (conflict_of s d c k)"
proof -
  have "sort (holders s d c side k) = holders s d c side k" for side
    by (simp add: holders_def sort_key_id_if_sorted)
  then show ?thesis using assms
    by (auto simp: reference_conflict_post_init_def conflict_of_def checks_Inr_iff distinct_holders conflict_key_def)
qed

lemma resolve_conflict_step:
  assumes v: "valid_snapshot s" and rep: "represents_upto s d c D st"
    and k: "\<not> blank k"
    and new: "\<And>side i. i \<in> set (holders s d c side k) \<Longrightarrow> (side, i) \<notin> D"
  shows "\<exists>st'. resolve_conflict (reference_index c (open_records s d LEFT))
        (reference_index c (open_records s d RIGHT)) (conflicts, st) k =
      Inr (conflicts @ (if conflict_key s d c k then [conflict_of s d c k] else []), st') \<and>
    represents_upto s d c (D \<union> conflict_done s d c k) st'"
proof (cases "conflict_key s d c k")
  case False
  with rep show ?thesis
    by (auto simp: resolve_conflict_def conflict_done_def ids_for_index conflict_key_def holders_def)
next
  case True
  let ?l = "holders s d c LEFT k" and ?r = "holders s d c RIGHT k"
  let ?related = "sort (?l @ ?r)"
  have ids: "sort (ids_for (reference_index c (open_records s d side)) k) = holders s d c side k" for side
    by (simp add: ids_for_index holders_def)
  from duplicate_phase [OF v rep True new refl, of LEFT] obtain st1
    where st1: "rfold (\<lambda>s i. terminate LEFT i DUPLICATE_REFERENCE duplicate_text ?related s) st ?l = Inr st1"
      and rep1: "represents_upto s d c (D \<union> {LEFT} \<times> set ?l) st1" by blast
  have "i \<in> set ?r \<Longrightarrow> (RIGHT, i) \<notin> D \<union> {LEFT} \<times> set ?l" for i
    using new [of i RIGHT] by auto
  from duplicate_phase [OF v rep1 True this refl] obtain st2
    where st2: "rfold (\<lambda>s i. terminate RIGHT i DUPLICATE_REFERENCE duplicate_text ?related s) st1 ?r = Inr st2"
      and rep2: "represents_upto s d c (D \<union> {LEFT} \<times> set ?l \<union> {RIGHT} \<times> set ?r) st2" by auto
  have "{LEFT} \<times> set ?l \<union> {RIGHT} \<times> set ?r = key_done s d c k"
    by (auto simp: key_done_def) (metis record_side.exhaust)+
  with rep2 True have "represents_upto s d c (D \<union> conflict_done s d c k) st2"
    by (simp add: conflict_done_def Un_assoc)
  moreover have "resolve_conflict (reference_index c (open_records s d LEFT))
        (reference_index c (open_records s d RIGHT)) (conflicts, st) k =
      Inr (conflicts @ [conflict_of s d c k], st2)"
    using True st1 st2 conflict_of_total [OF v True k]
    by (simp add: resolve_conflict_def ids conflict_of_def conflict_key_def Let_def not_le)
  ultimately show ?thesis using True by auto
qed

lemma resolve_conflicts_total:
  assumes v: "valid_snapshot s" and rep: "represents_upto s d c (reviewed_ids s d) st"
    and keys: "distinct keys" "\<And>k. k \<in> set keys \<Longrightarrow> \<not> blank k"
  shows "\<exists>st'. rfold (resolve_conflict (reference_index c (open_records s d LEFT))
        (reference_index c (open_records s d RIGHT))) ([], st) keys =
      Inr (map (conflict_of s d c) (filter (conflict_key s d c) keys), st') \<and>
    represents_upto s d c (reviewed_ids s d \<union> \<Union> (conflict_done s d c ` set keys)) st'"
proof -
  let ?D = "\<lambda>ys. reviewed_ids s d \<union> \<Union> (conflict_done s d c ` set ys)"
  let ?f = "resolve_conflict (reference_index c (open_records s d LEFT))
        (reference_index c (open_records s d RIGHT))"
  have "\<exists>t. rfold ?f ([], st) keys = Inr t \<and>
      (fst t = map (conflict_of s d c) (filter (conflict_key s d c) keys) \<and> represents_upto s d c (?D keys) (snd t))"
  proof (rule rfold_total_prefix [where P = "\<lambda>ys t. fst t = map (conflict_of s d c)
      (filter (conflict_key s d c) ys) \<and> represents_upto s d c (?D ys) (snd t)"])
    show "fst ([], st) = map (conflict_of s d c) (filter (conflict_key s d c) []) \<and>
        represents_upto s d c (?D []) (snd ([], st))"
      using rep by simp
    fix ys k zs t
    assume split: "keys = ys @ k # zs"
      and t: "fst t = map (conflict_of s d c) (filter (conflict_key s d c) ys) \<and>
        represents_upto s d c (?D ys) (snd t)"
    have "(side, i) \<notin> ?D ys" if "i \<in> set (holders s d c side k)" for side i
    proof -
      have "k \<notin> set ys" using split keys(1) by simp
      then have "(side, i) \<notin> conflict_done s d c k'" if "k' \<in> set ys" for k'
        using holder_key_unique [OF v \<open>i \<in> set (holders s d c side k)\<close>, of k'] that
        by (cases "k' = k") (auto simp: conflict_done_def key_done_def)
      with holder_not_reviewed [OF v that] show ?thesis by blast
    qed
    from resolve_conflict_step [OF v conjunct2 [OF t] _ this, of k "fst t"] keys(2) [of k] split
    obtain st' where "?f t k = Inr (fst t @ (if conflict_key s d c k then [conflict_of s d c k] else []), st')"
      and "represents_upto s d c (?D ys \<union> conflict_done s d c k) st'" by auto
    moreover have "?D ys \<union> conflict_done s d c k = ?D (ys @ [k])" by (simp add: Un_ac)
    ultimately show "\<exists>t'. ?f t k = Inr t' \<and> (fst t' = map (conflict_of s d c)
        (filter (conflict_key s d c) (ys @ [k])) \<and> represents_upto s d c (?D (ys @ [k])) (snd t'))"
      using t by simp
  qed
  then show ?thesis by auto
qed

text \<open>The loop over the references that are unique.\<close>

lemma pair_by_reference_step:
  assumes v: "valid_snapshot s" and rep: "represents_upto s d c D st"
    and unseen: "\<not> conflict_key s d c k \<Longrightarrow> key_done s d c k \<inter> D = {}"
    and dups: "conflict_done s d c k \<subseteq> D"
    and edges: "\<And>l r. l \<in> set (side_ids s LEFT) \<Longrightarrow> r \<in> set (side_ids s RIGHT) \<Longrightarrow>
      (l, r) \<in> edges \<longleftrightarrow> (l, r) \<in> set (rejected_edges d)"
  shows "\<exists>st'. pair_by_reference (reference_index c (open_records s d LEFT))
        (reference_index c (open_records s d RIGHT)) edges st k = Inr st' \<and>
    represents_upto s d c (D \<union> key_done s d c k) st'"
proof -
  let ?l = "holders s d c LEFT k" and ?r = "holders s d c RIGHT k"
  let ?f = "pair_by_reference (reference_index c (open_records s d LEFT))
        (reference_index c (open_records s d RIGHT)) edges st k"
  have ids: "ids_for (reference_index c (open_records s d side)) k = holders s d c side k" for side
    by (simp add: ids_for_index holders_def)
  have skip: "\<exists>st'. ?f = Inr st' \<and> represents_upto s d c (D \<union> key_done s d c k) st'"
    if f: "?f = Inr st" and "\<And>side i. i \<in> set (holders s d c side k) \<Longrightarrow>
      (side, i) \<in> D \<or> id_fate s d c side i = Remains"
  proof -
    have "represents_upto s d c (D \<union> key_done s d c k) st"
      by (rule represents_absorb [OF rep]) (use that in \<open>auto simp: key_done_def\<close>)
    with f show ?thesis by blast
  qed
  show ?thesis
  proof (cases "conflict_key s d c k")
    case True
    then have "?f = Inr st"
      by (auto simp: pair_by_reference_def ids conflict_key_def split: list.split)
    with skip dups True show ?thesis by (auto simp: conflict_done_def key_done_def)
  next
    case unique: False
    show ?thesis
    proof (cases "?l = [] \<or> ?r = []")
      case True
      then have "?f = Inr st" by (auto simp: pair_by_reference_def ids split: list.split)
      moreover have "id_fate s d c side i = Remains" if "i \<in> set (holders s d c side k)" for side i
        using holder_fate [OF v that] True unique that by (cases side) (auto simp: conflict_key_def)
      ultimately show ?thesis using skip by blast
    next
      case False
      with unique obtain l r where lr: "?l = [l]" "?r = [r]"
        by (cases ?l; cases ?r) (auto simp: conflict_key_def)
      have l: "l \<in> set (side_ids s LEFT)" and r: "r \<in> set (side_ids s RIGHT)"
        using holders_sub [of l s d c LEFT k] holders_sub [of r s d c RIGHT k] lr by auto
      have fate_l: "id_fate s d c LEFT l =
          (if (l, r) \<in> edges then Remains else Paired r AUTHORITATIVE_REFERENCE)"
        using holder_fate [OF v, of l d c LEFT k] edges [OF l r] lr by simp
      have fate_r: "id_fate s d c RIGHT r =
          (if (l, r) \<in> edges then Remains else Paired l AUTHORITATIVE_REFERENCE)"
        using holder_fate [OF v, of r d c RIGHT k] edges [OF l r] lr by simp
      have "(LEFT, l) \<in> key_done s d c k" "(RIGHT, r) \<in> key_done s d c k"
        using lr by (simp_all add: key_done_def)
      then have D: "(LEFT, l) \<notin> D" "(RIGHT, r) \<notin> D" using unseen [OF unique] by blast+
      then have open_lr: "l \<in> set (ps_left st)" "r \<in> set (ps_right st)"
        using represents_free [OF rep] l r by auto
      have D_key: "D \<union> key_done s d c k = insert (LEFT, l) (insert (RIGHT, r) D)"
      proof -
        have "key_done s d c k = {(LEFT, l), (RIGHT, r)}"
        proof (rule set_eqI)
          fix x show "x \<in> key_done s d c k \<longleftrightarrow> x \<in> {(LEFT, l), (RIGHT, r)}"
            using lr by (cases x, cases "fst x") (auto simp: key_done_def)
        qed
        then show ?thesis by blast
      qed
      show ?thesis
      proof (cases "(l, r) \<in> edges")
        case True
        then have "?f = Inr st" by (simp add: pair_by_reference_def ids lr)
        moreover have "id_fate s d c side i = Remains" if "i \<in> set (holders s d c side k)" for side i
          using that fate_l fate_r True lr by (cases side) auto
        ultimately show ?thesis using skip by blast
      next
        case False
        have "upto_fates D (id_fate s d c) LEFT l = Remains" "upto_fates D (id_fate s d c) RIGHT r = Remains"
          using D by (simp_all add: upto_fates_def)
        from add_pair_total [OF rep l this(1) r this(2) valid_snapshot_not_blank [OF v l]
            valid_snapshot_not_blank [OF v r], of AUTHORITATIVE_REFERENCE] fate_l fate_r False
          set_fate_upto [of LEFT l "id_fate s d c" "insert (RIGHT, r) D"]
          set_fate_upto [of RIGHT r "id_fate s d c" D]
        have "\<exists>st'. add_pair l r AUTHORITATIVE_REFERENCE st = Inr st' \<and>
            represents_upto s d c (insert (LEFT, l) (insert (RIGHT, r) D)) st'" by simp
        with False open_lr show ?thesis by (simp add: pair_by_reference_def ids lr D_key)
      qed
    qed
  qed
qed

lemma pair_references_total:
  assumes v: "valid_snapshot s"
    and rep: "represents_upto s d c (reviewed_ids s d \<union> \<Union> (conflict_done s d c ` set keys)) st"
    and keys: "distinct keys"
    and edges: "\<And>l r. l \<in> set (side_ids s LEFT) \<Longrightarrow> r \<in> set (side_ids s RIGHT) \<Longrightarrow>
      (l, r) \<in> edges \<longleftrightarrow> (l, r) \<in> set (rejected_edges d)"
  shows "\<exists>st'. rfold (pair_by_reference (reference_index c (open_records s d LEFT))
        (reference_index c (open_records s d RIGHT)) edges) st keys = Inr st' \<and>
    represents_upto s d c (reviewed_ids s d \<union> \<Union> (conflict_done s d c ` set keys) \<union>
      \<Union> (key_done s d c ` set keys)) st'"
proof (rule phase [OF rep])
  fix ys k zs st
  let ?D = "reviewed_ids s d \<union> \<Union> (conflict_done s d c ` set keys)"
  assume split: "keys = ys @ k # zs"
    and rep: "represents_upto s d c (?D \<union> \<Union> (key_done s d c ` set ys)) st"
  have k: "k \<notin> set ys" using split keys by simp
  have other: "x \<notin> key_done s d c k'" if "x \<in> key_done s d c k" "k' \<noteq> k" for x k'
    using that holder_key_unique [OF v] by (auto simp: key_done_def)
  show "\<exists>st'. pair_by_reference (reference_index c (open_records s d LEFT))
        (reference_index c (open_records s d RIGHT)) edges st k = Inr st' \<and>
      represents_upto s d c (?D \<union> \<Union> (key_done s d c ` set ys) \<union> key_done s d c k) st'"
  proof (rule pair_by_reference_step [OF v rep _ _ edges])
    assume "\<not> conflict_key s d c k"
    have "x \<notin> ?D \<union> \<Union> (key_done s d c ` set ys)" if x: "x \<in> key_done s d c k" for x
    proof -
      have "x \<notin> reviewed_ids s d" using x holder_not_reviewed [OF v] by (auto simp: key_done_def)
      moreover have "x \<notin> conflict_done s d c k'" for k'
        using other [OF x, of k'] \<open>\<not> conflict_key s d c k\<close> by (cases "k' = k") (auto simp: conflict_done_def)
      moreover have "x \<notin> key_done s d c k'" if "k' \<in> set ys" for k'
        using other [OF x, of k'] that k by blast
      ultimately show ?thesis by blast
    qed
    then show "key_done s d c k \<inter> (?D \<union> \<Union> (key_done s d c ` set ys)) = {}" by blast
  next
    show "conflict_done s d c k \<subseteq> ?D \<union> \<Union> (key_done s d c ` set ys)" using split by auto
  qed
qed

section \<open>The result\<close>

lemma terminal_match_outcomes:
  assumes m: "terminal_match L R F d" and LR: "L \<inter> R = {}"
  shows "u \<in> set (map snd d) \<longleftrightarrow> (\<exists>side i. i \<in> ids_of L R side \<and> fate_outcome F side i = Some u)"
proof
  assume "u \<in> set (map snd d)"
  then obtain i where i: "(i, u) \<in> set d" by auto
  then have "map_of d i = Some u" using m by (simp add: terminal_match_def dict_keys_def)
  moreover have "i \<in> L \<union> R" using m i by (force simp: terminal_match_def dict_keys_def)
  ultimately show "\<exists>side i. i \<in> ids_of L R side \<and> fate_outcome F side i = Some u"
    using m by (metis Un_iff ids_of.simps terminal_match_def)
next
  assume "\<exists>side i. i \<in> ids_of L R side \<and> fate_outcome F side i = Some u"
  then obtain side i where i: "i \<in> ids_of L R side" "fate_outcome F side i = Some u" by blast
  then have "map_of d i = Some u" using m by (cases side) (auto simp: terminal_match_def)
  then show "u \<in> set (map snd d)" by (force dest: map_of_SomeD)
qed

lemma fate_outcome_Some:
  "fate_outcome F side i = Some u \<longleftrightarrow>
   (\<exists>reason related. F side i = Unpaired reason related \<and> u = outcome_of side i reason related)"
  by (auto simp: fate_outcome_def split: fate.splits)

lemma terminal_match_ids:
  assumes m: "terminal_match L R F d" and LR: "L \<inter> R = {}"
  shows "set (unpaired_ids side (map snd d)) =
      {i \<in> ids_of L R side. \<exists>reason related. F side i = Unpaired reason related}"
    and "distinct (unpaired_ids side (map snd d))"
proof -
  show "set (unpaired_ids side (map snd d)) =
      {i \<in> ids_of L R side. \<exists>reason related. F side i = Unpaired reason related}" (is "?A = ?B")
  proof (intro equalityI subsetI)
    fix i assume "i \<in> ?A"
    then obtain u where u: "u \<in> set (map snd d)" "uo_side u = side" "uo_record_id u = i"
      by (force simp: unpaired_ids_def)
    then obtain side' i' reason related where "i' \<in> ids_of L R side'" "F side' i' = Unpaired reason related"
      "u = outcome_of side' i' reason related"
      using terminal_match_outcomes [OF m LR, of u] by (auto simp: fate_outcome_Some)
    with u show "i \<in> ?B" by (auto simp: outcome_of_def)
  next
    fix i assume "i \<in> ?B"
    then obtain reason related where i: "i \<in> ids_of L R side" "F side i = Unpaired reason related" by blast
    then have "outcome_of side i reason related \<in> set (map snd d)"
      using terminal_match_outcomes [OF m LR] by (auto simp: fate_outcome_Some)
    then show "i \<in> ?A" by (force simp: unpaired_ids_def outcome_of_def)
  qed
  have "uo_record_id u = i" if "(i, u) \<in> set d" for i u
  proof -
    have "map_of d i = Some u" "i \<in> L \<union> R"
      using m that by (force simp: terminal_match_def dict_keys_def)+
    then have "fate_outcome F LEFT i = Some u \<or> fate_outcome F RIGHT i = Some u"
      using m by (metis Un_iff terminal_match_def)
    then show ?thesis by (auto simp: fate_outcome_Some outcome_of_def)
  qed
  then have "map uo_record_id (map snd d) = dict_keys d" by (auto simp: dict_keys_def)
  then have "distinct (map uo_record_id (map snd d))" using m by (simp add: terminal_match_def)
  then show "distinct (unpaired_ids side (map snd d))"
    unfolding unpaired_ids_def by (simp add: distinct_map_filter)
qed

lemma pairs_match_ids:
  assumes "pairs_match L R F ps"
  shows "set (map po_left_id ps) = {i \<in> L. \<exists>j origin. F LEFT i = Paired j origin}"
    and "set (map po_right_id ps) = {i \<in> R. \<exists>j origin. F RIGHT i = Paired j origin}"
proof -
  have 1: "new_pair l r c \<in> set ps \<longleftrightarrow> l \<in> L \<and> F LEFT l = Paired r c"
    and 2: "new_pair l r c \<in> set ps \<longleftrightarrow> r \<in> R \<and> F RIGHT r = Paired l c" for l r c
    using assms unfolding pairs_match_def by blast+
  have 3: "p \<in> set ps \<Longrightarrow> new_pair (po_left_id p) (po_right_id p) (po_origin p) \<in> set ps" for p
    using assms unfolding pairs_match_def by metis
  show "set (map po_left_id ps) = {i \<in> L. \<exists>j origin. F LEFT i = Paired j origin}"
    using 1 3 by (auto simp: image_iff) (metis new_pair_sel(1))
  show "set (map po_right_id ps) = {i \<in> R. \<exists>j origin. F RIGHT i = Paired j origin}"
    using 2 3 by (auto simp: image_iff) (metis new_pair_sel(2))
qed

lemma preprocessing_checks_iff:
  "(\<forall>chk \<in> set (preprocessing_checks r). \<not> fst chk) \<longleftrightarrow>
     (let pl = map po_left_id (rp_pairs r); pr = map po_right_id (rp_pairs r);
          tl = unpaired_ids LEFT (rp_terminal_unpaired r); tr = unpaired_ids RIGHT (rp_terminal_unpaired r);
          rl = map mr_observation_id (rp_remaining_left r); rr = map mr_observation_id (rp_remaining_right r);
          il = rp_input_left_ids r; ir = rp_input_right_ids r
      in distinct il \<and> distinct ir \<and> set il \<inter> set ir = {} \<and>
        distinct pl \<and> distinct pr \<and> distinct tl \<and> distinct tr \<and> distinct rl \<and> distinct rr \<and>
        set pl \<union> set tl \<union> set rl = set il \<and> set pr \<union> set tr \<union> set rr = set ir \<and>
        set pl \<inter> set tl = {} \<and> set pl \<inter> set rl = {} \<and> set tl \<inter> set rl = {} \<and>
        set pr \<inter> set tr = {} \<and> set pr \<inter> set rr = {} \<and> set tr \<inter> set rr = {})"
proof -
  have "set (unpaired_ids side (sort_key unpaired_key us)) = set (unpaired_ids side us)" for side us
    by (auto simp: unpaired_ids_def)
  moreover have "distinct (unpaired_ids side (sort_key unpaired_key us)) = distinct (unpaired_ids side us)"
    for side us
    unfolding unpaired_ids_def by (simp add: filter_sort)
  ultimately show ?thesis
    by (simp add: preprocessing_checks_def preprocessing_normal_def Let_def unique_ids_check_def conj_ac)
qed

lemma preprocessing_total:
  assumes v: "valid_snapshot s"
    and rep: "represents (set (side_ids s LEFT)) (set (side_ids s RIGHT)) F st"
    and r: "rp_input_left_ids r = input_left_ids s" "rp_input_right_ids r = input_right_ids s"
      "rp_pairs r = ps_pairs st" "rp_terminal_unpaired r = map snd (ps_terminal st)"
      "rp_remaining_left r = records_in (ps_left st) (es_left s)"
      "rp_remaining_right r = records_in (ps_right st) (es_right s)"
  shows "preprocessing_post_init r = Inr (preprocessing_normal r)"
proof -
  let ?L = "set (side_ids s LEFT)" and ?R = "set (side_ids s RIGHT)"
  note LR = valid_snapshot_disjoint [OF v]
  have om: "open_match ?L ?R F st" and pm: "pairs_match ?L ?R F (ps_pairs st)"
    and tm: "terminal_match ?L ?R F (ps_terminal st)"
    using rep by (simp_all add: represents_def)
  have in_l: "distinct (input_left_ids s)" "set (input_left_ids s) = ?L"
    and in_r: "distinct (input_right_ids s)" "set (input_right_ids s) = ?R"
    using valid_snapshot_distinct [OF v, of LEFT] valid_snapshot_distinct [OF v, of RIGHT]
    by (simp_all add: input_left_ids_def input_right_ids_def side_ids_def)
  have rem: "set (map mr_observation_id (records_in (ps_left st) (es_left s))) = {i \<in> ?L. F LEFT i = Remains}"
    "set (map mr_observation_id (records_in (ps_right st) (es_right s))) = {i \<in> ?R. F RIGHT i = Remains}"
    using om by (auto simp: open_match_def records_in_def side_ids_def)
  have rem_d: "distinct (map mr_observation_id (records_in (ps_left st) (es_left s)))"
    "distinct (map mr_observation_id (records_in (ps_right st) (es_right s)))"
    using in_l in_r unfolding records_in_def input_left_ids_def input_right_ids_def
    by (simp_all add: distinct_map_filter)
  have pair_d: "distinct (map po_left_id (ps_pairs st))" "distinct (map po_right_id (ps_pairs st))"
    using pm unfolding pairs_match_def by blast+
  have cover: "{i \<in> A. \<exists>j origin. G i = Paired j origin} \<union>
      {i \<in> A. \<exists>reason related. G i = Unpaired reason related} \<union> {i \<in> A. G i = Remains} = A"
    for A :: "string set" and G
    by (auto; metis fate.exhaust)
  have apart: "{i \<in> A. \<exists>j origin. G i = Paired j origin} \<inter> {i \<in> A. \<exists>reason related. G i = Unpaired reason related} = {}"
    "{i \<in> A. \<exists>j origin. G i = Paired j origin} \<inter> {i \<in> A. G i = Remains} = {}"
    "{i \<in> A. \<exists>reason related. G i = Unpaired reason related} \<inter> {i \<in> A. G i = Remains} = {}"
    for A :: "string set" and G
    by auto
  note terms = terminal_match_ids [OF tm LR, of LEFT] terminal_match_ids [OF tm LR, of RIGHT]
  have "\<forall>chk \<in> set (preprocessing_checks r). \<not> fst chk"
    unfolding preprocessing_checks_iff Let_def r in_l(2) in_r(2) pairs_match_ids [OF pm] rem terms(1,3) ids_of.simps
      cover apart
    using in_l(1) in_r(1) LR pair_d rem_d terms(2,4) by (intro conjI refl) assumption+
  then show ?thesis
    unfolding preprocessing_post_init_def by (intro checks_total) blast
qed

text \<open>No relationship uses a record of the wrong side.\<close>

definition oriented_decisions :: "engine_snapshot \<Rightarrow> decision_inputs \<Rightarrow> bool" where
  "oriented_decisions s d \<longleftrightarrow>
     (\<forall>e \<in> set (map (\<lambda>m. (ml_left_id m, ml_right_id m)) (di_manual_links d) @ rejected_edges d).
        fst e \<notin> set (side_ids s RIGHT) \<and> snd e \<notin> set (side_ids s LEFT))"

lemma validate_orientation_iff:
  "validate_orientation d (input_left_ids s) (input_right_ids s) = Inr () \<longleftrightarrow> oriented_decisions s d"
  by (simp add: validate_orientation_def checks_Inr_iff orientation_checks_def oriented_decisions_def
      ball_Un rejected_edges_def input_left_ids_def input_right_ids_def side_ids_def)

lemma prohibited_of_total:
  assumes "valid_decisions d"
  obtains ps where "prohibited_of d L R = Inr ps"
    and "map (\<lambda>p. (pr_left_id p, pr_right_id p)) ps = filter (\<lambda>(l, r). l \<in> set L \<and> r \<in> set R) (rejected_edges d)"
proof -
  let ?p = "\<lambda>x. \<lparr>pr_left_id = rr_left_id x, pr_right_id = rr_right_id x,
                 pr_decision_id = rr_decision_id x, pr_revision_id = rr_revision_id x\<rparr>"
  have "prohibited_post_init (?p x) = Inr (?p x)" if "x \<in> set (di_rejected_relationships d)" for x
    using assms that
    by (auto simp: valid_decisions_def list_all_iff rejected_relationship_post_init_def
        prohibited_post_init_def checks_Inr_iff)
  then have "prohibited_of d L R = Inr (map ?p (filter (\<lambda>x. rr_left_id x \<in> set L \<and> rr_right_id x \<in> set R)
      (di_rejected_relationships d)))"
    unfolding prohibited_of_def by (intro rmap_total) auto
  moreover have "map (\<lambda>p. (pr_left_id p, pr_right_id p)) (map ?p (filter (\<lambda>x. rr_left_id x \<in> set L \<and> rr_right_id x \<in> set R) xs))
      = filter (\<lambda>(l, r). l \<in> set L \<and> r \<in> set R) (map (\<lambda>x. (rr_left_id x, rr_right_id x)) xs)" for xs
    by (induction xs) auto
  ultimately show ?thesis using that unfolding rejected_edges_def by blast
qed

lemma reference_key_not_blank:
  assumes "valid_snapshot s" "r \<in> set (side_records s side)" "reference_key c r = Some k"
  shows "\<not> blank k"
proof -
  have "match_record_post_init r = Inr r"
    using assms(1,2) by (cases side) (auto simp: valid_snapshot_def list_all_iff)
  with assms(3) show ?thesis
    by (auto simp: match_record_post_init_def checks_Inr_iff reference_key_def split: if_splits)
qed

definition shared_keys ::
    "engine_snapshot \<Rightarrow> decision_inputs \<Rightarrow> reference_contract \<Rightarrow> string list"
where
  "shared_keys s d c = reference_keys (reference_index c (open_records s d LEFT))
     (reference_index c (open_records s d RIGHT))"

lemma shared_keys_iff:
  "k \<in> set (shared_keys s d c) \<longleftrightarrow> (\<exists>side. \<exists>r \<in> set (open_records s d side). reference_key c r = Some k)"
  by (auto simp: shared_keys_def reference_keys_def reference_index_keys) (metis record_side.exhaust)

text \<open>
  The whole routine: it succeeds, and its result is read off a final state that represents
  the fates of all the records.
\<close>

lemma preprocess_represents:
  assumes v: "valid_snapshot s" "valid_decisions d" and o: "oriented_decisions s d"
  obtains st ps where
    "represents (set (side_ids s LEFT)) (set (side_ids s RIGHT)) (id_fate s d c) st"
    and "map (\<lambda>p. (pr_left_id p, pr_right_id p)) ps = filter (\<lambda>(l, r). l \<in> set (input_left_ids s) \<and>
        r \<in> set (input_right_ids s)) (rejected_edges d)"
    and "preprocess_references s d c = Inr (preprocessing_normal \<lparr>
        rp_input_left_ids = input_left_ids s, rp_input_right_ids = input_right_ids s,
        rp_pairs = ps_pairs st, rp_terminal_unpaired = map snd (ps_terminal st),
        rp_remaining_left = records_in (ps_left st) (es_left s),
        rp_remaining_right = records_in (ps_right st) (es_right s),
        rp_prohibited = ps,
        rp_conflicts = map (conflict_of s d c) (filter (conflict_key s d c) (shared_keys s d c))\<rparr>)"
proof -
  let ?keys = "shared_keys s d c"
  let ?l = "reference_index c (open_records s d LEFT)" and ?r = "reference_index c (open_records s d RIGHT)"
  from reserve_reviewed_total [OF v, of c] obtain st1 where st1: "reserve_reviewed s d = Inr st1"
    and rep1: "represents_upto s d c (reviewed_ids s d) st1" by blast
  from prohibited_of_total [OF v(2), of "input_left_ids s" "input_right_ids s"] obtain ps
    where ps: "prohibited_of d (input_left_ids s) (input_right_ids s) = Inr ps"
    and edges: "map (\<lambda>p. (pr_left_id p, pr_right_id p)) ps = filter (\<lambda>(l, r). l \<in> set (input_left_ids s) \<and>
        r \<in> set (input_right_ids s)) (rejected_edges d)" .
  have keys: "distinct ?keys" by (simp add: shared_keys_def reference_keys_def)
  have "\<not> blank k" if "k \<in> set ?keys" for k
  proof -
    from that obtain side r where "r \<in> set (open_records s d side)" "reference_key c r = Some k"
      by (auto simp: shared_keys_iff)
    then show ?thesis using reference_key_not_blank [OF v(1) open_records_sub] by blast
  qed
  from resolve_conflicts_total [OF v(1) rep1 keys this] obtain st2
    where st2: "rfold (resolve_conflict ?l ?r) ([], st1) ?keys =
        Inr (map (conflict_of s d c) (filter (conflict_key s d c) ?keys), st2)"
      and rep2: "represents_upto s d c (reviewed_ids s d \<union> \<Union> (conflict_done s d c ` set ?keys)) st2"
    by blast
  have "(l, r) \<in> set (map (\<lambda>p. (pr_left_id p, pr_right_id p)) ps) \<longleftrightarrow> (l, r) \<in> set (rejected_edges d)"
    if "l \<in> set (side_ids s LEFT)" "r \<in> set (side_ids s RIGHT)" for l r
    using that unfolding edges by (simp add: side_ids_def input_left_ids_def input_right_ids_def)
  from pair_references_total [OF v(1) rep2 keys this] obtain st3
    where st3: "rfold (pair_by_reference ?l ?r (set (map (\<lambda>p. (pr_left_id p, pr_right_id p)) ps))) st2 ?keys = Inr st3"
      and rep3: "represents_upto s d c (reviewed_ids s d \<union> \<Union> (conflict_done s d c ` set ?keys) \<union>
        \<Union> (key_done s d c ` set ?keys)) st3" by blast
  have rep: "represents (set (side_ids s LEFT)) (set (side_ids s RIGHT)) (id_fate s d c) st3"
  proof (rule represents_cong [THEN iffD1, OF _ rep3])
    fix side i
    let ?D = "reviewed_ids s d \<union> \<Union> (conflict_done s d c ` set ?keys) \<union> \<Union> (key_done s d c ` set ?keys)"
    assume "i \<in> ids_of (set (side_ids s LEFT)) (set (side_ids s RIGHT)) side"
    then have "i \<in> set (side_ids s side)" by simp
    then obtain r where r: "r \<in> set (side_records s side)" "mr_observation_id r = i"
      by (auto simp: side_ids_def)
    show "upto_fates ?D (id_fate s d c) side i = id_fate s d c side i"
    proof (cases "(side, i) \<in> ?D")
      case True
      then show ?thesis by (simp add: upto_fates_def)
    next
      case False
      then have o: "r \<in> set (open_records s d side)"
        using reviewed_record_iff [OF v(1) r(1), of d] r(2) by blast
      have "reference_key c r = None"
      proof (cases "reference_key c r")
        case (Some k)
        with o r(2) have "k \<in> set ?keys" "(side, i) \<in> key_done s d c k"
          by (auto simp: shared_keys_iff key_done_def holders_iff)
        with False show ?thesis by blast
      qed
      with id_fate_record [OF v(1) r(1), of d c] r(2) open_record_fate [OF o, of c]
      show ?thesis using False by (simp add: upto_fates_def reference_fate_def)
    qed
  qed
  have "preprocess_references s d c = preprocessing_post_init \<lparr>
        rp_input_left_ids = input_left_ids s, rp_input_right_ids = input_right_ids s,
        rp_pairs = ps_pairs st3, rp_terminal_unpaired = map snd (ps_terminal st3),
        rp_remaining_left = records_in (ps_left st3) (es_left s),
        rp_remaining_right = records_in (ps_right st3) (es_right s),
        rp_prohibited = ps,
        rp_conflicts = map (conflict_of s d c) (filter (conflict_key s d c) ?keys)\<rparr>"
    using validate_orientation_iff [of d s] o st1 ps st2 st3 open_records_represented [OF v rep1]
    by (simp add: preprocess_references_def Let_def shared_keys_def)
  also have "\<dots> = Inr (preprocessing_normal \<lparr>
        rp_input_left_ids = input_left_ids s, rp_input_right_ids = input_right_ids s,
        rp_pairs = ps_pairs st3, rp_terminal_unpaired = map snd (ps_terminal st3),
        rp_remaining_left = records_in (ps_left st3) (es_left s),
        rp_remaining_right = records_in (ps_right st3) (es_right s),
        rp_prohibited = ps,
        rp_conflicts = map (conflict_of s d c) (filter (conflict_key s d c) ?keys)\<rparr>)"
    by (rule preprocessing_total [OF v(1) rep]) simp_all
  finally show ?thesis by (rule that [OF rep edges])
qed


section \<open>Properties\<close>

primrec pair_id :: "record_side \<Rightarrow> pair_outcome \<Rightarrow> string" where
  "pair_id LEFT p = po_left_id p"
| "pair_id RIGHT p = po_right_id p"

primrec remaining_records :: "record_side \<Rightarrow> preprocessing_result \<Rightarrow> match_record list" where
  "remaining_records LEFT r = rp_remaining_left r"
| "remaining_records RIGHT r = rp_remaining_right r"

text \<open>The fate of a record, read off a result.\<close>

definition result_fate :: "preprocessing_result \<Rightarrow> record_side \<Rightarrow> match_record \<Rightarrow> fate option" where
  "result_fate r side x =
     (case find (\<lambda>p. pair_id side p = mr_observation_id x) (rp_pairs r) of
        Some p \<Rightarrow> Some (Paired (pair_id (other_side side) p) (po_origin p))
      | None \<Rightarrow>
        (case find (\<lambda>u. uo_side u = side \<and> uo_record_id u = mr_observation_id x)
            (rp_terminal_unpaired r) of
           Some u \<Rightarrow> Some (Unpaired (uo_reason u) (uo_related_ids u))
         | None \<Rightarrow> if x \<in> set (remaining_records side r) then Some Remains else None))"

lemma sort_related: "record_fate s d c side x = Unpaired reason related \<Longrightarrow> sort related = related"
  by (auto simp: record_fate_def reference_fate_def Let_def split: if_splits option.splits list.splits)

lemma find_unique:
  assumes "x \<in> set xs" "P x" "\<And>y. y \<in> set xs \<Longrightarrow> P y \<Longrightarrow> y = x"
  shows "find P xs = Some x"
proof (cases "find P xs")
  case None
  with assms(1,2) show ?thesis by (auto simp: find_None_iff)
next
  case (Some y)
  with find_SomeD [OF Some] assms(3) [of y] show ?thesis by simp
qed

lemma represents_result_fate:
  assumes v: "valid_snapshot s"
    and rep: "represents (set (side_ids s LEFT)) (set (side_ids s RIGHT)) (id_fate s d c) st"
    and r: "set (rp_pairs r) = set (ps_pairs st)" "set (rp_terminal_unpaired r) = set (map snd (ps_terminal st))"
      "set (rp_remaining_left r) = set (records_in (ps_left st) (es_left s))"
      "set (rp_remaining_right r) = set (records_in (ps_right st) (es_right s))"
    and x: "x \<in> set (side_records s side)"
  shows "result_fate r side x = Some (record_fate s d c side x)"
proof -
  let ?L = "set (side_ids s LEFT)" and ?R = "set (side_ids s RIGHT)" and ?G = "id_fate s d c"
  let ?i = "mr_observation_id x"
  have om: "open_match ?L ?R ?G st" and pm: "pairs_match ?L ?R ?G (ps_pairs st)"
    and tm: "terminal_match ?L ?R ?G (ps_terminal st)"
    using rep by (simp_all add: represents_def)
  have i: "?i \<in> set (side_ids s side)" using x by (simp add: side_ids_def)
  have fate: "?G side ?i = record_fate s d c side x" by (rule id_fate_record [OF v x])
  have pairs: "p \<in> set (rp_pairs r) \<and> pair_id side p = ?i \<longleftrightarrow>
      ?G side ?i = Paired (pair_id (other_side side) p) (po_origin p) \<and> pair_id side p = ?i \<and>
      p = new_pair (po_left_id p) (po_right_id p) (po_origin p)" for p
  proof -
    have 0: "p \<in> set (rp_pairs r) \<longleftrightarrow> p = new_pair (po_left_id p) (po_right_id p) (po_origin p) \<and>
        new_pair (po_left_id p) (po_right_id p) (po_origin p) \<in> set (ps_pairs st)"
      using pm unfolding r pairs_match_def by metis
    have 1: "new_pair l q origin \<in> set (ps_pairs st) \<longleftrightarrow> l \<in> ?L \<and> ?G LEFT l = Paired q origin"
      and 2: "new_pair l q origin \<in> set (ps_pairs st) \<longleftrightarrow> q \<in> ?R \<and> ?G RIGHT q = Paired l origin" for l q origin
      using pm unfolding pairs_match_def by blast+
    show ?thesis
    proof (cases side)
      case LEFT
      show ?thesis unfolding 0 1 using i LEFT by auto
    next
      case RIGHT
      show ?thesis unfolding 0 2 using i RIGHT by auto
    qed
  qed
  have outs: "u \<in> set (rp_terminal_unpaired r) \<and> uo_side u = side \<and> uo_record_id u = ?i \<longleftrightarrow>
      (\<exists>reason related. ?G side ?i = Unpaired reason related \<and> u = outcome_of side ?i reason related)" for u
  proof -
    have "u \<in> set (rp_terminal_unpaired r) \<longleftrightarrow> (\<exists>side' i' reason related. i' \<in> set (side_ids s side') \<and>
        ?G side' i' = Unpaired reason related \<and> u = outcome_of side' i' reason related)"
      unfolding r terminal_match_outcomes [OF tm valid_snapshot_disjoint [OF v]] fate_outcome_Some
      by simp
    then show ?thesis using i by (metis outcome_of_sel)
  qed
  have rem: "x \<in> set (remaining_records side r) \<longleftrightarrow> ?G side ?i = Remains"
  proof (cases side)
    case LEFT
    have "x \<in> set (rp_remaining_left r) \<longleftrightarrow> ?i \<in> set (ps_left st)"
      using x LEFT unfolding r by (simp add: records_in_def)
    with om i LEFT show ?thesis by (simp add: open_match_def)
  next
    case RIGHT
    have "x \<in> set (rp_remaining_right r) \<longleftrightarrow> ?i \<in> set (ps_right st)"
      using x RIGHT unfolding r by (simp add: records_in_def)
    with om i RIGHT show ?thesis by (simp add: open_match_def)
  qed
  show ?thesis
  proof (cases "record_fate s d c side x")
    case (Paired j origin)
    define p where "p = (case side of LEFT \<Rightarrow> new_pair ?i j origin | RIGHT \<Rightarrow> new_pair j ?i origin)"
    have "find (\<lambda>p. pair_id side p = ?i) (rp_pairs r) = Some p"
    proof (rule find_unique)
      have "p \<in> set (rp_pairs r) \<and> pair_id side p = ?i"
        unfolding pairs using fate Paired by (cases side) (simp_all add: p_def)
      then show "p \<in> set (rp_pairs r)" "pair_id side p = ?i" by simp_all
      fix q assume "q \<in> set (rp_pairs r)" "pair_id side q = ?i"
      then have "?G side ?i = Paired (pair_id (other_side side) q) (po_origin q)" "pair_id side q = ?i"
        "q = new_pair (po_left_id q) (po_right_id q) (po_origin q)" using pairs [of q] by simp_all
      then show "q = p" using fate Paired by (cases side) (simp_all add: p_def)
    qed
    then show ?thesis using Paired by (cases side) (simp_all add: result_fate_def p_def)
  next
    case (Unpaired reason related)
    have "find (\<lambda>p. pair_id side p = ?i) (rp_pairs r) = None"
      unfolding find_None_iff using pairs by (auto simp: fate Unpaired)
    moreover have "find (\<lambda>u. uo_side u = side \<and> uo_record_id u = ?i) (rp_terminal_unpaired r) =
        Some (outcome_of side ?i reason related)"
      by (rule find_unique) (use outs in \<open>auto simp: fate Unpaired\<close>)
    ultimately show ?thesis using sort_related [OF Unpaired] by (simp add: result_fate_def Unpaired outcome_of_def)
  next
    case Remains
    have "find (\<lambda>p. pair_id side p = ?i) (rp_pairs r) = None"
      unfolding find_None_iff using pairs by (auto simp: fate Remains)
    moreover have "find (\<lambda>u. uo_side u = side \<and> uo_record_id u = ?i) (rp_terminal_unpaired r) = None"
      unfolding find_None_iff using outs by (auto simp: fate Remains)
    ultimately show ?thesis using rem by (simp add: result_fate_def fate Remains)
  qed
qed

lemma preprocess_fates:
  assumes "valid_snapshot s" "valid_decisions d" "oriented_decisions s d"
  shows "\<exists>r. preprocess_references s d c = Inr r \<and>
    (\<forall>side. \<forall>x \<in> set (side_records s side). result_fate r side x = Some (record_fate s d c side x))"
  by (rule preprocess_represents [OF assms, of c])
    (auto intro!: represents_result_fate [OF assms(1)] simp: preprocessing_normal_def)

lemma preprocess_error_iff:
  assumes "valid_snapshot s" "valid_decisions d"
  shows "(\<exists>r. preprocess_references s d c = Inr r) \<longleftrightarrow> oriented_decisions s d"
proof
  assume "\<exists>r. preprocess_references s d c = Inr r"
  then show "oriented_decisions s d"
    using validate_orientation_iff [of d s] by (auto simp: preprocess_references_def rbind_Inr_iff)
next
  assume "oriented_decisions s d"
  with assms show "\<exists>r. preprocess_references s d c = Inr r" using preprocess_fates by blast
qed

text \<open>A small snapshot and decisions for the examples.\<close>

definition sample_record :: "string \<Rightarrow> canonical_state \<Rightarrow> string option \<Rightarrow> match_record" where
  "sample_record i state reference = \<lparr>mr_observation_id = i, mr_logical_transaction_id = ''t'',
     mr_source_record_key = ''k'', mr_state = state, mr_instrument = Some ''ACME'',
     mr_side = Some BUY, mr_currency = Some ''USD'', mr_quantity = Some (Dec False 10 0),
     mr_executed_at = Some 63900000000000000, mr_unit_price = Some (Dec False 5 0),
     mr_gross_amount = Some (Dec False 50 0), mr_reference_value = reference,
     mr_shared_reference_alias = None\<rparr>"

definition sample_snapshot :: engine_snapshot where
  "sample_snapshot = \<lparr>es_left_revision_id = ''left'', es_right_revision_id = ''right'',
     es_left = [sample_record ''a1'' SETTLED (Some ''x''), sample_record ''a2'' SETTLED None,
       sample_record ''a3'' CANCELLED None],
     es_right = [sample_record ''b1'' SETTLED (Some ''x''), sample_record ''b2'' SETTLED None]\<rparr>"

definition sample_decisions :: decision_inputs where
  "sample_decisions = \<lparr>
     di_manual_links = [\<lparr>ml_decision_id = ''d1'', ml_revision_id = ''r1'', ml_left_id = ''a2'',
       ml_right_id = ''b2''\<rparr>],
     di_accepted_unmatched = [], di_rejected_relationships = [], di_reserved_identities = []\<rparr>"

lemma sample_snapshot_valid: "valid_snapshot sample_snapshot"
  by (simp add: valid_snapshot_def sample_snapshot_def sample_record_def engine_snapshot_post_init_def
      engine_snapshot_checks_def engine_snapshot_normal_def match_record_post_init_def checks_Inr_iff
      dval_def less_char_def)

lemma sample_decisions_valid: "valid_decisions sample_decisions"
  by (simp add: valid_decisions_def sample_decisions_def decision_inputs_post_init_def Let_def
      decision_inputs_checks_def decision_inputs_normal_def manual_link_post_init_def checks_Inr_iff)

lemma sample_oriented: "oriented_decisions sample_snapshot sample_decisions"
  by (simp add: oriented_decisions_def sample_snapshot_def sample_decisions_def side_ids_def
      sample_record_def rejected_edges_def)

lemmas sample_inputs = sample_snapshot_valid sample_decisions_valid sample_oriented

section \<open>Claims\<close>

text \<open>
  C1. Preprocessing refines its specification. For every constructed snapshot and every
  constructed, correctly oriented set of reviewer decisions, \<open>preprocess_references\<close> returns a
  result, and the fate of each record read off that result is \<open>record_fate\<close>: cancelled records
  are excluded; a manual link whose two ends are eligible pairs them, and one whose counterpart
  is absent or excluded puts the other end under attention; accepted and reserved records are
  kept apart; a reference that is not unique among the records still open makes all its holders
  terminal, and one that is unique on both sides pairs them unless the reviewer rejected the
  relationship; every other record remains for the automatic stages.
\<close>

theorem preprocess_refines_fates:
  assumes "valid_snapshot s" and "valid_decisions d" and "oriented_decisions s d"
  shows "\<exists>r. preprocess_references s d c = Inr r \<and>
    (\<forall>side. \<forall>x \<in> set (side_records s side). result_fate r side x = Some (record_fate s d c side x))"
  by (rule preprocess_fates [OF assms])

theorem preprocess_refines_fates_witness:
  "\<exists>r. preprocess_references sample_snapshot sample_decisions SHARED_MUST_AGREE = Inr r \<and>
     result_fate r LEFT (sample_record ''a1'' SETTLED (Some ''x'')) =
       Some (Paired ''b1'' AUTHORITATIVE_REFERENCE) \<and>
     result_fate r RIGHT (sample_record ''b2'' SETTLED None) = Some (Paired ''a2'' MANUAL) \<and>
     result_fate r LEFT (sample_record ''a3'' CANCELLED None) = Some (Unpaired CANCELLED_EXCLUDED [])"
proof -
  have fates: "record_fate sample_snapshot sample_decisions SHARED_MUST_AGREE LEFT
        (sample_record ''a1'' SETTLED (Some ''x'')) = Paired ''b1'' AUTHORITATIVE_REFERENCE"
    "record_fate sample_snapshot sample_decisions SHARED_MUST_AGREE RIGHT
        (sample_record ''b2'' SETTLED None) = Paired ''a2'' MANUAL"
    "record_fate sample_snapshot sample_decisions SHARED_MUST_AGREE LEFT
        (sample_record ''a3'' CANCELLED None) = Unpaired CANCELLED_EXCLUDED []"
    by (simp_all add: record_fate_def reference_fate_def reference_key_def holders_def open_records_def
        sample_snapshot_def sample_decisions_def sample_record_def linked_to_def eligible_def
        eligible_ids_def single_ids_def rejected_edges_def)
  have members: "sample_record ''a1'' SETTLED (Some ''x'') \<in> set (side_records sample_snapshot LEFT)"
    "sample_record ''b2'' SETTLED None \<in> set (side_records sample_snapshot RIGHT)"
    "sample_record ''a3'' CANCELLED None \<in> set (side_records sample_snapshot LEFT)"
    by (simp_all add: sample_snapshot_def)
  from preprocess_refines_fates [OF sample_inputs, of SHARED_MUST_AGREE] members fates
  show ?thesis by fastforce
qed

text \<open>
  C29. Preprocessing fails exactly on a decision that names a record of the wrong side: on
  constructed inputs it returns a result if and only if every manual link and every rejected
  relationship is oriented. None of the set removals, constructors and partition checks inside
  can raise.
\<close>

theorem preprocess_succeeds_iff_oriented:
  assumes "valid_snapshot s" and "valid_decisions d"
  shows "(\<exists>r. preprocess_references s d c = Inr r) \<longleftrightarrow> oriented_decisions s d"
  by (rule preprocess_error_iff [OF assms])

theorem preprocess_succeeds_iff_oriented_witness:
  "(\<exists>r. preprocess_references sample_snapshot sample_decisions SOURCE_LOCAL_OR_ALIAS = Inr r) \<longleftrightarrow> True"
  using preprocess_succeeds_iff_oriented [OF sample_inputs(1,2)] sample_oriented by simp

text \<open>
  Whatever preprocessing is called with, a result it returns accounts for every input
  record exactly once: the paired, the terminal and the remaining identities of a side are,
  with multiplicities, the input identities of that side.
\<close>

lemma preprocess_partitions_inputs:
  assumes "preprocess_references s d c = Inr r"
  shows "mset (map po_left_id (rp_pairs r)) + mset (unpaired_ids LEFT (rp_terminal_unpaired r)) +
      mset (map mr_observation_id (rp_remaining_left r)) = mset (input_left_ids s) \<and>
    mset (map po_right_id (rp_pairs r)) + mset (unpaired_ids RIGHT (rp_terminal_unpaired r)) +
      mset (map mr_observation_id (rp_remaining_right r)) = mset (input_right_ids s)"
proof -
  from assms obtain q where q: "preprocessing_post_init q = Inr r"
    and ids: "rp_input_left_ids q = input_left_ids s" "rp_input_right_ids q = input_right_ids s"
    by (auto simp: preprocess_references_def rbind_Inr_iff Let_def split: prod.splits)
  then have r: "r = preprocessing_normal q" and "preprocessing_post_init r = Inr r"
    using cv_preprocessing.post_init_idem [OF q] by (auto simp: preprocessing_post_init_def checks_Inr_iff)
  then have chk: "\<forall>chk \<in> set (preprocessing_checks r). \<not> fst chk"
    by (simp add: preprocessing_post_init_def checks_Inr_iff)
  have in_ids: "mset (rp_input_left_ids r) = mset (input_left_ids s)"
    "mset (rp_input_right_ids r) = mset (input_right_ids s)"
    using ids by (simp_all add: r preprocessing_normal_def)
  have split: "mset xs + mset ys + mset zs = mset is"
    if "distinct xs" "distinct ys" "distinct zs" "distinct is" "set xs \<union> set ys \<union> set zs = set is"
      "set xs \<inter> set ys = {}" "set xs \<inter> set zs = {}" "set ys \<inter> set zs = {}"
    for xs ys zs "is" :: "string list"
  proof -
    have "distinct (xs @ ys @ zs)" using that by auto
    moreover have "set (xs @ ys @ zs) = set is" using that(5) by auto
    ultimately have "mset (xs @ ys @ zs) = mset is"
      using that(4) set_eq_iff_mset_eq_distinct by blast
    then show ?thesis by (simp add: add.assoc)
  qed
  show ?thesis
    using chk unfolding preprocessing_checks_iff Let_def in_ids [symmetric]
    by - (elim conjE, rule conjI; rule split; assumption)
qed

end
