(* ===== verification/CandidateFacts.thy ===== *)
theory CandidateFacts
  imports Candidates ReferenceFates
begin

text \<open>
  What candidate generation promises. The binary search for a time window is a filter; the scan
  keeps the degree counters and the edge dictionary consistent and within the limits, adds only
  pairs that a blocking pass relates, and covers every partition it does not stop in;
  incompleteness spreads to exactly the partitions reachable through shared records.
\<close>

declare split_paired_All [simp del] split_paired_Ex [simp del]

section \<open>Windows are found by binary search\<close>

lemma bisect_loop_correct:
  assumes "\<And>i. i < length xs \<Longrightarrow> earlier (xs ! i) \<longleftrightarrow> i < k"
    and "lo \<le> k" "k \<le> hi" "hi \<le> length xs"
  shows "bisect_loop earlier xs lo hi = k"
  using assms
proof (induction earlier xs lo hi rule: bisect_loop.induct)
  case (1 earlier xs lo hi)
  let ?mid = "(lo + hi) div 2"
  show ?case
  proof (cases "lo < hi")
    case False
    with 1 show ?thesis by (simp add: bisect_loop.simps [of earlier xs lo hi])
  next
    case True
    then have mid: "lo \<le> ?mid" "?mid < hi" by auto
    with "1.prems" have "earlier (xs ! ?mid) \<longleftrightarrow> ?mid < k" by auto
    with mid True 1 show ?thesis
      by (cases "?mid < k") (simp_all add: bisect_loop.simps [of earlier xs lo hi])
  qed
qed

lemma sorted_count_prefix:
  assumes "sorted xs" and "\<And>x y. x \<le> y \<Longrightarrow> P y \<Longrightarrow> P x" and "i < length xs"
  shows "P (xs ! i) \<longleftrightarrow> i < length (filter P xs)"
  using assms(1,3)
proof (induction xs arbitrary: i)
  case Nil
  then show ?case by simp
next
  case (Cons x xs)
  show ?case
  proof (cases "P x")
    case True
    then show ?thesis using Cons by (cases i) auto
  next
    case False
    have "\<not> P y" if "y \<in> set (x # xs)" for y
      using that Cons.prems(1) False assms(2) by auto
    then have "filter P (x # xs) = []" by (simp add: filter_empty_conv)
    with \<open>\<And>y. y \<in> set (x # xs) \<Longrightarrow> \<not> P y\<close> Cons.prems(2) show ?thesis
      by (metis list.size(3) not_less_zero nth_mem)
  qed
qed

lemma bisect_count:
  assumes "sorted xs" and "\<And>x y. x \<le> y \<Longrightarrow> earlier y \<Longrightarrow> earlier x"
  shows "bisect_loop earlier xs 0 (length xs) = length (filter earlier xs)"
  using sorted_count_prefix [OF assms] by (intro bisect_loop_correct) simp_all

lemma bisect_left_count: "sorted xs \<Longrightarrow> bisect_left xs x = length (filter (\<lambda>y. y < x) xs)"
  unfolding bisect_left_def by (rule bisect_count) auto

lemma bisect_right_count: "sorted xs \<Longrightarrow> bisect_right xs x = length (filter (\<lambda>y. y \<le> x) xs)"
  unfolding bisect_right_def by (subst bisect_count) (auto simp: not_less)

lemma take_count:
  "sorted (map f rs) \<Longrightarrow> (\<And>x y. x \<le> y \<Longrightarrow> P y \<Longrightarrow> P x) \<Longrightarrow>
   take (length (filter (\<lambda>r. P (f r)) rs)) rs = filter (\<lambda>r. P (f r)) rs"
proof (induction rs)
  case (Cons r rs)
  show ?case
  proof (cases "P (f r)")
    case False
    then have "filter (\<lambda>r. P (f r)) rs = []" using Cons.prems by (auto simp: filter_empty_conv)
    with False show ?thesis by simp
  qed (use Cons in simp)
qed simp

lemma drop_count:
  "sorted (map f rs) \<Longrightarrow> (\<And>x y. x \<le> y \<Longrightarrow> P y \<Longrightarrow> P x) \<Longrightarrow>
   drop (length (filter (\<lambda>r. P (f r)) rs)) rs = filter (\<lambda>r. \<not> P (f r)) rs"
proof (induction rs)
  case (Cons r rs)
  show ?case
  proof (cases "P (f r)")
    case False
    then have "\<forall>r' \<in> set rs. \<not> P (f r')" using Cons.prems by auto
    with False show ?thesis by simp
  qed (use Cons in simp)
qed simp

lemma window_slice:
  assumes "sorted (map f rs)" and "(a :: int) \<le> b"
  shows "drop (bisect_left (map f rs) a) (take (bisect_right (map f rs) b) rs) =
    filter (\<lambda>r. a \<le> f r \<and> f r \<le> b) rs"
proof -
  let ?us = "filter (\<lambda>r. f r \<le> b) rs"
  have "bisect_right (map f rs) b = length ?us" "bisect_left (map f rs) a = length (filter (\<lambda>r. f r < a) rs)"
    using assms(1) by (simp_all add: bisect_right_count bisect_left_count filter_map comp_def)
  moreover have "take (length ?us) rs = ?us"
    by (rule take_count [OF assms(1)]) auto
  moreover have "filter (\<lambda>r. f r < a) rs = filter (\<lambda>r. f r < a) ?us"
    using assms(2) by (auto intro: filter_cong)
  moreover have "drop (length (filter (\<lambda>r. f r < a) ?us)) ?us = filter (\<lambda>r. \<not> f r < a) ?us"
    by (rule drop_count) (use assms(1) in \<open>auto simp: sorted_filter\<close>)
  ultimately show ?thesis by (simp add: not_less conj_commute)
qed

section \<open>Groups\<close>

definition sorted_group :: "blocking_pass \<Rightarrow> match_record list \<Rightarrow> match_record list" where
  "sorted_group p rs =
     (if bp_time_window p \<noteq> None then sort_key (\<lambda>r. (time_of r, mr_observation_id r)) rs
      else sort_key (\<lambda>r. (mr_observation_id r, mr_observation_id r)) rs)"

definition key_group :: "blocking_pass \<Rightarrow> match_record list \<Rightarrow> group_key \<Rightarrow> match_record list" where
  "key_group p records k = sorted_group p (filter (\<lambda>r. record_key p r = Some k) records)"

lemma set_sorted_group [simp]: "set (sorted_group p rs) = set rs"
  by (simp add: sorted_group_def)

lemma distinct_sorted_group [simp]: "distinct (map f (sorted_group p rs)) = distinct (map f rs)"
  by (simp add: sorted_group_def)

lemma sorted_group_eq_Nil [simp]: "sorted_group p rs = [] \<longleftrightarrow> rs = []"
  by (simp add: sorted_group_def)

lemma set_key_group [simp]: "set (key_group p records k) = {r \<in> set records. record_key p r = Some k}"
  by (auto simp: key_group_def)

lemma record_key_time: "record_key p r = Some k \<Longrightarrow> bp_time_window p \<noteq> None \<Longrightarrow> \<exists>t. mr_executed_at r = Some t"
  by (auto simp: record_key_def split: if_splits)

lemma sort_group_total:
  assumes "\<And>r. r \<in> set rs \<Longrightarrow> record_key p r \<noteq> None"
  shows "sort_group p rs = Inr (sorted_group p rs)"
proof (cases "bp_time_window p = None")
  case False
  have "rmap required_time rs = Inr (map time_of rs)"
    using assms record_key_time [OF _ False] by (intro rmap_total) (force simp: required_time_def time_of_def)
  with False show ?thesis by (simp add: sort_group_def sorted_group_def)
qed (simp add: sort_group_def sorted_group_def)

lemma group_fold:
  "map_of (fold (group_record p) rs acc) k =
     (let rs' = filter (\<lambda>r. record_key p r = Some k) rs
      in if rs' = [] then map_of acc k
         else Some ((case map_of acc k of None \<Rightarrow> [] | Some xs \<Rightarrow> xs) @ rs'))"
proof (induction rs arbitrary: acc)
  case Nil
  then show ?case by simp
next
  case (Cons r rs)
  have "map_of (group_record p r acc) k =
      (if record_key p r = Some k
       then Some ((case map_of acc k of None \<Rightarrow> [] | Some xs \<Rightarrow> xs) @ [r]) else map_of acc k)"
    by (auto simp: group_record_def map_of_dict_set split: option.split)
  then show ?case using Cons.IH [of "group_record p r acc"] by (simp add: Let_def)
qed

lemma group_fold_distinct:
  "distinct (dict_keys acc) \<Longrightarrow> distinct (dict_keys (fold (group_record p) rs acc))"
  by (induction rs arbitrary: acc) (auto simp: group_record_def dict_keys_set split: option.split)

definition groups_of :: "blocking_pass \<Rightarrow> match_record list \<Rightarrow> (group_key \<times> match_record list) list" where
  "groups_of p records = map (\<lambda>(k, rs). (k, sorted_group p rs)) (fold (group_record p) records [])"

lemma group_records_total: "group_records records p = Inr (groups_of p records)"
proof -
  let ?d = "fold (group_record p) records []"
  have "(\<lambda>(k, rs). rbind (sort_group p rs) (\<lambda>rs'. Inr (k, rs'))) e = Inr ((\<lambda>(k, rs). (k, sorted_group p rs)) e)"
    if "e \<in> set ?d" for e
  proof -
    obtain k rs where e: "e = (k, rs)" by (cases e)
    have "distinct (map fst ?d)" using group_fold_distinct [of "[]" p records] by (simp add: dict_keys_def)
    with that e have "map_of ?d k = Some rs" by simp
    then have "rs = filter (\<lambda>r. record_key p r = Some k) records"
      by (simp add: group_fold Let_def split: if_splits)
    then have "sort_group p rs = Inr (sorted_group p rs)" by (intro sort_group_total) auto
    with e show ?thesis by simp
  qed
  then show ?thesis unfolding group_records_def groups_of_def by (rule rmap_total)
qed

lemma groups_of_lookup:
  "map_of (groups_of p records) k =
     (if \<exists>r \<in> set records. record_key p r = Some k then Some (key_group p records k) else None)"
proof -
  have "map_of (map (\<lambda>(k, rs). (k, f rs)) d) k = map_option f (map_of d k)"
    for f :: "match_record list \<Rightarrow> match_record list" and d :: "(group_key \<times> match_record list) list"
    by (induction d) auto
  then show ?thesis
    by (auto simp: groups_of_def group_fold Let_def key_group_def filter_empty_conv)
qed

lemma groups_of_keys:
  "k \<in> set (dict_keys (groups_of p records)) \<longleftrightarrow> (\<exists>r \<in> set records. record_key p r = Some k)"
  using dict.lookup_None_iff [of "groups_of p records" k] by (auto simp: groups_of_lookup split: if_splits)

lemma distinct_groups_of: "distinct (dict_keys (groups_of p records))"
proof -
  have "dict_keys (groups_of p records) = dict_keys (fold (group_record p) records [])"
    by (auto simp: dict_keys_def groups_of_def)
  then show ?thesis using group_fold_distinct [of "[]" p records] by (simp add: dict_keys_def)
qed

definition pass_keys :: "blocking_pass \<Rightarrow> match_record list \<Rightarrow> match_record list \<Rightarrow> group_key list" where
  "pass_keys p lefts rights = shared_group_keys (groups_of p lefts) (groups_of p rights)"

lemma pass_keys_iff:
  "k \<in> set (pass_keys p lefts rights) \<longleftrightarrow>
   (\<exists>l \<in> set lefts. record_key p l = Some k) \<and> (\<exists>r \<in> set rights. record_key p r = Some k)"
  by (auto simp: pass_keys_def shared_group_keys_def groups_of_keys)

lemma distinct_pass_keys: "distinct (pass_keys p lefts rights)"
  by (simp add: pass_keys_def shared_group_keys_def distinct_groups_of)

section \<open>Which pairs a pass relates\<close>

definition in_window :: "blocking_pass \<Rightarrow> match_record \<Rightarrow> match_record \<Rightarrow> bool" where
  "in_window p l r \<longleftrightarrow> (case bp_time_window p of None \<Rightarrow> True | Some w \<Rightarrow> \<bar>time_of r - time_of l\<bar> \<le> w)"

definition compatible :: "blocking_pass \<Rightarrow> match_record \<Rightarrow> match_record \<Rightarrow> bool" where
  "compatible p l r \<longleftrightarrow> record_key p l \<noteq> None \<and> record_key p r = record_key p l \<and> in_window p l r"

lemma sorted_times: "sorted (map time_of (sort_key (\<lambda>r. (time_of r, mr_observation_id r)) rs))"
proof -
  have "sorted (map (\<lambda>r. (time_of r, mr_observation_id r)) (sort_key (\<lambda>r. (time_of r, mr_observation_id r)) rs))"
    by simp
  then show ?thesis unfolding sorted_map by (rule sorted_wrt_mono_rel [rotated]) (auto simp: less_eq_prod_def)
qed

text \<open>The right ts of a partition, where the pass has a window.\<close>

definition pass_times :: "blocking_pass \<Rightarrow> match_record list \<Rightarrow> int list" where
  "pass_times p rights = (if bp_time_window p = None then [] else map time_of rights)"

lemma scan_window_Inr:
  assumes "scan_window p (pass_times p (sorted_group p rs)) (sorted_group p rs) l = Inr ws"
    and w: "\<And>w. bp_time_window p = Some w \<Longrightarrow> 0 < w"
  shows "ws = filter (in_window p l) (sorted_group p rs)"
proof (cases "bp_time_window p")
  case None
  with assms(1) show ?thesis by (simp add: scan_window_def in_window_def)
next
  case (Some w)
  with assms(1) obtain t where t: "mr_executed_at l = Some t"
    and ws: "ws = drop (bisect_left (map time_of (sorted_group p rs)) (t - w))
      (take (bisect_right (map time_of (sorted_group p rs)) (t + w)) (sorted_group p rs))"
    by (auto simp: scan_window_def rbind_Inr_iff required_time_def dt_add_Inr pass_times_def split: option.splits)
  have "t - w \<le> t + w" using w [OF Some] by simp
  moreover have "sorted (map time_of (sorted_group p rs))" using sorted_times Some by (simp add: sorted_group_def)
  ultimately have "ws = filter (\<lambda>r. t - w \<le> time_of r \<and> time_of r \<le> t + w) (sorted_group p rs)"
    unfolding ws by (intro window_slice)
  also have "\<dots> = filter (in_window p l) (sorted_group p rs)"
    using t by (auto intro!: filter_cong simp: in_window_def Some time_of_def)
  finally show ?thesis .
qed

text \<open>No window reaches beyond the years 1 and 9999.\<close>

definition window_safe :: "blocking_pass \<Rightarrow> match_record \<Rightarrow> bool" where
  "window_safe p l \<longleftrightarrow> (case (bp_time_window p, mr_executed_at l) of
     (Some w, Some t) \<Rightarrow> valid_datetime (t - w) \<and> valid_datetime (t + w) | _ \<Rightarrow> True)"

lemma scan_window_total:
  assumes "record_key p l \<noteq> None" and "window_safe p l"
  shows "\<exists>ws. scan_window p ts rs l = Inr ws"
proof (cases "bp_time_window p")
  case (Some w)
  with assms obtain t where "mr_executed_at l = Some t" using record_key_time by fastforce
  with Some assms(2) show ?thesis
    by (simp add: scan_window_def required_time_def dt_add_def window_safe_def)
qed (simp add: scan_window_def)

section \<open>The scan\<close>

definition has_reason :: "scan_state \<Rightarrow> string \<times> string \<Rightarrow> string \<Rightarrow> bool" where
  "has_reason st e x \<longleftrightarrow> (\<exists>rs. dict_get (ss_edges st) e = Some rs \<and> x \<in> set rs)"

definition grows :: "scan_state \<Rightarrow> scan_state \<Rightarrow> bool" where
  "grows st st' \<longleftrightarrow> (\<forall>e x. has_reason st e x \<longrightarrow> has_reason st' e x)"

lemma grows_refl [simp]: "grows st st"
  by (simp add: grows_def)

lemma grows_trans: "grows a b \<Longrightarrow> grows b c \<Longrightarrow> grows a c"
  by (simp add: grows_def)

definition degrees_match :: "capacity_limits \<Rightarrow> (string \<times> int) list \<Rightarrow> string list \<Rightarrow> bool" where
  "degrees_match limits d ends \<longleftrightarrow> (\<forall>i. degree d i = int (count_list ends i) \<and>
     degree d i \<le> cl_max_candidates_per_record limits)"

definition scan_inv ::
    "capacity_limits \<Rightarrow> (string \<times> string) list \<Rightarrow> (string \<times> string \<Rightarrow> string \<Rightarrow> bool) \<Rightarrow> scan_state \<Rightarrow> bool"
where
  "scan_inv limits prohibited ok st \<longleftrightarrow>
     distinct (dict_keys (ss_edges st)) \<and>
     (\<forall>e rs. dict_get (ss_edges st) e = Some rs \<longrightarrow> rs \<noteq> [] \<and> e \<notin> set prohibited \<and> (\<forall>x \<in> set rs. ok e x)) \<and>
     degrees_match limits (ss_left_degree st) (map fst (dict_keys (ss_edges st))) \<and>
     degrees_match limits (ss_right_degree st) (map snd (dict_keys (ss_edges st))) \<and>
     int (length (ss_edges st)) \<le> cl_max_run_candidate_edges limits"

lemma degree_dict_set: "degree (dict_set d k v) i = (if i = k then v else degree d i)"
  by (simp add: degree_def map_of_dict_set)

lemma degrees_match_new:
  assumes "degrees_match limits d ends" and "\<not> cl_max_candidates_per_record limits \<le> degree d i"
  shows "degrees_match limits (dict_set d i (degree d i + 1)) (ends @ [i])"
  unfolding degrees_match_def
proof
  fix j
  show "degree (dict_set d i (degree d i + 1)) j = int (count_list (ends @ [i]) j) \<and>
      degree (dict_set d i (degree d i + 1)) j \<le> cl_max_candidates_per_record limits"
    using assms(2) assms(1) [unfolded degrees_match_def, rule_format, of j]
    by (cases "j = i") (simp_all add: degree_dict_set)
qed

lemma length_dict_set: "length (dict_set d k v) = (if k \<in> set (dict_keys d) then length d else Suc (length d))"
  using arg_cong [OF dict_keys_set [of d k v], of length] by (simp add: dict_keys_def split: if_splits)

lemma scan_inv_existing:
  assumes inv: "scan_inv limits prohibited ok st" and e: "dict_get (ss_edges st) e = Some rs" and "ok e x"
  shows "scan_inv limits prohibited ok (st\<lparr>ss_edges := dict_set (ss_edges st) e (set_add x rs)\<rparr>)"
proof -
  have k: "e \<in> set (dict_keys (ss_edges st))" by (rule dict.lookup_SomeD [OF e])
  have "rs \<noteq> [] \<and> e \<notin> set prohibited \<and> (\<forall>x \<in> set rs. ok e x)"
    using inv e unfolding scan_inv_def by blast
  then show ?thesis
    using inv k assms(3)
    by (simp add: scan_inv_def map_of_dict_set dict_keys_set length_dict_set set_add_def)
qed

lemma grows_existing:
  "dict_get (ss_edges st) e = Some rs \<Longrightarrow>
   grows st (st\<lparr>ss_edges := dict_set (ss_edges st) e (set_add x rs)\<rparr>)"
  by (auto simp: grows_def has_reason_def map_of_dict_set set_add_def)

lemma scan_inv_new:
  assumes inv: "scan_inv limits prohibited ok st" and e: "dict_get (ss_edges st) e = None"
    and "ok e x" "e \<notin> set prohibited"
    and "\<not> cl_max_candidates_per_record limits \<le> degree (ss_left_degree st) (fst e)"
      "\<not> cl_max_candidates_per_record limits \<le> degree (ss_right_degree st) (snd e)"
      "\<not> cl_max_run_candidate_edges limits \<le> int (length (ss_edges st))"
  shows "scan_inv limits prohibited ok (new_edge e x st)"
proof -
  have k: "e \<notin> set (dict_keys (ss_edges st))" using e by (simp only: dict.lookup_None_iff) simp
  then have keys: "dict_keys (ss_edges (new_edge e x st)) = dict_keys (ss_edges st) @ [e]"
    by (simp add: new_edge_def dict_keys_set)
  have len: "length (ss_edges (new_edge e x st)) = Suc (length (ss_edges st))"
    using k by (simp add: new_edge_def length_dict_set)
  have get: "dict_get (ss_edges (new_edge e x st)) = (dict_get (ss_edges st))(e \<mapsto> [x])"
    by (simp add: new_edge_def map_of_dict_set)
  have deg: "ss_left_degree (new_edge e x st) = dict_set (ss_left_degree st) (fst e) (degree (ss_left_degree st) (fst e) + 1)"
    "ss_right_degree (new_edge e x st) = dict_set (ss_right_degree st) (snd e) (degree (ss_right_degree st) (snd e) + 1)"
    by (simp_all add: new_edge_def)
  show ?thesis
    using inv k assms(3-) degrees_match_new
    unfolding scan_inv_def keys len get deg map_append list.map
    by (auto split: if_splits)
qed

lemma grows_new: "dict_get (ss_edges st) e = None \<Longrightarrow> grows st (new_edge e x st)"
  by (auto simp: grows_def has_reason_def map_of_dict_set new_edge_def)

lemma has_reason_existing:
  "has_reason (st\<lparr>ss_edges := dict_set (ss_edges st) e (set_add x rs)\<rparr>) e x"
  by (simp add: has_reason_def map_of_dict_set set_add_def)

lemma has_reason_new: "has_reason (new_edge e x st) e x"
  by (simp add: has_reason_def map_of_dict_set new_edge_def)

lemma scan_inv_limited:
  "scan_inv limits prohibited ok st \<Longrightarrow> scan_inv limits prohibited ok (st\<lparr>ss_run_limited := True\<rparr>)"
  by (simp add: scan_inv_def)

lemma grows_limited [simp]: "grows st (st\<lparr>ss_run_limited := b\<rparr>)"
  by (simp add: grows_def has_reason_def)

text \<open>What a scan achieves, whether it stops at a limit or not.\<close>

definition scan_ok ::
    "capacity_limits \<Rightarrow> (string \<times> string) list \<Rightarrow> (string \<times> string \<Rightarrow> string \<Rightarrow> bool) \<Rightarrow> string \<Rightarrow>
     scan_state \<Rightarrow> int \<Rightarrow> (string \<times> string) set \<Rightarrow> candidate_limit option \<times> scan_state \<times> int \<Rightarrow> bool"
where
  "scan_ok limits prohibited ok reason st n es res \<longleftrightarrow>
     (case res of (limit, st', n') \<Rightarrow>
       scan_inv limits prohibited ok st' \<and> grows st st' \<and> n \<le> n' \<and>
       (limit = None \<longrightarrow> (\<forall>e \<in> es. e \<notin> set prohibited \<longrightarrow> has_reason st' e reason)))"

lemma scan_ok_step:
  assumes "grows st st1" and "n \<le> n1" and "has_reason st1 e reason"
    and "scan_ok limits prohibited ok reason st1 n1 es res"
  shows "scan_ok limits prohibited ok reason st n (insert e es) res"
proof -
  obtain limit st' n' where res: "res = (limit, st', n')" by (cases res)
  have "has_reason st' e reason" using assms(3,4) by (auto simp: scan_ok_def res grows_def)
  with assms show ?thesis by (auto simp: scan_ok_def res intro: grows_trans)
qed

lemma scan_rights_ok:
  assumes "scan_inv limits prohibited ok st"
    and "\<And>r. r \<in> set rs \<Longrightarrow> ok (l, mr_observation_id r) reason"
  shows "scan_ok limits prohibited ok reason st n ((\<lambda>r. (l, mr_observation_id r)) ` set rs)
    (scan_rights limits prohibited reason l rs st n)"
  using assms
proof (induction rs arbitrary: st n)
  case Nil
  then show ?case by (simp add: scan_ok_def)
next
  case (Cons r rs)
  let ?e = "(l, mr_observation_id r)" and ?es = "(\<lambda>r. (l, mr_observation_id r)) ` set rs"
  have okr: "\<And>r. r \<in> set rs \<Longrightarrow> ok (l, mr_observation_id r) reason" and ok: "ok ?e reason"
    using Cons.prems(2) by simp_all
  show ?case
  proof (cases "?e \<in> set prohibited")
    case True
    with Cons.IH [OF Cons.prems(1) okr, of n] show ?thesis by (auto simp: scan_ok_def)
  next
    case allowed: False
    show ?thesis
    proof (cases "dict_get (ss_edges st) ?e")
      case (Some reasons)
      let ?st = "st\<lparr>ss_edges := dict_set (ss_edges st) ?e (set_add reason reasons)\<rparr>"
      have "scan_ok limits prohibited ok reason st n (insert ?e ?es)
          (scan_rights limits prohibited reason l rs ?st (n + 1))"
        by (rule scan_ok_step [OF grows_existing [OF Some] _ has_reason_existing
              Cons.IH [OF scan_inv_existing [where ok = ok, OF Cons.prems(1) Some ok] okr]]) simp_all
      with allowed Some show ?thesis by simp
    next
      case None
      show ?thesis
      proof (cases "cl_max_candidates_per_record limits \<le> degree (ss_left_degree st) l \<or>
          cl_max_candidates_per_record limits \<le> degree (ss_right_degree st) (mr_observation_id r)")
        case True
        with allowed None Cons.prems(1) show ?thesis by (auto simp: scan_ok_def)
      next
        case free: False
        show ?thesis
        proof (cases "cl_max_run_candidate_edges limits \<le> int (length (ss_edges st))")
          case True
          with allowed None free scan_inv_limited [OF Cons.prems(1)] show ?thesis
            by (auto simp: scan_ok_def)
        next
          case False
          have "scan_inv limits prohibited ok (new_edge ?e reason st)"
            by (rule scan_inv_new) (use Cons.prems(1) None ok allowed free False in simp_all)
          then have "scan_ok limits prohibited ok reason st n (insert ?e ?es)
              (scan_rights limits prohibited reason l rs (new_edge ?e reason st) (n + 1))"
            by (intro scan_ok_step [OF grows_new [OF None] _ has_reason_new Cons.IH]) (simp_all add: okr)
          with allowed None free False show ?thesis by simp
        qed
      qed
    qed
  qed
qed

lemma scan_ok_seq:
  assumes "scan_ok limits prohibited ok reason st n es (None, st1, n1)"
    and "scan_ok limits prohibited ok reason st1 n1 es' res"
  shows "scan_ok limits prohibited ok reason st n (es \<union> es') res"
proof -
  obtain limit st' n' where res: "res = (limit, st', n')" by (cases res)
  from assms show ?thesis unfolding res scan_ok_def by (auto simp: grows_def)
qed

lemma scan_lefts_ok:
  assumes "scan_inv limits prohibited ok st"
    and "scan_lefts limits prohibited p ts rights ls st n = Inr res"
    and win: "\<And>l ws. l \<in> set ls \<Longrightarrow> scan_window p ts rights l = Inr ws \<Longrightarrow> ws = filter (in_window p l) rights"
    and ok: "\<And>l r. l \<in> set ls \<Longrightarrow> r \<in> set rights \<Longrightarrow> in_window p l r \<Longrightarrow>
      ok (mr_observation_id l, mr_observation_id r) (blocking_reason p)"
  shows "scan_ok limits prohibited ok (blocking_reason p) st n
    {(mr_observation_id l, mr_observation_id r) | l r. l \<in> set ls \<and> r \<in> set rights \<and> in_window p l r} res"
  using assms
proof (induction ls arbitrary: st n)
  case Nil
  then show ?case by (auto simp: scan_ok_def)
next
  case (Cons l ls)
  let ?es = "\<lambda>ls. {(mr_observation_id l, mr_observation_id r) | l r. l \<in> set ls \<and> r \<in> set rights \<and> in_window p l r}"
  from Cons.prems(2) obtain ws where ws: "scan_window p ts rights l = Inr ws"
    by (auto simp: rbind_Inr_iff)
  then have ws_eq: "ws = filter (in_window p l) rights" using Cons.prems(3) by simp
  obtain limit st1 n1 where scan: "scan_rights limits prohibited (blocking_reason p) (mr_observation_id l) ws st n = (limit, st1, n1)"
    by (cases "scan_rights limits prohibited (blocking_reason p) (mr_observation_id l) ws st n")
  have first: "scan_ok limits prohibited ok (blocking_reason p) st n
      ((\<lambda>r. (mr_observation_id l, mr_observation_id r)) ` set ws) (limit, st1, n1)"
  proof -
    have "ok (mr_observation_id l, mr_observation_id r) (blocking_reason p)" if "r \<in> set ws" for r
      using that Cons.prems(4) [of l r] by (simp add: ws_eq)
    from scan_rights_ok [where ok = ok and n = n and rs = ws, OF Cons.prems(1) this] scan show ?thesis by simp
  qed
  show ?case
  proof (cases limit)
    case (Some x)
    with Cons.prems(2) ws scan have "res = (Some x, st1, n1)" by simp
    with first Some show ?thesis by (auto simp: scan_ok_def)
  next
    case None
    with Cons.prems(2) ws scan have rest: "scan_lefts limits prohibited p ts rights ls st1 n1 = Inr res" by simp
    have "scan_inv limits prohibited ok st1" using first by (simp add: scan_ok_def)
    from Cons.IH [OF this rest] Cons.prems(3,4)
    have "scan_ok limits prohibited ok (blocking_reason p) st1 n1 (?es ls) res" by auto
    with scan_ok_seq first None
    have "scan_ok limits prohibited ok (blocking_reason p) st n
      ((\<lambda>r. (mr_observation_id l, mr_observation_id r)) ` set ws \<union> ?es ls) res" by blast
    moreover have "(\<lambda>r. (mr_observation_id l, mr_observation_id r)) ` set ws \<union> ?es ls = ?es (l # ls)"
      unfolding ws_eq by auto
    ultimately show ?thesis by simp
  qed
qed

text \<open>What is known of the partitions and of the state after a list of passes and keys.\<close>

definition related ::
    "blocking_pass list \<Rightarrow> match_record list \<Rightarrow> match_record list \<Rightarrow> string \<times> string \<Rightarrow> string \<Rightarrow> bool"
where
  "related passes lefts rights e x \<longleftrightarrow> (\<exists>p \<in> set passes. \<exists>l \<in> set lefts. \<exists>r \<in> set rights.
     e = (mr_observation_id l, mr_observation_id r) \<and> x = blocking_reason p \<and> compatible p l r)"

definition covered ::
    "(string \<times> string) list \<Rightarrow> match_record list \<Rightarrow> match_record list \<Rightarrow> scan_state \<Rightarrow>
     blocking_pass \<Rightarrow> group_key \<Rightarrow> bool"
where
  "covered prohibited lefts rights st p k \<longleftrightarrow>
     (\<forall>l \<in> set lefts. \<forall>r \<in> set rights. record_key p l = Some k \<longrightarrow> record_key p r = Some k \<longrightarrow>
        in_window p l r \<longrightarrow> (mr_observation_id l, mr_observation_id r) \<notin> set prohibited \<longrightarrow>
        has_reason st (mr_observation_id l, mr_observation_id r) (blocking_reason p))"

definition partition_for ::
    "(string \<Rightarrow> string) \<Rightarrow> match_record list \<Rightarrow> match_record list \<Rightarrow> blocking_pass \<times> group_key \<Rightarrow>
     scan_partition \<Rightarrow> bool"
where
  "partition_for sha256 lefts rights pk part \<longleftrightarrow>
     sp_partition_id part = partition_id sha256 (blocking_reason (fst pk)) (snd pk) \<and>
     sp_blocking_pass part = blocking_reason (fst pk) \<and>
     sp_left_ids part = map mr_observation_id (key_group (fst pk) lefts (snd pk)) \<and>
     sp_right_ids part = map mr_observation_id (key_group (fst pk) rights (snd pk)) \<and>
     0 \<le> sp_enumerated_edge_count part"

definition generation_inv ::
    "(string \<Rightarrow> string) \<Rightarrow> capacity_limits \<Rightarrow> (string \<times> string) list \<Rightarrow> blocking_pass list \<Rightarrow>
     match_record list \<Rightarrow> match_record list \<Rightarrow> (blocking_pass \<times> group_key) list \<Rightarrow>
     scan_partition list \<times> scan_state \<Rightarrow> bool"
where
  "generation_inv sha256 limits prohibited passes lefts rights visited acc \<longleftrightarrow>
     scan_inv limits prohibited (related passes lefts rights) (snd acc) \<and>
     list_all2 (\<lambda>pk part. partition_for sha256 lefts rights pk part \<and>
       (sp_limit_reason part = None \<longrightarrow> covered prohibited lefts rights (snd acc) (fst pk) (snd pk)))
       visited (fst acc)"

lemma covered_grows: "grows st st' \<Longrightarrow> covered prohibited lefts rights st p k \<Longrightarrow> covered prohibited lefts rights st' p k"
  by (auto simp: covered_def grows_def)

lemma generation_inv_extend:
  assumes "generation_inv sha256 limits prohibited passes lefts rights visited (ps, st)"
    and "grows st st'" and "scan_inv limits prohibited (related passes lefts rights) st'"
    and "partition_for sha256 lefts rights (p, k) part"
    and "sp_limit_reason part = None \<Longrightarrow> covered prohibited lefts rights st' p k"
  shows "generation_inv sha256 limits prohibited passes lefts rights (visited @ [(p, k)]) (ps @ [part], st')"
proof -
  have "list_all2 (\<lambda>pk part. partition_for sha256 lefts rights pk part \<and>
       (sp_limit_reason part = None \<longrightarrow> covered prohibited lefts rights st (fst pk) (snd pk))) visited ps"
    using assms(1) by (simp add: generation_inv_def)
  then have "list_all2 (\<lambda>pk part. partition_for sha256 lefts rights pk part \<and>
       (sp_limit_reason part = None \<longrightarrow> covered prohibited lefts rights st' (fst pk) (snd pk))) visited ps"
    by (rule list_all2_mono) (use covered_grows [OF assms(2)] in blast)
  with assms(3-) show ?thesis by (simp add: generation_inv_def list_all2_appendI)
qed

lemma required_times:
  assumes "\<And>r. r \<in> set rs \<Longrightarrow> record_key p r \<noteq> None"
  shows "(if bp_time_window p = None then Inr [] else rmap required_time rs) = Inr (pass_times p rs)"
proof (cases "bp_time_window p = None")
  case False
  have "rmap required_time rs = Inr (map time_of rs)"
    using assms record_key_time [OF _ False] by (intro rmap_total) (force simp: required_time_def time_of_def)
  then show ?thesis unfolding pass_times_def if_not_P [OF False] .
qed (simp add: pass_times_def)

lemma scan_key_cases:
  fixes sha256 :: "string \<Rightarrow> string"
  assumes k: "k \<in> set (pass_keys p lefts rights)"
  defines "gl \<equiv> key_group p lefts k" and "gr \<equiv> key_group p rights k"
  defines "part \<equiv> \<lparr>sp_partition_id = partition_id sha256 (blocking_reason p) k,
               sp_blocking_pass = blocking_reason p, sp_left_ids = map mr_observation_id gl,
               sp_right_ids = map mr_observation_id gr,
               sp_enumerated_edge_count = 0, sp_limit_reason = None\<rparr>"
  shows "scan_key sha256 limits prohibited p (groups_of p lefts) (groups_of p rights) (ps, st) k =
    (if ss_run_limited st then Inr (ps @ [part\<lparr>sp_limit_reason := Some RUN_EDGE_LIMIT\<rparr>], st)
     else rbind (scan_lefts limits prohibited p (pass_times p gr) gr gl st 0)
       (\<lambda>(limit, st', n). Inr (ps @ [part\<lparr>sp_enumerated_edge_count := n, sp_limit_reason := limit\<rparr>], st')))"
proof -
  have "dict_index (groups_of p lefts) k = Inr gl" "dict_index (groups_of p rights) k = Inr gr"
    using k by (simp_all add: dict_index_def groups_of_lookup pass_keys_iff gl_def gr_def)
  moreover have "(if bp_time_window p = None then Inr [] else rmap required_time gr) = Inr (pass_times p gr)"
    by (rule required_times) (simp add: gr_def)
  ultimately show ?thesis by (simp add: scan_key_def part_def Let_def)
qed

lemma scan_key_inv:
  assumes p: "p \<in> set passes" "\<And>w. bp_time_window p = Some w \<Longrightarrow> 0 < w"
    and k: "k \<in> set (pass_keys p lefts rights)"
    and inv: "generation_inv sha256 limits prohibited passes lefts rights visited (ps, st)"
    and scan: "scan_key sha256 limits prohibited p (groups_of p lefts) (groups_of p rights) (ps, st) k = Inr acc"
  shows "generation_inv sha256 limits prohibited passes lefts rights (visited @ [(p, k)]) acc"
proof -
  let ?gl = "key_group p lefts k" and ?gr = "key_group p rights k"
  let ?ok = "related passes lefts rights"
  have si: "scan_inv limits prohibited ?ok st" using inv by (simp add: generation_inv_def)
  show ?thesis
  proof (cases "ss_run_limited st")
    case True
    with scan have acc: "acc = (ps @ [\<lparr>sp_partition_id = partition_id sha256 (blocking_reason p) k,
               sp_blocking_pass = blocking_reason p, sp_left_ids = map mr_observation_id ?gl,
               sp_right_ids = map mr_observation_id ?gr,
               sp_enumerated_edge_count = 0, sp_limit_reason = Some RUN_EDGE_LIMIT\<rparr>], st)"
      by (simp add: scan_key_cases [OF k])
    show ?thesis unfolding acc
      by (rule generation_inv_extend [OF inv grows_refl si]) (simp_all add: partition_for_def)
  next
    case False
    with scan obtain limit st' n where
      lefts: "scan_lefts limits prohibited p (pass_times p ?gr) ?gr ?gl st 0 = Inr (limit, st', n)"
      and acc: "acc = (ps @ [\<lparr>sp_partition_id = partition_id sha256 (blocking_reason p) k,
               sp_blocking_pass = blocking_reason p, sp_left_ids = map mr_observation_id ?gl,
               sp_right_ids = map mr_observation_id ?gr,
               sp_enumerated_edge_count = n, sp_limit_reason = limit\<rparr>], st')"
      by (auto simp: scan_key_cases [OF k] rbind_Inr_iff)
    have "scan_ok limits prohibited ?ok (blocking_reason p) st 0
      {(mr_observation_id l, mr_observation_id r) | l r. l \<in> set ?gl \<and> r \<in> set ?gr \<and> in_window p l r} (limit, st', n)"
    proof (rule scan_lefts_ok [OF si lefts])
      show "ws = filter (in_window p l) ?gr"
        if "scan_window p (pass_times p ?gr) ?gr l = Inr ws" for l ws
        using scan_window_Inr [OF _ p(2)] that unfolding key_group_def by blast
      show "?ok (mr_observation_id l, mr_observation_id r) (blocking_reason p)"
        if "l \<in> set ?gl" "r \<in> set ?gr" "in_window p l r" for l r
        unfolding related_def using that p(1) by (intro bexI [of _ p] bexI [of _ l] bexI [of _ r]) (auto simp: compatible_def)
    qed
    then have "scan_inv limits prohibited ?ok st'" "grows st st'" "0 \<le> n"
      and cov: "limit = None \<Longrightarrow> covered prohibited lefts rights st' p k"
      by (auto simp: scan_ok_def covered_def)
    then show ?thesis unfolding acc
      by (intro generation_inv_extend [OF inv]) (simp_all add: partition_for_def)
  qed
qed

lemma scan_lefts_total:
  assumes "\<And>l. l \<in> set ls \<Longrightarrow> \<exists>ws. scan_window p ts rights l = Inr ws"
  shows "\<exists>res. scan_lefts limits prohibited p ts rights ls st n = Inr res"
  using assms
proof (induction ls arbitrary: st n)
  case (Cons l ls)
  from Cons.prems [of l] obtain ws where "scan_window p ts rights l = Inr ws" by auto
  with Cons show ?case
    by (cases "scan_rights limits prohibited (blocking_reason p) (mr_observation_id l) ws st n")
      (auto split: option.split)
qed simp

lemma scan_key_total:
  assumes k: "k \<in> set (pass_keys p lefts rights)" and safe: "\<And>l. l \<in> set lefts \<Longrightarrow> window_safe p l"
  shows "\<exists>acc'. scan_key sha256 limits prohibited p (groups_of p lefts) (groups_of p rights) acc k = Inr acc'"
proof -
  obtain ps st where acc: "acc = (ps, st)" by (cases acc)
  let ?gl = "key_group p lefts k" and ?gr = "key_group p rights k"
  have "\<exists>res. scan_lefts limits prohibited p (pass_times p ?gr) ?gr ?gl st 0 = Inr res"
    by (rule scan_lefts_total, rule scan_window_total) (use safe in auto)
  then show ?thesis unfolding acc scan_key_cases [OF k] by auto
qed

definition all_keys ::
    "match_record list \<Rightarrow> match_record list \<Rightarrow> blocking_pass list \<Rightarrow> (blocking_pass \<times> group_key) list"
where
  "all_keys lefts rights passes = concat (map (\<lambda>p. map (Pair p) (pass_keys p lefts rights)) passes)"

lemma scan_pass_keys:
  "scan_pass sha256 limits prohibited lefts rights acc p =
   rfold (scan_key sha256 limits prohibited p (groups_of p lefts) (groups_of p rights)) acc
     (pass_keys p lefts rights)"
  by (simp add: scan_pass_def group_records_total pass_keys_def)

lemma scan_pass_inv:
  assumes p: "p \<in> set passes" "\<And>w. bp_time_window p = Some w \<Longrightarrow> 0 < w"
    and inv: "generation_inv sha256 limits prohibited passes lefts rights visited acc"
    and scan: "scan_pass sha256 limits prohibited lefts rights acc p = Inr acc'"
  shows "generation_inv sha256 limits prohibited passes lefts rights
    (visited @ map (Pair p) (pass_keys p lefts rights)) acc'"
proof (rule rfold_inv_prefix [OF scan [unfolded scan_pass_keys],
      where P = "\<lambda>ks. generation_inv sha256 limits prohibited passes lefts rights (visited @ map (Pair p) ks)"])
  show "generation_inv sha256 limits prohibited passes lefts rights (visited @ map (Pair p) []) acc"
    using inv by simp
  fix ys k zs t t'
  assume ks: "pass_keys p lefts rights = ys @ k # zs"
    and t: "generation_inv sha256 limits prohibited passes lefts rights (visited @ map (Pair p) ys) t"
      "scan_key sha256 limits prohibited p (groups_of p lefts) (groups_of p rights) t k = Inr t'"
  obtain ps st where "t = (ps, st)" by (cases t)
  with scan_key_inv [OF p, of k lefts rights sha256 limits prohibited "visited @ map (Pair p) ys" ps st t'] ks t
  show "generation_inv sha256 limits prohibited passes lefts rights (visited @ map (Pair p) (ys @ [k])) t'"
    by simp
qed

lemma scan_passes_inv:
  assumes windows: "\<And>p w. p \<in> set passes \<Longrightarrow> bp_time_window p = Some w \<Longrightarrow> 0 < w"
    and limits: "0 \<le> cl_max_candidates_per_record limits" "0 \<le> cl_max_run_candidate_edges limits"
    and scan: "rfold (scan_pass sha256 limits prohibited lefts rights) ([], initial_scan) passes = Inr acc"
  shows "generation_inv sha256 limits prohibited passes lefts rights (all_keys lefts rights passes) acc"
proof (rule rfold_inv_prefix [OF scan,
      where P = "\<lambda>ps. generation_inv sha256 limits prohibited passes lefts rights (all_keys lefts rights ps)"])
  show "generation_inv sha256 limits prohibited passes lefts rights (all_keys lefts rights []) ([], initial_scan)"
    using limits
    by (simp add: generation_inv_def all_keys_def scan_inv_def initial_scan_def dict_keys_def degrees_match_def degree_def)
  fix ys p zs t t'
  assume "passes = ys @ p # zs"
    and "generation_inv sha256 limits prohibited passes lefts rights (all_keys lefts rights ys) t"
    and "scan_pass sha256 limits prohibited lefts rights t p = Inr t'"
  with scan_pass_inv [of p passes] windows [of p]
  show "generation_inv sha256 limits prohibited passes lefts rights (all_keys lefts rights (ys @ [p])) t'"
    by (simp add: all_keys_def)
qed

lemma scan_passes_total:
  assumes "\<And>p l. p \<in> set passes \<Longrightarrow> l \<in> set lefts \<Longrightarrow> window_safe p l"
  shows "\<exists>acc'. rfold (scan_pass sha256 limits prohibited lefts rights) acc passes = Inr acc'"
proof -
  have "\<exists>acc'. scan_pass sha256 limits prohibited lefts rights acc p = Inr acc' \<and> True"
    if "p \<in> set passes" for p acc
    unfolding scan_pass_keys using scan_key_total [of _ p lefts rights] assms [OF that]
    by (intro rfold_total) auto
  with rfold_total [where P = "\<lambda>_. True" and f = "scan_pass sha256 limits prohibited lefts rights"]
  show ?thesis by blast
qed

section \<open>Propagation computes a closure\<close>

text \<open>
  During the loop every marked partition is visited, every neighbour of a partition that has
  left the queue is visited, and everything but the limit reasons is left alone.
\<close>

definition same_but_limit :: "scan_partition \<Rightarrow> scan_partition \<Rightarrow> bool" where
  "same_but_limit p q \<longleftrightarrow> q = p\<lparr>sp_limit_reason := sp_limit_reason q\<rparr> \<and>
     (sp_limit_reason p \<noteq> None \<longrightarrow> sp_limit_reason q = sp_limit_reason p)"

text \<open>The partitions reachable from those that were stopped, through shared identities.\<close>

definition touches :: "scan_partition list \<Rightarrow> (nat \<times> nat) set" where
  "touches ps = {(k, j). j \<in> set (connected_partitions ps k)}"

definition propagate_inv ::
    "scan_partition list \<Rightarrow> nat set \<Rightarrow> scan_partition list \<Rightarrow> nat list \<Rightarrow> nat list \<Rightarrow> nat set \<Rightarrow> nat set \<Rightarrow> bool"
where
  "propagate_inv origin start ps visited queue exempt spent \<longleftrightarrow>
     list_all2 same_but_limit origin ps \<and>
     set queue \<subseteq> set visited \<and> set visited \<subseteq> {..<length origin} \<and>
     start \<subseteq> set visited \<and> set visited \<subseteq> (touches origin)\<^sup>* `` start \<and>
     set visited \<subseteq> set queue \<union> exempt \<and>
     (\<forall>k < length origin. sp_limit_reason (ps ! k) \<noteq> None \<longleftrightarrow> k \<in> set visited) \<and>
     (\<forall>k \<in> spent. set (connected_partitions origin k) \<subseteq> set visited)"

lemma same_but_limit_refl [simp]: "same_but_limit p p"
  by (simp add: same_but_limit_def)

lemma visit_partition_inv:
  assumes inv: "propagate_inv origin start ps visited queue exempt spent" and k: "k < length origin"
    and reach: "k \<in> (touches origin)\<^sup>* `` start"
    and visit: "visit_partition (ps, visited, queue) k = (ps', visited', queue')"
  shows "propagate_inv origin start ps' visited' queue' exempt spent \<and> set visited' = insert k (set visited)"
proof -
  have len: "length ps = length origin"
    using inv unfolding propagate_inv_def by (metis list_all2_lengthD)
  have marked: "sp_limit_reason (ps ! j) \<noteq> None \<longleftrightarrow> j \<in> set visited" if "j < length origin" for j
    using inv that unfolding propagate_inv_def by blast
  show ?thesis
  proof (cases "k \<in> set visited")
    case True
    then have "ps' = ps \<and> visited' = visited \<and> queue' = queue"
      using visit marked [OF k] by (auto simp: visit_partition_def)
    with inv True show ?thesis by auto
  next
    case False
    then have new: "ps' = ps[k := (ps ! k)\<lparr>sp_limit_reason := Some CONNECTED_TO_INCOMPLETE_PARTITION\<rparr>]"
      "visited' = visited @ [k]" "queue' = queue @ [k]"
      using visit marked [OF k] by (auto simp: visit_partition_def)
    have all2: "list_all2 same_but_limit origin ps" using inv by (simp add: propagate_inv_def)
    then have "same_but_limit (origin ! k) (ps ! k)" using k by (rule list_all2_nthD)
    moreover have "sp_limit_reason (ps ! k) = None" using marked [OF k] False by simp
    ultimately have "same_but_limit (origin ! k) ((ps ! k)\<lparr>sp_limit_reason := Some CONNECTED_TO_INCOMPLETE_PARTITION\<rparr>)"
      by (cases "origin ! k"; cases "ps ! k") (auto simp: same_but_limit_def)
    then have "list_all2 same_but_limit origin ps'"
      using all2 k len by (simp add: new list_all2_conv_all_nth nth_list_update)
    moreover have "\<forall>j < length origin. sp_limit_reason (ps' ! j) \<noteq> None \<longleftrightarrow> j \<in> set visited'"
    proof (intro allI impI)
      fix j assume j: "j < length origin"
      show "sp_limit_reason (ps' ! j) \<noteq> None \<longleftrightarrow> j \<in> set visited'"
        using marked [OF j] j len by (cases "j = k") (simp_all add: new)
    qed
    moreover have "set visited' = insert k (set visited)" "set queue' = insert k (set queue)"
      by (simp_all add: new)
    ultimately show ?thesis using inv k reach unfolding propagate_inv_def by auto
  qed
qed

lemma visit_fold_inv:
  assumes "propagate_inv origin start ps visited queue exempt spent"
    and "\<And>k. k \<in> set ks \<Longrightarrow> k < length origin \<and> k \<in> (touches origin)\<^sup>* `` start"
    and "fold (\<lambda>j acc. visit_partition acc j) ks (ps, visited, queue) = (ps', visited', queue')"
  shows "propagate_inv origin start ps' visited' queue' exempt spent \<and> set visited' = set ks \<union> set visited"
  using assms
proof (induction ks arbitrary: ps visited queue)
  case (Cons k ks)
  obtain ps1 v1 q1 where step: "visit_partition (ps, visited, queue) k = (ps1, v1, q1)"
    by (cases "visit_partition (ps, visited, queue) k")
  have "k < length origin" "k \<in> (touches origin)\<^sup>* `` start" using Cons.prems(2) by simp_all
  from visit_partition_inv [OF Cons.prems(1) this step]
  have inv1: "propagate_inv origin start ps1 v1 q1 exempt spent" and v1: "set v1 = insert k (set visited)" by auto
  have "fold (\<lambda>j acc. visit_partition acc j) ks (ps1, v1, q1) = (ps', visited', queue')"
    using Cons.prems(3) step by simp
  from Cons.IH [OF inv1 _ this] Cons.prems(2) v1 show ?case by auto
qed simp

lemma propagate_loop_inv:
  "propagate_inv origin start ps visited queue spent spent \<Longrightarrow>
   \<exists>visited' spent'. propagate_inv origin start (propagate_loop origin ps visited queue) visited' [] spent' spent'"
proof (induction origin ps visited queue arbitrary: spent rule: propagate_loop.induct)
  case (1 origin ps visited)
  then show ?case by auto
next
  case (2 origin ps visited k queue)
  obtain ps' visited' queue' where step:
    "fold (\<lambda>j acc. visit_partition acc j) (connected_partitions origin k) (ps, visited, queue) = (ps', visited', queue')"
    by (cases "fold (\<lambda>j acc. visit_partition acc j) (connected_partitions origin k) (ps, visited, queue)")
  have start: "propagate_inv origin start ps visited queue (insert k spent) spent"
    using "2.prems" unfolding propagate_inv_def by auto
  have "k \<in> (touches origin)\<^sup>* `` start"
    using "2.prems" unfolding propagate_inv_def by auto
  then have "j < length origin \<and> j \<in> (touches origin)\<^sup>* `` start" if "j \<in> set (connected_partitions origin k)" for j
    using that by (auto simp: connected_partitions_iff touches_def intro: rtrancl_into_rtrancl)
  from visit_fold_inv [OF start this step]
  have inv: "propagate_inv origin start ps' visited' queue' (insert k spent) spent"
    and "set (connected_partitions origin k) \<subseteq> set visited'" by auto
  then have "propagate_inv origin start ps' visited' queue' (insert k spent) (insert k spent)"
    unfolding propagate_inv_def by auto
  from "2.IH" [OF step [symmetric] refl this] step show ?case by simp
qed

text \<open>
  The result: a partition is incomplete exactly if it can be reached from a stopped one, and
  nothing else has changed.
\<close>

lemma propagate_correct:
  defines "result ps \<equiv> propagate_incomplete_partitions ps"
  shows "list_all2 same_but_limit ps (result ps)"
    and "k < length ps \<Longrightarrow> sp_limit_reason (result ps ! k) \<noteq> None \<longleftrightarrow>
      k \<in> (touches ps)\<^sup>* `` {j. j < length ps \<and> sp_limit_reason (ps ! j) \<noteq> None}"
proof -
  let ?start = "{j. j < length ps \<and> sp_limit_reason (ps ! j) \<noteq> None}"
  let ?queue = "filter (\<lambda>k. sp_limit_reason (ps ! k) \<noteq> None) [0..<length ps]"
  have "propagate_inv ps ?start ps ?queue ?queue {} {}"
    by (auto simp: propagate_inv_def list.rel_refl)
  from propagate_loop_inv [OF this] obtain visited spent
    where inv: "propagate_inv ps ?start (result ps) visited [] spent spent"
    unfolding result_def propagate_incomplete_partitions_def Let_def by blast
  then show "list_all2 same_but_limit ps (result ps)" by (simp add: propagate_inv_def)
  have "set visited \<subseteq> spent" "?start \<subseteq> set visited" "\<forall>k \<in> spent. set (connected_partitions ps k) \<subseteq> set visited"
    using inv by (simp_all add: propagate_inv_def)
  then have step: "(k, j) \<in> touches ps \<Longrightarrow> k \<in> set visited \<Longrightarrow> j \<in> set visited" for k j
    by (auto simp: touches_def)
  have cl: "j \<in> set visited" if "(k, j) \<in> (touches ps)\<^sup>*" "k \<in> set visited" for k j
    using that by (induction rule: rtrancl_induct) (auto dest: step)
  have ge: "(touches ps)\<^sup>* `` ?start \<subseteq> set visited"
  proof
    fix x assume "x \<in> (touches ps)\<^sup>* `` ?start"
    then obtain j where "j \<in> ?start" "(j, x) \<in> (touches ps)\<^sup>*" by (rule ImageE)
    with cl \<open>?start \<subseteq> set visited\<close> show "x \<in> set visited" by blast
  qed
  have le: "set visited \<subseteq> (touches ps)\<^sup>* `` ?start"
    and m: "\<forall>k < length ps. sp_limit_reason (result ps ! k) \<noteq> None \<longleftrightarrow> k \<in> set visited"
    using inv unfolding propagate_inv_def by simp_all
  from le ge have "set visited = (touches ps)\<^sup>* `` ?start" by (rule equalityI)
  with m show "k < length ps \<Longrightarrow> sp_limit_reason (result ps ! k) \<noteq> None \<longleftrightarrow> k \<in> (touches ps)\<^sup>* `` ?start"
    by simp
qed

section \<open>The result of generation\<close>

definition valid_policy :: "matching_policy \<Rightarrow> bool" where
  "valid_policy p \<longleftrightarrow> matching_policy_post_init p = Inr p \<and>
     list_all (\<lambda>b. blocking_pass_post_init b = Inr b) (mp_blocking_passes p) \<and>
     list_all (\<lambda>w. feature_weight_post_init w = Inr w) (mp_feature_weights p) \<and>
     numeric_similarity_post_init (mp_quantity_similarity p) = Inr (mp_quantity_similarity p) \<and>
     numeric_similarity_post_init (mp_unit_price_similarity p) = Inr (mp_unit_price_similarity p) \<and>
     numeric_similarity_post_init (mp_gross_amount_similarity p) = Inr (mp_gross_amount_similarity p) \<and>
     timestamp_similarity_post_init (mp_timestamp_similarity p) = Inr (mp_timestamp_similarity p) \<and>
     capacity_limits_post_init (mp_limits p) = Inr (mp_limits p)"

lemma valid_policy_windows:
  "valid_policy policy \<Longrightarrow> p \<in> set (mp_blocking_passes policy) \<Longrightarrow> bp_time_window p = Some w \<Longrightarrow> 0 < w"
  by (fastforce simp: valid_policy_def list_all_iff blocking_pass_post_init_def checks_Inr_iff)

lemma valid_policy_limits:
  "valid_policy policy \<Longrightarrow> 0 < cl_max_candidates_per_record (mp_limits policy) \<and>
    0 < cl_max_run_candidate_edges (mp_limits policy) \<and> 0 < cl_max_component_nodes (mp_limits policy) \<and>
    0 < cl_max_component_edges (mp_limits policy)"
  by (auto simp: valid_policy_def capacity_limits_post_init_def checks_Inr_iff positive_int_def)

definition candidate_of :: "(string \<times> string) \<times> string list \<Rightarrow> candidate_edge" where
  "candidate_of e = \<lparr>cg_left_id = fst (fst e), cg_right_id = snd (fst e),
     cg_blocking_reasons = sorted_set (snd e)\<rparr>"

definition partition_of :: "scan_partition \<Rightarrow> partition_evidence" where
  "partition_of p = \<lparr>pt_partition_id = sp_partition_id p,
     pt_blocking_pass = sp_blocking_pass p, pt_left_ids = sort (sp_left_ids p),
     pt_right_ids = sort (sp_right_ids p), pt_enumerated_edge_count = sp_enumerated_edge_count p,
     pt_complete = (sp_limit_reason p = None), pt_limit_reason = sp_limit_reason p\<rparr>"

lemma evidence_of_Inr: "evidence_of p = Inr e \<Longrightarrow> e = partition_of p"
  by (auto simp: evidence_of_def partition_evidence_post_init_def checks_Inr_iff Let_def partition_of_def)

lemma candidate_edge_Inr:
  "(case e of ((l, r), reasons) \<Rightarrow> candidate_edge_post_init
      \<lparr>cg_left_id = l, cg_right_id = r, cg_blocking_reasons = reasons\<rparr>) = Inr c \<Longrightarrow> c = candidate_of e"
  by (auto simp: candidate_edge_post_init_def checks_Inr_iff Let_def candidate_of_def split: prod.splits)

lemma rmap_Inr_map:
  assumes "rmap f xs = Inr ys" and "\<And>x y. f x = Inr y \<Longrightarrow> y = g x"
  shows "ys = map g xs"
  using assms by (induction xs arbitrary: ys) (auto simp: rbind_Inr_iff)

lemma generate_candidates_Inr:
  assumes "generate_candidates sha256 pre policy = Inr g"
  obtains ps st where
    "rfold (scan_pass sha256 (mp_limits policy) (prohibited_edges pre) (rp_remaining_left pre)
       (rp_remaining_right pre)) ([], initial_scan) (mp_blocking_passes policy) = Inr (ps, st)"
    and "g = generation_normal \<lparr>gr_candidates = map candidate_of (ss_edges st),
       gr_partitions = map partition_of (propagate_incomplete_partitions ps),
       gr_limited_record_ids = remdups (incomplete_members (map partition_of (propagate_incomplete_partitions ps))),
       gr_complete = list_all pt_complete (map partition_of (propagate_incomplete_partitions ps))\<rparr>"
proof -
  from assms obtain ps st evidence edges where
    scan: "rfold (scan_pass sha256 (mp_limits policy) (prohibited_edges pre) (rp_remaining_left pre)
       (rp_remaining_right pre)) ([], initial_scan) (mp_blocking_passes policy) = Inr (ps, st)"
    and ev: "rmap evidence_of (propagate_incomplete_partitions ps) = Inr evidence"
    and ed: "rmap (\<lambda>((l, r), reasons). candidate_edge_post_init
            \<lparr>cg_left_id = l, cg_right_id = r, cg_blocking_reasons = reasons\<rparr>) (ss_edges st) = Inr edges"
    and g: "generation_post_init \<lparr>gr_candidates = edges, gr_partitions = evidence,
        gr_limited_record_ids = remdups (incomplete_members evidence),
        gr_complete = list_all pt_complete evidence\<rparr> = Inr g"
    unfolding generate_candidates_def by (auto simp: rbind_Inr_iff)
  have "evidence = map partition_of (propagate_incomplete_partitions ps)"
    by (rule rmap_Inr_map [OF ev]) (rule evidence_of_Inr)
  moreover have "edges = map candidate_of (ss_edges st)"
    by (rule rmap_Inr_map [OF ed]) (auto simp: split_beta intro: candidate_edge_Inr [unfolded split_beta])
  ultimately show ?thesis
    using that [OF scan] g by (simp add: generation_post_init_def checks_Inr_iff)
qed

lemma generated_candidate_iff:
  assumes "distinct (dict_keys (ss_edges st))"
  shows "c \<in> set (gr_candidates (generation_normal \<lparr>gr_candidates = map candidate_of (ss_edges st),
      gr_partitions = ps, gr_limited_record_ids = ls, gr_complete = b\<rparr>)) \<longleftrightarrow>
    (\<exists>rs. dict_get (ss_edges st) (cg_edge c) = Some rs \<and> cg_blocking_reasons c = sorted_set rs)"
proof -
  have "(e, rs) \<in> set (ss_edges st) \<longleftrightarrow> dict_get (ss_edges st) e = Some rs" for e rs
    using assms by (simp add: dict_keys_def)
  then show ?thesis
    by (cases c) (force simp: generation_normal_def candidate_of_def image_iff)
qed

text \<open>A pass puts two records into one partition when it gives them the same key.\<close>

lemma shared_partition:
  assumes inv: "generation_inv sha256 limits prohibited passes lefts rights (all_keys lefts rights passes) (ps, st)"
    and p: "p \<in> set passes" and l: "l \<in> set lefts" "record_key p l = Some k"
    and r: "r \<in> set rights" "record_key p r = Some k"
  obtains n where "n < length ps" "partition_for sha256 lefts rights (p, k) (ps ! n)"
    "sp_limit_reason (ps ! n) = None \<longrightarrow> covered prohibited lefts rights st p k"
    "mr_observation_id l \<in> set (sp_members (ps ! n))" "mr_observation_id r \<in> set (sp_members (ps ! n))"
proof -
  have "(p, k) \<in> set (all_keys lefts rights passes)"
  proof -
    have "k \<in> set (pass_keys p lefts rights)" using l r by (auto simp: pass_keys_iff)
    with p show ?thesis unfolding all_keys_def by auto
  qed
  then obtain n where n: "n < length (all_keys lefts rights passes)" "all_keys lefts rights passes ! n = (p, k)"
    by (auto simp: in_set_conv_nth)
  have all2: "list_all2 (\<lambda>pk part. partition_for sha256 lefts rights pk part \<and>
       (sp_limit_reason part = None \<longrightarrow> covered prohibited lefts rights st (fst pk) (snd pk)))
       (all_keys lefts rights passes) ps"
    using inv by (simp add: generation_inv_def)
  from list_all2_nthD [OF all2 n(1)] n(2)
  have part: "partition_for sha256 lefts rights (p, k) (ps ! n)"
    "sp_limit_reason (ps ! n) = None \<longrightarrow> covered prohibited lefts rights st p k" by simp_all
  have len: "n < length ps" using n(1) list_all2_lengthD [OF all2] by simp
  have mem: "mr_observation_id l \<in> set (sp_members (ps ! n))" "mr_observation_id r \<in> set (sp_members (ps ! n))"
    using part(1) l r by (auto simp: partition_for_def sp_members_def)
  show ?thesis by (rule that [OF len part mem])
qed

lemma same_but_limit_of: "same_but_limit p q \<Longrightarrow> sp_left_ids q = sp_left_ids p \<and>
    sp_right_ids q = sp_right_ids p \<and> sp_partition_id q = sp_partition_id p \<and>
    sp_blocking_pass q = sp_blocking_pass p \<and> sp_enumerated_edge_count q = sp_enumerated_edge_count p"
  unfolding same_but_limit_def by (cases p; cases q) simp

lemma propagate_nth:
  assumes "k < length ps"
  shows "sp_left_ids (propagate_incomplete_partitions ps ! k) = sp_left_ids (ps ! k)"
    "sp_right_ids (propagate_incomplete_partitions ps ! k) = sp_right_ids (ps ! k)"
    "sp_partition_id (propagate_incomplete_partitions ps ! k) = sp_partition_id (ps ! k)"
    "sp_blocking_pass (propagate_incomplete_partitions ps ! k) = sp_blocking_pass (ps ! k)"
    "sp_enumerated_edge_count (propagate_incomplete_partitions ps ! k) = sp_enumerated_edge_count (ps ! k)"
  using same_but_limit_of [OF list_all2_nthD [OF propagate_correct(1) assms]] by simp_all

lemma length_propagate: "length (propagate_incomplete_partitions ps) = length ps"
  using list_all2_lengthD [OF propagate_correct(1) [of ps]] by simp

lemma incomplete_members_iff:
  "i \<in> set (incomplete_members (map partition_of (propagate_incomplete_partitions ps))) \<longleftrightarrow>
   (\<exists>k < length ps. i \<in> set (sp_members (ps ! k)) \<and> sp_limit_reason (propagate_incomplete_partitions ps ! k) \<noteq> None)"
  (is "?l \<longleftrightarrow> ?r")
proof -
  let ?qs = "propagate_incomplete_partitions ps"
  have "?l \<longleftrightarrow> (\<exists>q \<in> set ?qs. sp_limit_reason q \<noteq> None \<and> i \<in> set (sp_members q))"
    by (auto simp: incomplete_members_def partition_of_def sp_members_def)
  also have "\<dots> \<longleftrightarrow> (\<exists>k < length ps. sp_limit_reason (?qs ! k) \<noteq> None \<and> i \<in> set (sp_members (?qs ! k)))"
    by (metis in_set_conv_nth length_propagate)
  also have "\<dots> \<longleftrightarrow> ?r"
    using propagate_nth [of _ ps] by (auto simp: sp_members_def)
  finally show ?thesis .
qed

text \<open>Incompleteness spreads to every partition that shares a record.\<close>

lemma incomplete_partitions_closed:
  assumes "j < length ps" "k < length ps" "i \<in> set (sp_members (ps ! j))" "i \<in> set (sp_members (ps ! k))"
    and "sp_limit_reason (propagate_incomplete_partitions ps ! j) \<noteq> None"
  shows "sp_limit_reason (propagate_incomplete_partitions ps ! k) \<noteq> None"
proof -
  have "(j, k) \<in> touches ps" using assms by (auto simp: touches_def connected_partitions_iff)
  with assms show ?thesis
    by (auto simp: propagate_correct(2) simp del: not_None_eq intro: rtrancl_into_rtrancl)
qed

lemma incomplete_not_None:
  assumes "n < length ps" and "sp_limit_reason (ps ! n) \<noteq> None"
  shows "sp_limit_reason (propagate_incomplete_partitions ps ! n) \<noteq> None"
  using list_all2_nthD [OF propagate_correct(1) assms(1)] assms(2) by (auto simp: same_but_limit_def)

lemma generate_candidates_facts:
  assumes v: "valid_policy policy" and gen: "generate_candidates sha256 pre policy = Inr g"
  obtains ps st where
    "generation_inv sha256 (mp_limits policy) (prohibited_edges pre) (mp_blocking_passes policy)
      (rp_remaining_left pre) (rp_remaining_right pre)
      (all_keys (rp_remaining_left pre) (rp_remaining_right pre) (mp_blocking_passes policy)) (ps, st)"
    "\<And>c. c \<in> set (gr_candidates g) \<longleftrightarrow>
      (\<exists>rs. dict_get (ss_edges st) (cg_edge c) = Some rs \<and> cg_blocking_reasons c = sorted_set rs)"
    "map cg_edge (gr_candidates g) = sort (dict_keys (ss_edges st))"
    "\<And>i. i \<in> set (gr_limited_record_ids g) \<longleftrightarrow> (\<exists>k < length ps. i \<in> set (sp_members (ps ! k)) \<and>
      sp_limit_reason (propagate_incomplete_partitions ps ! k) \<noteq> None)"
    "gr_partitions g = sort_key pt_partition_id (map partition_of (propagate_incomplete_partitions ps))"
proof -
  from generate_candidates_Inr [OF gen] obtain ps st where
    scan: "rfold (scan_pass sha256 (mp_limits policy) (prohibited_edges pre) (rp_remaining_left pre)
       (rp_remaining_right pre)) ([], initial_scan) (mp_blocking_passes policy) = Inr (ps, st)"
    and g: "g = generation_normal \<lparr>gr_candidates = map candidate_of (ss_edges st),
       gr_partitions = map partition_of (propagate_incomplete_partitions ps),
       gr_limited_record_ids = remdups (incomplete_members (map partition_of (propagate_incomplete_partitions ps))),
       gr_complete = list_all pt_complete (map partition_of (propagate_incomplete_partitions ps))\<rparr>" .
  have inv: "generation_inv sha256 (mp_limits policy) (prohibited_edges pre) (mp_blocking_passes policy)
      (rp_remaining_left pre) (rp_remaining_right pre)
      (all_keys (rp_remaining_left pre) (rp_remaining_right pre) (mp_blocking_passes policy)) (ps, st)"
    using valid_policy_windows [OF v] valid_policy_limits [OF v] by (intro scan_passes_inv [OF _ _ _ scan]) auto
  then have d: "distinct (dict_keys (ss_edges st))" by (simp add: generation_inv_def scan_inv_def)
  have "map cg_edge (gr_candidates g) = sort (dict_keys (ss_edges st))"
    unfolding g generation_normal_def
    by (rule properties_for_sort [symmetric])
      (simp_all add: candidate_of_def dict_keys_def image_mset.compositionality comp_def)
  moreover have "i \<in> set (gr_limited_record_ids g) \<longleftrightarrow> (\<exists>k < length ps. i \<in> set (sp_members (ps ! k)) \<and>
      sp_limit_reason (propagate_incomplete_partitions ps ! k) \<noteq> None)" for i
    using incomplete_members_iff [of i ps] by (simp add: g generation_normal_def)
  ultimately show ?thesis
    using that [OF inv] generated_candidate_iff [OF d] unfolding g by (simp add: generation_normal_def)
qed

lemma generation_sound:
  assumes "valid_policy policy" and "generate_candidates sha256 pre policy = Inr g"
    and "c \<in> set (gr_candidates g)"
  shows "cg_edge c \<notin> set (prohibited_edges pre) \<and> cg_blocking_reasons c \<noteq> [] \<and>
    (\<forall>x \<in> set (cg_blocking_reasons c).
      related (mp_blocking_passes policy) (rp_remaining_left pre) (rp_remaining_right pre) (cg_edge c) x)"
proof (rule generate_candidates_facts [OF assms(1,2)])
  fix ps st
  assume inv: "generation_inv sha256 (mp_limits policy) (prohibited_edges pre) (mp_blocking_passes policy)
      (rp_remaining_left pre) (rp_remaining_right pre)
      (all_keys (rp_remaining_left pre) (rp_remaining_right pre) (mp_blocking_passes policy)) (ps, st)"
    and c: "\<And>c. c \<in> set (gr_candidates g) \<longleftrightarrow>
      (\<exists>rs. dict_get (ss_edges st) (cg_edge c) = Some rs \<and> cg_blocking_reasons c = sorted_set rs)"
  from c assms(3) obtain rs where "dict_get (ss_edges st) (cg_edge c) = Some rs" "cg_blocking_reasons c = sorted_set rs"
    by blast
  with inv show ?thesis by (auto simp: generation_inv_def scan_inv_def)
qed

lemma generation_complete:
  assumes "valid_policy policy" and "generate_candidates sha256 pre policy = Inr g"
    and p: "p \<in> set (mp_blocking_passes policy)"
    and l: "l \<in> set (rp_remaining_left pre)" and r: "r \<in> set (rp_remaining_right pre)"
    and comp: "compatible p l r"
    and allowed: "(mr_observation_id l, mr_observation_id r) \<notin> set (prohibited_edges pre)"
    and unlimited: "mr_observation_id l \<notin> set (gr_limited_record_ids g) \<or>
      mr_observation_id r \<notin> set (gr_limited_record_ids g)"
  shows "\<exists>c \<in> set (gr_candidates g). cg_edge c = (mr_observation_id l, mr_observation_id r) \<and>
    blocking_reason p \<in> set (cg_blocking_reasons c)"
proof (rule generate_candidates_facts [OF assms(1,2)])
  fix ps st
  let ?l = "rp_remaining_left pre" and ?r = "rp_remaining_right pre"
  let ?e = "(mr_observation_id l, mr_observation_id r)"
  assume inv: "generation_inv sha256 (mp_limits policy) (prohibited_edges pre) (mp_blocking_passes policy) ?l ?r
      (all_keys ?l ?r (mp_blocking_passes policy)) (ps, st)"
    and c: "\<And>c. c \<in> set (gr_candidates g) \<longleftrightarrow>
      (\<exists>rs. dict_get (ss_edges st) (cg_edge c) = Some rs \<and> cg_blocking_reasons c = sorted_set rs)"
    and lim: "\<And>i. i \<in> set (gr_limited_record_ids g) \<longleftrightarrow> (\<exists>k < length ps. i \<in> set (sp_members (ps ! k)) \<and>
      sp_limit_reason (propagate_incomplete_partitions ps ! k) \<noteq> None)"
  from comp obtain k where k: "record_key p l = Some k" "record_key p r = Some k" "in_window p l r"
    by (auto simp: compatible_def)
  obtain n where n: "n < length ps" and "partition_for sha256 ?l ?r (p, k) (ps ! n)"
    and cov: "sp_limit_reason (ps ! n) = None \<longrightarrow> covered (prohibited_edges pre) ?l ?r st p k"
    and mem: "mr_observation_id l \<in> set (sp_members (ps ! n))" "mr_observation_id r \<in> set (sp_members (ps ! n))"
    by (rule shared_partition [OF inv p l k(1) r k(2)])
  have "sp_limit_reason (propagate_incomplete_partitions ps ! n) = None"
    using unlimited lim n mem by blast
  then have "sp_limit_reason (ps ! n) = None" using incomplete_not_None [OF n] by blast
  with cov have "covered (prohibited_edges pre) ?l ?r st p k" by blast
  with l r k allowed have "has_reason st ?e (blocking_reason p)" by (auto simp: covered_def)
  then obtain rs where "dict_get (ss_edges st) ?e = Some rs" "blocking_reason p \<in> set rs"
    by (auto simp: has_reason_def)
  then show ?thesis
    using c [of "\<lparr>cg_left_id = mr_observation_id l, cg_right_id = mr_observation_id r,
      cg_blocking_reasons = sorted_set rs\<rparr>"] by force
qed

lemma generation_limited_closed:
  assumes "valid_policy policy" and "generate_candidates sha256 pre policy = Inr g"
    and p: "p \<in> set (mp_blocking_passes policy)"
    and l: "l \<in> set (rp_remaining_left pre)" and r: "r \<in> set (rp_remaining_right pre)"
    and k: "record_key p l \<noteq> None" "record_key p r = record_key p l"
  shows "mr_observation_id l \<in> set (gr_limited_record_ids g) \<longleftrightarrow>
    mr_observation_id r \<in> set (gr_limited_record_ids g)"
proof (rule generate_candidates_facts [OF assms(1,2)])
  fix ps st
  let ?l = "rp_remaining_left pre" and ?r = "rp_remaining_right pre"
  assume inv: "generation_inv sha256 (mp_limits policy) (prohibited_edges pre) (mp_blocking_passes policy) ?l ?r
      (all_keys ?l ?r (mp_blocking_passes policy)) (ps, st)"
    and lim: "\<And>i. i \<in> set (gr_limited_record_ids g) \<longleftrightarrow> (\<exists>k < length ps. i \<in> set (sp_members (ps ! k)) \<and>
      sp_limit_reason (propagate_incomplete_partitions ps ! k) \<noteq> None)"
  from k obtain k where k: "record_key p l = Some k" "record_key p r = Some k" by auto
  obtain n where n: "n < length ps" and "partition_for sha256 ?l ?r (p, k) (ps ! n)"
    and "sp_limit_reason (ps ! n) = None \<longrightarrow> covered (prohibited_edges pre) ?l ?r st p k"
    and mem: "mr_observation_id l \<in> set (sp_members (ps ! n))" "mr_observation_id r \<in> set (sp_members (ps ! n))"
    by (rule shared_partition [OF inv p l k(1) r k(2)])
  show ?thesis unfolding lim using n mem incomplete_partitions_closed [of _ ps n] by blast
qed

lemma degrees_match_bound:
  "degrees_match limits d ends \<Longrightarrow> int (count_list ends i) \<le> cl_max_candidates_per_record limits"
  unfolding degrees_match_def by metis

lemma generation_bounded:
  assumes "valid_policy policy" and "generate_candidates sha256 pre policy = Inr g"
  shows "int (length (gr_candidates g)) \<le> cl_max_run_candidate_edges (mp_limits policy)"
    and "int (count_list (map cg_left_id (gr_candidates g)) i) \<le> cl_max_candidates_per_record (mp_limits policy)"
    and "int (count_list (map cg_right_id (gr_candidates g)) i) \<le> cl_max_candidates_per_record (mp_limits policy)"
proof -
  obtain ps st where inv: "generation_inv sha256 (mp_limits policy) (prohibited_edges pre) (mp_blocking_passes policy)
      (rp_remaining_left pre) (rp_remaining_right pre)
      (all_keys (rp_remaining_left pre) (rp_remaining_right pre) (mp_blocking_passes policy)) (ps, st)"
    and edges: "map cg_edge (gr_candidates g) = sort (dict_keys (ss_edges st))"
    by (rule generate_candidates_facts [OF assms])
  have count: "count_list xs i = count (mset xs) i" for xs :: "string list" by (induction xs) auto
  have "map cg_left_id (gr_candidates g) = map fst (sort (dict_keys (ss_edges st)))"
    "map cg_right_id (gr_candidates g) = map snd (sort (dict_keys (ss_edges st)))"
    using arg_cong [OF edges, of "map fst"] arg_cong [OF edges, of "map snd"] by (simp_all add: comp_def)
  then have sides: "count_list (map cg_left_id (gr_candidates g)) i = count_list (map fst (dict_keys (ss_edges st))) i"
    "count_list (map cg_right_id (gr_candidates g)) i = count_list (map snd (dict_keys (ss_edges st))) i"
    by (simp_all add: count)
  have "length (gr_candidates g) = length (ss_edges st)"
    using arg_cong [OF edges, of length] by (simp add: dict_keys_def)
  with inv sides show "int (length (gr_candidates g)) \<le> cl_max_run_candidate_edges (mp_limits policy)"
    and "int (count_list (map cg_left_id (gr_candidates g)) i) \<le> cl_max_candidates_per_record (mp_limits policy)"
    and "int (count_list (map cg_right_id (gr_candidates g)) i) \<le> cl_max_candidates_per_record (mp_limits policy)"
    by (auto simp: generation_inv_def scan_inv_def dest: degrees_match_bound)
qed

lemma not_blank_blocking_reason [simp]: "\<not> blank (blocking_reason p)"
  by (rule blank_not_visible [of "CHR ''@''"]) (simp_all add: blocking_reason_def)

lemma not_blank_partition_id [simp]: "\<not> blank (partition_id sha256 reason k)"
  by (rule blank_not_visible [of "CHR ''p''"]) (simp_all add: partition_id_def)

definition searchable :: "preprocessing_result \<Rightarrow> bool" where
  "searchable pre \<longleftrightarrow> distinct (map mr_observation_id (rp_remaining_left pre)) \<and>
     distinct (map mr_observation_id (rp_remaining_right pre)) \<and>
     (\<forall>r \<in> set (rp_remaining_left pre) \<union> set (rp_remaining_right pre). \<not> blank (mr_observation_id r))"

text \<open>The partitions a search visits, and what it takes for their identities to differ.\<close>

definition search_partitions :: "preprocessing_result \<Rightarrow> matching_policy \<Rightarrow> (blocking_pass \<times> group_key) list" where
  "search_partitions pre policy =
     all_keys (rp_remaining_left pre) (rp_remaining_right pre) (mp_blocking_passes policy)"

definition distinct_partition_ids :: "(string \<Rightarrow> string) \<Rightarrow> preprocessing_result \<Rightarrow> matching_policy \<Rightarrow> bool" where
  "distinct_partition_ids sha256 pre policy \<longleftrightarrow>
     distinct (map (\<lambda>(p, k). partition_id sha256 (blocking_reason p) k) (search_partitions pre policy))"

definition windows_in_range :: "preprocessing_result \<Rightarrow> matching_policy \<Rightarrow> bool" where
  "windows_in_range pre policy \<longleftrightarrow>
     (\<forall>p \<in> set (mp_blocking_passes policy). \<forall>l \<in> set (rp_remaining_left pre). window_safe p l)"

lemma scan_state_edges:
  assumes "scan_inv limits prohibited (related passes lefts rights) st" "(e, rs) \<in> set (ss_edges st)"
  shows "rs \<noteq> [] \<and> (\<forall>x \<in> set rs. related passes lefts rights e x)"
proof -
  have "distinct (map fst (ss_edges st))" using assms(1) by (simp add: scan_inv_def dict_keys_def)
  with assms(2) have "dict_get (ss_edges st) e = Some rs" by simp
  with assms(1) show ?thesis unfolding scan_inv_def by blast
qed

lemma evidence_of_total:
  assumes pf: "partition_for sha256 lefts rights (p, k) part" and k: "k \<in> set (pass_keys p lefts rights)"
    and d: "distinct (map mr_observation_id lefts)" "distinct (map mr_observation_id rights)"
    and q: "same_but_limit part q"
  shows "evidence_of q = Inr (partition_of q)"
proof -
  have m: "sp_left_ids q = map mr_observation_id (key_group p lefts k)"
    "sp_right_ids q = map mr_observation_id (key_group p rights k)"
    "sp_partition_id q = partition_id sha256 (blocking_reason p) k" "sp_blocking_pass q = blocking_reason p"
    "0 \<le> sp_enumerated_edge_count q"
    using pf same_but_limit_of [OF q] by (simp_all add: partition_for_def)
  have "distinct (map mr_observation_id (key_group p lefts k))" "distinct (map mr_observation_id (key_group p rights k))"
    using d by (simp_all add: key_group_def distinct_map_filter)
  moreover have "key_group p lefts k \<noteq> []" "key_group p rights k \<noteq> []"
    using k by (auto simp: pass_keys_iff key_group_def filter_empty_conv)
  ultimately show ?thesis
    using m unfolding evidence_of_def partition_evidence_post_init_def partition_of_def Let_def
    by (simp add: checks_Inr_iff del: not_None_eq)
qed

lemma generate_candidates_total:
  assumes v: "valid_policy policy" and pre: "searchable pre"
    and ids: "distinct_partition_ids sha256 pre policy" and windows: "windows_in_range pre policy"
  shows "\<exists>g. generate_candidates sha256 pre policy = Inr g"
proof -
  let ?l = "rp_remaining_left pre" and ?r = "rp_remaining_right pre" and ?ps = "mp_blocking_passes policy"
  from scan_passes_total [of ?ps ?l sha256 "mp_limits policy" "prohibited_edges pre" ?r "([], initial_scan)"] windows
  obtain ps st where scan: "rfold (scan_pass sha256 (mp_limits policy) (prohibited_edges pre) ?l ?r)
      ([], initial_scan) ?ps = Inr (ps, st)" by (auto simp: windows_in_range_def)
  have inv: "generation_inv sha256 (mp_limits policy) (prohibited_edges pre) ?ps ?l ?r (all_keys ?l ?r ?ps) (ps, st)"
    using valid_policy_windows [OF v] valid_policy_limits [OF v] by (intro scan_passes_inv [OF _ _ _ scan]) auto
  let ?qs = "propagate_incomplete_partitions ps"
  have all2: "list_all2 (partition_for sha256 ?l ?r) (all_keys ?l ?r ?ps) ps"
    using inv unfolding generation_inv_def by (auto elim!: list_all2_mono)
  have len: "length (all_keys ?l ?r ?ps) = length ps" by (rule list_all2_lengthD [OF all2])
  have "evidence_of q = Inr (partition_of q)" if "q \<in> set ?qs" for q
  proof -
    from that obtain n where n: "n < length ps" "q = ?qs ! n" by (auto simp: in_set_conv_nth length_propagate)
    obtain p k where pk: "all_keys ?l ?r ?ps ! n = (p, k)" by (cases "all_keys ?l ?r ?ps ! n")
    have "(p, k) \<in> set (all_keys ?l ?r ?ps)" using pk n(1) len by (metis nth_mem)
    then have "k \<in> set (pass_keys p ?l ?r)" by (auto simp: all_keys_def)
    moreover have "partition_for sha256 ?l ?r (p, k) (ps ! n)" using list_all2_nthD [OF all2, of n] pk n(1) len by simp
    moreover have "same_but_limit (ps ! n) q" using list_all2_nthD [OF propagate_correct(1) n(1)] n(2) by simp
    ultimately show ?thesis using pre by (intro evidence_of_total [of sha256 ?l ?r p k "ps ! n"]) (simp_all add: searchable_def)
  qed
  then have ev: "rmap evidence_of ?qs = Inr (map partition_of ?qs)" by (rule rmap_total)
  have si: "scan_inv (mp_limits policy) (prohibited_edges pre) (related ?ps ?l ?r) st"
    using inv by (simp add: generation_inv_def)
  have "(case x of ((l, r), reasons) \<Rightarrow> candidate_edge_post_init
      \<lparr>cg_left_id = l, cg_right_id = r, cg_blocking_reasons = reasons\<rparr>) = Inr (candidate_of x)"
    if x: "x \<in> set (ss_edges st)" for x
  proof -
    obtain l r rs where e: "x = ((l, r), rs)" by (metis prod.exhaust)
    from scan_state_edges [OF si] x e have rs: "rs \<noteq> []" "\<forall>y \<in> set rs. related ?ps ?l ?r (l, r) y" by blast+
    then obtain y where "related ?ps ?l ?r (l, r) y" by (cases rs) auto
    then have "\<not> blank l" "\<not> blank r" using pre by (auto simp: related_def searchable_def)
    moreover have "\<not> blank y" if "y \<in> set rs" for y using rs that by (auto simp: related_def)
    ultimately show ?thesis using rs(1)
      by (auto simp: e candidate_edge_post_init_def checks_Inr_iff Let_def candidate_of_def list_ex_iff)
  qed
  then have ed: "rmap (\<lambda>((l, r), reasons). candidate_edge_post_init
      \<lparr>cg_left_id = l, cg_right_id = r, cg_blocking_reasons = reasons\<rparr>) (ss_edges st) = Inr (map candidate_of (ss_edges st))"
    by (intro rmap_total) (simp add: split_beta)
  have "map cg_edge (map candidate_of (ss_edges st)) = dict_keys (ss_edges st)"
    by (auto simp: candidate_of_def dict_keys_def)
  then have edges: "distinct (map cg_edge (map candidate_of (ss_edges st)))"
    using si by (simp add: scan_inv_def)
  have "map pt_partition_id (map partition_of ?qs) =
      map (\<lambda>(p, k). partition_id sha256 (blocking_reason p) k) (all_keys ?l ?r ?ps)"
  proof (rule nth_equalityI)
    show "length (map pt_partition_id (map partition_of ?qs)) =
      length (map (\<lambda>(p, k). partition_id sha256 (blocking_reason p) k) (all_keys ?l ?r ?ps))"
      by (simp add: len length_propagate)
    fix n assume "n < length (map pt_partition_id (map partition_of ?qs))"
    then have n: "n < length ps" by (simp add: length_propagate)
    with list_all2_nthD [OF all2, of n] propagate_nth(3) [OF n] len
    show "map pt_partition_id (map partition_of ?qs) ! n =
      map (\<lambda>(p, k). partition_id sha256 (blocking_reason p) k) (all_keys ?l ?r ?ps) ! n"
      by (simp add: length_propagate partition_of_def partition_for_def split_beta)
  qed
  then have parts: "distinct (map pt_partition_id (map partition_of ?qs))"
    using ids by (simp add: distinct_partition_ids_def search_partitions_def)
  have "generation_post_init \<lparr>gr_candidates = map candidate_of (ss_edges st),
        gr_partitions = map partition_of ?qs,
        gr_limited_record_ids = remdups (incomplete_members (map partition_of ?qs)),
        gr_complete = list_all pt_complete (map partition_of ?qs)\<rparr> =
      Inr (generation_normal \<lparr>gr_candidates = map candidate_of (ss_edges st),
        gr_partitions = map partition_of ?qs,
        gr_limited_record_ids = remdups (incomplete_members (map partition_of ?qs)),
        gr_complete = list_all pt_complete (map partition_of ?qs)\<rparr>)"
    unfolding generation_post_init_def
  proof (rule checks_total)
    fix chk assume "chk \<in> set (generation_checks \<lparr>gr_candidates = map candidate_of (ss_edges st),
        gr_partitions = map partition_of ?qs,
        gr_limited_record_ids = remdups (incomplete_members (map partition_of ?qs)),
        gr_complete = list_all pt_complete (map partition_of ?qs)\<rparr>)"
    with edges parts show "\<not> fst chk"
      by (auto simp: generation_checks_def generation_normal_def incomplete_members_def list_all_iff
          distinct_map_sort_key simp del: map_map)
  qed
  then show ?thesis using scan ev ed by (simp add: generate_candidates_def)
qed

section \<open>Claims\<close>

text \<open>The demonstration policy as it is constructed, and one record on each side.\<close>

definition demo_policy :: matching_policy where
  "demo_policy = matching_policy_normal demo_matching_policy"

definition sample_search :: preprocessing_result where
  "sample_search = \<lparr>rp_input_left_ids = [''a''], rp_input_right_ids = [''b''], rp_pairs = [],
     rp_terminal_unpaired = [], rp_remaining_left = [sample_record ''a'' SETTLED None],
     rp_remaining_right = [sample_record ''b'' SETTLED None], rp_prohibited = [], rp_conflicts = []\<rparr>"

definition sample_generation :: generation_result where
  "sample_generation = \<lparr>
     gr_candidates = [\<lparr>cg_left_id = ''a'', cg_right_id = ''b'',
       cg_blocking_reasons = [''general-compatible-24h@1'']\<rparr>],
     gr_partitions = [\<lparr>pt_partition_id = ''partition-0'', pt_blocking_pass = ''general-compatible-24h@1'',
       pt_left_ids = [''a''], pt_right_ids = [''b''], pt_enumerated_edge_count = 1,
       pt_complete = True, pt_limit_reason = None\<rparr>],
     gr_limited_record_ids = [], gr_complete = True\<rparr>"

lemmas demo_policy_eval = demo_policy_def demo_matching_policy_def matching_policy_normal_def
  demo_blocking_pass_def demo_numeric_def default_limits_def less_char_def

lemma demo_policy_valid: "valid_policy demo_policy"
  by (auto simp: valid_policy_def demo_policy_eval matching_policy_post_init_def matching_policy_checks_def
      all_features_def checks_Inr_iff score_bp_def SCORE_SCALE_BP_def blocking_pass_post_init_def
      feature_weight_post_init_def numeric_similarity_post_init_def timestamp_similarity_post_init_def
      capacity_limits_post_init_def positive_int_def dval_def dec_less_iff dec_of_int_def power_int_def
      us_per_day_def power2_eq_square)

lemmas candidate_eval = generate_candidates_def scan_pass_def group_records_def group_record_def
  record_key_def sort_group_def required_time_def time_of_def shared_group_keys_def dict_keys_def
  scan_key_def dict_index_def initial_scan_def blocking_reason_def scan_window_def prohibited_edges_def
  us_per_day_def dt_add_def valid_datetime_def datetime_max_def bisect_left_def bisect_right_def
  bisect_loop.simps degree_def new_edge_def propagate_incomplete_partitions_def evidence_of_def
  partition_evidence_post_init_def candidate_edge_post_init_def sorted_set_def generation_post_init_def
  generation_normal_def generation_checks_def incomplete_members_def checks.simps required_text_def
  partition_id_def

lemma sample_generation_eval:
  "generate_candidates (\<lambda>_. ''0'') sample_search demo_policy = Inr sample_generation"
  by (simp add: sample_search_def sample_record_def demo_policy_eval candidate_eval sample_generation_def)

text \<open>
  C17. Soundness of blocking. Every candidate edge that generation returns, under whatever limits,
  relates two records that remain after preprocessing and is not a relationship the reviewer
  rejected; it has at least one blocking reason, and each of its reasons is that of a configured
  pass which gives both records the same key and, where it has a time window, has them within it.
\<close>

theorem candidates_sound:
  assumes "valid_policy policy" and "generate_candidates sha256 pre policy = Inr g"
    and "c \<in> set (gr_candidates g)"
  shows "cg_edge c \<notin> set (prohibited_edges pre) \<and> cg_blocking_reasons c \<noteq> [] \<and>
    (\<forall>x \<in> set (cg_blocking_reasons c). \<exists>p \<in> set (mp_blocking_passes policy).
      \<exists>l \<in> set (rp_remaining_left pre). \<exists>r \<in> set (rp_remaining_right pre).
        cg_edge c = (mr_observation_id l, mr_observation_id r) \<and> x = blocking_reason p \<and> compatible p l r)"
  using generation_sound [OF assms] by (simp add: related_def)

theorem candidates_sound_witness:
  "(''a'', ''b'') \<notin> set (prohibited_edges sample_search) \<and>
   (\<exists>l \<in> set (rp_remaining_left sample_search). \<exists>r \<in> set (rp_remaining_right sample_search).
      compatible demo_blocking_pass l r)"
proof -
  let ?c = "\<lparr>cg_left_id = ''a'', cg_right_id = ''b'', cg_blocking_reasons = [''general-compatible-24h@1'']\<rparr>"
  have c: "?c \<in> set (gr_candidates sample_generation)" by (simp add: sample_generation_def)
  from candidates_sound [OF demo_policy_valid sample_generation_eval c]
  show ?thesis by (auto simp: demo_policy_def demo_matching_policy_def matching_policy_normal_def)
qed

text \<open>
  C16. Completeness of blocking despite the limits. If a configured pass relates two remaining
  records, the reviewer has not rejected the relationship, and one of the two is not listed as
  limited, then the pair is a candidate and the pass is among its reasons. So an absent candidate
  of an unlimited record is evidence that no pass relates it.
\<close>

theorem candidates_complete:
  assumes "valid_policy policy" and "generate_candidates sha256 pre policy = Inr g"
    and "p \<in> set (mp_blocking_passes policy)"
    and "l \<in> set (rp_remaining_left pre)" and "r \<in> set (rp_remaining_right pre)"
    and "compatible p l r"
    and "(mr_observation_id l, mr_observation_id r) \<notin> set (prohibited_edges pre)"
    and "mr_observation_id l \<notin> set (gr_limited_record_ids g) \<or>
      mr_observation_id r \<notin> set (gr_limited_record_ids g)"
  shows "\<exists>c \<in> set (gr_candidates g). cg_edge c = (mr_observation_id l, mr_observation_id r) \<and>
    blocking_reason p \<in> set (cg_blocking_reasons c)"
  by (rule generation_complete [OF assms])

theorem candidates_complete_witness:
  "\<exists>c \<in> set (gr_candidates sample_generation). cg_edge c = (''a'', ''b'')"
proof -
  have p: "demo_blocking_pass \<in> set (mp_blocking_passes demo_policy)"
    by (simp add: demo_policy_def demo_matching_policy_def matching_policy_normal_def)
  have members: "sample_record ''a'' SETTLED None \<in> set (rp_remaining_left sample_search)"
    "sample_record ''b'' SETTLED None \<in> set (rp_remaining_right sample_search)"
    by (simp_all add: sample_search_def)
  have comp: "compatible demo_blocking_pass (sample_record ''a'' SETTLED None) (sample_record ''b'' SETTLED None)"
    by (simp add: compatible_def record_key_def in_window_def demo_blocking_pass_def sample_record_def
        us_per_day_def time_of_def)
  from candidates_complete [OF demo_policy_valid sample_generation_eval p members comp]
  show ?thesis by (auto simp: sample_generation_def prohibited_edges_def sample_search_def sample_record_def)
qed

text \<open>
  C30. Limits are contagious. A remaining left record and a remaining right record to which a
  configured pass gives the same key are either both listed as limited or both not: a partition the search stopped in makes every
  partition incomplete that shares a record with it. The two records must be of different sides: two
  left records share a key without being in one partition where no right record has it.
\<close>

theorem limited_records_closed:
  assumes "valid_policy policy" and "generate_candidates sha256 pre policy = Inr g"
    and "p \<in> set (mp_blocking_passes policy)"
    and "l \<in> set (rp_remaining_left pre)" and "r \<in> set (rp_remaining_right pre)"
    and "record_key p l \<noteq> None" and "record_key p r = record_key p l"
  shows "mr_observation_id l \<in> set (gr_limited_record_ids g) \<longleftrightarrow>
    mr_observation_id r \<in> set (gr_limited_record_ids g)"
  by (rule generation_limited_closed [OF assms])

theorem limited_records_closed_witness:
  "''a'' \<in> set (gr_limited_record_ids sample_generation) \<longleftrightarrow> ''b'' \<in> set (gr_limited_record_ids sample_generation)"
proof -
  have p: "demo_blocking_pass \<in> set (mp_blocking_passes demo_policy)"
    by (simp add: demo_policy_def demo_matching_policy_def matching_policy_normal_def)
  have members: "sample_record ''a'' SETTLED None \<in> set (rp_remaining_left sample_search)"
    "sample_record ''b'' SETTLED None \<in> set (rp_remaining_right sample_search)"
    by (simp_all add: sample_search_def)
  have keys: "record_key demo_blocking_pass (sample_record ''a'' SETTLED None) \<noteq> None"
    "record_key demo_blocking_pass (sample_record ''b'' SETTLED None) =
     record_key demo_blocking_pass (sample_record ''a'' SETTLED None)"
    by (simp_all add: record_key_def demo_blocking_pass_def sample_record_def)
  from limited_records_closed [OF demo_policy_valid sample_generation_eval p members keys]
  show ?thesis by (simp add: sample_record_def)
qed

text \<open>
  C31. Retained work is bounded: generation never returns more edges than the run limit, nor more
  edges at one record than the limit per record.
\<close>

theorem candidates_bounded:
  assumes "valid_policy policy" and "generate_candidates sha256 pre policy = Inr g"
  shows "int (length (gr_candidates g)) \<le> cl_max_run_candidate_edges (mp_limits policy) \<and>
    int (count_list (map cg_left_id (gr_candidates g)) i) \<le> cl_max_candidates_per_record (mp_limits policy) \<and>
    int (count_list (map cg_right_id (gr_candidates g)) i) \<le> cl_max_candidates_per_record (mp_limits policy)"
  using generation_bounded [OF assms] by simp

theorem candidates_bounded_witness:
  "int (length (gr_candidates sample_generation)) \<le> 250000 \<and>
   int (count_list (map cg_left_id (gr_candidates sample_generation)) ''a'') \<le> 200"
  using candidates_bounded [OF demo_policy_valid sample_generation_eval, of "''a''"]
  by (simp add: demo_policy_def demo_matching_policy_def matching_policy_normal_def default_limits_def)

text \<open>
  C32. Generation cannot fail on constructed inputs: for a constructed policy, remaining records
  with distinct identities, time windows that stay within the years 1 to 9999, and partitions
  with distinct identities, it returns a result. In particular no record without a timestamp
  reaches a timed partition and no constructor inside raises.
\<close>

theorem candidates_total:
  assumes "valid_policy policy" and "searchable pre"
    and "distinct_partition_ids sha256 pre policy" and "windows_in_range pre policy"
  shows "\<exists>g. generate_candidates sha256 pre policy = Inr g"
  by (rule generate_candidates_total [OF assms])

lemma sample_search_ok:
  "searchable sample_search" "distinct_partition_ids (\<lambda>_. ''0'') sample_search demo_policy"
  "windows_in_range sample_search demo_policy"
  by (simp_all add: searchable_def distinct_partition_ids_def windows_in_range_def window_safe_def
      search_partitions_def all_keys_def pass_keys_def groups_of_def group_record_def record_key_def
      shared_group_keys_def dict_keys_def sorted_group_def sample_search_def sample_record_def
      demo_policy_def demo_matching_policy_def matching_policy_normal_def demo_blocking_pass_def
      valid_datetime_def datetime_max_def us_per_day_def)

theorem candidates_total_witness:
  "\<exists>g. generate_candidates (\<lambda>_. ''0'') sample_search demo_policy = Inr g"
  by (rule candidates_total [OF demo_policy_valid sample_search_ok])

end
