(* ===== verification/ScoringFacts.thy ===== *)
theory ScoringFacts
  imports Scoring CandidateFacts
begin

text \<open>
  What scoring guarantees for the values of a constructed policy: every similarity and every
  contribution is computed, the contribution of a feature lies between zero and its weight, and
  the evidence of a candidate is always constructible.
\<close>

section \<open>Similarity factors\<close>

lemma dec_le_one_fix: "dval d \<le> 1 \<Longrightarrow> dval (dec_fix score_precision d) \<le> 1"
  using dec_fix_le_nat [of score_precision d 1] by (simp add: score_precision_def)

lemma linear_similarity_bounds:
  assumes "0 \<le> dval d" and "0 \<le> dval b"
  shows "\<exists>f. linear_similarity d b = Inr f \<and> 0 \<le> dval f \<and> dval f \<le> 1"
proof (cases "dec_is_zero b")
  case True
  then show ?thesis by (auto simp: linear_similarity_def dec_value)
next
  case False
  then obtain q where q: "dec_div score_precision d b = Inr q"
    using dec_div_total [of b score_precision d] by (auto simp: dec_is_zero_def)
  with assms have "0 \<le> dval q"
    using dec_div_nonneg [of score_precision d b q] by (simp add: score_precision_def)
  then have "dval (dec_sub score_precision (dec_of_int 1) q) \<le> 1"
    by (simp add: dec_sub_def dec_add_def dec_le_one_fix dval_exact_add dec_value)
  with False q show ?thesis by (auto simp: linear_similarity_def dec_value)
qed

lemma scaled_bp_bounds:
  assumes "0 \<le> w" and "w \<le> SCORE_SCALE_BP" and "0 \<le> dval f" and "dval f \<le> 1"
  shows "\<exists>i. scaled_bp w f = Inr i \<and> 0 \<le> i \<and> i \<le> w"
proof -
  obtain n where w: "w = int n" using assms(1) nonneg_int_cases by blast
  have v: "dval (exact_mul (dec_of_int w) f) = of_nat n * dval f"
    by (simp add: dval_exact_mul dec_value w)
  have "dval (exact_mul (dec_of_int w) f) \<le> of_nat n"
    using mult_left_mono [OF assms(4), of "of_nat n"] by (simp add: v)
  moreover have "n < 10 ^ score_precision"
    using assms(2) w by (simp add: SCORE_SCALE_BP_def score_precision_def)
  ultimately have "dval (dec_mul score_precision (dec_of_int w) f) \<le> of_nat n"
    unfolding dec_mul_def by (intro dec_fix_le_nat) (simp_all add: score_precision_def)
  moreover have "0 \<le> dval (dec_mul score_precision (dec_of_int w) f)"
    unfolding dec_mul_def using assms(3) v by (intro dec_fix_nonneg) (simp_all add: score_precision_def)
  ultimately show ?thesis
    using dec_quantize_int_bounds [of "dec_mul score_precision (dec_of_int w) f" n score_precision]
      \<open>n < 10 ^ score_precision\<close> by (simp add: scaled_bp_def quantize_bp_def w score_precision_def)
qed

lemma timedelta_seconds_nonneg:
  assumes "0 \<le> d"
  shows "\<exists>s. timedelta_seconds d = Inr s \<and> 0 \<le> dval s"
proof -
  obtain q where q: "dec_div score_precision (dec_of_int (d mod us_per_second)) (dec_of_int 1000000) = Inr q"
    using dec_div_total [of "dec_of_int 1000000" score_precision] by (auto simp: dec_of_int_def)
  then have "0 \<le> dval q"
    using dec_div_nonneg [OF q] by (simp add: dec_value us_per_second_def score_precision_def)
  moreover have "0 \<le> d div us_per_second"
    using assms by (simp add: us_per_second_def pos_imp_zdiv_nonneg_iff)
  ultimately have "0 \<le> dval (dec_add score_precision (dec_of_int (d div us_per_second)) q)"
    unfolding dec_add_def by (intro dec_fix_nonneg) (simp_all add: dval_exact_add dec_value score_precision_def)
  with q show ?thesis by (simp add: timedelta_seconds_def)
qed

section \<open>Feature evidence\<close>

text \<open>What is known of the evidence of a feature with a given weight.\<close>

definition fair_evidence :: "match_feature \<Rightarrow> int \<Rightarrow> feature_evidence \<Rightarrow> bool" where
  "fair_evidence feature weight e \<longleftrightarrow> fe_feature e = feature \<and> fe_weight_bp e = weight \<and>
     0 \<le> fe_similarity_bp e \<and> fe_similarity_bp e \<le> SCORE_SCALE_BP \<and>
     0 \<le> fe_contribution_bp e \<and> fe_contribution_bp e \<le> weight"

definition valid_similarity :: "numeric_similarity \<Rightarrow> bool" where
  "valid_similarity p \<longleftrightarrow> numeric_similarity_post_init p = Inr p"

lemma valid_similarity_bands:
  "valid_similarity p \<Longrightarrow> 0 \<le> dval (ns_absolute_band p) \<and> 0 \<le> dval (ns_relative_band p)"
  by (simp add: valid_similarity_def numeric_similarity_post_init_def checks_Inr_iff not_less)

lemma feature_name_visible [simp]: "\<not> blank (feature_name f @ s)"
  by (cases f) simp_all

lemma difference_negative_iff: "difference_negative (DDecimal d) \<longleftrightarrow> dval d < 0"
  by (metis difference_negative.simps(1) dval_nonneg_iff not_le)

lemma none_or_map [simp]:
  "none_or is_decimal (map_option SDecimal d)" "none_or is_datetime (map_option SDatetime t)"
  by (cases d; simp add: none_or_def) (cases t; simp add: none_or_def)

lemma none_or_None [simp]: "none_or P None"
  by (simp add: none_or_def)

lemma missing_evidence_fair:
  assumes "0 \<le> w" "w \<le> SCORE_SCALE_BP" and "\<not> blank rule" and "\<not> difference_negative band"
    and "left = None \<or> right = None"
    and "if feature = TIMESTAMP then none_or is_datetime left \<and> none_or is_datetime right \<and> is_delta band
         else none_or is_decimal left \<and> none_or is_decimal right \<and> \<not> is_delta band"
  shows "\<exists>e. missing_evidence feature left right band w rule = Inr e \<and> fair_evidence feature w e"
proof -
  let ?e = "\<lparr>fe_feature = feature, fe_left_value = left, fe_right_value = right, fe_difference = None,
      fe_band = band, fe_present = False, fe_similarity_bp = 0, fe_weight_bp = w,
      fe_contribution_bp = 0, fe_rule = rule\<rparr>"
  have "feature_evidence_post_init ?e = Inr ?e"
    using assms(1,2,3,4,5) assms(6) [unfolded if_bool_eq_conj]
    by (cases "feature = TIMESTAMP")
      (simp_all add: feature_evidence_post_init_def Let_def checks_Inr_iff score_bp_def SCORE_SCALE_BP_def)
  then show ?thesis using assms(1) by (simp add: missing_evidence_def fair_evidence_def SCORE_SCALE_BP_def)
qed

lemma numeric_band_nonneg: "valid_similarity p \<Longrightarrow> 0 \<le> dval (numeric_band p l r)"
  using valid_similarity_bands [of p] by (auto simp: numeric_band_def dec_value le_max_iff_disj)

lemma numeric_evidence_fair:
  assumes p: "valid_similarity p" and w: "0 \<le> w" "w \<le> SCORE_SCALE_BP" and f: "feature \<noteq> TIMESTAMP"
  shows "\<exists>e. numeric_evidence feature left right p w = Inr e \<and> fair_evidence feature w e"
proof (cases "left = None \<or> right = None")
  case True
  have "\<exists>e. missing_evidence feature (map_option SDecimal left) (map_option SDecimal right)
      (DDecimal (ns_absolute_band p)) w (feature_name feature @ s) = Inr e \<and> fair_evidence feature w e" for s
    using True f valid_similarity_bands [OF p] 
    by (intro missing_evidence_fair) (auto simp: w difference_negative_iff not_less simp del: difference_negative.simps)
  with True show ?thesis by (cases left; cases right) (simp_all add: numeric_evidence_def)
next
  case False
  then obtain l r where lr: "left = Some l" "right = Some r" by auto
  let ?d = "numeric_difference l r" and ?b = "numeric_band p l r"
  have d: "0 \<le> dval ?d" by (simp add: numeric_difference_def dec_abs_nonneg score_precision_def)
  have b: "0 \<le> dval ?b" by (rule numeric_band_nonneg [OF p])
  obtain k where k: "linear_similarity ?d ?b = Inr k" "0 \<le> dval k" "dval k \<le> 1"
    using linear_similarity_bounds [OF d b] by blast
  obtain s where s: "scaled_bp SCORE_SCALE_BP k = Inr s" "0 \<le> s" "s \<le> SCORE_SCALE_BP"
    using scaled_bp_bounds [OF _ order_refl k(2,3)] by (auto simp: SCORE_SCALE_BP_def)
  obtain c where c: "scaled_bp w k = Inr c" "0 \<le> c" "c \<le> w"
    using scaled_bp_bounds [OF w k(2,3)] by blast
  show ?thesis
    using f w s c b by (simp add: numeric_evidence_def lr k feature_evidence_post_init_def Let_def checks_Inr_iff
        score_bp_def none_or_def fair_evidence_def difference_negative_iff del: difference_negative.simps)
qed

lemma timestamp_evidence_fair:
  assumes w: "0 \<le> w" "w \<le> SCORE_SCALE_BP" and band: "0 \<le> band"
  shows "\<exists>e. timestamp_evidence left right band w = Inr e \<and> fair_evidence TIMESTAMP w e"
proof (cases "left = None \<or> right = None")
  case True
  have "\<exists>e. missing_evidence TIMESTAMP (map_option SDatetime left) (map_option SDatetime right)
      (DDelta band) w (CHR ''T'' # s) = Inr e \<and> fair_evidence TIMESTAMP w e" for s
    using True band by (intro missing_evidence_fair) (auto simp: w)
  with True show ?thesis by (cases left; cases right) (simp_all add: timestamp_evidence_def)
next
  case False
  then obtain l r where lr: "left = Some l" "right = Some r" by auto
  obtain d where d: "timedelta_seconds \<bar>r - l\<bar> = Inr d" "0 \<le> dval d"
    using timedelta_seconds_nonneg [of "\<bar>r - l\<bar>"] by auto
  obtain b where b: "timedelta_seconds band = Inr b" "0 \<le> dval b"
    using timedelta_seconds_nonneg [OF band] by auto
  obtain k where k: "linear_similarity d b = Inr k" "0 \<le> dval k" "dval k \<le> 1"
    using linear_similarity_bounds [OF d(2) b(2)] by blast
  obtain s where s: "scaled_bp SCORE_SCALE_BP k = Inr s" "0 \<le> s" "s \<le> SCORE_SCALE_BP"
    using scaled_bp_bounds [OF _ order_refl k(2,3)] by (auto simp: SCORE_SCALE_BP_def)
  obtain c where c: "scaled_bp w k = Inr c" "0 \<le> c" "c \<le> w"
    using scaled_bp_bounds [OF w k(2,3)] by blast
  show ?thesis
    using w s c band by (simp add: timestamp_evidence_def lr d b k feature_evidence_post_init_def Let_def
        checks_Inr_iff score_bp_def none_or_def fair_evidence_def)
qed

section \<open>Candidates\<close>

text \<open>A constructed policy weights the four features in the order of their names.\<close>

lemma valid_policy_weights:
  assumes "valid_policy policy"
  obtains g q t u where "mp_feature_weights policy =
      [\<lparr>fw_feature = GROSS_AMOUNT, fw_weight_bp = g\<rparr>, \<lparr>fw_feature = QUANTITY, fw_weight_bp = q\<rparr>,
       \<lparr>fw_feature = TIMESTAMP, fw_weight_bp = t\<rparr>, \<lparr>fw_feature = UNIT_PRICE, fw_weight_bp = u\<rparr>]"
    and "g + q + t + u = SCORE_SCALE_BP" and "0 \<le> g" "0 \<le> q" "0 \<le> t" "0 \<le> u"
proof -
  let ?ws = "mp_feature_weights policy" and ?k = "\<lambda>x. feature_value (fw_feature x)"
  have ok: "matching_policy_post_init policy = Inr policy" and nonneg: "\<forall>w \<in> set ?ws. 0 \<le> fw_weight_bp w"
    using assms by (auto simp: valid_policy_def list_all_iff feature_weight_post_init_def checks_Inr_iff score_bp_def)
  then have normal: "matching_policy_normal policy = policy" and chk: "\<forall>c \<in> set (matching_policy_checks policy). \<not> fst c"
    by (auto simp: matching_policy_post_init_def checks_Inr_iff)
  have sorted: "sorted (map ?k ?ws)" using arg_cong [OF normal, of mp_feature_weights]
    by (simp add: matching_policy_normal_def) (metis sorted_sort_key)
  have "distinct (map ?k ?ws)" and set: "set (map ?k ?ws) = set (map feature_value all_features)"
    and sum: "sum_list (map fw_weight_bp ?ws) = SCORE_SCALE_BP"
    using chk by (simp_all add: matching_policy_checks_def normal Let_def)
  let ?names = "map feature_value [GROSS_AMOUNT, QUANTITY, TIMESTAMP, UNIT_PRICE]"
  have "sorted ?names" by (simp add: less_char_def less_eq_char_def)
  moreover have "distinct ?names" by simp
  moreover have "set (map ?k ?ws) = set ?names" unfolding set by (auto simp: all_features_def)
  ultimately have "map ?k ?ws = ?names"
    using sorted \<open>distinct (map ?k ?ws)\<close> by (intro sorted_distinct_set_unique)
  then have names: "map feature_value (map fw_feature ?ws) = ?names" by (simp add: comp_def)
  have "map fw_feature ?ws = [GROSS_AMOUNT, QUANTITY, TIMESTAMP, UNIT_PRICE]"
    by (rule map_injective [OF names]) (simp add: inj_def)
  then obtain a b c d where w: "?ws = [a, b, c, d]" and f: "fw_feature a = GROSS_AMOUNT"
    "fw_feature b = QUANTITY" "fw_feature c = TIMESTAMP" "fw_feature d = UNIT_PRICE"
    by (auto simp: Cons_eq_map_conv map_eq_Cons_conv)
  show thesis
  proof (rule that)
    show "?ws = [\<lparr>fw_feature = GROSS_AMOUNT, fw_weight_bp = fw_weight_bp a\<rparr>,
        \<lparr>fw_feature = QUANTITY, fw_weight_bp = fw_weight_bp b\<rparr>,
        \<lparr>fw_feature = TIMESTAMP, fw_weight_bp = fw_weight_bp c\<rparr>,
        \<lparr>fw_feature = UNIT_PRICE, fw_weight_bp = fw_weight_bp d\<rparr>]"
      unfolding w using f by simp
  qed (use sum nonneg w in simp_all)
qed

definition weight_bp :: "matching_policy \<Rightarrow> match_feature \<Rightarrow> int" where
  "weight_bp policy f = (case weight_of policy f of Inl _ \<Rightarrow> 0 | Inr w \<Rightarrow> w)"

lemma weight_of_valid:
  assumes "valid_policy policy"
  shows "weight_of policy f = Inr (weight_bp policy f) \<and> 0 \<le> weight_bp policy f \<and> weight_bp policy f \<le> SCORE_SCALE_BP"
    and "weight_bp policy QUANTITY + weight_bp policy TIMESTAMP + weight_bp policy UNIT_PRICE +
      weight_bp policy GROSS_AMOUNT = SCORE_SCALE_BP"
proof -
  from assms obtain g q t u where ws: "mp_feature_weights policy =
      [\<lparr>fw_feature = GROSS_AMOUNT, fw_weight_bp = g\<rparr>, \<lparr>fw_feature = QUANTITY, fw_weight_bp = q\<rparr>,
       \<lparr>fw_feature = TIMESTAMP, fw_weight_bp = t\<rparr>, \<lparr>fw_feature = UNIT_PRICE, fw_weight_bp = u\<rparr>]"
    and sum: "g + q + t + u = SCORE_SCALE_BP" and nonneg: "0 \<le> g" "0 \<le> q" "0 \<le> t" "0 \<le> u"
    by (rule valid_policy_weights)
  have w: "weight_of policy GROSS_AMOUNT = Inr g" "weight_of policy QUANTITY = Inr q"
    "weight_of policy TIMESTAMP = Inr t" "weight_of policy UNIT_PRICE = Inr u"
    by (simp_all add: weight_of_def ws dict_of_def dict_index_def)
  show "weight_of policy f = Inr (weight_bp policy f) \<and> 0 \<le> weight_bp policy f \<and> weight_bp policy f \<le> SCORE_SCALE_BP"
    using w sum nonneg by (cases f) (simp_all add: weight_bp_def)
  show "weight_bp policy QUANTITY + weight_bp policy TIMESTAMP + weight_bp policy UNIT_PRICE +
      weight_bp policy GROSS_AMOUNT = SCORE_SCALE_BP"
    using w sum by (simp add: weight_bp_def)
qed

text \<open>The evidence a candidate gets: the four features, each fair for its weight.\<close>

definition fair_candidate :: "matching_policy \<Rightarrow> candidate_evidence \<Rightarrow> bool" where
  "fair_candidate policy c \<longleftrightarrow>
     map fe_feature (ce_features c) = [GROSS_AMOUNT, QUANTITY, TIMESTAMP, UNIT_PRICE] \<and>
     (\<forall>f \<in> set (ce_features c). fair_evidence (fe_feature f) (weight_bp policy (fe_feature f)) f) \<and>
     ce_score_bp c = sum_list (map fe_contribution_bp (ce_features c))"

lemma sort_features:
  "fe_feature q = QUANTITY \<Longrightarrow> fe_feature t = TIMESTAMP \<Longrightarrow> fe_feature u = UNIT_PRICE \<Longrightarrow>
   fe_feature g = GROSS_AMOUNT \<Longrightarrow> sort_key (\<lambda>f. feature_value (fe_feature f)) [q, t, u, g] = [g, q, t, u]"
  by (simp add: less_char_def less_eq_char_def)

lemma fair_candidate_score:
  assumes "valid_policy policy" and "fair_candidate policy c"
  shows "0 \<le> ce_score_bp c \<and> ce_score_bp c \<le> SCORE_SCALE_BP"
proof -
  from assms(2) obtain g q t u where f: "ce_features c = [g, q, t, u]"
    and n: "fe_feature g = GROSS_AMOUNT" "fe_feature q = QUANTITY" "fe_feature t = TIMESTAMP" "fe_feature u = UNIT_PRICE"
    by (auto simp: fair_candidate_def map_eq_Cons_conv)
  with assms(2) have "fair_evidence GROSS_AMOUNT (weight_bp policy GROSS_AMOUNT) g"
    "fair_evidence QUANTITY (weight_bp policy QUANTITY) q"
    "fair_evidence TIMESTAMP (weight_bp policy TIMESTAMP) t"
    "fair_evidence UNIT_PRICE (weight_bp policy UNIT_PRICE) u" by (auto simp: fair_candidate_def)
  with assms f weight_of_valid(2) [OF assms(1)] show ?thesis
    by (simp add: fair_candidate_def fair_evidence_def)
qed

lemma candidate_normal_fields:
  "ce_left_id (candidate_evidence_normal c) = ce_left_id c"
  "ce_right_id (candidate_evidence_normal c) = ce_right_id c"
  "ce_score_bp (candidate_evidence_normal c) = ce_score_bp c"
  "ce_complete_computation (candidate_evidence_normal c) = ce_complete_computation c"
  "ce_coverage_sufficient (candidate_evidence_normal c) = ce_coverage_sufficient c"
  "ce_blocking_reasons (candidate_evidence_normal c) = sorted_set (ce_blocking_reasons c)"
  "ce_features (candidate_evidence_normal c) = sort_key (\<lambda>f. feature_value (fe_feature f)) (ce_features c)"
  "ce_contradictions (candidate_evidence_normal c) = sorted_set (ce_contradictions c)"
  "ce_coverage_failures (candidate_evidence_normal c) = sorted_set (ce_coverage_failures c)"
  by (simp_all add: candidate_evidence_normal_def)

lemma score_candidate_total:
  assumes v: "valid_policy policy" and ids: "\<not> blank (mr_observation_id l)" "\<not> blank (mr_observation_id r)"
    and reasons: "reasons \<noteq> []" "\<forall>x \<in> set reasons. \<not> blank x"
  shows "\<exists>c. score_candidate l r reasons b policy = Inr c \<and> fair_candidate policy c \<and>
     ce_edge c = (mr_observation_id l, mr_observation_id r) \<and>
     ce_blocking_reasons c = sorted_set reasons \<and> ce_complete_computation c = b \<and>
     ce_contradictions c = sorted_set (map contradiction_value (contradictions l r (mp_reference_contract policy))) \<and>
     ce_coverage_failures c = sorted_set (map coverage_value (coverage_failures l r)) \<and>
     (ce_coverage_sufficient c \<longleftrightarrow> coverage_failures l r = [])"
proof -
  note w = weight_of_valid [OF v]
  have wb: "0 \<le> weight_bp policy f" "weight_bp policy f \<le> SCORE_SCALE_BP" for f using w(1) by simp_all
  have sims: "valid_similarity (mp_quantity_similarity policy)" "valid_similarity (mp_unit_price_similarity policy)"
    "valid_similarity (mp_gross_amount_similarity policy)" and band: "0 \<le> ts_band (mp_timestamp_similarity policy)"
    using v by (simp_all add: valid_policy_def valid_similarity_def timestamp_similarity_post_init_def checks_Inr_iff)
  obtain q where q: "numeric_evidence QUANTITY (mr_quantity l) (mr_quantity r) (mp_quantity_similarity policy)
      (weight_bp policy QUANTITY) = Inr q" "fair_evidence QUANTITY (weight_bp policy QUANTITY) q"
    using numeric_evidence_fair [OF sims(1) wb, where feature = QUANTITY] by (metis match_feature.distinct(1))
  obtain t where t: "timestamp_evidence (mr_executed_at l) (mr_executed_at r) (ts_band (mp_timestamp_similarity policy))
      (weight_bp policy TIMESTAMP) = Inr t" "fair_evidence TIMESTAMP (weight_bp policy TIMESTAMP) t"
    using timestamp_evidence_fair [OF wb band] by metis
  obtain u where u: "numeric_evidence UNIT_PRICE (mr_unit_price l) (mr_unit_price r) (mp_unit_price_similarity policy)
      (weight_bp policy UNIT_PRICE) = Inr u" "fair_evidence UNIT_PRICE (weight_bp policy UNIT_PRICE) u"
    using numeric_evidence_fair [OF sims(2) wb, where feature = UNIT_PRICE] by (metis match_feature.distinct)
  obtain g where g: "numeric_evidence GROSS_AMOUNT (mr_gross_amount l) (mr_gross_amount r)
      (mp_gross_amount_similarity policy) (weight_bp policy GROSS_AMOUNT) = Inr g"
      "fair_evidence GROSS_AMOUNT (weight_bp policy GROSS_AMOUNT) g"
    using numeric_evidence_fair [OF sims(3) wb, where feature = GROSS_AMOUNT] by (metis match_feature.distinct)
  let ?raw = "\<lparr>ce_left_id = mr_observation_id l, ce_right_id = mr_observation_id r,
      ce_blocking_reasons = reasons, ce_features = [q, t, u, g],
      ce_contradictions = map contradiction_value (contradictions l r (mp_reference_contract policy)),
      ce_coverage_failures = map coverage_value (coverage_failures l r),
      ce_coverage_sufficient = (coverage_failures l r = []),
      ce_complete_computation = b, ce_score_bp = sum_list (map fe_contribution_bp [q, t, u, g]),
      ce_score_label = ''Rule score''\<rparr>"
  let ?c = "candidate_evidence_normal ?raw"
  have n: "fe_feature q = QUANTITY" "fe_feature t = TIMESTAMP" "fe_feature u = UNIT_PRICE" "fe_feature g = GROSS_AMOUNT"
    using q(2) t(2) u(2) g(2) by (simp_all add: fair_evidence_def)
  have fs: "ce_features ?c = [g, q, t, u]"
    by (simp only: candidate_normal_fields candidate_evidence.select_convs sort_features [OF n])
  have sum: "ce_score_bp ?c = sum_list (map fe_contribution_bp [q, t, u, g])"
    by (simp only: candidate_normal_fields candidate_evidence.select_convs)
  have fair: "fair_candidate policy ?c"
    using q(2) t(2) u(2) g(2) n unfolding fair_candidate_def fs sum by simp
  have score: "0 \<le> ce_score_bp ?raw \<and> ce_score_bp ?raw \<le> SCORE_SCALE_BP"
    using fair_candidate_score [OF v fair] by (simp only: candidate_normal_fields)
  have visible: "\<not> blank (contradiction_value x)" "\<not> blank (coverage_value y)" for x y
    by (cases x; simp) (cases y; simp)
  have "candidate_evidence_post_init ?raw = Inr ?c"
    unfolding candidate_evidence_post_init_def
  proof (rule checks_total)
    fix chk assume "chk \<in> set (candidate_evidence_checks ?raw)"
    then show "\<not> fst chk"
      using ids reasons score visible sum unfolding candidate_evidence_checks_def Let_def fs
      by (auto simp: score_bp_def list_ex_iff all_features_def n candidate_normal_fields(9))
  qed
  with q(1) t(1) u(1) g(1) w(1) have "score_candidate l r reasons b policy = Inr ?c"
    by (simp add: score_candidate_def)
  with fair show ?thesis by (intro exI [of _ ?c]) (simp add: candidate_normal_fields)
qed

section \<open>Scoring what generation returns\<close>

text \<open>The evidence scoring makes of a retained edge.\<close>

definition scored_edge :: "matching_policy \<Rightarrow> generation_result \<Rightarrow> candidate_edge \<Rightarrow> candidate_evidence \<Rightarrow> bool" where
  "scored_edge policy g e c \<longleftrightarrow> ce_edge c = cg_edge e \<and> ce_blocking_reasons c = cg_blocking_reasons e \<and>
     (ce_complete_computation c \<longleftrightarrow>
       cg_left_id e \<notin> set (gr_limited_record_ids g) \<and> cg_right_id e \<notin> set (gr_limited_record_ids g)) \<and>
     fair_candidate policy c"

lemma related_ends:
  "related passes lefts rights e x \<Longrightarrow>
   fst e \<in> mr_observation_id ` set lefts \<and> snd e \<in> mr_observation_id ` set rights \<and> \<not> blank x"
  by (auto simp: related_def)

lemma score_edge_total:
  assumes v: "valid_policy policy" and pre: "searchable pre"
    and gen: "generate_candidates sha256 pre policy = Inr g" and e: "e \<in> set (gr_candidates g)"
  shows "\<exists>c. score_edge (dict_of mr_observation_id (rp_remaining_left pre))
     (dict_of mr_observation_id (rp_remaining_right pre)) (gr_limited_record_ids g) policy e = Inr c \<and>
     scored_edge policy g e c"
proof -
  let ?l = "rp_remaining_left pre" and ?r = "rp_remaining_right pre"
  from generation_sound [OF v gen e] have ne: "cg_blocking_reasons e \<noteq> []"
    and rel: "\<forall>x \<in> set (cg_blocking_reasons e). related (mp_blocking_passes policy) ?l ?r (cg_edge e) x" by auto
  have visible: "\<forall>x \<in> set (cg_blocking_reasons e). \<not> blank x"
    using rel related_ends by blast
  from ne obtain x where "x \<in> set (cg_blocking_reasons e)" by (cases "cg_blocking_reasons e") auto
  with rel related_ends have "cg_left_id e \<in> mr_observation_id ` set ?l" "cg_right_id e \<in> mr_observation_id ` set ?r"
    by fastforce+
  then obtain l r where l: "l \<in> set ?l" "mr_observation_id l = cg_left_id e"
    and r: "r \<in> set ?r" "mr_observation_id r = cg_right_id e" by (metis imageE)
  have get: "dict_get (dict_of mr_observation_id ?l) (cg_left_id e) = Some l"
    "dict_get (dict_of mr_observation_id ?r) (cg_right_id e) = Some r"
    using pre l r by (simp_all add: searchable_def map_of_dict_of_Some)
  have ids: "\<not> blank (mr_observation_id l)" "\<not> blank (mr_observation_id r)"
    using pre l(1) r(1) by (auto simp: searchable_def)
  have sorted: "sorted_set (cg_blocking_reasons e) = cg_blocking_reasons e"
  proof (rule generate_candidates_facts [OF v gen])
    fix ps st
    assume "\<And>c. c \<in> set (gr_candidates g) \<longleftrightarrow>
      (\<exists>rs. dict_get (ss_edges st) (cg_edge c) = Some rs \<and> cg_blocking_reasons c = sorted_set rs)"
    with e obtain rs where "cg_blocking_reasons e = sorted_set rs" by auto
    then show ?thesis by simp
  qed
  from score_candidate_total [OF v ids ne visible, of "cg_left_id e \<notin> set (gr_limited_record_ids g) \<and>
      cg_right_id e \<notin> set (gr_limited_record_ids g)"]
  obtain c where "score_candidate l r (cg_blocking_reasons e) (cg_left_id e \<notin> set (gr_limited_record_ids g) \<and>
      cg_right_id e \<notin> set (gr_limited_record_ids g)) policy = Inr c"
    "fair_candidate policy c" "ce_edge c = cg_edge e" "ce_blocking_reasons c = cg_blocking_reasons e"
    "ce_complete_computation c \<longleftrightarrow> cg_left_id e \<notin> set (gr_limited_record_ids g) \<and>
      cg_right_id e \<notin> set (gr_limited_record_ids g)"
    using l(2) r(2) sorted by auto
  then show ?thesis by (simp add: score_edge_def get scored_edge_def)
qed

lemma generation_edges_sorted:
  assumes "valid_policy policy" and "generate_candidates sha256 pre policy = Inr g"
  shows "sorted (map cg_edge (gr_candidates g))"
  by (rule generate_candidates_facts [OF assms]) simp

lemma score_candidates_total:
  assumes v: "valid_policy policy" and pre: "searchable pre"
    and gen: "generate_candidates sha256 pre policy = Inr g"
  shows "\<exists>cs. score_candidates pre g policy = Inr cs \<and> list_all2 (scored_edge policy g) (gr_candidates g) cs"
proof -
  let ?f = "score_edge (dict_of mr_observation_id (rp_remaining_left pre))
     (dict_of mr_observation_id (rp_remaining_right pre)) (gr_limited_record_ids g) policy"
  note edge = score_edge_total [OF v pre gen]
  have "\<exists>ys. rmap ?f (gr_candidates g) = Inr ys" by (rule rmap_total_ex) (use edge in blast)
  then obtain cs where cs: "rmap ?f (gr_candidates g) = Inr cs" by blast
  then have "list_all2 (\<lambda>e c. ?f e = Inr c) (gr_candidates g) cs" by (simp add: rmap_Inr_iff)
  then have all: "list_all2 (scored_edge policy g) (gr_candidates g) cs"
    by (rule list.rel_mono_strong) (use edge in fastforce)
  then have "map ce_edge cs = map cg_edge (gr_candidates g)"
    by (induction rule: list_all2_induct) (auto simp: scored_edge_def)
  with generation_edges_sorted [OF v gen] have "sorted (map ce_edge cs)" by simp
  with cs all show ?thesis by (simp add: score_candidates_def sort_key_id_if_sorted)
qed

section \<open>Claims\<close>

text \<open>
  Scoring never fails on what generation returns and keeps the candidate graph: it yields, in
  the order of the edges, one evidence per edge, with the edge's reasons, complete exactly where
  neither record is limited, with the four features, and with a score between 0 and 10000.
\<close>

lemma scoring_covers_generation:
  assumes "valid_policy policy" and "searchable pre"
    and "generate_candidates sha256 pre policy = Inr g"
  shows "\<exists>cs. score_candidates pre g policy = Inr cs \<and> list_all2 (scored_edge policy g) (gr_candidates g) cs \<and>
    list_all (\<lambda>c. 0 \<le> ce_score_bp c \<and> ce_score_bp c \<le> SCORE_SCALE_BP) cs"
proof -
  obtain cs where cs: "score_candidates pre g policy = Inr cs"
    and all: "list_all2 (scored_edge policy g) (gr_candidates g) cs"
    using score_candidates_total [OF assms] by blast
  from all have "list_all (fair_candidate policy) cs"
    by (induction rule: list_all2_induct) (auto simp: scored_edge_def)
  with fair_candidate_score [OF assms(1)] have
    "list_all (\<lambda>c. 0 \<le> ce_score_bp c \<and> ce_score_bp c \<le> SCORE_SCALE_BP) cs" by (auto simp: list_all_iff)
  with cs all show ?thesis by blast
qed

end
