(* ===== verification/AssignmentFacts.thy ===== *)
theory AssignmentFacts
  imports SolverContract ComponentFacts ScoringFacts
begin

text \<open>
  The assignment is optimal. A matching is a set of candidates that is one-to-one on both sides;
  its utility is what its scores exceed the floor by. Under the contract of the solver a solved
  component selects a matching of the greatest utility, with or without forbidden edges, and the
  selections of the components together maximise the utility over all the candidates whose
  records are not limited.
\<close>

section \<open>Matchings\<close>

definition one_to_one :: "candidate_evidence set \<Rightarrow> bool" where
  "one_to_one M \<longleftrightarrow> inj_on ce_left_id M \<and> inj_on ce_right_id M"

definition utility :: "int \<Rightarrow> candidate_evidence set \<Rightarrow> int" where
  "utility floor_bp M = (\<Sum>c \<in> M. ce_score_bp c - floor_bp)"

definition selected_of :: "int \<Rightarrow> candidate_evidence \<Rightarrow> selected_edge" where
  "selected_of floor_bp c = \<lparr>se_left_id = ce_left_id c, se_right_id = ce_right_id c,
     se_score_bp = ce_score_bp c, se_utility_bp = ce_score_bp c - floor_bp\<rparr>"

lemma selected_of_fields [simp]:
  "se_left_id (selected_of f c) = ce_left_id c" "se_right_id (selected_of f c) = ce_right_id c"
  "se_score_bp (selected_of f c) = ce_score_bp c" "se_utility_bp (selected_of f c) = ce_score_bp c - f"
  by (simp_all add: selected_of_def)

text \<open>The inputs of a component: the ids of its candidates, whose scores exceed the floor.\<close>

definition solvable :: "string list \<Rightarrow> string list \<Rightarrow> candidate_evidence list \<Rightarrow> int \<Rightarrow> bool" where
  "solvable L R cs f \<longleftrightarrow> distinct L \<and> distinct R \<and> L \<noteq> [] \<and> length L \<le> 900000 \<and> distinct (map ce_edge cs) \<and>
     0 \<le> f \<and> (\<forall>c \<in> set cs. ce_left_id c \<in> set L \<and> ce_right_id c \<in> set R \<and> f < ce_score_bp c \<and>
       ce_score_bp c \<le> 10000 \<and> \<not> blank (ce_left_id c) \<and> \<not> blank (ce_right_id c))"

definition allowed :: "candidate_evidence list \<Rightarrow> (string \<times> string) list \<Rightarrow> string \<times> string \<Rightarrow> bool" where
  "allowed cs forbidden e \<longleftrightarrow> e \<in> ce_edge ` set cs \<and> e \<notin> set forbidden"

definition candidate_at :: "candidate_evidence list \<Rightarrow> string \<times> string \<Rightarrow> candidate_evidence" where
  "candidate_at cs e = the (dict_get (dict_of ce_edge cs) e)"

lemma candidate_at:
  "distinct (map ce_edge cs) \<Longrightarrow> c \<in> set cs \<Longrightarrow> candidate_at cs (ce_edge c) = c"
  using map_of_dict_of_Some [of ce_edge cs "ce_edge c" c] by (simp add: candidate_at_def)

lemma edge_cost_eq:
  assumes "distinct (map ce_edge cs)"
  shows "edge_cost (dict_of ce_edge cs) f forbidden F e =
    (if allowed cs forbidden e then - (ce_score_bp (candidate_at cs e) - f) else F)"
proof (cases "e \<in> ce_edge ` set cs")
  case True
  then obtain c where "c \<in> set cs" "e = ce_edge c" by auto
  then have "dict_get (dict_of ce_edge cs) e = Some c" using assms by (simp add: map_of_dict_of_Some)
  with True show ?thesis by (simp add: edge_cost_def allowed_def candidate_at_def)
next
  case False
  then have "dict_get (dict_of ce_edge cs) e = None" by (simp add: map_of_dict_of_None)
  with False show ?thesis by (simp add: edge_cost_def allowed_def)
qed

section \<open>The cost matrix\<close>

abbreviation component_costs ::
    "string list \<Rightarrow> string list \<Rightarrow> candidate_evidence list \<Rightarrow> int \<Rightarrow> (string \<times> string) list \<Rightarrow> cost_matrix" where
  "component_costs L R cs f forbidden \<equiv> assignment_costs L R (dict_of ce_edge cs) f forbidden"

lemma costs_shape:
  "length (component_costs L R cs f forbidden) = length L"
  "L \<noteq> [] \<Longrightarrow> length (hd (component_costs L R cs f forbidden)) = length R + length L"
  "row \<in> set (component_costs L R cs f forbidden) \<Longrightarrow> length row = length R + length L"
  by (auto simp: assignment_costs_def Let_def hd_map)

lemma costs_entry:
  assumes "distinct (map ce_edge cs)" and "i < length L"
  shows "j < length R \<Longrightarrow> component_costs L R cs f forbidden ! i ! j =
      (if allowed cs forbidden (L ! i, R ! j) then - (ce_score_bp (candidate_at cs (L ! i, R ! j)) - f)
       else int (length L) * 10001 + 1)"
    and "length R \<le> j \<Longrightarrow> j < length R + length L \<Longrightarrow> component_costs L R cs f forbidden ! i ! j = 0"
  using assms by (auto simp: assignment_costs_def Let_def edge_cost_eq nth_append)

lemma allowed_score:
  assumes "solvable L R cs f" and "allowed cs forbidden e"
  shows "candidate_at cs e \<in> set cs \<and> ce_edge (candidate_at cs e) = e \<and>
    0 < ce_score_bp (candidate_at cs e) - f \<and> ce_score_bp (candidate_at cs e) \<le> 10000"
proof -
  from assms(2) obtain c where "c \<in> set cs" "e = ce_edge c" by (auto simp: allowed_def)
  with assms(1) candidate_at [of cs c] show ?thesis by (auto simp: solvable_def)
qed

lemma costs_problem:
  assumes s: "solvable L R cs f"
  shows "cost_problem (component_costs L R cs f forbidden)"
proof -
  let ?costs = "component_costs L R cs f forbidden" and ?F = "int (length L) * 10001 + 1"
  have L: "L \<noteq> []" "length L \<le> 900000" "distinct (map ce_edge cs)" "0 \<le> f" using s by (auto simp: solvable_def)
  have "int (length L) * \<bar>c\<bar> \<le> 2 ^ 53" if row: "row \<in> set ?costs" "c \<in> set row" for row c
  proof -
    from row(1) obtain i where i: "i < length L" "row = ?costs ! i"
      by (auto simp: in_set_conv_nth costs_shape(1))
    from row(2) obtain j where "j < length row" "c = row ! j" by (metis in_set_conv_nth)
    with i(2) have j: "j < length R + length L" "c = ?costs ! i ! j"
      using costs_shape(3) [OF row(1)] by simp_all
    have "\<bar>c\<bar> \<le> ?F"
    proof (cases "j < length R")
      case True
      have "\<bar>- (ce_score_bp (candidate_at cs (L ! i, R ! j)) - f)\<bar> \<le> 10000"
        if "allowed cs forbidden (L ! i, R ! j)"
        using allowed_score [OF s that] L(4) by linarith
      with True j(2) L(1) costs_entry(1) [OF L(3) i(1) True] show ?thesis
        by (cases L) (auto split: if_splits)
    next
      case False
      with j costs_entry(2) [OF L(3) i(1), of R j] show ?thesis by simp
    qed
    then have "int (length L) * \<bar>c\<bar> \<le> int (length L) * ?F" by (intro mult_left_mono) auto
    also have "\<dots> \<le> 900000 * (900000 * 10001 + 1)" using L(2) by (intro mult_mono) auto
    also have "\<dots> \<le> (2 :: int) ^ 53" by simp
    finally show ?thesis .
  qed
  then show ?thesis
    unfolding cost_problem_def using L(1) costs_shape
    by (simp only: length_greater_0_conv [symmetric] simp_thms le_add2 ball_simps) blast
qed

section \<open>What a selection costs\<close>

text \<open>The cost of one position, and the position that stands for leaving the row unmatched.\<close>

definition position_cost ::
    "string list \<Rightarrow> string list \<Rightarrow> candidate_evidence list \<Rightarrow> int \<Rightarrow> (string \<times> string) list \<Rightarrow> int \<times> int \<Rightarrow> int"
where
  "position_cost L R cs f forbidden p =
     (if int (length R) \<le> snd p then 0
      else if allowed cs forbidden (L ! nat (fst p), R ! nat (snd p))
      then - (ce_score_bp (candidate_at cs (L ! nat (fst p), R ! nat (snd p))) - f)
      else int (length L) * 10001 + 1)"

lemma selection_cost_positions:
  assumes s: "solvable L R cs f" and sel: "valid_selection (length L) (length R + length L) sel"
  shows "selection_cost (component_costs L R cs f forbidden) sel =
    sum_list (map (position_cost L R cs f forbidden) sel)"
proof -
  have d: "distinct (map ce_edge cs)" using s by (simp add: solvable_def)
  have "component_costs L R cs f forbidden ! nat (fst p) ! nat (snd p) = position_cost L R cs f forbidden p"
    if p: "p \<in> set sel" for p
  proof -
    have "fst p \<in> set (map fst sel)" "snd p \<in> set (map snd sel)" using p by auto
    with sel have r: "nat (fst p) < length L" and c: "0 \<le> snd p" "nat (snd p) < length R + length L"
      by (auto simp: valid_selection_def)
    show ?thesis
    proof (cases "int (length R) \<le> snd p")
      case True
      with costs_entry(2) [OF d r, of R "nat (snd p)"] c show ?thesis by (simp add: position_cost_def)
    next
      case False
      then have "nat (snd p) < length R" using c(1) by linarith
      from costs_entry(1) [OF d r this] False show ?thesis by (simp add: position_cost_def)
    qed
  qed
  then show ?thesis unfolding selection_cost_def by (intro arg_cong [where f = sum_list] map_cong) auto
qed

lemma valid_selection_rows: "valid_selection n k sel \<Longrightarrow> distinct (map fst sel)"
proof -
  assume "valid_selection n k sel"
  then have len: "length sel = n" and rows: "set (map fst sel) = set (map int [0..<n])"
    by (auto simp: valid_selection_def)
  have "card (set (map fst sel)) = length (map fst sel)"
    unfolding rows using len by (simp add: card_image inj_on_def)
  then show ?thesis by (rule card_distinct)
qed

text \<open>Leaving every row unmatched whose position is not allowed: the cheaper selection.\<close>

definition real_position :: "string list \<Rightarrow> string list \<Rightarrow> candidate_evidence list \<Rightarrow> (string \<times> string) list \<Rightarrow>
    int \<times> int \<Rightarrow> bool" where
  "real_position L R cs forbidden p \<longleftrightarrow> snd p < int (length R) \<and>
     allowed cs forbidden (L ! nat (fst p), R ! nat (snd p))"

definition relaxed ::
    "string list \<Rightarrow> string list \<Rightarrow> candidate_evidence list \<Rightarrow> (string \<times> string) list \<Rightarrow> int \<times> int \<Rightarrow> int \<times> int"
where
  "relaxed L R cs forbidden p =
     (if real_position L R cs forbidden p then p else (fst p, int (length R) + fst p))"

lemma relaxed_valid:
  assumes sel: "valid_selection (length L) (length R + length L) sel"
  shows "valid_selection (length L) (length R + length L) (map (relaxed L R cs forbidden) sel)"
proof -
  have rows: "\<forall>p \<in> set sel. 0 \<le> fst p \<and> fst p < int (length L)"
    and cols: "\<forall>p \<in> set sel. 0 \<le> snd p \<and> snd p < int (length R + length L)"
    using sel by (auto simp: valid_selection_def set_eq_iff image_iff) (force+)
  have d: "distinct sel" "inj_on fst (set sel)" "inj_on snd (set sel)"
    using valid_selection_rows [OF sel] sel by (auto simp: distinct_map valid_selection_def)
  have "inj_on (snd \<circ> relaxed L R cs forbidden) (set sel)"
  proof (rule inj_onI)
    fix p q assume pq: "p \<in> set sel" "q \<in> set sel"
      and eq: "(snd \<circ> relaxed L R cs forbidden) p = (snd \<circ> relaxed L R cs forbidden) q"
    show "p = q"
    proof (cases "real_position L R cs forbidden p"; cases "real_position L R cs forbidden q")
      assume "real_position L R cs forbidden p" "real_position L R cs forbidden q"
      with eq have "snd p = snd q" by (simp add: relaxed_def)
      with d(3) pq show ?thesis by (meson inj_onD)
    next
      assume "\<not> real_position L R cs forbidden p" "\<not> real_position L R cs forbidden q"
      with eq have "fst p = fst q" by (simp add: relaxed_def)
      with d(2) pq show ?thesis by (meson inj_onD)
    qed (use eq rows pq in \<open>fastforce simp: relaxed_def real_position_def\<close>)+
  qed
  moreover have "map fst (map (relaxed L R cs forbidden) sel) = map fst sel"
    by (auto simp: relaxed_def)
  moreover have "\<forall>p \<in> set sel. 0 \<le> snd (relaxed L R cs forbidden p) \<and>
      snd (relaxed L R cs forbidden p) < int (length R + length L)"
    using rows cols by (auto simp: relaxed_def)
  ultimately show ?thesis
    using sel d(1) unfolding valid_selection_def by (simp add: distinct_map)
qed

text \<open>So the cheapest selection uses no position that is not allowed.\<close>

lemma optimal_positions_allowed:
  assumes s: "solvable L R cs f" and opt: "optimal_selection (component_costs L R cs f forbidden) sel"
    and p: "p \<in> set sel" "snd p < int (length R)"
  shows "real_position L R cs forbidden p"
proof (rule ccontr)
  assume bad: "\<not> real_position L R cs forbidden p"
  let ?cost = "position_cost L R cs f forbidden" and ?r = "relaxed L R cs forbidden"
  have L: "L \<noteq> []" using s by (simp add: solvable_def)
  have sel: "valid_selection (length L) (length R + length L) sel"
    using opt L by (simp add: optimal_selection_def costs_shape)
  have fst0: "0 \<le> fst q" if "q \<in> set sel" for q
  proof -
    have "fst q \<in> set (map fst sel)" using that by simp
    with sel show ?thesis by (auto simp: valid_selection_def)
  qed
  have ge: "?cost (?r q) \<le> ?cost q" if "q \<in> set sel" for q
    using fst0 [OF that] by (auto simp: relaxed_def position_cost_def real_position_def)
  moreover have less: "?cost (?r p) < ?cost p"
    using bad p fst0 [OF p(1)] by (auto simp: relaxed_def position_cost_def real_position_def)
  have "sum_list (map (\<lambda>q. ?cost (?r q)) sel) < sum_list (map ?cost sel)"
  proof -
    from p(1) obtain xs ys where xs: "sel = xs @ p # ys" by (meson split_list)
    have "sum_list (map (\<lambda>q. ?cost (?r q)) xs) \<le> sum_list (map ?cost xs)"
      "sum_list (map (\<lambda>q. ?cost (?r q)) ys) \<le> sum_list (map ?cost ys)"
      using ge xs by (auto intro!: sum_list_mono)
    with less xs show ?thesis by simp
  qed
  moreover have "selection_cost (component_costs L R cs f forbidden) sel \<le>
      selection_cost (component_costs L R cs f forbidden) (map ?r sel)"
    using opt L relaxed_valid [OF sel, of cs forbidden] by (simp add: optimal_selection_def costs_shape)
  ultimately show False
    using selection_cost_positions [OF s sel] selection_cost_positions [OF s relaxed_valid [OF sel, of cs forbidden]]
    by (simp add: comp_def)
qed

section \<open>Every matching is a selection\<close>

lemma matching_selection:
  assumes s: "solvable L R cs f" and M: "M \<subseteq> set cs" "one_to_one M" and free: "\<forall>c \<in> M. ce_edge c \<notin> set forbidden"
  shows "\<exists>sel. valid_selection (length L) (length R + length L) sel \<and>
    sum_list (map (position_cost L R cs f forbidden) sel) = - utility f M"
proof -
  let ?n = "length L" and ?m = "length R" and ?cost = "position_cost L R cs f forbidden"
  have dL: "distinct L" and dR: "distinct R" and dc: "distinct (map ce_edge cs)"
    and ends: "\<And>c. c \<in> M \<Longrightarrow> ce_left_id c \<in> set L \<and> ce_right_id c \<in> set R"
    using s M(1) by (auto simp: solvable_def)
  have inj: "inj_on ce_left_id M" "inj_on ce_right_id M" using M(2) by (auto simp: one_to_one_def)
  have "\<forall>c \<in> M. \<exists>i < ?n. L ! i = ce_left_id c" using ends by (metis in_set_conv_nth)
  then obtain li where li: "\<And>c. c \<in> M \<Longrightarrow> li c < ?n \<and> L ! li c = ce_left_id c" by metis
  have "\<forall>c \<in> M. \<exists>j < ?m. R ! j = ce_right_id c" using ends by (metis in_set_conv_nth)
  then obtain ri where ri: "\<And>c. c \<in> M \<Longrightarrow> ri c < ?m \<and> R ! ri c = ce_right_id c" by metis
  have li_inj: "inj_on li M" using inj(1) li by (metis inj_onD inj_onI)
  have ri_inj: "inj_on ri M" using inj(2) ri by (metis inj_onD inj_onI)
  define mate where "mate = inv_into M li"
  have mate: "mate (li c) = c" if "c \<in> M" for c using li_inj that by (simp add: mate_def)
  define col where "col i = (if i \<in> li ` M then ri (mate i) else ?m + i)" for i
  have col_M: "col (li c) = ri c" if "c \<in> M" for c using that mate by (auto simp: col_def)
  let ?sel = "map (\<lambda>i. (int i, int (col i))) [0..<?n]"
  have col_inj: "inj_on col {0..<?n}"
  proof (rule inj_onI)
    fix i j assume ij: "i \<in> {0..<?n}" "j \<in> {0..<?n}" and eq: "col i = col j"
    show "i = j"
    proof (cases "i \<in> li ` M"; cases "j \<in> li ` M")
      assume "i \<in> li ` M" "j \<in> li ` M"
      then obtain c d where "c \<in> M" "d \<in> M" "i = li c" "j = li d" by auto
      with eq ri_inj col_M show ?thesis by (metis inj_onD)
    next
      assume "i \<in> li ` M" "j \<notin> li ` M"
      then obtain c where "c \<in> M" "i = li c" by auto
      with eq col_M ri \<open>j \<notin> li ` M\<close> have "?m + j < ?m" by (metis col_def)
      then show ?thesis by simp
    next
      assume "i \<notin> li ` M" "j \<in> li ` M"
      then obtain c where "c \<in> M" "j = li c" by auto
      with eq col_M ri \<open>i \<notin> li ` M\<close> have "?m + i < ?m" by (metis col_def)
      then show ?thesis by simp
    qed (use eq in \<open>simp add: col_def\<close>)
  qed
  have col_less: "col i < ?m + ?n" if "i < ?n" for i
  proof (cases "i \<in> li ` M")
    case True
    then obtain c where "c \<in> M" "i = li c" by auto
    with col_M ri [of c] show ?thesis by simp
  next
    case False
    with that show ?thesis by (simp add: col_def)
  qed
  then have col_less_int: "int (col i) < int ?m + int ?n" if "i < ?n" for i
    using that by (metis of_nat_add of_nat_less_iff)
  have valid: "valid_selection ?n (?m + ?n) ?sel"
    using col_less_int col_inj by (auto simp: valid_selection_def distinct_map comp_def inj_on_def)
  have cost_M: "?cost (int (li c), int (col (li c))) = - (ce_score_bp c - f)" if c: "c \<in> M" for c
  proof -
    have "(L ! li c, R ! ri c) = ce_edge c" using li [OF c] ri [OF c] by simp
    moreover have "allowed cs forbidden (ce_edge c)" using c M(1) free by (auto simp: allowed_def)
    moreover have "candidate_at cs (ce_edge c) = c" using c M(1) dc by (auto intro: candidate_at)
    ultimately show ?thesis using ri [OF c] by (simp add: position_cost_def col_M [OF c])
  qed
  have cost_free: "?cost (int i, int (col i)) = 0" if "i \<notin> li ` M" for i
    using that by (simp add: position_cost_def col_def)
  have "sum_list (map ?cost ?sel) = (\<Sum>i \<in> {0..<?n}. ?cost (int i, int (col i)))"
    by (simp add: comp_def interv_sum_list_conv_sum_set_nat)
  also have "\<dots> = (\<Sum>i \<in> li ` M. ?cost (int i, int (col i)))"
    using li cost_free by (intro sum.mono_neutral_right) auto
  also have "\<dots> = (\<Sum>c \<in> M. - (ce_score_bp c - f))"
    using li_inj cost_M by (simp add: sum.reindex)
  also have "\<dots> = - utility f M" by (simp only: utility_def sum_negf)
  finally show ?thesis using valid by blast
qed

section \<open>A solved component is optimal\<close>

text \<open>The result of a component: a matching of its allowed candidates, of the greatest utility.\<close>

definition best_matching ::
    "candidate_evidence list \<Rightarrow> (string \<times> string) list \<Rightarrow> int \<Rightarrow> candidate_evidence list \<Rightarrow> bool" where
  "best_matching cs forbidden f ms \<longleftrightarrow> sorted (map ce_edge ms) \<and> distinct ms \<and> set ms \<subseteq> set cs \<and>
     one_to_one (set ms) \<and> (\<forall>c \<in> set ms. ce_edge c \<notin> set forbidden) \<and>
     (\<forall>M \<subseteq> set cs. one_to_one M \<and> (\<forall>c \<in> M. ce_edge c \<notin> set forbidden) \<longrightarrow>
        utility f M \<le> utility f (set ms))"

theorem solve_component_best:
  assumes contract: "minimizing_solver (sv_minimize solver)" and s: "solvable L R cs f"
    and forbidden: "set forbidden \<subseteq> ce_edge ` set cs"
  shows "\<exists>ms. solve_component L R cs f solver forbidden = Inr (map (selected_of f) ms) \<and>
    best_matching cs forbidden f ms"
proof -
  let ?costs = "component_costs L R cs f forbidden" and ?n = "length L" and ?m = "length R"
  let ?at = "\<lambda>p. candidate_at cs (L ! nat (fst p), R ! nat (snd p))"
  have L: "L \<noteq> []" and dL: "distinct L" and dR: "distinct R" and dc: "distinct (map ce_edge cs)"
    using s by (auto simp: solvable_def)
  obtain sel where sel: "sv_minimize solver ?costs = Inr sel" and opt: "optimal_selection ?costs sel"
    using minimizing_solver.minimize_optimal [OF contract costs_problem [OF s]] by blast
  have valid: "valid_selection ?n (?m + ?n) sel"
    and least: "\<And>sel'. valid_selection ?n (?m + ?n) sel' \<Longrightarrow> selection_cost ?costs sel \<le> selection_cost ?costs sel'"
    using opt L by (auto simp: optimal_selection_def costs_shape)
  let ?real = "filter (\<lambda>p. snd p < int ?m) sel"
  have real: "real_position L R cs forbidden p" if "p \<in> set ?real" for p
    using that optimal_positions_allowed [OF s opt] by simp
  have at: "?at p \<in> set cs" "ce_edge (?at p) = (L ! nat (fst p), R ! nat (snd p))" "ce_edge (?at p) \<notin> set forbidden"
    "0 < ce_score_bp (?at p) - f" "ce_score_bp (?at p) \<le> 10000" if "p \<in> set ?real" for p
    using real [OF that] allowed_score [OF s] by (auto simp: real_position_def allowed_def)
  have select: "select_edge L R (dict_of ce_edge cs) f forbidden p = Inr (selected_of f (?at p))"
    if p: "p \<in> set ?real" for p
  proof -
    have "dict_get (dict_of ce_edge cs) (L ! nat (fst p), R ! nat (snd p)) = Some (?at p)"
      using at [OF p] dc by (simp add: map_of_dict_of_Some)
    moreover have "\<not> blank (ce_left_id (?at p))" "\<not> blank (ce_right_id (?at p))" "0 \<le> f"
      using at(1) [OF p] s by (auto simp: solvable_def)
    ultimately show ?thesis
      using at [OF p] by (simp add: select_edge_def Let_def selected_edge_post_init_def checks_Inr_iff selected_of_def)
  qed
  let ?ms = "sort_key ce_edge (map ?at ?real)"
  have bounds: "nat (fst p) < ?n" "0 \<le> snd p" "0 \<le> fst p" if "p \<in> set sel" for p
  proof -
    have "fst p \<in> set (map fst sel)" "snd p \<in> set (map snd sel)" using that by auto
    with valid show "nat (fst p) < ?n" "0 \<le> snd p" "0 \<le> fst p" by (auto simp: valid_selection_def)
  qed
  have rows: "inj_on fst (set sel)" and cols: "inj_on snd (set sel)" and dsel: "distinct sel"
    using valid_selection_rows [OF valid] valid by (auto simp: distinct_map valid_selection_def)
  have left_inj: "p = q" if "p \<in> set ?real" "q \<in> set ?real" "ce_left_id (?at p) = ce_left_id (?at q)" for p q
  proof -
    have "L ! nat (fst p) = L ! nat (fst q)" using at(2) that by fastforce
    then have "nat (fst p) = nat (fst q)" using dL bounds(1) that by (simp add: nth_eq_iff_index_eq)
    then have "fst p = fst q" using bounds(3) that by (metis filter_is_subset nat_0_le subsetD)
    with rows that show ?thesis by (auto dest: inj_onD)
  qed
  have right_inj: "p = q" if "p \<in> set ?real" "q \<in> set ?real" "ce_right_id (?at p) = ce_right_id (?at q)" for p q
  proof -
    have "R ! nat (snd p) = R ! nat (snd q)" using at(2) that by fastforce
    moreover have "nat (snd p) < ?m" "nat (snd q) < ?m" using bounds(2) that by fastforce+
    ultimately have "nat (snd p) = nat (snd q)" using dR by (simp add: nth_eq_iff_index_eq)
    then have "snd p = snd q" using bounds(2) that by (metis filter_is_subset nat_0_le subsetD)
    with cols that show ?thesis by (auto dest: inj_onD)
  qed
  have inj: "inj_on ?at (set ?real)" using left_inj by (intro inj_onI) metis
  have o2o: "one_to_one (set ?ms)"
    unfolding one_to_one_def using left_inj right_inj by (auto intro!: inj_onI) metis+
  have "utility f (set ?ms) = sum_list (map (\<lambda>p. ce_score_bp (?at p) - f) ?real)"
    using inj dsel by (simp add: utility_def sum.reindex sum_list_distinct_conv_sum_set)
  also have "\<dots> = - sum_list (map (position_cost L R cs f forbidden) sel)"
  proof -
    have "position_cost L R cs f forbidden p = (if snd p < int ?m then - (ce_score_bp (?at p) - f) else 0)"
      if "p \<in> set sel" for p
      using real [of p] that by (auto simp: position_cost_def real_position_def)
    then show ?thesis by (induction sel) auto
  qed
  also have "\<dots> = - selection_cost ?costs sel" by (simp add: selection_cost_positions [OF s valid])
  finally have total: "utility f (set ?ms) = - selection_cost ?costs sel" .
  have best: "utility f M \<le> utility f (set ?ms)"
    if M: "M \<subseteq> set cs" "one_to_one M" "\<forall>c \<in> M. ce_edge c \<notin> set forbidden" for M
  proof -
    obtain sel' where sel': "valid_selection ?n (?m + ?n) sel'"
      "sum_list (map (position_cost L R cs f forbidden) sel') = - utility f M"
      using matching_selection [OF s M] by blast
    with least [OF sel'(1)] total show ?thesis by (simp add: selection_cost_positions [OF s sel'(1)])
  qed
  have "rmap (select_edge L R (dict_of ce_edge cs) f forbidden) ?real = Inr (map (selected_of f) (map ?at ?real))"
    using select by (subst rmap_total) auto
  moreover have "sort_key se_edge (map (selected_of f) (map ?at ?real)) = map (selected_of f) ?ms"
    by (simp add: sort_key_map)
  ultimately have "solve_component L R cs f solver forbidden = Inr (map (selected_of f) ?ms)"
    using forbidden sel valid by (simp add: solve_component_def Let_def set_dict_keys_of
        validate_solver_selection_iff [THEN iffD2])
  moreover have "distinct ?ms" using inj dsel by (simp add: distinct_map)
  then have "best_matching cs forbidden f ?ms"
    unfolding best_matching_def using o2o at(1,3) best by auto
  ultimately show ?thesis by blast
qed

section \<open>Assigning the components\<close>

text \<open>What assignment is given: constructed evidence with distinct edges, and a capacity.\<close>

definition valid_candidate :: "candidate_evidence \<Rightarrow> bool" where
  "valid_candidate c \<longleftrightarrow> candidate_evidence_post_init c = Inr c"

lemma valid_candidate_facts:
  assumes "valid_candidate c"
  shows "\<not> blank (ce_left_id c)" "\<not> blank (ce_right_id c)" "0 \<le> ce_score_bp c" "ce_score_bp c \<le> 10000"
proof -
  have chk: "\<not> fst k" if "k \<in> set (candidate_evidence_checks c)" for k
    using assms that by (auto simp: valid_candidate_def candidate_evidence_post_init_def checks_Inr_iff)
  show "\<not> blank (ce_left_id c)" "\<not> blank (ce_right_id c)"
    using chk [of "required_text (ce_left_id c) ''candidate left_id''"]
      chk [of "required_text (ce_right_id c) ''candidate right_id''"]
    by (simp_all add: candidate_evidence_checks_def Let_def)
  show "0 \<le> ce_score_bp c" "ce_score_bp c \<le> 10000"
    using chk [of "score_bp (ce_score_bp c) ''candidate score_bp'' ! 0"]
      chk [of "score_bp (ce_score_bp c) ''candidate score_bp'' ! 1"]
    by (simp_all add: candidate_evidence_checks_def Let_def score_bp_def SCORE_SCALE_BP_def not_less)
qed

lemma valid_policy_scores:
  assumes "valid_policy policy"
  shows "0 \<le> mp_assignment_floor_bp policy" "mp_assignment_floor_bp policy < mp_automatic_threshold_bp policy"
    "0 \<le> mp_minimum_global_gap_bp policy" "\<not> blank (mp_solver_version policy)"
  using assms by (simp_all add: valid_policy_def matching_policy_post_init_def matching_policy_checks_def
      checks_Inr_iff Let_def score_bp_def not_le)

lemma set_eligible:
  "set (eligible_candidates policy cs) = {c \<in> set cs. mp_assignment_floor_bp policy < ce_score_bp c}"
  by (simp add: eligible_candidates_def)

lemma distinct_eligible: "distinct (map ce_edge cs) \<Longrightarrow> distinct (map ce_edge (eligible_candidates policy cs))"
  by (simp add: eligible_candidates_def distinct_map_filter)

text \<open>The edges of one component, with the facts the component solver needs.\<close>

definition component_input :: "matching_policy \<Rightarrow> candidate_evidence list \<Rightarrow> bool" where
  "component_input policy es \<longleftrightarrow> es \<noteq> [] \<and> distinct (map ce_edge es) \<and>
     (\<forall>c \<in> set es. valid_candidate c \<and> mp_assignment_floor_bp policy < ce_score_bp c)"

lemma distinct_map_concat: "xs \<in> set xss \<Longrightarrow> distinct (map f (concat xss)) \<Longrightarrow> distinct (map f xs)"
  by (induction xss) auto

lemma component_inputs:
  assumes d: "distinct (map ce_edge cs)" and v: "\<forall>c \<in> set cs. valid_candidate c"
    and es: "es \<in> set (edge_components (eligible_candidates policy cs))"
  shows "component_input policy es"
proof -
  let ?el = "eligible_candidates policy cs"
  have "mset (map ce_edge (concat (edge_components ?el))) = mset (map ce_edge ?el)"
    by (simp only: mset_map mset_edge_components)
  then have "distinct (map ce_edge (concat (edge_components ?el)))"
    using distinct_eligible [OF d] mset_eq_imp_distinct_iff by blast
  then have "distinct (map ce_edge es)" by (rule distinct_map_concat [OF es])
  moreover have "set es \<subseteq> set ?el" using es edge_components_set [of ?el] by auto
  ultimately show ?thesis
    using v edge_components_nonempty [OF es] by (auto simp: component_input_def set_eligible)
qed

lemma component_solvable:
  assumes "valid_policy policy" and "component_input policy es"
    and "cl_max_component_nodes (mp_limits policy) \<le> 900000"
    and "component_limit limited policy (sorted_set (map ce_left_id es)) (sorted_set (map ce_right_id es)) es = None"
  shows "solvable (sorted_set (map ce_left_id es)) (sorted_set (map ce_right_id es)) es (mp_assignment_floor_bp policy)"
proof -
  have "int (length (sorted_set (map ce_left_id es))) \<le> cl_max_component_nodes (mp_limits policy)"
    using assms(4) by (simp add: component_limit_def split: if_splits)
  then have "length (sorted_set (map ce_left_id es)) \<le> 900000" using assms(3) by linarith
  moreover have "0 \<le> mp_assignment_floor_bp policy" by (rule valid_policy_scores(1) [OF assms(1)])
  moreover have "ce_left_id c \<in> ce_left_id ` set es \<and> ce_right_id c \<in> ce_right_id ` set es \<and>
      mp_assignment_floor_bp policy < ce_score_bp c \<and> ce_score_bp c \<le> 10000 \<and>
      \<not> blank (ce_left_id c) \<and> \<not> blank (ce_right_id c)" if "c \<in> set es" for c
    using assms(2) that valid_candidate_facts [of c] unfolding component_input_def by blast
  ultimately show ?thesis
    using assms(2) by (simp add: solvable_def component_input_def)
qed

text \<open>The component that is made of edges: incomplete with nothing selected, or solved at best.\<close>

definition solved_as :: "matching_policy \<Rightarrow> string list \<Rightarrow> candidate_evidence list \<Rightarrow> solved_component \<Rightarrow> bool" where
  "solved_as policy limited es c \<longleftrightarrow>
     (let L = sorted_set (map ce_left_id es); R = sorted_set (map ce_right_id es);
          limit = component_limit limited policy L R es
      in sc_left_ids c = L \<and> sc_right_ids c = R \<and> sc_candidate_count c = int (length es) \<and>
         sc_limit_reason c = limit \<and> (sc_complete c \<longleftrightarrow> limit = None) \<and>
         (if limit = None
          then \<exists>ms. sc_selected_edges c = map (selected_of (mp_assignment_floor_bp policy)) ms \<and>
             best_matching es [] (mp_assignment_floor_bp policy) ms
          else sc_selected_edges c = []))"

lemma not_blank_component_id [simp]: "\<not> blank (component_id sha256 L R)"
  by (simp add: component_id_def)

lemma sorted_selected: "sorted (map ce_edge ms) \<Longrightarrow>
    sort_key se_edge (map (selected_of f) ms) = map (selected_of f) ms"
  by (simp add: sort_key_id_if_sorted comp_def)

lemma sum_selected: "distinct ms \<Longrightarrow> sum_list (map se_utility_bp (map (selected_of f) ms)) = utility f (set ms)"
  by (simp add: utility_def sum_list_distinct_conv_sum_set comp_def)

lemma solved_component_ok:
  assumes "\<not> blank (sc_component_id c)" "\<not> blank (sc_graph_digest c)" "\<not> blank (sc_solver_version c)"
    and "sorted (sc_left_ids c)" "sorted (sc_right_ids c)" "distinct (sc_left_ids c)" "distinct (sc_right_ids c)"
    and "sc_left_ids c \<noteq> []" "sc_right_ids c \<noteq> []" "0 < sc_candidate_count c" "0 \<le> sc_optimal_utility_bp c"
    and "sc_complete c \<longleftrightarrow> sc_limit_reason c = None" "sorted (map se_edge (sc_selected_edges c))"
    and "distinct (map se_left_id (sc_selected_edges c))" "distinct (map se_right_id (sc_selected_edges c))"
    and "se_left_id ` set (sc_selected_edges c) \<subseteq> set (sc_left_ids c)"
    and "se_right_id ` set (sc_selected_edges c) \<subseteq> set (sc_right_ids c)"
    and "sc_complete c \<or> sc_selected_edges c = []"
    and "sc_optimal_utility_bp c = sum_list (map se_utility_bp (sc_selected_edges c))"
  shows "solved_component_post_init c = Inr c"
proof -
  have "solved_component_normal c = c"
    using assms by (simp add: solved_component_normal_def sort_key_id_if_sorted)
  then show ?thesis
    using assms by (simp add: solved_component_post_init_def solved_component_checks_def Let_def checks_Inr_iff
        del: not_None_eq)
qed

theorem assign_component_total:
  assumes contract: "minimizing_solver (sv_minimize solver)" and v: "valid_policy policy"
    and cap: "cl_max_component_nodes (mp_limits policy) \<le> 900000"
    and ver: "sv_version solver = mp_solver_version policy" and sha: "\<And>s. \<not> blank (sha256 s)"
    and es: "component_input policy es"
  shows "\<exists>c. assign_component sha256 limited policy solver es = Inr c \<and> solved_as policy limited es c \<and>
    sc_component_id c = component_id sha256 (sorted_set (map ce_left_id es)) (sorted_set (map ce_right_id es)) \<and>
    sc_graph_digest c = assignment_graph_digest sha256 (sc_component_id c) (mp_assignment_floor_bp policy) es \<and>
    sc_solver_version c = mp_solver_version policy \<and> sc_optimal_utility_bp c = sum_list (map se_utility_bp (sc_selected_edges c))"
proof -
  let ?L = "sorted_set (map ce_left_id es)" and ?R = "sorted_set (map ce_right_id es)"
    and ?f = "mp_assignment_floor_bp policy"
  let ?limit = "component_limit limited policy ?L ?R es"
  let ?c = "\<lparr>sc_component_id = component_id sha256 ?L ?R,
      sc_graph_digest = assignment_graph_digest sha256 (component_id sha256 ?L ?R) ?f es,
      sc_solver_version = sv_version solver, sc_left_ids = ?L, sc_right_ids = ?R,
      sc_candidate_count = int (length es), sc_optimal_utility_bp = 0, sc_complete = False,
      sc_limit_reason = ?limit, sc_selected_edges = []\<rparr>"
  have ne: "es \<noteq> []" using es by (simp add: component_input_def)
  have digest: "\<not> blank (assignment_graph_digest sha256 i ?f es)" for i by (simp add: assignment_graph_digest_def sha)
  have version: "\<not> blank (mp_solver_version policy)" by (rule valid_policy_scores(4) [OF v])
  show ?thesis
  proof (cases "?limit = None")
    case False
    then obtain lim where lim: "?limit = Some lim" by blast
    have "solved_component_post_init ?c = Inr ?c"
      using lim ne by (intro solved_component_ok) (simp_all add: digest version ver)
    with lim show ?thesis
      by (simp add: assign_component_def Let_def solved_as_def ver)
  next
    case True
    have s: "solvable ?L ?R es ?f" by (rule component_solvable [OF v es cap True])
    obtain ms where ms: "solve_component ?L ?R es ?f solver [] = Inr (map (selected_of ?f) ms)"
      "best_matching es [] ?f ms" using solve_component_best [OF contract s, of "[]"] by auto
    let ?d = "?c\<lparr>sc_optimal_utility_bp := sum_list (map se_utility_bp (map (selected_of ?f) ms)),
        sc_complete := True, sc_selected_edges := map (selected_of ?f) ms\<rparr>"
    have m: "sorted (map ce_edge ms)" "distinct ms" "set ms \<subseteq> set es" "one_to_one (set ms)"
      using ms(2) by (auto simp: best_matching_def)
    have "?f \<le> ce_score_bp x" if "x \<in> set ms" for x
      using that m(3) es unfolding component_input_def by (meson less_imp_le subsetD)
    then have "0 \<le> utility ?f (set ms)" unfolding utility_def by (intro sum_nonneg) simp
    moreover have "distinct (map ce_left_id ms)" "distinct (map ce_right_id ms)"
      using m(2,4) by (simp_all add: distinct_map one_to_one_def)
    moreover have "sum_list (map se_utility_bp (map (selected_of ?f) ms)) = utility ?f (set ms)"
      by (rule sum_selected [OF m(2)])
    ultimately have "solved_component_post_init ?d = Inr ?d"
      using True ne m(1,3) by (intro solved_component_ok) (auto simp: digest version ver comp_def)
    with True ms show ?thesis
      by (intro exI [of _ ?d]) (auto simp: assign_component_def Let_def solved_as_def ver)
  qed
qed

section \<open>The whole assignment\<close>

lemma utility_concat:
  assumes "distinct (concat Ks)"
  shows "utility f (M \<inter> set (concat Ks)) = sum_list (map (\<lambda>K. utility f (M \<inter> set K)) Ks)"
  using assms
proof (induction Ks)
  case Nil
  then show ?case by (simp add: utility_def)
next
  case (Cons K Ks)
  have "M \<inter> set (concat (K # Ks)) = (M \<inter> set K) \<union> (M \<inter> set (concat Ks))" by auto
  moreover have "(M \<inter> set K) \<inter> (M \<inter> set (concat Ks)) = {}" using Cons.prems by auto
  ultimately have "utility f (M \<inter> set (concat (K # Ks))) = utility f (M \<inter> set K) + utility f (M \<inter> set (concat Ks))"
    unfolding utility_def by (simp add: sum.union_disjoint)
  with Cons show ?case by simp
qed

lemma one_to_one_subset: "one_to_one M \<Longrightarrow> N \<subseteq> M \<Longrightarrow> one_to_one N"
  by (auto simp: one_to_one_def intro: inj_on_subset)

text \<open>The matchings behind the components' selections, an incomplete one selecting nothing.\<close>

definition component_matching ::
    "matching_policy \<Rightarrow> string list \<Rightarrow> candidate_evidence list \<Rightarrow> candidate_evidence list \<Rightarrow> bool" where
  "component_matching policy limited es ms \<longleftrightarrow>
     (if component_limit limited policy (sorted_set (map ce_left_id es)) (sorted_set (map ce_right_id es)) es = None
      then best_matching es [] (mp_assignment_floor_bp policy) ms else ms = [])"

lemma solved_as_matching:
  assumes "solved_as policy limited es c"
  shows "\<exists>ms. sc_selected_edges c = map (selected_of (mp_assignment_floor_bp policy)) ms \<and>
    component_matching policy limited es ms"
  using assms by (auto simp: solved_as_def component_matching_def Let_def split: if_splits)

lemma solved_components_matchings:
  assumes "list_all2 (solved_as policy limited) Ks cs"
  shows "\<exists>mss. map sc_selected_edges cs = map (map (selected_of (mp_assignment_floor_bp policy))) mss \<and>
    list_all2 (component_matching policy limited) Ks mss"
  using assms
proof (induction rule: list_all2_induct)
  case Nil
  then show ?case by simp
next
  case (Cons K Ks c cs)
  then obtain mss where "map sc_selected_edges cs = map (map (selected_of (mp_assignment_floor_bp policy))) mss"
    "list_all2 (component_matching policy limited) Ks mss" by blast
  moreover obtain ms where "sc_selected_edges c = map (selected_of (mp_assignment_floor_bp policy)) ms"
    "component_matching policy limited K ms" using solved_as_matching [OF Cons.hyps(1)] by blast
  ultimately show ?case by (intro exI [of _ "ms # mss"]) simp
qed

lemma matchings_within:
  "list_all2 (component_matching policy limited) Ks mss \<Longrightarrow> set (concat mss) \<subseteq> set (concat Ks)"
  by (induction rule: list_all2_induct) (auto simp: component_matching_def best_matching_def split: if_splits)

lemma matchings_distinct:
  "list_all2 (component_matching policy limited) Ks mss \<Longrightarrow> distinct (concat Ks) \<Longrightarrow>
   distinct (concat mss) \<and> utility f (set (concat mss)) = sum_list (map (\<lambda>ms. utility f (set ms)) mss)"
proof (induction rule: list_all2_induct)
  case Nil
  then show ?case by (simp add: utility_def)
next
  case (Cons K Ks ms mss)
  have ms: "set ms \<subseteq> set K" "distinct ms"
    using Cons.hyps(1) by (auto simp: component_matching_def best_matching_def split: if_splits)
  have rest: "set (concat mss) \<subseteq> set (concat Ks)" by (rule matchings_within [OF Cons.hyps(2)])
  with ms Cons.prems have disj: "set ms \<inter> set (concat mss) = {}" by auto
  have "utility f (set (concat (ms # mss))) = utility f (set ms) + utility f (set (concat mss))"
    using disj unfolding utility_def by (simp add: sum.union_disjoint)
  with Cons disj ms show ?case by simp
qed

text \<open>No matching of candidates of unlimited components beats the components' matchings.\<close>

lemma matchings_best:
  assumes "list_all2 (component_matching policy limited) Ks mss"
    and "one_to_one M"
    and "\<And>K. K \<in> set Ks \<Longrightarrow> component_limit limited policy (sorted_set (map ce_left_id K))
        (sorted_set (map ce_right_id K)) K \<noteq> None \<Longrightarrow> M \<inter> set K = {}"
  shows "sum_list (map (\<lambda>K. utility (mp_assignment_floor_bp policy) (M \<inter> set K)) Ks) \<le>
    sum_list (map (\<lambda>ms. utility (mp_assignment_floor_bp policy) (set ms)) mss)"
  using assms(1,3)
proof (induction rule: list_all2_induct)
  case Nil
  then show ?case by simp
next
  case (Cons K Ks ms mss)
  let ?f = "mp_assignment_floor_bp policy"
  have "utility ?f (M \<inter> set K) \<le> utility ?f (set ms)"
  proof (cases "component_limit limited policy (sorted_set (map ce_left_id K)) (sorted_set (map ce_right_id K)) K")
    case None
    with Cons.hyps(1) have "best_matching K [] ?f ms" by (simp add: component_matching_def)
    moreover have "one_to_one (M \<inter> set K)" by (rule one_to_one_subset [OF assms(2)]) auto
    ultimately show ?thesis by (simp add: best_matching_def)
  next
    case (Some lim)
    with Cons.prems [of K] Cons.hyps(1) show ?thesis by (simp add: component_matching_def)
  qed
  moreover have "sum_list (map (\<lambda>K. utility ?f (M \<inter> set K)) Ks) \<le> sum_list (map (\<lambda>ms. utility ?f (set ms)) mss)"
    using Cons.prems by (intro Cons.IH) auto
  ultimately show ?case by simp
qed

text \<open>What is documented of \<open>hashlib.sha256(...).hexdigest()\<close>.\<close>

definition sha256_hex :: "(string \<Rightarrow> string) \<Rightarrow> bool" where
  "sha256_hex sha256 \<longleftrightarrow> (\<forall>s. length (sha256 s) = 64 \<and> set (sha256 s) \<subseteq> set ''0123456789abcdef'')"

lemma sha256_visible: "sha256_hex sha256 \<Longrightarrow> \<not> blank (sha256 s)"
proof -
  assume hex: "sha256_hex sha256"
  then have "sha256 s \<noteq> []" by (metis length_0_conv sha256_hex_def zero_neq_numeral)
  then obtain c cs where s: "sha256 s = c # cs" by (cases "sha256 s") auto
  with hex have "c \<in> set ''0123456789abcdef''" unfolding sha256_hex_def by (metis insert_subset list.simps(15))
  then have "33 \<le> (of_char c :: nat) \<and> (of_char c :: nat) \<le> 127" by auto
  with s show ?thesis by simp
qed

text \<open>The setting of a run: the solver's contract and version, the policy and the evidence.\<close>

definition assignable ::
    "(string \<Rightarrow> string) \<Rightarrow> candidate_evidence list \<Rightarrow> matching_policy \<Rightarrow> solver \<Rightarrow> bool" where
  "assignable sha256 candidates policy solver \<longleftrightarrow> minimizing_solver (sv_minimize solver) \<and> sha256_hex sha256 \<and>
     valid_policy policy \<and> cl_max_component_nodes (mp_limits policy) \<le> 900000 \<and>
     sv_version solver = mp_solver_version policy \<and> distinct (map ce_edge candidates) \<and>
     list_all valid_candidate candidates"

definition component_edges :: "matching_policy \<Rightarrow> candidate_evidence list \<Rightarrow> candidate_evidence list list" where
  "component_edges policy candidates = edge_components (eligible_candidates policy candidates)"

definition solved_from ::
    "(string \<Rightarrow> string) \<Rightarrow> matching_policy \<Rightarrow> string list \<Rightarrow> candidate_evidence list \<Rightarrow> solved_component \<Rightarrow> bool" where
  "solved_from sha256 policy limited es c \<longleftrightarrow> solved_as policy limited es c \<and>
     sc_component_id c = component_id sha256 (sorted_set (map ce_left_id es)) (sorted_set (map ce_right_id es)) \<and>
     sc_graph_digest c = assignment_graph_digest sha256 (sc_component_id c) (mp_assignment_floor_bp policy) es \<and>
     sc_solver_version c = mp_solver_version policy \<and>
     sc_optimal_utility_bp c = sum_list (map se_utility_bp (sc_selected_edges c))"

lemma assigned_components:
  assumes a: "assignable sha256 candidates policy solver"
  shows "\<exists>comps. rmap (assign_component sha256 limited policy solver) (component_edges policy candidates) = Inr comps \<and>
    list_all2 (solved_from sha256 policy limited) (component_edges policy candidates) comps"
proof -
  have one: "\<exists>c. assign_component sha256 limited policy solver es = Inr c \<and> solved_from sha256 policy limited es c"
    if "es \<in> set (component_edges policy candidates)" for es
  proof -
    have "component_input policy es"
      using a that by (intro component_inputs [of candidates]) (auto simp: assignable_def component_edges_def list_all_iff)
    with a show ?thesis unfolding solved_from_def
      by (intro assign_component_total) (auto simp: assignable_def sha256_visible)
  qed
  have "\<exists>comps. rmap (assign_component sha256 limited policy solver) (component_edges policy candidates) = Inr comps"
    by (rule rmap_total_ex) (use one in blast)
  then obtain comps where comps: "rmap (assign_component sha256 limited policy solver) (component_edges policy candidates) = Inr comps"
    by blast
  then have "list_all2 (\<lambda>es c. assign_component sha256 limited policy solver es = Inr c) (component_edges policy candidates) comps"
    by (simp add: rmap_Inr_iff)
  then have "list_all2 (solved_from sha256 policy limited) (component_edges policy candidates) comps"
    by (rule list.rel_mono_strong) (use one in fastforce)
  with comps show ?thesis by blast
qed

lemma solve_assignment_Inr:
  assumes a: "assignable sha256 candidates policy solver"
    and r: "solve_assignment sha256 candidates g policy solver = Inr r"
  shows "\<exists>comps. list_all2 (solved_from sha256 policy (gr_limited_record_ids g)) (component_edges policy candidates) comps \<and>
    sr_components r = sort_key sc_component_id comps \<and>
    sr_selected_edges r = sort_key se_edge (concat (map sc_selected_edges comps)) \<and>
    distinct (map se_left_id (sr_selected_edges r)) \<and> distinct (map se_right_id (sr_selected_edges r)) \<and>
    set (sr_limited_record_ids r) = set (gr_limited_record_ids g) \<union> set (incomplete_component_members comps) \<and>
    distinct (map sc_component_id comps)"
proof -
  obtain comps where comps: "rmap (assign_component sha256 (gr_limited_record_ids g) policy solver)
      (edge_components (eligible_candidates policy candidates)) = Inr comps"
    and all: "list_all2 (solved_from sha256 policy (gr_limited_record_ids g)) (component_edges policy candidates) comps"
    using assigned_components [OF a, of "gr_limited_record_ids g"] unfolding component_edges_def by blast
  let ?raw = "\<lparr>sr_components = comps, sr_selected_edges = concat (map sc_selected_edges comps),
      sr_source_limited_record_ids = gr_limited_record_ids g,
      sr_limited_record_ids = remdups (gr_limited_record_ids g @ incomplete_component_members comps)\<rparr>"
  from r comps have "solve_result_post_init ?raw = Inr r"
    by (simp add: solve_assignment_def rbind_Inr_iff)
  then have normal: "r = solve_result_normal ?raw" and chk: "\<forall>k \<in> set (solve_result_checks ?raw). \<not> fst k"
    by (simp_all add: solve_result_post_init_def checks_Inr_iff)
  have "distinct (map se_left_id (concat (map sc_selected_edges comps)))"
    "distinct (map se_right_id (concat (map sc_selected_edges comps)))" "distinct (map sc_component_id comps)"
    using chk by (simp_all add: solve_result_checks_def solve_result_normal_def Let_def)
  then have "sr_components r = sort_key sc_component_id comps"
    "sr_selected_edges r = sort_key se_edge (concat (map sc_selected_edges comps))"
    "distinct (map se_left_id (sr_selected_edges r))" "distinct (map se_right_id (sr_selected_edges r))"
    "distinct (map sc_component_id comps)"
    "set (sr_limited_record_ids r) = set (gr_limited_record_ids g) \<union> set (incomplete_component_members comps)"
    by (simp_all add: normal solve_result_normal_def)
  with all show ?thesis by blast
qed

lemma solved_from_as: "list_all2 (solved_from sha256 policy limited) Ks comps \<Longrightarrow> list_all2 (solved_as policy limited) Ks comps"
  by (erule list_all2_mono) (simp add: solved_from_def)

lemma incomplete_members_of:
  assumes "list_all2 (solved_as policy limited) Ks comps" and "K \<in> set Ks"
    and "component_limit limited policy (sorted_set (map ce_left_id K)) (sorted_set (map ce_right_id K)) K \<noteq> None"
  shows "ce_left_id ` set K \<union> ce_right_id ` set K \<subseteq> set (incomplete_component_members comps)"
  using assms
proof (induction rule: list_all2_induct)
  case Nil
  then show ?case by simp
next
  case (Cons x xs c cs)
  have split: "set (incomplete_component_members (c # cs)) =
      (if sc_complete c then {} else set (sc_left_ids c) \<union> set (sc_right_ids c)) \<union> set (incomplete_component_members cs)"
    by (simp add: incomplete_component_members_def)
  show ?case
  proof (cases "K = x")
    case True
    with Cons.hyps(1) Cons.prems show ?thesis
      unfolding split by (auto simp: solved_as_def Let_def simp del: not_None_eq)
  next
    case False
    with Cons show ?thesis unfolding split by auto
  qed
qed

lemma distinct_components:
  assumes "distinct (map ce_edge candidates)"
  shows "distinct (concat (component_edges policy candidates))"
proof -
  have "distinct (eligible_candidates policy candidates)"
    using distinct_eligible [OF assms, of policy] by (simp add: distinct_map)
  moreover have "mset (concat (component_edges policy candidates)) = mset (eligible_candidates policy candidates)"
    by (simp add: component_edges_def mset_edge_components)
  ultimately show ?thesis by (metis mset_eq_imp_distinct_iff)
qed

theorem assignment_best:
  assumes a: "assignable sha256 candidates policy solver"
    and r: "solve_assignment sha256 candidates g policy solver = Inr r"
  shows "\<exists>ms. sr_selected_edges r = map (selected_of (mp_assignment_floor_bp policy)) ms \<and>
    set ms \<subseteq> set (eligible_candidates policy candidates) \<and> one_to_one (set ms) \<and> distinct ms \<and>
    (\<forall>M \<subseteq> set (eligible_candidates policy candidates).
       one_to_one M \<and> (\<forall>c \<in> M. ce_left_id c \<notin> set (sr_limited_record_ids r)) \<longrightarrow>
       utility (mp_assignment_floor_bp policy) M \<le> utility (mp_assignment_floor_bp policy) (set ms))"
proof -
  let ?f = "mp_assignment_floor_bp policy" and ?Ks = "component_edges policy candidates"
    and ?E = "set (eligible_candidates policy candidates)" and ?lim = "gr_limited_record_ids g"
  have dc: "distinct (map ce_edge candidates)" using a by (simp add: assignable_def)
  from solve_assignment_Inr [OF a r] obtain comps where
    all: "list_all2 (solved_from sha256 policy ?lim) ?Ks comps"
    and sel: "sr_selected_edges r = sort_key se_edge (concat (map sc_selected_edges comps))"
    and dl: "distinct (map se_left_id (sr_selected_edges r))" and dr: "distinct (map se_right_id (sr_selected_edges r))"
    and limited: "set (sr_limited_record_ids r) = set ?lim \<union> set (incomplete_component_members comps)" by blast
  note as = solved_from_as [OF all]
  obtain mss where mss: "map sc_selected_edges comps = map (map (selected_of ?f)) mss"
    and matchings: "list_all2 (component_matching policy ?lim) ?Ks mss"
    using solved_components_matchings [OF as] by blast
  let ?ms = "sort_key ce_edge (concat mss)"
  have "sr_selected_edges r = sort_key se_edge (map (selected_of ?f) (concat mss))"
    unfolding sel mss by (simp only: map_concat)
  then have sel_ms: "sr_selected_edges r = map (selected_of ?f) ?ms" by (simp add: sort_key_map)
  have sub: "set ?ms \<subseteq> ?E"
    using matchings_within [OF matchings] edge_components_set by (simp add: component_edges_def)
  have "distinct (map ce_left_id ?ms)" "distinct (map ce_right_id ?ms)"
    using dl dr unfolding sel_ms by (simp_all add: comp_def del: distinct_map_sort_key)
  then have o2o: "one_to_one (set ?ms)" by (simp add: one_to_one_def distinct_map)
  have "utility ?f M \<le> utility ?f (set ?ms)"
    if M: "M \<subseteq> ?E" "one_to_one M" "\<forall>c \<in> M. ce_left_id c \<notin> set (sr_limited_record_ids r)" for M
  proof -
    have none: "M \<inter> set K = {}" if "K \<in> set ?Ks" "component_limit ?lim policy (sorted_set (map ce_left_id K))
        (sorted_set (map ce_right_id K)) K \<noteq> None" for K
      using incomplete_members_of [OF as that] M(3) limited by auto
    have "M \<inter> set (concat ?Ks) = M"
      using M(1) edge_components_set [of "eligible_candidates policy candidates"] by (auto simp: component_edges_def)
    then have "utility ?f M = sum_list (map (\<lambda>K. utility ?f (M \<inter> set K)) ?Ks)"
      using utility_concat [OF distinct_components [OF dc], of ?f M policy] by simp
    also have "\<dots> \<le> sum_list (map (\<lambda>ms. utility ?f (set ms)) mss)"
      by (rule matchings_best [OF matchings M(2) none])
    also have "\<dots> = utility ?f (set ?ms)"
      using matchings_distinct [OF matchings distinct_components [OF dc]] by simp
    finally show ?thesis .
  qed
  moreover have "distinct ?ms" using matchings_distinct [OF matchings distinct_components [OF dc]] by simp
  ultimately show ?thesis using sel_ms sub o2o by blast
qed

section \<open>Assignment never fails, and abstains for limited records\<close>

lemma distinct_concat_nth:
  "distinct (concat xss) \<Longrightarrow> i < length xss \<Longrightarrow> j < length xss \<Longrightarrow> x \<in> set (xss ! i) \<Longrightarrow> x \<in> set (xss ! j) \<Longrightarrow> i = j"
proof (induction xss arbitrary: i j)
  case Nil
  then show ?case by simp
next
  case (Cons xs xss)
  have inside: "x \<in> set (concat xss)" if "k < length xss" "x \<in> set (xss ! k)" for k
    using that nth_mem by fastforce
  from Cons.prems(1) have d: "distinct (concat xss)" "\<not> (x \<in> set xs \<and> x \<in> set (concat xss))" by auto
  show ?case
  proof (cases i; cases j)
    fix i' j' assume "i = Suc i'" "j = Suc j'"
    with Cons.IH [OF d(1), of i' j'] Cons.prems show ?thesis by simp
  qed (use Cons.prems d(2) inside in \<open>auto simp del: set_concat\<close>)
qed

lemma same_component:
  assumes d: "distinct (map ce_edge candidates)"
    and i: "i < length (component_edges policy candidates)" "c \<in> set (component_edges policy candidates ! i)"
    and j: "j < length (component_edges policy candidates)" "e \<in> set (component_edges policy candidates ! j)"
    and share: "shares_record c e"
  shows "i = j"
proof -
  let ?Ks = "component_edges policy candidates"
  have "distinct (eligible_candidates policy candidates)"
    using distinct_eligible [OF d, of policy] by (simp add: distinct_map)
  from edge_components_disjoint [OF this _ _ i(2) j(2) share] i(1) j(1)
  have "set (?Ks ! i) = set (?Ks ! j)" by (simp add: component_edges_def)
  with i(2) have "c \<in> set (?Ks ! j)" by simp
  with distinct_concat_nth [OF distinct_components [OF d] i(1) j(1) i(2)] show ?thesis by blast
qed

lemma matchings_one_to_one:
  assumes d: "distinct (map ce_edge candidates)"
    and m: "list_all2 (component_matching policy limited) (component_edges policy candidates) mss"
  shows "one_to_one (set (concat mss))"
proof -
  let ?Ks = "component_edges policy candidates"
  have same: "c = e" if "c \<in> set (concat mss)" "e \<in> set (concat mss)" "ce_left_id c = ce_left_id e \<or> ce_right_id c = ce_right_id e" for c e
  proof -
    from that(1,2) obtain i j where i: "i < length mss" "c \<in> set (mss ! i)" and j: "j < length mss" "e \<in> set (mss ! j)"
      by (auto simp: in_set_conv_nth) metis
    have m': "component_matching policy limited (?Ks ! k) (mss ! k)" if "k < length mss" for k
      using list_all2_nthD2 [OF m that] .
    then have sub: "set (mss ! k) \<subseteq> set (?Ks ! k)" and o2o: "one_to_one (set (mss ! k))" if "k < length mss" for k
      using m' [OF that] by (auto simp: component_matching_def best_matching_def one_to_one_def split: if_splits)
    have "length ?Ks = length mss" by (rule list_all2_lengthD [OF m])
    with same_component [OF d, of i policy c j e] i j sub that(3) have "i = j"
      by (auto simp: shares_record_def)
    with o2o [OF i(1)] i(2) j(2) that(3) show ?thesis by (auto simp: one_to_one_def dest: inj_onD)
  qed
  then show ?thesis unfolding one_to_one_def by (meson inj_onI)
qed

definition distinct_component_ids ::
    "(string \<Rightarrow> string) \<Rightarrow> candidate_evidence list \<Rightarrow> matching_policy \<Rightarrow> bool" where
  "distinct_component_ids sha256 candidates policy \<longleftrightarrow>
     distinct (map (\<lambda>es. component_id sha256 (sorted_set (map ce_left_id es)) (sorted_set (map ce_right_id es)))
       (component_edges policy candidates))"

lemma incomplete_members_sort [simp]:
  "set (incomplete_component_members (sort_key k cs)) = set (incomplete_component_members cs)"
  by (simp add: incomplete_component_members_def)

lemma distinct_map_finer:
  "distinct (map f xs) \<Longrightarrow> (\<And>x y. g x = g y \<Longrightarrow> f x = f y) \<Longrightarrow> distinct (map g xs)"
  unfolding distinct_map inj_on_def by blast

lemma sorted_concat_selected:
  assumes "distinct (map se_left_id (concat (map sc_selected_edges comps)))"
  shows "sort_key se_edge (concat (map sc_selected_edges (sort_key k comps))) =
    sort_key se_edge (concat (map sc_selected_edges comps))"
proof (rule sort_key_canonical [symmetric])
  show "mset (concat (map sc_selected_edges comps)) = mset (concat (map sc_selected_edges (sort_key k comps)))"
    by (simp add: mset_concat flip: sum_mset_sum_list)
  show "distinct (map se_edge (concat (map sc_selected_edges comps)))"
    by (rule distinct_map_finer [OF assms]) simp
qed

theorem solve_assignment_total:
  assumes a: "assignable sha256 candidates policy solver"
    and cover: "set (map ce_edge candidates) = set (map cg_edge (gr_candidates g))"
    and ids: "distinct_component_ids sha256 candidates policy" and lim: "distinct (gr_limited_record_ids g)"
  shows "\<exists>r. solve_assignment sha256 candidates g policy solver = Inr r"
proof -
  let ?f = "mp_assignment_floor_bp policy" and ?Ks = "component_edges policy candidates"
  have dc: "distinct (map ce_edge candidates)" and ver: "sv_version solver = mp_solver_version policy"
    using a by (simp_all add: assignable_def)
  obtain comps where comps: "rmap (assign_component sha256 (gr_limited_record_ids g) policy solver) ?Ks = Inr comps"
    and all: "list_all2 (solved_from sha256 policy (gr_limited_record_ids g)) ?Ks comps"
    using assigned_components [OF a] by blast
  obtain mss where mss: "map sc_selected_edges comps = map (map (selected_of ?f)) mss"
    and m: "list_all2 (component_matching policy (gr_limited_record_ids g)) ?Ks mss"
    using solved_components_matchings [OF solved_from_as [OF all]] by blast
  have cs: "concat (map sc_selected_edges comps) = map (selected_of ?f) (concat mss)"
    unfolding mss by (simp only: map_concat)
  have "distinct (concat mss)" using matchings_distinct [OF m distinct_components [OF dc]] by simp
  with matchings_one_to_one [OF dc m]
  have "distinct (map ce_left_id (concat mss))" "distinct (map ce_right_id (concat mss))"
    by (simp_all add: one_to_one_def distinct_map)
  then have dl: "distinct (map se_left_id (concat (map sc_selected_edges comps)))"
    and dr: "distinct (map se_right_id (concat (map sc_selected_edges comps)))"
    unfolding cs by (simp_all add: comp_def)
  have "map sc_component_id comps = map (\<lambda>es. component_id sha256 (sorted_set (map ce_left_id es))
      (sorted_set (map ce_right_id es))) ?Ks"
    using all by (induction rule: list_all2_induct) (auto simp: solved_from_def)
  with ids have dids: "distinct (map sc_component_id comps)" by (simp add: distinct_component_ids_def)
  let ?raw = "\<lparr>sr_components = comps, sr_selected_edges = concat (map sc_selected_edges comps),
      sr_source_limited_record_ids = gr_limited_record_ids g,
      sr_limited_record_ids = remdups (gr_limited_record_ids g @ incomplete_component_members comps)\<rparr>"
  have "solve_result_post_init ?raw = Inr (solve_result_normal ?raw)"
    unfolding solve_result_post_init_def
  proof (rule checks_total)
    fix k assume "k \<in> set (solve_result_checks ?raw)"
    then show "\<not> fst k"
      using dl dr dids lim sorted_concat_selected [OF dl, of sc_component_id]
      by (auto simp: solve_result_checks_def solve_result_normal_def Let_def simp del: map_concat)
  qed
  with comps cover dc ver show ?thesis
    by (simp add: solve_assignment_def component_edges_def checks.simps)
qed

theorem limited_not_selected:
  assumes a: "assignable sha256 candidates policy solver"
    and r: "solve_assignment sha256 candidates g policy solver = Inr r"
    and sides: "ce_left_id ` set candidates \<inter> ce_right_id ` set candidates = {}"
    and e: "e \<in> set (sr_selected_edges r)"
  shows "se_left_id e \<notin> set (sr_limited_record_ids r) \<and> se_right_id e \<notin> set (sr_limited_record_ids r)"
proof -
  let ?Ks = "component_edges policy candidates" and ?lim = "gr_limited_record_ids g"
  have dc: "distinct (map ce_edge candidates)" using a by (simp add: assignable_def)
  from solve_assignment_Inr [OF a r] obtain comps where
    all: "list_all2 (solved_from sha256 policy ?lim) ?Ks comps"
    and sel: "sr_selected_edges r = sort_key se_edge (concat (map sc_selected_edges comps))"
    and limited: "set (sr_limited_record_ids r) = set ?lim \<union> set (incomplete_component_members comps)" by blast
  note as = solved_from_as [OF all]
  have len: "length ?Ks = length comps" by (rule list_all2_lengthD [OF all])
  from e sel obtain i where i: "i < length comps" "e \<in> set (sc_selected_edges (comps ! i))"
    by (auto simp: in_set_conv_nth) metis
  have asi: "solved_as policy ?lim (?Ks ! k) (comps ! k)" if "k < length comps" for k
    using list_all2_nthD2 [OF as that] .
  let ?K = "?Ks ! i"
  have none: "component_limit ?lim policy (sorted_set (map ce_left_id ?K)) (sorted_set (map ce_right_id ?K)) ?K = None"
    using asi [OF i(1)] i(2) by (auto simp: solved_as_def Let_def split: if_splits)
  then obtain ms where "sc_selected_edges (comps ! i) = map (selected_of (mp_assignment_floor_bp policy)) ms"
    "best_matching ?K [] (mp_assignment_floor_bp policy) ms"
    using asi [OF i(1)] by (auto simp: solved_as_def Let_def)
  with i(2) obtain c where c: "c \<in> set ?K" "se_left_id e = ce_left_id c" "se_right_id e = ce_right_id c"
    by (auto simp: best_matching_def)
  have "ce_left_id c \<notin> set ?lim" "ce_right_id c \<notin> set ?lim"
    using none c(1) by (auto simp: component_limit_def split: if_splits)
  moreover have "x \<notin> set (incomplete_component_members comps)" if x: "x = ce_left_id c \<or> x = ce_right_id c" for x
  proof
    assume "x \<in> set (incomplete_component_members comps)"
    then obtain j where j: "j < length comps" "\<not> sc_complete (comps ! j)"
      "x \<in> set (sc_left_ids (comps ! j)) \<union> set (sc_right_ids (comps ! j))"
      by (auto simp: incomplete_component_members_def in_set_conv_nth)
    then have "x \<in> ce_left_id ` set (?Ks ! j) \<union> ce_right_id ` set (?Ks ! j)"
      using asi [OF j(1)] by (simp add: solved_as_def Let_def)
    then obtain d where d: "d \<in> set (?Ks ! j)" "x = ce_left_id d \<or> x = ce_right_id d" by auto
    have sub: "set (?Ks ! k) \<subseteq> set candidates" if "k < length comps" for k
    proof -
      have "?Ks ! k \<in> set ?Ks" using that len by simp
      then have "set (?Ks ! k) \<subseteq> set (concat ?Ks)" by auto
      also have "\<dots> \<subseteq> set candidates"
        unfolding component_edges_def edge_components_set set_eligible by auto
      finally show ?thesis .
    qed
    have "shares_record c d"
      using x d sides sub [OF i(1)] sub [OF j(1)] c(1) by (auto simp: shares_record_def)
    with same_component [OF dc, of i policy c j d] i(1) j(1) len c(1) d(1) have "i = j" by simp
    with none asi [OF j(1)] j(2) show False by (simp add: solved_as_def Let_def)
  qed
  ultimately show ?thesis using limited c(2,3) by auto
qed

section \<open>Claims\<close>

text \<open>A sample: the evidence of one pair, and the adapter over the exhaustive search.\<close>

definition sample_solver :: solver where
  "sample_solver = scipy_solver ''1.18.1'' exhaustive_lsa"

definition sample_sha256 :: "string \<Rightarrow> string" where
  "sample_sha256 s = replicate 64 (CHR ''0'')"

definition sample_feature :: "match_feature \<Rightarrow> int \<Rightarrow> feature_evidence" where
  "sample_feature f w = \<lparr>fe_feature = f, fe_left_value = None, fe_right_value = None, fe_difference = None,
     fe_band = DDelta 0, fe_present = False, fe_similarity_bp = 0, fe_weight_bp = w,
     fe_contribution_bp = w, fe_rule = ''rule''\<rparr>"

definition sample_candidate :: candidate_evidence where
  "sample_candidate = \<lparr>ce_left_id = ''a'', ce_right_id = ''b'',
     ce_blocking_reasons = [''general-compatible-24h@1''],
     ce_features = [sample_feature GROSS_AMOUNT 2500, sample_feature QUANTITY 3500,
       sample_feature TIMESTAMP 2500, sample_feature UNIT_PRICE 1500],
     ce_contradictions = [], ce_coverage_failures = [], ce_coverage_sufficient = True,
     ce_complete_computation = True, ce_score_bp = 10000, ce_score_label = ''Rule score''\<rparr>"

lemma sample_candidate_valid: "valid_candidate sample_candidate"
  by (simp add: valid_candidate_def sample_candidate_def candidate_evidence_post_init_def
      candidate_evidence_checks_def candidate_evidence_normal_def sample_feature_def checks.simps
      sorted_set_def score_bp_def nonnegative_int_def SCORE_SCALE_BP_def unique_check_def required_text_def
      all_features_def less_char_def less_eq_char_def Let_def insert_commute)

lemma sample_sha256_hex: "sha256_hex sample_sha256"
  by (simp add: sha256_hex_def sample_sha256_def)

lemma sample_assignable: "assignable sample_sha256 [sample_candidate] demo_policy sample_solver"
proof -
  have "minimizing_solver (sv_minimize sample_solver)"
    unfolding sample_solver_def by (rule exhaustive.adapter.minimizing_solver_axioms)
  moreover have "sv_version sample_solver = mp_solver_version demo_policy"
    by (simp add: sample_solver_def scipy_solver_def demo_policy_eval)
  moreover have "cl_max_component_nodes (mp_limits demo_policy) \<le> 900000" by (simp add: demo_policy_eval)
  ultimately show ?thesis
    by (simp add: assignable_def sample_sha256_hex demo_policy_valid sample_candidate_valid)
qed

text \<open>
  C23. The components the search returns are the connected components of the eligible candidates:
  together they hold every eligible candidate exactly once, and two candidates are in the same
  component exactly when a chain of candidates connects them in which neighbours share a record.
\<close>

theorem components_are_connected:
  assumes "distinct (map ce_edge cs)"
  shows "mset (concat (edge_components cs)) = mset cs \<and>
    (\<forall>es \<in> set (edge_components cs). es \<noteq> [] \<and> (\<forall>c \<in> set es. \<forall>d. d \<in> set es \<longleftrightarrow> connected cs c d))"
proof -
  have "distinct cs" using assms by (simp add: distinct_map)
  then show ?thesis
    using mset_edge_components edge_components_nonempty edge_component_connected by blast
qed

theorem components_are_connected_witness:
  "mset (concat (edge_components [sample_candidate])) = {#sample_candidate#}"
  using components_are_connected [of "[sample_candidate]"] by simp

text \<open>
  C4. Global optimality. Under the documented contract of the solver, the selected edges form a
  one-to-one matching of candidates above the floor, and no other matching of such candidates
  whose left records are not limited has a greater total utility, whichever components its
  edges lie in.
\<close>

theorem assignment_maximises_utility:
  assumes "assignable sha256 candidates policy solver"
    and "solve_assignment sha256 candidates g policy solver = Inr r"
  shows "\<exists>ms. sr_selected_edges r = map (selected_of (mp_assignment_floor_bp policy)) ms \<and>
    set ms \<subseteq> set (eligible_candidates policy candidates) \<and> one_to_one (set ms) \<and> distinct ms \<and>
    (\<forall>M \<subseteq> set (eligible_candidates policy candidates).
       one_to_one M \<and> (\<forall>c \<in> M. ce_left_id c \<notin> set (sr_limited_record_ids r)) \<longrightarrow>
       utility (mp_assignment_floor_bp policy) M \<le> utility (mp_assignment_floor_bp policy) (set ms))"
  by (rule assignment_best [OF assms])

text \<open>
  The assignment never fails: for constructed evidence that covers the generated edges, a
  solver that meets its contract and components with distinct identities, it returns a result.
\<close>

lemma assignment_total:
  assumes "assignable sha256 candidates policy solver"
    and "set (map ce_edge candidates) = set (map cg_edge (gr_candidates g))"
    and "distinct_component_ids sha256 candidates policy" and "distinct (gr_limited_record_ids g)"
  shows "\<exists>r. solve_assignment sha256 candidates g policy solver = Inr r"
  by (rule solve_assignment_total [OF assms])

lemma edge_components_single: "edge_components [c] = [[c]]"
proof -
  have "edge_neighbours [c] 0 = [0, 0]"
    by (simp add: edge_neighbours_def left_indices_def right_indices_def)
  then have "component_loop [c] [] [0] [0] = ([0], [])" by simp
  then show ?thesis by (simp add: edge_components_def components_loop.simps)
qed

text \<open>What the assignment and the gates read of the evidence of the sample pair.\<close>

definition sample_pair :: "candidate_evidence \<Rightarrow> bool" where
  "sample_pair c \<longleftrightarrow> ce_left_id c = ''a'' \<and> ce_right_id c = ''b'' \<and> ce_score_bp c = 10000 \<and>
     ce_contradictions c = [] \<and> ce_coverage_sufficient c \<and> ce_complete_computation c"

lemma sample_candidate_pair: "sample_pair sample_candidate"
  by (simp add: sample_pair_def sample_candidate_def)

lemma pair_eligible: "sample_pair c \<Longrightarrow> eligible_candidates demo_policy [c] = [c]"
  by (simp add: eligible_candidates_def demo_policy_eval sample_pair_def)

lemmas sample_eligible = pair_eligible [OF sample_candidate_pair]

definition sample_component :: solved_component where
  "sample_component = \<lparr>sc_component_id = ''component-0000000000000000'',
     sc_graph_digest = replicate 64 (CHR ''0''), sc_solver_version = ''scipy-1.18.1-linear-sum-assignment-v1'',
     sc_left_ids = [''a''], sc_right_ids = [''b''], sc_candidate_count = 1, sc_optimal_utility_bp = 3000,
     sc_complete = True, sc_limit_reason = None, sc_selected_edges = [selected_of 7000 sample_candidate]\<rparr>"

definition sample_assignment :: solve_result where
  "sample_assignment = \<lparr>sr_components = [sample_component],
     sr_selected_edges = [selected_of 7000 sample_candidate],
     sr_source_limited_record_ids = [], sr_limited_record_ids = []\<rparr>"

lemma sample_minimize: "sv_minimize sample_solver [[- 3000, 0]] = Inr [(0, 0)]"
  by (simp add: sample_solver_def scipy_solver_def exhaustive_lsa_def all_columns_def selection_cost_def
      selection_of_def int64_def upt_rec Let_def)

lemma pair_assignment_eval:
  assumes pair: "sample_pair c" and g: "gr_limited_record_ids g = []" "gr_candidates g = gr_candidates sample_generation"
  shows "solve_assignment sample_sha256 [c] g demo_policy sample_solver = Inr sample_assignment"
proof -
  have floor: "mp_assignment_floor_bp demo_policy = 7000"
    and version: "mp_solver_version demo_policy = ''scipy-1.18.1-linear-sum-assignment-v1''"
      "sv_version sample_solver = ''scipy-1.18.1-linear-sum-assignment-v1''"
    and limits: "cl_max_component_nodes (mp_limits demo_policy) = 100" "cl_max_component_edges (mp_limits demo_policy) = 2500"
    by (simp_all add: demo_policy_eval sample_solver_def scipy_solver_def)
  note c = pair [unfolded sample_pair_def]
  have component: "solve_component [''a''] [''b''] [c] 7000 sample_solver [] = Inr [selected_of 7000 sample_candidate]"
    using c by (simp add: solve_component_def Let_def dict_of_def assignment_costs_def edge_cost_def
        sample_minimize validate_solver_selection_def checks.simps select_edge_def selected_edge_post_init_def
        required_text_def selected_of_def sample_candidate_def)
  have "assign_component sample_sha256 [] demo_policy sample_solver [c] = Inr sample_component"
    using component c by (simp add: assign_component_def Let_def floor version limits component_limit_def
        sorted_set_def solved_component_post_init_def solved_component_checks_def solved_component_normal_def
        checks.simps required_text_def sample_component_def selected_of_def component_id_def assignment_graph_digest_def
        sample_sha256_def sample_candidate_def eval_nat_numeral)
  then show ?thesis
    using c by (simp add: solve_assignment_def version checks.simps g sample_generation_def pair_eligible [OF pair] edge_components_single
        solve_result_post_init_def solve_result_checks_def solve_result_normal_def sample_assignment_def
        incomplete_component_members_def sample_component_def)
qed

lemma sample_assignment_eval:
  "solve_assignment sample_sha256 [sample_candidate] sample_generation demo_policy sample_solver = Inr sample_assignment"
  by (rule pair_assignment_eval [OF sample_candidate_pair]) (simp_all add: sample_generation_def)

theorem assignment_maximises_utility_witness:
  "\<exists>ms. sr_selected_edges sample_assignment = map (selected_of 7000) ms \<and> 3000 \<le> utility 7000 (set ms)"
proof -
  have floor: "mp_assignment_floor_bp demo_policy = 7000" by (simp add: demo_policy_eval)
  from assignment_maximises_utility [OF sample_assignable sample_assignment_eval]
  obtain ms where ms: "sr_selected_edges sample_assignment = map (selected_of 7000) ms"
    and best: "\<forall>M \<subseteq> {sample_candidate}. one_to_one M \<and> (\<forall>c \<in> M. ce_left_id c \<notin> set (sr_limited_record_ids sample_assignment)) \<longrightarrow>
       utility 7000 M \<le> utility 7000 (set ms)"
    unfolding floor sample_eligible by auto
  have "utility 7000 {sample_candidate} \<le> utility 7000 (set ms)"
    using best by (auto simp: one_to_one_def sample_assignment_def)
  then have "3000 \<le> utility 7000 (set ms)" by (simp add: utility_def sample_candidate_def)
  with ms show ?thesis by blast
qed

text \<open>
  C33. Abstention. An edge is never selected if one of its records is limited, be it because the
  candidate search was cut short or because its component is too large to solve.
\<close>

theorem limited_records_abstain:
  assumes "assignable sha256 candidates policy solver"
    and "solve_assignment sha256 candidates g policy solver = Inr r"
    and "ce_left_id ` set candidates \<inter> ce_right_id ` set candidates = {}"
    and "e \<in> set (sr_selected_edges r)"
  shows "se_left_id e \<notin> set (sr_limited_record_ids r) \<and> se_right_id e \<notin> set (sr_limited_record_ids r)"
  by (rule limited_not_selected [OF assms])

theorem limited_records_abstain_witness:
  "''a'' \<notin> set (sr_limited_record_ids sample_assignment) \<and> ''b'' \<notin> set (sr_limited_record_ids sample_assignment)"
  using limited_records_abstain [OF sample_assignable sample_assignment_eval, of "selected_of 7000 sample_candidate"]
  by (simp add: sample_candidate_def sample_assignment_def)

end
