(* ===== verification/GatingFacts.thy ===== *)
theory GatingFacts
  imports Gating AssignmentFacts
begin

text \<open>
  The gates see what the assignment decided: for the result of an assignment they cannot fail,
  and the gap they measure for a selected pair is what the best matching without the pair loses.
\<close>

section \<open>The candidates of a component\<close>

lemma edge_components_sorted:
  assumes "sorted (map ce_edge cs)" and "es \<in> set (edge_components cs)"
  shows "sorted (map ce_edge es)"
proof -
  obtain iss where iss: "components_loop cs [0..<length cs] = map (map ((!) cs)) iss"
    and ix: "\<forall>is \<in> set iss. component_index cs is" and sub: "set (concat iss) = set [0..<length cs]"
    using components_loop_partition [of "[0..<length cs]" cs] linked_less by fastforce
  with assms(2) obtain "is" where "is": "is \<in> set iss" "es = map ((!) cs) is"
    by (auto simp: edge_components_def)
  with ix have "sorted is" by (auto simp: component_index_def)
  moreover have "\<forall>i \<in> set is. i < length cs" using sub "is"(1) by auto
  ultimately have "sorted (map (\<lambda>i. ce_edge (cs ! i)) is)"
  proof (induction "is")
    case Nil
    then show ?case by simp
  next
    case (Cons i "is")
    have "ce_edge (cs ! i) \<le> ce_edge (cs ! j)" if "j \<in> set is" for j
      using sorted_nth_mono [OF assms(1), of i j] Cons.prems that by auto
    with Cons show ?case by auto
  qed
  then show ?thesis by (simp add: "is"(2) comp_def)
qed

text \<open>The members of a component determine its candidates.\<close>

lemma component_candidates_eq:
  assumes d: "distinct (map ce_edge candidates)" and es: "es \<in> set (component_edges policy candidates)"
    and sc: "sc_left_ids sc = sorted_set (map ce_left_id es)" "sc_right_ids sc = sorted_set (map ce_right_id es)"
  shows "component_candidates candidates policy sc = es"
proof -
  let ?el = "eligible_candidates policy candidates"
  let ?fs = "filter (\<lambda>c. ce_left_id c \<in> set (sc_left_ids sc) \<and> ce_right_id c \<in> set (sc_right_ids sc) \<and>
      mp_assignment_floor_bp policy < ce_score_bp c) candidates"
  have del: "distinct ?el" using distinct_eligible [OF d, of policy] by (simp add: distinct_map)
  have es': "es \<in> set (edge_components ?el)" using es by (simp add: component_edges_def)
  have sub: "set es \<subseteq> set ?el" using es' edge_components_set [of ?el] by auto
  have "c \<in> set es" if c: "c \<in> set ?fs" for c
  proof -
    from c have "c \<in> set ?el" by (simp add: set_eligible)
    then obtain fs where fs: "fs \<in> set (edge_components ?el)" "c \<in> set fs"
      using edge_components_set [of ?el] by auto
    from c obtain b where "b \<in> set es" "ce_left_id c = ce_left_id b" by (auto simp: sc)
    then have "set fs = set es"
      using edge_components_disjoint [OF del fs(1) es' fs(2), of b] by (simp add: shares_record_def)
    with fs show ?thesis by simp
  qed
  moreover have "c \<in> set ?fs" if "c \<in> set es" for c using that sub by (auto simp: sc set_eligible)
  ultimately have set: "set ?fs = set es" by blast
  have "distinct ?fs" using d by (simp add: distinct_map)
  have dks: "distinct (map ce_edge ?fs)" by (rule distinct_map_filter [OF d])
  have "distinct (concat (component_edges policy candidates))" by (rule distinct_components [OF d])
  then have "distinct es" using es by (meson distinct_concat_iff)
  with \<open>distinct ?fs\<close> set have "mset ?fs = mset es" using set_eq_iff_mset_eq_distinct by blast
  then have "sort_key ce_edge ?fs = sort_key ce_edge es" by (rule sort_key_canonical [OF _ dks])
  also have "\<dots> = es"
    using edge_components_sorted [OF _ es'] by (simp add: sort_key_id_if_sorted eligible_candidates_def)
  finally show ?thesis by (simp add: component_candidates_def)
qed

section \<open>Gaps\<close>

text \<open>The evidence of a proposal: its gap is what leaving the candidate out loses.\<close>

definition passes_gates :: "matching_policy \<Rightarrow> candidate_evidence \<Rightarrow> int \<Rightarrow> bool" where
  "passes_gates policy c gap \<longleftrightarrow> mp_automatic_threshold_bp policy \<le> ce_score_bp c \<and> ce_coverage_sufficient c \<and>
     ce_contradictions c = [] \<and> ce_complete_computation c \<and> mp_minimum_global_gap_bp policy \<le> gap"

definition gap_without :: "int \<Rightarrow> candidate_evidence list \<Rightarrow> int \<Rightarrow> candidate_evidence \<Rightarrow> int \<Rightarrow> bool" where
  "gap_without f es best c gap \<longleftrightarrow>
     (\<forall>M \<subseteq> set es. one_to_one M \<and> c \<notin> M \<longrightarrow> utility f M + gap \<le> best) \<and>
     (\<exists>M \<subseteq> set es. one_to_one M \<and> c \<notin> M \<and> utility f M + gap = best)"

definition proposal_for ::
    "matching_policy \<Rightarrow> candidate_evidence list \<Rightarrow> int \<Rightarrow> candidate_evidence \<Rightarrow> proposal_evidence \<Rightarrow> bool" where
  "proposal_for policy es best c p \<longleftrightarrow> c \<in> set es \<and> pe_edge p = ce_edge c \<and> pe_score_bp p = ce_score_bp c \<and>
     0 \<le> pe_global_gap_bp p \<and> pe_counterfactual_objective_bp p = best - pe_global_gap_bp p \<and>
     0 \<le> pe_counterfactual_objective_bp p \<and>
     gap_without (mp_assignment_floor_bp policy) es best c (pe_global_gap_bp p) \<and>
     (pe_accepted p \<longleftrightarrow> passes_gates policy c (pe_global_gap_bp p))"

lemma gate_reasons_none: "gate_reasons c gap policy = [] \<longleftrightarrow> passes_gates policy c gap"
  by (simp add: gate_reasons_def passes_gates_def not_less)

lemma gate_reason_visible [simp]: "\<not> blank (gate_reason_value r)"
  by (cases r) simp_all

lemma gate_selected_total:
  assumes contract: "minimizing_solver (sv_minimize solver)" and v: "valid_policy policy"
    and s: "solvable (sc_left_ids sc) (sc_right_ids sc) es (mp_assignment_floor_bp policy)"
    and d: "distinct (map ce_edge candidates)" and sub: "set es \<subseteq> set candidates"
    and ms: "best_matching es [] (mp_assignment_floor_bp policy) ms"
    and opt: "sc_optimal_utility_bp sc = utility (mp_assignment_floor_bp policy) (set ms)" and c: "c \<in> set ms"
  shows "\<exists>p. gate_selected (dict_of ce_edge candidates) policy solver sc es
      (selected_of (mp_assignment_floor_bp policy) c) = Inr p \<and> proposal_for policy es (sc_optimal_utility_bp sc) c p"
proof -
  let ?f = "mp_assignment_floor_bp policy"
  have ces: "c \<in> set es" using ms c by (auto simp: best_matching_def)
  have get: "dict_get (dict_of ce_edge candidates) (ce_edge c) = Some c"
    using d sub ces by (auto simp: map_of_dict_of_Some)
  have des: "distinct (map ce_edge es)" using s by (simp add: solvable_def)
  obtain ms' where solve: "solve_component (sc_left_ids sc) (sc_right_ids sc) es ?f solver [ce_edge c] =
      Inr (map (selected_of ?f) ms')" and ms': "best_matching es [ce_edge c] ?f ms'"
    using solve_component_best [OF contract s, of "[ce_edge c]"] ces by auto
  have same: "ce_edge x \<noteq> ce_edge c \<longleftrightarrow> x \<noteq> c" if "x \<in> set es" for x
    using des ces that by (auto simp: distinct_map dest: inj_onD)
  let ?gap = "sc_optimal_utility_bp sc - utility ?f (set ms')"
  have m': "set ms' \<subseteq> set es" "one_to_one (set ms')" "c \<notin> set ms'" "distinct ms'"
    using ms' by (auto simp: best_matching_def)
  have gap: "0 \<le> ?gap"
    using ms m'(1,2) unfolding opt best_matching_def by auto
  have "utility ?f M \<le> utility ?f (set ms')" if "M \<subseteq> set es" "one_to_one M" "c \<notin> M" for M
  proof -
    have "\<forall>x \<in> M. ce_edge x \<notin> set [ce_edge c]" using same that by (metis empty_iff empty_set set_ConsD subsetD)
    with ms' that show ?thesis unfolding best_matching_def by blast
  qed
  with m' have without: "gap_without ?f es (sc_optimal_utility_bp sc) c ?gap"
    unfolding gap_without_def by (intro conjI allI impI exI [of _ "set ms'"]) auto
  have objective: "0 \<le> utility ?f (set ms')"
    unfolding utility_def using m'(1) s by (intro sum_nonneg) (auto simp: solvable_def less_imp_le)
  have score: "0 < ce_score_bp c" "ce_score_bp c \<le> 10000" "\<not> blank (ce_left_id c)" "\<not> blank (ce_right_id c)"
    using s ces by (auto simp: solvable_def)
  let ?p = "\<lparr>pe_left_id = ce_left_id c, pe_right_id = ce_right_id c, pe_score_bp = ce_score_bp c,
      pe_counterfactual_objective_bp = utility ?f (set ms'), pe_global_gap_bp = ?gap,
      pe_accepted = (gate_reasons c ?gap policy = []), pe_gate_reasons = map gate_reason_value (gate_reasons c ?gap policy)\<rparr>"
  have "proposal_evidence_post_init ?p = Inr (?p\<lparr>pe_gate_reasons := sorted_set (pe_gate_reasons ?p)\<rparr>)"
    using score gap objective
    by (auto simp: proposal_evidence_post_init_def checks_Inr_iff score_bp_def SCORE_SCALE_BP_def list_ex_iff)
  moreover have "sum_list (map se_utility_bp (map (selected_of ?f) ms')) = utility ?f (set ms')"
    by (rule sum_selected [OF m'(4)])
  ultimately have "gate_selected (dict_of ce_edge candidates) policy solver sc es (selected_of ?f c) =
      Inr (?p\<lparr>pe_gate_reasons := sorted_set (pe_gate_reasons ?p)\<rparr>)"
    using gap by (simp add: gate_selected_def get solve Let_def del: map_map)
  with ces gap objective without show ?thesis
    by (auto simp: proposal_for_def gate_reasons_none)
qed

section \<open>Gating one component\<close>

definition no_nul :: "string \<Rightarrow> bool" where
  "no_nul s \<longleftrightarrow> char_of (0 :: nat) \<notin> set s"

lemma edge_text_inject:
  assumes "no_nul l" and "no_nul l'"
  shows "edge_text l r = edge_text l' r' \<longleftrightarrow> l = l' \<and> r = r'"
proof -
  have "takeWhile (\<lambda>c. c \<noteq> char_of (0 :: nat)) (edge_text x y) = x" if "no_nul x" for x y
    using that unfolding no_nul_def edge_text_def by (subst takeWhile_append2) auto
  with assms have "edge_text l r = edge_text l' r' \<Longrightarrow> l = l'" by metis
  then show ?thesis by (auto simp: edge_text_def)
qed

definition gated_from ::
    "candidate_evidence list \<Rightarrow> matching_policy \<Rightarrow> solved_component \<Rightarrow> component_evidence \<Rightarrow> bool" where
  "gated_from candidates policy sc ac \<longleftrightarrow> ac_component_id ac = sc_component_id sc \<and>
     ac_graph_digest ac = sc_graph_digest sc \<and> ac_left_ids ac = sc_left_ids sc \<and> ac_right_ids ac = sc_right_ids sc \<and>
     ac_candidate_count ac = sc_candidate_count sc \<and> ac_optimal_utility_bp ac = sc_optimal_utility_bp sc \<and>
     ac_complete ac = sc_complete sc \<and> ac_limit_reason ac = map_option assignment_limit_value (sc_limit_reason sc) \<and>
     list_all2 (\<lambda>sel p. \<exists>c. sel = selected_of (mp_assignment_floor_bp policy) c \<and>
         proposal_for policy (component_candidates candidates policy sc) (sc_optimal_utility_bp sc) c p)
       (sc_selected_edges sc) (ac_proposals ac)"

lemma component_evidence_ok:
  assumes "\<not> blank (ac_component_id a)" "\<not> blank (ac_graph_digest a)" "\<not> blank (ac_solver_version a)"
    and "sorted (ac_left_ids a)" "sorted (ac_right_ids a)" "distinct (ac_left_ids a)" "distinct (ac_right_ids a)"
    and "ac_left_ids a \<noteq> []" "0 \<le> ac_candidate_count a" "0 \<le> ac_optimal_utility_bp a"
    and "case ac_limit_reason a of None \<Rightarrow> ac_complete a | Some l \<Rightarrow> \<not> blank l \<and> \<not> ac_complete a"
    and "sorted (map pe_edge (ac_proposals a))" "distinct (map pe_left_id (ac_proposals a))"
    and "ac_complete a \<or> ac_proposals a = []"
    and p: "\<And>p. p \<in> set (ac_proposals a) \<Longrightarrow> pe_left_id p \<in> set (ac_left_ids a) \<and> pe_right_id p \<in> set (ac_right_ids a) \<and>
       no_nul (pe_left_id p) \<and> pe_counterfactual_objective_bp p \<le> ac_optimal_utility_bp a \<and>
       pe_global_gap_bp p = ac_optimal_utility_bp a - pe_counterfactual_objective_bp p"
  shows "component_evidence_post_init a = Inr a"
proof -
  have normal: "component_evidence_normal a = a"
    using assms(4,5,12) by (simp add: component_evidence_normal_def sort_key_id_if_sorted)
  have "inj_on pe_left_id (set (ac_proposals a))" using assms(13) by (simp add: distinct_map)
  then have "inj_on (\<lambda>p. edge_text (pe_left_id p) (pe_right_id p)) (set (ac_proposals a))"
    using p by (intro inj_onI) (metis edge_text_inject inj_onD)
  then have texts: "distinct (map (\<lambda>p. edge_text (pe_left_id p) (pe_right_id p)) (ac_proposals a))"
    using assms(13) by (simp add: distinct_map)
  have limits: "ac_complete a = (ac_limit_reason a = None)"
    "case ac_limit_reason a of None \<Rightarrow> False | Some w \<Rightarrow> blank w \<Longrightarrow> False"
    using assms(11) by (auto split: option.splits)
  have members: "\<not> list_ex (\<lambda>p. pe_left_id p \<notin> set (ac_left_ids a) \<or> pe_right_id p \<notin> set (ac_right_ids a)) (ac_proposals a)"
    and gaps: "\<not> list_ex (\<lambda>p. ac_optimal_utility_bp a < pe_counterfactual_objective_bp p \<or>
        pe_global_gap_bp p \<noteq> ac_optimal_utility_bp a - pe_counterfactual_objective_bp p) (ac_proposals a)"
    using p by (auto simp: list_ex_iff not_less)
  show ?thesis unfolding component_evidence_post_init_def
  proof (subst normal, rule checks_total)
    fix k assume k: "k \<in> set (component_evidence_checks a)"
    have cases: "k = required_text (ac_component_id a) ''component_id'' \<or> k = required_text (ac_graph_digest a) ''graph_digest'' \<or>
        k = required_text (ac_solver_version a) ''solver_version'' \<or> fst k = (\<not> distinct (ac_left_ids a)) \<or>
        fst k = (\<not> distinct (ac_right_ids a)) \<or> fst k = (ac_left_ids a = [] \<and> ac_right_ids a = []) \<or>
        fst k = (ac_candidate_count a < 0) \<or> fst k = (ac_optimal_utility_bp a < 0) \<or>
        k = optional_text (ac_limit_reason a) ''limit_reason'' \<or> fst k = (ac_complete a = (ac_limit_reason a \<noteq> None)) \<or>
        fst k = (\<not> distinct (map (\<lambda>p. edge_text (pe_left_id p) (pe_right_id p)) (ac_proposals a))) \<or>
        fst k = (\<not> ac_complete a \<and> ac_proposals a \<noteq> []) \<or>
        fst k = list_ex (\<lambda>p. pe_left_id p \<notin> set (ac_left_ids a) \<or> pe_right_id p \<notin> set (ac_right_ids a)) (ac_proposals a) \<or>
        fst k = list_ex (\<lambda>p. ac_optimal_utility_bp a < pe_counterfactual_objective_bp p \<or>
          pe_global_gap_bp p \<noteq> ac_optimal_utility_bp a - pe_counterfactual_objective_bp p) (ac_proposals a)"
      using k unfolding component_evidence_checks_def Let_def normal
      by (simp del: not_None_eq) (elim disjE; simp del: not_None_eq)
    then show "\<not> fst k"
      using assms(1-3,6-10,14) texts limits members gaps by (elim disjE) (simp_all del: not_None_eq, blast+)
  qed
qed

lemma assignment_limit_visible [simp]: "\<not> blank (assignment_limit_value l)"
  by (cases l) simp_all

lemma gate_selected_all:
  assumes contract: "minimizing_solver (sv_minimize solver)" and v: "valid_policy policy"
    and s: "solvable (sc_left_ids sc) (sc_right_ids sc) es (mp_assignment_floor_bp policy)"
    and d: "distinct (map ce_edge candidates)" and sub: "set es \<subseteq> set candidates"
    and ms: "best_matching es [] (mp_assignment_floor_bp policy) ms"
    and opt: "sc_optimal_utility_bp sc = utility (mp_assignment_floor_bp policy) (set ms)"
  shows "\<exists>ps. rmap (gate_selected (dict_of ce_edge candidates) policy solver sc es)
      (map (selected_of (mp_assignment_floor_bp policy)) ms) = Inr ps \<and>
    list_all2 (\<lambda>c p. proposal_for policy es (sc_optimal_utility_bp sc) c p) ms ps"
proof -
  let ?g = "gate_selected (dict_of ce_edge candidates) policy solver sc es" and ?f = "mp_assignment_floor_bp policy"
  have "\<exists>ps. rmap ?g (map (selected_of ?f) xs) = Inr ps \<and>
      list_all2 (\<lambda>c p. proposal_for policy es (sc_optimal_utility_bp sc) c p) xs ps" if "set xs \<subseteq> set ms" for xs
    using that
  proof (induction xs)
    case Nil
    then show ?case by simp
  next
    case (Cons c xs)
    then obtain ps where "rmap ?g (map (selected_of ?f) xs) = Inr ps"
      "list_all2 (\<lambda>c p. proposal_for policy es (sc_optimal_utility_bp sc) c p) xs ps" by auto
    moreover obtain p where "?g (selected_of ?f c) = Inr p" "proposal_for policy es (sc_optimal_utility_bp sc) c p"
      using gate_selected_total [OF contract v s d sub ms opt, of c] Cons.prems by auto
    ultimately show ?case by auto
  qed
  then show ?thesis by blast
qed

lemma proposals_edges:
  "list_all2 (\<lambda>c p. proposal_for policy es best c p) ms ps \<Longrightarrow> map pe_edge ps = map ce_edge ms"
  by (induction rule: list_all2_induct) (auto simp: proposal_for_def)

text \<open>What gating a component amounts to: its edges must be new, and the evidence constructible.\<close>

lemma gate_component_cases:
  assumes a: "assignable sha256 candidates policy solver"
    and es: "es \<in> set (component_edges policy candidates)" and sc: "solved_from sha256 policy limited es sc"
  shows "\<exists>ac. gated_from candidates policy sc ac \<and> component_evidence_normal ac = ac \<and>
    ((\<forall>c \<in> set candidates. no_nul (ce_left_id c)) \<longrightarrow> component_evidence_post_init ac = Inr ac) \<and>
    gate_component sha256 candidates policy solver (assigned, evidence) sc =
      rbind (checks [(\<exists>k \<in> set (map ce_edge es). k \<in> set assigned, ''eligible candidate edges cannot span assignment components'')] ())
        (\<lambda>_. rbind (component_evidence_post_init ac) (\<lambda>component. Inr (assigned @ map ce_edge es, evidence @ [component])))"
proof -
  let ?f = "mp_assignment_floor_bp policy"
  have contract: "minimizing_solver (sv_minimize solver)" and v: "valid_policy policy" and sha: "sha256_hex sha256"
    and cap: "cl_max_component_nodes (mp_limits policy) \<le> 900000" and d: "distinct (map ce_edge candidates)"
    and vc: "\<forall>c \<in> set candidates. valid_candidate c"
    using a by (auto simp: assignable_def list_all_iff)
  have input: "component_input policy es"
    using component_inputs [OF d vc] es by (simp add: component_edges_def)
  have as: "solved_as policy limited es sc" and opt0: "sc_optimal_utility_bp sc = sum_list (map se_utility_bp (sc_selected_edges sc))"
    and ids: "sc_component_id sc = component_id sha256 (sorted_set (map ce_left_id es)) (sorted_set (map ce_right_id es))"
    "sc_graph_digest sc = assignment_graph_digest sha256 (sc_component_id sc) ?f es"
    "sc_solver_version sc = mp_solver_version policy"
    using sc by (auto simp: solved_from_def)
  then have LR: "sc_left_ids sc = sorted_set (map ce_left_id es)" "sc_right_ids sc = sorted_set (map ce_right_id es)"
    "sc_candidate_count sc = int (length es)" by (auto simp: solved_as_def Let_def)
  have cands: "component_candidates candidates policy sc = es" by (rule component_candidates_eq [OF d es LR(1,2)])
  have sub: "set es \<subseteq> set candidates"
    using es edge_components_set [of "eligible_candidates policy candidates"] by (auto simp: component_edges_def set_eligible)
  let ?limit = "component_limit limited policy (sorted_set (map ce_left_id es)) (sorted_set (map ce_right_id es)) es"
  have lim: "sc_limit_reason sc = ?limit" "sc_complete sc \<longleftrightarrow> ?limit = None" using as by (auto simp: solved_as_def Let_def)
  let ?gate = "if sc_complete sc then rmap (gate_selected (dict_of ce_edge candidates) policy solver sc es) (sc_selected_edges sc)
      else Inr []"
  let ?proposed = "proposal_for policy es (sc_optimal_utility_bp sc)"
  have "\<exists>ps. ?gate = Inr ps \<and> list_all2 (\<lambda>sel p. \<exists>c. sel = selected_of ?f c \<and> ?proposed c p) (sc_selected_edges sc) ps \<and>
      sorted (map pe_edge ps) \<and> distinct (map pe_left_id ps) \<and> (sc_complete sc \<or> ps = []) \<and>
      (\<forall>p \<in> set ps. \<exists>c. ?proposed c p) \<and> 0 \<le> sc_optimal_utility_bp sc"
  proof (cases "?limit")
    case (Some l)
    with as opt0 show ?thesis by (simp add: solved_as_def Let_def)
  next
    case None
    then obtain ms where ms: "sc_selected_edges sc = map (selected_of ?f) ms" "best_matching es [] ?f ms"
      using as by (auto simp: solved_as_def Let_def)
    have s: "solvable (sc_left_ids sc) (sc_right_ids sc) es ?f"
      unfolding LR by (rule component_solvable [OF v input cap None])
    have m: "sorted (map ce_edge ms)" "distinct ms" "one_to_one (set ms)" "set ms \<subseteq> set es"
      using ms(2) by (auto simp: best_matching_def)
    have opt: "sc_optimal_utility_bp sc = utility ?f (set ms)" unfolding opt0 ms(1) by (rule sum_selected [OF m(2)])
    have nonneg: "0 \<le> utility ?f (set ms)"
      unfolding utility_def using m(4) s by (intro sum_nonneg) (auto simp: solvable_def less_imp_le)
    obtain ps where ps: "rmap (gate_selected (dict_of ce_edge candidates) policy solver sc es) (map (selected_of ?f) ms) = Inr ps"
      "list_all2 ?proposed ms ps"
      using gate_selected_all [OF contract v s d sub ms(2) opt] by blast
    have edges: "map pe_edge ps = map ce_edge ms" by (rule proposals_edges [OF ps(2)])
    then have "map fst (map pe_edge ps) = map fst (map ce_edge ms)" by simp
    then have "map pe_left_id ps = map ce_left_id ms" by (simp add: comp_def)
    then have "distinct (map pe_left_id ps)" using m(2,3) by (simp add: distinct_map one_to_one_def)
    moreover have "sorted (map pe_edge ps)" using m(1) by (simp add: edges)
    moreover have "list_all2 (\<lambda>sel p. \<exists>c. sel = selected_of ?f c \<and> ?proposed c p) (map (selected_of ?f) ms) ps"
      using ps(2) by (induction rule: list_all2_induct) auto
    moreover have "\<forall>p \<in> set ps. \<exists>c. ?proposed c p" using ps(2) by (induction rule: list_all2_induct) auto
    ultimately show ?thesis using None ps(1) ms(1) opt nonneg lim by auto
  qed
  then obtain ps where ps: "?gate = Inr ps"
    "list_all2 (\<lambda>sel p. \<exists>c. sel = selected_of ?f c \<and> ?proposed c p) (sc_selected_edges sc) ps"
    "sorted (map pe_edge ps)" "distinct (map pe_left_id ps)" "sc_complete sc \<or> ps = []"
    "\<forall>p \<in> set ps. \<exists>c. ?proposed c p" "0 \<le> sc_optimal_utility_bp sc" by blast
  let ?ac = "\<lparr>ac_component_id = sc_component_id sc, ac_graph_digest = sc_graph_digest sc,
      ac_solver_version = sc_solver_version sc, ac_left_ids = sc_left_ids sc,
      ac_right_ids = sc_right_ids sc, ac_candidate_count = sc_candidate_count sc,
      ac_optimal_utility_bp = sc_optimal_utility_bp sc, ac_complete = sc_complete sc,
      ac_limit_reason = map_option assignment_limit_value (sc_limit_reason sc), ac_proposals = ps\<rparr>"
  have "sorted (sc_left_ids sc)" "sorted (sc_right_ids sc)" by (simp_all add: LR)
  then have normal: "component_evidence_normal ?ac = ?ac"
    using ps(3) by (simp add: component_evidence_normal_def sort_key_id_if_sorted)
  have "component_evidence_post_init ?ac = Inr ?ac" if nul: "\<forall>c \<in> set candidates. no_nul (ce_left_id c)"
  proof -
    have member: "pe_left_id p \<in> set (sc_left_ids sc) \<and> pe_right_id p \<in> set (sc_right_ids sc) \<and> no_nul (pe_left_id p) \<and>
        pe_counterfactual_objective_bp p \<le> sc_optimal_utility_bp sc \<and>
        pe_global_gap_bp p = sc_optimal_utility_bp sc - pe_counterfactual_objective_bp p" if "p \<in> set ps" for p
      using ps(6) that sub nul by (fastforce simp: proposal_for_def LR)
    have "es \<noteq> []" using input by (simp add: component_input_def)
    then show ?thesis
      using ps(3,4,5,7) member lim
      by (intro component_evidence_ok)
        (auto simp: ids sha256_visible [OF sha] assignment_graph_digest_def valid_policy_scores(4) [OF v] LR
          split: option.splits)
  qed
  moreover have "gate_component sha256 candidates policy solver (assigned, evidence) sc =
      rbind (checks [(\<exists>k \<in> set (map ce_edge es). k \<in> set assigned, ''eligible candidate edges cannot span assignment components'')] ())
        (\<lambda>_. rbind (component_evidence_post_init ?ac) (\<lambda>component. Inr (assigned @ map ce_edge es, evidence @ [component])))"
    using ps(1) ids(2,3) LR(3) by (auto simp: gate_component_def cands Let_def checks.simps)
  moreover have "gated_from candidates policy sc ?ac" using ps(2) by (simp add: gated_from_def cands)
  ultimately show ?thesis using normal by (intro exI [of _ ?ac]) blast
qed

lemma gate_component_total:
  assumes a: "assignable sha256 candidates policy solver"
    and es: "es \<in> set (component_edges policy candidates)" and sc: "solved_from sha256 policy limited es sc"
    and nul: "\<And>c. c \<in> set candidates \<Longrightarrow> no_nul (ce_left_id c)"
    and fresh: "set (map ce_edge es) \<inter> set assigned = {}"
  shows "\<exists>ac. gate_component sha256 candidates policy solver (assigned, evidence) sc =
      Inr (assigned @ map ce_edge es, evidence @ [ac]) \<and> gated_from candidates policy sc ac"
proof -
  obtain ac where ac: "gated_from candidates policy sc ac" "component_evidence_post_init ac = Inr ac"
    "gate_component sha256 candidates policy solver (assigned, evidence) sc =
      rbind (checks [(\<exists>k \<in> set (map ce_edge es). k \<in> set assigned, ''eligible candidate edges cannot span assignment components'')] ())
        (\<lambda>_. rbind (component_evidence_post_init ac) (\<lambda>component. Inr (assigned @ map ce_edge es, evidence @ [component])))"
    using gate_component_cases [OF a es sc, of assigned evidence] nul by blast
  moreover have "\<not> (\<exists>k \<in> set (map ce_edge es). k \<in> set assigned)" using fresh by blast
  ultimately show ?thesis by (auto simp: checks.simps)
qed

lemma gate_component_Inr:
  assumes a: "assignable sha256 candidates policy solver"
    and es: "es \<in> set (component_edges policy candidates)" and sc: "solved_from sha256 policy limited es sc"
    and gate: "gate_component sha256 candidates policy solver (assigned, evidence) sc = Inr s"
  shows "\<exists>ac. s = (assigned @ map ce_edge es, evidence @ [ac]) \<and> gated_from candidates policy sc ac"
proof -
  obtain ac where ac: "gated_from candidates policy sc ac" "component_evidence_normal ac = ac"
    and eq: "gate_component sha256 candidates policy solver (assigned, evidence) sc =
      rbind (checks [(\<exists>k \<in> set (map ce_edge es). k \<in> set assigned, ''eligible candidate edges cannot span assignment components'')] ())
        (\<lambda>_. rbind (component_evidence_post_init ac) (\<lambda>component. Inr (assigned @ map ce_edge es, evidence @ [component])))"
    using gate_component_cases [OF a es sc, of assigned evidence] by blast
  from gate [unfolded eq] obtain x where "component_evidence_post_init ac = Inr x" "s = (assigned @ map ce_edge es, evidence @ [x])"
    by (auto simp: rbind_Inr_iff)
  with ac show ?thesis by (auto simp: component_evidence_post_init_def checks_Inr_iff)
qed

section \<open>Gating the assignment\<close>

text \<open>The components of a result and the edges they are made of.\<close>

definition source_of ::
    "(string \<Rightarrow> string) \<Rightarrow> matching_policy \<Rightarrow> candidate_evidence list \<Rightarrow> string list \<Rightarrow> solved_component \<Rightarrow>
     candidate_evidence list \<Rightarrow> bool"
where
  "source_of sha256 policy candidates limited sc es \<longleftrightarrow>
     es \<in> set (component_edges policy candidates) \<and> solved_from sha256 policy limited es sc \<and>
     component_candidates candidates policy sc = es"

lemma solved_sources:
  assumes a: "assignable sha256 candidates policy solver"
    and r: "solve_assignment sha256 candidates g policy solver = Inr r"
  shows "\<And>sc. sc \<in> set (sr_components r) \<Longrightarrow>
      source_of sha256 policy candidates (gr_limited_record_ids g) sc (component_candidates candidates policy sc)"
    and "\<And>es. es \<in> set (component_edges policy candidates) \<Longrightarrow>
      \<exists>sc \<in> set (sr_components r). component_candidates candidates policy sc = es"
    and "distinct (map sc_component_id (sr_components r))" and "sorted (map sc_component_id (sr_components r))"
proof -
  have d: "distinct (map ce_edge candidates)" using a by (simp add: assignable_def)
  from solve_assignment_Inr [OF a r] obtain comps where
    all: "list_all2 (solved_from sha256 policy (gr_limited_record_ids g)) (component_edges policy candidates) comps"
    and comps: "sr_components r = sort_key sc_component_id comps" and ids: "distinct (map sc_component_id comps)" by blast
  have eq: "component_candidates candidates policy sc = es"
    if "es \<in> set (component_edges policy candidates)" "solved_from sha256 policy (gr_limited_record_ids g) es sc" for es sc
    using that by (intro component_candidates_eq [OF d]) (auto simp: solved_from_def solved_as_def Let_def)
  show "source_of sha256 policy candidates (gr_limited_record_ids g) sc (component_candidates candidates policy sc)"
    if "sc \<in> set (sr_components r)" for sc
  proof -
    from that comps obtain n where n: "n < length comps" "sc = comps ! n" by (auto simp: in_set_conv_nth)
    with list_all2_nthD2 [OF all] list_all2_lengthD [OF all]
    have "solved_from sha256 policy (gr_limited_record_ids g) (component_edges policy candidates ! n) sc"
      "component_edges policy candidates ! n \<in> set (component_edges policy candidates)" by auto
    with eq show ?thesis by (simp add: source_of_def)
  qed
  show "\<exists>sc \<in> set (sr_components r). component_candidates candidates policy sc = es"
    if es: "es \<in> set (component_edges policy candidates)" for es
  proof -
    from es obtain n where n: "n < length (component_edges policy candidates)" "es = component_edges policy candidates ! n"
      by (auto simp: in_set_conv_nth)
    with list_all2_nthD [OF all] list_all2_lengthD [OF all]
    have "solved_from sha256 policy (gr_limited_record_ids g) es (comps ! n)" "comps ! n \<in> set comps" by auto
    with eq [OF es] comps show ?thesis by (intro bexI [of _ "comps ! n"]) simp_all
  qed
  show "distinct (map sc_component_id (sr_components r))" "sorted (map sc_component_id (sr_components r))"
    using ids by (simp_all add: comps)
qed

lemma sources_apart:
  assumes d: "distinct (map ce_edge candidates)"
    and "source_of sha256 policy candidates limited sc es" and "source_of sha256 policy candidates limited sc' es'"
    and "sc_component_id sc \<noteq> sc_component_id sc'"
  shows "set (map ce_edge es) \<inter> set (map ce_edge es') = {}"
proof (rule ccontr)
  let ?Ks = "component_edges policy candidates"
  assume "set (map ce_edge es) \<inter> set (map ce_edge es') \<noteq> {}"
  then obtain c c' where c: "c \<in> set es" "c' \<in> set es'" "ce_edge c = ce_edge c'" by auto
  from assms(2,3) obtain i j where i: "i < length ?Ks" "es = ?Ks ! i" and j: "j < length ?Ks" "es' = ?Ks ! j"
    by (auto simp: source_of_def in_set_conv_nth)
  with same_component [OF d, of i policy c j c'] c have "i = j" by (simp add: shares_record_def)
  with i j assms(2-4) show False by (simp add: source_of_def solved_from_def)
qed

theorem gate_assignment_total:
  assumes a: "assignable sha256 candidates policy solver"
    and r: "solve_assignment sha256 candidates g policy solver = Inr r"
    and nul: "\<And>c. c \<in> set candidates \<Longrightarrow> no_nul (ce_left_id c)"
  shows "\<exists>gt. gate_assignment sha256 candidates r policy solver = Inr gt \<and>
    list_all2 (gated_from candidates policy) (sr_components r) (gt_components gt) \<and>
    gt_proposals gt = sort_key pe_edge (concat (map ac_proposals (gt_components gt))) \<and>
    gt_accepted_proposals gt = filter pe_accepted (gt_proposals gt)"
proof -
  let ?f = "mp_assignment_floor_bp policy" and ?lim = "gr_limited_record_ids g" and ?scs = "sr_components r"
  let ?cands = "component_candidates candidates policy"
  have d: "distinct (map ce_edge candidates)" and ver: "sv_version solver = mp_solver_version policy"
    using a by (auto simp: assignable_def)
  note src = solved_sources [OF a r]
  define P where "P ys s \<longleftrightarrow> fst s = concat (map (\<lambda>sc. map ce_edge (?cands sc)) ys) \<and>
      list_all2 (gated_from candidates policy) ys (snd s)" for ys s
  have "\<exists>s. rfold (gate_component sha256 candidates policy solver) ([], []) ?scs = Inr s \<and> P ?scs s"
  proof (rule rfold_total_prefix)
    show "P [] ([], [])" by (simp add: P_def)
    fix ys sc zs s assume xs: "?scs = ys @ sc # zs" and P: "P ys s"
    have sc: "source_of sha256 policy candidates ?lim sc (?cands sc)" using src(1) [of sc] xs by simp
    have "set (map ce_edge (?cands sc)) \<inter> set (map ce_edge (?cands y)) = {}" if y: "y \<in> set ys" for y
    proof (rule sources_apart [OF d sc])
      show "source_of sha256 policy candidates ?lim y (?cands y)" using src(1) [of y] xs y by simp
      show "sc_component_id sc \<noteq> sc_component_id y" using src(3) xs y by auto
    qed
    then have "set (map ce_edge (?cands sc)) \<inter> set (fst s) = {}" using P by (auto simp: P_def)
    with sc nul obtain ac where "gate_component sha256 candidates policy solver (fst s, snd s) sc =
        Inr (fst s @ map ce_edge (?cands sc), snd s @ [ac])" "gated_from candidates policy sc ac"
      using gate_component_total [OF a, of "?cands sc" ?lim sc "fst s" "snd s"] by (auto simp: source_of_def)
    moreover from this(2) P have "P (ys @ [sc]) (fst s @ map ce_edge (?cands sc), snd s @ [ac])"
      unfolding P_def by (simp add: list_all2_appendI)
    ultimately show "\<exists>s'. gate_component sha256 candidates policy solver s sc = Inr s' \<and> P (ys @ [sc]) s'"
      by (metis prod.collapse)
  qed
  then obtain assigned acs where fold: "rfold (gate_component sha256 candidates policy solver) ([], []) ?scs = Inr (assigned, acs)"
    and assigned: "assigned = concat (map (\<lambda>sc. map ce_edge (?cands sc)) ?scs)"
    and acs: "list_all2 (gated_from candidates policy) ?scs acs" by (auto simp: P_def)
  have "set assigned = ce_edge ` (\<Union>sc \<in> set ?scs. set (?cands sc))" by (auto simp: assigned)
  also have "(\<Union>sc \<in> set ?scs. set (?cands sc)) = set (concat (component_edges policy candidates))"
    using src(1,2) by (auto simp: source_of_def)
  also have "\<dots> = set (eligible_candidates policy candidates)" by (simp only: component_edges_def edge_components_set)
  finally have assigned_set: "set assigned = ce_edge ` set (eligible_candidates policy candidates)" .
  have dict: "dict_of ce_edge candidates = map (\<lambda>c. (ce_edge c, c)) candidates"
  proof -
    have "fold (\<lambda>x e. dict_set e (ce_edge x) x) cs e = e @ map (\<lambda>c. (ce_edge c, c)) cs"
      if "distinct (map ce_edge cs)" "set (map fst e) \<inter> ce_edge ` set cs = {}" for cs e
      using that
    proof (induction cs arbitrary: e)
      case Nil
      then show ?case by simp
    next
      case (Cons c cs)
      have "dict_set e k c = e @ [(k, c)]" if "k \<notin> set (map fst e)" for k
        using that by (induction e) auto
      with Cons show ?case by auto
    qed
    with d show ?thesis by (simp add: dict_of_def)
  qed
  have eligible: "set (map fst (filter (\<lambda>(e, c). ?f < ce_score_bp c) (dict_of ce_edge candidates))) =
      ce_edge ` set (eligible_candidates policy candidates)"
    unfolding dict set_eligible by (auto, force)
  let ?ps = "concat (map ac_proposals acs)"
  let ?raw = "\<lparr>gt_components = acs, gt_proposals = ?ps, gt_accepted_proposals = filter pe_accepted ?ps\<rparr>"
  have ids: "map ac_component_id acs = map sc_component_id ?scs"
    using acs by (induction rule: list_all2_induct) (auto simp: gated_from_def)
  have sorted: "sort_key ac_component_id acs = acs" using src(4) by (simp add: sort_key_id_if_sorted ids)
  have edges: "map pe_edge (ac_proposals ac) = map se_edge (sc_selected_edges sc)" if "gated_from candidates policy sc ac" for sc ac
  proof -
    have "list_all2 (\<lambda>sel p. \<exists>c. sel = selected_of ?f c \<and> proposal_for policy (?cands sc) (sc_optimal_utility_bp sc) c p)
       (sc_selected_edges sc) (ac_proposals ac)" using that by (simp add: gated_from_def)
    then show ?thesis by (induction rule: list_all2_induct) (auto simp: proposal_for_def)
  qed
  have "map pe_edge ?ps = map se_edge (concat (map sc_selected_edges ?scs))"
    using acs by (induction rule: list_all2_induct) (simp_all add: edges)
  then have "map fst (map pe_edge ?ps) = map fst (map se_edge (concat (map sc_selected_edges ?scs)))"
    "map snd (map pe_edge ?ps) = map snd (map se_edge (concat (map sc_selected_edges ?scs)))" by simp_all
  then have sides: "map pe_left_id ?ps = map se_left_id (concat (map sc_selected_edges ?scs))"
    "map pe_right_id ?ps = map se_right_id (concat (map sc_selected_edges ?scs))" by (simp_all add: comp_def)
  from solve_assignment_Inr [OF a r] obtain comps where
    c: "?scs = sort_key sc_component_id comps" "sr_selected_edges r = sort_key se_edge (concat (map sc_selected_edges comps))"
    and o: "distinct (map se_left_id (sr_selected_edges r))" "distinct (map se_right_id (sr_selected_edges r))" by blast
  have perm: "mset (concat (map sc_selected_edges ?scs)) = mset (concat (map sc_selected_edges comps))"
    unfolding c(1) by (simp add: mset_concat flip: sum_mset_sum_list)
  then have "mset (map se_left_id (concat (map sc_selected_edges ?scs))) = mset (map se_left_id (concat (map sc_selected_edges comps)))"
    "mset (map se_right_id (concat (map sc_selected_edges ?scs))) = mset (map se_right_id (concat (map sc_selected_edges comps)))"
    by (simp_all only: mset_map)
  moreover have "distinct (map se_left_id (concat (map sc_selected_edges comps)))"
    "distinct (map se_right_id (concat (map sc_selected_edges comps)))"
    using o by (simp_all add: c(2) del: map_concat)
  ultimately have "distinct (map pe_left_id ?ps)" "distinct (map pe_right_id ?ps)"
    unfolding sides using mset_eq_imp_distinct_iff by blast+
  then have one: "distinct (map pe_left_id (sort_key pe_edge (filter pe_accepted ?ps)))"
    "distinct (map pe_right_id (sort_key pe_edge (filter pe_accepted ?ps)))"
    by (simp_all add: distinct_map_filter del: filter_concat map_concat)
  have "gated_post_init ?raw = Inr (gated_normal ?raw)"
    unfolding gated_post_init_def
  proof (rule checks_total)
    fix k assume "k \<in> set (gated_checks ?raw)"
    then show "\<not> fst k" using one src(3) sorted ids
      by (auto simp: gated_checks_def gated_normal_def Let_def filter_sort simp del: filter_concat map_concat)
  qed
  moreover have "length (dict_of ce_edge candidates) = length candidates" by (simp add: dict)
  ultimately have "gate_assignment sha256 candidates r policy solver = Inr (gated_normal ?raw)"
    using fold assigned_set eligible ver by (simp add: gate_assignment_def checks.simps Let_def del: filter_concat map_concat)
  with acs sorted show ?thesis
    by (intro exI [of _ "gated_normal ?raw"]) (simp add: gated_normal_def filter_sort del: filter_concat map_concat)
qed

lemma gate_assignment_Inr:
  assumes a: "assignable sha256 candidates policy solver"
    and r: "solve_assignment sha256 candidates g policy solver = Inr r"
    and gate: "gate_assignment sha256 candidates r policy solver = Inr gt"
  shows "list_all2 (gated_from candidates policy) (sr_components r) (gt_components gt)"
    and "gt_proposals gt = sort_key pe_edge (concat (map ac_proposals (gt_components gt)))"
    and "gt_accepted_proposals gt = filter pe_accepted (gt_proposals gt)"
proof -
  note src = solved_sources [OF a r]
  from gate obtain assigned acs where fold: "rfold (gate_component sha256 candidates policy solver) ([], []) (sr_components r) = Inr (assigned, acs)"
    and post: "gated_post_init \<lparr>gt_components = acs, gt_proposals = concat (map ac_proposals acs),
        gt_accepted_proposals = filter pe_accepted (concat (map ac_proposals acs))\<rparr> = Inr gt"
    by (auto simp: gate_assignment_def rbind_Inr_iff Let_def simp del: filter_concat map_concat split: if_splits)
  have acs: "list_all2 (gated_from candidates policy) (sr_components r) (snd (assigned, acs))"
    using fold
  proof (rule rfold_inv_prefix [where P = "\<lambda>ys s. list_all2 (gated_from candidates policy) ys (snd s)"])
    show "list_all2 (gated_from candidates policy) [] (snd ([], []))" by simp
    fix ys sc zs s s' assume xs: "sr_components r = ys @ sc # zs" and P: "list_all2 (gated_from candidates policy) ys (snd s)"
      and step: "gate_component sha256 candidates policy solver s sc = Inr s'"
    have "source_of sha256 policy candidates (gr_limited_record_ids g) sc (component_candidates candidates policy sc)"
      using src(1) [of sc] xs by simp
    with step obtain ac where "snd s' = snd s @ [ac]" "gated_from candidates policy sc ac"
      using gate_component_Inr [OF a, of "component_candidates candidates policy sc" "gr_limited_record_ids g" sc "fst s" "snd s" s']
      by (auto simp: source_of_def)
    with P show "list_all2 (gated_from candidates policy) (ys @ [sc]) (snd s')" by (simp add: list_all2_appendI)
  qed
  then have acs: "list_all2 (gated_from candidates policy) (sr_components r) acs" by simp
  then have "map ac_component_id acs = map sc_component_id (sr_components r)"
    by (induction rule: list_all2_induct) (auto simp: gated_from_def)
  with src(4) have sorted: "sort_key ac_component_id acs = acs" by (simp add: sort_key_id_if_sorted)
  from post have gt: "gt = gated_normal \<lparr>gt_components = acs, gt_proposals = concat (map ac_proposals acs),
        gt_accepted_proposals = filter pe_accepted (concat (map ac_proposals acs))\<rparr>"
    by (simp add: gated_post_init_def checks_Inr_iff)
  show "list_all2 (gated_from candidates policy) (sr_components r) (gt_components gt)"
    "gt_proposals gt = sort_key pe_edge (concat (map ac_proposals (gt_components gt)))"
    "gt_accepted_proposals gt = filter pe_accepted (gt_proposals gt)"
    using acs sorted by (simp_all add: gt gated_normal_def filter_sort del: filter_concat map_concat)
qed

section \<open>An accepted pair is in every best matching\<close>

lemma matchings_best_gap:
  assumes "list_all2 (component_matching policy limited) Ks mss"
    and "one_to_one M"
    and "\<And>K. K \<in> set Ks \<Longrightarrow> component_limit limited policy (sorted_set (map ce_left_id K))
        (sorted_set (map ce_right_id K)) K \<noteq> None \<Longrightarrow> M \<inter> set K = {}"
    and "es \<in> set Ks"
    and "\<And>ms. component_matching policy limited es ms \<Longrightarrow>
      utility (mp_assignment_floor_bp policy) (M \<inter> set es) + gap \<le> utility (mp_assignment_floor_bp policy) (set ms)"
  shows "sum_list (map (\<lambda>K. utility (mp_assignment_floor_bp policy) (M \<inter> set K)) Ks) + gap \<le>
    sum_list (map (\<lambda>ms. utility (mp_assignment_floor_bp policy) (set ms)) mss)"
  using assms(1,3,4)
proof (induction rule: list_all2_induct)
  case Nil
  then show ?case by simp
next
  case (Cons K Ks ms mss)
  let ?f = "mp_assignment_floor_bp policy"
  have single: "utility ?f (M \<inter> set K) \<le> utility ?f (set ms)"
    using matchings_best [of policy limited "[K]" "[ms]" M] Cons.hyps(1) Cons.prems(1) assms(2) by auto
  show ?case
  proof (cases "es = K")
    case True
    have "sum_list (map (\<lambda>K. utility ?f (M \<inter> set K)) Ks) \<le> sum_list (map (\<lambda>ms. utility ?f (set ms)) mss)"
      using Cons.hyps(2) Cons.prems(1) assms(2) by (intro matchings_best) auto
    with True assms(5) [of ms] Cons.hyps(1) show ?thesis by simp
  next
    case False
    have "sum_list (map (\<lambda>K. utility ?f (M \<inter> set K)) Ks) + gap \<le> sum_list (map (\<lambda>ms. utility ?f (set ms)) mss)"
      using False Cons.prems by (intro Cons.IH) auto
    with single show ?thesis by simp
  qed
qed

lemma sum_mset_cong_list: "mset xs = mset ys \<Longrightarrow> sum_list (map h xs) = sum_list (map (h :: 'a \<Rightarrow> int) ys)"
  by (metis mset_map sum_mset_sum_list)

theorem gap_is_global:
  assumes a: "assignable sha256 candidates policy solver"
    and r: "solve_assignment sha256 candidates g policy solver = Inr r"
    and sc: "sc \<in> set (sr_components r)"
    and sel: "selected_of (mp_assignment_floor_bp policy) c \<in> set (sc_selected_edges sc)"
    and p: "proposal_for policy (component_candidates candidates policy sc) (sc_optimal_utility_bp sc) c p"
    and M: "M \<subseteq> set (eligible_candidates policy candidates)" "one_to_one M"
      "\<forall>d \<in> M. ce_left_id d \<notin> set (sr_limited_record_ids r)" "c \<notin> M"
  shows "utility (mp_assignment_floor_bp policy) M + pe_global_gap_bp p \<le>
    sum_list (map se_utility_bp (sr_selected_edges r))"
proof -
  let ?f = "mp_assignment_floor_bp policy" and ?Ks = "component_edges policy candidates"
    and ?lim = "gr_limited_record_ids g" and ?es = "component_candidates candidates policy sc"
  have dc: "distinct (map ce_edge candidates)" using a by (simp add: assignable_def)
  from solve_assignment_Inr [OF a r] obtain comps where
    all: "list_all2 (solved_from sha256 policy ?lim) ?Ks comps"
    and selected: "sr_selected_edges r = sort_key se_edge (concat (map sc_selected_edges comps))"
    and limited: "set (sr_limited_record_ids r) = set ?lim \<union> set (incomplete_component_members comps)" by blast
  note as = solved_from_as [OF all]
  obtain mss where mss: "map sc_selected_edges comps = map (map (selected_of ?f)) mss"
    and matchings: "list_all2 (component_matching policy ?lim) ?Ks mss"
    using solved_components_matchings [OF as] by blast
  have source: "source_of sha256 policy candidates ?lim sc ?es" by (rule solved_sources(1) [OF a r sc])
  then have es: "?es \<in> set ?Ks" and origin: "solved_from sha256 policy ?lim ?es sc" by (simp_all add: source_of_def)
  let ?limit = "component_limit ?lim policy (sorted_set (map ce_left_id ?es)) (sorted_set (map ce_right_id ?es)) ?es"
  have none: "?limit = None" using origin sel by (auto simp: solved_from_def solved_as_def Let_def split: if_splits)
  then obtain ms where ms: "sc_selected_edges sc = map (selected_of ?f) ms" "best_matching ?es [] ?f ms"
    using origin by (auto simp: solved_from_def solved_as_def Let_def)
  then have opt: "sc_optimal_utility_bp sc = utility ?f (set ms)"
    using origin sum_selected [of ms ?f] by (simp add: solved_from_def best_matching_def)
  have gap: "utility ?f (M \<inter> set ?es) + pe_global_gap_bp p \<le> utility ?f (set ms')"
    if "component_matching policy ?lim ?es ms'" for ms'
  proof -
    have "one_to_one (M \<inter> set ?es)" by (rule one_to_one_subset [OF M(2)]) auto
    with p M(4) have "utility ?f (M \<inter> set ?es) + pe_global_gap_bp p \<le> utility ?f (set ms)"
      by (simp add: proposal_for_def gap_without_def opt)
    also have "\<dots> \<le> utility ?f (set ms')"
      using that none ms(2) by (simp add: component_matching_def best_matching_def)
    finally show ?thesis .
  qed
  have free: "M \<inter> set K = {}" if "K \<in> set ?Ks" "component_limit ?lim policy (sorted_set (map ce_left_id K))
      (sorted_set (map ce_right_id K)) K \<noteq> None" for K
    using incomplete_members_of [OF as that] M(3) limited by auto
  have "M \<inter> set (concat ?Ks) = M"
    using M(1) edge_components_set [of "eligible_candidates policy candidates"] by (auto simp: component_edges_def)
  then have "utility ?f M = sum_list (map (\<lambda>K. utility ?f (M \<inter> set K)) ?Ks)"
    using utility_concat [OF distinct_components [OF dc], of ?f M policy] by simp
  then have "utility ?f M + pe_global_gap_bp p \<le> sum_list (map (\<lambda>ms. utility ?f (set ms)) mss)"
    using matchings_best_gap [OF matchings M(2) free es gap] by simp
  also have "\<dots> = sum_list (map se_utility_bp (concat (map sc_selected_edges comps)))"
  proof -
    have "concat (map sc_selected_edges comps) = map (selected_of ?f) (concat mss)"
      unfolding mss by (simp only: map_concat)
    then show ?thesis
      using matchings_distinct [OF matchings distinct_components [OF dc], of ?f]
        sum_selected [of "concat mss" ?f] by simp
  qed
  also have "\<dots> = sum_list (map se_utility_bp (sr_selected_edges r))"
    unfolding selected by (rule sum_mset_cong_list) simp
  finally show ?thesis .
qed

section \<open>Claims\<close>

text \<open>The gated sample: the pair is accepted with the whole utility as its gap.\<close>

definition sample_proposal :: proposal_evidence where
  "sample_proposal = \<lparr>pe_left_id = ''a'', pe_right_id = ''b'', pe_score_bp = 10000,
     pe_counterfactual_objective_bp = 0, pe_global_gap_bp = 3000, pe_accepted = True, pe_gate_reasons = []\<rparr>"

definition sample_gated_component :: component_evidence where
  "sample_gated_component = \<lparr>ac_component_id = ''component-0000000000000000'',
     ac_graph_digest = replicate 64 (CHR ''0''), ac_solver_version = ''scipy-1.18.1-linear-sum-assignment-v1'',
     ac_left_ids = [''a''], ac_right_ids = [''b''], ac_candidate_count = 1, ac_optimal_utility_bp = 3000,
     ac_complete = True, ac_limit_reason = None, ac_proposals = [sample_proposal]\<rparr>"

definition sample_gated :: gated_result where
  "sample_gated = \<lparr>gt_components = [sample_gated_component], gt_proposals = [sample_proposal],
     gt_accepted_proposals = [sample_proposal]\<rparr>"

lemma sample_counterfactual: "sv_minimize sample_solver [[10002, 0]] = Inr [(0, 1)]"
  by (simp add: sample_solver_def scipy_solver_def exhaustive_lsa_def all_columns_def selection_cost_def
      selection_of_def int64_def upt_rec Let_def)

lemma pair_gated_eval:
  assumes pair: "sample_pair c"
  shows "gate_assignment sample_sha256 [c] sample_assignment demo_policy sample_solver = Inr sample_gated"
proof -
  note pair_simps = pair [unfolded sample_pair_def]
  have scores: "mp_assignment_floor_bp demo_policy = 7000" "mp_automatic_threshold_bp demo_policy = 9000"
    "mp_minimum_global_gap_bp demo_policy = 800"
    and version: "mp_solver_version demo_policy = ''scipy-1.18.1-linear-sum-assignment-v1''"
      "sv_version sample_solver = ''scipy-1.18.1-linear-sum-assignment-v1''"
    by (simp_all add: demo_policy_eval sample_solver_def scipy_solver_def)
  have counterfactual: "solve_component [''a''] [''b''] [c] 7000 sample_solver [(''a'', ''b'')] = Inr []"
    by (simp add: solve_component_def Let_def dict_of_def pair_simps assignment_costs_def edge_cost_def
        sample_counterfactual validate_solver_selection_def checks.simps dict_keys_def)
  have cands: "component_candidates [c] demo_policy sample_component = [c]"
    by (simp add: component_candidates_def scores sample_component_def, simp add: pair_simps)
  have edge: "ce_edge c = (''a'', ''b'')" by (simp add: pair_simps)
  have "gate_selected (dict_of ce_edge [c]) demo_policy sample_solver sample_component [c]
      (selected_of 7000 sample_candidate) = Inr sample_proposal"
    using counterfactual by (simp add: gate_selected_def dict_of_def edge scores sample_component_def Let_def
        gate_reasons_def, simp add: pair_simps sample_candidate_def proposal_evidence_post_init_def checks.simps required_text_def
        score_bp_def nonnegative_int_def SCORE_SCALE_BP_def sorted_set_def sample_proposal_def)
  moreover have "\<not> blank (replicate 64 (CHR ''0''))" by (simp add: numeral_eq_Suc)
  ultimately have component: "gate_component sample_sha256 [c] demo_policy sample_solver ([], []) sample_component =
      Inr ([(''a'', ''b'')], [sample_gated_component])"
    by (simp add: gate_component_def cands edge Let_def checks.simps version scores, simp add: sample_component_def
        component_evidence_post_init_def component_evidence_checks_def component_evidence_normal_def checks.simps
        required_text_def optional_text_def unique_check_def nonnegative_int_def sample_gated_component_def
        assignment_graph_digest_def sample_sha256_def sample_proposal_def)
  have "dict_of ce_edge [c] = [((''a'', ''b''), c)]" by (simp add: dict_of_def edge)
  with component show ?thesis
    by (simp add: gate_assignment_def version checks.simps sample_assignment_def scores, simp add: pair_simps
        gated_post_init_def gated_checks_def gated_normal_def checks.simps Let_def sample_gated_def sample_gated_component_def
        sample_proposal_def)
qed

lemmas sample_gated_eval = pair_gated_eval [OF sample_candidate_pair]

text \<open>Whatever the assignment and the solver, a proposal is accepted only if its candidate passes every gate.\<close>

definition gate_checked :: "matching_policy \<Rightarrow> candidate_evidence list \<Rightarrow> proposal_evidence \<Rightarrow> bool" where
  "gate_checked policy candidates p \<longleftrightarrow> (\<exists>c \<in> set candidates. pe_edge p = ce_edge c \<and> pe_score_bp p = ce_score_bp c \<and>
     (pe_accepted p \<longleftrightarrow> passes_gates policy c (pe_global_gap_bp p)))"

lemma gate_selected_checked:
  assumes "gate_selected (dict_of ce_edge candidates) policy solver sc es sel = Inr p"
  shows "gate_checked policy candidates p"
proof -
  from assms obtain c where c: "dict_get (dict_of ce_edge candidates) (se_edge sel) = Some c" "se_score_bp sel = ce_score_bp c"
    and p: "pe_edge p = se_edge sel" "pe_score_bp p = se_score_bp sel"
      "pe_accepted p \<longleftrightarrow> gate_reasons c (pe_global_gap_bp p) policy = []"
    by (auto simp: gate_selected_def rbind_Inr_iff Let_def proposal_evidence_post_init_def checks_Inr_iff
        split: option.splits if_splits)
  with dict_of_value [OF c(1)] show ?thesis unfolding gate_checked_def by (intro bexI [of _ c]) (auto simp: gate_reasons_none)
qed

lemma gate_component_checked:
  assumes "gate_component sha256 candidates policy solver st sc = Inr st'"
    and "\<forall>ac \<in> set (snd st). \<forall>p \<in> set (ac_proposals ac). gate_checked policy candidates p"
  shows "\<forall>ac \<in> set (snd st'). \<forall>p \<in> set (ac_proposals ac). gate_checked policy candidates p"
proof -
  let ?es = "component_candidates candidates policy sc"
  from assms(1) obtain ps raw ac where
    ps: "(if sc_complete sc then rmap (gate_selected (dict_of ce_edge candidates) policy solver sc ?es) (sc_selected_edges sc)
          else Inr []) = Inr ps"
    and ac: "component_evidence_post_init raw = Inr ac" "ac_proposals raw = ps" "snd st' = snd st @ [ac]"
    by (cases st) (auto simp: gate_component_def Let_def rbind_Inr_iff)
  from ac(1,2) have "set (ac_proposals ac) = set ps"
    by (auto simp: component_evidence_post_init_def component_evidence_normal_def checks_Inr_iff)
  moreover have "gate_checked policy candidates p" if "p \<in> set ps" for p
    using ps that by (auto dest!: rmap_in intro: gate_selected_checked split: if_splits)
  ultimately show ?thesis using assms(2) ac(3) by auto
qed

lemma accepted_gated:
  assumes gate: "gate_assignment sha256 candidates r policy solver = Inr gt" and p: "p \<in> set (gt_accepted_proposals gt)"
  shows "\<exists>c \<in> set candidates. pe_edge p = ce_edge c \<and> pe_score_bp p = ce_score_bp c \<and>
    passes_gates policy c (pe_global_gap_bp p)"
proof -
  from gate obtain assigned acs where
    fold: "rfold (gate_component sha256 candidates policy solver) ([], []) (sr_components r) = Inr (assigned, acs)"
    and post: "gated_post_init \<lparr>gt_components = acs, gt_proposals = concat (map ac_proposals acs),
        gt_accepted_proposals = filter pe_accepted (concat (map ac_proposals acs))\<rparr> = Inr gt"
    by (auto simp: gate_assignment_def rbind_Inr_iff Let_def simp del: filter_concat map_concat split: if_splits)
  have "\<forall>ac \<in> set (snd (assigned, acs)). \<forall>p \<in> set (ac_proposals ac). gate_checked policy candidates p"
    by (rule rfold_inv [OF fold]) (simp, erule (1) gate_component_checked [rotated])
  moreover from post p have "pe_accepted p" "\<exists>ac \<in> set acs. p \<in> set (ac_proposals ac)"
    by (auto simp: gated_post_init_def gated_normal_def checks_Inr_iff simp del: filter_concat map_concat)
  ultimately show ?thesis by (auto simp: gate_checked_def)
qed

lemma accepted_proposal:
  assumes a: "assignable sha256 candidates policy solver"
    and r: "solve_assignment sha256 candidates g policy solver = Inr r"
    and gate: "gate_assignment sha256 candidates r policy solver = Inr gt" and p: "p \<in> set (gt_accepted_proposals gt)"
  obtains sc c where "sc \<in> set (sr_components r)"
    "selected_of (mp_assignment_floor_bp policy) c \<in> set (sc_selected_edges sc)"
    "proposal_for policy (component_candidates candidates policy sc) (sc_optimal_utility_bp sc) c p"
    "passes_gates policy c (pe_global_gap_bp p)"
proof -
  let ?f = "mp_assignment_floor_bp policy"
  note all = gate_assignment_Inr(1) [OF a r gate] and ps = gate_assignment_Inr(2,3) [OF a r gate]
  from p ps obtain ac where p: "pe_accepted p" "ac \<in> set (gt_components gt)" "p \<in> set (ac_proposals ac)" by auto
  from list_all2_in_rev [OF all p(2)] obtain sc where sc: "sc \<in> set (sr_components r)" "gated_from candidates policy sc ac" by blast
  then have "list_all2 (\<lambda>sel p. \<exists>c. sel = selected_of ?f c \<and>
      proposal_for policy (component_candidates candidates policy sc) (sc_optimal_utility_bp sc) c p)
      (sc_selected_edges sc) (ac_proposals ac)" by (simp add: gated_from_def)
  from list_all2_in_rev [OF this p(3)] obtain c where c: "selected_of ?f c \<in> set (sc_selected_edges sc)"
    "proposal_for policy (component_candidates candidates policy sc) (sc_optimal_utility_bp sc) c p" by blast
  with p(1) sc show ?thesis by (intro that) (auto simp: proposal_for_def)
qed

text \<open>
  C5. An accepted proposal is decisive. Let an assignment be solved under the contract of the solver,
  which has the version of the policy: distinct constructed candidates, a constructed policy that
  bounds components at 900000 nodes or fewer, and a digest of 64 hexadecimal digits. Then an accepted
  proposal is one of the candidates, its score reaches the automatic threshold, its evidence covers
  enough fields without a contradiction and from a complete computation, and its gap reaches the
  minimum of the policy. The gap is global: any one-to-one set of candidates above the floor whose
  left records are not limited and that does without the pair has a total utility at least the gap
  below that of the selection of the whole run.
\<close>

theorem accepted_pairs_are_decisive:
  assumes "assignable sha256 candidates policy solver"
    and "solve_assignment sha256 candidates g policy solver = Inr r"
    and "gate_assignment sha256 candidates r policy solver = Inr gt" and "p \<in> set (gt_accepted_proposals gt)"
  shows "(\<exists>c \<in> set candidates. pe_edge p = ce_edge c \<and> pe_score_bp p = ce_score_bp c \<and>
      mp_automatic_threshold_bp policy \<le> ce_score_bp c \<and> ce_coverage_sufficient c \<and> ce_contradictions c = [] \<and>
      ce_complete_computation c) \<and>
    mp_minimum_global_gap_bp policy \<le> pe_global_gap_bp p \<and>
    (\<forall>M \<subseteq> set (eligible_candidates policy candidates).
      one_to_one M \<and> (\<forall>c \<in> M. ce_left_id c \<notin> set (sr_limited_record_ids r)) \<and> pe_edge p \<notin> ce_edge ` M \<longrightarrow>
      utility (mp_assignment_floor_bp policy) M + pe_global_gap_bp p \<le> sum_list (map se_utility_bp (sr_selected_edges r)))"
proof (rule accepted_proposal [OF assms])
  fix sc c
  assume sc: "sc \<in> set (sr_components r)" and c: "selected_of (mp_assignment_floor_bp policy) c \<in> set (sc_selected_edges sc)"
    "proposal_for policy (component_candidates candidates policy sc) (sc_optimal_utility_bp sc) c p"
    and gates: "passes_gates policy c (pe_global_gap_bp p)"
  from c(2) have p: "pe_edge p = ce_edge c" "pe_score_bp p = ce_score_bp c" "c \<in> set candidates"
    by (auto simp: proposal_for_def component_candidates_def)
  moreover have "utility (mp_assignment_floor_bp policy) M + pe_global_gap_bp p \<le> sum_list (map se_utility_bp (sr_selected_edges r))"
    if "M \<subseteq> set (eligible_candidates policy candidates)" "one_to_one M"
      "\<forall>c \<in> M. ce_left_id c \<notin> set (sr_limited_record_ids r)" "pe_edge p \<notin> ce_edge ` M" for M
    using gap_is_global [OF assms(1,2) sc c that(1-3)] that(4) p(1) by auto
  ultimately show ?thesis using gates unfolding passes_gates_def by blast
qed

theorem accepted_pairs_are_decisive_witness:
  "mp_minimum_global_gap_bp demo_policy \<le> pe_global_gap_bp sample_proposal \<and>
   utility 7000 {} + pe_global_gap_bp sample_proposal \<le> sum_list (map se_utility_bp (sr_selected_edges sample_assignment))"
proof -
  have "sample_proposal \<in> set (gt_accepted_proposals sample_gated)" by (simp add: sample_gated_def)
  from accepted_pairs_are_decisive [OF sample_assignable sample_assignment_eval sample_gated_eval this]
  have "mp_minimum_global_gap_bp demo_policy \<le> pe_global_gap_bp sample_proposal"
    and all: "\<forall>M \<subseteq> set (eligible_candidates demo_policy [sample_candidate]).
      one_to_one M \<and> (\<forall>c \<in> M. ce_left_id c \<notin> set (sr_limited_record_ids sample_assignment)) \<and> pe_edge sample_proposal \<notin> ce_edge ` M \<longrightarrow>
      utility (mp_assignment_floor_bp demo_policy) M + pe_global_gap_bp sample_proposal \<le>
        sum_list (map se_utility_bp (sr_selected_edges sample_assignment))" by blast+
  moreover have "mp_assignment_floor_bp demo_policy = 7000" by (simp add: demo_policy_eval)
  ultimately show ?thesis using all [rule_format, of "{}"] by (simp add: one_to_one_def)
qed

end
