(* ===== verification/ComparisonFacts.thy ===== *)
theory ComparisonFacts
  imports Comparison ReferenceFates
begin

text \<open>
  What a field comparison shows: it is always constructible, a pair gets one comparison for each
  of the nine fields, and the verdicts mean what they say, in spite of the 28-digit context.
\<close>

definition valid_tolerance :: "decimal_tolerance \<Rightarrow> bool" where
  "valid_tolerance t \<longleftrightarrow> decimal_tolerance_post_init t = Inr t"

definition valid_comparison :: "comparison_policy \<Rightarrow> bool" where
  "valid_comparison p \<longleftrightarrow> comparison_policy_post_init p = Inr p \<and>
     valid_tolerance (cp_quantity_tolerance p) \<and> valid_tolerance (cp_unit_price_tolerance p) \<and>
     valid_tolerance (cp_gross_amount_tolerance p)"

lemma default_precision_pos [simp]: "0 < default_precision"
  by (simp add: default_precision_def)

lemma valid_tolerance_bounds:
  assumes "valid_tolerance t"
  shows "0 \<le> dval (dt_absolute t)" and "0 \<le> dval (dt_relative t)"
  using assms by (simp_all add: valid_tolerance_def decimal_tolerance_post_init_def checks_Inr_iff not_less)

section \<open>Every comparison is constructible\<close>

text \<open>All explanations are sentences.\<close>

lemma sentence_not_blank: "CHR ''.'' \<in> set s \<Longrightarrow> \<not> blank s"
  by (rule blank_not_visible [of "CHR ''.''"]) simp_all

lemma new_comparison_ok:
  assumes "\<not> blank field" and "CHR ''.'' \<in> set explanation"
    and "case (signed, allowed) of
        (None, None) \<Rightarrow> True
      | (Some a, Some b) \<Rightarrow> is_delta a = is_delta b \<and> \<not> difference_negative b \<and> status \<notin> {MISSING, NOT_COMPARABLE}
      | _ \<Rightarrow> False"
  shows "new_comparison field status left right signed allowed explanation =
    Inr \<lparr>fc_field = field, fc_status = status, fc_left_value = left, fc_right_value = right,
      fc_signed_difference = signed, fc_allowed_difference = allowed, fc_explanation = explanation\<rparr>"
  using assms sentence_not_blank [OF assms(2)]
  by (auto simp: new_comparison_def field_comparison_post_init_def same_difference_type_def Let_def checks_Inr_iff
      split: option.splits)

text \<open>The status a comparison of two optional texts is to have.\<close>

definition text_verdict :: "string option \<Rightarrow> string option \<Rightarrow> comparison_status" where
  "text_verdict a b = (case (a, b) of (Some x, Some y) \<Rightarrow> if x = y then EXACT else DISCREPANT | _ \<Rightarrow> MISSING)"

lemma reference_comparison_total:
  "\<exists>c. reference_comparison l r origin contract = Inr c \<and> fc_field c = ''reference'' \<and>
     fc_status c = (if contract = SHARED_MUST_AGREE then text_verdict (mr_reference_value l) (mr_reference_value r)
       else text_verdict (mr_shared_reference_alias l) (mr_shared_reference_alias r))"
  by (auto simp: reference_comparison_def Let_def text_verdict_def new_comparison_ok split: option.split)

lemma categorical_total:
  assumes "\<not> blank field"
  shows "\<exists>c. categorical field label a b = Inr c \<and> fc_field c = field \<and> fc_status c = text_verdict a b"
  using assms by (auto simp: categorical_def text_verdict_def new_comparison_ok split: option.split)

definition state_verdict :: "comparison_policy \<Rightarrow> canonical_state \<Rightarrow> canonical_state \<Rightarrow> comparison_status" where
  "state_verdict policy a b = (if a = b then EXACT
     else if (a, b) \<in> set (cp_compatible_state_pairs policy) then WITHIN_TOLERANCE else DISCREPANT)"

lemma state_comparison_total:
  "\<exists>c. state_comparison a b policy = Inr c \<and> fc_field c = ''state'' \<and> fc_status c = state_verdict policy a b"
  by (auto simp: state_comparison_def Let_def state_verdict_def new_comparison_ok)

text \<open>Numbers and times: the status for an exact difference and an exact tolerance.\<close>

definition number_verdict :: "'a :: linordered_idom \<Rightarrow> 'a option \<Rightarrow> 'a option \<Rightarrow> comparison_status" where
  "number_verdict tolerance a b = (case (a, b) of
      (Some x, Some y) \<Rightarrow> if x = y then EXACT else if \<bar>y - x\<bar> \<le> tolerance then WITHIN_TOLERANCE else DISCREPANT
    | _ \<Rightarrow> MISSING)"

lemma duration_text_total: "\<exists>t. duration_text d = Inr t"
  using dec_div_total [of "dec_of_int 1000000" default_precision "dec_of_int d"]
  by (auto simp: duration_text_def dec_of_int_def rbind_Inr_iff)

lemma timestamp_comparison_total:
  assumes "0 \<le> tolerance"
  shows "\<exists>c. timestamp_comparison a b tolerance = Inr c \<and> fc_field c = ''timestamp'' \<and>
    fc_status c = number_verdict tolerance a b"
proof (cases "\<exists>x y. a = Some x \<and> b = Some y")
  case False
  then show ?thesis
    by (cases a; cases b) (auto simp: timestamp_comparison_def number_verdict_def new_comparison_ok)
next
  case True
  then obtain x y where "a = Some x" "b = Some y" by blast
  moreover obtain s where "duration_text (y - x) = Inr s" using duration_text_total by blast
  moreover obtain t where "duration_text tolerance = Inr t" using duration_text_total by blast
  ultimately show ?thesis
    using assms by (auto simp: timestamp_comparison_def number_verdict_def new_comparison_ok Let_def)
qed

lemma allowed_decimal_nonneg: "valid_tolerance t \<Longrightarrow> 0 \<le> dval (allowed_decimal t a b)"
  using valid_tolerance_bounds(1) [of t] by (simp add: allowed_decimal_def dval_dec_max le_max_iff_disj)

lemma not_difference_negative: "0 \<le> dval d \<Longrightarrow> \<not> difference_negative (DDecimal d)"
  by (simp add: dval_nonneg_iff)

lemma decimal_comparison_total:
  assumes "\<not> blank field" and "valid_tolerance t"
  shows "\<exists>c. decimal_comparison field label a b t = Inr c \<and> fc_field c = field \<and>
    fc_status c = (case (a, b) of (Some x, Some y) \<Rightarrow>
        if dval x = dval y then EXACT
        else if dval (dec_abs default_precision (dec_sub default_precision y x)) \<le> dval (allowed_decimal t x y)
        then WITHIN_TOLERANCE else DISCREPANT
      | _ \<Rightarrow> MISSING)"
proof (cases "\<exists>x y. a = Some x \<and> b = Some y")
  case False
  with assms(1) show ?thesis
    by (cases a; cases b) (auto simp: decimal_comparison_def new_comparison_ok)
next
  case True
  then obtain x y where "a = Some x" "b = Some y" by blast
  with assms(1) show ?thesis
    using not_difference_negative [OF allowed_decimal_nonneg [OF assms(2), of x y]]
    by (auto simp: decimal_comparison_def new_comparison_ok Let_def dec_sub_zero_iff dec_le_iff
        simp del: difference_negative.simps)
qed


section \<open>Rounding does not change a verdict\<close>

text \<open>
  A value of a \<open>NUMERIC(38, 12)\<close> column has at most twelve fraction digits. A difference of two
  such values that needs more than 28 digits is at least \<open>10 ^ 16\<close>, and so is its rounding.
\<close>

lemma dexp_exact_add: "dexp (exact_add a b) = min (dexp a) (dexp b)"
  by (simp add: exact_add_def Let_def)

lemma dval_abs_coef: "\<bar>dval d\<bar> = of_nat (dcoef d) * 10 powi dexp d"
  by (simp add: dval_def abs_mult)

lemma powi_10_mono: "e \<le> e' \<Longrightarrow> (10 :: rat) powi e \<le> 10 powi e'"
  by (rule power_int_increasing) simp_all

lemma dec_fix_large:
  assumes p: "0 < p" and more: "p < ndigits (dcoef d)" and e: "- int p - 1 < m" "m \<le> dexp d"
  shows "10 powi (int p + m) \<le> \<bar>dval d\<bar> \<and> 10 powi (int p + m) \<le> \<bar>dval (dec_fix p d)\<bar>"
proof
  let ?c = "dcoef d" and ?k = "dropped_digits p d"
  let ?q = "half_even_div ?c (10 ^ ?k)"
  have k: "ndigits ?c = p + ?k" "0 < ?k" using more by (simp_all add: dropped_digits_def)
  have pos: "0 < ?c" using more p by (cases "?c = 0") (auto simp: ndigits.simps [of 0])
  have low: "10 ^ (ndigits ?c - 1) \<le> ?c" by (rule ndigits_lower [OF pos])
  have "(10 :: rat) powi (int p + m) \<le> 10 powi (int (ndigits ?c - 1) + dexp d)"
    using e more by (intro powi_10_mono) auto
  also have "\<dots> = of_nat (10 ^ (ndigits ?c - 1)) * 10 powi dexp d" by (simp add: power_int_add)
  also have "\<dots> \<le> of_nat ?c * 10 powi dexp d"
    using low by (intro mult_right_mono) (simp_all only: of_nat_le_iff powi_10_nonneg)
  finally show "10 powi (int p + m) \<le> \<bar>dval d\<bar>" by (simp only: dval_abs_coef)
  have "(10 :: nat) ^ (ndigits ?c - 1) = 10 ^ (p - 1) * 10 ^ ?k"
    using k p by (simp flip: power_add)
  with low have q: "10 ^ (p - 1) \<le> ?q" by (intro half_even_div_ge) simp_all
  have "(10 :: rat) powi (int p + m) \<le> 10 powi (int (p - 1) + (dexp d + int ?k))"
    using e k(2) p by (intro powi_10_mono) auto
  also have "\<dots> = of_nat (10 ^ (p - 1)) * 10 powi (dexp d + int ?k)" by (simp add: power_int_add)
  also have "\<dots> \<le> of_nat ?q * 10 powi (dexp d + int ?k)"
    using q by (intro mult_right_mono) (simp_all only: of_nat_le_iff powi_10_nonneg)
  also have "\<dots> = \<bar>dval (dec_fix p d)\<bar>"
    by (simp add: dval_dec_fix [OF p more] abs_mult)
  finally show "10 powi (int p + m) \<le> \<bar>dval (dec_fix p d)\<bar>" .
qed

lemma dec_fix_twice: "0 < p \<Longrightarrow> dec_fix p (dec_fix p d) = dec_fix p d"
  by (simp add: dec_fix_exact ndigits_dec_fix)

lemma dval_dec_abs_fixed: "ndigits (dcoef d) \<le> p \<Longrightarrow> dval (dec_abs p d) = \<bar>dval d\<bar>"
  by (simp add: dec_abs_def dec_fix_exact dval_Dec_False)

lemma rounded_difference:
  assumes "- 12 \<le> dexp x" and "- 12 \<le> dexp y" and "t < 10 ^ 16"
  shows "dval (dec_abs default_precision (dec_sub default_precision y x)) \<le> t \<longleftrightarrow> \<bar>dval y - dval x\<bar> \<le> t"
proof -
  let ?s = "exact_add y (dec_neg x)"
  have v: "dval ?s = dval y - dval x" by (simp add: dval_exact_add dval_dec_neg)
  have abs: "dval (dec_abs default_precision (dec_sub default_precision y x)) = \<bar>dval (dec_fix default_precision ?s)\<bar>"
    by (simp add: dec_sub_def dec_add_def dval_dec_abs_fixed ndigits_dec_fix)
  show ?thesis
  proof (cases "ndigits (dcoef ?s) \<le> default_precision")
    case True
    with abs v show ?thesis by (simp add: dec_fix_exact)
  next
    case False
    have "- 12 \<le> dexp ?s" using assms(1,2) by (simp add: dexp_exact_add dec_neg_def)
    with False dec_fix_large [of default_precision ?s "- 12"]
    have "10 ^ 16 \<le> \<bar>dval ?s\<bar>" "10 ^ 16 \<le> \<bar>dval (dec_fix default_precision ?s)\<bar>"
      by (simp_all add: default_precision_def power_int_def)
    with assms(3) show ?thesis unfolding abs v by linarith
  qed
qed

lemma allowed_decimal_absolute:
  assumes "valid_tolerance t" and "dval (dt_relative t) = 0"
  shows "dval (allowed_decimal t x y) = dval (dt_absolute t)"
proof -
  have "dcoef (dt_relative t) = 0" using assms(2) by (simp flip: dec_is_zero_iff add: dec_is_zero_def)
  then have "dval (dec_mul default_precision (dt_relative t) z) = 0" for z
    by (simp add: dec_mul_def exact_mul_def dval_def)
  then show ?thesis using valid_tolerance_bounds(1) [OF assms(1)] by (simp add: allowed_decimal_def dval_dec_max)
qed

text \<open>The tolerance a policy states for two amounts: the absolute one, or a share of the larger amount.\<close>

definition tolerance_for :: "decimal_tolerance \<Rightarrow> dec \<Rightarrow> dec \<Rightarrow> rat" where
  "tolerance_for t x y = max (dval (dt_absolute t)) (dval (dt_relative t) * max \<bar>dval x\<bar> \<bar>dval y\<bar>)"

lemma ndigits_mult: "ndigits (a * b) \<le> ndigits a + ndigits b"
proof -
  have "a * b < 10 ^ ndigits a * 10 ^ ndigits b"
    using ndigits_upper [of a] ndigits_upper [of b] by (intro mult_strict_mono) simp_all
  then show ?thesis by (simp add: ndigits_le_iff power_add)
qed

lemma dec_max_cases: "dec_max a b = a \<or> dec_max a b = b"
  by (simp add: dec_max_def)

lemma allowed_decimal_relative:
  assumes "ndigits (dcoef (dt_relative t)) + ndigits (dcoef x) \<le> default_precision"
    and "ndigits (dcoef (dt_relative t)) + ndigits (dcoef y) \<le> default_precision"
  shows "dval (allowed_decimal t x y) = tolerance_for t x y"
proof -
  have abs: "dec_abs default_precision x = Dec False (dcoef x) (dexp x)" "dec_abs default_precision y = Dec False (dcoef y) (dexp y)"
    using assms by (simp_all add: dec_abs_def dec_fix_exact)
  let ?z = "dec_max (dec_abs default_precision x) (dec_abs default_precision y)"
  have "dcoef ?z = dcoef x \<or> dcoef ?z = dcoef y"
    using dec_max_cases [of "dec_abs default_precision x" "dec_abs default_precision y"] by (auto simp: abs)
  then have "ndigits (dcoef (dt_relative t) * dcoef ?z) \<le> default_precision"
    using ndigits_mult [of "dcoef (dt_relative t)" "dcoef ?z"] assms by auto
  then have "dec_mul default_precision (dt_relative t) ?z = exact_mul (dt_relative t) ?z"
    by (simp add: dec_mul_def dec_fix_exact exact_mul_def)
  moreover have "dval ?z = max \<bar>dval x\<bar> \<bar>dval y\<bar>" by (simp add: dval_dec_max abs dval_Dec_False)
  ultimately show ?thesis by (simp add: allowed_decimal_def dval_dec_max tolerance_for_def dval_exact_mul)
qed

text \<open>
  Two amounts on which the 28-digit context is exact enough: at most twelve fraction digits, a
  stated tolerance below \<open>10 ^ 16\<close>, and, where the tolerance is relative, a share whose digits and
  those of each amount are 28 at most.
\<close>

definition exact_for :: "decimal_tolerance \<Rightarrow> dec option \<Rightarrow> dec option \<Rightarrow> bool" where
  "exact_for t a b \<longleftrightarrow> (case (a, b) of
      (Some x, Some y) \<Rightarrow> - 12 \<le> dexp x \<and> - 12 \<le> dexp y \<and> tolerance_for t x y < 10 ^ 16 \<and>
        (dval (dt_relative t) = 0 \<or>
         ndigits (dcoef (dt_relative t)) + ndigits (dcoef x) \<le> default_precision \<and>
         ndigits (dcoef (dt_relative t)) + ndigits (dcoef y) \<le> default_precision)
    | _ \<Rightarrow> True)"

text \<open>The verdict of exact arithmetic on two amounts.\<close>

definition amount_verdict :: "decimal_tolerance \<Rightarrow> dec option \<Rightarrow> dec option \<Rightarrow> comparison_status" where
  "amount_verdict t a b = (case (a, b) of
      (Some x, Some y) \<Rightarrow> if dval x = dval y then EXACT
        else if \<bar>dval y - dval x\<bar> \<le> tolerance_for t x y then WITHIN_TOLERANCE else DISCREPANT
    | _ \<Rightarrow> MISSING)"

lemma allowed_decimal_exact:
  assumes "valid_tolerance t" and "exact_for t (Some x) (Some y)"
  shows "dval (allowed_decimal t x y) = tolerance_for t x y"
proof (cases "dval (dt_relative t) = 0")
  case True
  then show ?thesis using allowed_decimal_absolute [OF assms(1) True] valid_tolerance_bounds(1) [OF assms(1)]
    by (simp add: tolerance_for_def)
next
  case False
  with assms(2) show ?thesis by (intro allowed_decimal_relative) (auto simp: exact_for_def)
qed

lemma decimal_comparison_exact:
  assumes "\<not> blank field" and vt: "valid_tolerance t" and e: "exact_for t a b"
  shows "\<exists>c. decimal_comparison field label a b t = Inr c \<and> fc_field c = field \<and> fc_status c = amount_verdict t a b"
proof (cases "\<exists>x y. a = Some x \<and> b = Some y")
  case True
  then obtain x y where xy: "a = Some x" "b = Some y" by blast
  with e have "- 12 \<le> dexp x" "- 12 \<le> dexp y" "tolerance_for t x y < 10 ^ 16" by (auto simp: exact_for_def)
  from rounded_difference [OF this] allowed_decimal_exact [OF vt, of x y] e xy
  have "dval (dec_abs default_precision (dec_sub default_precision y x)) \<le> dval (allowed_decimal t x y) \<longleftrightarrow>
      \<bar>dval y - dval x\<bar> \<le> tolerance_for t x y" by simp
  moreover obtain c where "decimal_comparison field label a b t = Inr c" "fc_field c = field"
    "fc_status c = (if dval x = dval y then EXACT
        else if dval (dec_abs default_precision (dec_sub default_precision y x)) \<le> dval (allowed_decimal t x y)
        then WITHIN_TOLERANCE else DISCREPANT)"
    using decimal_comparison_total [OF assms(1) vt, of label a b] by (auto simp: xy)
  ultimately show ?thesis by (intro exI [of _ c]) (simp add: xy amount_verdict_def)
next
  case False
  with decimal_comparison_total [OF assms(1) vt, of label a b] show ?thesis
    by (cases a; cases b) (auto simp: amount_verdict_def)
qed

text \<open>Amounts are compared within one known currency only.\<close>

definition money_verdict ::
    "decimal_tolerance \<Rightarrow> dec option \<Rightarrow> dec option \<Rightarrow> string option \<Rightarrow> string option \<Rightarrow> comparison_status"
where
  "money_verdict t a b ca cb = (if ca = None \<or> cb = None \<or> ca \<noteq> cb then NOT_COMPARABLE else amount_verdict t a b)"

lemma monetary_comparison_total:
  assumes "\<not> blank field" and "valid_tolerance t" and "e \<longleftrightarrow> ca \<noteq> None \<and> cb \<noteq> None \<and> ca = cb"
  shows "\<exists>c. monetary_comparison field label a b t ca cb e = Inr c \<and> fc_field c = field \<and>
    (exact_for t a b \<longrightarrow> fc_status c = money_verdict t a b ca cb)"
proof (cases "ca = None \<or> cb = None \<or> ca \<noteq> cb")
  case True
  with assms show ?thesis
    by (cases ca; cases cb) (auto simp: monetary_comparison_def money_verdict_def new_comparison_ok)
next
  case False
  then obtain x where c: "ca = Some x" "cb = Some x" by auto
  from decimal_comparison_total [OF assms(1,2), of label a b]
  obtain v where v: "decimal_comparison field label a b t = Inr v" "fc_field v = field" by blast
  have "fc_status v = amount_verdict t a b" if "exact_for t a b"
    using decimal_comparison_exact [OF assms(1,2) that, of label] v by auto
  with v c assms(3) show ?thesis
    by (auto simp: monetary_comparison_def money_verdict_def)
qed


section \<open>The nine comparisons of a pair\<close>

definition comparison_fields :: "string list" where
  "comparison_fields = [''currency'', ''gross_amount'', ''instrument'', ''quantity'', ''reference'', ''side'',
     ''state'', ''timestamp'', ''unit_price'']"

definition exact_pair :: "comparison_policy \<Rightarrow> match_record \<Rightarrow> match_record \<Rightarrow> bool" where
  "exact_pair p l r \<longleftrightarrow> exact_for (cp_quantity_tolerance p) (mr_quantity l) (mr_quantity r) \<and>
     exact_for (cp_unit_price_tolerance p) (mr_unit_price l) (mr_unit_price r) \<and>
     exact_for (cp_gross_amount_tolerance p) (mr_gross_amount l) (mr_gross_amount r)"

text \<open>The statuses a pair is to get, in the order of the fields, by exact arithmetic.\<close>

definition expected_statuses ::
    "match_record \<Rightarrow> match_record \<Rightarrow> comparison_policy \<Rightarrow> reference_contract \<Rightarrow> comparison_status list"
where
  "expected_statuses l r p contract =
    [text_verdict (mr_currency l) (mr_currency r),
     money_verdict (cp_gross_amount_tolerance p) (mr_gross_amount l) (mr_gross_amount r)
       (mr_currency l) (mr_currency r),
     text_verdict (mr_instrument l) (mr_instrument r),
     amount_verdict (cp_quantity_tolerance p) (mr_quantity l) (mr_quantity r),
     (if contract = SHARED_MUST_AGREE then text_verdict (mr_reference_value l) (mr_reference_value r)
      else text_verdict (mr_shared_reference_alias l) (mr_shared_reference_alias r)),
     text_verdict (map_option side_value (mr_side l)) (map_option side_value (mr_side r)),
     state_verdict p (mr_state l) (mr_state r),
     number_verdict (cp_timestamp_tolerance p) (mr_executed_at l) (mr_executed_at r),
     money_verdict (cp_unit_price_tolerance p) (mr_unit_price l) (mr_unit_price r)
       (mr_currency l) (mr_currency r)]"

lemma compare_pair_fields_facts:
  assumes p: "valid_comparison policy"
  shows "\<exists>cs. compare_pair_fields l r origin policy contract = Inr cs \<and> map fc_field cs = comparison_fields \<and>
    (exact_pair policy l r \<longrightarrow>
      map fc_status cs = expected_statuses l r policy contract)"
proof -
  have tols: "valid_tolerance (cp_quantity_tolerance policy)" "valid_tolerance (cp_unit_price_tolerance policy)"
    "valid_tolerance (cp_gross_amount_tolerance policy)" "0 \<le> cp_timestamp_tolerance policy"
    using p by (simp_all add: valid_comparison_def comparison_policy_post_init_def checks_Inr_iff not_less)
  let ?equal = "mr_currency l \<noteq> None \<and> mr_currency r \<noteq> None \<and> mr_currency l = mr_currency r"
  obtain c1 where c1: "reference_comparison l r origin contract = Inr c1" "fc_field c1 = ''reference''"
    "fc_status c1 = (if contract = SHARED_MUST_AGREE then text_verdict (mr_reference_value l) (mr_reference_value r)
      else text_verdict (mr_shared_reference_alias l) (mr_shared_reference_alias r))"
    using reference_comparison_total by blast
  obtain c2 where c2: "categorical ''instrument'' ''Instrument'' (mr_instrument l) (mr_instrument r) = Inr c2"
    "fc_field c2 = ''instrument''" "fc_status c2 = text_verdict (mr_instrument l) (mr_instrument r)"
    using categorical_total [of "''instrument''" "''Instrument''" "mr_instrument l" "mr_instrument r"] by auto
  obtain c3 where c3: "categorical ''side'' ''Side'' (map_option side_value (mr_side l)) (map_option side_value (mr_side r)) = Inr c3"
    "fc_field c3 = ''side''" "fc_status c3 = text_verdict (map_option side_value (mr_side l)) (map_option side_value (mr_side r))"
    using categorical_total [of "''side''" "''Side''" "map_option side_value (mr_side l)" "map_option side_value (mr_side r)"]
    by auto
  obtain c4 where c4: "decimal_comparison ''quantity'' ''Quantity'' (mr_quantity l) (mr_quantity r) (cp_quantity_tolerance policy) = Inr c4"
    "fc_field c4 = ''quantity''"
    using decimal_comparison_total [OF _ tols(1), of "''quantity''" "''Quantity''" "mr_quantity l" "mr_quantity r"] by auto
  have c4s: "fc_status c4 = amount_verdict (cp_quantity_tolerance policy) (mr_quantity l) (mr_quantity r)" if "exact_pair policy l r"
    using decimal_comparison_exact [of "''quantity''" "cp_quantity_tolerance policy" "mr_quantity l" "mr_quantity r" "''Quantity''"]
      c4 that tols(1) by (auto simp: exact_pair_def)
  obtain c5 where c5: "timestamp_comparison (mr_executed_at l) (mr_executed_at r) (cp_timestamp_tolerance policy) = Inr c5"
    "fc_field c5 = ''timestamp''" "fc_status c5 = number_verdict (cp_timestamp_tolerance policy) (mr_executed_at l) (mr_executed_at r)"
    using timestamp_comparison_total [OF tols(4)] by blast
  note money = monetary_comparison_total [where e = ?equal, OF _ _ refl]
  obtain c6 where c6: "monetary_comparison ''unit_price'' ''Unit price'' (mr_unit_price l) (mr_unit_price r)
      (cp_unit_price_tolerance policy) (mr_currency l) (mr_currency r) ?equal = Inr c6" "fc_field c6 = ''unit_price''"
    "exact_for (cp_unit_price_tolerance policy) (mr_unit_price l) (mr_unit_price r) \<longrightarrow>
      fc_status c6 = money_verdict (cp_unit_price_tolerance policy) (mr_unit_price l) (mr_unit_price r)
        (mr_currency l) (mr_currency r)"
    using money [of "''unit_price''" _ "''Unit price''" "mr_unit_price l" "mr_unit_price r", OF _ tols(2)] by auto
  obtain c7 where c7: "monetary_comparison ''gross_amount'' ''Gross amount'' (mr_gross_amount l) (mr_gross_amount r)
      (cp_gross_amount_tolerance policy) (mr_currency l) (mr_currency r) ?equal = Inr c7" "fc_field c7 = ''gross_amount''"
    "exact_for (cp_gross_amount_tolerance policy) (mr_gross_amount l) (mr_gross_amount r) \<longrightarrow>
      fc_status c7 = money_verdict (cp_gross_amount_tolerance policy) (mr_gross_amount l) (mr_gross_amount r)
        (mr_currency l) (mr_currency r)"
    using money [of "''gross_amount''" _ "''Gross amount''" "mr_gross_amount l" "mr_gross_amount r", OF _ tols(3)] by auto
  obtain c8 where c8: "categorical ''currency'' ''Currency'' (mr_currency l) (mr_currency r) = Inr c8"
    "fc_field c8 = ''currency''" "fc_status c8 = text_verdict (mr_currency l) (mr_currency r)"
    using categorical_total [of "''currency''" "''Currency''" "mr_currency l" "mr_currency r"] by auto
  obtain c9 where c9: "state_comparison (mr_state l) (mr_state r) policy = Inr c9"
    "fc_field c9 = ''state''" "fc_status c9 = state_verdict policy (mr_state l) (mr_state r)"
    using state_comparison_total by blast
  have sorted: "sort_key fc_field [c1, c2, c3, c4, c5, c6, c7, c8, c9] = [c8, c7, c2, c4, c1, c3, c9, c5, c6]"
    by (simp add: c1(2) c2(2) c3(2) c4(2) c5(2) c6(2) c7(2) c8(2) c9(2) less_char_def)
  have "compare_pair_fields l r origin policy contract = Inr [c8, c7, c2, c4, c1, c3, c9, c5, c6]"
    using c1(1) c2(1) c3(1) c4(1) c5(1) c6(1) c7(1) c8(1) c9(1) sorted
    by (simp add: compare_pair_fields_def field_comparisons_def Let_def del: insort_key.simps sort_key_simps)
  moreover have "map fc_field [c8, c7, c2, c4, c1, c3, c9, c5, c6] = comparison_fields"
    by (simp add: comparison_fields_def c1(2) c2(2) c3(2) c4(2) c5(2) c6(2) c7(2) c8(2) c9(2))
  moreover have "map fc_status [c8, c7, c2, c4, c1, c3, c9, c5, c6] = expected_statuses l r policy contract"
    if "exact_pair policy l r"
    using c4s that c6(3) c7(3)
    by (simp add: expected_statuses_def c1(3) c2(3) c3(3) c5(3) c8(3) c9(3) exact_pair_def)
  ultimately show ?thesis by blast
qed


section \<open>Claims\<close>

lemma demo_comparison_valid: "valid_comparison demo_comparison_policy"
  by (auto simp: valid_comparison_def valid_tolerance_def
      demo_comparison_policy_def comparison_policy_post_init_def comparison_policy_normal_def
      decimal_tolerance_post_init_def finite_decimal_def dec_less_iff dec_of_int_def checks_Inr_iff dval_def
      power_int_def power_divide)

text \<open>
  C7. The verdict of a field comparison is the verdict of exact arithmetic. The comparison of a
  constructed policy returns the nine fields once each, in their order. Where each pair of amounts
  has at most twelve fraction digits, the tolerance stated for it is below \<open>10 ^ 16\<close>, and a relative
  tolerance and each amount have 28 significant digits together at most, each status is the one
  exact differences give: amounts are compared within one known currency only, a missing value is
  MISSING, equality is equality of values whatever the digits, and an amount is within tolerance
  exactly when the difference is at most the larger of the absolute tolerance and the relative
  share of the larger amount.
\<close>

theorem comparison_verdicts_exact:
  assumes "valid_comparison policy" and "exact_pair policy l r"
  shows "\<exists>cs. compare_pair_fields l r origin policy contract = Inr cs \<and> map fc_field cs = comparison_fields \<and>
    map fc_status cs = expected_statuses l r policy contract"
  using compare_pair_fields_facts [of policy l r origin contract] assms by auto

text \<open>A policy that tolerates five percent in the quantity, and quantities of 100, 104 and 106.\<close>

definition share_policy :: comparison_policy where
  "share_policy = demo_comparison_policy\<lparr>cp_quantity_tolerance := \<lparr>dt_absolute = Dec False 0 0, dt_relative = Dec False 5 (- 2)\<rparr>\<rparr>"

definition quantity_record :: "nat \<Rightarrow> match_record" where
  "quantity_record n = (sample_record ''a'' SETTLED None)\<lparr>mr_quantity := Some (Dec False n 0)\<rparr>"

lemma share_policy_valid: "valid_comparison share_policy"
  by (auto simp: valid_comparison_def valid_tolerance_def share_policy_def
      demo_comparison_policy_def comparison_policy_post_init_def comparison_policy_normal_def
      decimal_tolerance_post_init_def finite_decimal_def dec_less_iff dec_of_int_def checks_Inr_iff dval_def
      power_int_def power_divide)

lemma share_policy_exact: "m < 1000 \<Longrightarrow> n < 1000 \<Longrightarrow> exact_pair share_policy (quantity_record m) (quantity_record n)"
proof -
  assume "m < 1000" "n < 1000"
  then have "ndigits m \<le> 3" "ndigits n \<le> 3" "(of_nat m :: rat) < 1000" "(of_nat n :: rat) < 1000"
    by (simp_all add: ndigits_le_iff)
  moreover have "ndigits 5 = 1" by (simp add: ndigits.simps)
  ultimately show ?thesis
    by (simp add: exact_pair_def exact_for_def share_policy_def quantity_record_def demo_comparison_policy_def sample_record_def
        tolerance_for_def dval_def default_precision_def power_int_def power_divide)
qed

theorem comparison_verdicts_exact_witness:
  "\<exists>cs ds. compare_pair_fields (quantity_record 100) (quantity_record 105) MANUAL share_policy SHARED_MUST_AGREE = Inr cs \<and>
     compare_pair_fields (quantity_record 100) (quantity_record 106) MANUAL share_policy SHARED_MUST_AGREE = Inr ds \<and>
     fc_status (cs ! 3) = WITHIN_TOLERANCE \<and> fc_status (ds ! 3) = DISCREPANT"
proof -
  have verdict: "expected_statuses (quantity_record 100) (quantity_record 105) share_policy SHARED_MUST_AGREE ! 3 = WITHIN_TOLERANCE"
    "expected_statuses (quantity_record 100) (quantity_record 106) share_policy SHARED_MUST_AGREE ! 3 = DISCREPANT"
    by (simp_all add: expected_statuses_def quantity_record_def share_policy_def amount_verdict_def tolerance_for_def dval_def
        power_int_def power_divide)
  have status: "fc_status (cs ! 3) = xs ! 3" if "map fc_status cs = xs" "length xs = 9" for cs xs
    using that by auto
  have len: "length (expected_statuses l r p c) = 9" for l r p c by (simp add: expected_statuses_def)
  obtain cs where cs: "compare_pair_fields (quantity_record 100) (quantity_record 105) MANUAL share_policy SHARED_MUST_AGREE = Inr cs"
    "map fc_status cs = expected_statuses (quantity_record 100) (quantity_record 105) share_policy SHARED_MUST_AGREE"
    using comparison_verdicts_exact [OF share_policy_valid share_policy_exact, of 100 105] by auto
  obtain ds where ds: "compare_pair_fields (quantity_record 100) (quantity_record 106) MANUAL share_policy SHARED_MUST_AGREE = Inr ds"
    "map fc_status ds = expected_statuses (quantity_record 100) (quantity_record 106) share_policy SHARED_MUST_AGREE"
    using comparison_verdicts_exact [OF share_policy_valid share_policy_exact, of 100 106] by auto
  show ?thesis using cs(1) ds(1) status [OF cs(2) len] status [OF ds(2) len] verdict by (intro exI [of _ cs] exI [of _ ds]) simp
qed

lemma ndigits_eq:
  assumes "1 < k" and "10 ^ (k - 1) \<le> n" and "n < 10 ^ k"
  shows "ndigits n = k"
  using assms ndigits_le_iff [of k n] ndigits_le_iff [of "k - 1" n] by linarith

text \<open>
  With a relative tolerance the verdict is not exact. There are two amounts of the column
  type whose difference exceeds half of the larger one and that a relative tolerance of one half
  nevertheless reports as within the tolerance: the difference is rounded to 28 digits before it
  is compared.
\<close>

definition large_amount :: dec where
  "large_amount = Dec False (2 * 10 ^ 37) (- 12)"

definition half_amount :: dec where
  "half_amount = Dec False (10 ^ 37 - 1) (- 12)"

lemma relative_verdict_is_rounded:
  "\<exists>c. decimal_comparison ''quantity'' ''Quantity'' (Some large_amount) (Some half_amount)
      \<lparr>dt_absolute = Dec False 0 0, dt_relative = Dec False 5 (- 1)\<rparr> = Inr c \<and> fc_status c = WITHIN_TOLERANCE \<and>
    \<bar>dval half_amount - dval large_amount\<bar> > 5 / 10 * max \<bar>dval large_amount\<bar> \<bar>dval half_amount\<bar>"
proof -
  let ?t = "\<lparr>dt_absolute = Dec False 0 0, dt_relative = Dec False 5 (- 1)\<rparr>"
  have t: "valid_tolerance ?t"
    by (simp add: valid_tolerance_def decimal_tolerance_post_init_def checks_Inr_iff dec_less_iff dec_of_int_def dval_def
        power_int_def)
  have n: "ndigits (2 * 10 ^ 37) = 38" "ndigits (10 ^ 37 + 1) = 38" "ndigits (10 ^ 37 - 1) = 37"
    "ndigits (10 ^ 28) = 29" "ndigits (10 ^ 27) = 28" "ndigits (2 * 10 ^ 27) = 28" by (rule ndigits_eq; simp)+
  have exact: "exact_add half_amount (dec_neg large_amount) = Dec True (10 ^ 37 + 1) (- 12)"
    by (simp add: exact_add_def scaled_def half_amount_def large_amount_def dec_neg_def)
  have "dec_fix default_precision (Dec True (10 ^ 37 + 1) (- 12)) = Dec True (10 ^ 27) (- 2)"
    unfolding dec_fix_def default_precision_def dec.sel n Let_def by (simp add: half_even_div_def n(5) [simplified])
  with exact have "dec_sub default_precision half_amount large_amount = Dec True (10 ^ 27) (- 2)"
    by (simp add: dec_sub_def dec_add_def)
  then have signed: "dec_abs default_precision (dec_sub default_precision half_amount large_amount) = Dec False (10 ^ 27) (- 2)"
    by (simp add: dec_abs_def dec_fix_exact default_precision_def n(5) [simplified])
  have abs: "dec_abs default_precision large_amount = Dec False (2 * 10 ^ 27) (- 2)"
    "dec_abs default_precision half_amount = Dec False (10 ^ 27) (- 2)"
    unfolding dec_abs_def large_amount_def half_amount_def dec_fix_def default_precision_def dec.sel n Let_def
    by (simp_all add: half_even_div_def n(4,6) [simplified])
  have "dec_mul default_precision (Dec False 5 (- 1)) (Dec False (2 * 10 ^ 27) (- 2)) = Dec False (10 ^ 27) (- 2)"
    unfolding dec_mul_def exact_mul_def dec_fix_def default_precision_def dec.sel Let_def
    by (simp add: half_even_div_def n(4,5) [simplified])
  then have allowed: "allowed_decimal ?t large_amount half_amount = Dec False (10 ^ 27) (- 2)"
    unfolding allowed_decimal_def abs by (simp add: dec_max_def dec_less_def scaled_def)
  have differ: "dval large_amount \<noteq> dval half_amount"
    and more: "\<bar>dval half_amount - dval large_amount\<bar> > 5 / 10 * max \<bar>dval large_amount\<bar> \<bar>dval half_amount\<bar>"
    by (simp_all add: dval_def large_amount_def half_amount_def power_int_def)
  obtain c where "decimal_comparison ''quantity'' ''Quantity'' (Some large_amount) (Some half_amount) ?t = Inr c"
    "fc_status c = (if dval large_amount = dval half_amount then EXACT
       else if dval (dec_abs default_precision (dec_sub default_precision half_amount large_amount)) \<le>
         dval (allowed_decimal ?t large_amount half_amount) then WITHIN_TOLERANCE else DISCREPANT)"
    using decimal_comparison_total [OF _ t, of "''quantity''" "''Quantity''" "Some large_amount" "Some half_amount"]
    by auto
  then show ?thesis using differ more unfolding signed allowed by auto
qed

end
