(* ===== verification/StageFacts.thy ===== *)
theory StageFacts
  imports Engine GatingFacts ComparisonFacts
begin

text \<open>
  What the stages of a run hand to each other: the facts about preprocessing, generation and
  scoring that the assembly of the result rests on.
\<close>

section \<open>Preprocessing\<close>

definition preprocessed :: "engine_snapshot \<Rightarrow> decision_inputs \<Rightarrow> reference_contract \<Rightarrow> preprocessing_result \<Rightarrow> bool" where
  "preprocessed s d c pre \<longleftrightarrow>
     (\<forall>side. set (remaining_records side pre) =
        {x \<in> set (side_records s side). record_fate s d c side x = Remains}) \<and>
     (\<forall>p. p \<in> set (rp_pairs pre) \<longleftrightarrow> p = new_pair (po_left_id p) (po_right_id p) (po_origin p) \<and>
        po_left_id p \<in> set (side_ids s LEFT) \<and>
        id_fate s d c LEFT (po_left_id p) = Paired (po_right_id p) (po_origin p)) \<and>
     (\<forall>p \<in> set (rp_pairs pre). po_right_id p \<in> set (side_ids s RIGHT) \<and>
        id_fate s d c RIGHT (po_right_id p) = Paired (po_left_id p) (po_origin p)) \<and>
     set (prohibited_edges pre) = {e \<in> set (rejected_edges d). fst e \<in> set (side_ids s LEFT) \<and>
        snd e \<in> set (side_ids s RIGHT)}"

lemma input_ids_side: "input_left_ids s = side_ids s LEFT" "input_right_ids s = side_ids s RIGHT"
  by (simp_all add: input_left_ids_def input_right_ids_def side_ids_def)

lemma preprocessed_ok:
  assumes v: "valid_snapshot s" "valid_decisions d" and o: "oriented_decisions s d"
    and pre: "preprocess_references s d c = Inr pre"
  shows "preprocessed s d c pre"
proof (rule preprocess_represents [OF v o, of c])
  fix st ps
  let ?L = "set (side_ids s LEFT)" and ?R = "set (side_ids s RIGHT)" and ?G = "id_fate s d c"
  assume rep: "represents ?L ?R ?G st"
    and ps: "map (\<lambda>p. (pr_left_id p, pr_right_id p)) ps =
      filter (\<lambda>(l, r). l \<in> set (input_left_ids s) \<and> r \<in> set (input_right_ids s)) (rejected_edges d)"
    and "preprocess_references s d c = Inr (preprocessing_normal \<lparr>
        rp_input_left_ids = input_left_ids s, rp_input_right_ids = input_right_ids s,
        rp_pairs = ps_pairs st, rp_terminal_unpaired = map snd (ps_terminal st),
        rp_remaining_left = records_in (ps_left st) (es_left s),
        rp_remaining_right = records_in (ps_right st) (es_right s),
        rp_prohibited = ps,
        rp_conflicts = map (conflict_of s d c) (filter (conflict_key s d c) (shared_keys s d c))\<rparr>)"
  with pre have sets: "set (rp_pairs pre) = set (ps_pairs st)"
    "set (rp_remaining_left pre) = set (records_in (ps_left st) (es_left s))"
    "set (rp_remaining_right pre) = set (records_in (ps_right st) (es_right s))" "set (rp_prohibited pre) = set ps"
    by (auto simp: preprocessing_normal_def)
  have om: "open_match ?L ?R ?G st" and pm: "pairs_match ?L ?R ?G (ps_pairs st)"
    using rep by (simp_all add: represents_def)
  have "set (remaining_records side pre) = {x \<in> set (side_records s side). record_fate s d c side x = Remains}" for side
    using om id_fate_record [OF v(1), symmetric, of _ side d c]
    by (cases side) (simp_all add: sets records_in_def open_match_def side_ids_def, auto)
  moreover have "p \<in> set (rp_pairs pre) \<longleftrightarrow> p = new_pair (po_left_id p) (po_right_id p) (po_origin p) \<and>
      po_left_id p \<in> ?L \<and> ?G LEFT (po_left_id p) = Paired (po_right_id p) (po_origin p)" for p
    using pm unfolding pairs_match_def sets by metis
  moreover have "\<forall>p \<in> set (rp_pairs pre). po_right_id p \<in> ?R \<and>
      ?G RIGHT (po_right_id p) = Paired (po_left_id p) (po_origin p)"
    using pm unfolding pairs_match_def sets by metis
  moreover have "set (prohibited_edges pre) = {e \<in> set (rejected_edges d). fst e \<in> ?L \<and> snd e \<in> ?R}"
    using arg_cong [OF ps, of set] by (auto simp: prohibited_edges_def sets input_ids_side)
  ultimately show ?thesis unfolding preprocessed_def by blast
qed

text \<open>The partition that the constructor of a preprocessing result checks.\<close>

lemma preprocess_partition:
  assumes "preprocess_references s d c = Inr pre"
  shows "distinct (map po_left_id (rp_pairs pre))"
    and "distinct (map po_right_id (rp_pairs pre))"
    and "distinct (map mr_observation_id (rp_remaining_left pre))"
    and "distinct (map mr_observation_id (rp_remaining_right pre))"
    and "distinct (unpaired_ids LEFT (rp_terminal_unpaired pre))"
    and "distinct (unpaired_ids RIGHT (rp_terminal_unpaired pre))"
    and "po_left_id ` set (rp_pairs pre) \<union> set (unpaired_ids LEFT (rp_terminal_unpaired pre)) \<union> mr_observation_id ` set (rp_remaining_left pre) = set (side_ids s LEFT)"
    and "po_right_id ` set (rp_pairs pre) \<union> set (unpaired_ids RIGHT (rp_terminal_unpaired pre)) \<union> mr_observation_id ` set (rp_remaining_right pre) = set (side_ids s RIGHT)"
    and "po_left_id ` set (rp_pairs pre) \<inter> set (unpaired_ids LEFT (rp_terminal_unpaired pre)) = {}"
    and "po_left_id ` set (rp_pairs pre) \<inter> mr_observation_id ` set (rp_remaining_left pre) = {}"
    and "set (unpaired_ids LEFT (rp_terminal_unpaired pre)) \<inter> mr_observation_id ` set (rp_remaining_left pre) = {}"
    and "po_right_id ` set (rp_pairs pre) \<inter> set (unpaired_ids RIGHT (rp_terminal_unpaired pre)) = {}"
    and "po_right_id ` set (rp_pairs pre) \<inter> mr_observation_id ` set (rp_remaining_right pre) = {}"
    and "set (unpaired_ids RIGHT (rp_terminal_unpaired pre)) \<inter> mr_observation_id ` set (rp_remaining_right pre) = {}"
proof -
  from assms obtain q where q: "preprocessing_post_init q = Inr pre"
    and ids: "rp_input_left_ids q = input_left_ids s" "rp_input_right_ids q = input_right_ids s"
    by (auto simp: preprocess_references_def rbind_Inr_iff Let_def split: prod.splits)
  then have pre: "pre = preprocessing_normal q" and "preprocessing_post_init pre = Inr pre"
    using cv_preprocessing.post_init_idem [OF q] by (auto simp: preprocessing_post_init_def checks_Inr_iff)
  then have chk: "\<forall>chk \<in> set (preprocessing_checks pre). \<not> fst chk"
    by (simp add: preprocessing_post_init_def checks_Inr_iff)
  have in_ids: "set (rp_input_left_ids pre) = set (side_ids s LEFT)" "set (rp_input_right_ids pre) = set (side_ids s RIGHT)"
    using ids by (simp_all add: pre preprocessing_normal_def input_ids_side)
  note facts = chk [unfolded preprocessing_checks_iff Let_def in_ids set_map]
  from facts show "distinct (map po_left_id (rp_pairs pre))" by (elim conjE)
  from facts show "distinct (map po_right_id (rp_pairs pre))" by (elim conjE)
  from facts show "distinct (map mr_observation_id (rp_remaining_left pre))" by (elim conjE)
  from facts show "distinct (map mr_observation_id (rp_remaining_right pre))" by (elim conjE)
  from facts show "distinct (unpaired_ids LEFT (rp_terminal_unpaired pre))" by (elim conjE)
  from facts show "distinct (unpaired_ids RIGHT (rp_terminal_unpaired pre))" by (elim conjE)
  from facts show "po_left_id ` set (rp_pairs pre) \<union> set (unpaired_ids LEFT (rp_terminal_unpaired pre)) \<union> mr_observation_id ` set (rp_remaining_left pre) = set (side_ids s LEFT)" by (elim conjE)
  from facts show "po_right_id ` set (rp_pairs pre) \<union> set (unpaired_ids RIGHT (rp_terminal_unpaired pre)) \<union> mr_observation_id ` set (rp_remaining_right pre) = set (side_ids s RIGHT)" by (elim conjE)
  from facts show "po_left_id ` set (rp_pairs pre) \<inter> set (unpaired_ids LEFT (rp_terminal_unpaired pre)) = {}" by (elim conjE)
  from facts show "po_left_id ` set (rp_pairs pre) \<inter> mr_observation_id ` set (rp_remaining_left pre) = {}" by (elim conjE)
  from facts show "set (unpaired_ids LEFT (rp_terminal_unpaired pre)) \<inter> mr_observation_id ` set (rp_remaining_left pre) = {}" by (elim conjE)
  from facts show "po_right_id ` set (rp_pairs pre) \<inter> set (unpaired_ids RIGHT (rp_terminal_unpaired pre)) = {}" by (elim conjE)
  from facts show "po_right_id ` set (rp_pairs pre) \<inter> mr_observation_id ` set (rp_remaining_right pre) = {}" by (elim conjE)
  from facts show "set (unpaired_ids RIGHT (rp_terminal_unpaired pre)) \<inter> mr_observation_id ` set (rp_remaining_right pre) = {}" by (elim conjE)
qed

lemma preprocessed_searchable:
  assumes v: "valid_snapshot s" and pre: "preprocess_references s d c = Inr pre" "preprocessed s d c pre"
  shows "searchable pre"
proof -
  have "set (rp_remaining_left pre) \<subseteq> set (side_records s LEFT)" "set (rp_remaining_right pre) \<subseteq> set (side_records s RIGHT)"
    using pre(2) unfolding preprocessed_def by (metis (no_types, lifting) mem_Collect_eq remaining_records.simps subsetI)+
  moreover have nb: "\<not> blank (mr_observation_id x)" if "x \<in> set (side_records s side)" for x side
    using valid_snapshot_not_blank [OF v, of "mr_observation_id x" side] that by (simp add: side_ids_def)
  ultimately have "\<forall>x \<in> set (rp_remaining_left pre) \<union> set (rp_remaining_right pre). \<not> blank (mr_observation_id x)"
    using nb [of _ LEFT] nb [of _ RIGHT] by blast
  with preprocess_partition [OF pre(1)] show ?thesis by (simp add: searchable_def)
qed


section \<open>Generation and scoring\<close>

lemma score_candidates_valid:
  assumes "score_candidates pre g policy = Inr cs" and "c \<in> set cs"
  shows "valid_candidate c"
proof -
  from assms obtain e where "score_edge (dict_of mr_observation_id (rp_remaining_left pre))
      (dict_of mr_observation_id (rp_remaining_right pre)) (gr_limited_record_ids g) policy e = Inr c"
    by (auto simp: score_candidates_def rbind_Inr_iff dest: rmap_in)
  then obtain raw where "candidate_evidence_post_init raw = Inr c"
    by (auto simp: score_edge_def score_candidate_def rbind_Inr_iff Let_def split: option.splits)
  then show ?thesis unfolding valid_candidate_def by (rule cv_candidate.post_init_idem)
qed

lemma scored_map:
  "list_all2 (scored_edge policy g) es cs \<Longrightarrow> map ce_edge cs = map cg_edge es"
  by (induction rule: list_all2_induct) (auto simp: scored_edge_def)

lemma generation_distinct:
  assumes "valid_policy policy" and "generate_candidates sha256 pre policy = Inr g"
  shows "distinct (map cg_edge (gr_candidates g))" and "distinct (gr_limited_record_ids g)"
proof -
  show "distinct (map cg_edge (gr_candidates g))"
  proof (rule generate_candidates_facts [OF assms])
    fix ps st
    assume "generation_inv sha256 (mp_limits policy) (prohibited_edges pre) (mp_blocking_passes policy)
        (rp_remaining_left pre) (rp_remaining_right pre)
        (all_keys (rp_remaining_left pre) (rp_remaining_right pre) (mp_blocking_passes policy)) (ps, st)"
      and "map cg_edge (gr_candidates g) = sort (dict_keys (ss_edges st))"
    then show ?thesis by (simp add: generation_inv_def scan_inv_def)
  qed
  show "distinct (gr_limited_record_ids g)"
    by (rule generate_candidates_Inr [OF assms(2)]) (simp add: generation_normal_def)
qed

text \<open>A candidate joins two remaining records that a pass relates and no reviewer separates.\<close>

lemma candidate_ends:
  assumes v: "valid_policy policy" and gen: "generate_candidates sha256 pre policy = Inr g"
    and cs: "list_all2 (scored_edge policy g) (gr_candidates g) cs" and c: "c \<in> set cs"
  shows "ce_left_id c \<in> mr_observation_id ` set (rp_remaining_left pre) \<and>
    ce_right_id c \<in> mr_observation_id ` set (rp_remaining_right pre) \<and> ce_edge c \<notin> set (prohibited_edges pre)"
proof -
  from cs c obtain e where e: "e \<in> set (gr_candidates g)" "scored_edge policy g e c"
    by (auto dest: list_all2_in_rev)
  from generation_sound [OF v gen e(1)] have p: "cg_edge e \<notin> set (prohibited_edges pre)"
    and r: "cg_blocking_reasons e \<noteq> []" "\<forall>x \<in> set (cg_blocking_reasons e).
      related (mp_blocking_passes policy) (rp_remaining_left pre) (rp_remaining_right pre) (cg_edge e) x" by auto
  from r obtain x where "related (mp_blocking_passes policy) (rp_remaining_left pre) (rp_remaining_right pre) (cg_edge e) x"
    by (cases "cg_blocking_reasons e") auto
  from related_ends [OF this] p e(2) show ?thesis by (auto simp: scored_edge_def)
qed


section \<open>Assignment and gates\<close>

text \<open>What the rest of a run needs to know of a gated assignment.\<close>

definition gated_ok :: "candidate_evidence list \<Rightarrow> matching_policy \<Rightarrow> gated_result \<Rightarrow> bool" where
  "gated_ok cs policy gt \<longleftrightarrow>
     gt_accepted_proposals gt = filter pe_accepted (gt_proposals gt) \<and>
     set (gt_proposals gt) = set (concat (map ac_proposals (gt_components gt))) \<and>
     distinct (map pe_left_id (gt_proposals gt)) \<and> distinct (map pe_right_id (gt_proposals gt)) \<and>
     distinct (map ac_component_id (gt_components gt)) \<and>
     (\<forall>ac \<in> set (gt_components gt). set (ac_left_ids ac) \<subseteq> ce_left_id ` set cs \<and>
        set (ac_right_ids ac) \<subseteq> ce_right_id ` set cs) \<and>
     (\<forall>p \<in> set (gt_proposals gt). \<exists>c \<in> set cs. pe_edge p = ce_edge c \<and> pe_score_bp p = ce_score_bp c \<and>
        0 \<le> pe_global_gap_bp p \<and> (pe_accepted p \<longleftrightarrow> passes_gates policy c (pe_global_gap_bp p)))"

lemma gated_edges:
  assumes "list_all2 (gated_from cs policy) scs acs"
  shows "map pe_edge (concat (map ac_proposals acs)) = map se_edge (concat (map sc_selected_edges scs))"
  using assms
proof (induction rule: list_all2_induct)
  case Nil
  then show ?case by simp
next
  case (Cons sc scs ac acs)
  have "map pe_edge ps = map se_edge sels"
    if "list_all2 (\<lambda>sel p. \<exists>c. sel = selected_of f c \<and> proposal_for policy es best c p) sels ps" for f es best sels ps
    using that by (induction rule: list_all2_induct) (auto simp: proposal_for_def)
  then have "map pe_edge (ac_proposals ac) = map se_edge (sc_selected_edges sc)"
    using Cons.hyps(1) by (auto simp: gated_from_def)
  with Cons.IH show ?case by simp
qed

lemma gated_ok:
  assumes a: "assignable sha256 cs policy solver"
    and r: "solve_assignment sha256 cs g policy solver = Inr r"
    and all: "list_all2 (gated_from cs policy) (sr_components r) (gt_components gt)"
    and ps: "gt_proposals gt = sort_key pe_edge (concat (map ac_proposals (gt_components gt)))"
    and acc: "gt_accepted_proposals gt = filter pe_accepted (gt_proposals gt)"
  shows "gated_ok cs policy gt"
proof -
  from solve_assignment_Inr [OF a r] obtain comps where
    comps: "sr_components r = sort_key sc_component_id comps"
    and sel: "sr_selected_edges r = sort_key se_edge (concat (map sc_selected_edges comps))"
    and d: "distinct (map se_left_id (sr_selected_edges r))" "distinct (map se_right_id (sr_selected_edges r))" by blast
  have edges: "mset (map pe_edge (gt_proposals gt)) = mset (map se_edge (sr_selected_edges r))"
  proof -
    have "mset (map pe_edge (gt_proposals gt)) = mset (map pe_edge (concat (map ac_proposals (gt_components gt))))"
      by (simp add: ps)
    also have "\<dots> = mset (map se_edge (concat (map sc_selected_edges (sr_components r))))"
      by (simp only: gated_edges [OF all])
    also have "\<dots> = mset (map se_edge (concat (map sc_selected_edges comps)))"
      by (simp add: comps mset_concat image_mset.compositionality comp_def)
    also have "\<dots> = mset (map se_edge (sr_selected_edges r))" by (simp add: sel)
    finally show ?thesis .
  qed
  have "mset (map pe_left_id (gt_proposals gt)) = mset (map se_left_id (sr_selected_edges r))"
    using arg_cong [OF edges, of "image_mset fst"] by (simp add: image_mset.compositionality comp_def)
  with d(1) have dl: "distinct (map pe_left_id (gt_proposals gt))" by (metis mset_eq_imp_distinct_iff)
  have "mset (map pe_right_id (gt_proposals gt)) = mset (map se_right_id (sr_selected_edges r))"
    using arg_cong [OF edges, of "image_mset snd"] by (simp add: image_mset.compositionality comp_def)
  with d(2) have dr: "distinct (map pe_right_id (gt_proposals gt))" by (metis mset_eq_imp_distinct_iff)
  note src = solved_sources [OF a r]
  have "map ac_component_id (gt_components gt) = map sc_component_id (sr_components r)"
    using all by (induction rule: list_all2_induct) (auto simp: gated_from_def)
  with src(3) have di: "distinct (map ac_component_id (gt_components gt))" by simp
  have from_sc: "\<exists>sc \<in> set (sr_components r). gated_from cs policy sc ac" if "ac \<in> set (gt_components gt)" for ac
    using list_all2_in_rev [OF all that] .
  have cands: "set (component_candidates cs policy sc) \<subseteq> set cs" for sc by (auto simp: component_candidates_def)
  have "set (ac_left_ids ac) \<subseteq> ce_left_id ` set cs \<and> set (ac_right_ids ac) \<subseteq> ce_right_id ` set cs"
    if ac: "ac \<in> set (gt_components gt)" for ac
  proof -
    from from_sc [OF ac] obtain sc where sc: "sc \<in> set (sr_components r)" "gated_from cs policy sc ac" by blast
    from src(1) [OF sc(1)] have "sc_left_ids sc = sorted_set (map ce_left_id (component_candidates cs policy sc))"
      "sc_right_ids sc = sorted_set (map ce_right_id (component_candidates cs policy sc))"
      by (auto simp: source_of_def solved_from_def solved_as_def Let_def)
    with sc(2) cands [of sc] show ?thesis by (auto simp: gated_from_def)
  qed
  moreover have "\<exists>c \<in> set cs. pe_edge p = ce_edge c \<and> pe_score_bp p = ce_score_bp c \<and>
      0 \<le> pe_global_gap_bp p \<and> (pe_accepted p \<longleftrightarrow> passes_gates policy c (pe_global_gap_bp p))"
    if p: "p \<in> set (gt_proposals gt)" for p
  proof -
    from p ps obtain ac where ac: "ac \<in> set (gt_components gt)" "p \<in> set (ac_proposals ac)" by auto
    from from_sc [OF ac(1)] obtain sc where "gated_from cs policy sc ac" by blast
    then have "list_all2 (\<lambda>sel p. \<exists>c. sel = selected_of (mp_assignment_floor_bp policy) c \<and>
        proposal_for policy (component_candidates cs policy sc) (sc_optimal_utility_bp sc) c p)
        (sc_selected_edges sc) (ac_proposals ac)" by (simp add: gated_from_def)
    from list_all2_in_rev [OF this ac(2)] obtain c where
      "proposal_for policy (component_candidates cs policy sc) (sc_optimal_utility_bp sc) c p" by blast
    with cands [of sc] show ?thesis by (auto simp: proposal_for_def)
  qed
  moreover have "set (gt_proposals gt) = set (concat (map ac_proposals (gt_components gt)))" by (simp add: ps)
  ultimately show ?thesis using acc dl dr di by (simp only: gated_ok_def) blast
qed

end
