(* ===== verification/DiagnosticsFacts.thy ===== *)
theory DiagnosticsFacts
  imports StageFacts
begin

text \<open>
  The diagnostic search for accepted-unmatched records cannot fail and reports, with distinct
  keys, only on accepted records, their candidates of the other side and the pairs of the run.
\<close>

section \<open>Conditions on a run\<close>

text \<open>
  No two blocking keys that the two sides of the snapshot share get the same truncated digest,
  and no time window of a left record leaves the years 1 to 9999.
\<close>

definition partitions_apart :: "(string \<Rightarrow> string) \<Rightarrow> engine_snapshot \<Rightarrow> matching_policy \<Rightarrow> bool" where
  "partitions_apart sha256 s policy \<longleftrightarrow>
     distinct (map (\<lambda>(p, k). partition_id sha256 (blocking_reason p) k)
       (all_keys (es_left s) (es_right s) (mp_blocking_passes policy)))"

definition windows_ok :: "engine_snapshot \<Rightarrow> matching_policy \<Rightarrow> bool" where
  "windows_ok s policy \<longleftrightarrow> (\<forall>p \<in> set (mp_blocking_passes policy). \<forall>l \<in> set (es_left s). window_safe p l)"

text \<open>A search over some of the records meets only keys of all of them.\<close>

lemma all_keys_mono:
  assumes "set ls \<subseteq> set lefts" and "set rs \<subseteq> set rights"
  shows "mset (all_keys ls rs ps) \<subseteq># mset (all_keys lefts rights ps)"
proof (induction ps)
  case Nil
  then show ?case by (simp add: all_keys_def)
next
  case (Cons p ps)
  have "set (pass_keys p ls rs) \<subseteq> set (pass_keys p lefts rights)" using assms by (simp add: subset_iff pass_keys_iff) blast
  then have "mset (pass_keys p ls rs) \<subseteq># mset (pass_keys p lefts rights)"
    using subset_imp_msubset_mset_set [of "set (pass_keys p ls rs)" "set (pass_keys p lefts rights)"]
    by (simp add: mset_set_set distinct_pass_keys)
  then have "image_mset (Pair p) (mset (pass_keys p ls rs)) \<subseteq># image_mset (Pair p) (mset (pass_keys p lefts rights))"
    by (rule image_mset_subseteq_mono)
  with Cons show ?case by (simp add: all_keys_def subset_mset.add_mono)
qed

lemma distinct_map_submset:
  assumes "distinct (map f ys)" and "mset xs \<subseteq># mset ys"
  shows "distinct (map f xs)"
proof -
  from assms(2) obtain C where "mset ys = mset xs + C" by (auto simp: mset_subset_eq_exists_conv)
  moreover obtain zs where "mset zs = C" using ex_mset by blast
  ultimately have "mset (map f (xs @ zs)) = mset (map f ys)" by simp
  then have "distinct (map f (xs @ zs))" using assms(1) by (metis mset_eq_imp_distinct_iff)
  then show ?thesis by simp
qed

lemma search_conditions:
  assumes apart: "partitions_apart sha256 s policy" and "windows_ok s policy"
    and sub: "set (rp_remaining_left pre) \<subseteq> set (es_left s)" "set (rp_remaining_right pre) \<subseteq> set (es_right s)"
    and "mp_blocking_passes policy' = mp_blocking_passes policy"
  shows "distinct_partition_ids sha256 pre policy'" and "windows_in_range pre policy'"
  using assms distinct_map_submset [OF apart [unfolded partitions_apart_def] all_keys_mono [OF sub]]
  by (auto simp: distinct_partition_ids_def search_partitions_def windows_in_range_def windows_ok_def)

section \<open>One accepted record\<close>

lemma limited_policy_total:
  assumes v: "valid_policy policy" and n: "0 < n"
  shows "\<exists>p. limited_policy policy n = Inr p \<and> valid_policy p \<and> mp_blocking_passes p = mp_blocking_passes policy \<and>
    cl_max_run_candidate_edges (mp_limits p) = n"
proof -
  let ?l = "(mp_limits policy)\<lparr>cl_max_run_candidate_edges := n\<rparr>"
  let ?p = "policy\<lparr>mp_limits := ?l\<rparr>"
  have l: "capacity_limits_post_init ?l = Inr ?l"
    using v n by (auto simp: valid_policy_def capacity_limits_post_init_def checks_Inr_iff positive_int_def)
  have normal: "matching_policy_normal ?p = (matching_policy_normal policy)\<lparr>mp_limits := ?l\<rparr>"
    by (simp add: matching_policy_normal_def)
  have "matching_policy_checks ?p = matching_policy_checks policy"
    by (simp add: matching_policy_checks_def normal Let_def)
  moreover have "matching_policy_normal policy = policy" "\<forall>k \<in> set (matching_policy_checks policy). \<not> fst k"
    using v by (simp_all add: valid_policy_def matching_policy_post_init_def checks_Inr_iff)
  ultimately have p: "matching_policy_post_init ?p = Inr ?p"
    by (simp add: matching_policy_post_init_def checks_Inr_iff normal)
  with v l show ?thesis by (simp add: limited_policy_def valid_policy_def)
qed

lemma incomplete_diagnostic_total:
  assumes "\<not> blank i"
  shows "\<exists>d. incomplete_diagnostic i limit = Inr d \<and> diagnostic_key d = (i, [], ''INCOMPLETE_SEARCH'') \<and>
    dg_record_id d = i \<and> dg_candidate_id d = None \<and> dg_candidate_current_pair_id d = None"
  using assms by (simp add: incomplete_diagnostic_def diagnostic_post_init_def checks.simps required_text_def
      optional_text_def diagnostic_key_def text_or_empty_def)

text \<open>What the diagnostics of a run may mention.\<close>

definition mentions :: "engine_snapshot \<Rightarrow> pair_outcome list \<Rightarrow> string \<Rightarrow> diagnostic \<Rightarrow> bool" where
  "mentions s pairs i d \<longleftrightarrow> dg_record_id d = i \<and>
     (\<forall>c. dg_candidate_id d = Some c \<longrightarrow> c \<in> set (side_ids s LEFT) \<union> set (side_ids s RIGHT)) \<and>
     (\<forall>k. dg_candidate_current_pair_id d = Some k \<longrightarrow> k \<in> pair_key_text ` set pairs)"

lemma pair_by_record_value: "dict_get (pair_by_record pairs) i = Some p \<Longrightarrow> p \<in> set pairs"
proof -
  have "dict_get (fold (\<lambda>p d. dict_set (dict_set d (po_left_id p) p) (po_right_id p) p) ps d) i = Some p \<Longrightarrow>
      p \<in> set ps \<or> dict_get d i = Some p" for ps d
  proof (induction ps arbitrary: d)
    case Nil
    then show ?case by simp
  next
    case (Cons q ps)
    from Cons.IH [of "dict_set (dict_set d (po_left_id q) q) (po_right_id q) q"] Cons.prems show ?case
      by (auto simp: map_of_dict_set split: if_splits)
  qed
  from this [of pairs "[]"] show "dict_get (pair_by_record pairs) i = Some p \<Longrightarrow> p \<in> set pairs"
    by (simp add: pair_by_record_def)
qed

definition candidate_of_side :: "record_side \<Rightarrow> candidate_evidence \<Rightarrow> string" where
  "candidate_of_side side c = (if side = LEFT then ce_right_id c else ce_left_id c)"

lemma candidate_diagnostic_total:
  assumes "\<not> blank i" and "\<not> blank (candidate_of_side side c)"
    and "candidate_of_side side c \<in> set (side_ids s LEFT) \<union> set (side_ids s RIGHT)"
  shows "\<exists>d. candidate_diagnostic i side (pair_by_record pairs) c = Inr d \<and>
    diagnostic_key d = (i, candidate_of_side side c, ''ACCEPTED_UNMATCHED_CANDIDATE'') \<and> mentions s pairs i d"
proof -
  have "\<not> blank (pair_key_text p)" for p
    by (rule blank_not_visible [of "CHR '':''"]) (simp_all add: pair_key_text_def)
  moreover have "\<not> blank (candidate_explanation a b p)" for a b p
    by (simp add: candidate_explanation_def)
  ultimately show ?thesis using assms
    by (auto simp: candidate_diagnostic_def candidate_of_side_def Let_def diagnostic_post_init_def checks.simps
        required_text_def optional_text_def diagnostic_key_def text_or_empty_def mentions_def
        dest!: pair_by_record_value split: option.splits)
qed


lemma diagnostic_preprocessing_total:
  assumes v: "valid_snapshot s" and r: "r \<in> set (side_records s side)"
    and opp: "set opposite \<subseteq> set (side_records s (other_side side))" "distinct (map mr_observation_id opposite)"
  shows "\<exists>pre. diagnostic_preprocessing r side opposite prohibited = Inr pre \<and> searchable pre \<and>
    set (rp_remaining_left pre) \<subseteq> set (es_left s) \<and> set (rp_remaining_right pre) \<subseteq> set (es_right s) \<and>
    set (if side = LEFT then rp_remaining_left pre else rp_remaining_right pre) = {r}"
proof -
  let ?L = "if side = LEFT then [r] else opposite" and ?R = "if side = LEFT then opposite else [r]"
  let ?l = "remdups (map mr_observation_id ?L)" and ?r = "remdups (map mr_observation_id ?R)"
  let ?raw = "\<lparr>rp_input_left_ids = ?l, rp_input_right_ids = ?r, rp_pairs = [],
         rp_terminal_unpaired = [], rp_remaining_left = ?L, rp_remaining_right = ?R,
         rp_prohibited = filter (\<lambda>p. pr_left_id p \<in> set ?l \<and> pr_right_id p \<in> set ?r) prohibited,
         rp_conflicts = []\<rparr>"
  have sub: "set ?L \<subseteq> set (es_left s)" "set ?R \<subseteq> set (es_right s)" using r opp(1) by (cases side; auto)+
  have d: "distinct (map mr_observation_id ?L)" "distinct (map mr_observation_id ?R)" using opp(2) by auto
  have ids: "mr_observation_id ` set ?L \<subseteq> set (side_ids s LEFT)" "mr_observation_id ` set ?R \<subseteq> set (side_ids s RIGHT)"
    using sub by (auto simp: side_ids_def)
  then have apart: "mr_observation_id ` set ?L \<inter> mr_observation_id ` set ?R = {}"
    using valid_snapshot_disjoint [OF v] by blast
  have "\<forall>chk \<in> set (preprocessing_checks ?raw). \<not> fst chk"
    unfolding preprocessing_checks_iff using d apart by (simp add: Let_def unpaired_ids_def)
  then have "preprocessing_post_init ?raw = Inr (preprocessing_normal ?raw)"
    unfolding preprocessing_post_init_def by (intro checks_total) blast
  then have pre: "diagnostic_preprocessing r side opposite prohibited = Inr (preprocessing_normal ?raw)"
    by (simp add: diagnostic_preprocessing_def Let_def)
  have nb: "\<forall>x \<in> set ?L \<union> set ?R. \<not> blank (mr_observation_id x)"
  proof
    fix x assume "x \<in> set ?L \<union> set ?R"
    then have "mr_observation_id x \<in> set (side_ids s LEFT) \<or> mr_observation_id x \<in> set (side_ids s RIGHT)" using ids by blast
    then show "\<not> blank (mr_observation_id x)" using valid_snapshot_not_blank [OF v] by blast
  qed
  have "searchable (preprocessing_normal ?raw)"
    using d nb by (simp add: searchable_def preprocessing_normal_def)
  with pre sub show ?thesis by (simp add: preprocessing_normal_def)
qed

text \<open>The invariant of the loop: the diagnostics so far are about the records seen so far.\<close>

definition diagnosed :: "engine_snapshot \<Rightarrow> pair_outcome list \<Rightarrow> string set \<Rightarrow> diagnostic list \<Rightarrow> bool" where
  "diagnosed s pairs ids ds \<longleftrightarrow> distinct (map diagnostic_key ds) \<and>
     (\<forall>d \<in> set ds. dg_record_id d \<in> ids \<inter> (set (side_ids s LEFT) \<union> set (side_ids s RIGHT)) \<and>
        mentions s pairs (dg_record_id d) d)"

lemma diagnosed_append:
  assumes ds: "diagnosed s pairs ids ds" and i: "i \<notin> ids" "i \<in> set (side_ids s LEFT) \<union> set (side_ids s RIGHT)"
    and es: "distinct (map diagnostic_key es)" "\<forall>d \<in> set es. mentions s pairs i d"
  shows "diagnosed s pairs (insert i ids) (ds @ es)"
proof -
  have "fst (diagnostic_key d) = dg_record_id d" for d by (simp add: diagnostic_key_def)
  then have "diagnostic_key d \<noteq> diagnostic_key e" if "d \<in> set ds" "e \<in> set es" for d e
    using ds i(1) es(2) that unfolding diagnosed_def mentions_def by (metis IntD1)
  then have "diagnostic_key ` set ds \<inter> diagnostic_key ` set es = {}" by blast
  with ds i es show ?thesis by (auto simp: diagnosed_def mentions_def)
qed

lemma diagnosed_mono: "diagnosed s pairs ids ds \<Longrightarrow> diagnosed s pairs (insert i ids) ds"
  by (auto simp: diagnosed_def)

lemma accepted_record_side:
  assumes "valid_snapshot s"
  shows "accepted_record i (dict_of mr_observation_id (es_left s)) (dict_of mr_observation_id (es_right s)) = (side, Some r) \<Longrightarrow>
    r \<in> set (side_records s side) \<and> mr_observation_id r = i"
  by (auto simp: accepted_record_def dest!: dict_of_value split: option.splits)


text \<open>The candidates of the accepted record have distinct counterparts of the other side.\<close>

lemma accepted_candidates:
  assumes v: "valid_snapshot s" and vp: "valid_policy policy" and pre: "searchable pre"
    and gen: "generate_candidates sha256 pre policy = Inr g"
    and sub: "set (rp_remaining_left pre) \<subseteq> set (es_left s)" "set (rp_remaining_right pre) \<subseteq> set (es_right s)"
    and one: "set (if side = LEFT then rp_remaining_left pre else rp_remaining_right pre) = {r}"
  shows "\<exists>cs. score_candidates pre g policy = Inr cs \<and> distinct (map (candidate_of_side side) cs) \<and>
    (\<forall>c \<in> set cs. candidate_of_side side c \<in> set (side_ids s LEFT) \<union> set (side_ids s RIGHT))"
proof -
  from score_candidates_total [OF vp pre gen] obtain cs where cs: "score_candidates pre g policy = Inr cs"
    and all: "list_all2 (scored_edge policy g) (gr_candidates g) cs" by blast
  note ends = candidate_ends [OF vp gen all]
  have d: "distinct (map ce_edge cs)" using generation_distinct(1) [OF vp gen] scored_map [OF all] by simp
  have "inj_on (candidate_of_side side) (set cs)"
  proof (rule inj_onI)
    fix c c' assume c: "c \<in> set cs" "c' \<in> set cs" and eq: "candidate_of_side side c = candidate_of_side side c'"
    have "ce_edge c = ce_edge c'"
    proof (cases side)
      case LEFT
      with ends [OF c(1)] ends [OF c(2)] one eq show ?thesis by (auto simp: candidate_of_side_def)
    next
      case RIGHT
      with ends [OF c(1)] ends [OF c(2)] one eq show ?thesis by (auto simp: candidate_of_side_def)
    qed
    with d c show "c = c'" by (auto simp: distinct_map dest: inj_onD)
  qed
  moreover have "candidate_of_side side c \<in> set (side_ids s LEFT) \<union> set (side_ids s RIGHT)" if "c \<in> set cs" for c
    using ends [OF that] sub by (cases side) (auto simp: candidate_of_side_def side_ids_def)
  ultimately show ?thesis using cs d by (auto simp: distinct_map)
qed

lemma diagnose_record_total:
  assumes v: "valid_snapshot s" and vp: "valid_policy policy"
    and ok: "partitions_apart sha256 s policy" "windows_ok s policy" and n: "0 \<le> n"
    and ds: "diagnosed s pairs ids ds" and fresh: "au_record_id a \<notin> ids"
  shows "\<exists>m es. diagnose_record sha256 s policy (pair_by_record pairs) prohibited (n, ds) a = Inr (m, es) \<and> 0 \<le> m \<and>
    diagnosed s pairs (insert (au_record_id a) ids) es"
proof -
  let ?i = "au_record_id a"
  obtain side found where rec: "accepted_record ?i (dict_of mr_observation_id (es_left s)) (dict_of mr_observation_id (es_right s))
      = (side, found)" by fastforce
  show ?thesis
  proof (cases "\<exists>r. found = Some r \<and> eligible r")
    case False
    with rec n diagnosed_mono [OF ds] show ?thesis by (auto simp: diagnose_record_def split: option.split)
  next
    case True
    then obtain r where r: "found = Some r" "eligible r" by blast
    from accepted_record_side [OF v, of ?i side r] rec r have rs: "r \<in> set (side_records s side)" "mr_observation_id r = ?i" by auto
    have i: "?i \<in> set (side_ids s LEFT) \<union> set (side_ids s RIGHT)" using rs by (cases side) (force simp: side_ids_def)+
    then have nb: "\<not> blank ?i" using valid_snapshot_not_blank [OF v] by blast
    show ?thesis
    proof (cases "n = 0")
      case True
      obtain d where d: "incomplete_diagnostic ?i ''run edge limit'' = Inr d" "mentions s pairs ?i d"
        using incomplete_diagnostic_total [OF nb, of "''run edge limit''"] by (auto simp: mentions_def)
      with diagnosed_append [OF ds fresh i, of "[d]"] have "diagnosed s pairs (insert ?i ids) (ds @ [d])" by simp
      with True r rec d(1) show ?thesis by (simp add: diagnose_record_def)
    next
      case False
      with n have "0 < n" by simp
      from limited_policy_total [OF vp this] obtain q where q: "limited_policy policy n = Inr q" "valid_policy q"
        "mp_blocking_passes q = mp_blocking_passes policy" "cl_max_run_candidate_edges (mp_limits q) = n" by blast
      let ?opp = "filter eligible (if side = LEFT then es_right s else es_left s)"
      have opp: "set ?opp \<subseteq> set (side_records s (other_side side))" "distinct (map mr_observation_id ?opp)"
        using valid_snapshot_distinct [OF v, of LEFT] valid_snapshot_distinct [OF v, of RIGHT]
        by (cases side; auto simp: side_ids_def distinct_map_filter)+
      from diagnostic_preprocessing_total [OF v rs(1) opp, of prohibited] obtain pre where
        pre: "diagnostic_preprocessing r side ?opp prohibited = Inr pre" "searchable pre"
        "set (rp_remaining_left pre) \<subseteq> set (es_left s)" "set (rp_remaining_right pre) \<subseteq> set (es_right s)"
        "set (if side = LEFT then rp_remaining_left pre else rp_remaining_right pre) = {r}" by blast
      note conds = search_conditions [OF ok pre(3,4) q(3)]
      from generate_candidates_total [OF q(2) pre(2) conds] obtain g where g: "generate_candidates sha256 pre q = Inr g" by blast
      from accepted_candidates [OF v q(2) pre(2) g pre(3,4,5)] obtain cs where cs: "score_candidates pre g q = Inr cs"
        "distinct (map (candidate_of_side side) cs)"
        "\<forall>c \<in> set cs. candidate_of_side side c \<in> set (side_ids s LEFT) \<union> set (side_ids s RIGHT)" by blast
      let ?f = "candidate_diagnostic ?i side (pair_by_record pairs)" and ?P = "filter (plausible policy) cs"
      have diag: "\<exists>d. ?f c = Inr d \<and> diagnostic_key d = (?i, candidate_of_side side c, ''ACCEPTED_UNMATCHED_CANDIDATE'') \<and>
          mentions s pairs ?i d" if "c \<in> set ?P" for c
      proof (rule candidate_diagnostic_total [OF nb])
        show "candidate_of_side side c \<in> set (side_ids s LEFT) \<union> set (side_ids s RIGHT)" using that cs(3) by simp
        then show "\<not> blank (candidate_of_side side c)" using valid_snapshot_not_blank [OF v] by blast
      qed
      then have "\<exists>es. rmap ?f ?P = Inr es" by (intro rmap_total_ex) blast
      then obtain es where es: "rmap ?f ?P = Inr es" by blast
      then have "list_all2 (\<lambda>c d. ?f c = Inr d) ?P es" by (simp only: rmap_Inr_iff)
      then have all: "list_all2 (\<lambda>c d. diagnostic_key d = (?i, candidate_of_side side c, ''ACCEPTED_UNMATCHED_CANDIDATE'') \<and>
          mentions s pairs ?i d) ?P es"
        by (rule list.rel_mono_strong) (use diag in fastforce)
      have keys: "map diagnostic_key es = map (\<lambda>x. (?i, x, ''ACCEPTED_UNMATCHED_CANDIDATE'')) (map (candidate_of_side side) ?P)"
        using all by (induction rule: list_all2_induct) auto
      have "distinct (map (candidate_of_side side) ?P)" using cs(2) by (rule distinct_map_filter)
      then have dk: "distinct (map diagnostic_key es)" unfolding keys by (subst distinct_map) (simp add: inj_on_def)
      have me: "\<forall>d \<in> set es. mentions s pairs ?i d" using all by (auto dest: list_all2_in_rev)
      obtain d where d: "incomplete_diagnostic ?i ''candidate enumeration limit'' = Inr d"
        "diagnostic_key d = (?i, [], ''INCOMPLETE_SEARCH'')" "mentions s pairs ?i d"
        using incomplete_diagnostic_total [OF nb, of "''candidate enumeration limit''"] by (auto simp: mentions_def)
      obtain inc where inc: "(if gr_complete g then Inr [] else rbind (incomplete_diagnostic ?i ''candidate enumeration limit'')
          (\<lambda>d. Inr [d])) = Inr inc" "set (map diagnostic_key inc) \<subseteq> {(?i, [], ''INCOMPLETE_SEARCH'')}"
          "distinct (map diagnostic_key inc)" "\<forall>d \<in> set inc. mentions s pairs ?i d"
      proof (cases "gr_complete g")
        case True
        then show ?thesis using that [of "[]"] by simp
      next
        case False
        then show ?thesis using d that [of "[d]"] by simp
      qed
      have "set (map diagnostic_key es) \<inter> set (map diagnostic_key inc) = {}" using inc(2) unfolding keys by auto
      then have "diagnosed s pairs (insert ?i ids) (ds @ es @ inc)"
        using dk inc(3,4) me by (intro diagnosed_append [OF ds fresh i]) auto
      moreover have "int (length (gr_candidates g)) \<le> n" using generation_bounded(1) [OF q(2) g] q(4) by simp
      ultimately show ?thesis
        using False r rec q(1) pre(1) g cs(1) es inc(1) by (simp add: diagnose_record_def)
    qed
  qed
qed


section \<open>All accepted records\<close>

lemma accepted_ids_distinct: "valid_decisions d \<Longrightarrow> distinct (map au_record_id (di_accepted_unmatched d))"
  by (auto simp: valid_decisions_def decision_inputs_post_init_def decision_inputs_checks_def
      decision_inputs_normal_def checks_Inr_iff Let_def)

lemma diagnose_total:
  assumes v: "valid_snapshot s" "valid_decisions d" and vp: "valid_policy policy"
    and ok: "partitions_apart sha256 s policy" "windows_ok s policy"
  shows "\<exists>ds. diagnose_accepted_unmatched sha256 s d policy r = Inr ds \<and>
    diagnosed s (er_pairs r) (au_record_id ` set (di_accepted_unmatched d)) ds"
proof -
  from prohibited_of_total [OF v(2), of "input_left_ids s" "input_right_ids s"]
  obtain ps where ps: "prohibited_of d (input_left_ids s) (input_right_ids s) = Inr ps" by blast
  let ?f = "diagnose_record sha256 s policy (pair_by_record (er_pairs r)) ps"
  let ?P = "\<lambda>ys acc. (0 :: int) \<le> fst acc \<and> diagnosed s (er_pairs r) (au_record_id ` set ys) (snd acc)"
  have "\<exists>t. rfold ?f (cl_max_run_candidate_edges (mp_limits policy), []) (di_accepted_unmatched d) = Inr t \<and>
      ?P (di_accepted_unmatched d) t"
  proof (rule rfold_total_prefix)
    show "?P [] (cl_max_run_candidate_edges (mp_limits policy), [])"
      using valid_policy_limits [OF vp] by (simp add: diagnosed_def)
  next
    fix ys x zs and acc :: "int \<times> diagnostic list"
    assume xs: "di_accepted_unmatched d = ys @ x # zs" and P: "?P ys acc"
    obtain n ds where acc: "acc = (n, ds)" by fastforce
    have fresh: "au_record_id x \<notin> au_record_id ` set ys"
      using accepted_ids_distinct [OF v(2)] unfolding xs by auto
    from P acc have "0 \<le> n" "diagnosed s (er_pairs r) (au_record_id ` set ys) ds" by simp_all
    from diagnose_record_total [OF v(1) vp ok this fresh, of ps] acc
    show "\<exists>s'. ?f acc x = Inr s' \<and> ?P (ys @ [x]) s'" by fastforce
  qed
  then obtain m ds where fold: "rfold ?f (cl_max_run_candidate_edges (mp_limits policy), []) (di_accepted_unmatched d) = Inr (m, ds)"
    and ds: "diagnosed s (er_pairs r) (au_record_id ` set (di_accepted_unmatched d)) ds" by auto
  have "diagnosed s (er_pairs r) (au_record_id ` set (di_accepted_unmatched d)) (sort_key diagnostic_key ds)"
    using ds by (simp add: diagnosed_def)
  with ps fold show ?thesis by (simp add: diagnose_accepted_unmatched_def)
qed

text \<open>Without NUL characters in the identities the text keys differ where the keys do.\<close>

lemma diagnostic_key_text_inject:
  assumes "no_nul (dg_record_id a)" "no_nul (dg_record_id b)"
    and "no_nul (text_or_empty (dg_candidate_id a))" "no_nul (text_or_empty (dg_candidate_id b))"
  shows "diagnostic_key_text a = diagnostic_key_text b \<longleftrightarrow> diagnostic_key a = diagnostic_key b"
  using assms by (simp add: diagnostic_key_text_def diagnostic_key_def edge_text_inject)

lemma diagnosed_texts:
  assumes ds: "diagnosed s pairs ids ds"
    and nul: "\<forall>i \<in> set (side_ids s LEFT) \<union> set (side_ids s RIGHT). no_nul i"
  shows "distinct (map diagnostic_key_text ds)"
proof -
  have "no_nul (dg_record_id d) \<and> no_nul (text_or_empty (dg_candidate_id d))" if "d \<in> set ds" for d
  proof -
    have "no_nul []" by (simp add: no_nul_def)
    with ds nul that show ?thesis unfolding diagnosed_def mentions_def text_or_empty_def by (auto split: option.splits)
  qed
  then have "inj_on diagnostic_key_text (set ds)"
    using ds unfolding diagnosed_def distinct_map inj_on_def by (metis diagnostic_key_text_inject)
  with ds show ?thesis by (auto simp: diagnosed_def distinct_map)
qed

end
