(* ===== verification/EngineFacts.thy ===== *)
theory EngineFacts
  imports DiagnosticsFacts
begin

text \<open>
  A run of the engine from end to end: under the documented conditions it returns a result, and
  the result accounts for every record once, follows the reviewer and pairs records
  automatically only where every gate is passed.
\<close>

section \<open>Pairs and unpaired records\<close>

definition scored_pair :: "pair_outcome \<Rightarrow> bool" where
  "scored_pair p \<longleftrightarrow> (if po_origin p = WEIGHTED_GLOBAL
     then \<exists>s g. po_score_bp p = Some s \<and> 0 \<le> s \<and> s \<le> SCORE_SCALE_BP \<and> po_global_gap_bp p = Some g \<and> 0 \<le> g
     else po_score_bp p = None \<and> po_global_gap_bp p = None)"

definition same_pair :: "pair_outcome \<Rightarrow> pair_outcome \<Rightarrow> bool" where
  "same_pair p q \<longleftrightarrow> po_left_id q = po_left_id p \<and> po_right_id q = po_right_id p \<and> po_origin q = po_origin p \<and>
     po_score_bp q = po_score_bp p \<and> po_global_gap_bp q = po_global_gap_bp p"

lemma pair_outcome_ok:
  assumes "\<not> blank (po_left_id p)" "\<not> blank (po_right_id p)" "scored_pair p" "distinct (map fc_field (po_comparisons p))"
  shows "pair_outcome_post_init p = Inr (p\<lparr>po_comparisons := sort_key fc_field (po_comparisons p)\<rparr>)"
  unfolding pair_outcome_post_init_def
  by (rule checks_total)
    (use assms in \<open>auto simp: pair_outcome_checks_def scored_pair_def score_bp_def nonnegative_int_def distinct_map_sort_key split: if_splits\<close>)

lemma snapshot_record:
  assumes v: "valid_snapshot s" and i: "i \<in> set (side_ids s side)"
  obtains r where "dict_index (dict_of mr_observation_id (side_records s side)) i = Inr r"
    "r \<in> set (side_records s side)" "mr_observation_id r = i"
proof -
  from i obtain r where r: "r \<in> set (side_records s side)" "mr_observation_id r = i" by (auto simp: side_ids_def)
  moreover have "distinct (map mr_observation_id (side_records s side))"
    using valid_snapshot_distinct [OF v, of side] by (simp add: side_ids_def)
  ultimately have "dict_index (dict_of mr_observation_id (side_records s side)) i = Inr r"
    by (simp add: dict_index_Inr map_of_dict_of_Some)
  with r that show ?thesis by blast
qed

lemma comparison_fields_distinct: "distinct comparison_fields"
  by (simp add: comparison_fields_def)

lemma compare_known_pair_total:
  assumes v: "valid_snapshot s" and c: "valid_comparison comparison"
    and p: "po_left_id p \<in> set (side_ids s LEFT)" "po_right_id p \<in> set (side_ids s RIGHT)" "scored_pair p"
  shows "\<exists>q. compare_known_pair s policy comparison p = Inr q \<and> same_pair p q"
proof -
  obtain l where l: "dict_index (dict_of mr_observation_id (es_left s)) (po_left_id p) = Inr l"
    by (rule snapshot_record [OF v p(1)]) simp
  obtain r where r: "dict_index (dict_of mr_observation_id (es_right s)) (po_right_id p) = Inr r"
    by (rule snapshot_record [OF v p(2)]) simp
  obtain cs where cs: "compare_pair_fields l r (po_origin p) comparison (mp_reference_contract policy) = Inr cs"
    "map fc_field cs = comparison_fields"
    using compare_pair_fields_facts [OF c] by blast
  have "pair_outcome_post_init \<lparr>po_left_id = po_left_id p, po_right_id = po_right_id p, po_origin = po_origin p,
      po_score_bp = po_score_bp p, po_global_gap_bp = po_global_gap_bp p, po_comparisons = cs\<rparr> =
      Inr \<lparr>po_left_id = po_left_id p, po_right_id = po_right_id p, po_origin = po_origin p,
      po_score_bp = po_score_bp p, po_global_gap_bp = po_global_gap_bp p, po_comparisons = sort_key fc_field cs\<rparr>"
    using p(3) cs(2) comparison_fields_distinct valid_snapshot_not_blank [OF v p(1)] valid_snapshot_not_blank [OF v p(2)]
    by (subst pair_outcome_ok) (auto simp: scored_pair_def split: if_splits)
  with l r cs(1) show ?thesis by (simp add: compare_known_pair_def compare_pair_def same_pair_def)
qed

lemma unpaired_outcome_ok:
  assumes "\<not> blank (uo_record_id u)" "\<not> blank (uo_explanation u)" "distinct (uo_related_ids u)"
  shows "unpaired_outcome_post_init u = Inr (u\<lparr>uo_related_ids := sort (uo_related_ids u)\<rparr>)"
  using assms by (simp add: unpaired_outcome_post_init_def checks.simps required_text_def unique_check_def)

lemma automatic_unpaired_total:
  assumes "\<not> blank (mr_observation_id r)"
  shows "\<exists>u. automatic_unpaired cs pre limited f side r = Inr u \<and> uo_record_id u = mr_observation_id r \<and> uo_side u = side"
  using assms by (simp add: automatic_unpaired_def Let_def unpaired_outcome_ok)

lemma accepted_pair_total:
  assumes "\<not> blank (pe_left_id p)" "\<not> blank (pe_right_id p)" "0 \<le> pe_score_bp p" "pe_score_bp p \<le> SCORE_SCALE_BP"
    "0 \<le> pe_global_gap_bp p"
  shows "\<exists>q. accepted_pair p = Inr q \<and> po_edge q = pe_edge p \<and> po_origin q = WEIGHTED_GLOBAL \<and>
    po_score_bp q = Some (pe_score_bp p) \<and> po_global_gap_bp q = Some (pe_global_gap_bp p) \<and> scored_pair q"
  using assms by (simp add: accepted_pair_def pair_outcome_ok scored_pair_def)


section \<open>The checks of a result\<close>

lemma unpaired_ids_sort:
  "set (unpaired_ids side (sort_key k us)) = set (unpaired_ids side us)"
  "distinct (unpaired_ids side (sort_key k us)) = distinct (unpaired_ids side us)"
proof -
  have "mset (unpaired_ids side (sort_key k us)) = mset (unpaired_ids side us)"
    by (simp add: unpaired_ids_def)
  then show "set (unpaired_ids side (sort_key k us)) = set (unpaired_ids side us)"
    "distinct (unpaired_ids side (sort_key k us)) = distinct (unpaired_ids side us)"
    by (metis mset_eq_setD, metis mset_eq_imp_distinct_iff)
qed

lemma distinct_dict_of: "distinct (dict_keys (dict_of key xs))"
proof -
  have "distinct (dict_keys (fold (\<lambda>x d. dict_set d (key x) x) xs d))" if "distinct (dict_keys d)" for d
    using that by (induction xs arbitrary: d) (simp_all add: dict.distinct_keys_update)
  then show ?thesis by (simp add: dict_of_def dict_keys_def)
qed

definition result_partition :: "engine_result \<Rightarrow> bool" where
  "result_partition r \<longleftrightarrow>
     distinct (map po_left_id (er_pairs r)) \<and> distinct (map po_right_id (er_pairs r)) \<and>
     distinct (unpaired_ids LEFT (er_unpaired r)) \<and> distinct (unpaired_ids RIGHT (er_unpaired r)) \<and>
     po_left_id ` set (er_pairs r) \<inter> set (unpaired_ids LEFT (er_unpaired r)) = {} \<and>
     po_right_id ` set (er_pairs r) \<inter> set (unpaired_ids RIGHT (er_unpaired r)) = {} \<and>
     po_left_id ` set (er_pairs r) \<union> set (unpaired_ids LEFT (er_unpaired r)) = set (er_input_left_ids r) \<and>
     po_right_id ` set (er_pairs r) \<union> set (unpaired_ids RIGHT (er_unpaired r)) = set (er_input_right_ids r)"

lemma result_partition_normal [simp]: "result_partition (engine_result_normal r) = result_partition r"
  by (simp add: result_partition_def engine_result_normal_def unpaired_ids_sort distinct_map_sort_key)

lemma partition_checks_iff:
  "(\<forall>k \<in> set (result_partition_checks r). \<not> fst k) \<longleftrightarrow> result_partition r"
  by (auto simp: result_partition_checks_def result_partition_def Let_def)

definition result_identity :: "engine_result \<Rightarrow> bool" where
  "result_identity r \<longleftrightarrow> \<not> blank (er_left_revision_id r) \<and> \<not> blank (er_right_revision_id r) \<and>
     \<not> blank (er_matching_policy_version r) \<and> \<not> blank (er_comparison_policy_version r) \<and>
     \<not> blank (er_engine_version r) \<and> \<not> blank (er_solver_version r) \<and>
     distinct (er_input_left_ids r) \<and> distinct (er_input_right_ids r) \<and>
     set (er_input_left_ids r) \<inter> set (er_input_right_ids r) = {}"

lemma identity_checks_iff:
  "(\<forall>k \<in> set (result_identity_checks (engine_result_normal r)). \<not> fst k) \<longleftrightarrow> result_identity r"
  by (auto simp: result_identity_checks_def result_identity_def engine_result_normal_def)

definition result_diagnosed :: "engine_result \<Rightarrow> bool" where
  "result_diagnosed r \<longleftrightarrow> distinct (map diagnostic_key_text (er_diagnostics r)) \<and>
     (\<forall>d \<in> set (er_diagnostics r). dg_record_id d \<in> set (er_input_left_ids r) \<union> set (er_input_right_ids r) \<and>
       (\<forall>c. dg_candidate_id d = Some c \<longrightarrow> c \<in> set (er_input_left_ids r) \<union> set (er_input_right_ids r)) \<and>
       (\<forall>k. dg_candidate_current_pair_id d = Some k \<longrightarrow> k \<in> pair_key_text ` set (er_pairs r)))"

text \<open>The weighted pairs are the accepted proposals, and the proposals are candidates.\<close>

definition result_evidenced :: "engine_result \<Rightarrow> bool" where
  "result_evidenced r \<longleftrightarrow>
     distinct (map ce_edge (er_candidates r)) \<and>
     distinct (map (\<lambda>c. edge_text (ce_left_id c) (ce_right_id c)) (er_candidates r)) \<and>
     (\<forall>c \<in> set (er_candidates r). ce_left_id c \<in> set (er_input_left_ids r) \<and> ce_right_id c \<in> set (er_input_right_ids r)) \<and>
     distinct (map ac_component_id (er_components r)) \<and>
     (\<forall>c \<in> set (er_components r). set (ac_left_ids c) \<subseteq> set (er_input_left_ids r) \<and>
       set (ac_right_ids c) \<subseteq> set (er_input_right_ids r)) \<and>
     (\<forall>p \<in> set (result_proposals r). \<exists>c \<in> set (er_candidates r). pe_edge p = ce_edge c \<and> pe_score_bp p = ce_score_bp c) \<and>
     (\<forall>p \<in> set (er_pairs r). po_origin p = WEIGHTED_GLOBAL \<longrightarrow>
       (\<exists>q \<in> set (result_proposals r). pe_accepted q \<and> pe_edge q = po_edge p)) \<and>
     (\<forall>q \<in> set (result_proposals r). pe_accepted q \<longrightarrow> (\<exists>p \<in> set (er_pairs r). po_origin p = WEIGHTED_GLOBAL \<and>
        po_edge p = pe_edge q \<and> po_score_bp p = Some (pe_score_bp q) \<and> po_global_gap_bp p = Some (pe_global_gap_bp q)))"

lemma result_proposals_normal [simp]: "set (result_proposals (engine_result_normal r)) = set (result_proposals r)"
  by (auto simp: result_proposals_def engine_result_normal_def)

lemma distinct_pair_edges:
  assumes "distinct (map po_left_id ps)"
  shows "distinct (map po_edge (filter P ps))"
proof -
  have "map po_left_id (filter P ps) = map fst (map po_edge (filter P ps))" by simp
  moreover have "distinct (map po_left_id (filter P ps))" using assms by (rule distinct_map_filter)
  ultimately show ?thesis by (metis distinct_map)
qed

lemma evidence_checks_ok:
  assumes part: "result_partition r" and ev: "result_evidenced r" and dg: "result_diagnosed r"
  shows "\<forall>k \<in> set (result_evidence_checks (engine_result_normal r)). \<not> fst k"
proof -
  let ?n = "engine_result_normal r"
  let ?w = "filter (\<lambda>p. po_origin p = WEIGHTED_GLOBAL) (er_pairs ?n)"
  let ?a = "filter pe_accepted (result_proposals ?n)"
  have sets: "set (er_pairs ?n) = set (er_pairs r)" "set (er_candidates ?n) = set (er_candidates r)"
    "set (er_components ?n) = set (er_components r)" "set (er_input_left_ids ?n) = set (er_input_left_ids r)"
    "set (er_input_right_ids ?n) = set (er_input_right_ids r)" "set (er_diagnostics ?n) = set (er_diagnostics r)"
    and dists: "distinct (map ce_edge (er_candidates ?n)) = distinct (map ce_edge (er_candidates r))"
    "distinct (map (\<lambda>c. edge_text (ce_left_id c) (ce_right_id c)) (er_candidates ?n)) =
      distinct (map (\<lambda>c. edge_text (ce_left_id c) (ce_right_id c)) (er_candidates r))"
    "distinct (map ac_component_id (er_components ?n)) = distinct (map ac_component_id (er_components r))"
    by (simp_all add: engine_result_normal_def)
  have "distinct (map po_left_id (er_pairs ?n))"
    using part by (simp add: result_partition_def engine_result_normal_def)
  then have w: "map_of (dict_of po_edge ?w) e = Some p \<longleftrightarrow>
      p \<in> set (er_pairs r) \<and> po_origin p = WEIGHTED_GLOBAL \<and> po_edge p = e" for e p
    using map_of_dict_of_Some [OF distinct_pair_edges, of "er_pairs ?n"] by (auto simp: sets)
  have c: "map_of (dict_of ce_edge (er_candidates ?n)) e = Some x \<longleftrightarrow> x \<in> set (er_candidates r) \<and> ce_edge x = e" for e x
    using map_of_dict_of_Some [of ce_edge "er_candidates ?n"] ev by (simp add: result_evidenced_def sets dists)
  have props: "\<not> (case dict_get (dict_of ce_edge (er_candidates ?n)) (pe_edge p) of
      None \<Rightarrow> True | Some c \<Rightarrow> ce_score_bp c \<noteq> pe_score_bp p)" if p: "p \<in> set (result_proposals ?n)" for p
  proof -
    from p ev obtain x where "x \<in> set (er_candidates r)" "pe_edge p = ce_edge x" "pe_score_bp p = ce_score_bp x"
      unfolding result_proposals_normal result_evidenced_def by blast
    then show ?thesis using c [of "pe_edge p" x] by simp
  qed
  have acc: "\<not> (case x of (e, p) \<Rightarrow> case dict_get (dict_of po_edge ?w) e of None \<Rightarrow> True
      | Some w \<Rightarrow> po_score_bp w \<noteq> Some (pe_score_bp p) \<or> po_global_gap_bp w \<noteq> Some (pe_global_gap_bp p))"
    if x: "x \<in> set (dict_of pe_edge ?a)" for x
  proof -
    obtain e p where e: "x = (e, p)" by fastforce
    have "distinct (map fst (dict_of pe_edge ?a))"
      using distinct_dict_of [of pe_edge ?a] by (simp only: dict_keys_def)
    with x e have "map_of (dict_of pe_edge ?a) e = Some p" by simp
    from dict_of_value [OF this] have p: "p \<in> set (result_proposals r)" "pe_accepted p" "pe_edge p = e" by auto
    with ev obtain q where "q \<in> set (er_pairs r)" "po_origin q = WEIGHTED_GLOBAL" "po_edge q = pe_edge p"
      "po_score_bp q = Some (pe_score_bp p)" "po_global_gap_bp q = Some (pe_global_gap_bp p)"
      unfolding result_evidenced_def by blast
    with w [of e q] p(3) show ?thesis by (simp add: e)
  qed
  have keys: "set (dict_keys (dict_of pe_edge ?a)) = set (dict_keys (dict_of po_edge ?w))"
  proof -
    have "\<forall>p \<in> set (er_pairs r). po_origin p = WEIGHTED_GLOBAL \<longrightarrow>
        (\<exists>q \<in> set (result_proposals r). pe_accepted q \<and> pe_edge q = po_edge p)"
      and "\<forall>q \<in> set (result_proposals r). pe_accepted q \<longrightarrow>
        (\<exists>p \<in> set (er_pairs r). po_origin p = WEIGHTED_GLOBAL \<and> po_edge p = pe_edge q)"
      using ev unfolding result_evidenced_def by blast+
    then have "pe_edge ` {p \<in> set (result_proposals r). pe_accepted p} =
        po_edge ` {p \<in> set (er_pairs r). po_origin p = WEIGHTED_GLOBAL}" by (fastforce simp: image_iff simp del: prod.inject)
    then show ?thesis by (simp add: set_dict_keys_of sets)
  qed
  have "\<not> list_ex (\<lambda>d. case dg_candidate_current_pair_id d of
      None \<Rightarrow> False | Some k \<Rightarrow> k \<notin> set (map pair_key_text (er_pairs ?n))) (er_diagnostics ?n)"
    using dg by (auto simp: result_diagnosed_def list_ex_iff sets split: option.splits)
  moreover have "\<not> list_ex (\<lambda>c. ce_left_id c \<notin> set (er_input_left_ids ?n) \<or> ce_right_id c \<notin> set (er_input_right_ids ?n))
      (er_candidates ?n)"
    "\<not> list_ex (\<lambda>c. \<not> set (ac_left_ids c) \<subseteq> set (er_input_left_ids ?n) \<or> \<not> set (ac_right_ids c) \<subseteq> set (er_input_right_ids ?n))
      (er_components ?n)"
    using ev unfolding result_evidenced_def sets list_ex_iff by blast+
  moreover have "\<not> list_ex (\<lambda>p. case dict_get (dict_of ce_edge (er_candidates ?n)) (pe_edge p) of
      None \<Rightarrow> True | Some c \<Rightarrow> ce_score_bp c \<noteq> pe_score_bp p) (result_proposals ?n)"
    using props unfolding list_ex_iff by blast
  moreover have "\<not> list_ex (\<lambda>(e, p). case dict_get (dict_of po_edge ?w) e of None \<Rightarrow> True
      | Some w \<Rightarrow> po_score_bp w \<noteq> Some (pe_score_bp p) \<or> po_global_gap_bp w \<noteq> Some (pe_global_gap_bp p))
      (dict_of pe_edge ?a)"
    using acc unfolding list_ex_iff by blast
  ultimately show ?thesis
    using ev keys unfolding result_evidence_checks_def Let_def result_evidenced_def dists [symmetric] by simp
qed

lemma engine_result_ok:
  assumes "result_identity r" "result_partition r" "result_evidenced r" "result_diagnosed r"
  shows "engine_result_post_init r = Inr (engine_result_normal r)"
proof -
  have "\<forall>k \<in> set (result_diagnostic_checks (engine_result_normal r)). \<not> fst k"
    using assms(4) by (auto simp: result_diagnostic_checks_def result_diagnosed_def engine_result_normal_def
        list_ex_iff split: option.splits)
  moreover have "\<forall>k \<in> set (result_identity_checks (engine_result_normal r)). \<not> fst k"
    using assms(1) by (simp only: identity_checks_iff)
  moreover have "\<forall>k \<in> set (result_partition_checks (engine_result_normal r)). \<not> fst k"
    using assms(2) by (simp only: partition_checks_iff result_partition_normal)
  ultimately show ?thesis
    using evidence_checks_ok [OF assms(2-4)] unfolding engine_result_post_init_def engine_result_checks_def Let_def
    by (intro checks_total) auto
qed


section \<open>The conditions of a run\<close>

lemma remaining_open:
  assumes "record_fate s d c side x = Remains" and "x \<in> set (side_records s side)"
  shows "x \<in> set (open_records s d side)"
  using assms by (auto simp: record_fate_def open_records_def single_ids_def Let_def split: if_splits option.splits)

text \<open>The candidates of a run, and that no two of their components get the same truncated digest.\<close>

definition run_candidates ::
    "(string \<Rightarrow> string) \<Rightarrow> engine_snapshot \<Rightarrow> decision_inputs \<Rightarrow> matching_policy \<Rightarrow> candidate_evidence list result"
where
  "run_candidates sha256 s d policy =
     rbind (preprocess_references s d (mp_reference_contract policy))
     (\<lambda>pre. rbind (generate_candidates sha256 pre policy) (\<lambda>generated. score_candidates pre generated policy))"

definition components_apart ::
    "(string \<Rightarrow> string) \<Rightarrow> engine_snapshot \<Rightarrow> decision_inputs \<Rightarrow> matching_policy \<Rightarrow> bool"
where
  "components_apart sha256 s d policy \<longleftrightarrow>
     (case run_candidates sha256 s d policy of Inl _ \<Rightarrow> True | Inr cs \<Rightarrow> distinct_component_ids sha256 cs policy)"

text \<open>
  What a run relies on: inputs made by their constructors with decisions of the right
  orientation, time windows within the years 1 to 9999 and identities without NUL; a digest of 64
  characters that keeps the blocking keys of the snapshot and the components of the candidates of
  this run apart; the solver of the policy, under its documented contract; and
  components within the range of exact 64-bit costs.
\<close>

definition run_ready ::
    "(string \<Rightarrow> string) \<Rightarrow> engine_snapshot \<Rightarrow> matching_policy \<Rightarrow> comparison_policy \<Rightarrow> decision_inputs \<Rightarrow> solver \<Rightarrow> bool"
where
  "run_ready sha256 s policy comparison d solver \<longleftrightarrow>
     valid_snapshot s \<and> valid_decisions d \<and> oriented_decisions s d \<and> valid_policy policy \<and> valid_comparison comparison \<and>
     (\<forall>i \<in> set (side_ids s LEFT) \<union> set (side_ids s RIGHT). no_nul i) \<and> sha256_hex sha256 \<and>
     partitions_apart sha256 s policy \<and> components_apart sha256 s d policy \<and> windows_ok s policy \<and>
     minimizing_solver (sv_minimize solver) \<and> sv_version solver = mp_solver_version policy \<and>
     cl_max_component_nodes (mp_limits policy) \<le> 900000"

text \<open>The stages before the assembly.\<close>

definition staged ::
    "(string \<Rightarrow> string) \<Rightarrow> engine_snapshot \<Rightarrow> matching_policy \<Rightarrow> decision_inputs \<Rightarrow> solver \<Rightarrow> preprocessing_result \<Rightarrow>
     generation_result \<Rightarrow> candidate_evidence list \<Rightarrow> solve_result \<Rightarrow> gated_result \<Rightarrow> bool"
where
  "staged sha256 s policy d solver pre g cs asg gt \<longleftrightarrow>
     preprocess_references s d (mp_reference_contract policy) = Inr pre \<and> generate_candidates sha256 pre policy = Inr g \<and>
     score_candidates pre g policy = Inr cs \<and> solve_assignment sha256 cs g policy solver = Inr asg \<and>
     gate_assignment sha256 cs asg policy solver = Inr gt"

lemma reconcile_staged:
  "staged sha256 s policy d solver pre g cs asg gt \<Longrightarrow>
   reconcile sha256 s policy comparison d solver = assemble sha256 s d policy comparison pre cs asg gt"
  by (simp add: staged_def reconcile_def)

lemma stages_total:
  assumes ready: "run_ready sha256 s policy comparison d solver"
  obtains pre g cs asg gt where "staged sha256 s policy d solver pre g cs asg gt"
    "preprocessed s d (mp_reference_contract policy) pre" "searchable pre"
    "list_all2 (scored_edge policy g) (gr_candidates g) cs" "distinct (map ce_edge cs)"
    "assignable sha256 cs policy solver" "gated_ok cs policy gt"
proof -
  have v: "valid_snapshot s" "valid_decisions d" and o: "oriented_decisions s d" and vp: "valid_policy policy"
    using ready by (simp_all add: run_ready_def)
  obtain pre where pre: "preprocess_references s d (mp_reference_contract policy) = Inr pre"
    using preprocess_fates [OF v o] by blast
  note ok = preprocessed_ok [OF v o pre]
  note searchable = preprocessed_searchable [OF v(1) pre ok]
  have rem: "set (remaining_records side pre) = {x \<in> set (side_records s side).
      record_fate s d (mp_reference_contract policy) side x = Remains}" for side
    using ok unfolding preprocessed_def by blast
  then have sub: "set (remaining_records side pre) \<subseteq> set (open_records s d side)" for side
    using remaining_open by blast
  have rl: "set (rp_remaining_left pre) \<subseteq> set (es_left s)" "set (rp_remaining_right pre) \<subseteq> set (es_right s)"
    using rem [of LEFT] rem [of RIGHT] by auto
  have apart: "partitions_apart sha256 s policy" "windows_ok s policy" using ready by (simp_all add: run_ready_def)
  obtain g where g: "generate_candidates sha256 pre policy = Inr g"
    using generate_candidates_total [OF vp searchable search_conditions [OF apart rl refl]] by blast
  obtain cs where cs: "score_candidates pre g policy = Inr cs"
    and all: "list_all2 (scored_edge policy g) (gr_candidates g) cs"
    using score_candidates_total [OF vp searchable g] by blast
  have edges: "map ce_edge cs = map cg_edge (gr_candidates g)" by (rule scored_map [OF all])
  have d: "distinct (map ce_edge cs)" using generation_distinct(1) [OF vp g] edges by simp
  have a: "assignable sha256 cs policy solver"
    using ready d score_candidates_valid [OF cs] by (simp add: assignable_def run_ready_def list_all_iff)
  have ends: "ce_left_id c \<in> mr_observation_id ` set (open_records s d LEFT)"
    "ce_right_id c \<in> mr_observation_id ` set (open_records s d RIGHT)" if "c \<in> set cs" for c
    using candidate_ends [OF vp g all that] sub [of LEFT] sub [of RIGHT] by auto
  have comps: "distinct_component_ids sha256 cs policy"
    using ready pre g cs by (simp add: run_ready_def components_apart_def run_candidates_def)
  obtain asg where asg: "solve_assignment sha256 cs g policy solver = Inr asg"
    using solve_assignment_total [OF a _ comps generation_distinct(2) [OF vp g]] edges by metis
  have ids: "mr_observation_id ` set (open_records s d LEFT) \<subseteq> set (side_ids s LEFT)"
    by (auto simp: open_records_def side_ids_def)
  have "no_nul (ce_left_id c)" if "c \<in> set cs" for c
    using ends(1) [OF that] ids ready unfolding run_ready_def by blast
  then obtain gt where gt: "gate_assignment sha256 cs asg policy solver = Inr gt"
    "list_all2 (gated_from cs policy) (sr_components asg) (gt_components gt)"
    "gt_proposals gt = sort_key pe_edge (concat (map ac_proposals (gt_components gt)))"
    "gt_accepted_proposals gt = filter pe_accepted (gt_proposals gt)"
    using gate_assignment_total [OF a asg] by blast
  show ?thesis
    by (rule that [of pre g cs asg gt, OF _ ok searchable all d a gated_ok [OF a asg gt(2-4)]])
      (simp add: staged_def pre g cs asg gt(1))
qed


section \<open>Assembling the result\<close>

definition accepted_as :: "proposal_evidence \<Rightarrow> pair_outcome \<Rightarrow> bool" where
  "accepted_as p q \<longleftrightarrow> po_edge q = pe_edge p \<and> po_origin q = WEIGHTED_GLOBAL \<and> po_score_bp q = Some (pe_score_bp p) \<and>
     po_global_gap_bp q = Some (pe_global_gap_bp p)"

lemma established_total:
  assumes v: "valid_snapshot s" and c: "valid_comparison comparison" and ok: "preprocessed s d k pre"
    and auto: "\<forall>p \<in> set (rp_pairs pre). po_origin p \<noteq> WEIGHTED_GLOBAL"
  shows "\<exists>est. rmap (compare_known_pair s policy comparison) (rp_pairs pre) = Inr est \<and> list_all2 same_pair (rp_pairs pre) est"
proof -
  have step: "\<exists>q. compare_known_pair s policy comparison p = Inr q \<and> same_pair p q" if p: "p \<in> set (rp_pairs pre)" for p
  proof (rule compare_known_pair_total [OF v c])
    from ok p have new: "p = new_pair (po_left_id p) (po_right_id p) (po_origin p)"
      and ids: "po_left_id p \<in> set (side_ids s LEFT)" "po_right_id p \<in> set (side_ids s RIGHT)"
      unfolding preprocessed_def by blast+
    show "po_left_id p \<in> set (side_ids s LEFT)" "po_right_id p \<in> set (side_ids s RIGHT)" by (rule ids)+
    have "po_score_bp p = None" "po_global_gap_bp p = None" by (subst new; simp add: new_pair_def)+
    with auto p show "scored_pair p" by (simp add: scored_pair_def)
  qed
  then have "\<exists>est. rmap (compare_known_pair s policy comparison) (rp_pairs pre) = Inr est" by (intro rmap_total_ex) blast
  then obtain est where est: "rmap (compare_known_pair s policy comparison) (rp_pairs pre) = Inr est" by blast
  then have "list_all2 (\<lambda>p q. compare_known_pair s policy comparison p = Inr q) (rp_pairs pre) est" by (simp only: rmap_Inr_iff)
  then have "list_all2 same_pair (rp_pairs pre) est" by (rule list.rel_mono_strong) (use step in fastforce)
  with est show ?thesis by blast
qed

lemma accepted_total:
  assumes v: "valid_snapshot s" and c: "valid_comparison comparison"
    and ps: "\<And>p. p \<in> set ps \<Longrightarrow> pe_left_id p \<in> set (side_ids s LEFT) \<and> pe_right_id p \<in> set (side_ids s RIGHT) \<and>
      0 \<le> pe_score_bp p \<and> pe_score_bp p \<le> SCORE_SCALE_BP \<and> 0 \<le> pe_global_gap_bp p"
  shows "\<exists>acc. rmap (\<lambda>p. rbind (accepted_pair p) (compare_known_pair s policy comparison)) ps = Inr acc \<and>
    list_all2 accepted_as ps acc"
proof -
  let ?f = "\<lambda>p. rbind (accepted_pair p) (compare_known_pair s policy comparison)"
  have step: "\<exists>q. ?f p = Inr q \<and> accepted_as p q" if p: "p \<in> set ps" for p
  proof -
    note f = ps [OF p]
    from f obtain q where q: "accepted_pair p = Inr q" "po_edge q = pe_edge p" "po_origin q = WEIGHTED_GLOBAL"
      "po_score_bp q = Some (pe_score_bp p)" "po_global_gap_bp q = Some (pe_global_gap_bp p)" "scored_pair q"
      using accepted_pair_total [of p] valid_snapshot_not_blank [OF v] by blast
    with f obtain q' where "compare_known_pair s policy comparison q = Inr q'" "same_pair q q'"
      using compare_known_pair_total [OF v c, of q policy] by auto
    with q show ?thesis by (auto simp: same_pair_def accepted_as_def)
  qed
  then have "\<exists>acc. rmap ?f ps = Inr acc" by (intro rmap_total_ex) blast
  then obtain acc where acc: "rmap ?f ps = Inr acc" by blast
  then have "list_all2 (\<lambda>p q. ?f p = Inr q) ps acc" by (simp only: rmap_Inr_iff)
  then have "list_all2 accepted_as ps acc" by (rule list.rel_mono_strong) (use step in fastforce)
  with acc show ?thesis by blast
qed

lemma unpaired_total:
  assumes "\<And>r. r \<in> set rs \<Longrightarrow> \<not> blank (mr_observation_id r)"
  shows "\<exists>us. rmap (automatic_unpaired cs pre limited f side) rs = Inr us \<and>
    list_all2 (\<lambda>r u. uo_record_id u = mr_observation_id r \<and> uo_side u = side) rs us"
proof -
  let ?f = "automatic_unpaired cs pre limited f side"
  note step = automatic_unpaired_total [OF assms, where side = side and cs = cs and pre = pre and limited = limited and f = f]
  have "\<exists>us. rmap ?f rs = Inr us" by (intro rmap_total_ex) (use step in blast)
  then obtain us where us: "rmap ?f rs = Inr us" by blast
  then have "list_all2 (\<lambda>r u. ?f r = Inr u) rs us" by (simp only: rmap_Inr_iff)
  then have "list_all2 (\<lambda>r u. uo_record_id u = mr_observation_id r \<and> uo_side u = side) rs us"
    by (rule list.rel_mono_strong) (use step in fastforce)
  with us show ?thesis by blast
qed

lemma same_pairs_ids:
  "list_all2 same_pair ps qs \<Longrightarrow> map po_left_id qs = map po_left_id ps \<and> map po_right_id qs = map po_right_id ps \<and>
     map po_origin qs = map po_origin ps"
  by (induction rule: list_all2_induct) (auto simp: same_pair_def)

lemma accepted_ids:
  "list_all2 accepted_as ps qs \<Longrightarrow> map po_left_id qs = map pe_left_id ps \<and> map po_right_id qs = map pe_right_id ps \<and>
     (\<forall>q \<in> set qs. po_origin q = WEIGHTED_GLOBAL)"
  by (induction rule: list_all2_induct) (auto simp: accepted_as_def)

lemma unpaired_side_ids:
  "list_all2 (\<lambda>r u. uo_record_id u = mr_observation_id r \<and> uo_side u = side) rs us \<Longrightarrow>
     unpaired_ids side' us = (if side' = side then map mr_observation_id rs else [])"
  by (induction rule: list_all2_induct) (auto simp: unpaired_ids_def)


lemma side_partition:
  assumes "distinct as" "distinct ts" "distinct ms" "distinct qs" "set as \<union> set ts \<union> set ms = I"
    and "set as \<inter> set ts = {}" "set as \<inter> set ms = {}" "set ts \<inter> set ms = {}" "set qs \<subseteq> set ms" "X \<inter> I = {}"
  shows "distinct (as @ qs) \<and> distinct (ts @ filter (\<lambda>i. i \<notin> set as \<union> set qs \<union> X) ms) \<and>
    set (as @ qs) \<inter> set (ts @ filter (\<lambda>i. i \<notin> set as \<union> set qs \<union> X) ms) = {} \<and>
    set (as @ qs) \<union> set (ts @ filter (\<lambda>i. i \<notin> set as \<union> set qs \<union> X) ms) = I"
  using assms by auto

lemma paired_origin: "record_fate s d c side x = Paired j origin \<Longrightarrow> origin \<noteq> WEIGHTED_GLOBAL"
  by (auto simp: record_fate_def reference_fate_def Let_def split: if_splits option.splits list.splits)

lemma preprocessed_origins:
  assumes v: "valid_snapshot s" and ok: "preprocessed s d c pre" and p: "p \<in> set (rp_pairs pre)"
  shows "po_origin p \<noteq> WEIGHTED_GLOBAL"
proof -
  from ok p have "po_left_id p \<in> set (side_ids s LEFT)" "id_fate s d c LEFT (po_left_id p) = Paired (po_right_id p) (po_origin p)"
    unfolding preprocessed_def by blast+
  moreover from this(1) obtain x where "x \<in> set (side_records s LEFT)" "mr_observation_id x = po_left_id p"
    by (auto simp: side_ids_def)
  ultimately have "record_fate s d c LEFT x = Paired (po_right_id p) (po_origin p)"
    using id_fate_record [OF v, of x LEFT d c] by simp
  then show ?thesis by (rule paired_origin)
qed

lemma set_pair_ids: "set (pair_ids ps) = po_left_id ` set ps \<union> po_right_id ` set ps"
  by (auto simp: pair_ids_def)

lemma filter_ids: "map mr_observation_id (filter (\<lambda>r. mr_observation_id r \<notin> A) rs) = filter (\<lambda>i. i \<notin> A) (map mr_observation_id rs)"
  by (simp add: filter_map comp_def)

text \<open>The unpaired records complete the pairs to a partition of the inputs.\<close>

lemma assembled_partition:
  assumes v: "valid_snapshot s" and pre: "preprocess_references s d c = Inr pre"
    and est: "list_all2 same_pair (rp_pairs pre) est" and acc: "list_all2 accepted_as ps acc"
    and ps: "distinct (map pe_left_id ps)" "distinct (map pe_right_id ps)"
      "pe_left_id ` set ps \<subseteq> mr_observation_id ` set (rp_remaining_left pre)"
      "pe_right_id ` set ps \<subseteq> mr_observation_id ` set (rp_remaining_right pre)"
    and lefts: "list_all2 (\<lambda>r u. uo_record_id u = mr_observation_id r \<and> uo_side u = LEFT)
      (filter (\<lambda>r. mr_observation_id r \<notin> set (pair_ids (est @ acc))) (rp_remaining_left pre)) lefts"
    and rights: "list_all2 (\<lambda>r u. uo_record_id u = mr_observation_id r \<and> uo_side u = RIGHT)
      (filter (\<lambda>r. mr_observation_id r \<notin> set (pair_ids (est @ acc))) (rp_remaining_right pre)) rights"
    and r: "er_pairs r = est @ acc" "er_unpaired r = rp_terminal_unpaired pre @ lefts @ rights"
      "er_input_left_ids r = input_left_ids s" "er_input_right_ids r = input_right_ids s"
  shows "result_partition r"
proof -
  note part = preprocess_partition [OF pre]
  have apart: "set (side_ids s LEFT) \<inter> set (side_ids s RIGHT) = {}" by (rule valid_snapshot_disjoint [OF v])
  let ?al = "map po_left_id (rp_pairs pre)" and ?ar = "map po_right_id (rp_pairs pre)"
  let ?ql = "map pe_left_id ps" and ?qr = "map pe_right_id ps"
  have pl: "map po_left_id (est @ acc) = ?al @ ?ql" and pr: "map po_right_id (est @ acc) = ?ar @ ?qr"
    using same_pairs_ids [OF est] accepted_ids [OF acc] by simp_all
  have inl: "set (?al @ ?ql) \<subseteq> set (side_ids s LEFT)" and inr: "set (?ar @ ?qr) \<subseteq> set (side_ids s RIGHT)"
    unfolding set_append set_map part(7) [symmetric] part(8) [symmetric] using ps(3,4) by blast+
  have ids: "set (pair_ids (est @ acc)) = set ?al \<union> set ?ql \<union> set (?ar @ ?qr)"
    "set (pair_ids (est @ acc)) = set ?ar \<union> set ?qr \<union> set (?al @ ?ql)"
    unfolding set_pair_ids set_map [symmetric] pl pr by auto
  have ul: "unpaired_ids LEFT (er_unpaired r) = unpaired_ids LEFT (rp_terminal_unpaired pre) @
      filter (\<lambda>i. i \<notin> set ?al \<union> set ?ql \<union> set (?ar @ ?qr)) (map mr_observation_id (rp_remaining_left pre))"
    using unpaired_side_ids [OF lefts, of LEFT] unpaired_side_ids [OF rights, of LEFT]
    unfolding r(2) ids(1) [symmetric] by (simp add: unpaired_ids_def filter_ids)
  have ur: "unpaired_ids RIGHT (er_unpaired r) = unpaired_ids RIGHT (rp_terminal_unpaired pre) @
      filter (\<lambda>i. i \<notin> set ?ar \<union> set ?qr \<union> set (?al @ ?ql)) (map mr_observation_id (rp_remaining_right pre))"
    using unpaired_side_ids [OF lefts, of RIGHT] unpaired_side_ids [OF rights, of RIGHT]
    unfolding r(2) ids(2) [symmetric] by (simp add: unpaired_ids_def filter_ids)
  have "set (?ar @ ?qr) \<inter> set (side_ids s LEFT) = {}" "set (?al @ ?ql) \<inter> set (side_ids s RIGHT) = {}"
    using inl inr apart by blast+
  with part ps have
    "distinct (?al @ ?ql) \<and> distinct (unpaired_ids LEFT (er_unpaired r)) \<and>
     set (?al @ ?ql) \<inter> set (unpaired_ids LEFT (er_unpaired r)) = {} \<and>
     set (?al @ ?ql) \<union> set (unpaired_ids LEFT (er_unpaired r)) = set (side_ids s LEFT)"
    "distinct (?ar @ ?qr) \<and> distinct (unpaired_ids RIGHT (er_unpaired r)) \<and>
     set (?ar @ ?qr) \<inter> set (unpaired_ids RIGHT (er_unpaired r)) = {} \<and>
     set (?ar @ ?qr) \<union> set (unpaired_ids RIGHT (er_unpaired r)) = set (side_ids s RIGHT)"
    unfolding ul ur by (intro side_partition; simp)+
  then show ?thesis
    unfolding result_partition_def r(1) r(3,4) input_ids_side set_map [symmetric] pl pr by blast
qed


text \<open>The evidence of the result, with whatever diagnostics.\<close>

lemma assembled_evidence:
  assumes gated: "gated_ok cs policy gt" and d: "distinct (map ce_edge cs)"
    and ends: "\<And>c. c \<in> set cs \<Longrightarrow> ce_left_id c \<in> set (side_ids s LEFT) \<and> ce_right_id c \<in> set (side_ids s RIGHT) \<and>
      no_nul (ce_left_id c)"
    and est: "\<forall>p \<in> set est. po_origin p \<noteq> WEIGHTED_GLOBAL"
    and acc: "list_all2 accepted_as (gt_accepted_proposals gt) acc"
    and r: "er_pairs r = est @ acc" "er_candidates r = cs" "er_components r = gt_components gt"
      "er_input_left_ids r = input_left_ids s" "er_input_right_ids r = input_right_ids s"
  shows "result_evidenced r"
proof -
  have props: "set (result_proposals r) = set (gt_proposals gt)"
    using gated by (simp add: gated_ok_def result_proposals_def r)
  have accepted: "gt_accepted_proposals gt = filter pe_accepted (gt_proposals gt)"
    and comps: "distinct (map ac_component_id (gt_components gt))"
      "\<forall>ac \<in> set (gt_components gt). set (ac_left_ids ac) \<subseteq> ce_left_id ` set cs \<and> set (ac_right_ids ac) \<subseteq> ce_right_id ` set cs"
    and from_c: "\<forall>p \<in> set (gt_proposals gt). \<exists>c \<in> set cs. pe_edge p = ce_edge c \<and> pe_score_bp p = ce_score_bp c"
    using gated unfolding gated_ok_def by blast+
  have "inj_on (\<lambda>c. edge_text (ce_left_id c) (ce_right_id c)) (set cs)"
  proof (rule inj_onI)
    fix c c' assume c: "c \<in> set cs" "c' \<in> set cs"
      "edge_text (ce_left_id c) (ce_right_id c) = edge_text (ce_left_id c') (ce_right_id c')"
    then have "ce_edge c = ce_edge c'" using ends edge_text_inject by simp
    with d c(1,2) show "c = c'" by (auto simp: distinct_map dest: inj_onD)
  qed
  with d have texts: "distinct (map (\<lambda>c. edge_text (ce_left_id c) (ce_right_id c)) cs)" by (simp add: distinct_map)
  have weighted: "\<exists>q \<in> set (gt_proposals gt). pe_accepted q \<and> pe_edge q = po_edge p"
    if "p \<in> set (est @ acc)" "po_origin p = WEIGHTED_GLOBAL" for p
  proof -
    from that est have "p \<in> set acc" by auto
    from list_all2_in_rev [OF acc this] accepted show ?thesis by (auto simp: accepted_as_def)
  qed
  have paired: "\<exists>p \<in> set (est @ acc). accepted_as q p" if "q \<in> set (gt_proposals gt)" "pe_accepted q" for q
  proof -
    have "q \<in> set (gt_accepted_proposals gt)" using that accepted by simp
    with acc obtain n where "n < length (gt_accepted_proposals gt)" "q = gt_accepted_proposals gt ! n" by (auto simp: in_set_conv_nth)
    with list_all2_nthD [OF acc] list_all2_lengthD [OF acc] have "accepted_as q (acc ! n)" "acc ! n \<in> set acc" by auto
    then show ?thesis by auto
  qed
  have ids: "ce_left_id ` set cs \<subseteq> set (side_ids s LEFT)" "ce_right_id ` set cs \<subseteq> set (side_ids s RIGHT)" using ends by auto
  have inside: "\<forall>c \<in> set (gt_components gt). set (ac_left_ids c) \<subseteq> set (side_ids s LEFT) \<and> set (ac_right_ids c) \<subseteq> set (side_ids s RIGHT)"
    using comps(2) ids by blast
  show ?thesis
    unfolding result_evidenced_def props r input_ids_side
    using d texts ends comps(1) inside from_c weighted paired unfolding accepted_as_def by blast
qed

lemma policy_texts:
  assumes "valid_policy policy"
  shows "\<not> blank (mp_policy_version policy)" "\<not> blank (mp_engine_version policy)" "\<not> blank (mp_solver_version policy)"
  using assms by (simp_all add: valid_policy_def matching_policy_post_init_def matching_policy_checks_def checks_Inr_iff Let_def)

lemma snapshot_texts:
  assumes "valid_snapshot s"
  shows "\<not> blank (es_left_revision_id s)" "\<not> blank (es_right_revision_id s)"
  using assms by (simp_all add: valid_snapshot_def engine_snapshot_post_init_def engine_snapshot_checks_def checks_Inr_iff)

lemma primary_identity:
  assumes "valid_snapshot s" and "valid_policy policy" and "valid_comparison comparison"
  shows "result_identity (primary_result s policy comparison pairs unpaired cs comps)"
proof -
  have "\<not> blank (cp_policy_version comparison)"
    using assms(3) by (simp add: valid_comparison_def comparison_policy_post_init_def checks_Inr_iff)
  with assms(1,2) show ?thesis
    using valid_snapshot_distinct [OF assms(1), of LEFT] valid_snapshot_distinct [OF assms(1), of RIGHT]
      valid_snapshot_disjoint [OF assms(1)]
    by (simp add: result_identity_def primary_result_def policy_texts snapshot_texts input_ids_side)
qed


section \<open>The run\<close>

lemma result_diagnostics_normal:
  "engine_result_post_init ((engine_result_normal r)\<lparr>er_diagnostics := ds\<rparr>) = engine_result_post_init (r\<lparr>er_diagnostics := ds\<rparr>)"
proof -
  have "engine_result_normal ((engine_result_normal r)\<lparr>er_diagnostics := ds\<rparr>) = engine_result_normal (r\<lparr>er_diagnostics := ds\<rparr>)"
    by (simp add: engine_result_normal_def)
  then show ?thesis by (simp add: engine_result_post_init_def engine_result_checks_def)
qed

lemma run_total:
  assumes ready: "run_ready sha256 s policy comparison d solver"
    and staged: "staged sha256 s policy d solver pre g cs asg gt" and ok: "preprocessed s d (mp_reference_contract policy) pre"
    and search: "searchable pre" and all: "list_all2 (scored_edge policy g) (gr_candidates g) cs"
    and dist: "distinct (map ce_edge cs)" and gated: "gated_ok cs policy gt"
  shows "\<exists>r est acc. reconcile sha256 s policy comparison d solver = Inr r \<and>
    set (er_pairs r) = set est \<union> set acc \<and> list_all2 same_pair (rp_pairs pre) est \<and>
    list_all2 accepted_as (gt_accepted_proposals gt) acc"
proof -
  have v: "valid_snapshot s" "valid_decisions d" and vp: "valid_policy policy" and vc: "valid_comparison comparison"
    and apart: "partitions_apart sha256 s policy" "windows_ok s policy"
    and nul: "\<forall>i \<in> set (side_ids s LEFT) \<union> set (side_ids s RIGHT). no_nul i"
    using ready by (simp_all add: run_ready_def)
  have pre: "preprocess_references s d (mp_reference_contract policy) = Inr pre"
    and g: "generate_candidates sha256 pre policy = Inr g" and cs: "score_candidates pre g policy = Inr cs"
    using staged by (simp_all add: staged_def)
  note ends = candidate_ends [OF vp g all]
  have rem: "mr_observation_id ` set (rp_remaining_left pre) \<subseteq> set (side_ids s LEFT)"
    "mr_observation_id ` set (rp_remaining_right pre) \<subseteq> set (side_ids s RIGHT)"
    using preprocess_partition(7,8) [OF pre] by blast+
  have ids: "ce_left_id c \<in> set (side_ids s LEFT) \<and> ce_right_id c \<in> set (side_ids s RIGHT) \<and> no_nul (ce_left_id c)"
    if "c \<in> set cs" for c using ends [OF that] rem nul by blast
  have acc_c: "\<exists>c \<in> set cs. pe_edge p = ce_edge c \<and> pe_score_bp p = ce_score_bp c \<and> 0 \<le> pe_global_gap_bp p"
    if "p \<in> set (gt_accepted_proposals gt)" for p using gated that by (auto simp: gated_ok_def)
  have acc_ok: "pe_left_id p \<in> set (side_ids s LEFT) \<and> pe_right_id p \<in> set (side_ids s RIGHT) \<and>
      0 \<le> pe_score_bp p \<and> pe_score_bp p \<le> SCORE_SCALE_BP \<and> 0 \<le> pe_global_gap_bp p"
    if p: "p \<in> set (gt_accepted_proposals gt)" for p
  proof -
    from acc_c [OF p] obtain c where c: "c \<in> set cs" "pe_edge p = ce_edge c" "pe_score_bp p = ce_score_bp c"
      "0 \<le> pe_global_gap_bp p" by blast
    from valid_candidate_facts(3,4) [OF score_candidates_valid [OF cs c(1)]] ids [OF c(1)] c show ?thesis
      by (simp add: SCORE_SCALE_BP_def)
  qed
  obtain est where est: "rmap (compare_known_pair s policy comparison) (rp_pairs pre) = Inr est"
    "list_all2 same_pair (rp_pairs pre) est"
    using established_total [OF v(1) vc ok] preprocessed_origins [OF v(1) ok] by blast
  obtain acc where acc: "rmap (\<lambda>p. rbind (accepted_pair p) (compare_known_pair s policy comparison)) (gt_accepted_proposals gt) = Inr acc"
    "list_all2 accepted_as (gt_accepted_proposals gt) acc"
    using accepted_total [OF v(1) vc acc_ok] by blast
  let ?left = "filter (\<lambda>r. mr_observation_id r \<notin> set (pair_ids (est @ acc)))"
  let ?unpair = "automatic_unpaired cs pre (sr_limited_record_ids asg) (mp_assignment_floor_bp policy)"
  have nb: "\<not> blank (mr_observation_id r)" if "r \<in> set (rp_remaining_left pre) \<union> set (rp_remaining_right pre)" for r
    using search that unfolding searchable_def by blast
  have nbl: "\<not> blank (mr_observation_id r)" if "r \<in> set (?left (rp_remaining_left pre))" for r using nb that by simp
  have nbr: "\<not> blank (mr_observation_id r)" if "r \<in> set (?left (rp_remaining_right pre))" for r using nb that by simp
  obtain lefts where lefts: "rmap (?unpair LEFT) (?left (rp_remaining_left pre)) = Inr lefts"
    "list_all2 (\<lambda>r u. uo_record_id u = mr_observation_id r \<and> uo_side u = LEFT) (?left (rp_remaining_left pre)) lefts"
    using unpaired_total [OF nbl] by blast
  obtain rights where rights: "rmap (?unpair RIGHT) (?left (rp_remaining_right pre)) = Inr rights"
    "list_all2 (\<lambda>r u. uo_record_id u = mr_observation_id r \<and> uo_side u = RIGHT) (?left (rp_remaining_right pre)) rights"
    using unpaired_total [OF nbr] by blast
  define raw where "raw = primary_result s policy comparison (est @ acc) (rp_terminal_unpaired pre @ lefts @ rights) cs (gt_components gt)"
  have raw: "er_pairs raw = est @ acc" "er_unpaired raw = rp_terminal_unpaired pre @ lefts @ rights"
    "er_input_left_ids raw = input_left_ids s" "er_input_right_ids raw = input_right_ids s" "er_candidates raw = cs"
    "er_components raw = gt_components gt" "er_diagnostics raw = []" by (simp_all add: raw_def primary_result_def)
  have acc_d: "distinct (map pe_left_id (gt_accepted_proposals gt))" "distinct (map pe_right_id (gt_accepted_proposals gt))"
    using gated by (simp_all add: gated_ok_def distinct_map_filter)
  have acc_r: "pe_left_id ` set (gt_accepted_proposals gt) \<subseteq> mr_observation_id ` set (rp_remaining_left pre)"
    "pe_right_id ` set (gt_accepted_proposals gt) \<subseteq> mr_observation_id ` set (rp_remaining_right pre)"
  proof -
    have "pe_left_id p \<in> mr_observation_id ` set (rp_remaining_left pre) \<and>
        pe_right_id p \<in> mr_observation_id ` set (rp_remaining_right pre)" if p: "p \<in> set (gt_accepted_proposals gt)" for p
    proof -
      from acc_c [OF p] obtain c where "c \<in> set cs" "pe_edge p = ce_edge c" by blast
      with ends show ?thesis by auto
    qed
    then show "pe_left_id ` set (gt_accepted_proposals gt) \<subseteq> mr_observation_id ` set (rp_remaining_left pre)"
      "pe_right_id ` set (gt_accepted_proposals gt) \<subseteq> mr_observation_id ` set (rp_remaining_right pre)" by blast+
  qed
  have identity: "result_identity raw" unfolding raw_def by (rule primary_identity [OF v(1) vp vc])
  have part: "result_partition raw"
    by (rule assembled_partition [OF v(1) pre est(2) acc(2) acc_d acc_r lefts(2) rights(2) raw(1-4)])
  have unweighted: "\<forall>p \<in> set est. po_origin p \<noteq> WEIGHTED_GLOBAL"
    using list_all2_in_rev [OF est(2)] preprocessed_origins [OF v(1) ok] by (metis same_pair_def)
  have ev: "result_evidenced raw"
    by (rule assembled_evidence [OF gated dist _ unweighted acc(2) raw(1,5,6,3,4)]) (rule ids)
  have primary: "engine_result_post_init raw = Inr (engine_result_normal raw)"
    by (rule engine_result_ok [OF identity part ev]) (simp add: result_diagnosed_def raw)
  from diagnose_total [OF v vp apart, of "engine_result_normal raw"] obtain ds where
    ds: "diagnose_accepted_unmatched sha256 s d policy (engine_result_normal raw) = Inr ds"
    and diag: "diagnosed s (er_pairs (engine_result_normal raw)) (au_record_id ` set (di_accepted_unmatched d)) ds" by blast
  let ?final = "raw\<lparr>er_diagnostics := ds\<rparr>"
  have "result_diagnosed ?final"
    using diag diagnosed_texts [OF diag nul]
    by (auto simp: result_diagnosed_def raw input_ids_side diagnosed_def mentions_def engine_result_normal_def)
  moreover have "result_identity ?final" using identity by (simp add: result_identity_def)
  moreover have "result_partition ?final" using part by (simp add: result_partition_def)
  moreover have "result_evidenced ?final" using ev by (simp add: result_evidenced_def result_proposals_def)
  ultimately have final: "engine_result_post_init ?final = Inr (engine_result_normal ?final)" by (intro engine_result_ok)
  have "reconcile sha256 s policy comparison d solver = Inr (engine_result_normal ?final)"
    unfolding reconcile_staged [OF staged] assemble_def est(1) acc(1) rbind.simps Let_def lefts(1) rights(1)
      raw_def [symmetric] primary ds result_diagnostics_normal final ..
  moreover have "set (er_pairs (engine_result_normal ?final)) = set est \<union> set acc"
    by (simp add: engine_result_normal_def raw)
  ultimately show ?thesis using est(2) acc(2) by blast
qed

end
