(* ===== verification/RunFacts.thy ===== *)
theory RunFacts
  imports EngineFacts
begin

text \<open>
  The promises of the engine as a whole: it terminates with a result, accounts for every record
  once, follows the reviewer, pairs automatically only records that agree, and does not depend
  on the order of its inputs.
\<close>

section \<open>Reading a returned result\<close>

lemma reconcile_Inr:
  assumes "reconcile sha256 s policy comparison d solver = Inr r"
  obtains pre g cs asg gt est acc where "staged sha256 s policy d solver pre g cs asg gt"
    "result_partition r" "er_input_left_ids r = sort (input_left_ids s)" "er_input_right_ids r = sort (input_right_ids s)"
    "set (er_candidates r) = set cs" "rmap (compare_known_pair s policy comparison) (rp_pairs pre) = Inr est"
    "rmap (\<lambda>p. rbind (accepted_pair p) (compare_known_pair s policy comparison)) (gt_accepted_proposals gt) = Inr acc"
    "set (er_pairs r) = set est \<union> set acc"
    "\<And>p. p \<in> set (er_pairs r) \<Longrightarrow> p \<in> set est \<or> po_origin p = WEIGHTED_GLOBAL \<and> (\<exists>c \<in> set cs. ce_edge c = po_edge p)"
proof -
  from assms obtain pre g cs asg gt where st: "staged sha256 s policy d solver pre g cs asg gt"
    by (auto simp: reconcile_def staged_def rbind_Inr_iff)
  from assms obtain est acc us primary ds where
    est: "rmap (compare_known_pair s policy comparison) (rp_pairs pre) = Inr est"
    and acc: "rmap (\<lambda>p. rbind (accepted_pair p) (compare_known_pair s policy comparison)) (gt_accepted_proposals gt) = Inr acc"
    and primary: "engine_result_post_init (primary_result s policy comparison (est @ acc) us cs (gt_components gt)) = Inr primary"
    and final: "engine_result_post_init (primary\<lparr>er_diagnostics := ds\<rparr>) = Inr r"
    unfolding reconcile_staged [OF st] by (auto simp: assemble_def rbind_Inr_iff Let_def)
  let ?raw = "primary_result s policy comparison (est @ acc) us cs (gt_components gt)"
  have "primary = engine_result_normal ?raw" using primary by (simp add: engine_result_post_init_def checks_Inr_iff)
  with final have r: "engine_result_post_init (?raw\<lparr>er_diagnostics := ds\<rparr>) = Inr r"
    by (simp only: result_diagnostics_normal)
  then have normal: "r = engine_result_normal (?raw\<lparr>er_diagnostics := ds\<rparr>)"
    and "\<forall>k \<in> set (engine_result_checks (?raw\<lparr>er_diagnostics := ds\<rparr>)). \<not> fst k"
    by (simp_all add: engine_result_post_init_def checks_Inr_iff)
  then have chk: "\<forall>k \<in> set (result_partition_checks r). \<not> fst k" "\<forall>k \<in> set (result_evidence_checks r). \<not> fst k"
    unfolding engine_result_checks_def Let_def normal [symmetric] by auto
  have "\<exists>c \<in> set cs. ce_edge c = po_edge p" if p: "p \<in> set (er_pairs r)" "po_origin p = WEIGHTED_GLOBAL" for p
  proof -
    let ?a = "dict_of pe_edge (filter pe_accepted (result_proposals r))"
    let ?w = "dict_of po_edge (filter (\<lambda>p. po_origin p = WEIGHTED_GLOBAL) (er_pairs r))"
    from chk(2) have "set (dict_keys ?a) = set (dict_keys ?w)"
      and props: "\<not> list_ex (\<lambda>p. case dict_get (dict_of ce_edge (er_candidates r)) (pe_edge p) of
          None \<Rightarrow> True | Some c \<Rightarrow> ce_score_bp c \<noteq> pe_score_bp p) (result_proposals r)"
      unfolding result_evidence_checks_def Let_def by simp_all
    with p have "po_edge p \<in> pe_edge ` set (filter pe_accepted (result_proposals r))" by (auto simp: set_dict_keys_of)
    then obtain q where q: "q \<in> set (result_proposals r)" "pe_edge q = po_edge p" by auto
    with props obtain c where "dict_get (dict_of ce_edge (er_candidates r)) (po_edge p) = Some c"
      by (fastforce simp: list_ex_iff split: option.splits)
    from dict_of_value [OF this] show ?thesis by (auto simp: normal engine_result_normal_def primary_result_def)
  qed
  moreover have "p \<in> set est \<or> po_origin p = WEIGHTED_GLOBAL" if p: "p \<in> set (er_pairs r)" for p
  proof -
    from p have "p \<in> set est \<or> p \<in> set acc" by (simp add: normal engine_result_normal_def primary_result_def)
    moreover have "po_origin p = WEIGHTED_GLOBAL" if "p \<in> set acc"
    proof -
      from rmap_in [OF acc that] obtain q a where "accepted_pair q = Inr a" "compare_known_pair s policy comparison a = Inr p"
        by (auto simp: rbind_Inr_iff)
      then show ?thesis
        by (auto simp: accepted_pair_def compare_known_pair_def compare_pair_def pair_outcome_post_init_def
            checks_Inr_iff rbind_Inr_iff)
    qed
    ultimately show ?thesis by blast
  qed
  ultimately show ?thesis
    using chk(1) by (intro that [OF st _ _ _ _ est acc])
      (auto simp: partition_checks_iff, simp_all add: normal engine_result_normal_def primary_result_def)
qed


lemma compare_known_same: "compare_known_pair s policy comparison p = Inr q \<Longrightarrow> same_pair p q"
  by (auto simp: compare_known_pair_def compare_pair_def pair_outcome_post_init_def checks_Inr_iff rbind_Inr_iff
      same_pair_def)

section \<open>Pairs and the reviewer\<close>

text \<open>What preprocessing decided of the two records of a pair.\<close>

lemma pair_fates:
  assumes v: "valid_snapshot s" "valid_decisions d" and vp: "valid_policy policy"
    and run: "reconcile sha256 s policy comparison d solver = Inr r" and p: "p \<in> set (er_pairs r)"
  shows "\<exists>x \<in> set (es_left s). \<exists>y \<in> set (es_right s). po_edge p = (mr_observation_id x, mr_observation_id y) \<and>
    (record_fate s d (mp_reference_contract policy) LEFT x = Paired (po_right_id p) (po_origin p) \<and>
       record_fate s d (mp_reference_contract policy) RIGHT y = Paired (po_left_id p) (po_origin p) \<or>
     po_origin p = WEIGHTED_GLOBAL \<and> record_fate s d (mp_reference_contract policy) LEFT x = Remains \<and>
       record_fate s d (mp_reference_contract policy) RIGHT y = Remains \<and> po_edge p \<notin> set (rejected_edges d))"
  using run
proof (rule reconcile_Inr)
  fix pre g cs asg gt est acc
  let ?k = "mp_reference_contract policy"
  assume st: "staged sha256 s policy d solver pre g cs asg gt"
    and est: "rmap (compare_known_pair s policy comparison) (rp_pairs pre) = Inr est"
    and pairs: "\<And>p. p \<in> set (er_pairs r) \<Longrightarrow> p \<in> set est \<or> po_origin p = WEIGHTED_GLOBAL \<and> (\<exists>c \<in> set cs. ce_edge c = po_edge p)"
  have pre: "preprocess_references s d ?k = Inr pre" and g: "generate_candidates sha256 pre policy = Inr g"
    and cs: "score_candidates pre g policy = Inr cs" using st by (simp_all add: staged_def)
  have o: "oriented_decisions s d" using preprocess_error_iff [OF v] pre by blast
  note ok = preprocessed_ok [OF v o pre]
  note searchable = preprocessed_searchable [OF v(1) pre ok]
  from pairs [OF p] show ?thesis
  proof
    assume "p \<in> set est"
    from rmap_in [OF est this] obtain q where q: "q \<in> set (rp_pairs pre)" "same_pair q p" using compare_known_same by blast
    from ok q(1) have f: "po_left_id q \<in> set (side_ids s LEFT)" "id_fate s d ?k LEFT (po_left_id q) = Paired (po_right_id q) (po_origin q)"
      "po_right_id q \<in> set (side_ids s RIGHT)" "id_fate s d ?k RIGHT (po_right_id q) = Paired (po_left_id q) (po_origin q)"
      unfolding preprocessed_def by blast+
    from f(1,3) obtain x y where xy: "x \<in> set (es_left s)" "mr_observation_id x = po_left_id q" "y \<in> set (es_right s)"
      "mr_observation_id y = po_right_id q" by (auto simp: side_ids_def)
    with f(2,4) have "record_fate s d ?k LEFT x = Paired (po_right_id q) (po_origin q)"
      "record_fate s d ?k RIGHT y = Paired (po_left_id q) (po_origin q)"
      using id_fate_record [OF v(1), of x LEFT d ?k] id_fate_record [OF v(1), of y RIGHT d ?k] by simp_all
    with xy q(2) show ?thesis by (intro bexI [of _ x] bexI [of _ y]) (simp_all add: same_pair_def)
  next
    assume w: "po_origin p = WEIGHTED_GLOBAL \<and> (\<exists>c \<in> set cs. ce_edge c = po_edge p)"
    then obtain c where c: "c \<in> set cs" "ce_edge c = po_edge p" by blast
    obtain cs' where "score_candidates pre g policy = Inr cs'" "list_all2 (scored_edge policy g) (gr_candidates g) cs'"
      using score_candidates_total [OF vp searchable g] by blast
    with cs have all: "list_all2 (scored_edge policy g) (gr_candidates g) cs" by simp
    from candidate_ends [OF vp g all c(1)] c(2) obtain x y where xy: "x \<in> set (rp_remaining_left pre)" "mr_observation_id x = po_left_id p"
      "y \<in> set (rp_remaining_right pre)" "mr_observation_id y = po_right_id p" "po_edge p \<notin> set (prohibited_edges pre)" by auto
    have "set (remaining_records side pre) = {x \<in> set (side_records s side). record_fate s d ?k side x = Remains}" for side
      using ok unfolding preprocessed_def by blast
    from this [of LEFT] this [of RIGHT] xy(1,3) have
      f: "x \<in> set (es_left s)" "record_fate s d ?k LEFT x = Remains" "y \<in> set (es_right s)" "record_fate s d ?k RIGHT y = Remains" by auto
    have "set (prohibited_edges pre) = {e \<in> set (rejected_edges d). fst e \<in> set (side_ids s LEFT) \<and> snd e \<in> set (side_ids s RIGHT)}"
      using ok unfolding preprocessed_def by blast
    with xy f have "po_edge p \<notin> set (rejected_edges d)" by (force simp: side_ids_def)
    with w f xy(2,4) show ?thesis by (intro bexI [of _ x] bexI [of _ y]) simp_all
  qed
qed

lemma linked_to_Some: "linked_to d side i = Some j \<Longrightarrow> \<exists>m \<in> set (di_manual_links d). link_id side m = i \<and> link_id (other_side side) m = j"
  by (auto simp: linked_to_def dest!: find_SomeD)

lemma links_not_single:
  assumes "valid_decisions d" and "m \<in> set (di_manual_links d)"
  shows "link_id side m \<notin> set (single_ids d)"
  using assms by (cases side)
    (auto simp: valid_decisions_def decision_inputs_post_init_def decision_inputs_checks_def decision_inputs_normal_def
      checks_Inr_iff Let_def single_ids_def)


lemma manual_fate:
  assumes "valid_decisions d" and "record_fate s d c side x = Paired j MANUAL"
  shows "linked_to d side (mr_observation_id x) = Some j"
  using assms(2) by (auto simp: record_fate_def reference_fate_def Let_def split: if_splits option.splits list.splits)

lemma paired_fate_cases:
  assumes d: "valid_decisions d" and f: "record_fate s d c side x = Paired j origin"
  shows "eligible x \<and> mr_observation_id x \<notin> set (single_ids d) \<and>
    (origin = MANUAL \<and> linked_to d side (mr_observation_id x) = Some j \<or>
     origin = AUTHORITATIVE_REFERENCE \<and> linked_to d side (mr_observation_id x) = None \<and>
       oriented side (mr_observation_id x) j \<notin> set (rejected_edges d))"
proof (cases "linked_to d side (mr_observation_id x)")
  case None
  with f show ?thesis
    by (auto simp: record_fate_def reference_fate_def Let_def single_ids_def split: if_splits option.splits list.splits)
next
  case (Some k)
  from linked_to_Some [OF Some] links_not_single [OF d, of _ side] have "mr_observation_id x \<notin> set (single_ids d)" by metis
  with f Some show ?thesis by (auto simp: record_fate_def Let_def split: if_splits)
qed

lemma remaining_fate:
  "record_fate s d c side x = Remains \<Longrightarrow>
   eligible x \<and> mr_observation_id x \<notin> set (single_ids d) \<and> linked_to d side (mr_observation_id x) = None"
  by (auto simp: record_fate_def Let_def single_ids_def split: if_splits option.splits)

definition link_edges :: "decision_inputs \<Rightarrow> (string \<times> string) list" where
  "link_edges d = map (\<lambda>m. (ml_left_id m, ml_right_id m)) (di_manual_links d)"

lemma linked_edge:
  "valid_decisions d \<Longrightarrow> linked_to d LEFT i = Some j \<longleftrightarrow> (i, j) \<in> set (link_edges d)"
  using linked_to_Some [of d LEFT i j] linked_to_link [of d _ LEFT] by (fastforce simp: link_edges_def)

lemma run_pairs_reviewed:
  assumes v: "valid_snapshot s" "valid_decisions d" and vp: "valid_policy policy"
    and run: "reconcile sha256 s policy comparison d solver = Inr r" and p: "p \<in> set (er_pairs r)"
  shows "po_left_id p \<in> set (eligible_ids s LEFT) \<and> po_right_id p \<in> set (eligible_ids s RIGHT) \<and>
    po_left_id p \<notin> set (single_ids d) \<and> po_right_id p \<notin> set (single_ids d) \<and>
    (po_origin p = MANUAL \<longleftrightarrow> po_edge p \<in> set (link_edges d)) \<and>
    (po_origin p \<noteq> MANUAL \<longrightarrow> po_edge p \<notin> set (rejected_edges d))"
proof -
  let ?k = "mp_reference_contract policy"
  from pair_fates [OF v vp run p] obtain x y where xy: "x \<in> set (es_left s)" "y \<in> set (es_right s)"
    "po_left_id p = mr_observation_id x" "po_right_id p = mr_observation_id y"
    and cases: "record_fate s d ?k LEFT x = Paired (po_right_id p) (po_origin p) \<and>
       record_fate s d ?k RIGHT y = Paired (po_left_id p) (po_origin p) \<or>
     po_origin p = WEIGHTED_GLOBAL \<and> record_fate s d ?k LEFT x = Remains \<and>
       record_fate s d ?k RIGHT y = Remains \<and> po_edge p \<notin> set (rejected_edges d)" by auto
  have el: "po_left_id p \<in> set (eligible_ids s LEFT)" if "eligible x" using that xy by (auto simp: eligible_ids_def)
  have er: "po_right_id p \<in> set (eligible_ids s RIGHT)" if "eligible y" using that xy by (auto simp: eligible_ids_def)
  from cases show ?thesis
  proof
    assume f: "record_fate s d ?k LEFT x = Paired (po_right_id p) (po_origin p) \<and>
       record_fate s d ?k RIGHT y = Paired (po_left_id p) (po_origin p)"
    from paired_fate_cases [OF v(2) conjunct1 [OF f]] paired_fate_cases [OF v(2) conjunct2 [OF f]] el er xy(3,4)
    show ?thesis using linked_edge [OF v(2), of "po_left_id p" "po_right_id p"] by auto
  next
    assume f: "po_origin p = WEIGHTED_GLOBAL \<and> record_fate s d ?k LEFT x = Remains \<and>
       record_fate s d ?k RIGHT y = Remains \<and> po_edge p \<notin> set (rejected_edges d)"
    then have "linked_to d LEFT (po_left_id p) = None" using remaining_fate [of s d ?k LEFT x] xy(3) by simp
    then have "po_edge p \<notin> set (link_edges d)" by (simp flip: linked_edge [OF v(2)])
    with f remaining_fate [of s d ?k LEFT x] remaining_fate [of s d ?k RIGHT y] el er xy(3,4) show ?thesis by simp
  qed
qed


section \<open>Weighted pairs agree\<close>

text \<open>Everything two records must share, or at least have, to be paired automatically by score.\<close>

definition agreeing :: "reference_contract \<Rightarrow> match_record \<Rightarrow> match_record \<Rightarrow> bool" where
  "agreeing contract l r \<longleftrightarrow>
     mr_instrument l \<noteq> None \<and> mr_instrument l = mr_instrument r \<and>
     mr_side l \<noteq> None \<and> mr_side l = mr_side r \<and> mr_currency l \<noteq> None \<and> mr_currency l = mr_currency r \<and>
     mr_quantity l \<noteq> None \<and> mr_quantity r \<noteq> None \<and> mr_executed_at l \<noteq> None \<and> mr_executed_at r \<noteq> None \<and>
     (mr_unit_price l \<noteq> None \<and> mr_unit_price r \<noteq> None \<or> mr_gross_amount l \<noteq> None \<and> mr_gross_amount r \<noteq> None) \<and>
     (if contract = SHARED_MUST_AGREE then \<not> differ (mr_reference_value l) (mr_reference_value r)
      else \<not> differ (mr_shared_reference_alias l) (mr_shared_reference_alias r))"

lemma agreeing_iff: "agreeing contract l r \<longleftrightarrow> contradictions l r contract = [] \<and> coverage_failures l r = []"
  by (auto simp: agreeing_def contradictions_def coverage_failures_def differ_def absent_def simp del: not_None_eq)

lemma scored_agreeing:
  assumes "score_candidates pre g policy = Inr cs" and "c \<in> set cs"
  shows "\<exists>l \<in> set (rp_remaining_left pre). \<exists>r \<in> set (rp_remaining_right pre).
    ce_edge c = (mr_observation_id l, mr_observation_id r) \<and>
    (ce_coverage_sufficient c \<and> ce_contradictions c = [] \<longleftrightarrow> agreeing (mp_reference_contract policy) l r)"
proof -
  from assms obtain e where e: "score_edge (dict_of mr_observation_id (rp_remaining_left pre))
      (dict_of mr_observation_id (rp_remaining_right pre)) (gr_limited_record_ids g) policy e = Inr c"
    by (auto simp: score_candidates_def rbind_Inr_iff dest: rmap_in)
  then obtain l r b where lr: "dict_get (dict_of mr_observation_id (rp_remaining_left pre)) (cg_left_id e) = Some l"
    "dict_get (dict_of mr_observation_id (rp_remaining_right pre)) (cg_right_id e) = Some r"
    and c: "score_candidate l r (cg_blocking_reasons e) b policy = Inr c"
    by (auto simp: score_edge_def split: option.splits)
  have "ce_left_id c = mr_observation_id l \<and> ce_right_id c = mr_observation_id r \<and>
      ce_contradictions c = sorted_set (map contradiction_value (contradictions l r (mp_reference_contract policy))) \<and>
      (ce_coverage_sufficient c \<longleftrightarrow> coverage_failures l r = [])"
    using c by (auto simp: score_candidate_def rbind_Inr_iff Let_def candidate_evidence_post_init_def checks_Inr_iff
        candidate_normal_fields)
  moreover have "l \<in> set (rp_remaining_left pre)" "r \<in> set (rp_remaining_right pre)"
    using dict_of_value [OF lr(1)] dict_of_value [OF lr(2)] by auto
  ultimately show ?thesis unfolding agreeing_iff by (intro bexI [of _ l] bexI [of _ r]) auto
qed

lemma accepted_outcome:
  "rbind (accepted_pair q) (compare_known_pair s policy comparison) = Inr p \<Longrightarrow> accepted_as q p"
  by (auto simp: accepted_pair_def compare_known_pair_def compare_pair_def pair_outcome_post_init_def
      checks_Inr_iff rbind_Inr_iff accepted_as_def)

text \<open>A candidate that covers enough fields without a contradiction relates two open records that agree.\<close>

lemma candidate_agrees:
  assumes vp: "valid_policy policy" and search: "searchable pre" and g: "generate_candidates sha256 pre policy = Inr g"
    and cs: "score_candidates pre g policy = Inr cs" and c: "c \<in> set cs" "ce_coverage_sufficient c" "ce_contradictions c = []"
  shows "\<exists>l \<in> set (rp_remaining_left pre). \<exists>x \<in> set (rp_remaining_right pre).
    ce_edge c = (mr_observation_id l, mr_observation_id x) \<and> agreeing (mp_reference_contract policy) l x \<and>
    (\<exists>b \<in> set (mp_blocking_passes policy). compatible b l x)"
proof -
  from scored_agreeing [OF cs c(1)] c(2,3) obtain l x where
    lx: "l \<in> set (rp_remaining_left pre)" "x \<in> set (rp_remaining_right pre)"
    "ce_edge c = (mr_observation_id l, mr_observation_id x)" "agreeing (mp_reference_contract policy) l x" by blast
  from score_candidates_total [OF vp search g] cs have all: "list_all2 (scored_edge policy g) (gr_candidates g) cs" by auto
  from list_all2_in_rev [OF all c(1)] obtain e where e: "e \<in> set (gr_candidates g)" "scored_edge policy g e c" by blast
  then have edge: "cg_edge e = ce_edge c" by (simp add: scored_edge_def)
  from generation_sound [OF vp g e(1)] obtain y where
    "related (mp_blocking_passes policy) (rp_remaining_left pre) (rp_remaining_right pre) (cg_edge e) y"
    by (cases "cg_blocking_reasons e") auto
  then obtain b l' x' where b: "b \<in> set (mp_blocking_passes policy)" "l' \<in> set (rp_remaining_left pre)"
    "x' \<in> set (rp_remaining_right pre)" "cg_edge e = (mr_observation_id l', mr_observation_id x')" "compatible b l' x'"
    by (auto simp: related_def)
  have "inj_on mr_observation_id (set (rp_remaining_left pre))" "inj_on mr_observation_id (set (rp_remaining_right pre))"
    using search by (simp_all add: searchable_def distinct_map)
  with b lx edge have "compatible b l x" by (metis inj_onD prod.inject)
  with lx b(1) show ?thesis by blast
qed

lemma run_weighted_pairs:
  assumes v: "valid_snapshot s" "valid_decisions d" and vp: "valid_policy policy"
    and run: "reconcile sha256 s policy comparison d solver = Inr r"
    and p: "p \<in> set (er_pairs r)" "po_origin p = WEIGHTED_GLOBAL"
  shows "\<exists>l \<in> set (es_left s). \<exists>q \<in> set (es_right s). po_edge p = (mr_observation_id l, mr_observation_id q) \<and>
    agreeing (mp_reference_contract policy) l q \<and> (\<exists>b \<in> set (mp_blocking_passes policy). compatible b l q) \<and>
    (\<exists>score gap. po_score_bp p = Some score \<and> mp_automatic_threshold_bp policy \<le> score \<and>
       po_global_gap_bp p = Some gap \<and> mp_minimum_global_gap_bp policy \<le> gap)"
  using run
proof (rule reconcile_Inr)
  fix pre g cs asg gt est acc
  let ?k = "mp_reference_contract policy"
  assume st: "staged sha256 s policy d solver pre g cs asg gt" and pairs: "set (er_pairs r) = set est \<union> set acc"
    and est: "rmap (compare_known_pair s policy comparison) (rp_pairs pre) = Inr est"
    and acc: "rmap (\<lambda>p. rbind (accepted_pair p) (compare_known_pair s policy comparison)) (gt_accepted_proposals gt) = Inr acc"
  have pre: "preprocess_references s d ?k = Inr pre" and g: "generate_candidates sha256 pre policy = Inr g"
    and cs: "score_candidates pre g policy = Inr cs" and gate: "gate_assignment sha256 cs asg policy solver = Inr gt"
    using st by (simp_all add: staged_def)
  have o: "oriented_decisions s d" using preprocess_error_iff [OF v] pre by blast
  note ok = preprocessed_ok [OF v o pre]
  have "p \<notin> set est"
  proof
    assume "p \<in> set est"
    from rmap_in [OF est this] obtain q where "q \<in> set (rp_pairs pre)" "same_pair q p" using compare_known_same by blast
    with preprocessed_origins [OF v(1) ok, of q] p(2) show False by (simp add: same_pair_def)
  qed
  with p(1) pairs have "p \<in> set acc" by blast
  from rmap_in [OF acc this] obtain q where q: "q \<in> set (gt_accepted_proposals gt)" "accepted_as q p"
    using accepted_outcome by blast
  from accepted_gated [OF gate q(1)] obtain c where c: "c \<in> set cs" "pe_edge q = ce_edge c" "pe_score_bp q = ce_score_bp c"
    "passes_gates policy c (pe_global_gap_bp q)" by blast
  from candidate_agrees [OF vp preprocessed_searchable [OF v(1) pre ok] g cs c(1)] c(4) obtain l x where
    lx: "l \<in> set (rp_remaining_left pre)" "x \<in> set (rp_remaining_right pre)" "ce_edge c = (mr_observation_id l, mr_observation_id x)"
    "agreeing ?k l x" "\<exists>b \<in> set (mp_blocking_passes policy). compatible b l x" by (auto simp: passes_gates_def)
  have "l \<in> set (es_left s)" "x \<in> set (es_right s)"
    using lx(1,2) ok unfolding preprocessed_def
    by (metis (no_types, lifting) mem_Collect_eq remaining_records.simps side_records.simps)+
  then show ?thesis
    using lx(3-5) q(2) c(2-4) by (intro bexI [of _ l] bexI [of _ x]) (auto simp: accepted_as_def passes_gates_def)
qed


section \<open>The order of the inputs\<close>

lemma snapshot_order:
  assumes "engine_snapshot_post_init s = Inr u" and "mset (es_left t) = mset (es_left s)" and "mset (es_right t) = mset (es_right s)"
    and "es_left_revision_id t = es_left_revision_id s" and "es_right_revision_id t = es_right_revision_id s"
  shows "engine_snapshot_post_init t = Inr u"
proof -
  have d: "distinct (map mr_observation_id (es_left s))" "distinct (map mr_observation_id (es_right s))"
    using assms(1) by (auto simp: engine_snapshot_post_init_def engine_snapshot_checks_def checks_Inr_iff)
  have "sort_key mr_observation_id (es_left t) = sort_key mr_observation_id (es_left s)"
    "sort_key mr_observation_id (es_right t) = sort_key mr_observation_id (es_right s)"
    using sort_key_canonical [OF assms(2) [symmetric] d(1)] sort_key_canonical [OF assms(3) [symmetric] d(2)] by simp_all
  then have "engine_snapshot_checks t = engine_snapshot_checks s" "engine_snapshot_normal t = engine_snapshot_normal s"
    using assms(4,5) by (simp_all add: engine_snapshot_checks_def engine_snapshot_normal_def)
  with assms(1) show ?thesis by (simp add: engine_snapshot_post_init_def)
qed

lemma decisions_order:
  assumes "decision_inputs_post_init d = Inr u"
    and "mset (di_manual_links e) = mset (di_manual_links d)"
    and "mset (di_accepted_unmatched e) = mset (di_accepted_unmatched d)"
    and "mset (di_rejected_relationships e) = mset (di_rejected_relationships d)"
    and "mset (di_reserved_identities e) = mset (di_reserved_identities d)"
  shows "decision_inputs_post_init e = Inr u"
proof -
  have "distinct (map ml_decision_id (di_manual_links d))" "distinct (map au_decision_id (di_accepted_unmatched d))"
    "distinct (map rr_decision_id (di_rejected_relationships d))" "distinct (map ri_decision_id (di_reserved_identities d))"
    using assms(1) by (auto simp: decision_inputs_post_init_def decision_inputs_checks_def decision_inputs_normal_def
        checks_Inr_iff Let_def)
  then have d: "distinct (map (\<lambda>x. (ml_left_id x, ml_right_id x, ml_decision_id x)) (di_manual_links d))"
    "distinct (map (\<lambda>x. (au_record_id x, au_decision_id x)) (di_accepted_unmatched d))"
    "distinct (map (\<lambda>x. (rr_left_id x, rr_right_id x, rr_decision_id x)) (di_rejected_relationships d))"
    "distinct (map (\<lambda>x. (ri_record_id x, ri_decision_id x)) (di_reserved_identities d))"
    by (auto simp: distinct_map inj_on_def)
  have "decision_inputs_normal e = decision_inputs_normal d"
    using sort_key_canonical [OF assms(2) [symmetric] d(1)] sort_key_canonical [OF assms(3) [symmetric] d(2)]
      sort_key_canonical [OF assms(4) [symmetric] d(3)] sort_key_canonical [OF assms(5) [symmetric] d(4)]
    by (simp add: decision_inputs_normal_def)
  then show ?thesis using assms(1) unfolding decision_inputs_post_init_def decision_inputs_checks_def Let_def by metis
qed


section \<open>A sample run\<close>

definition sample_run :: engine_snapshot where
  "sample_run = \<lparr>es_left_revision_id = ''left'', es_right_revision_id = ''right'',
     es_left = [sample_record ''a'' SETTLED None, sample_record ''x'' CANCELLED None],
     es_right = [sample_record ''b'' SETTLED None]\<rparr>"

definition no_decisions :: decision_inputs where
  "no_decisions = \<lparr>di_manual_links = [], di_accepted_unmatched = [], di_rejected_relationships = [],
     di_reserved_identities = []\<rparr>"

lemma sample_run_valid: "valid_snapshot sample_run"
  by (simp add: valid_snapshot_def sample_run_def sample_record_def engine_snapshot_post_init_def
      engine_snapshot_checks_def engine_snapshot_normal_def match_record_post_init_def checks_Inr_iff
      dval_def less_char_def)

lemma no_decisions_valid: "valid_decisions no_decisions" "oriented_decisions s no_decisions"
  by (simp_all add: valid_decisions_def no_decisions_def decision_inputs_post_init_def Let_def
      decision_inputs_checks_def decision_inputs_normal_def checks_Inr_iff oriented_decisions_def rejected_edges_def)

lemma demo_passes: "mp_blocking_passes demo_policy = [demo_blocking_pass]"
  by (simp add: demo_policy_eval)

lemma sample_key: "record_key demo_blocking_pass (sample_record i s v) = Some [Some ''ACME'', Some ''BUY'', Some ''USD'', None]"
  by (simp add: record_key_def demo_blocking_pass_def sample_record_def)

lemma length_single: "distinct xs \<Longrightarrow> set xs \<subseteq> {x} \<Longrightarrow> length xs \<le> 1"
  using card_mono [of "{x}" "set xs"] distinct_card [of xs] by simp

lemma sample_partitions: "partitions_apart sha256 sample_run demo_policy"
proof -
  have "set (pass_keys demo_blocking_pass (es_left sample_run) (es_right sample_run)) \<subseteq> {[Some ''ACME'', Some ''BUY'', Some ''USD'', None]}"
    by (auto simp: pass_keys_iff sample_run_def sample_key)
  from length_single [OF distinct_pass_keys this] show ?thesis
    by (cases "pass_keys demo_blocking_pass (es_left sample_run) (es_right sample_run)")
      (auto simp: partitions_apart_def demo_passes all_keys_def)
qed

lemma edge_components_Nil: "edge_components [] = []"
  by (simp add: edge_components_def components_loop.simps)

lemma single_component_ids:
  assumes "length cs \<le> 1"
  shows "distinct_component_ids sha256 cs policy"
proof -
  have "length (eligible_candidates policy cs) \<le> 1" using assms by (simp add: eligible_candidates_def) (meson le_trans length_filter_le)
  then have "eligible_candidates policy cs = [] \<or> (\<exists>c. eligible_candidates policy cs = [c])"
    by (cases "eligible_candidates policy cs") auto
  then show ?thesis
    by (auto simp: distinct_component_ids_def component_edges_def edge_components_single edge_components_Nil)
qed

lemma sample_open_ids:
  "mr_observation_id ` set (open_records sample_run no_decisions LEFT) \<subseteq> {''a''}"
  "mr_observation_id ` set (open_records sample_run no_decisions RIGHT) \<subseteq> {''b''}"
  by (auto simp: open_records_def sample_run_def no_decisions_def sample_record_def eligible_def)

text \<open>The run has at most one candidate, between its two open records.\<close>

lemma sample_candidates:
  assumes "run_candidates sha256 sample_run no_decisions demo_policy = Inr cs"
  shows "length cs \<le> 1"
proof -
  note v = sample_run_valid no_decisions_valid(1) and vp = demo_policy_valid
  from assms obtain pre g where pre: "preprocess_references sample_run no_decisions (mp_reference_contract demo_policy) = Inr pre"
    and g: "generate_candidates sha256 pre demo_policy = Inr g" and cs: "score_candidates pre g demo_policy = Inr cs"
    by (auto simp: run_candidates_def rbind_Inr_iff)
  note ok = preprocessed_ok [OF v no_decisions_valid(2) pre]
  from score_candidates_total [OF vp preprocessed_searchable [OF v(1) pre ok] g] cs
  have all: "list_all2 (scored_edge demo_policy g) (gr_candidates g) cs" by auto
  have rem: "set (remaining_records side pre) = {x \<in> set (side_records sample_run side).
      record_fate sample_run no_decisions (mp_reference_contract demo_policy) side x = Remains}" for side
    using ok unfolding preprocessed_def by blast
  then have sub: "set (remaining_records side pre) \<subseteq> set (open_records sample_run no_decisions side)" for side
    using remaining_open by blast
  have "x \<in> set (rp_remaining_left pre) \<Longrightarrow> mr_observation_id x = ''a''"
    "x \<in> set (rp_remaining_right pre) \<Longrightarrow> mr_observation_id x = ''b''" for x
    using sub [of LEFT] sub [of RIGHT] sample_open_ids unfolding remaining_records.simps by blast+
  then have "ce_left_id c = ''a'' \<and> ce_right_id c = ''b''" if "c \<in> set cs" for c
    using candidate_ends [OF vp g all that] by fastforce
  then have "set (map ce_edge cs) \<subseteq> {(''a'', ''b'')}" by auto
  moreover have "distinct (map ce_edge cs)" using generation_distinct(1) [OF vp g] scored_map [OF all] by simp
  ultimately show ?thesis using length_single by fastforce
qed

lemma sample_components: "components_apart sha256 sample_run no_decisions demo_policy"
proof (cases "run_candidates sha256 sample_run no_decisions demo_policy")
  case (Inl e)
  then show ?thesis by (simp add: components_apart_def)
next
  case (Inr cs)
  with single_component_ids [OF sample_candidates [OF Inr]] show ?thesis by (simp add: components_apart_def)
qed

lemma sample_run_ready: "run_ready sample_sha256 sample_run demo_policy demo_comparison_policy no_decisions sample_solver"
proof -
  have "minimizing_solver (sv_minimize sample_solver)" "sv_version sample_solver = mp_solver_version demo_policy"
    "cl_max_component_nodes (mp_limits demo_policy) \<le> 900000"
    using sample_assignable by (simp_all add: assignable_def)
  moreover have "windows_ok sample_run demo_policy"
    by (simp add: windows_ok_def demo_passes window_safe_def demo_blocking_pass_def sample_run_def sample_record_def
        valid_datetime_def datetime_max_def us_per_day_def)
  moreover have "\<forall>i \<in> set (side_ids sample_run LEFT) \<union> set (side_ids sample_run RIGHT). no_nul i"
    by (simp add: side_ids_def sample_run_def sample_record_def no_nul_def char_of_def)
  ultimately show ?thesis
    using demo_comparison_valid
    by (simp add: run_ready_def sample_run_valid no_decisions_valid demo_policy_valid
        sample_sha256_hex sample_partitions sample_components)
qed

end
