(* ===== verification/ScoreAccuracy.thy ===== *)
theory ScoreAccuracy
  imports ScoringFacts
begin

text \<open>
  How far the scores of the 80-digit context can be from exact arithmetic. Each operation has a
  relative error below \<open>2 * 10 ^ -79\<close>; a contribution is therefore the exact share of its weight,
  rounded to an integer with an error that exceeds one half by less than \<open>10 ^ -70\<close>.
\<close>

section \<open>Relative errors of decimal operations\<close>

definition unit_error :: "nat \<Rightarrow> rat" where
  "unit_error p = 10 powi (1 - int p)"

lemma dec_fix_relative:
  assumes p: "0 < p"
  shows "\<bar>dval (dec_fix p d) - dval d\<bar> \<le> \<bar>dval d\<bar> * unit_error p"
proof (cases "ndigits (dcoef d) \<le> p")
  case True
  then show ?thesis by (simp add: dec_fix_exact unit_error_def)
next
  case False
  let ?c = "dcoef d" and ?k = "dropped_digits p d"
  have k: "ndigits ?c = p + ?k" "0 < ?k" using False by (simp_all add: dropped_digits_def)
  have pos: "0 < ?c" using False p by (cases "?c = 0") (auto simp: ndigits.simps [of 0])
  have e: "dexp d + int ?k = int (ndigits ?c - 1) + dexp d + (1 - int p)" using k p by simp
  have "(10 :: rat) powi (dexp d + int ?k) = 10 powi int (ndigits ?c - 1) * 10 powi dexp d * unit_error p"
    unfolding e by (simp add: power_int_add unit_error_def del: power_int_of_nat)
  also have "\<dots> \<le> of_nat ?c * 10 powi dexp d * unit_error p"
  proof -
    have "(of_nat (10 ^ (ndigits ?c - 1)) :: rat) \<le> of_nat ?c" using ndigits_lower [OF pos] by (simp only: of_nat_le_iff)
    then have "(10 :: rat) powi int (ndigits ?c - 1) \<le> of_nat ?c" by simp
    then show ?thesis by (intro mult_right_mono) (simp_all add: unit_error_def)
  qed
  also have "\<dots> = \<bar>dval d\<bar> * unit_error p" by (simp add: dval_def abs_mult)
  finally have "(10 :: rat) powi (dexp d + int ?k) \<le> \<bar>dval d\<bar> * unit_error p" .
  moreover have "\<bar>dval (dec_fix p d) - dval d\<bar> \<le> 10 powi (dexp d + int ?k) / 2" by (rule dec_fix_error [OF p])
  ultimately show ?thesis using powi_10_nonneg [of "dexp d + int ?k"] by linarith
qed

lemma strip_zeros_value:
  "strip_zeros c e ideal = (c', e') \<Longrightarrow> of_nat c' * 10 powi e' = (of_nat c * 10 powi e :: rat)"
proof (induction c e ideal arbitrary: c' e' rule: strip_zeros.induct)
  case (1 c e ideal)
  show ?case
  proof (cases "e < ideal \<and> c mod 10 = 0 \<and> 0 < c")
    case True
    with "1.prems" have "strip_zeros (c div 10) (e + 1) ideal = (c', e')"
      by (simp add: strip_zeros.simps [of c e ideal])
    with "1.IH" [OF True] have "of_nat c' * 10 powi e' = (of_nat (c div 10) * 10 powi (e + 1) :: rat)" by simp
    moreover have "c = c div 10 * 10" using True by auto
    then have "(of_nat c :: rat) = of_nat (c div 10) * 10" by (metis of_nat_mult of_nat_numeral)
    ultimately show ?thesis by (simp add: power_int_add)
  next
    case False
    with "1.prems" show ?thesis by (auto simp: strip_zeros.simps [of c e ideal])
  qed
qed


lemma unit_error_bounds: "0 < p \<Longrightarrow> 0 < unit_error p \<and> unit_error p \<le> 1"
  using power_int_increasing [of "1 - int p" 0 "10 :: rat"] by (simp add: unit_error_def)

text \<open>The quotient before rounding is off by at most one unit of a coefficient of \<open>p + 1\<close> digits.\<close>

lemma quotient_digits:
  assumes a: "0 < a" and b: "0 < b" and shift: "shift = int (ndigits b) - int (ndigits a) + int p + 1"
    and n: "n = (if 0 \<le> shift then a * 10 ^ nat shift else a)" and d: "d = (if 0 \<le> shift then b else b * 10 ^ nat (- shift))"
  shows "(of_nat n :: rat) / of_nat d * 10 powi (- shift) = of_nat a / of_nat b" and "(10 :: rat) ^ p \<le> of_nat n / of_nat d"
    and "0 < d"
proof -
  show "0 < d" using b d by simp
  show eq: "(of_nat n :: rat) / of_nat d * 10 powi (- shift) = of_nat a / of_nat b"
    using n d b by (auto simp: power_int_def field_simps)
  have la: "(10 :: rat) ^ (ndigits a - 1) \<le> of_nat a"
    using ndigits_lower [OF a] by (metis of_nat_le_iff of_nat_numeral of_nat_power)
  have ub: "(of_nat b :: rat) \<le> 10 ^ ndigits b"
    using ndigits_upper [of b] by (metis less_imp_le of_nat_le_iff of_nat_numeral of_nat_power)
  have "(10 :: rat) ^ (ndigits a - 1) / 10 ^ ndigits b \<le> of_nat a / of_nat b"
    using la ub b by (intro frac_le) simp_all
  then have "(10 :: rat) ^ (ndigits a - 1) / 10 ^ ndigits b * 10 powi shift \<le> of_nat a / of_nat b * 10 powi shift"
    by (intro mult_right_mono) simp_all
  also have "\<dots> = of_nat n / of_nat d"
    unfolding eq [symmetric] by (simp add: mult.assoc flip: power_int_add)
  finally have "(10 :: rat) ^ (ndigits a - 1) / 10 ^ ndigits b * 10 powi shift \<le> of_nat n / of_nat d" .
  moreover have "(10 :: rat) ^ (ndigits a - 1) / 10 ^ ndigits b * 10 powi shift = 10 ^ p"
  proof -
    have "shift = int p + int (ndigits b) - int (ndigits a - 1)" using shift ndigits_pos [of a] by linarith
    then have "(10 :: rat) powi shift = 10 ^ p * 10 ^ ndigits b / 10 ^ (ndigits a - 1)"
      by (simp add: power_int_diff power_int_add)
    then show ?thesis by simp
  qed
  ultimately show "(10 :: rat) ^ p \<le> of_nat n / of_nat d" by simp
qed

lemma div_off_by_one:
  assumes "0 < d"
  shows "\<bar>of_nat (if n mod d \<noteq> 0 \<and> (n div d) mod 5 = 0 then n div d + 1 else n div d) - (of_nat n :: rat) / of_nat d\<bar> \<le> 1"
proof -
  have n: "(of_nat n :: rat) = of_nat (n div d) * of_nat d + of_nat (n mod d)"
    by (metis div_mult_mod_eq of_nat_add of_nat_mult)
  have "(of_nat n :: rat) / of_nat d = of_nat (n div d) + of_nat (n mod d) / of_nat d"
    using assms by (subst n) (simp add: add_divide_distrib)
  moreover have "(of_nat (n mod d) :: rat) / of_nat d < 1" using assms by simp
  moreover have "0 \<le> (of_nat (n mod d) :: rat) / of_nat d" by simp
  ultimately show ?thesis by simp
qed

lemma dec_div_steps:
  assumes "dcoef a \<noteq> 0" and "dcoef b \<noteq> 0" and "shift = int (ndigits (dcoef b)) - int (ndigits (dcoef a)) + int p + 1"
    and "n = (if 0 \<le> shift then dcoef a * 10 ^ nat shift else dcoef a)"
    and "d = (if 0 \<le> shift then dcoef b else dcoef b * 10 ^ nat (- shift))" and "e = dexp a - dexp b - shift"
  shows "dec_div p a b = Inr (dec_fix p (if n mod d \<noteq> 0
      then Dec (dneg a \<noteq> dneg b) (if n div d mod 5 = 0 then n div d + 1 else n div d) e
      else case strip_zeros (n div d) e (dexp a - dexp b) of (c', e') \<Rightarrow> Dec (dneg a \<noteq> dneg b) c' e'))"
  using assms(1,2) unfolding dec_div_def Let_def assms(3) [symmetric] assms(4) [symmetric] assms(5) [symmetric]
    assms(6) [symmetric] by (simp split: prod.split)

lemma dec_div_relative:
  assumes q: "dec_div p a b = Inr q" and p: "0 < p" and a: "0 \<le> dval a" and b: "0 < dval b"
  shows "\<bar>dval q - dval a / dval b\<bar> \<le> dval a / dval b * (2 * unit_error p)"
proof (cases "dcoef a = 0")
  case True
  with q p show ?thesis by (auto simp: dec_div_def dval_def split: if_splits)
next
  case False
  let ?shift = "int (ndigits (dcoef b)) - int (ndigits (dcoef a)) + int p + 1"
  define n where "n = (if 0 \<le> ?shift then dcoef a * 10 ^ nat ?shift else dcoef a)"
  define d where "d = (if 0 \<le> ?shift then dcoef b else dcoef b * 10 ^ nat (- ?shift))"
  define e where "e = dexp a - dexp b - ?shift"
  define y where "y = dval a / dval b"
  have cb: "0 < dcoef b" using b by (auto simp: dval_def split: if_splits intro: Nat.gr0I)
  then have nb: "\<not> dneg b" using b dval_nonneg_iff [of b] by auto
  have na: "\<not> dneg a" using a False by (auto simp: dval_nonneg_iff)
  have ca: "0 < dcoef a" using False by simp
  note steps = dec_div_steps [OF False _ refl n_def d_def e_def]
  note digits = quotient_digits [OF ca cb refl n_def d_def]
  have x: "y = of_nat n / of_nat d * 10 powi e"
  proof -
    have "y = of_nat (dcoef a) / of_nat (dcoef b) * 10 powi (dexp a - dexp b)"
      using na nb by (simp add: y_def dval_def power_int_diff)
    also have "\<dots> = of_nat n / of_nat d * (10 powi (- ?shift) * 10 powi (dexp a - dexp b))"
      unfolding digits(1) [symmetric] by (simp only: mult.assoc)
    also have "10 powi (- ?shift) * 10 powi (dexp a - dexp b) = (10 :: rat) powi e"
      by (simp add: e_def algebra_simps flip: power_int_add)
    finally show ?thesis .
  qed
  have pos: "0 \<le> y" using a b by (simp add: y_def)
  have "\<bar>dval q - y\<bar> \<le> y * (2 * unit_error p)"
  proof (cases "n mod d = 0")
    case True
    obtain c' e' where ce: "strip_zeros (n div d) e (dexp a - dexp b) = (c', e')" by fastforce
    have q': "q = dec_fix p (Dec False c' e')"
      using q steps cb na nb True ce by simp
    have "(of_nat (n div d) :: rat) = of_nat n / of_nat d" using True using digits(3) by (auto simp: of_nat_div mod_eq_0_iff_dvd elim!: dvdE)
    with strip_zeros_value [OF ce] have "of_nat c' * 10 powi e' = y" unfolding x by simp
    then have "dval (Dec False c' e') = y" by (simp add: dval_def)
    with dec_fix_relative [OF p, of "Dec False c' e'"] q' have "\<bar>dval q - y\<bar> \<le> \<bar>y\<bar> * unit_error p" by simp
    also have "\<dots> \<le> y * (2 * unit_error p)" using pos unit_error_bounds [OF p] by (simp add: mult_left_mono)
    finally show ?thesis .
  next
    case False
    define c where "c = (if n mod d \<noteq> 0 \<and> (n div d) mod 5 = 0 then n div d + 1 else n div d)"
    let ?g = "Dec False c e"
    have q': "q = dec_fix p ?g"
      using q steps cb na nb False by (simp add: c_def)
    have off: "\<bar>of_nat c - (of_nat n :: rat) / of_nat d\<bar> \<le> 1" unfolding c_def by (rule div_off_by_one [OF digits(3)])
    have g: "dval ?g = of_nat c * 10 powi e" by (simp add: dval_def)
    have "\<bar>dval ?g - y\<bar> = \<bar>of_nat c - of_nat n / of_nat d\<bar> * 10 powi e"
    proof -
      have "dval ?g - y = (of_nat c - of_nat n / of_nat d) * 10 powi e" unfolding g x by (rule left_diff_distrib [symmetric])
      then show ?thesis by (simp only: abs_mult abs_of_nonneg powi_10_nonneg)
    qed
    also have "\<dots> \<le> 1 * 10 powi e" using off by (intro mult_right_mono) simp_all
    also have "\<dots> \<le> (of_nat n / of_nat d * 10 powi (- int p)) * 10 powi e"
    proof (intro mult_right_mono)
      have "(10 :: rat) ^ p * 10 powi (- int p) = 1" by (simp add: power_int_minus)
      then show "1 \<le> of_nat n / of_nat d * (10 :: rat) powi (- int p)"
        using mult_right_mono [OF digits(2), of "10 powi (- int p)"] by simp
    qed simp
    also have "\<dots> = y * 10 powi (- int p)" by (simp add: x)
    finally have near: "\<bar>dval ?g - y\<bar> \<le> y * 10 powi (- int p)" .
    have u: "unit_error p = 10 * 10 powi (- int p)" by (simp add: unit_error_def power_int_diff power_int_minus field_simps)
    have small: "(10 :: rat) powi (- int p) \<le> 1 / 10"
      using power_int_increasing [of "- int p" "-1" "10 :: rat"] p by (simp add: power_int_minus)
    have "\<bar>dval q - dval ?g\<bar> \<le> \<bar>dval ?g\<bar> * unit_error p" unfolding q' by (rule dec_fix_relative [OF p])
    moreover have "\<bar>dval ?g\<bar> \<le> y * (11 / 10)"
    proof -
      have "y * 10 powi (- int p) \<le> y * (1 / 10)" using pos small by (intro mult_left_mono)
      with near pos show ?thesis by linarith
    qed
    then have "\<bar>dval ?g\<bar> * unit_error p \<le> y * (11 / 10) * unit_error p"
      using unit_error_bounds [OF p] by (intro mult_right_mono) simp_all
    moreover have "y * (11 / 10) * unit_error p + y * 10 powi (- int p) \<le> y * (2 * unit_error p)"
      using mult_nonneg_nonneg [OF pos, of "10 powi (- int p)"] unfolding u by (simp add: field_simps)
    ultimately show ?thesis using near by linarith
  qed
  then show ?thesis by (simp add: y_def)
qed


section \<open>Composing relative errors\<close>

definition near :: "rat \<Rightarrow> rat \<Rightarrow> rat \<Rightarrow> bool" where
  "near k a b \<longleftrightarrow> \<bar>a - b\<bar> \<le> k * \<bar>b\<bar>"

lemma near_refl [simp]: "0 \<le> k \<Longrightarrow> near k a a"
  by (simp add: near_def)

lemma near_mono: "near k a b \<Longrightarrow> k \<le> m \<Longrightarrow> near m a b"
  unfolding near_def by (meson abs_ge_zero mult_right_mono order_trans)

lemma near_fix: "0 < p \<Longrightarrow> near (unit_error p) (dval (dec_fix p d)) (dval d)"
  using dec_fix_relative [of p d] by (simp add: near_def mult.commute)

lemma near_abs: "near k a b \<Longrightarrow> near k \<bar>a\<bar> \<bar>b\<bar>"
  unfolding near_def using abs_triangle_ineq3 [of a b] by simp

lemma near_size: "near k a b \<Longrightarrow> \<bar>a\<bar> \<le> (1 + k) * \<bar>b\<bar>"
  by (simp add: near_def algebra_simps)

lemma near_trans:
  assumes "near k a b" and "near m b c" and "0 \<le> k"
  shows "near (k + m + k * m) a c"
proof -
  have "k * \<bar>b\<bar> \<le> k * ((1 + m) * \<bar>c\<bar>)" using near_size [OF assms(2)] assms(3) by (rule mult_left_mono)
  with assms(1,2) abs_triangle_ineq [of "a - b" "b - c"] show ?thesis unfolding near_def by (simp add: algebra_simps)
qed

lemma near_scale: "near k a b \<Longrightarrow> near k (c * a) (c * b)"
proof -
  assume "near k a b"
  then have "\<bar>c\<bar> * \<bar>a - b\<bar> \<le> \<bar>c\<bar> * (k * \<bar>b\<bar>)" unfolding near_def by (intro mult_left_mono) simp_all
  then show ?thesis unfolding near_def by (simp add: algebra_simps flip: abs_mult)
qed

lemma near_max:
  assumes "near k a b" and "near k c d" and "0 \<le> k" and "0 \<le> b" and "0 \<le> d"
  shows "near k (max a c) (max b d)"
proof -
  have "k * b \<le> k * max b d" "k * d \<le> k * max b d" using assms(3) by (intro mult_left_mono; simp)+
  with assms show ?thesis unfolding near_def by (auto simp: max_def abs_if split: if_splits)
qed

lemma near_zero_iff: "near k a b \<Longrightarrow> k < 1 \<Longrightarrow> a = 0 \<longleftrightarrow> b = 0"
proof -
  assume n: "near k a b" and k: "k < 1"
  have "k * \<bar>b\<bar> < 1 * \<bar>b\<bar>" if "b \<noteq> 0" using k that by (intro mult_strict_right_mono) simp_all
  with n show ?thesis unfolding near_def by (cases "b = 0") auto
qed

lemma near_divide:
  assumes a: "near k a b" and c: "near k c d" and k: "0 \<le> k" "k \<le> 1 / 10" and pos: "0 \<le> b" "0 < d"
  shows "near (3 * k) (a / c) (b / d)"
proof -
  have ka: "\<bar>a - b\<bar> \<le> k * b" using a pos by (simp add: near_def)
  have kc: "\<bar>c - d\<bar> \<le> k * d" using c pos by (simp add: near_def)
  have "k * d \<le> 1 / 10 * d" using k(2) pos(2) by (intro mult_right_mono) simp_all
  with kc have c9: "9 / 10 * d \<le> c" by linarith
  then have cpos: "0 < c" using pos(2) by linarith
  have "\<bar>a * d - b * c\<bar> \<le> 2 * k * (b * d)"
  proof -
    have "\<bar>a * d - b * c\<bar> = \<bar>(a - b) * d - b * (c - d)\<bar>" by (simp add: algebra_simps)
    also have "\<dots> \<le> \<bar>a - b\<bar> * d + b * \<bar>c - d\<bar>"
      using abs_triangle_ineq4 [of "(a - b) * d" "b * (c - d)"] pos by (simp add: abs_mult)
    also have "\<dots> \<le> k * b * d + b * (k * d)"
      using ka kc pos by (intro add_mono mult_right_mono mult_left_mono) simp_all
    finally show ?thesis by (simp add: algebra_simps)
  qed
  also have "\<dots> \<le> 3 * k * (b * c)"
  proof -
    have "b * (2 * d) \<le> b * (3 * c)" using c9 pos by (intro mult_left_mono) simp_all
    then have "k * (b * (2 * d)) \<le> k * (b * (3 * c))" using k(1) by (rule mult_left_mono)
    then show ?thesis by (simp add: algebra_simps)
  qed
  finally have "\<bar>a * d - b * c\<bar> / (c * d) \<le> 3 * k * (b * c) / (c * d)"
    using cpos pos by (intro divide_right_mono) simp_all
  moreover have "a / c - b / d = (a * d - b * c) / (c * d)" using cpos pos by (simp add: field_simps)
  ultimately show ?thesis using cpos pos by (simp add: near_def abs_mult)
qed


section \<open>Similarity and contribution\<close>

text \<open>The intended share of a difference in a band, in exact arithmetic.\<close>

definition exact_share :: "rat \<Rightarrow> rat \<Rightarrow> rat" where
  "exact_share difference band =
     (if band = 0 then if difference = 0 then 1 else 0 else max 0 (1 - difference / band))"

definition ulp :: rat where
  "ulp = unit_error score_precision"

lemma ulp_eq: "ulp = 1 / 10 ^ 79"
proof -
  have "1 - int score_precision = - int 79" by (simp add: score_precision_def)
  then show ?thesis unfolding ulp_def unit_error_def by (simp only: power_int_minus power_int_of_nat inverse_eq_divide)
qed

lemma ulp_bounds: "0 < ulp" "ulp \<le> 1 / 10 ^ 70 / 10 ^ 9"
  by (simp_all add: ulp_eq)

lemma ulp_small: "0 \<le> 10 * ulp" "10 * ulp \<le> 1 / 10" "10 * ulp < 1"
  by (simp_all add: ulp_eq)

lemma score_precision_pos [simp]: "0 < score_precision"
  by (simp add: score_precision_def)

lemma near_share:
  assumes f: "linear_similarity d b = Inr f" and d: "near (10 * ulp) (dval d) x" and b: "near (10 * ulp) (dval b) y"
    and x: "0 \<le> x" "0 \<le> dval d" and y: "0 \<le> y" "0 \<le> dval b"
  shows "\<bar>dval f - exact_share x y\<bar> \<le> 100 * ulp"
proof (cases "y = 0")
  case True
  have small: "10 * ulp < 1" by (simp add: ulp_eq)
  from True have "dval b = 0" using near_zero_iff [OF b small] by simp
  with f True near_zero_iff [OF d small] ulp_bounds(1) show ?thesis
    by (auto simp: linear_similarity_def dec_value exact_share_def split: if_splits)
next
  case False
  then have nz: "dval b \<noteq> 0" using near_zero_iff [OF b] by (simp add: ulp_eq)
  then obtain q where q: "dec_div score_precision d b = Inr q"
    and f': "f = dec_max (dec_of_int 0) (dec_sub score_precision (dec_of_int 1) q)"
    using f by (auto simp: linear_similarity_def rbind_Inr_iff dec_value split: if_splits)
  have "near (2 * ulp) (dval q) (dval d / dval b)"
    using dec_div_relative [OF q _ x(2)] y(2) nz x(2) by (simp add: near_def ulp_def mult.commute)
  moreover have "near (3 * (10 * ulp)) (dval d / dval b) (x / y)"
    using x y False ulp_small by (intro near_divide [OF d b]) simp_all
  ultimately have "near (2 * ulp + 3 * (10 * ulp) + 2 * ulp * (3 * (10 * ulp))) (dval q) (x / y)"
    by (rule near_trans) (simp add: ulp_eq)
  then have "near (40 * ulp) (dval q) (x / y)" by (rule near_mono) (simp add: ulp_eq)
  then have qx: "\<bar>dval q - x / y\<bar> \<le> 40 * ulp * (x / y)" using x y by (simp add: near_def)
  let ?s = "dec_sub score_precision (dec_of_int 1) q"
  have s: "\<bar>dval ?s - (1 - dval q)\<bar> \<le> ulp * \<bar>1 - dval q\<bar>"
    using near_fix [OF score_precision_pos, of "exact_add (dec_of_int 1) (dec_neg q)"]
    by (simp add: near_def ulp_def dec_sub_def dec_add_def dval_exact_add dec_value)
  have share: "exact_share x y = max 0 (1 - x / y)" using False by (simp add: exact_share_def)
  have fv: "dval f = max 0 (dval ?s)" by (simp add: f' dec_value)
  show ?thesis
  proof (cases "x / y \<le> 2")
    case True
    then have "40 * ulp * (x / y) \<le> 40 * ulp * 2" using ulp_bounds(1) by (intro mult_left_mono) simp_all
    with qx have near_q: "\<bar>dval q - x / y\<bar> \<le> 80 * ulp" by linarith
    have "80 * ulp \<le> 1" by (simp add: ulp_eq)
    moreover have "0 \<le> x / y" using x y by simp
    ultimately have "\<bar>1 - dval q\<bar> \<le> 4" using near_q True by linarith
    then have "ulp * \<bar>1 - dval q\<bar> \<le> ulp * 4" using ulp_bounds(1) by (intro mult_left_mono) simp_all
    with s near_q have "\<bar>dval ?s - (1 - x / y)\<bar> \<le> 84 * ulp" by linarith
    then show ?thesis unfolding fv share using ulp_bounds(1) by linarith
  next
    case False
    have "40 * ulp * (x / y) \<le> 1 / 2 * (x / y)" using x y by (intro mult_right_mono) (simp_all add: ulp_eq)
    with qx False have "1 \<le> dval q" by linarith
    then have "dval ?s \<le> 0"
      unfolding dec_sub_def dec_add_def by (intro dec_fix_nonpos) (simp_all add: dval_exact_add dec_value)
    then show ?thesis unfolding fv share using False ulp_bounds(1) by simp
  qed
qed

lemma dec_quantize_int_error:
  assumes "dec_quantize_int p d = Inr i"
  shows "\<bar>of_int i - dval d\<bar> \<le> 1 / 2"
proof (cases "0 \<le> dexp d")
  case True
  then have "of_int i = dval d"
    using assms by (auto simp: dec_quantize_int_def Let_def dval_def power_int_def split: if_splits)
  then show ?thesis by simp
next
  case False
  let ?m = "10 ^ nat (- dexp d) :: nat"
  have i: "i = (if dneg d then - int (half_even_div (dcoef d) ?m) else int (half_even_div (dcoef d) ?m))"
    using assms False by (auto simp: dec_quantize_int_def Let_def split: if_splits)
  have "\<bar>2 * (int (half_even_div (dcoef d) ?m) * int ?m) - 2 * int (dcoef d)\<bar> \<le> int ?m"
    by (rule half_even_div_error) simp
  then have "of_int \<bar>2 * (int (half_even_div (dcoef d) ?m) * int ?m) - 2 * int (dcoef d)\<bar> \<le> (of_int (int ?m) :: rat)"
    by (simp only: of_int_le_iff)
  then have e: "\<bar>2 * (of_nat (half_even_div (dcoef d) ?m) * of_nat ?m) - 2 * of_nat (dcoef d)\<bar> \<le> (of_nat ?m :: rat)"
    by (simp only: of_int_abs of_int_diff of_int_mult of_int_numeral of_int_of_nat_eq)
  have "(10 :: rat) powi dexp d = 1 / of_nat ?m" using False by (simp add: power_int_def inverse_eq_divide power_divide)
  then have v: "dval d = (if dneg d then - 1 else 1) * (of_nat (dcoef d) / of_nat ?m)" by (simp add: dval_def)
  have "\<bar>of_nat (half_even_div (dcoef d) ?m) - of_nat (dcoef d) / of_nat ?m\<bar> \<le> (1 / 2 :: rat)"
  proof -
    let ?h = "of_nat (half_even_div (dcoef d) ?m) :: rat" and ?c = "of_nat (dcoef d) :: rat" and ?r = "of_nat ?m :: rat"
    have r: "0 < ?r" by simp
    from e have "\<bar>?h * ?r - ?c\<bar> \<le> ?r / 2" by linarith
    then have "\<bar>?h * ?r - ?c\<bar> / ?r \<le> ?r / 2 / ?r" using r by (intro divide_right_mono) linarith+
    moreover have "?h - ?c / ?r = (?h * ?r - ?c) / ?r" using r by (simp add: diff_divide_distrib)
    ultimately show ?thesis using r by (simp add: abs_divide)
  qed
  then show ?thesis unfolding i v by (cases "dneg d") (simp_all add: abs_minus_commute del: of_nat_power)
qed

lemma scaled_bp_error:
  assumes w: "0 \<le> w" "w \<le> SCORE_SCALE_BP" and f: "0 \<le> dval f" "dval f \<le> 1" and share: "\<bar>dval f - x\<bar> \<le> 100 * ulp"
    and i: "scaled_bp w f = Inr i"
  shows "\<bar>of_int i - of_int w * x\<bar> \<le> 1 / 2 + 1 / 10 ^ 70"
proof -
  let ?m = "dec_mul score_precision (dec_of_int w) f"
  have w': "0 \<le> (of_int w :: rat)" "(of_int w :: rat) \<le> 10000" using w by (simp_all add: SCORE_SCALE_BP_def)
  have "\<bar>of_int i - dval ?m\<bar> \<le> 1 / 2" using i dec_quantize_int_error by (simp add: scaled_bp_def quantize_bp_def)
  moreover have "\<bar>dval ?m - of_int w * dval f\<bar> \<le> ulp * (of_int w * dval f)"
    using near_fix [OF score_precision_pos, of "exact_mul (dec_of_int w) f"] w' f
    by (simp add: near_def ulp_def dec_mul_def dval_exact_mul dec_value)
  moreover have "ulp * (of_int w * dval f) \<le> ulp * 10000"
    using mult_mono [OF w'(2) f(2)] w' f ulp_bounds(1) by (intro mult_left_mono) simp_all
  moreover have "\<bar>of_int w * dval f - of_int w * x\<bar> \<le> 10000 * (100 * ulp)"
    using mult_mono [OF w'(2) share] w' by (simp add: abs_mult flip: right_diff_distrib)
  moreover have "ulp * 10000 + 10000 * (100 * ulp) \<le> 1 / 10 ^ 70" by (simp add: ulp_eq)
  ultimately show ?thesis by linarith
qed


section \<open>Feature evidence\<close>

definition exact_band :: "numeric_similarity \<Rightarrow> dec \<Rightarrow> dec \<Rightarrow> rat" where
  "exact_band p l r = max (dval (ns_absolute_band p)) (dval (ns_relative_band p) * max \<bar>dval l\<bar> \<bar>dval r\<bar>)"

lemma near_dec_abs: "near ulp (dval (dec_abs score_precision a)) \<bar>dval a\<bar>"
  using near_fix [OF score_precision_pos, of "Dec False (dcoef a) (dexp a)"] unfolding dec_abs_def dval_Dec_False ulp_def .

lemma near_ulp_trans: "near (m * ulp) a b \<Longrightarrow> near (n * ulp) b c \<Longrightarrow> 0 \<le> m \<Longrightarrow> 0 \<le> n \<Longrightarrow> m + n \<le> 9 \<Longrightarrow> near (10 * ulp) a c"
proof -
  assume a: "near (m * ulp) a b" "near (n * ulp) b c" and m: "0 \<le> m" "0 \<le> n" "m + n \<le> 9"
  have u: "0 \<le> ulp" "ulp \<le> 1 / 100" by (simp_all add: ulp_eq)
  have "m * n \<le> 9 * 9" using m by (intro mult_mono) simp_all
  then have "m * n * ulp \<le> 81 * (1 / 100)" using u m by (intro mult_mono) simp_all
  then have "(m + n + m * n * ulp) * ulp \<le> 10 * ulp" using m u by (intro mult_right_mono) simp_all
  moreover have "near (m * ulp + n * ulp + m * ulp * (n * ulp)) a c" using a by (rule near_trans) (use m u in simp)
  moreover have "m * ulp + n * ulp + m * ulp * (n * ulp) = (m + n + m * n * ulp) * ulp" by (simp add: algebra_simps)
  ultimately show ?thesis using near_mono by simp
qed

lemma near_difference: "near (10 * ulp) (dval (numeric_difference l r)) \<bar>dval r - dval l\<bar>"
proof -
  let ?s = "dec_sub score_precision r l"
  have "near ulp (dval ?s) (dval r - dval l)"
    using near_fix [OF score_precision_pos, of "exact_add r (dec_neg l)"]
    by (simp add: dec_sub_def dec_add_def dval_exact_add dec_value ulp_def)
  then have "near ulp \<bar>dval ?s\<bar> \<bar>dval r - dval l\<bar>" by (rule near_abs)
  with near_dec_abs [of ?s] show ?thesis unfolding numeric_difference_def
    by (intro near_ulp_trans [of 1 _ "\<bar>dval ?s\<bar>" 1]) simp_all
qed

lemma near_band:
  assumes "valid_similarity p"
  shows "near (10 * ulp) (dval (numeric_band p l r)) (exact_band p l r)"
proof -
  note bands = valid_similarity_bands [OF assms]
  let ?m = "dec_max (dec_abs score_precision l) (dec_abs score_precision r)"
  have u: "0 \<le> ulp" using ulp_bounds(1) by simp
  have "near ulp (dval ?m) (max \<bar>dval l\<bar> \<bar>dval r\<bar>)"
    unfolding dval_dec_max using near_dec_abs u by (intro near_max) simp_all
  then have "near (1 * ulp) (dval (ns_relative_band p) * dval ?m) (dval (ns_relative_band p) * max \<bar>dval l\<bar> \<bar>dval r\<bar>)"
    using near_scale by simp
  moreover have "near (1 * ulp) (dval (dec_mul score_precision (ns_relative_band p) ?m)) (dval (ns_relative_band p) * dval ?m)"
    using near_fix [OF score_precision_pos, of "exact_mul (ns_relative_band p) ?m"]
    by (simp add: dec_mul_def dval_exact_mul ulp_def)
  ultimately have "near (10 * ulp) (dval (dec_mul score_precision (ns_relative_band p) ?m))
      (dval (ns_relative_band p) * max \<bar>dval l\<bar> \<bar>dval r\<bar>)" by (intro near_ulp_trans [of 1 _ _ 1]) simp_all
  then show ?thesis
    unfolding numeric_band_def dval_dec_max exact_band_def using bands u by (intro near_max) simp_all
qed

lemma numeric_contribution:
  assumes p: "valid_similarity p" and w: "0 \<le> w" "w \<le> SCORE_SCALE_BP"
    and e: "numeric_evidence feature (Some l) (Some r) p w = Inr e"
  shows "\<bar>of_int (fe_contribution_bp e) - of_int w * exact_share \<bar>dval r - dval l\<bar> (exact_band p l r)\<bar> \<le> 1 / 2 + 1 / 10 ^ 70"
proof -
  let ?d = "numeric_difference l r" and ?b = "numeric_band p l r"
  note bands = valid_similarity_bands [OF p]
  have d: "0 \<le> dval ?d" by (simp add: numeric_difference_def dec_abs_nonneg)
  have b: "0 \<le> dval ?b" by (rule numeric_band_nonneg [OF p])
  have y: "0 \<le> exact_band p l r" using bands by (simp add: exact_band_def le_max_iff_disj)
  obtain k where k: "linear_similarity ?d ?b = Inr k" "0 \<le> dval k" "dval k \<le> 1"
    using linear_similarity_bounds [OF d b] by blast
  from e k(1) obtain c where c: "scaled_bp w k = Inr c" "fe_contribution_bp e = c"
    by (auto simp: numeric_evidence_def Let_def rbind_Inr_iff feature_evidence_post_init_def checks_Inr_iff)
  have "\<bar>dval k - exact_share \<bar>dval r - dval l\<bar> (exact_band p l r)\<bar> \<le> 100 * ulp"
    using d b y by (intro near_share [OF k(1) near_difference near_band [OF p]]) simp_all
  from scaled_bp_error [OF w k(2,3) this c(1)] show ?thesis by (simp add: c(2))
qed


lemma near_seconds:
  assumes t: "timedelta_seconds d = Inr s" and d: "0 \<le> d"
  shows "near (10 * ulp) (dval s) (of_int d / 1000000)"
proof -
  let ?n = "d div us_per_second" and ?f = "d mod us_per_second"
  have n: "0 \<le> ?n" "0 \<le> ?f" using d by (simp_all add: us_per_second_def pos_imp_zdiv_nonneg_iff)
  from t obtain q where q: "dec_div score_precision (dec_of_int ?f) (dec_of_int 1000000) = Inr q"
    and s: "s = dec_add score_precision (dec_of_int ?n) q" by (auto simp: timedelta_seconds_def rbind_Inr_iff)
  have "near (2 * ulp) (dval q) (of_int ?f / 1000000)"
    using dec_div_relative [OF q score_precision_pos] n by (simp add: near_def ulp_def dec_value mult.commute)
  then have "\<bar>dval q - of_int ?f / 1000000\<bar> \<le> 2 * ulp * (of_int ?f / 1000000)" using n by (simp add: near_def)
  also have "\<dots> \<le> 2 * ulp * (of_int ?n + of_int ?f / 1000000)" using n ulp_bounds(1) by (intro mult_left_mono) simp_all
  finally have "near (2 * ulp) (of_int ?n + dval q) (of_int ?n + of_int ?f / 1000000)"
    using n by (simp add: near_def)
  moreover have "near (1 * ulp) (dval s) (of_int ?n + dval q)"
    using near_fix [OF score_precision_pos, of "exact_add (dec_of_int ?n) q"]
    by (simp add: s dec_add_def dval_exact_add dec_value ulp_def)
  ultimately have "near (10 * ulp) (dval s) (of_int ?n + of_int ?f / 1000000)"
    by (intro near_ulp_trans [of 1 _ _ 2]) simp_all
  moreover have "(of_int d :: rat) = of_int ?n * 1000000 + of_int ?f"
  proof -
    have "d = ?n * 1000000 + ?f" using div_mult_mod_eq [of d us_per_second] by (simp add: us_per_second_def)
    then have "(of_int d :: rat) = of_int (?n * 1000000 + ?f)" by (rule arg_cong)
    then show ?thesis by (simp only: of_int_add of_int_mult of_int_numeral)
  qed
  ultimately show ?thesis by (simp add: add_divide_distrib)
qed

lemma timestamp_contribution:
  assumes band: "0 \<le> band" and w: "0 \<le> w" "w \<le> SCORE_SCALE_BP"
    and e: "timestamp_evidence (Some l) (Some r) band w = Inr e"
  shows "\<bar>of_int (fe_contribution_bp e) - of_int w * exact_share (of_int \<bar>r - l\<bar> / 1000000) (of_int band / 1000000)\<bar> \<le> 1 / 2 + 1 / 10 ^ 70"
proof -
  obtain d where d: "timedelta_seconds \<bar>r - l\<bar> = Inr d" "0 \<le> dval d"
    using timedelta_seconds_nonneg [of "\<bar>r - l\<bar>"] by auto
  obtain b where b: "timedelta_seconds band = Inr b" "0 \<le> dval b"
    using timedelta_seconds_nonneg [OF band] by auto
  obtain k where k: "linear_similarity d b = Inr k" "0 \<le> dval k" "dval k \<le> 1"
    using linear_similarity_bounds [OF d(2) b(2)] by blast
  from e k(1) d(1) b(1) obtain c where c: "scaled_bp w k = Inr c" "fe_contribution_bp e = c"
    by (auto simp: timestamp_evidence_def Let_def rbind_Inr_iff feature_evidence_post_init_def checks_Inr_iff)
  have "\<bar>dval k - exact_share (of_int \<bar>r - l\<bar> / 1000000) (of_int band / 1000000)\<bar> \<le> 100 * ulp"
    using band d(2) b(2) by (intro near_share [OF k(1) near_seconds [OF d(1)] near_seconds [OF b(1)]]) simp_all
  from scaled_bp_error [OF w k(2,3) this c(1)] show ?thesis by (simp add: c(2))
qed

lemma exact_share_scale: "0 < c \<Longrightarrow> exact_share (x / c) (y / c) = exact_share x y"
  by (simp add: exact_share_def)


section \<open>The score of a candidate\<close>

text \<open>The weighted sum the score is meant to be, for records with all four amounts.\<close>

definition exact_score :: "matching_policy \<Rightarrow> dec \<times> datetime \<times> dec \<times> dec \<Rightarrow> dec \<times> datetime \<times> dec \<times> dec \<Rightarrow> rat" where
  "exact_score policy l r = (case (l, r) of ((ql, sl, ul, gl), (qr, sr, ur, gr)) \<Rightarrow>
     of_int (weight_bp policy QUANTITY) * exact_share \<bar>dval qr - dval ql\<bar> (exact_band (mp_quantity_similarity policy) ql qr) +
     of_int (weight_bp policy TIMESTAMP) * exact_share (of_int \<bar>sr - sl\<bar>) (of_int (ts_band (mp_timestamp_similarity policy))) +
     of_int (weight_bp policy UNIT_PRICE) * exact_share \<bar>dval ur - dval ul\<bar> (exact_band (mp_unit_price_similarity policy) ul ur) +
     of_int (weight_bp policy GROSS_AMOUNT) * exact_share \<bar>dval gr - dval gl\<bar> (exact_band (mp_gross_amount_similarity policy) gl gr))"

definition amounts :: "match_record \<Rightarrow> (dec \<times> datetime \<times> dec \<times> dec) option" where
  "amounts r = (case (mr_quantity r, mr_executed_at r, mr_unit_price r, mr_gross_amount r) of
     (Some q, Some t, Some u, Some g) \<Rightarrow> Some (q, t, u, g) | _ \<Rightarrow> None)"

lemma amounts_Some: "amounts r = Some (q, t, u, g) \<longleftrightarrow>
    mr_quantity r = Some q \<and> mr_executed_at r = Some t \<and> mr_unit_price r = Some u \<and> mr_gross_amount r = Some g"
  by (auto simp: amounts_def split: option.splits)

lemma valid_policy_similarities:
  assumes "valid_policy policy"
  shows "valid_similarity (mp_quantity_similarity policy)" "valid_similarity (mp_unit_price_similarity policy)"
    "valid_similarity (mp_gross_amount_similarity policy)" "0 \<le> ts_band (mp_timestamp_similarity policy)"
  using assms by (simp_all add: valid_policy_def valid_similarity_def timestamp_similarity_post_init_def checks_Inr_iff)

lemma score_parts:
  assumes v: "valid_policy policy" and l: "amounts l = Some (ql, sl, ul, gl)" and r: "amounts r = Some (qr, sr, ur, gr)"
    and c: "score_candidate l r reasons b policy = Inr c"
  obtains q t u g where "ce_score_bp c = q + t + u + g"
    "\<bar>of_int q - of_int (weight_bp policy QUANTITY) * exact_share \<bar>dval qr - dval ql\<bar> (exact_band (mp_quantity_similarity policy) ql qr)\<bar> \<le> 1 / 2 + 1 / 10 ^ 70"
    "\<bar>of_int t - of_int (weight_bp policy TIMESTAMP) * exact_share (of_int \<bar>sr - sl\<bar>) (of_int (ts_band (mp_timestamp_similarity policy)))\<bar> \<le> 1 / 2 + 1 / 10 ^ 70"
    "\<bar>of_int u - of_int (weight_bp policy UNIT_PRICE) * exact_share \<bar>dval ur - dval ul\<bar> (exact_band (mp_unit_price_similarity policy) ul ur)\<bar> \<le> 1 / 2 + 1 / 10 ^ 70"
    "\<bar>of_int g - of_int (weight_bp policy GROSS_AMOUNT) * exact_share \<bar>dval gr - dval gl\<bar> (exact_band (mp_gross_amount_similarity policy) gl gr)\<bar> \<le> 1 / 2 + 1 / 10 ^ 70"
proof -
  have lf: "mr_quantity l = Some ql" "mr_executed_at l = Some sl" "mr_unit_price l = Some ul" "mr_gross_amount l = Some gl"
    and rf: "mr_quantity r = Some qr" "mr_executed_at r = Some sr" "mr_unit_price r = Some ur" "mr_gross_amount r = Some gr"
    using l r by (simp_all add: amounts_Some)
  note w = weight_of_valid [OF v]
  have wb: "0 \<le> weight_bp policy f" "weight_bp policy f \<le> SCORE_SCALE_BP" for f using w(1) by simp_all
  note sims = valid_policy_similarities [OF v]
  from c obtain q t u g where q: "numeric_evidence QUANTITY (Some ql) (Some qr) (mp_quantity_similarity policy) (weight_bp policy QUANTITY) = Inr q"
    and t: "timestamp_evidence (Some sl) (Some sr) (ts_band (mp_timestamp_similarity policy)) (weight_bp policy TIMESTAMP) = Inr t"
    and u: "numeric_evidence UNIT_PRICE (Some ul) (Some ur) (mp_unit_price_similarity policy) (weight_bp policy UNIT_PRICE) = Inr u"
    and g: "numeric_evidence GROSS_AMOUNT (Some gl) (Some gr) (mp_gross_amount_similarity policy) (weight_bp policy GROSS_AMOUNT) = Inr g"
    and score: "ce_score_bp c = fe_contribution_bp q + fe_contribution_bp t + fe_contribution_bp u + fe_contribution_bp g"
    using w(1) by (auto simp: score_candidate_def rbind_Inr_iff lf rf candidate_evidence_post_init_def checks_Inr_iff
        candidate_normal_fields Let_def)
  have t': "\<bar>of_int (fe_contribution_bp t) - of_int (weight_bp policy TIMESTAMP) * exact_share (of_int \<bar>sr - sl\<bar>)
      (of_int (ts_band (mp_timestamp_similarity policy)))\<bar> \<le> 1 / 2 + 1 / 10 ^ 70"
    using timestamp_contribution [OF sims(4) wb t] exact_share_scale [of 1000000 "of_int \<bar>sr - sl\<bar>"] by simp
  show thesis
    by (rule that [OF score numeric_contribution [OF sims(1) wb q] t' numeric_contribution [OF sims(2) wb u]
        numeric_contribution [OF sims(3) wb g]])
qed

lemma score_near_exact:
  assumes v: "valid_policy policy" and l: "amounts l = Some x" and r: "amounts r = Some y"
    and c: "score_candidate l r reasons b policy = Inr c"
  shows "\<bar>of_int (ce_score_bp c) - exact_score policy x y\<bar> \<le> 2 + 1 / 10 ^ 69"
proof -
  obtain ql sl ul gl where x: "x = (ql, sl, ul, gl)" by (cases x) auto
  obtain qr sr ur gr where y: "y = (qr, sr, ur, gr)" by (cases y) auto
  have small: "4 * (1 / 10 ^ 70) \<le> (1 :: rat) / 10 ^ 69" by simp
  from score_parts [OF v l [unfolded x] r [unfolded y] c] show ?thesis
  proof cases
    case 1
    have sum: "\<bar>a + b + c + d - (a' + b' + c' + d')\<bar> \<le> 2 + e"
      if "\<bar>a - a'\<bar> \<le> 1 / 2 + k" "\<bar>b - b'\<bar> \<le> 1 / 2 + k" "\<bar>c - c'\<bar> \<le> 1 / 2 + k" "\<bar>d - d'\<bar> \<le> 1 / 2 + k" "4 * k \<le> e"
      for a b c d a' b' c' d' e k :: rat using that by linarith
    show ?thesis unfolding x y exact_score_def prod.case 1(1) of_int_add by (rule sum [OF 1(2-5) small])
  qed
qed

lemma equal_share: "0 \<le> b \<Longrightarrow> exact_share 0 b = 1"
  by (simp add: exact_share_def)

lemma full_weight:
  assumes "\<bar>of_int c - of_int w * (1 :: rat)\<bar> \<le> 1 / 2 + 1 / 10 ^ 70"
  shows "c = w"
proof -
  have "(1 :: rat) / 2 + 1 / 10 ^ 70 < 1" by simp
  with assms have "\<bar>of_int c - of_int w * (1 :: rat)\<bar> < 1" by (rule le_less_trans)
  then have "\<bar>of_int (c - w)\<bar> < (1 :: rat)" by (simp only: mult_1_right of_int_diff)
  then have "\<bar>c - w\<bar> < 1" by (simp only: of_int_abs [symmetric] of_int_less_1_iff)
  then show ?thesis by simp
qed

lemma exact_band_nonneg: "valid_similarity p \<Longrightarrow> 0 \<le> exact_band p l r"
  using valid_similarity_bands [of p] by (simp add: exact_band_def le_max_iff_disj)

lemma equal_amounts_score:
  assumes v: "valid_policy policy" and l: "amounts l = Some (ql, t, ul, gl)" and r: "amounts r = Some (qr, t, ur, gr)"
    and eq: "dval ql = dval qr" "dval ul = dval ur" "dval gl = dval gr"
    and c: "score_candidate l r reasons b policy = Inr c"
  shows "ce_score_bp c = SCORE_SCALE_BP"
  using score_parts [OF v l r c]
proof cases
  case (1 q s u g)
  note sims = valid_policy_similarities [OF v]
  have "q = weight_bp policy QUANTITY" by (rule full_weight) (use 1(2) eq exact_band_nonneg [OF sims(1)] in \<open>simp only: equal_share diff_self abs_zero\<close>)
  moreover have "s = weight_bp policy TIMESTAMP" by (rule full_weight) (use 1(3) sims(4) in \<open>simp only: equal_share diff_self abs_zero of_int_0 of_int_0_le_iff\<close>)
  moreover have "u = weight_bp policy UNIT_PRICE" by (rule full_weight) (use 1(4) eq exact_band_nonneg [OF sims(2)] in \<open>simp only: equal_share diff_self abs_zero\<close>)
  moreover have "g = weight_bp policy GROSS_AMOUNT" by (rule full_weight) (use 1(5) eq exact_band_nonneg [OF sims(3)] in \<open>simp only: equal_share diff_self abs_zero\<close>)
  ultimately show ?thesis using 1(1) weight_of_valid(2) [OF v] by simp
qed


section \<open>Claims\<close>

lemma sample_amounts:
  "amounts (sample_record i state reference) = Some (Dec False 10 0, 63900000000000000, Dec False 5 0, Dec False 50 0)"
  by (simp add: amounts_def sample_record_def)

lemma sample_scored: "\<exists>c. score_candidate (sample_record ''a'' SETTLED None) (sample_record ''b'' SETTLED None) [''pass@1''] True demo_policy = Inr c"
  using score_candidate_total [OF demo_policy_valid, of "sample_record ''a'' SETTLED None" "sample_record ''b'' SETTLED None" "[''pass@1'']" True]
  by (auto simp: sample_record_def)

text \<open>
  C18. Accuracy of the score. For two records with all four amounts, whatever their digits, the
  integer score differs from the weighted sum of the exact linear similarities (in rational
  arithmetic, with the exact relative bands) by at most two basis points, half a point for each
  of the four rounded contributions, up to the residue of the 80-digit context.
\<close>

theorem scores_are_accurate:
  assumes "valid_policy policy" and "amounts l = Some x" and "amounts r = Some y"
    and "score_candidate l r reasons b policy = Inr c"
  shows "\<bar>of_int (ce_score_bp c) - exact_score policy x y\<bar> \<le> 2 + 1 / 10 ^ 69"
  by (rule score_near_exact [OF assms])

theorem scores_are_accurate_witness:
  "\<exists>c x. score_candidate (sample_record ''a'' SETTLED None) (sample_record ''b'' SETTLED None) [''pass@1''] True demo_policy = Inr c \<and>
     amounts (sample_record ''a'' SETTLED None) = Some x \<and> \<bar>of_int (ce_score_bp c) - exact_score demo_policy x x\<bar> \<le> 2 + 1 / 10 ^ 69"
  using scores_are_accurate [OF demo_policy_valid sample_amounts sample_amounts] sample_scored sample_amounts by blast

end
