(* ===== verification/RunClaims.thy ===== *)
theory RunClaims
  imports RunFacts ScoreAccuracy
begin

text \<open>
  The promises of a whole run, on top of \<open>RunFacts\<close>, with the sample run evaluated stage by
  stage: its two open records are one candidate of full score, which the gates accept.
\<close>

section \<open>The sample run, stage by stage\<close>

definition run_search :: preprocessing_result where
  "run_search = \<lparr>rp_input_left_ids = [''a'', ''x''], rp_input_right_ids = [''b''], rp_pairs = [],
     rp_terminal_unpaired = [outcome_of LEFT ''x'' CANCELLED_EXCLUDED []],
     rp_remaining_left = [sample_record ''a'' SETTLED None],
     rp_remaining_right = [sample_record ''b'' SETTLED None], rp_prohibited = [], rp_conflicts = []\<rparr>"

definition run_generation :: generation_result where
  "run_generation = \<lparr>gr_candidates = gr_candidates sample_generation,
     gr_partitions = [\<lparr>pt_partition_id = ''partition-0000000000000000'', pt_blocking_pass = ''general-compatible-24h@1'',
       pt_left_ids = [''a''], pt_right_ids = [''b''], pt_enumerated_edge_count = 1,
       pt_complete = True, pt_limit_reason = None\<rparr>],
     gr_limited_record_ids = [], gr_complete = True\<rparr>"

lemma run_generation_eval:
  assumes "rp_remaining_left pre = rp_remaining_left run_search" "rp_remaining_right pre = rp_remaining_right run_search"
    "prohibited_edges pre = []"
  shows "generate_candidates sample_sha256 pre demo_policy = Inr run_generation"
  using assms by (simp add: run_search_def sample_record_def demo_policy_eval candidate_eval run_generation_def sample_generation_def
      sample_sha256_def eval_nat_numeral)


lemma singleton_list: "distinct xs \<Longrightarrow> set xs = {x} \<Longrightarrow> xs = [x]"
  by (cases xs; cases "tl xs") auto

lemma sample_pair_scored:
  assumes "score_candidate (sample_record ''a'' SETTLED None) (sample_record ''b'' SETTLED None) reasons True demo_policy = Inr c"
  shows "sample_pair c"
proof -
  let ?l = "sample_record ''a'' SETTLED None" and ?r = "sample_record ''b'' SETTLED None"
  have "ce_score_bp c = SCORE_SCALE_BP"
    by (rule equal_amounts_score [OF demo_policy_valid sample_amounts sample_amounts refl refl refl assms])
  moreover have "contradictions ?l ?r k = []" "coverage_failures ?l ?r = []" for k
    by (simp_all add: contradictions_def coverage_failures_def differ_def absent_def sample_record_def)
  moreover from assms have "ce_left_id c = mr_observation_id ?l \<and> ce_right_id c = mr_observation_id ?r \<and>
      ce_contradictions c = sorted_set (map contradiction_value (contradictions ?l ?r (mp_reference_contract demo_policy))) \<and>
      (ce_coverage_sufficient c \<longleftrightarrow> coverage_failures ?l ?r = []) \<and> ce_complete_computation c"
    by (auto simp: score_candidate_def rbind_Inr_iff Let_def candidate_evidence_post_init_def checks_Inr_iff candidate_normal_fields)
  ultimately show ?thesis by (simp add: sample_pair_def SCORE_SCALE_BP_def sorted_set_def sample_record_def)
qed

lemma sample_run_stages:
  assumes st: "staged sample_sha256 sample_run demo_policy no_decisions sample_solver pre g cs asg gt"
    and ok: "preprocessed sample_run no_decisions (mp_reference_contract demo_policy) pre"
  shows "gt = sample_gated"
proof -
  have stages: "preprocess_references sample_run no_decisions (mp_reference_contract demo_policy) = Inr pre"
    "generate_candidates sample_sha256 pre demo_policy = Inr g" "score_candidates pre g demo_policy = Inr cs"
    "solve_assignment sample_sha256 cs g demo_policy sample_solver = Inr asg"
    "gate_assignment sample_sha256 cs asg demo_policy sample_solver = Inr gt" using st by (simp_all add: staged_def)
  have rem: "set (remaining_records side pre) = {x \<in> set (side_records sample_run side).
      record_fate sample_run no_decisions (mp_reference_contract demo_policy) side x = Remains}" for side
    using ok unfolding preprocessed_def by blast
  have fate: "record_fate sample_run no_decisions k side (sample_record i SETTLED None) = Remains"
    "record_fate sample_run no_decisions k side (sample_record i CANCELLED None) \<noteq> Remains" for k side i
    by (simp_all add: record_fate_def linked_to_def no_decisions_def reference_fate_def reference_key_def sample_record_def eligible_def)
  have "set (rp_remaining_left pre) = {sample_record ''a'' SETTLED None}" "set (rp_remaining_right pre) = {sample_record ''b'' SETTLED None}"
    using rem [of LEFT] rem [of RIGHT] fate by (auto simp: sample_run_def)
  with preprocess_partition(3,4) [OF stages(1)] have left: "rp_remaining_left pre = [sample_record ''a'' SETTLED None]"
    and right: "rp_remaining_right pre = [sample_record ''b'' SETTLED None]"
    by (auto intro!: singleton_list simp: distinct_map)
  have "set (prohibited_edges pre) = {}" using ok by (simp add: preprocessed_def no_decisions_def rejected_edges_def)
  then have "generate_candidates sample_sha256 pre demo_policy = Inr run_generation"
    using left right by (intro run_generation_eval) (simp_all add: run_search_def)
  with stages(2) have g: "g = run_generation" by simp
  obtain c where c: "cs = [c]" and score: "score_candidate (sample_record ''a'' SETTLED None) (sample_record ''b'' SETTLED None)
      [''general-compatible-24h@1''] True demo_policy = Inr c"
    using stages(3) left right
    by (auto simp: g score_candidates_def run_generation_def sample_generation_def score_edge_def dict_of_def rbind_Inr_iff
        sample_record_def)
  note pair = sample_pair_scored [OF score]
  have "asg = sample_assignment"
    using pair_assignment_eval [OF pair, of g] stages(4) by (simp add: g c run_generation_def)
  with pair_gated_eval [OF pair] stages(5) c show ?thesis by simp
qed

lemma sample_run_pair:
  obtains r p where "reconcile sample_sha256 sample_run demo_policy demo_comparison_policy no_decisions sample_solver = Inr r"
    "p \<in> set (er_pairs r)" "po_edge p = (''a'', ''b'')" "po_origin p = WEIGHTED_GLOBAL"
    "po_score_bp p = Some 10000" "po_global_gap_bp p = Some 3000"
proof (rule stages_total [OF sample_run_ready])
  fix pre g cs asg gt
  assume st: "staged sample_sha256 sample_run demo_policy no_decisions sample_solver pre g cs asg gt"
    and ok: "preprocessed sample_run no_decisions (mp_reference_contract demo_policy) pre" and rest: "searchable pre"
      "list_all2 (scored_edge demo_policy g) (gr_candidates g) cs" "distinct (map ce_edge cs)" "gated_ok cs demo_policy gt"
  from run_total [OF sample_run_ready st ok rest] obtain r est acc where
    r: "reconcile sample_sha256 sample_run demo_policy demo_comparison_policy no_decisions sample_solver = Inr r"
      "set (er_pairs r) = set est \<union> set acc" and acc: "list_all2 accepted_as (gt_accepted_proposals gt) acc" by blast
  from acc sample_run_stages [OF st ok] obtain p where "acc = [p]" "accepted_as sample_proposal p"
    by (auto simp: sample_gated_def list_all2_Cons1)
  with r show thesis by (intro that [of r p]) (simp_all add: accepted_as_def sample_proposal_def)
qed

lemma run_distinct_inputs:
  assumes "reconcile sha256 s policy comparison d solver = Inr r"
  shows "distinct (er_input_left_ids r) \<and> distinct (er_input_right_ids r)"
proof -
  from assms obtain q where q: "engine_result_post_init q = Inr r"
    by (auto simp: reconcile_def assemble_def rbind_Inr_iff Let_def)
  then have "r = engine_result_normal q" "\<forall>k \<in> set (result_identity_checks (engine_result_normal q)). \<not> fst k"
    by (auto simp: engine_result_post_init_def engine_result_checks_def checks_Inr_iff Let_def)
  then show ?thesis unfolding identity_checks_iff by (simp add: result_identity_def engine_result_normal_def)
qed

section \<open>Claims\<close>

text \<open>
  C15. Termination of the engine. \<open>reconcile\<close> returns a result, and none of its stages,
  constructors or final checks raises, when all of this holds: the snapshot, the decisions and both
  policies come from their constructors, and no decision names records of the wrong sides; the
  identities of the records hold no NUL; the time window of a left record stays within the years 1
  to 9999 in every blocking pass; the policy bounds components at 900000 nodes or fewer; the solver
  meets its contract and has the version of the policy; and the 64 hexadecimal digits of the digest,
  truncated as the code does, give distinct identities to the blocking keys that the two sides of
  the snapshot share and to the components of the candidates of this run.
\<close>

theorem run_returns:
  assumes "run_ready sha256 s policy comparison d solver"
  shows "\<exists>r. reconcile sha256 s policy comparison d solver = Inr r"
proof (rule stages_total [OF assms])
  fix pre g cs asg gt
  assume "staged sha256 s policy d solver pre g cs asg gt" "preprocessed s d (mp_reference_contract policy) pre" "searchable pre"
    "list_all2 (scored_edge policy g) (gr_candidates g) cs" "distinct (map ce_edge cs)" "gated_ok cs policy gt"
  from run_total [OF assms this] show ?thesis by blast
qed

theorem run_returns_witness:
  "\<exists>r. reconcile sample_sha256 sample_run demo_policy demo_comparison_policy no_decisions sample_solver = Inr r"
  by (rule run_returns [OF sample_run_ready])

text \<open>
  C2. Accounting. Whatever the engine is called with, a result it returns accounts for every input
  record exactly once: on each side the paired and the unpaired identities are, with
  multiplicities, the identities of the snapshot.
\<close>

theorem run_accounts_once:
  assumes "reconcile sha256 s policy comparison d solver = Inr r"
  shows "mset (map po_left_id (er_pairs r)) + mset (unpaired_ids LEFT (er_unpaired r)) = mset (input_left_ids s) \<and>
    mset (map po_right_id (er_pairs r)) + mset (unpaired_ids RIGHT (er_unpaired r)) = mset (input_right_ids s)"
proof -
  have split: "mset xs + mset ys = mset is"
    if "distinct xs" "distinct ys" "distinct is" "set xs \<union> set ys = set is" "set xs \<inter> set ys = {}" for xs ys "is" :: "string list"
  proof -
    have "distinct (xs @ ys)" "set (xs @ ys) = set is" using that by auto
    with that(3) have "mset (xs @ ys) = mset is" using set_eq_iff_mset_eq_distinct by blast
    then show ?thesis by simp
  qed
  from assms show ?thesis
  proof (rule reconcile_Inr)
    assume part: "result_partition r" and ids: "er_input_left_ids r = sort (input_left_ids s)" "er_input_right_ids r = sort (input_right_ids s)"
    have "distinct (er_input_left_ids r)" "distinct (er_input_right_ids r)" using run_distinct_inputs [OF assms] ids by simp_all
    with part have "mset (map po_left_id (er_pairs r)) + mset (unpaired_ids LEFT (er_unpaired r)) = mset (er_input_left_ids r)"
      "mset (map po_right_id (er_pairs r)) + mset (unpaired_ids RIGHT (er_unpaired r)) = mset (er_input_right_ids r)"
      unfolding result_partition_def by (intro split; simp)+
    then show ?thesis by (simp add: ids)
  qed
qed


theorem run_accounts_once_witness:
  "\<exists>r. reconcile sample_sha256 sample_run demo_policy demo_comparison_policy no_decisions sample_solver = Inr r \<and>
     mset (map po_left_id (er_pairs r)) + mset (unpaired_ids LEFT (er_unpaired r)) = {#''a'', ''x''#}"
proof (rule sample_run_pair)
  fix r p assume r: "reconcile sample_sha256 sample_run demo_policy demo_comparison_policy no_decisions sample_solver = Inr r"
  from run_accounts_once [OF r] r show ?thesis by (auto simp: input_left_ids_def sample_run_def sample_record_def)
qed

text \<open>
  C3. The reviewer decides. Whatever solver and digests a run is given, each pair it returns
  relates two eligible records of the right sides, neither of which the reviewer accepted as
  unmatched or reserved; it is a manual pair exactly when it is one of the reviewer's manual
  links; and no pair the engine found on its own is a relationship the reviewer rejected.
\<close>

theorem run_respects_reviewer:
  assumes "valid_snapshot s" and "valid_decisions d" and "valid_policy policy"
    and "reconcile sha256 s policy comparison d solver = Inr r" and "p \<in> set (er_pairs r)"
  shows "po_left_id p \<in> set (eligible_ids s LEFT) \<and> po_right_id p \<in> set (eligible_ids s RIGHT) \<and>
    po_left_id p \<notin> set (single_ids d) \<and> po_right_id p \<notin> set (single_ids d) \<and>
    (po_origin p = MANUAL \<longleftrightarrow> po_edge p \<in> set (link_edges d)) \<and>
    (po_origin p \<noteq> MANUAL \<longrightarrow> po_edge p \<notin> set (rejected_edges d))"
  by (rule run_pairs_reviewed [OF assms])

theorem run_respects_reviewer_witness:
  "\<exists>r. \<exists>p \<in> set (er_pairs r).
     reconcile sample_sha256 sample_run demo_policy demo_comparison_policy no_decisions sample_solver = Inr r \<and>
     po_left_id p = ''a'' \<and> ''a'' \<in> set (eligible_ids sample_run LEFT) \<and> po_origin p \<noteq> MANUAL"
proof (rule sample_run_pair)
  fix r p assume r: "reconcile sample_sha256 sample_run demo_policy demo_comparison_policy no_decisions sample_solver = Inr r"
    and p: "p \<in> set (er_pairs r)" "po_edge p = (''a'', ''b'')" "po_origin p = WEIGHTED_GLOBAL"
  from run_respects_reviewer [OF sample_run_valid no_decisions_valid(1) demo_policy_valid r p(1)] r p show ?thesis by auto
qed

text \<open>
  C6. Automatic pairs agree. Whatever solver and digests a run is given, a pair it returns that was
  found by score relates two records that carry the same instrument, side and currency and both an
  amount and a time, that do not contradict each other in the reference of the contract, and that
  lie within the window of a blocking pass; its score reaches the automatic threshold and its global
  gap the minimum of the policy.
\<close>

theorem weighted_pairs_agree:
  assumes "valid_snapshot s" and "valid_decisions d" and "valid_policy policy"
    and "reconcile sha256 s policy comparison d solver = Inr r"
    and "p \<in> set (er_pairs r)" and "po_origin p = WEIGHTED_GLOBAL"
  shows "\<exists>l \<in> set (es_left s). \<exists>q \<in> set (es_right s). po_edge p = (mr_observation_id l, mr_observation_id q) \<and>
    agreeing (mp_reference_contract policy) l q \<and> (\<exists>b \<in> set (mp_blocking_passes policy). compatible b l q) \<and>
    (\<exists>score gap. po_score_bp p = Some score \<and> mp_automatic_threshold_bp policy \<le> score \<and>
       po_global_gap_bp p = Some gap \<and> mp_minimum_global_gap_bp policy \<le> gap)"
  by (rule run_weighted_pairs [OF assms])

theorem weighted_pairs_agree_witness:
  "\<exists>r. \<exists>p \<in> set (er_pairs r).
     reconcile sample_sha256 sample_run demo_policy demo_comparison_policy no_decisions sample_solver = Inr r \<and>
     po_score_bp p = Some 10000 \<and> (\<exists>l \<in> set (es_left sample_run). \<exists>q \<in> set (es_right sample_run).
       po_edge p = (mr_observation_id l, mr_observation_id q) \<and> agreeing (mp_reference_contract demo_policy) l q)"
proof (rule sample_run_pair)
  fix r p assume r: "reconcile sample_sha256 sample_run demo_policy demo_comparison_policy no_decisions sample_solver = Inr r"
    and p: "p \<in> set (er_pairs r)" "po_origin p = WEIGHTED_GLOBAL" "po_score_bp p = Some 10000"
  from weighted_pairs_agree [OF sample_run_valid no_decisions_valid(1) demo_policy_valid r p(1,2)] r p show ?thesis by auto
qed

text \<open>
  C19. The order in which records and decisions are supplied does not matter. If a snapshot and
  decisions can be constructed, then the run on any permutation of the same records and
  decisions is the same run, error or result.
\<close>

theorem inputs_order_irrelevant:
  assumes "engine_snapshot_post_init s = Inr u" and "mset (es_left t) = mset (es_left s)" and "mset (es_right t) = mset (es_right s)"
    and "es_left_revision_id t = es_left_revision_id s" and "es_right_revision_id t = es_right_revision_id s"
    and "decision_inputs_post_init d = Inr v"
    and "mset (di_manual_links e) = mset (di_manual_links d)"
    and "mset (di_accepted_unmatched e) = mset (di_accepted_unmatched d)"
    and "mset (di_rejected_relationships e) = mset (di_rejected_relationships d)"
    and "mset (di_reserved_identities e) = mset (di_reserved_identities d)"
  shows "rbind (engine_snapshot_post_init t) (\<lambda>u'. rbind (decision_inputs_post_init e)
      (\<lambda>v'. reconcile sha256 u' policy comparison v' solver)) = reconcile sha256 u policy comparison v solver"
  by (simp add: snapshot_order [OF assms(1-5)] decisions_order [OF assms(6-10)])

theorem inputs_order_irrelevant_witness:
  "rbind (engine_snapshot_post_init (sample_run\<lparr>es_left := rev (es_left sample_run)\<rparr>))
     (\<lambda>u. rbind (decision_inputs_post_init no_decisions) (\<lambda>v. reconcile sample_sha256 u demo_policy demo_comparison_policy v sample_solver)) =
   reconcile sample_sha256 sample_run demo_policy demo_comparison_policy no_decisions sample_solver"
proof (rule inputs_order_irrelevant)
  show "engine_snapshot_post_init sample_run = Inr sample_run" using sample_run_valid by (simp add: valid_snapshot_def)
  show "decision_inputs_post_init no_decisions = Inr no_decisions" using no_decisions_valid by (simp add: valid_decisions_def)
qed simp_all

end
