(* ===== verification/Effects.thy ===== *)
theory Effects
  imports PyTime
begin

text \<open>
  Timestamps as callers hand them over, with or without a time zone, and operations on the
  database: functions from a state to a result and a state. An error leaves behind what the
  operation had written so far; \<open>atomic\<close> is Django's \<open>transaction.atomic\<close>, which undoes it.
\<close>

section \<open>Timestamps of callers\<close>

text \<open>A local time, and its UTC offset where it has a time zone, in microseconds.\<close>

datatype stamp = Naive int | Aware int int

abbreviation utc_stamp :: "datetime \<Rightarrow> stamp" where
  "utc_stamp t \<equiv> Aware t 0"

text \<open>\<open>_as_utc\<close> of the domain modules: \<open>value.astimezone(UTC)\<close> where there is a time zone.\<close>

definition as_utc :: "stamp \<Rightarrow> string \<Rightarrow> datetime result" where
  "as_utc value name =
     (case value of
        Naive _ \<Rightarrow> Inl (DomainValidationError (name @ '' must be timezone-aware''))
      | Aware local offset \<Rightarrow> if valid_datetime (local - offset) then Inr (local - offset) else Inl OverflowError)"

lemma as_utc_utc [simp]: "valid_datetime t \<Longrightarrow> as_utc (utc_stamp t) name = Inr t"
  by (simp add: as_utc_def)

lemma as_utc_Inr: "as_utc value name = Inr t \<longleftrightarrow> valid_datetime t \<and> (\<exists>local offset. value = Aware local offset \<and> t = local - offset)"
  by (auto simp: as_utc_def split: stamp.splits)

text \<open>\<open>timedelta\<close> arithmetic raises beyond 999999999 days.\<close>

definition timedelta_max :: int where
  "timedelta_max = 1000000000 * us_per_day - 1"

definition timedelta_scale :: "timedelta \<Rightarrow> int \<Rightarrow> timedelta result" where
  "timedelta_scale d k =
     (if - 999999999 * us_per_day \<le> d * k \<and> d * k \<le> timedelta_max then Inr (d * k) else Inl OverflowError)"

section \<open>Operations on a state\<close>

type_synonym ('s, 'a) op = "'s \<Rightarrow> 'a result \<times> 's"

named_theorems op_simps \<open>equations that run operations\<close>

definition ok :: "'a \<Rightarrow> ('s, 'a) op" where
  "ok x = (\<lambda>s. (Inr x, s))"

definition raise :: "py_error \<Rightarrow> ('s, 'a) op" where
  "raise e = (\<lambda>s. (Inl e, s))"

definition sbind :: "('s, 'a) op \<Rightarrow> ('a \<Rightarrow> ('s, 'b) op) \<Rightarrow> ('s, 'b) op" where
  "sbind m f = (\<lambda>s. case m s of (Inl e, t) \<Rightarrow> (Inl e, t) | (Inr x, t) \<Rightarrow> f x t)"

definition gets :: "('s \<Rightarrow> 'a) \<Rightarrow> ('s, 'a) op" where
  "gets f = (\<lambda>s. (Inr (f s), s))"

definition modify :: "('s \<Rightarrow> 's) \<Rightarrow> ('s, unit) op" where
  "modify f = (\<lambda>s. (Inr (), f s))"

definition lift_result :: "'a result \<Rightarrow> ('s, 'a) op" where
  "lift_result r = (\<lambda>s. (r, s))"

definition raise_if :: "bool \<Rightarrow> py_error \<Rightarrow> ('s, unit) op" where
  "raise_if c e = (if c then raise e else ok ())"

definition atomic :: "('s, 'a) op \<Rightarrow> ('s, 'a) op" where
  "atomic m = (\<lambda>s. case m s of (Inl e, _) \<Rightarrow> (Inl e, s) | (Inr x, t) \<Rightarrow> (Inr x, t))"

lemmas op_defs [op_simps] = ok_def raise_def gets_def modify_def lift_result_def raise_if_def

lemma sbind_run [op_simps]:
  "sbind m f s = (case m s of (Inl e, t) \<Rightarrow> (Inl e, t) | (Inr x, t) \<Rightarrow> f x t)"
  by (simp add: sbind_def)

lemma atomic_run [op_simps]:
  "atomic m s = (case m s of (Inl e, _) \<Rightarrow> (Inl e, s) | (Inr x, t) \<Rightarrow> (Inr x, t))"
  by (simp add: atomic_def)

lemma sbind_Inr:
  "sbind m f s = (Inr y, u) \<longleftrightarrow> (\<exists>x t. m s = (Inr x, t) \<and> f x t = (Inr y, u))"
  by (auto simp: sbind_def split: prod.splits sum.splits)

lemma sbind_Inl:
  "sbind m f s = (Inl e, u) \<longleftrightarrow> m s = (Inl e, u) \<or> (\<exists>x t. m s = (Inr x, t) \<and> f x t = (Inl e, u))"
  by (auto simp: sbind_def split: prod.splits sum.splits)

lemma atomic_Inr [simp]: "atomic m s = (Inr x, t) \<longleftrightarrow> m s = (Inr x, t)"
  by (auto simp: atomic_def split: prod.splits sum.splits)

lemma atomic_Inl: "atomic m s = (Inl e, t) \<longleftrightarrow> t = s \<and> (\<exists>u. m s = (Inl e, u))"
  by (auto simp: atomic_def split: prod.splits sum.splits)

text \<open>A failed transaction changes nothing.\<close>

lemma atomic_state: "fst (atomic m s) = Inl e \<Longrightarrow> snd (atomic m s) = s"
  by (auto simp: atomic_def split: prod.splits sum.splits)

text \<open>What an operation preserves, whether it returns or raises.\<close>

definition preserves :: "('s \<Rightarrow> bool) \<Rightarrow> ('s, 'a) op \<Rightarrow> bool" where
  "preserves P m \<longleftrightarrow> (\<forall>s. P s \<longrightarrow> P (snd (m s)))"

lemma preserves_ok [simp]: "preserves P (ok x)"
  by (simp add: preserves_def ok_def)

lemma preserves_raise [simp]: "preserves P (raise e)"
  by (simp add: preserves_def raise_def)

lemma preserves_gets [simp]: "preserves P (gets f)"
  by (simp add: preserves_def gets_def)

lemma preserves_lift [simp]: "preserves P (lift_result r)"
  by (simp add: preserves_def lift_result_def)

lemma preserves_raise_if [simp]: "preserves P (raise_if c e)"
  by (simp add: raise_if_def)

lemma preserves_modify: "(\<And>s. P s \<Longrightarrow> P (f s)) \<Longrightarrow> preserves P (modify f)"
  by (simp add: preserves_def modify_def)

lemma preserves_sbind: "preserves P m \<Longrightarrow> (\<And>x. preserves P (f x)) \<Longrightarrow> preserves P (sbind m f)"
  unfolding preserves_def sbind_def by (metis (no_types, lifting) prod.collapse snd_conv split_beta sum.case_eq_if)

lemma preserves_atomic: "(\<And>s x t. P s \<Longrightarrow> m s = (Inr x, t) \<Longrightarrow> P t) \<Longrightarrow> preserves P (atomic m)"
  unfolding preserves_def atomic_def by (auto split: prod.splits sum.splits)

text \<open>\<open>for x in xs\<close> with a body that acts on the state, collecting what it returns.\<close>

fun smap :: "('a \<Rightarrow> ('s, 'b) op) \<Rightarrow> 'a list \<Rightarrow> ('s, 'b list) op" where
  "smap f [] = ok []"
| "smap f (x # xs) = sbind (f x) (\<lambda>y. sbind (smap f xs) (\<lambda>ys. ok (y # ys)))"

lemma preserves_smap: "(\<And>x. x \<in> set xs \<Longrightarrow> preserves P (f x)) \<Longrightarrow> preserves P (smap f xs)"
  by (induction xs) (simp_all add: preserves_sbind)

end
