(* ===== verification/Workspaces.thy ===== *)
theory Workspaces
  imports Effects
begin

text \<open>
  Workspace lifecycle and quotas (\<open>reconciliation/domain/workspaces.py\<close>): the expiry policy and
  the quota policy, which the services of \<open>workspaces/\<close> apply to database rows.
\<close>

section \<open>Lifecycle\<close>

datatype workspace_state = ACTIVE | REVOKED | DELETED

datatype access_failure = EXPIRED_ACCESS | REVOKED_ACCESS | DELETED_ACCESS

record workspace_access =
  wa_workspace_id :: string
  wa_expires_at :: datetime

definition workspace_access :: "string \<Rightarrow> stamp \<Rightarrow> workspace_access result" where
  "workspace_access i expires_at =
     rbind (as_utc expires_at ''expires_at'') (\<lambda>t. Inr \<lparr>wa_workspace_id = i, wa_expires_at = t\<rparr>)"

record lifecycle_result =
  lr_state :: workspace_state
  lr_access_allowed :: bool
  lr_failure :: "access_failure option"
  lr_requires_revocation :: bool

record expiry_policy =
  xp_retention :: timedelta

definition default_expiry :: expiry_policy where
  "default_expiry = \<lparr>xp_retention = 7 * us_per_day\<rparr>"

definition expiry_policy_post_init :: "expiry_policy \<Rightarrow> expiry_policy result" where
  "expiry_policy_post_init p = checks [(xp_retention p \<le> 0, ''retention must be greater than zero'')] p"

definition policy_expires_at :: "expiry_policy \<Rightarrow> stamp \<Rightarrow> datetime result" where
  "policy_expires_at p created_at = rbind (as_utc created_at ''created_at'') (\<lambda>t. dt_add t (xp_retention p))"

definition evaluate :: "workspace_state \<Rightarrow> stamp \<Rightarrow> stamp \<Rightarrow> lifecycle_result result" where
  "evaluate state expires_at now =
     rbind (as_utc expires_at ''expires_at'') (\<lambda>expiry. rbind (as_utc now ''now'') (\<lambda>current.
       Inr (if state = DELETED then \<lparr>lr_state = state, lr_access_allowed = False,
              lr_failure = Some DELETED_ACCESS, lr_requires_revocation = False\<rparr>
            else if state = REVOKED then \<lparr>lr_state = state, lr_access_allowed = False,
              lr_failure = Some REVOKED_ACCESS, lr_requires_revocation = False\<rparr>
            else if expiry \<le> current then \<lparr>lr_state = REVOKED, lr_access_allowed = False,
              lr_failure = Some EXPIRED_ACCESS, lr_requires_revocation = True\<rparr>
            else \<lparr>lr_state = ACTIVE, lr_access_allowed = True, lr_failure = None,
              lr_requires_revocation = False\<rparr>)))"

section \<open>Quotas\<close>

datatype quota_resource = RETAINED_BYTES | BOOKS | ACTIVE_JOBS

primrec quota_resource_value :: "quota_resource \<Rightarrow> string" where
  "quota_resource_value RETAINED_BYTES = ''retained_bytes''"
| "quota_resource_value BOOKS = ''books''"
| "quota_resource_value ACTIVE_JOBS = ''active_jobs''"

record quota_amounts =
  qa_retained_bytes :: int
  qa_books :: int
  qa_active_jobs :: int

definition quota_amounts_post_init :: "quota_amounts \<Rightarrow> quota_amounts result" where
  "quota_amounts_post_init q = checks
     [(qa_retained_bytes q < 0, ''retained_bytes must be a nonnegative integer''),
      (qa_books q < 0, ''books must be a nonnegative integer''),
      (qa_active_jobs q < 0, ''active_jobs must be a nonnegative integer'')] q"

definition no_amounts :: quota_amounts where
  "no_amounts = \<lparr>qa_retained_bytes = 0, qa_books = 0, qa_active_jobs = 0\<rparr>"

primrec amount_of :: "quota_resource \<Rightarrow> quota_amounts \<Rightarrow> int" where
  "amount_of RETAINED_BYTES q = qa_retained_bytes q"
| "amount_of BOOKS q = qa_books q"
| "amount_of ACTIVE_JOBS q = qa_active_jobs q"

definition quota_plus :: "quota_amounts \<Rightarrow> quota_amounts \<Rightarrow> quota_amounts result" where
  "quota_plus a b = quota_amounts_post_init
     \<lparr>qa_retained_bytes = qa_retained_bytes a + qa_retained_bytes b, qa_books = qa_books a + qa_books b,
      qa_active_jobs = qa_active_jobs a + qa_active_jobs b\<rparr>"

definition quota_exceeded :: "quota_resource \<Rightarrow> int \<Rightarrow> int \<Rightarrow> int \<Rightarrow> py_error" where
  "quota_exceeded resource current requested limit =
     QuotaExceeded (quota_resource_value resource) current requested limit"

text \<open>The loop over the resources raises for the first one whose total is above its limit.\<close>

fun quota_check :: "quota_amounts \<Rightarrow> quota_amounts \<Rightarrow> quota_amounts \<Rightarrow> quota_amounts \<Rightarrow> quota_resource list \<Rightarrow> unit result" where
  "quota_check limits usage requested resulting [] = Inr ()"
| "quota_check limits usage requested resulting (x # xs) =
     (if amount_of x limits < amount_of x resulting
      then Inl (quota_exceeded x (amount_of x usage) (amount_of x requested) (amount_of x limits))
      else quota_check limits usage requested resulting xs)"

definition quota_reserve :: "quota_amounts \<Rightarrow> quota_amounts \<Rightarrow> quota_amounts \<Rightarrow> quota_amounts result" where
  "quota_reserve limits usage requested =
     rbind (quota_plus usage requested) (\<lambda>resulting.
     rbind (quota_check limits usage requested resulting [RETAINED_BYTES, BOOKS, ACTIVE_JOBS])
       (\<lambda>_. Inr resulting))"

text \<open>\<open>str(QuotaExceeded(...))\<close>.\<close>

definition quota_exceeded_text :: "quota_resource \<Rightarrow> int \<Rightarrow> int \<Rightarrow> int \<Rightarrow> string" where
  "quota_exceeded_text resource current requested limit =
     quota_resource_value resource @ '' quota exceeded: current='' @ int_text current @
     '', requested='' @ int_text requested @ '', limit='' @ int_text limit"

section \<open>Facts\<close>

definition valid_amounts :: "quota_amounts \<Rightarrow> bool" where
  "valid_amounts q \<longleftrightarrow> (\<forall>x. 0 \<le> amount_of x q)"

lemma all_resources: "(\<forall>x. P x) \<longleftrightarrow> P RETAINED_BYTES \<and> P BOOKS \<and> P ACTIVE_JOBS"
  by (metis quota_resource.exhaust)

lemma quota_amounts_eq_iff: "a = b \<longleftrightarrow> (\<forall>x. amount_of x a = amount_of x b)" for a b :: quota_amounts
  by (cases a; cases b) (auto simp: all_resources)

lemma quota_amounts_post_init_Inr: "quota_amounts_post_init q = Inr r \<longleftrightarrow> r = q \<and> valid_amounts q"
  by (auto simp: quota_amounts_post_init_def checks_Inr_iff valid_amounts_def all_resources)

lemma quota_plus_Inr:
  "valid_amounts a \<Longrightarrow> valid_amounts b \<Longrightarrow>
   \<exists>c. quota_plus a b = Inr c \<and> (\<forall>x. amount_of x c = amount_of x a + amount_of x b)"
  by (auto simp: quota_plus_def quota_amounts_post_init_Inr valid_amounts_def all_resources)

lemma quota_check_Inr:
  "quota_check limits usage requested resulting xs = Inr () \<longleftrightarrow> (\<forall>x \<in> set xs. amount_of x resulting \<le> amount_of x limits)"
  by (induction xs) auto

lemma quota_reserve_Inr:
  assumes "valid_amounts usage" and "valid_amounts requested"
  shows "quota_reserve limits usage requested = Inr r \<longleftrightarrow>
    (\<forall>x. amount_of x r = amount_of x usage + amount_of x requested \<and> amount_of x r \<le> amount_of x limits)"
proof -
  obtain c where c: "quota_plus usage requested = Inr c" "\<forall>x. amount_of x c = amount_of x usage + amount_of x requested"
    using quota_plus_Inr [OF assms] by blast
  have "quota_check limits usage requested c [RETAINED_BYTES, BOOKS, ACTIVE_JOBS] = Inr () \<longleftrightarrow>
      (\<forall>x. amount_of x c \<le> amount_of x limits)"
    unfolding quota_check_Inr all_resources by simp
  then have "quota_reserve limits usage requested = Inr r \<longleftrightarrow> r = c \<and> (\<forall>x. amount_of x c \<le> amount_of x limits)"
    unfolding quota_reserve_def c(1) rbind.simps rbind_Inr_iff by (auto simp del: quota_check.simps)
  also have "\<dots> \<longleftrightarrow> (\<forall>x. amount_of x r = amount_of x usage + amount_of x requested \<and> amount_of x r \<le> amount_of x limits)"
    unfolding quota_amounts_eq_iff c(2) [rule_format] by metis
  finally show ?thesis .
qed

lemma evaluate_allowed:
  "valid_datetime e \<Longrightarrow> valid_datetime n \<Longrightarrow>
   \<exists>r. evaluate state (utc_stamp e) (utc_stamp n) = Inr r \<and> (lr_access_allowed r \<longleftrightarrow> state = ACTIVE \<and> n < e) \<and>
     (lr_requires_revocation r \<longleftrightarrow> state = ACTIVE \<and> e \<le> n)"
  by (cases state) (auto simp: evaluate_def)

end
