(* ===== verification/Jobs.thy ===== *)
theory Jobs
  imports Effects
begin

text \<open>
  Claims, leases and retries of background work (\<open>reconciliation/domain/jobs.py\<close>).
\<close>

datatype job_kind = IMPORT_VALIDATION | RECONCILIATION_RUN | WORKSPACE_CLEANUP

datatype job_state = READY | LEASED | SUCCEEDED | FAILED

datatype failure_category = TRANSIENT | PERMANENT

definition lease_token :: "string \<Rightarrow> string result" where
  "lease_token value = checks [(value = [], ''a lease token must not be empty'')] value"

record claim_snapshot =
  cs_state :: job_state
  cs_available_at :: datetime
  cs_lease_until :: "datetime option"

definition optional_utc :: "stamp option \<Rightarrow> string \<Rightarrow> datetime option result" where
  "optional_utc value name =
     (case value of None \<Rightarrow> Inr None | Some v \<Rightarrow> rbind (as_utc v name) (\<lambda>t. Inr (Some t)))"

definition claim_snapshot :: "job_state \<Rightarrow> stamp \<Rightarrow> stamp option \<Rightarrow> claim_snapshot result" where
  "claim_snapshot state available_at lease_until =
     rbind (as_utc available_at ''available_at'') (\<lambda>a. rbind (optional_utc lease_until ''lease_until'')
       (\<lambda>l. checks
          [(state = LEASED \<and> l = None, ''a LEASED item requires lease_until''),
           (state \<noteq> LEASED \<and> l \<noteq> None, ''only a LEASED item may carry lease_until'')]
          \<lparr>cs_state = state, cs_available_at = a, cs_lease_until = l\<rparr>))"

definition is_claimable :: "claim_snapshot \<Rightarrow> stamp \<Rightarrow> bool result" where
  "is_claimable snapshot now =
     rbind (as_utc now ''now'') (\<lambda>current.
       case cs_state snapshot of
         READY \<Rightarrow> Inr (cs_available_at snapshot \<le> current)
       | LEASED \<Rightarrow> (case cs_lease_until snapshot of None \<Rightarrow> Inl AssertionError | Some l \<Rightarrow> Inr (l < current))
       | _ \<Rightarrow> Inr False)"

section \<open>Retries\<close>

record retry_outcome =
  ro_state :: job_state
  ro_available_at :: "datetime option"

definition retry_outcome :: "job_state \<Rightarrow> datetime option \<Rightarrow> retry_outcome result" where
  "retry_outcome state available_at = checks
     [(state \<noteq> READY \<and> state \<noteq> FAILED, ''a retry outcome state must be READY or FAILED''),
      (state = READY \<and> available_at = None, ''a READY retry outcome requires available_at''),
      (state = FAILED \<and> available_at \<noteq> None, ''a FAILED retry outcome must not carry available_at'')]
     \<lparr>ro_state = state, ro_available_at = available_at\<rparr>"

record retry_policy =
  rt_max_attempts :: int
  rt_backoff :: timedelta

definition retry_policy_post_init :: "retry_policy \<Rightarrow> retry_policy result" where
  "retry_policy_post_init p = checks
     [(rt_max_attempts p < 1, ''max_attempts must be a positive integer''),
      (rt_backoff p \<le> 0, ''backoff must be greater than zero'')] p"

definition decide :: "retry_policy \<Rightarrow> int \<Rightarrow> failure_category \<Rightarrow> stamp \<Rightarrow> retry_outcome result" where
  "decide p attempt_count category now =
     rbind (checks [(attempt_count < 1, ''attempt_count must be a positive integer'')] ()) (\<lambda>_.
     rbind (as_utc now ''now'') (\<lambda>current.
       if category = PERMANENT then retry_outcome FAILED None
       else if rt_max_attempts p \<le> attempt_count then retry_outcome FAILED None
       else rbind (timedelta_scale (rt_backoff p) (2 ^ nat (attempt_count - 1))) (\<lambda>delay.
         rbind (dt_add current delay) (\<lambda>available. retry_outcome READY (Some available)))))"

section \<open>Facts\<close>

lemma retry_outcome_Inr:
  "retry_outcome state at_time = Inr r \<longleftrightarrow> r = \<lparr>ro_state = state, ro_available_at = at_time\<rparr> \<and>
     (state = READY \<and> at_time \<noteq> None \<or> state = FAILED \<and> at_time = None)"
  by (cases state) (auto simp: retry_outcome_def checks_Inr_iff)

lemma decide_permanent:
  "1 \<le> n \<Longrightarrow> valid_datetime t \<Longrightarrow> decide p n PERMANENT (utc_stamp t) = Inr \<lparr>ro_state = FAILED, ro_available_at = None\<rparr>"
  by (simp add: decide_def checks.simps retry_outcome_def)

lemma decide_exhausted:
  "1 \<le> n \<Longrightarrow> rt_max_attempts p \<le> n \<Longrightarrow> valid_datetime t \<Longrightarrow>
   decide p n c (utc_stamp t) = Inr \<lparr>ro_state = FAILED, ro_available_at = None\<rparr>"
  by (simp add: decide_def checks.simps retry_outcome_def)

lemma decide_retry:
  assumes "decide p n c (utc_stamp t) = Inr r" and "ro_state r = READY" and "valid_datetime t"
  shows "c = TRANSIENT \<and> 1 \<le> n \<and> n < rt_max_attempts p \<and> ro_available_at r = Some (t + rt_backoff p * 2 ^ nat (n - 1))"
  using assms
  by (cases c) (auto simp: decide_def rbind_Inr_iff checks_Inr_iff retry_outcome_Inr timedelta_scale_def dt_add_Inr split: if_splits)

lemma decide_cases:
  assumes "decide p n c (utc_stamp t) = Inr r"
  shows "1 \<le> n \<and> (ro_state r = FAILED \<and> ro_available_at r = None \<or> ro_state r = READY \<and> (\<exists>a. ro_available_at r = Some a))"
  using assms by (auto simp: decide_def rbind_Inr_iff checks_Inr_iff retry_outcome_Inr split: if_splits)

end
