(* ===== verification/Database.thy ===== *)
theory Database
  imports Workspaces Jobs
begin

text \<open>
  The tables of \<open>workspaces/models.py\<close> and \<open>jobs/models.py\<close> as lists of rows, with their check and
  uniqueness constraints: writing a row that violates one raises \<open>IntegrityError\<close>. The identifiers
  of \<open>uuid.uuid4\<close> and the tokens of \<open>secrets.token_hex\<close> come from a supply that is a parameter of
  the model. A foreign key deletes with its parent (\<open>on_delete=CASCADE\<close>).
\<close>

section \<open>Rows\<close>

datatype cleanup_reason = EXPIRED_WORKSPACE | DELETED_WORKSPACE

record workspace_row =
  wr_id :: string
  wr_session_digest :: string
  wr_state :: workspace_state
  wr_created_at :: datetime
  wr_expires_at :: datetime
  wr_revoked_at :: "datetime option"
  wr_deleted_at :: "datetime option"
  wr_retained_bytes :: int
  wr_book_count :: int
  wr_active_job_count :: int

text \<open>\<open>PositiveIntegerField\<close> and \<open>BigIntegerField\<close> are 32 and 64 bits wide.\<close>

definition workspace_row_valid :: "workspace_row \<Rightarrow> bool" where
  "workspace_row_valid w \<longleftrightarrow>
     wr_expires_at w = wr_created_at w + 7 * us_per_day \<and>
     0 \<le> wr_retained_bytes w \<and> wr_retained_bytes w < 2 ^ 63 \<and>
     0 \<le> wr_book_count w \<and> wr_book_count w < 2 ^ 31 \<and>
     0 \<le> wr_active_job_count w \<and> wr_active_job_count w < 2 ^ 31 \<and>
     (case wr_state w of
        ACTIVE \<Rightarrow> wr_revoked_at w = None \<and> wr_deleted_at w = None
      | REVOKED \<Rightarrow> wr_revoked_at w \<noteq> None \<and> wr_deleted_at w = None
      | DELETED \<Rightarrow> wr_revoked_at w \<noteq> None \<and> wr_deleted_at w \<noteq> None)"

record cleanup_row =
  cr_workspace :: string
  cr_reason :: cleanup_reason
  cr_requested_at :: datetime
  cr_processed_at :: "datetime option"

datatype job_target = ImportAttempt string | Run string | CleanupRequest string

record work_item =
  wi_id :: string
  wi_workspace :: string
  wi_kind :: job_kind
  wi_target :: job_target
  wi_state :: job_state
  wi_available_at :: datetime
  wi_lease_until :: "datetime option"
  wi_current_token :: "string option"
  wi_attempt_count :: int
  wi_max_attempts :: int
  wi_created_at :: datetime
  wi_updated_at :: datetime

definition target_shape :: "job_kind \<Rightarrow> job_target \<Rightarrow> bool" where
  "target_shape kind target \<longleftrightarrow>
     (case target of ImportAttempt _ \<Rightarrow> kind = IMPORT_VALIDATION | Run _ \<Rightarrow> kind = RECONCILIATION_RUN
      | CleanupRequest _ \<Rightarrow> kind = WORKSPACE_CLEANUP)"

definition work_item_valid :: "work_item \<Rightarrow> bool" where
  "work_item_valid i \<longleftrightarrow>
     target_shape (wi_kind i) (wi_target i) \<and> 1 \<le> wi_max_attempts i \<and> wi_max_attempts i < 2 ^ 31 \<and>
     0 \<le> wi_attempt_count i \<and> wi_attempt_count i < 2 ^ 31 \<and>
     (if wi_state i = LEASED then wi_lease_until i \<noteq> None \<and> wi_current_token i \<noteq> None
      else wi_lease_until i = None \<and> wi_current_token i = None)"

datatype attempt_outcome = SUCCEEDED_ATTEMPT | FAILED_ATTEMPT | EXPIRED_ATTEMPT

record job_attempt =
  ja_workspace :: string
  ja_work_item :: string
  ja_token :: string
  ja_leased_at :: datetime
  ja_lease_until :: datetime
  ja_completed_at :: "datetime option"
  ja_outcome :: "attempt_outcome option"
  ja_failure_category :: "failure_category option"

definition job_attempt_valid :: "job_attempt \<Rightarrow> bool" where
  "job_attempt_valid a \<longleftrightarrow>
     ja_leased_at a < ja_lease_until a \<and>
     (case ja_outcome a of
        None \<Rightarrow> ja_completed_at a = None \<and> ja_failure_category a = None
      | Some FAILED_ATTEMPT \<Rightarrow> ja_completed_at a \<noteq> None \<and> ja_failure_category a \<noteq> None
      | Some _ \<Rightarrow> ja_completed_at a \<noteq> None \<and> ja_failure_category a = None)"

text \<open>Published artifacts of the ingestion tables, as far as a workspace purge touches them.\<close>

record file_artifact =
  fa_workspace :: string
  fa_storage_key :: string

record db =
  db_workspaces :: "workspace_row list"
  db_cleanups :: "cleanup_row list"
  db_items :: "work_item list"
  db_attempts :: "job_attempt list"
  db_artifacts :: "file_artifact list"
  db_store :: "string list"
  db_serial :: nat

record settings =
  st_uuid :: "nat \<Rightarrow> string"
  st_token :: "nat \<Rightarrow> string"
  st_retained_bytes_limit :: int
  st_book_limit :: int
  st_active_job_limit :: int
  st_cleanup_max_attempts :: int

section \<open>Reading and writing rows\<close>

definition workspace_of :: "db \<Rightarrow> string \<Rightarrow> workspace_row option" where
  "workspace_of s i = find (\<lambda>w. wr_id w = i) (db_workspaces s)"

definition cleanup_of :: "db \<Rightarrow> string \<Rightarrow> cleanup_row option" where
  "cleanup_of s i = find (\<lambda>c. cr_workspace c = i) (db_cleanups s)"

definition item_of :: "db \<Rightarrow> string \<Rightarrow> work_item option" where
  "item_of s i = find (\<lambda>x. wi_id x = i) (db_items s)"

definition item_for :: "db \<Rightarrow> job_target \<Rightarrow> work_item option" where
  "item_for s t = find (\<lambda>x. wi_target x = t) (db_items s)"

definition attempt_of :: "db \<Rightarrow> string \<Rightarrow> job_attempt option" where
  "attempt_of s t = find (\<lambda>a. ja_token a = t) (db_attempts s)"

definition replace_row :: "('r \<Rightarrow> string) \<Rightarrow> 'r \<Rightarrow> 'r list \<Rightarrow> 'r list" where
  "replace_row key r rows = map (\<lambda>x. if key x = key r then r else x) rows"

definition fresh :: "(settings \<Rightarrow> nat \<Rightarrow> string) \<Rightarrow> settings \<Rightarrow> (db, string) op" where
  "fresh f st = sbind (gets (\<lambda>s. f st (db_serial s)))
     (\<lambda>i. sbind (modify (\<lambda>s. s\<lparr>db_serial := db_serial s + 1\<rparr>)) (\<lambda>_. ok i))"

definition save_workspace :: "workspace_row \<Rightarrow> (db, unit) op" where
  "save_workspace w = sbind (raise_if (\<not> workspace_row_valid w) (IntegrityError ''workspace''))
     (\<lambda>_. modify (\<lambda>s. s\<lparr>db_workspaces := replace_row wr_id w (db_workspaces s)\<rparr>))"

definition create_workspace :: "workspace_row \<Rightarrow> (db, unit) op" where
  "create_workspace w =
     sbind (gets (\<lambda>s. \<exists>x \<in> set (db_workspaces s). wr_id x = wr_id w \<or> wr_session_digest x = wr_session_digest w))
     (\<lambda>duplicate. sbind (raise_if (duplicate \<or> \<not> workspace_row_valid w \<or> 64 < length (wr_session_digest w))
        (IntegrityError ''workspace''))
     (\<lambda>_. modify (\<lambda>s. s\<lparr>db_workspaces := db_workspaces s @ [w]\<rparr>)))"

definition save_item :: "work_item \<Rightarrow> (db, unit) op" where
  "save_item i = sbind (raise_if (\<not> work_item_valid i) (IntegrityError ''work_item''))
     (\<lambda>_. modify (\<lambda>s. s\<lparr>db_items := replace_row wi_id i (db_items s)\<rparr>))"

definition create_item :: "work_item \<Rightarrow> (db, unit) op" where
  "create_item i =
     sbind (gets (\<lambda>s. \<exists>x \<in> set (db_items s). wi_id x = wi_id i \<or> wi_target x = wi_target i))
     (\<lambda>duplicate. sbind (raise_if (duplicate \<or> \<not> work_item_valid i) (IntegrityError ''work_item''))
     (\<lambda>_. modify (\<lambda>s. s\<lparr>db_items := db_items s @ [i]\<rparr>)))"

definition create_attempt :: "job_attempt \<Rightarrow> (db, unit) op" where
  "create_attempt a =
     sbind (gets (\<lambda>s. \<exists>x \<in> set (db_attempts s). ja_token x = ja_token a))
     (\<lambda>duplicate. sbind (raise_if (duplicate \<or> \<not> job_attempt_valid a \<or> 64 < length (ja_token a))
        (IntegrityError ''job_attempt''))
     (\<lambda>_. modify (\<lambda>s. s\<lparr>db_attempts := db_attempts s @ [a]\<rparr>)))"

text \<open>\<open>JobAttempt.objects.filter(token=...).update(...)\<close>: no row, no effect.\<close>

definition update_attempt :: "string \<Rightarrow> attempt_outcome \<Rightarrow> datetime \<Rightarrow> failure_category option \<Rightarrow> (db, unit) op" where
  "update_attempt token outcome now failure =
     sbind (gets (\<lambda>s. attempt_of s token))
     (\<lambda>row. case row of
        None \<Rightarrow> ok ()
      | Some a \<Rightarrow>
          let b = a\<lparr>ja_outcome := Some outcome, ja_completed_at := Some now,
                ja_failure_category := (case failure of None \<Rightarrow> ja_failure_category a | Some c \<Rightarrow> Some c)\<rparr>
          in sbind (raise_if (\<not> job_attempt_valid b) (IntegrityError ''job_attempt''))
             (\<lambda>_. modify (\<lambda>s. s\<lparr>db_attempts := replace_row ja_token b (db_attempts s)\<rparr>)))"

text \<open>\<open>workspace.delete()\<close> with the rows that cascade.\<close>

definition delete_workspace :: "string \<Rightarrow> db \<Rightarrow> db" where
  "delete_workspace i s = s\<lparr>
     db_workspaces := filter (\<lambda>w. wr_id w \<noteq> i) (db_workspaces s),
     db_cleanups := filter (\<lambda>c. cr_workspace c \<noteq> i) (db_cleanups s),
     db_items := filter (\<lambda>x. wi_workspace x \<noteq> i \<and> wi_target x \<noteq> CleanupRequest i) (db_items s),
     db_attempts := filter (\<lambda>a. ja_workspace a \<noteq> i \<and>
        (\<forall>x \<in> set (db_items s). wi_id x = ja_work_item a \<longrightarrow> wi_workspace x \<noteq> i \<and> wi_target x \<noteq> CleanupRequest i))
        (db_attempts s),
     db_artifacts := filter (\<lambda>a. fa_workspace a \<noteq> i) (db_artifacts s)\<rparr>"

section \<open>Facts about rows\<close>

lemma find_replace_row:
  "find (\<lambda>x. key x = k) (replace_row key r rows) =
     (if k = key r \<and> (\<exists>x \<in> set rows. key x = k) then Some r else find (\<lambda>x. key x = k) rows)"
  by (induction rows) (auto simp: replace_row_def)

lemma keys_replace_row [simp]: "map key (replace_row key r rows) = map key rows"
  by (auto simp: replace_row_def)

lemma set_replace_row: "x \<in> set (replace_row key r rows) \<Longrightarrow> x = r \<or> x \<in> set rows"
  by (auto simp: replace_row_def)

lemma replace_row_iff:
  "x \<in> set (replace_row key r rows) \<longleftrightarrow> x = r \<and> (\<exists>y \<in> set rows. key y = key r) \<or> x \<in> set rows \<and> key x \<noteq> key r"
  by (auto simp: replace_row_def)

lemma find_key_iff: "distinct (map key rows) \<Longrightarrow> find (\<lambda>x. key x = k) rows = Some r \<longleftrightarrow> r \<in> set rows \<and> key r = k"
  by (induction rows) (auto split: if_splits)

lemma find_Some_in: "find Q rows = Some r \<Longrightarrow> r \<in> set rows \<and> Q r"
  by (induction rows) (auto split: if_splits)

lemma find_append: "find Q (xs @ ys) = (case find Q xs of None \<Rightarrow> find Q ys | Some x \<Rightarrow> Some x)"
  by (induction xs) auto

end
