(* ===== verification/WorkspaceOps.thy ===== *)
theory WorkspaceOps
  imports Database
begin

text \<open>
  The services of \<open>workspaces/\<close> on the tables: lifecycle (\<open>lifecycle.py\<close>), quotas
  (\<open>quotas.py\<close>), the repository, the guard, the session resolver and the purge of a revoked
  workspace (\<open>cleanup.py\<close>). \<open>clock\<close> is what \<open>timezone.now()\<close> returns when the service reads it.
\<close>

section \<open>Lifecycle (\<open>workspaces/lifecycle.py\<close>)\<close>

definition locked_workspace :: "string \<Rightarrow> (db, workspace_row) op" where
  "locked_workspace i = sbind (gets (\<lambda>s. workspace_of s i))
     (\<lambda>row. case row of None \<Rightarrow> raise WorkspaceUnavailable | Some w \<Rightarrow> ok w)"

definition revoked_row :: "workspace_state \<Rightarrow> datetime \<Rightarrow> workspace_row \<Rightarrow> workspace_row" where
  "revoked_row final revoked_at w =
     (if final = DELETED
      then w\<lparr>wr_state := DELETED,
             wr_revoked_at := (if wr_revoked_at w = None then Some revoked_at else wr_revoked_at w),
             wr_deleted_at := (if wr_deleted_at w = None then Some revoked_at else wr_deleted_at w)\<rparr>
      else if wr_state w = ACTIVE then w\<lparr>wr_state := REVOKED, wr_revoked_at := Some revoked_at\<rparr>
      else w)"

text \<open>\<open>WorkspaceCleanupRequest.objects.get_or_create\<close> and the upgrade of its reason.\<close>

definition request_cleanup :: "string \<Rightarrow> cleanup_reason \<Rightarrow> datetime \<Rightarrow> (db, unit) op" where
  "request_cleanup i reason revoked_at =
     sbind (gets (\<lambda>s. cleanup_of s i))
     (\<lambda>row. case row of
        None \<Rightarrow> modify (\<lambda>s. s\<lparr>db_cleanups := db_cleanups s @ [\<lparr>cr_workspace = i, cr_reason = reason,
                  cr_requested_at = revoked_at, cr_processed_at = None\<rparr>]\<rparr>)
      | Some c \<Rightarrow> if reason = DELETED_WORKSPACE
          then modify (\<lambda>s. s\<lparr>db_cleanups := replace_row cr_workspace (c\<lparr>cr_reason := reason\<rparr>) (db_cleanups s)\<rparr>)
          else ok ())"

definition new_item :: "string \<Rightarrow> string \<Rightarrow> job_kind \<Rightarrow> job_target \<Rightarrow> int \<Rightarrow> datetime \<Rightarrow> work_item" where
  "new_item i workspace kind target max_attempts now =
     \<lparr>wi_id = i, wi_workspace = workspace, wi_kind = kind, wi_target = target, wi_state = READY,
      wi_available_at = now, wi_lease_until = None, wi_current_token = None, wi_attempt_count = 0,
      wi_max_attempts = max_attempts, wi_created_at = now, wi_updated_at = now\<rparr>"

definition request_cleanup_job :: "settings \<Rightarrow> string \<Rightarrow> datetime \<Rightarrow> (db, unit) op" where
  "request_cleanup_job st i revoked_at =
     sbind (gets (\<lambda>s. item_for s (CleanupRequest i)))
     (\<lambda>row. case row of
        Some _ \<Rightarrow> ok ()
      | None \<Rightarrow> sbind (fresh st_uuid st)
          (\<lambda>new_id. create_item (new_item new_id i WORKSPACE_CLEANUP (CleanupRequest i)
              (st_cleanup_max_attempts st) revoked_at)))"

definition revoke :: "settings \<Rightarrow> string \<Rightarrow> stamp \<Rightarrow> workspace_state \<Rightarrow> cleanup_reason \<Rightarrow> (db, workspace_row) op" where
  "revoke st i now final reason =
     (case now of
        Naive _ \<Rightarrow> raise ValueError
      | Aware local offset \<Rightarrow>
          sbind (lift_result (as_utc now ''now''))
          (\<lambda>revoked_at. atomic
            (sbind (locked_workspace i)
            (\<lambda>w. let w' = revoked_row final revoked_at w
               in sbind (if final = DELETED \<or> wr_state w = ACTIVE then save_workspace w' else ok ())
               (\<lambda>_. sbind (request_cleanup i reason revoked_at)
               (\<lambda>_. sbind (request_cleanup_job st i revoked_at)
               (\<lambda>_. ok w')))))))"

definition expire :: "settings \<Rightarrow> string \<Rightarrow> stamp \<Rightarrow> (db, workspace_row) op" where
  "expire st i now = revoke st i now REVOKED EXPIRED_WORKSPACE"

definition delete_requested :: "settings \<Rightarrow> string \<Rightarrow> stamp \<Rightarrow> (db, workspace_row) op" where
  "delete_requested st i now = revoke st i now DELETED DELETED_WORKSPACE"

definition require_active :: "settings \<Rightarrow> workspace_row \<Rightarrow> stamp \<Rightarrow> (db, unit) op" where
  "require_active st w now =
     sbind (lift_result (evaluate (wr_state w) (utc_stamp (wr_expires_at w)) now))
     (\<lambda>r. sbind (if lr_requires_revocation r then sbind (expire st (wr_id w) now) (\<lambda>_. ok ()) else ok ())
     (\<lambda>_. raise_if (\<not> lr_access_allowed r) WorkspaceUnavailable))"

section \<open>Quotas (\<open>workspaces/quotas.py\<close>)\<close>

definition configured_limits :: "settings \<Rightarrow> quota_amounts result" where
  "configured_limits st = quota_amounts_post_init
     \<lparr>qa_retained_bytes = st_retained_bytes_limit st, qa_books = st_book_limit st,
      qa_active_jobs = st_active_job_limit st\<rparr>"

definition usage_of :: "workspace_row \<Rightarrow> quota_amounts result" where
  "usage_of w = quota_amounts_post_init
     \<lparr>qa_retained_bytes = wr_retained_bytes w, qa_books = wr_book_count w, qa_active_jobs = wr_active_job_count w\<rparr>"

definition with_usage :: "workspace_row \<Rightarrow> quota_amounts \<Rightarrow> workspace_row" where
  "with_usage w q = w\<lparr>wr_retained_bytes := qa_retained_bytes q, wr_book_count := qa_books q,
     wr_active_job_count := qa_active_jobs q\<rparr>"

definition reserve :: "settings \<Rightarrow> datetime \<Rightarrow> string \<Rightarrow> quota_amounts \<Rightarrow> (db, quota_amounts) op" where
  "reserve st clock i requested =
     sbind (lift_result (configured_limits st)) (\<lambda>limits. atomic
       (sbind (locked_workspace i)
       (\<lambda>w. sbind (require_active st w (utc_stamp clock))
       (\<lambda>_. sbind (lift_result (rbind (usage_of w) (\<lambda>usage. quota_reserve limits usage requested)))
       (\<lambda>resulting. sbind (save_workspace (with_usage w resulting))
       (\<lambda>_. ok resulting))))))"

definition quota_minus :: "quota_amounts \<Rightarrow> quota_amounts \<Rightarrow> quota_amounts" where
  "quota_minus a b = \<lparr>qa_retained_bytes = qa_retained_bytes a - qa_retained_bytes b,
     qa_books = qa_books a - qa_books b, qa_active_jobs = qa_active_jobs a - qa_active_jobs b\<rparr>"

definition release :: "settings \<Rightarrow> datetime \<Rightarrow> string \<Rightarrow> quota_amounts \<Rightarrow> (db, quota_amounts) op" where
  "release st clock i released =
     sbind (lift_result (configured_limits st)) (\<lambda>_. atomic
       (sbind (locked_workspace i)
       (\<lambda>w. sbind (require_active st w (utc_stamp clock))
       (\<lambda>_. sbind (lift_result (usage_of w))
       (\<lambda>usage. let values = quota_minus usage released
          in sbind (raise_if (qa_retained_bytes values < 0 \<or> qa_books values < 0 \<or> qa_active_jobs values < 0)
               (QuotaReleaseConflict ''quota release exceeds current usage''))
          (\<lambda>_. sbind (lift_result (quota_amounts_post_init values))
          (\<lambda>resulting. sbind (save_workspace (with_usage w resulting))
          (\<lambda>_. ok resulting))))))))"

section \<open>Repository, guard and sessions\<close>

definition repository_create :: "settings \<Rightarrow> string \<Rightarrow> stamp \<Rightarrow> (db, workspace_row) op" where
  "repository_create st digest created_at =
     sbind (lift_result (policy_expires_at default_expiry created_at))
     (\<lambda>expires. sbind (lift_result (as_utc created_at ''created_at''))
     (\<lambda>created. atomic (sbind (fresh st_uuid st)
     (\<lambda>i. let w = \<lparr>wr_id = i, wr_session_digest = digest, wr_state = ACTIVE, wr_created_at = created,
            wr_expires_at = expires, wr_revoked_at = None, wr_deleted_at = None, wr_retained_bytes = 0,
            wr_book_count = 0, wr_active_job_count = 0\<rparr>
          in sbind (create_workspace w) (\<lambda>_. ok w)))))"

definition find_by_session_digest :: "db \<Rightarrow> string \<Rightarrow> workspace_row option" where
  "find_by_session_digest s digest = find (\<lambda>w. wr_session_digest w = digest) (db_workspaces s)"

definition boundary_require_active :: "settings \<Rightarrow> string \<Rightarrow> stamp \<Rightarrow> (db, workspace_access) op" where
  "boundary_require_active st i now =
     sbind (locked_workspace i)
     (\<lambda>w. sbind (require_active st w now)
     (\<lambda>_. lift_result (workspace_access i (utc_stamp (wr_expires_at w)))))"

definition authorize :: "settings \<Rightarrow> datetime \<Rightarrow> workspace_row \<Rightarrow> (db, workspace_access \<times> workspace_row) op" where
  "authorize st clock w =
     sbind (require_active st w (utc_stamp clock))
     (\<lambda>_. sbind (lift_result (workspace_access (wr_id w) (utc_stamp (wr_expires_at w))))
     (\<lambda>access. ok (access, w)))"

text \<open>
  The session is its key, if it has one; \<open>cycled\<close> is the key the session backend hands out on
  \<open>cycle_key()\<close>, and \<open>digest\<close> the keyed hash of Django.
\<close>

definition resolve :: "settings \<Rightarrow> (string \<Rightarrow> string) \<Rightarrow> string option \<Rightarrow> string option \<Rightarrow> datetime \<Rightarrow> datetime \<Rightarrow>
    (db, workspace_access \<times> workspace_row) op" where
  "resolve st digest key cycled now clock =
     sbind (gets (\<lambda>s. case key of None \<Rightarrow> None | Some k \<Rightarrow> find_by_session_digest s (digest k)))
     (\<lambda>existing. case existing of
        Some w \<Rightarrow> authorize st clock w
      | None \<Rightarrow> (case cycled of
          None \<Rightarrow> raise (RuntimeError ''Session backend did not create a session key'')
        | Some k \<Rightarrow> (\<lambda>s. case repository_create st (digest k) (utc_stamp now) s of
              (Inr w, t) \<Rightarrow> authorize st clock w t
            | (Inl (IntegrityError e), t) \<Rightarrow>
                (case find_by_session_digest t (digest k) of
                   None \<Rightarrow> (Inl (IntegrityError e), t)
                 | Some w \<Rightarrow> authorize st clock w t)
            | (Inl e, t) \<Rightarrow> (Inl e, t))))"

section \<open>Cleanup (\<open>workspaces/cleanup.py\<close>)\<close>

text \<open>The locked part of \<open>purge_workspace\<close>: whether a workspace was deleted.\<close>

definition purge_rows :: "string \<Rightarrow> string option \<Rightarrow> (db, bool) op" where
  "purge_rows i attempt_token = atomic
     (sbind (gets (\<lambda>s. workspace_of s i))
     (\<lambda>row. case row of
        None \<Rightarrow> ok False
      | Some w \<Rightarrow>
          sbind (raise_if (wr_state w \<noteq> REVOKED \<and> wr_state w \<noteq> DELETED)
            (CleanupStateConflict ''workspace must be revoked or deleted before cleanup''))
          (\<lambda>_. sbind (case attempt_token of
              None \<Rightarrow> ok ()
            | Some token \<Rightarrow> sbind (gets (\<lambda>s. item_for s (CleanupRequest i)))
                (\<lambda>item. case item of
                   None \<Rightarrow> raise (LookupError ''WorkItem matching query does not exist.'')
                 | Some x \<Rightarrow> raise_if (wi_current_token x \<noteq> Some token)
                     (CleanupStateConflict (''a newer attempt has reclaimed this cleanup; '' @
                        ''the fenced attempt cannot purge it''))))
          (\<lambda>_. sbind (modify (delete_workspace i)) (\<lambda>_. ok True)))))"

definition purge_workspace :: "string \<Rightarrow> string option \<Rightarrow> (db, bool) op" where
  "purge_workspace i attempt_token =
     sbind (gets (\<lambda>s. workspace_of s i))
     (\<lambda>row. if row = None then ok False
       else sbind (gets (\<lambda>s. map fa_storage_key (filter (\<lambda>a. fa_workspace a = i) (db_artifacts s))))
       (\<lambda>keys. sbind (purge_rows i attempt_token)
       (\<lambda>purged. if purged
          then sbind (modify (\<lambda>s. s\<lparr>db_store := filter (\<lambda>k. k \<notin> set keys) (db_store s)\<rparr>)) (\<lambda>_. ok True)
          else ok False)))"

definition execute_claimed_cleanup :: "work_item \<Rightarrow> string \<Rightarrow> (db, unit) op" where
  "execute_claimed_cleanup item token =
     (case wi_target item of
        CleanupRequest i \<Rightarrow> (\<lambda>s. case purge_workspace i (Some token) s of
            (Inl (CleanupStateConflict e), t) \<Rightarrow> (Inl (TransientJobFailure e), t)
          | (Inl e, t) \<Rightarrow> (Inl e, t)
          | (Inr _, t) \<Rightarrow> (Inr (), t))
      | _ \<Rightarrow> raise (LookupError ''work item has no cleanup request target''))"

end
