(* ===== verification/JobOps.thy ===== *)
theory JobOps
  imports WorkspaceOps
begin

text \<open>
  Claiming, completing and failing leased work (\<open>jobs/services.py\<close>). Which rows other transactions
  hold (\<open>skip_locked\<close>) and how the database orders rows with equal \<open>available_at\<close> are parameters;
  so is the executor of a claimed item. Structured logging is left out.
\<close>

definition one_active_job :: quota_amounts where
  "one_active_job = \<lparr>qa_retained_bytes = 0, qa_books = 0, qa_active_jobs = 1\<rparr>"

text \<open>The filter \<open>_claimable(now)\<close> of the claim query.\<close>

definition claimable_row :: "datetime \<Rightarrow> work_item \<Rightarrow> bool" where
  "claimable_row now i \<longleftrightarrow>
     wi_state i = READY \<and> wi_available_at i \<le> now \<or>
     wi_state i = LEASED \<and> (case wi_lease_until i of None \<Rightarrow> False | Some l \<Rightarrow> l < now)"

definition enqueue :: "settings \<Rightarrow> datetime \<Rightarrow> string \<Rightarrow> job_kind \<Rightarrow> int \<Rightarrow> datetime \<Rightarrow> job_target \<Rightarrow> (db, work_item) op" where
  "enqueue st clock workspace kind max_attempts now target =
     sbind (gets (\<lambda>s. item_for s target))
     (\<lambda>existing. case existing of
        Some i \<Rightarrow> ok i
      | None \<Rightarrow> sbind (reserve st clock workspace one_active_job)
          (\<lambda>_. sbind (fresh st_uuid st)
          (\<lambda>new_id. let i = new_item new_id workspace kind target max_attempts now
             in sbind (create_item i) (\<lambda>_. ok i))))"

section \<open>Claims\<close>

definition leased_row :: "string \<Rightarrow> datetime \<Rightarrow> datetime \<Rightarrow> work_item \<Rightarrow> work_item" where
  "leased_row token now lease_until i = i\<lparr>wi_state := LEASED, wi_lease_until := Some lease_until,
     wi_current_token := Some token, wi_attempt_count := wi_attempt_count i + 1, wi_updated_at := now\<rparr>"

definition new_attempt :: "work_item \<Rightarrow> string \<Rightarrow> datetime \<Rightarrow> datetime \<Rightarrow> job_attempt" where
  "new_attempt i token now lease_until =
     \<lparr>ja_workspace = wi_workspace i, ja_work_item = wi_id i, ja_token = token, ja_leased_at = now,
      ja_lease_until = lease_until, ja_completed_at = None, ja_outcome = None, ja_failure_category = None\<rparr>"

definition claim_row :: "settings \<Rightarrow> datetime \<Rightarrow> timedelta \<Rightarrow> work_item \<Rightarrow> (db, work_item \<times> string) op" where
  "claim_row st now lease i =
     sbind (fresh st_token st)
     (\<lambda>value. sbind (lift_result (lease_token value))
     (\<lambda>token. sbind (lift_result (dt_add now lease))
     (\<lambda>lease_until. sbind (save_item (leased_row token now lease_until i))
     (\<lambda>_. sbind (create_attempt (new_attempt i token now lease_until))
     (\<lambda>_. ok (leased_row token now lease_until i, token))))))"

definition claim_candidates :: "(string \<Rightarrow> nat) \<Rightarrow> string set \<Rightarrow> job_kind \<Rightarrow> datetime \<Rightarrow> nat \<Rightarrow> db \<Rightarrow> work_item list" where
  "claim_candidates rank locked kind now batch_size s =
     take batch_size (sort_key (\<lambda>i. (wi_available_at i, rank (wi_id i)))
       (filter (\<lambda>i. wi_id i \<notin> locked \<and> wi_kind i = kind \<and> claimable_row now i) (db_items s)))"

definition claim_batch :: "settings \<Rightarrow> (string \<Rightarrow> nat) \<Rightarrow> string set \<Rightarrow> job_kind \<Rightarrow> datetime \<Rightarrow> timedelta \<Rightarrow> nat \<Rightarrow>
    (db, (work_item \<times> string) list) op" where
  "claim_batch st rank locked kind now lease batch_size = atomic
     (sbind (gets (claim_candidates rank locked kind now batch_size))
     (\<lambda>candidates. smap (claim_row st now lease) candidates))"

definition claim_one :: "settings \<Rightarrow> string set \<Rightarrow> string \<Rightarrow> datetime \<Rightarrow> timedelta \<Rightarrow> (db, (work_item \<times> string) option) op" where
  "claim_one st locked i now lease = atomic
     (sbind (gets (\<lambda>s. find (\<lambda>x. wi_id x = i \<and> wi_id x \<notin> locked \<and> claimable_row now x) (db_items s)))
     (\<lambda>candidate. case candidate of
        None \<Rightarrow> ok None
      | Some x \<Rightarrow> sbind (claim_row st now lease x) (\<lambda>work. ok (Some work))))"

section \<open>Completion\<close>

definition released_row :: "job_state \<Rightarrow> datetime \<Rightarrow> datetime \<Rightarrow> work_item \<Rightarrow> work_item" where
  "released_row state available_at now i = i\<lparr>wi_state := state, wi_available_at := available_at,
     wi_lease_until := None, wi_current_token := None, wi_updated_at := now\<rparr>"

text \<open>The attempt of a token with its work item, locked.\<close>

definition claimed_item :: "string \<Rightarrow> (db, work_item) op" where
  "claimed_item token =
     sbind (gets (\<lambda>s. attempt_of s token))
     (\<lambda>row. case row of
        None \<Rightarrow> raise WorkItemUnavailable
      | Some a \<Rightarrow> sbind (gets (\<lambda>s. item_of s (ja_work_item a)))
          (\<lambda>item. case item of
             None \<Rightarrow> raise (LookupError ''WorkItem matching query does not exist.'')
           | Some i \<Rightarrow> ok i))"

definition mark_succeeded :: "settings \<Rightarrow> datetime \<Rightarrow> string \<Rightarrow> datetime \<Rightarrow> (db, bool) op" where
  "mark_succeeded st clock token now = atomic
     (sbind (claimed_item token)
     (\<lambda>i. if wi_current_token i \<noteq> Some token
        then sbind (update_attempt token EXPIRED_ATTEMPT now None) (\<lambda>_. ok False)
        else sbind (save_item (released_row SUCCEEDED (wi_available_at i) now i))
          (\<lambda>_. sbind (update_attempt token SUCCEEDED_ATTEMPT now None)
          (\<lambda>_. sbind (release st clock (wi_workspace i) one_active_job)
          (\<lambda>_. ok True)))))"

definition mark_failed :: "settings \<Rightarrow> datetime \<Rightarrow> string \<Rightarrow> retry_outcome \<Rightarrow> failure_category \<Rightarrow> datetime \<Rightarrow> (db, bool) op" where
  "mark_failed st clock token outcome category now = atomic
     (sbind (claimed_item token)
     (\<lambda>i. if wi_current_token i \<noteq> Some token
        then sbind (update_attempt token EXPIRED_ATTEMPT now None) (\<lambda>_. ok False)
        else
          let next_available = (if ro_state outcome = READY
                then (case ro_available_at outcome of None \<Rightarrow> wi_available_at i | Some a \<Rightarrow> a)
                else wi_available_at i)
          in sbind (save_item (released_row (ro_state outcome) next_available now i))
             (\<lambda>_. sbind (update_attempt token FAILED_ATTEMPT now (Some category))
             (\<lambda>_. sbind (if ro_state outcome = FAILED
                   then sbind (release st clock (wi_workspace i) one_active_job) (\<lambda>_. ok ()) else ok ())
             (\<lambda>_. ok True)))))"

section \<open>Execution\<close>

record execution_record =
  xr_work_item :: work_item
  xr_succeeded :: bool

text \<open>The two \<open>except\<close> branches: decide, record the failure, go on with the next item.\<close>

definition record_failure :: "settings \<Rightarrow> datetime \<Rightarrow> retry_policy \<Rightarrow> datetime \<Rightarrow> work_item \<times> string \<Rightarrow> failure_category \<Rightarrow>
    (db, execution_record) op" where
  "record_failure st clock policy now work category =
     sbind (lift_result (decide policy (wi_attempt_count (fst work)) category (utc_stamp now)))
     (\<lambda>outcome. sbind (mark_failed st clock (snd work) outcome category now)
     (\<lambda>_. ok \<lparr>xr_work_item = fst work, xr_succeeded = False\<rparr>))"

definition record_success :: "settings \<Rightarrow> datetime \<Rightarrow> datetime \<Rightarrow> work_item \<times> string \<Rightarrow> (db, execution_record) op" where
  "record_success st clock now work = (\<lambda>s.
     case mark_succeeded st clock (snd work) now s of
       (Inl WorkItemUnavailable, t) \<Rightarrow> (Inr \<lparr>xr_work_item = fst work, xr_succeeded = True\<rparr>, t)
     | (Inl e, t) \<Rightarrow> (Inl e, t)
     | (Inr _, t) \<Rightarrow> (Inr \<lparr>xr_work_item = fst work, xr_succeeded = True\<rparr>, t))"

definition execute_one :: "settings \<Rightarrow> (string \<Rightarrow> datetime) \<Rightarrow> retry_policy \<Rightarrow> (work_item \<Rightarrow> string \<Rightarrow> (db, unit) op) \<Rightarrow>
    datetime \<Rightarrow> work_item \<times> string \<Rightarrow> (db, execution_record) op" where
  "execute_one st clock policy executor now work = (\<lambda>s.
     case executor (fst work) (snd work) s of
       (Inl (TransientJobFailure e), t) \<Rightarrow> record_failure st (clock (snd work)) policy now work TRANSIENT t
     | (Inl e, t) \<Rightarrow> record_failure st (clock (snd work)) policy now work PERMANENT t
     | (Inr _, t) \<Rightarrow> record_success st (clock (snd work)) now work t)"

definition claim_and_execute :: "settings \<Rightarrow> (string \<Rightarrow> datetime) \<Rightarrow> (string \<Rightarrow> nat) \<Rightarrow> string set \<Rightarrow> job_kind \<Rightarrow> datetime \<Rightarrow>
    timedelta \<Rightarrow> retry_policy \<Rightarrow> (work_item \<Rightarrow> string \<Rightarrow> (db, unit) op) \<Rightarrow> nat \<Rightarrow> string option \<Rightarrow>
    (db, execution_record list) op" where
  "claim_and_execute st clock rank locked kind now lease policy executor batch_size work_item_id =
     sbind (case work_item_id of
        Some i \<Rightarrow> sbind (claim_one st locked i now lease)
          (\<lambda>one. ok (case one of None \<Rightarrow> [] | Some work \<Rightarrow> [work]))
      | None \<Rightarrow> claim_batch st rank locked kind now lease batch_size)
     (\<lambda>claimed. smap (execute_one st clock policy executor now) claimed)"

end
