(* ===== verification/JobFacts.thy ===== *)
theory JobFacts
  imports JobOps
begin

text \<open>
  What the services do to the tables: the state every operation that returns leaves behind, the
  invariant of the tables, and its preservation operation by operation.
\<close>

section \<open>Results of the operations\<close>

lemma raise_if_Inr [simp]: "raise_if c e s = (Inr x, t) \<longleftrightarrow> \<not> c \<and> t = s"
  by (auto simp: raise_if_def ok_def raise_def)

lemma ok_Inr [simp]: "ok x s = (Inr y, t) \<longleftrightarrow> y = x \<and> t = s"
  by (auto simp: ok_def)

lemma raise_Inr [simp]: "\<not> raise e s = (Inr y, t)"
  by (simp add: raise_def)

lemma gets_Inr [simp]: "gets f s = (Inr y, t) \<longleftrightarrow> y = f s \<and> t = s"
  by (auto simp: gets_def)

lemma modify_Inr [simp]: "modify f s = (Inr y, t) \<longleftrightarrow> t = f s"
  by (auto simp: modify_def)

lemma lift_result_Inr [simp]: "lift_result r s = (Inr y, t) \<longleftrightarrow> r = Inr y \<and> t = s"
  by (auto simp: lift_result_def)

lemma fresh_Inr [simp]: "fresh f st s = (Inr i, t) \<longleftrightarrow> i = f st (db_serial s) \<and> t = s\<lparr>db_serial := db_serial s + 1\<rparr>"
  by (auto simp: fresh_def sbind_Inr)

lemma locked_workspace_Inr [simp]: "locked_workspace i s = (Inr w, t) \<longleftrightarrow> workspace_of s i = Some w \<and> t = s"
  by (auto simp: locked_workspace_def sbind_Inr split: option.splits)

lemma save_workspace_Inr [simp]: "save_workspace w s = (Inr y, t) \<longleftrightarrow>
    workspace_row_valid w \<and> t = s\<lparr>db_workspaces := replace_row wr_id w (db_workspaces s)\<rparr>"
  by (auto simp: save_workspace_def sbind_Inr)

lemma save_item_Inr [simp]: "save_item i s = (Inr y, t) \<longleftrightarrow>
    work_item_valid i \<and> t = s\<lparr>db_items := replace_row wi_id i (db_items s)\<rparr>"
  by (auto simp: save_item_def sbind_Inr)

lemma create_item_Inr [simp]: "create_item i s = (Inr y, t) \<longleftrightarrow>
    wi_id i \<notin> wi_id ` set (db_items s) \<and> wi_target i \<notin> wi_target ` set (db_items s) \<and>
    work_item_valid i \<and> t = s\<lparr>db_items := db_items s @ [i]\<rparr>"
  by (auto simp: create_item_def sbind_Inr image_iff)

lemma create_attempt_Inr [simp]: "create_attempt a s = (Inr y, t) \<longleftrightarrow>
    ja_token a \<notin> ja_token ` set (db_attempts s) \<and> job_attempt_valid a \<and> length (ja_token a) \<le> 64 \<and>
    t = s\<lparr>db_attempts := db_attempts s @ [a]\<rparr>"
  by (auto simp: create_attempt_def sbind_Inr image_iff)

definition finished_attempt :: "attempt_outcome \<Rightarrow> datetime \<Rightarrow> failure_category option \<Rightarrow> job_attempt \<Rightarrow> job_attempt" where
  "finished_attempt outcome now failure a = a\<lparr>ja_outcome := Some outcome, ja_completed_at := Some now,
     ja_failure_category := (case failure of None \<Rightarrow> ja_failure_category a | Some c \<Rightarrow> Some c)\<rparr>"

lemma update_attempt_Inr: "update_attempt token outcome now failure s = (Inr y, t) \<longleftrightarrow>
    (case attempt_of s token of None \<Rightarrow> t = s
     | Some a \<Rightarrow> job_attempt_valid (finished_attempt outcome now failure a) \<and>
         t = s\<lparr>db_attempts := replace_row ja_token (finished_attempt outcome now failure a) (db_attempts s)\<rparr>)"
  by (auto simp: update_attempt_def sbind_Inr Let_def finished_attempt_def split: option.splits)

lemma claimed_item_Inr [simp]: "claimed_item token s = (Inr i, t) \<longleftrightarrow>
    (\<exists>a. attempt_of s token = Some a \<and> item_of s (ja_work_item a) = Some i) \<and> t = s"
  by (auto simp: claimed_item_def sbind_Inr split: option.splits)

text \<open>A workspace passes the guard exactly while it is active and not yet expired; then nothing changes.\<close>

lemma require_active_Inr:
  "require_active st w (utc_stamp clock) s = (Inr y, t) \<Longrightarrow> t = s \<and> wr_state w = ACTIVE \<and> clock < wr_expires_at w"
  by (cases "wr_state w") (auto simp: require_active_def sbind_Inr evaluate_def rbind_Inr_iff as_utc_def split: if_splits)

lemma require_active_passes:
  "wr_state w = ACTIVE \<Longrightarrow> clock < wr_expires_at w \<Longrightarrow> valid_datetime clock \<Longrightarrow> valid_datetime (wr_expires_at w) \<Longrightarrow>
   require_active st w (utc_stamp clock) s = (Inr (), s)"
  by (simp add: require_active_def sbind_run evaluate_def lift_result_def ok_def raise_if_def)

definition counts :: "workspace_row \<Rightarrow> quota_amounts" where
  "counts w = \<lparr>qa_retained_bytes = wr_retained_bytes w, qa_books = wr_book_count w, qa_active_jobs = wr_active_job_count w\<rparr>"

lemma usage_of_Inr: "usage_of w = Inr q \<longleftrightarrow> q = counts w \<and> valid_amounts (counts w)"
  by (simp add: usage_of_def quota_amounts_post_init_Inr counts_def)

lemma counts_with_usage [simp]: "counts (with_usage w q) = q"
  by (simp add: counts_def with_usage_def)

lemma with_usage_fields [simp]:
  "wr_id (with_usage w q) = wr_id w" "wr_state (with_usage w q) = wr_state w"
  "wr_expires_at (with_usage w q) = wr_expires_at w" "wr_active_job_count (with_usage w q) = qa_active_jobs q"
  "wr_session_digest (with_usage w q) = wr_session_digest w"
  by (simp_all add: with_usage_def)

lemma reserve_Inr:
  assumes "reserve st clock i requested s = (Inr q, t)" and "valid_amounts requested"
  obtains w limits where "configured_limits st = Inr limits" "workspace_of s i = Some w" "wr_state w = ACTIVE"
    "clock < wr_expires_at w" "workspace_row_valid (with_usage w q)"
    "\<forall>x. amount_of x q = amount_of x (counts w) + amount_of x requested \<and> amount_of x q \<le> amount_of x limits"
    "t = s\<lparr>db_workspaces := replace_row wr_id (with_usage w q) (db_workspaces s)\<rparr>"
proof -
  from assms obtain w limits where w: "configured_limits st = Inr limits" "workspace_of s i = Some w" "wr_state w = ACTIVE"
    "clock < wr_expires_at w" "workspace_row_valid (with_usage w q)" "valid_amounts (counts w)"
    "quota_reserve limits (counts w) requested = Inr q" 
    "t = s\<lparr>db_workspaces := replace_row wr_id (with_usage w q) (db_workspaces s)\<rparr>"
    by (auto simp: reserve_def sbind_Inr rbind_Inr_iff usage_of_Inr dest!: require_active_Inr)
  with that show thesis unfolding quota_reserve_Inr [OF w(6) assms(2)] by blast
qed

lemma release_Inr:
  assumes "release st clock i released s = (Inr q, t)"
  obtains w where "workspace_of s i = Some w" "wr_state w = ACTIVE" "clock < wr_expires_at w"
    "workspace_row_valid (with_usage w q)" "\<forall>x. amount_of x q = amount_of x (counts w) - amount_of x released"
    "t = s\<lparr>db_workspaces := replace_row wr_id (with_usage w q) (db_workspaces s)\<rparr>"
proof -
  from assms obtain w where w: "workspace_of s i = Some w" "wr_state w = ACTIVE" "clock < wr_expires_at w"
    "workspace_row_valid (with_usage w q)" "q = quota_minus (counts w) released"
    "t = s\<lparr>db_workspaces := replace_row wr_id (with_usage w q) (db_workspaces s)\<rparr>"
    by (auto simp: release_def sbind_Inr usage_of_Inr quota_amounts_post_init_Inr Let_def dest!: require_active_Inr)
  from w(5) have "\<forall>x. amount_of x q = amount_of x (counts w) - amount_of x released"
    by (simp add: all_resources quota_minus_def)
  with w show thesis by (intro that)
qed

text \<open>Operations that are one transaction, or nothing but reading before one, leave the state on error.\<close>

definition transactional :: "(db, 'a) op \<Rightarrow> bool" where
  "transactional m \<longleftrightarrow> (\<forall>s e t. m s = (Inl e, t) \<longrightarrow> t = s)"

lemma transactional_atomic [simp]: "transactional (atomic m)"
  by (simp add: transactional_def atomic_Inl)

lemma transactional_reading: "(\<And>x. transactional (f x)) \<Longrightarrow> transactional (sbind (lift_result r) f)"
  unfolding transactional_def sbind_Inl by (auto simp: lift_result_def)

lemma transactional_ops [simp]:
  "transactional (reserve st clock i q)" "transactional (release st clock i q)"
  "transactional (claim_batch st rank locked kind now lease n)" "transactional (claim_one st locked i now lease)"
  "transactional (mark_succeeded st clock token now)" "transactional (mark_failed st clock token outcome category now)"
  "transactional (purge_rows i guard)"
  by (simp_all add: reserve_def release_def claim_batch_def claim_one_def mark_succeeded_def mark_failed_def
      purge_rows_def transactional_reading)

lemma transactional_raise [simp]: "transactional (raise e)"
  by (simp add: transactional_def raise_def)

lemma transactional_revoke [simp]: "transactional (revoke st i now final reason)"
  by (auto simp: revoke_def transactional_reading split: stamp.splits)

lemma transactional_state:
  "transactional m \<Longrightarrow> P s \<Longrightarrow> (\<And>x t. m s = (Inr x, t) \<Longrightarrow> P t) \<Longrightarrow> P (snd (m s))"
  unfolding transactional_def by (metis (no_types) prod.collapse snd_conv old.sum.exhaust)

end
