(* ===== verification/JobMachine.thy ===== *)
theory JobMachine
  imports JobFacts
begin

text \<open>
  The job queue as a state machine: the transactions of the services are the steps, and the
  invariant of the tables holds in every reachable state. It ties the leases to the attempts and
  the quota counter of a workspace to its open jobs.
\<close>

section \<open>The invariant\<close>

text \<open>Identifiers and tokens are never handed out twice.\<close>

definition settings_ok :: "settings \<Rightarrow> bool" where
  "settings_ok st \<longleftrightarrow> inj (st_uuid st) \<and> inj (st_token st)"

definition keys_ok :: "settings \<Rightarrow> db \<Rightarrow> bool" where
  "keys_ok st s \<longleftrightarrow>
     distinct (map wr_id (db_workspaces s)) \<and> distinct (map wi_id (db_items s)) \<and>
     distinct (map wi_target (db_items s)) \<and> distinct (map ja_token (db_attempts s)) \<and>
     set (map wr_id (db_workspaces s)) \<subseteq> st_uuid st ` {..<db_serial s} \<and>
     set (map wi_id (db_items s)) \<subseteq> st_uuid st ` {..<db_serial s} \<and>
     set (map ja_token (db_attempts s)) \<subseteq> st_token st ` {..<db_serial s}"

definition rows_ok :: "db \<Rightarrow> bool" where
  "rows_ok s \<longleftrightarrow> (\<forall>w \<in> set (db_workspaces s). workspace_row_valid w) \<and>
     (\<forall>i \<in> set (db_items s). work_item_valid i) \<and> (\<forall>a \<in> set (db_attempts s). job_attempt_valid a)"

definition owned_ok :: "db \<Rightarrow> bool" where
  "owned_ok s \<longleftrightarrow>
     (\<forall>i \<in> set (db_items s). \<exists>w \<in> set (db_workspaces s). wr_id w = wi_workspace i \<and>
        (wi_kind i = WORKSPACE_CLEANUP \<longrightarrow> wi_target i = CleanupRequest (wr_id w) \<and> wr_state w \<noteq> ACTIVE)) \<and>
     (\<forall>a \<in> set (db_attempts s). \<exists>i \<in> set (db_items s). wi_id i = ja_work_item a \<and> wi_workspace i = ja_workspace a)"

definition leases_ok :: "db \<Rightarrow> bool" where
  "leases_ok s \<longleftrightarrow>
     (\<forall>i \<in> set (db_items s). \<forall>t. wi_current_token i = Some t \<longrightarrow>
        (\<exists>a \<in> set (db_attempts s). ja_token a = t \<and> ja_work_item a = wi_id i \<and> ja_outcome a = None \<and>
           wi_lease_until i = Some (ja_lease_until a))) \<and>
     (\<forall>a \<in> set (db_attempts s). ja_outcome a = Some SUCCEEDED_ATTEMPT \<longrightarrow>
        (\<exists>i \<in> set (db_items s). wi_id i = ja_work_item a \<and> wi_state i = SUCCEEDED)) \<and>
     (\<forall>a \<in> set (db_attempts s). \<forall>b \<in> set (db_attempts s). ja_outcome a = Some SUCCEEDED_ATTEMPT \<longrightarrow>
        ja_outcome b = Some SUCCEEDED_ATTEMPT \<longrightarrow> ja_work_item a = ja_work_item b \<longrightarrow> a = b) \<and>
     (\<forall>i \<in> set (db_items s). wi_attempt_count i = int (length (filter (\<lambda>a. ja_work_item a = wi_id i) (db_attempts s))))"

text \<open>The jobs that hold a unit of the \<open>active_jobs\<close> quota.\<close>

definition holds_quota :: "string \<Rightarrow> work_item \<Rightarrow> bool" where
  "holds_quota w i \<longleftrightarrow> wi_workspace i = w \<and> wi_kind i \<noteq> WORKSPACE_CLEANUP \<and> (wi_state i = READY \<or> wi_state i = LEASED)"

definition quota_ok :: "db \<Rightarrow> bool" where
  "quota_ok s \<longleftrightarrow> (\<forall>w \<in> set (db_workspaces s).
     wr_active_job_count w = int (length (filter (holds_quota (wr_id w)) (db_items s))))"

definition tables_ok :: "settings \<Rightarrow> db \<Rightarrow> bool" where
  "tables_ok st s \<longleftrightarrow> keys_ok st s \<and> rows_ok s \<and> owned_ok s \<and> leases_ok s \<and> quota_ok s"

lemma tables_okD:
  assumes "tables_ok st s"
  shows "keys_ok st s" "rows_ok s" "owned_ok s" "leases_ok s" "quota_ok s"
  using assms by (simp_all add: tables_ok_def)

lemma leases_okD:
  assumes "leases_ok s"
  shows "\<And>i t. i \<in> set (db_items s) \<Longrightarrow> wi_current_token i = Some t \<Longrightarrow>
      \<exists>a \<in> set (db_attempts s). ja_token a = t \<and> ja_work_item a = wi_id i \<and> ja_outcome a = None \<and>
        wi_lease_until i = Some (ja_lease_until a)"
    and "\<And>a. a \<in> set (db_attempts s) \<Longrightarrow> ja_outcome a = Some SUCCEEDED_ATTEMPT \<Longrightarrow>
      \<exists>i \<in> set (db_items s). wi_id i = ja_work_item a \<and> wi_state i = SUCCEEDED"
    and "\<And>a b. a \<in> set (db_attempts s) \<Longrightarrow> b \<in> set (db_attempts s) \<Longrightarrow> ja_outcome a = Some SUCCEEDED_ATTEMPT \<Longrightarrow>
      ja_outcome b = Some SUCCEEDED_ATTEMPT \<Longrightarrow> ja_work_item a = ja_work_item b \<Longrightarrow> a = b"
    and "\<And>i. i \<in> set (db_items s) \<Longrightarrow>
      wi_attempt_count i = int (length (filter (\<lambda>a. ja_work_item a = wi_id i) (db_attempts s)))"
  using assms unfolding leases_ok_def by blast+

lemma leases_okI:
  assumes "\<And>i t. i \<in> set (db_items s) \<Longrightarrow> wi_current_token i = Some t \<Longrightarrow>
      \<exists>a \<in> set (db_attempts s). ja_token a = t \<and> ja_work_item a = wi_id i \<and> ja_outcome a = None \<and>
        wi_lease_until i = Some (ja_lease_until a)"
    and "\<And>a. a \<in> set (db_attempts s) \<Longrightarrow> ja_outcome a = Some SUCCEEDED_ATTEMPT \<Longrightarrow>
      \<exists>i \<in> set (db_items s). wi_id i = ja_work_item a \<and> wi_state i = SUCCEEDED"
    and "\<And>a b. a \<in> set (db_attempts s) \<Longrightarrow> b \<in> set (db_attempts s) \<Longrightarrow> ja_outcome a = Some SUCCEEDED_ATTEMPT \<Longrightarrow>
      ja_outcome b = Some SUCCEEDED_ATTEMPT \<Longrightarrow> ja_work_item a = ja_work_item b \<Longrightarrow> a = b"
    and "\<And>i. i \<in> set (db_items s) \<Longrightarrow>
      wi_attempt_count i = int (length (filter (\<lambda>a. ja_work_item a = wi_id i) (db_attempts s)))"
  shows "leases_ok s"
  using assms unfolding leases_ok_def by blast

lemma count_replace:
  "distinct (map key rows) \<Longrightarrow> r0 \<in> set rows \<Longrightarrow> key r = key r0 \<Longrightarrow>
   int (length (filter Q (replace_row key r rows))) = int (length (filter Q rows)) + of_bool (Q r) - of_bool (Q r0)"
proof (induction rows)
  case Nil
  then show ?case by simp
next
  case (Cons x rows)
  show ?case
  proof (cases "x = r0")
    case True
    then have "replace_row key r rows = rows"
      using Cons.prems by (force simp: replace_row_def image_iff intro!: map_idI)
    with True Cons.prems show ?thesis by (auto simp: replace_row_def)
  next
    case False
    with Cons.prems have "key x \<noteq> key r" by auto
    with False Cons show ?thesis by (auto simp: replace_row_def)
  qed
qed

text \<open>Rows that are found, under distinct keys.\<close>

lemma keys_okD:
  assumes "keys_ok st s"
  shows "distinct (map wr_id (db_workspaces s))" "distinct (map wi_id (db_items s))"
    "distinct (map wi_target (db_items s))" "distinct (map ja_token (db_attempts s))"
  using assms by (simp_all add: keys_ok_def)

lemma workspace_of_iff: "keys_ok st s \<Longrightarrow> workspace_of s i = Some w \<longleftrightarrow> w \<in> set (db_workspaces s) \<and> wr_id w = i"
  unfolding workspace_of_def by (rule find_key_iff) (rule keys_okD)

lemma item_of_iff: "keys_ok st s \<Longrightarrow> item_of s i = Some x \<longleftrightarrow> x \<in> set (db_items s) \<and> wi_id x = i"
  unfolding item_of_def by (rule find_key_iff) (rule keys_okD)

lemma attempt_of_iff: "keys_ok st s \<Longrightarrow> attempt_of s t = Some a \<longleftrightarrow> a \<in> set (db_attempts s) \<and> ja_token a = t"
  unfolding attempt_of_def by (rule find_key_iff) (rule keys_okD)

lemma keys_ok_mono:
  assumes "keys_ok st s" and "map wr_id (db_workspaces t) = map wr_id (db_workspaces s)"
    and "map wi_id (db_items t) = map wi_id (db_items s)" and "map wi_target (db_items t) = map wi_target (db_items s)"
    and "map ja_token (db_attempts t) = map ja_token (db_attempts s)" and "db_serial s \<le> db_serial t"
  shows "keys_ok st t"
proof -
  have "st_uuid st ` {..<db_serial s} \<subseteq> st_uuid st ` {..<db_serial t}" "st_token st ` {..<db_serial s} \<subseteq> st_token st ` {..<db_serial t}"
    using assms(6) by auto
  with assms(1) show ?thesis unfolding keys_ok_def assms(2-5) by blast
qed

lemma fresh_uuid:
  assumes "settings_ok st" and "keys_ok st s"
  shows "st_uuid st (db_serial s) \<notin> wi_id ` set (db_items s)" "st_uuid st (db_serial s) \<notin> wr_id ` set (db_workspaces s)"
proof -
  have "st_uuid st (db_serial s) \<notin> st_uuid st ` {..<db_serial s}"
    using assms(1) by (auto simp: settings_ok_def inj_def)
  with assms(2) show "st_uuid st (db_serial s) \<notin> wi_id ` set (db_items s)" "st_uuid st (db_serial s) \<notin> wr_id ` set (db_workspaces s)"
    by (auto simp: keys_ok_def)
qed

lemma fresh_token:
  assumes "settings_ok st" and "keys_ok st s"
  shows "st_token st (db_serial s) \<notin> ja_token ` set (db_attempts s)"
proof -
  have "st_token st (db_serial s) \<notin> st_token st ` {..<db_serial s}"
    using assms(1) by (auto simp: settings_ok_def inj_def)
  with assms(2) show ?thesis by (auto simp: keys_ok_def)
qed

section \<open>Claims\<close>

lemma claim_row_Inr:
  "claim_row st now lease i s = (Inr work, t) \<Longrightarrow>
   \<exists>lease_until. dt_add now lease = Inr lease_until \<and> work = (leased_row (st_token st (db_serial s)) now lease_until i, st_token st (db_serial s)) \<and>
     work_item_valid (leased_row (st_token st (db_serial s)) now lease_until i) \<and>
     job_attempt_valid (new_attempt i (st_token st (db_serial s)) now lease_until) \<and>
     t = s\<lparr>db_serial := db_serial s + 1,
       db_items := replace_row wi_id (leased_row (st_token st (db_serial s)) now lease_until i) (db_items s),
       db_attempts := db_attempts s @ [new_attempt i (st_token st (db_serial s)) now lease_until]\<rparr>"
  by (auto simp: claim_row_def sbind_Inr lease_token_def checks_Inr_iff)

lemma leased_row_fields [simp]:
  "wi_id (leased_row token now l i) = wi_id i" "wi_workspace (leased_row token now l i) = wi_workspace i"
  "wi_kind (leased_row token now l i) = wi_kind i" "wi_target (leased_row token now l i) = wi_target i"
  "wi_state (leased_row token now l i) = LEASED" "wi_current_token (leased_row token now l i) = Some token"
  "wi_lease_until (leased_row token now l i) = Some l" "wi_attempt_count (leased_row token now l i) = wi_attempt_count i + 1"
  by (simp_all add: leased_row_def)

lemma released_row_fields [simp]:
  "wi_id (released_row state a now i) = wi_id i" "wi_workspace (released_row state a now i) = wi_workspace i"
  "wi_kind (released_row state a now i) = wi_kind i" "wi_target (released_row state a now i) = wi_target i"
  "wi_state (released_row state a now i) = state" "wi_current_token (released_row state a now i) = None"
  "wi_attempt_count (released_row state a now i) = wi_attempt_count i"
  by (simp_all add: released_row_def)

lemma new_attempt_fields [simp]:
  "ja_work_item (new_attempt i token now l) = wi_id i" "ja_workspace (new_attempt i token now l) = wi_workspace i"
  "ja_token (new_attempt i token now l) = token" "ja_outcome (new_attempt i token now l) = None"
  "ja_lease_until (new_attempt i token now l) = l"
  by (simp_all add: new_attempt_def)

lemma finished_attempt_fields [simp]:
  "ja_work_item (finished_attempt outcome now failure a) = ja_work_item a"
  "ja_workspace (finished_attempt outcome now failure a) = ja_workspace a"
  "ja_token (finished_attempt outcome now failure a) = ja_token a"
  "ja_outcome (finished_attempt outcome now failure a) = Some outcome"
  by (simp_all add: finished_attempt_def)

text \<open>Replacing an item keeps the identities.\<close>

lemma targets_replace_row:
  assumes "distinct (map wi_id rows)" and "i \<in> set rows" and "wi_id j = wi_id i" and "wi_target j = wi_target i"
  shows "map wi_target (replace_row wi_id j rows) = map wi_target rows"
proof -
  have "wi_target x = wi_target j" if "x \<in> set rows" "wi_id x = wi_id j" for x
    using assms that by (metis distinct_map inj_onD)
  then show ?thesis by (auto simp: replace_row_def)
qed


lemma item_replaced:
  assumes s: "tables_ok st s" and i: "i \<in> set (db_items s)" and valid: "work_item_valid j"
    and same: "wi_id j = wi_id i" "wi_workspace j = wi_workspace i" "wi_kind j = wi_kind i" "wi_target j = wi_target i"
    and t: "db_workspaces t = db_workspaces s" "db_items t = replace_row wi_id j (db_items s)"
    and serial: "db_serial s \<le> db_serial t"
  shows "db_attempts t = db_attempts s \<Longrightarrow> keys_ok st t" and "\<And>x. x \<in> set (db_items t) \<Longrightarrow> work_item_valid x"
    and "\<And>x. x \<in> set (db_items t) \<Longrightarrow> \<exists>w \<in> set (db_workspaces t). wr_id w = wi_workspace x \<and>
        (wi_kind x = WORKSPACE_CLEANUP \<longrightarrow> wi_target x = CleanupRequest (wr_id w) \<and> wr_state w \<noteq> ACTIVE)"
    and "\<And>n c. \<exists>x \<in> set (db_items s). wi_id x = n \<and> wi_workspace x = c \<Longrightarrow> \<exists>x \<in> set (db_items t). wi_id x = n \<and> wi_workspace x = c"
    and "\<And>w. int (length (filter (holds_quota w) (db_items t))) =
        int (length (filter (holds_quota w) (db_items s))) + of_bool (holds_quota w j) - of_bool (holds_quota w i)"
proof -
  note k = tables_okD(1) [OF s]
  note d = keys_okD [OF k]
  show "keys_ok st t" if "db_attempts t = db_attempts s"
    using targets_replace_row [OF d(2) i same(1,4)] serial that
    by (intro keys_ok_mono [OF k]) (simp_all add: t)
  show "work_item_valid x" if "x \<in> set (db_items t)" for x
    using that valid tables_okD(2) [OF s] set_replace_row [of x wi_id j "db_items s"] by (auto simp: t rows_ok_def)
  show "\<exists>w \<in> set (db_workspaces t). wr_id w = wi_workspace x \<and>
        (wi_kind x = WORKSPACE_CLEANUP \<longrightarrow> wi_target x = CleanupRequest (wr_id w) \<and> wr_state w \<noteq> ACTIVE)"
    if "x \<in> set (db_items t)" for x
  proof -
    from that have "x = j \<or> x \<in> set (db_items s)" using set_replace_row [of x wi_id j "db_items s"] by (simp add: t)
    then obtain y where "y \<in> set (db_items s)" "wi_workspace y = wi_workspace x" "wi_kind y = wi_kind x" "wi_target y = wi_target x"
      using i same by auto
    with tables_okD(3) [OF s] show ?thesis unfolding owned_ok_def t by metis
  qed
  show "\<exists>x \<in> set (db_items t). wi_id x = n \<and> wi_workspace x = c"
    if ex: "\<exists>x \<in> set (db_items s). wi_id x = n \<and> wi_workspace x = c" for n c
  proof -
    from ex obtain x where x: "x \<in> set (db_items s)" "wi_id x = n" "wi_workspace x = c" by blast
    show ?thesis
    proof (cases "wi_id x = wi_id j")
      case True
      then have "x = i" using d(2) i x(1) same(1) by (metis distinct_map inj_onD)
      with x i same show ?thesis by (intro bexI [of _ j]) (auto simp: t replace_row_iff)
    next
      case False
      with x show ?thesis by (auto simp: t replace_row_iff)
    qed
  qed
  show "int (length (filter (holds_quota w) (db_items t))) =
        int (length (filter (holds_quota w) (db_items s))) + of_bool (holds_quota w j) - of_bool (holds_quota w i)" for w
    unfolding t by (rule count_replace [OF d(2) i same(1)])
qed

lemma claim_row_ok:
  assumes st: "settings_ok st" and s: "tables_ok st s" and i: "i \<in> set (db_items s)" "claimable_row now i"
    and run: "claim_row st now lease i s = (Inr work, t)"
  shows "tables_ok st t"
proof -
  note k = tables_okD(1) [OF s]
  note d = keys_okD [OF k]
  let ?token = "st_token st (db_serial s)"
  from claim_row_Inr [OF run] obtain l where
    valid: "work_item_valid (leased_row ?token now l i)" "job_attempt_valid (new_attempt i ?token now l)"
    and t: "t = s\<lparr>db_serial := db_serial s + 1, db_items := replace_row wi_id (leased_row ?token now l i) (db_items s),
       db_attempts := db_attempts s @ [new_attempt i ?token now l]\<rparr>" by blast
  let ?j = "leased_row ?token now l i" and ?a = "new_attempt i ?token now l" and ?t = "t\<lparr>db_attempts := db_attempts s\<rparr>"
  note fresh = fresh_token [OF st k]
  have open_i: "wi_state i = READY \<or> wi_state i = LEASED" using i(2) by (auto simp: claimable_row_def)
  note item = item_replaced [OF s i(1) valid(1), of ?t, simplified t, simplified] item_replaced [OF s i(1) valid(1), of t, simplified t, simplified]
  have "keys_ok st t"
    using item(1) fresh by (auto simp: keys_ok_def t)
  moreover have "rows_ok t" using item(2) valid(2) tables_okD(2) [OF s] by (auto simp: rows_ok_def t)
  moreover have "owned_ok t"
  proof -
    have "\<exists>x \<in> set (db_items s). wi_id x = ja_work_item a \<and> wi_workspace x = ja_workspace a" if "a \<in> set (db_attempts t)" for a
      using that tables_okD(3) [OF s] i(1) by (auto simp: t owned_ok_def)
    then show ?thesis using item(3,4) by (simp add: owned_ok_def t)
  qed
  moreover have "quota_ok t"
  proof -
    have "holds_quota w ?j = holds_quota w i" for w using open_i by (auto simp: holds_quota_def)
    then show ?thesis using item(5) tables_okD(5) [OF s] by (simp add: quota_ok_def t)
  qed
  moreover have "leases_ok t"
  proof (rule leases_okI)
    note l = leases_okD [OF tables_okD(4) [OF s]]
    fix x v
    assume x: "x \<in> set (db_items t)" "wi_current_token x = Some v"
    then have "x = ?j \<or> x \<in> set (db_items s) \<and> wi_id x \<noteq> wi_id i" by (auto simp: t replace_row_iff)
    with x l(1) [of x v] show "\<exists>a \<in> set (db_attempts t). ja_token a = v \<and> ja_work_item a = wi_id x \<and> ja_outcome a = None \<and>
        wi_lease_until x = Some (ja_lease_until a)" by (auto simp: t)
  next
    note l = leases_okD [OF tables_okD(4) [OF s]]
    fix a assume "a \<in> set (db_attempts t)" "ja_outcome a = Some SUCCEEDED_ATTEMPT"
    then have "a \<in> set (db_attempts s)" "ja_outcome a = Some SUCCEEDED_ATTEMPT" by (auto simp: t)
    from l(2) [OF this] obtain x where x: "x \<in> set (db_items s)" "wi_id x = ja_work_item a" "wi_state x = SUCCEEDED" by blast
    have "wi_id x \<noteq> wi_id i"
    proof
      assume "wi_id x = wi_id i"
      with x(1) i(1) d(2) have "x = i" by (metis distinct_map inj_onD)
      with open_i x(3) show False by auto
    qed
    with x show "\<exists>x \<in> set (db_items t). wi_id x = ja_work_item a \<and> wi_state x = SUCCEEDED" by (auto simp: t replace_row_iff)
  next
    note l = leases_okD [OF tables_okD(4) [OF s]]
    fix a b assume "a \<in> set (db_attempts t)" "b \<in> set (db_attempts t)" "ja_outcome a = Some SUCCEEDED_ATTEMPT"
      "ja_outcome b = Some SUCCEEDED_ATTEMPT" "ja_work_item a = ja_work_item b"
    moreover from this have "a \<in> set (db_attempts s)" "b \<in> set (db_attempts s)" by (auto simp: t)
    ultimately show "a = b" using l(3) by blast
  next
    note l = leases_okD(4) [OF tables_okD(4) [OF s]]
    fix x assume "x \<in> set (db_items t)"
    then have "x = ?j \<or> x \<in> set (db_items s) \<and> wi_id x \<noteq> wi_id i" by (auto simp: t replace_row_iff)
    then show "wi_attempt_count x = int (length (filter (\<lambda>a. ja_work_item a = wi_id x) (db_attempts t)))"
    proof
      assume "x = ?j"
      then show ?thesis using l [OF i(1)] by (simp add: t)
    next
      assume x: "x \<in> set (db_items s) \<and> wi_id x \<noteq> wi_id i"
      then have "wi_id i \<noteq> wi_id x" by auto
      then show ?thesis using l [OF conjunct1 [OF x]] by (simp add: t)
    qed
  qed
  ultimately show ?thesis by (simp add: tables_ok_def)
qed


lemma distinct_same: "distinct (map key rows) \<Longrightarrow> x \<in> set rows \<Longrightarrow> y \<in> set rows \<Longrightarrow> key x = key y \<Longrightarrow> x = y"
  by (metis distinct_map inj_onD)

section \<open>Workspaces\<close>

text \<open>Replacing a workspace that keeps its identity and is not reactivated.\<close>

lemma owned_workspace:
  assumes s: "owned_ok s" and d: "distinct (map wr_id (db_workspaces s))" and w: "w \<in> set (db_workspaces s)"
    and v: "wr_id v = wr_id w" "wr_state v = ACTIVE \<Longrightarrow> wr_state w = ACTIVE"
    and t: "db_workspaces t = replace_row wr_id v (db_workspaces s)" "db_items t = db_items s" "db_attempts t = db_attempts s"
  shows "owned_ok t"
proof -
  have "\<exists>x \<in> set (db_workspaces t). wr_id x = wi_workspace i \<and>
      (wi_kind i = WORKSPACE_CLEANUP \<longrightarrow> wi_target i = CleanupRequest (wr_id x) \<and> wr_state x \<noteq> ACTIVE)" if i: "i \<in> set (db_items s)" for i
  proof -
    from s i obtain x where x: "x \<in> set (db_workspaces s)" "wr_id x = wi_workspace i"
      "wi_kind i = WORKSPACE_CLEANUP \<longrightarrow> wi_target i = CleanupRequest (wr_id x) \<and> wr_state x \<noteq> ACTIVE" by (auto simp: owned_ok_def)
    show ?thesis
    proof (cases "wr_id x = wr_id w")
      case True
      with distinct_same [OF d x(1) w] have "x = w" by simp
      with x v w show ?thesis by (intro bexI [of _ v]) (auto simp: t replace_row_iff)
    next
      case False
      with x v show ?thesis by (intro bexI [of _ x]) (auto simp: t replace_row_iff)
    qed
  qed
  then show ?thesis using s by (simp add: owned_ok_def t)
qed

lemma workspace_replaced:
  assumes s: "tables_ok st s" and w: "w \<in> set (db_workspaces s)"
    and v: "wr_id v = wr_id w" "wr_state v = ACTIVE \<Longrightarrow> wr_state w = ACTIVE" "workspace_row_valid v"
      "wr_active_job_count v = wr_active_job_count w"
    and t: "db_workspaces t = replace_row wr_id v (db_workspaces s)" "db_items t = db_items s" "db_attempts t = db_attempts s"
      "db_serial s \<le> db_serial t"
  shows "tables_ok st t"
proof -
  note k = tables_okD(1) [OF s]
  have "map wr_id (db_workspaces t) = map wr_id (db_workspaces s)" by (simp add: t)
  then have "keys_ok st t" by (intro keys_ok_mono [OF k]) (simp_all add: t)
  moreover have "rows_ok t" using tables_okD(2) [OF s] v(3) set_replace_row [of _ wr_id v "db_workspaces s"] by (auto simp: rows_ok_def t)
  moreover have "owned_ok t" by (rule owned_workspace [OF tables_okD(3) [OF s] keys_okD(1) [OF k] w v(1,2) t(1-3)])
  moreover have "leases_ok t" using tables_okD(4) [OF s] by (simp add: leases_ok_def t)
  moreover have "quota_ok t" using tables_okD(5) [OF s] w v by (auto simp: quota_ok_def t replace_row_iff)
  ultimately show ?thesis by (simp add: tables_ok_def)
qed

section \<open>Completion\<close>

lemma item_released:
  assumes s: "tables_ok st s" and a: "a \<in> set (db_attempts s)" and i: "i \<in> set (db_items s)" "wi_id i = ja_work_item a"
    and current: "wi_current_token i = Some (ja_token a)"
    and state: "(outcome = SUCCEEDED_ATTEMPT) = (state = SUCCEEDED)" "state \<noteq> LEASED"
    and valid: "work_item_valid (released_row state available now i)" "job_attempt_valid (finished_attempt outcome now failure a)"
    and t: "db_items t = replace_row wi_id (released_row state available now i) (db_items s)"
      "db_attempts t = replace_row ja_token (finished_attempt outcome now failure a) (db_attempts s)" "db_serial t = db_serial s"
    and ws: "if state = READY then db_workspaces t = db_workspaces s
      else w \<in> set (db_workspaces s) \<and> wr_id w = wi_workspace i \<and> wr_state w = ACTIVE \<and> workspace_row_valid (with_usage w q) \<and>
        qa_active_jobs q = wr_active_job_count w - 1 \<and> db_workspaces t = replace_row wr_id (with_usage w q) (db_workspaces s)"
  shows "tables_ok st t"
proof -
  note k = tables_okD(1) [OF s]
  note d = keys_okD [OF k]
  let ?j = "released_row state available now i" and ?b = "finished_attempt outcome now failure a"
  let ?u = "s\<lparr>db_items := db_items t\<rparr>"
  have leased: "wi_state i = LEASED"
    using tables_okD(2) [OF s] i(1) current by (auto simp: rows_ok_def work_item_valid_def split: if_splits)
  have u: "db_workspaces ?u = db_workspaces s" "db_items ?u = replace_row wi_id ?j (db_items s)" "db_serial s \<le> db_serial ?u"
    "db_attempts ?u = db_attempts s" by (simp_all add: t)
  note item = item_replaced [OF s i(1) valid(1) _ _ _ _ u(1-3), simplified released_row_fields, OF refl refl refl refl]
  have ids: "map wr_id (db_workspaces t) = map wr_id (db_workspaces s)" using ws by (auto split: if_splits)
  have "keys_ok st t"
    by (rule keys_ok_mono [OF item(1) [OF u(4)]]) (simp_all add: t ids)
  moreover have "rows_ok t"
  proof -
    have "workspace_row_valid x" if "x \<in> set (db_workspaces t)" for x
      using that ws tables_okD(2) [OF s] set_replace_row [of x wr_id "with_usage w q" "db_workspaces s"]
      by (auto simp: rows_ok_def split: if_splits)
    moreover have "job_attempt_valid x" if "x \<in> set (db_attempts t)" for x
      using that valid(2) tables_okD(2) [OF s] set_replace_row [of x ja_token ?b "db_attempts s"] by (auto simp: rows_ok_def t)
    ultimately show ?thesis using item(2) by (auto simp: rows_ok_def)
  qed
  moreover have "owned_ok t"
  proof -
    have att: "\<exists>x \<in> set (db_items ?u). wi_id x = ja_work_item c \<and> wi_workspace x = ja_workspace c" if "c \<in> set (db_attempts t)" for c
    proof -
      from that have "c = ?b \<or> c \<in> set (db_attempts s)" using set_replace_row [of c ja_token ?b "db_attempts s"] by (simp add: t)
      then obtain c' where "c' \<in> set (db_attempts s)" "ja_work_item c' = ja_work_item c" "ja_workspace c' = ja_workspace c"
        using a by auto
      with tables_okD(3) [OF s] have "\<exists>x \<in> set (db_items s). wi_id x = ja_work_item c \<and> wi_workspace x = ja_workspace c"
        unfolding owned_ok_def by metis
      then show ?thesis by (rule item(4))
    qed
    let ?v = "?u\<lparr>db_attempts := db_attempts t\<rparr>"
    have v: "owned_ok ?v" unfolding owned_ok_def using item(3) att by simp
    show ?thesis
    proof (cases "state = READY")
      case True
      with ws v show ?thesis by (simp add: owned_ok_def)
    next
      case False
      with ws have "db_workspaces t = replace_row wr_id (with_usage w q) (db_workspaces ?v)" "w \<in> set (db_workspaces ?v)" by simp_all
      then show ?thesis using d(1) by (intro owned_workspace [OF v, of w "with_usage w q"]) simp_all
    qed
  qed
  moreover have "leases_ok t"
  proof (rule leases_okI)
    note l = leases_okD [OF tables_okD(4) [OF s]]
    fix x v assume x: "x \<in> set (db_items t)" "wi_current_token x = Some v"
    then have old: "x \<in> set (db_items s)" "wi_id x \<noteq> wi_id i" by (auto simp: t replace_row_iff)
    from l(1) [OF old(1) x(2)] obtain c where c: "c \<in> set (db_attempts s)" "ja_token c = v" "ja_work_item c = wi_id x"
      "ja_outcome c = None" "wi_lease_until x = Some (ja_lease_until c)" by blast
    have "ja_token c \<noteq> ja_token a" using distinct_same [OF d(4) c(1) a] c(3) old(2) i(2) by auto
    with c show "\<exists>a \<in> set (db_attempts t). ja_token a = v \<and> ja_work_item a = wi_id x \<and> ja_outcome a = None \<and>
        wi_lease_until x = Some (ja_lease_until a)" by (auto simp: t replace_row_iff)
  next
    note l = leases_okD [OF tables_okD(4) [OF s]]
    fix c assume c: "c \<in> set (db_attempts t)" "ja_outcome c = Some SUCCEEDED_ATTEMPT"
    show "\<exists>x \<in> set (db_items t). wi_id x = ja_work_item c \<and> wi_state x = SUCCEEDED"
    proof (cases "c = ?b")
      case True
      with c(2) state(1) i show ?thesis by (intro bexI [of _ ?j]) (auto simp: t replace_row_iff)
    next
      case False
      with c(1) have "c \<in> set (db_attempts s)" using set_replace_row [of c ja_token ?b "db_attempts s"] by (auto simp: t)
      from l(2) [OF this c(2)] obtain x where x: "x \<in> set (db_items s)" "wi_id x = ja_work_item c" "wi_state x = SUCCEEDED" by blast
      have "wi_id x \<noteq> wi_id i" using distinct_same [OF d(2) x(1) i(1)] leased x(3) by auto
      with x show ?thesis by (auto simp: t replace_row_iff)
    qed
  next
    note l = leases_okD [OF tables_okD(4) [OF s]]
    have none: "\<not> (c \<in> set (db_attempts s) \<and> ja_outcome c = Some SUCCEEDED_ATTEMPT \<and> ja_work_item c = ja_work_item a)" for c
    proof
      assume c: "c \<in> set (db_attempts s) \<and> ja_outcome c = Some SUCCEEDED_ATTEMPT \<and> ja_work_item c = ja_work_item a"
      with l(2) [of c] obtain x where "x \<in> set (db_items s)" "wi_id x = wi_id i" "wi_state x = SUCCEEDED" using i(2) by auto
      with distinct_same [OF d(2) this(1) i(1)] leased show False by simp
    qed
    fix c e assume c: "c \<in> set (db_attempts t)" "e \<in> set (db_attempts t)" "ja_outcome c = Some SUCCEEDED_ATTEMPT"
      "ja_outcome e = Some SUCCEEDED_ATTEMPT" "ja_work_item c = ja_work_item e"
    then have "c = ?b \<or> c \<in> set (db_attempts s)" "e = ?b \<or> e \<in> set (db_attempts s)"
      using set_replace_row [of _ ja_token ?b "db_attempts s"] by (auto simp: t)
    with c(3-5) none [of c] none [of e] l(3) [of c e] show "c = e" by auto
  next
    note l = leases_okD(4) [OF tables_okD(4) [OF s]]
    fix x assume "x \<in> set (db_items t)"
    then have "x = ?j \<or> x \<in> set (db_items s)" using set_replace_row [of x wi_id ?j "db_items s"] by (auto simp: t)
    then have x: "wi_attempt_count x = int (length (filter (\<lambda>a. ja_work_item a = wi_id x) (db_attempts s)))"
      using l [of x] l [OF i(1)] by auto
    have "ja_work_item ?b = ja_work_item a" by simp
    with count_replace [OF d(4) a, of ?b "\<lambda>c. ja_work_item c = wi_id x"]
    show "wi_attempt_count x = int (length (filter (\<lambda>a. ja_work_item a = wi_id x) (db_attempts t)))"
      unfolding x t(2) by simp
  qed
  moreover have "quota_ok t"
    unfolding quota_ok_def
  proof
    fix x assume x: "x \<in> set (db_workspaces t)"
    note q = tables_okD(5) [OF s, unfolded quota_ok_def, rule_format]
    have open_j: "holds_quota v ?j = (holds_quota v i \<and> state = READY)" for v using leased state(2) by (auto simp: holds_quota_def)
    have count: "int (length (filter (holds_quota v) (db_items t))) =
        int (length (filter (holds_quota v) (db_items s))) - of_bool (holds_quota v i \<and> state \<noteq> READY)" for v
      using item(5) [of v] by (simp add: open_j)
    show "wr_active_job_count x = int (length (filter (holds_quota (wr_id x)) (db_items t)))"
    proof (cases "state = READY")
      case True
      with ws x q [of x] count show ?thesis by simp
    next
      case False
      with ws have w: "w \<in> set (db_workspaces s)" "wr_id w = wi_workspace i" "wr_state w = ACTIVE"
        "qa_active_jobs q = wr_active_job_count w - 1" and t': "db_workspaces t = replace_row wr_id (with_usage w q) (db_workspaces s)"
        by simp_all
      have kind: "wi_kind i \<noteq> WORKSPACE_CLEANUP"
      proof
        assume "wi_kind i = WORKSPACE_CLEANUP"
        with tables_okD(3) [OF s] i(1) obtain y where "y \<in> set (db_workspaces s)" "wr_id y = wr_id w" "wr_state y \<noteq> ACTIVE"
          using w(2) unfolding owned_ok_def by metis
        with distinct_same [OF d(1) this(1) w(1)] w(3) show False by simp
      qed
      with leased have holds: "holds_quota v i \<longleftrightarrow> v = wr_id w" for v using w(2) by (auto simp: holds_quota_def)
      from x have "x = with_usage w q \<or> x \<in> set (db_workspaces s) \<and> wr_id x \<noteq> wr_id w" by (auto simp: t' replace_row_iff)
      then show ?thesis using False w count holds q [OF w(1)] q [of x] by auto
    qed
  qed
  ultimately show ?thesis by (simp add: tables_ok_def)
qed


text \<open>A stale token only marks its own attempt as expired.\<close>

lemma attempt_expired:
  assumes s: "tables_ok st s" and a: "a \<in> set (db_attempts s)"
    and stale: "\<And>i. i \<in> set (db_items s) \<Longrightarrow> wi_current_token i \<noteq> Some (ja_token a)"
    and valid: "job_attempt_valid (finished_attempt EXPIRED_ATTEMPT now None a)"
    and t: "t = s\<lparr>db_attempts := replace_row ja_token (finished_attempt EXPIRED_ATTEMPT now None a) (db_attempts s)\<rparr>"
  shows "tables_ok st t"
proof -
  note k = tables_okD(1) [OF s]
  note d = keys_okD [OF k]
  let ?b = "finished_attempt EXPIRED_ATTEMPT now None a"
  have "keys_ok st t" by (rule keys_ok_mono [OF k]) (simp_all add: t)
  moreover have "rows_ok t"
    using tables_okD(2) [OF s] valid set_replace_row [of _ ja_token ?b "db_attempts s"] by (auto simp: rows_ok_def t)
  moreover have "owned_ok t"
  proof -
    have "\<exists>x \<in> set (db_items s). wi_id x = ja_work_item c \<and> wi_workspace x = ja_workspace c" if "c \<in> set (db_attempts t)" for c
    proof -
      from that have "c = ?b \<or> c \<in> set (db_attempts s)" using set_replace_row [of c ja_token ?b "db_attempts s"] by (simp add: t)
      then obtain c' where "c' \<in> set (db_attempts s)" "ja_work_item c' = ja_work_item c" "ja_workspace c' = ja_workspace c"
        using a by auto
      with tables_okD(3) [OF s] show ?thesis unfolding owned_ok_def by metis
    qed
    then show ?thesis using tables_okD(3) [OF s] by (simp add: owned_ok_def t)
  qed
  moreover have "leases_ok t"
  proof (rule leases_okI)
    fix x v assume x: "x \<in> set (db_items t)" "wi_current_token x = Some v"
    then have "x \<in> set (db_items s)" by (simp add: t)
    from leases_okD(1) [OF tables_okD(4) [OF s] this x(2)] obtain c where c: "c \<in> set (db_attempts s)" "ja_token c = v" "ja_work_item c = wi_id x"
      "ja_outcome c = None" "wi_lease_until x = Some (ja_lease_until c)" by blast
    have "ja_token c \<noteq> ja_token a" using stale [OF \<open>x \<in> set (db_items s)\<close>] x(2) c(2) by auto
    with c show "\<exists>a \<in> set (db_attempts t). ja_token a = v \<and> ja_work_item a = wi_id x \<and> ja_outcome a = None \<and>
        wi_lease_until x = Some (ja_lease_until a)" by (auto simp: t replace_row_iff)
  next
    fix c assume "c \<in> set (db_attempts t)" "ja_outcome c = Some SUCCEEDED_ATTEMPT"
    then have "c \<in> set (db_attempts s)" using set_replace_row [of c ja_token ?b "db_attempts s"] by (auto simp: t)
    from leases_okD(2) [OF tables_okD(4) [OF s] this \<open>ja_outcome c = Some SUCCEEDED_ATTEMPT\<close>]
    show "\<exists>x \<in> set (db_items t). wi_id x = ja_work_item c \<and> wi_state x = SUCCEEDED" by (simp add: t)
  next
    fix c e assume c: "c \<in> set (db_attempts t)" "e \<in> set (db_attempts t)" "ja_outcome c = Some SUCCEEDED_ATTEMPT"
      "ja_outcome e = Some SUCCEEDED_ATTEMPT" "ja_work_item c = ja_work_item e"
    then have "c = ?b \<or> c \<in> set (db_attempts s)" "e = ?b \<or> e \<in> set (db_attempts s)"
      using set_replace_row [of c ja_token ?b "db_attempts s"] set_replace_row [of e ja_token ?b "db_attempts s"] by (simp_all add: t)
    with c(3,4) have "c \<in> set (db_attempts s)" "e \<in> set (db_attempts s)" by auto
    then show "c = e" using leases_okD(3) [OF tables_okD(4) [OF s]] c(3-5) by blast
  next
    fix x assume "x \<in> set (db_items t)"
    then have x: "wi_attempt_count x = int (length (filter (\<lambda>a. ja_work_item a = wi_id x) (db_attempts s)))"
      using leases_okD(4) [OF tables_okD(4) [OF s]] by (simp add: t)
    have "ja_work_item ?b = ja_work_item a" by simp
    with count_replace [OF d(4) a, of ?b "\<lambda>c. ja_work_item c = wi_id x"]
    show "wi_attempt_count x = int (length (filter (\<lambda>a. ja_work_item a = wi_id x) (db_attempts t)))"
      unfolding x t by simp
  qed
  moreover have "quota_ok t" using tables_okD(5) [OF s] by (simp add: quota_ok_def t)
  ultimately show ?thesis by (simp add: tables_ok_def)
qed

text \<open>The item of a token, and whose lease the token is.\<close>

lemma claimed_item_facts:
  assumes s: "tables_ok st s" and a: "attempt_of s token = Some a" and i: "item_of s (ja_work_item a) = Some i"
  shows "a \<in> set (db_attempts s)" "ja_token a = token" "i \<in> set (db_items s)" "wi_id i = ja_work_item a"
    "wi_current_token i \<noteq> Some token \<Longrightarrow> x \<in> set (db_items s) \<Longrightarrow> wi_current_token x \<noteq> Some token"
proof -
  note k = tables_okD(1) [OF s]
  show facts: "a \<in> set (db_attempts s)" "ja_token a = token" "i \<in> set (db_items s)" "wi_id i = ja_work_item a"
    using attempt_of_iff [OF k] item_of_iff [OF k] a i by simp_all
  show "wi_current_token x \<noteq> Some token" if n: "wi_current_token i \<noteq> Some token" "x \<in> set (db_items s)"
  proof
    assume x: "wi_current_token x = Some token"
    from leases_okD(1) [OF tables_okD(4) [OF s] n(2) x] obtain c where c: "c \<in> set (db_attempts s)" "ja_token c = token" "ja_work_item c = wi_id x"
      by blast
    have "c = a" using distinct_same [OF keys_okD(4) [OF k] c(1) facts(1)] c(2) facts(2) by simp
    then have "wi_id x = wi_id i" unfolding facts(4) c(3) [symmetric] by simp
    then have "x = i" by (rule distinct_same [OF keys_okD(2) [OF k] n(2) facts(3)])
    with x n(1) show False by simp
  qed
qed

lemma amount_one_active_job [simp]: "amount_of x one_active_job = of_bool (x = ACTIVE_JOBS)" "valid_amounts one_active_job"
  by (cases x; simp add: one_active_job_def) (simp add: one_active_job_def valid_amounts_def all_resources)

lemma active_counts [simp]: "qa_active_jobs (counts w) = wr_active_job_count w"
  by (simp add: counts_def)

lemma release_one:
  assumes "release st clock i one_active_job s = (Inr q, t)"
  obtains w where "workspace_of s i = Some w" "wr_state w = ACTIVE" "workspace_row_valid (with_usage w q)"
    "qa_active_jobs q = wr_active_job_count w - 1"
    "t = s\<lparr>db_workspaces := replace_row wr_id (with_usage w q) (db_workspaces s)\<rparr>"
  using assms
proof (rule release_Inr)
  fix w assume w: "workspace_of s i = Some w" "wr_state w = ACTIVE" "workspace_row_valid (with_usage w q)"
    "\<forall>x. amount_of x q = amount_of x (counts w) - amount_of x one_active_job"
    "t = s\<lparr>db_workspaces := replace_row wr_id (with_usage w q) (db_workspaces s)\<rparr>"
  from w(4) [rule_format, of ACTIVE_JOBS] have "qa_active_jobs q = wr_active_job_count w - 1" by simp
  with w(1-3,5) show thesis by (intro that)
qed

lemma mark_succeeded_ok:
  assumes s: "tables_ok st s" and run: "mark_succeeded st clock token now s = (Inr r, t)"
  shows "tables_ok st t"
proof -
  from run obtain a i where a: "attempt_of s token = Some a" and i: "item_of s (ja_work_item a) = Some i"
    and body: "(if wi_current_token i \<noteq> Some token
        then sbind (update_attempt token EXPIRED_ATTEMPT now None) (\<lambda>_. ok False)
        else sbind (save_item (released_row SUCCEEDED (wi_available_at i) now i))
          (\<lambda>_. sbind (update_attempt token SUCCEEDED_ATTEMPT now None)
          (\<lambda>_. sbind (release st clock (wi_workspace i) one_active_job)
          (\<lambda>_. ok True)))) s = (Inr r, t)"
    by (auto simp: mark_succeeded_def sbind_Inr)
  note f = claimed_item_facts [OF s a i]
  note k = tables_okD(1) [OF s]
  show ?thesis
  proof (cases "wi_current_token i = Some token")
    case False
    with body a have valid: "job_attempt_valid (finished_attempt EXPIRED_ATTEMPT now None a)"
      and t: "t = s\<lparr>db_attempts := replace_row ja_token (finished_attempt EXPIRED_ATTEMPT now None a) (db_attempts s)\<rparr>"
      by (auto simp: sbind_Inr update_attempt_Inr)
    show ?thesis by (rule attempt_expired [OF s f(1) _ valid t]) (use f(2,5) False in auto)
  next
    case True
    let ?j = "released_row SUCCEEDED (wi_available_at i) now i" and ?b = "finished_attempt SUCCEEDED_ATTEMPT now None a"
    let ?u = "s\<lparr>db_items := replace_row wi_id ?j (db_items s)\<rparr>"
    let ?v = "?u\<lparr>db_attempts := replace_row ja_token ?b (db_attempts s)\<rparr>"
    have "attempt_of ?u token = Some a" using a by (simp add: attempt_of_def)
    with True body obtain q where valid: "work_item_valid ?j" "job_attempt_valid ?b"
      and rel: "release st clock (wi_workspace i) one_active_job ?v = (Inr q, t)"
      by (auto simp: sbind_Inr update_attempt_Inr)
    from rel show ?thesis
    proof (rule release_one)
      fix w assume w: "workspace_of ?v (wi_workspace i) = Some w" "wr_state w = ACTIVE" "workspace_row_valid (with_usage w q)"
        "qa_active_jobs q = wr_active_job_count w - 1"
        "t = ?v\<lparr>db_workspaces := replace_row wr_id (with_usage w q) (db_workspaces ?v)\<rparr>"
      then have "w \<in> set (db_workspaces s)" "wr_id w = wi_workspace i"
        using workspace_of_iff [OF k] by (simp_all add: workspace_of_def)
      with w valid f True show ?thesis
        by (intro item_released [OF s f(1,3,4), of SUCCEEDED_ATTEMPT SUCCEEDED "wi_available_at i" now None t w q]) simp_all
    qed
  qed
qed

lemma mark_failed_ok:
  assumes s: "tables_ok st s" and ro: "ro_state outcome = READY \<or> ro_state outcome = FAILED"
    and run: "mark_failed st clock token outcome category now s = (Inr r, t)"
  shows "tables_ok st t"
proof -
  define available where "available i = (if ro_state outcome = READY
      then (case ro_available_at outcome of None \<Rightarrow> wi_available_at i | Some a \<Rightarrow> a) else wi_available_at i)" for i :: work_item
  from run obtain a i where a: "attempt_of s token = Some a" and i: "item_of s (ja_work_item a) = Some i"
    and body: "(if wi_current_token i \<noteq> Some token
        then sbind (update_attempt token EXPIRED_ATTEMPT now None) (\<lambda>_. ok False)
        else sbind (save_item (released_row (ro_state outcome) (available i) now i))
             (\<lambda>_. sbind (update_attempt token FAILED_ATTEMPT now (Some category))
             (\<lambda>_. sbind (if ro_state outcome = FAILED
                   then sbind (release st clock (wi_workspace i) one_active_job) (\<lambda>_. ok ()) else ok ())
             (\<lambda>_. ok True)))) s = (Inr r, t)"
    unfolding mark_failed_def atomic_Inr available_def Let_def sbind_Inr [of "claimed_item token"] claimed_item_Inr by blast
  note f = claimed_item_facts [OF s a i]
  note k = tables_okD(1) [OF s]
  show ?thesis
  proof (cases "wi_current_token i = Some token")
    case False
    with body a have valid: "job_attempt_valid (finished_attempt EXPIRED_ATTEMPT now None a)"
      and t: "t = s\<lparr>db_attempts := replace_row ja_token (finished_attempt EXPIRED_ATTEMPT now None a) (db_attempts s)\<rparr>"
      by (auto simp: sbind_Inr update_attempt_Inr)
    show ?thesis by (rule attempt_expired [OF s f(1) _ valid t]) (use f(2,5) False in auto)
  next
    case True
    let ?j = "released_row (ro_state outcome) (available i) now i" and ?b = "finished_attempt FAILED_ATTEMPT now (Some category) a"
    let ?u = "s\<lparr>db_items := replace_row wi_id ?j (db_items s)\<rparr>"
    let ?v = "?u\<lparr>db_attempts := replace_row ja_token ?b (db_attempts s)\<rparr>"
    have u: "attempt_of ?u token = Some a" using a by (simp add: attempt_of_def)
    with True body have valid: "work_item_valid ?j" "job_attempt_valid ?b"
      by (auto simp: sbind_Inr update_attempt_Inr)
    show ?thesis
    proof (cases "ro_state outcome = FAILED")
      case False
      with ro have ready: "ro_state outcome = READY" by simp
      with True body u have "t = ?v" by (auto simp: sbind_Inr update_attempt_Inr)
      with ready valid f True show ?thesis
        by (intro item_released [OF s f(1,3,4), of FAILED_ATTEMPT "ro_state outcome" "available i" now "Some category" t]) simp_all
    next
      case failed: True
      with True body u obtain q where rel: "release st clock (wi_workspace i) one_active_job ?v = (Inr q, t)"
        by (auto simp: sbind_Inr update_attempt_Inr)
      from rel show ?thesis
      proof (rule release_one)
        fix w assume w: "workspace_of ?v (wi_workspace i) = Some w" "wr_state w = ACTIVE" "workspace_row_valid (with_usage w q)"
          "qa_active_jobs q = wr_active_job_count w - 1"
          "t = ?v\<lparr>db_workspaces := replace_row wr_id (with_usage w q) (db_workspaces ?v)\<rparr>"
        then have "w \<in> set (db_workspaces s)" "wr_id w = wi_workspace i"
          using workspace_of_iff [OF k] by (simp_all add: workspace_of_def)
        with w valid f True failed show ?thesis
          by (intro item_released [OF s f(1,3,4), of FAILED_ATTEMPT "ro_state outcome" "available i" now "Some category" t w q]) simp_all
      qed
    qed
  qed
qed

end
