(* ===== verification/JobSteps.thy ===== *)
theory JobSteps
  imports JobMachine
begin

text \<open>
  The remaining operations preserve the invariant of the tables, and with them every step and
  every reachable state of the queue.
\<close>

section \<open>Batches of claims\<close>

lemma claim_row_keeps:
  assumes run: "claim_row st now lease i s = (Inr work, t)" and x: "x \<in> set (db_items s)" "wi_id x \<noteq> wi_id i"
  shows "x \<in> set (db_items t)"
proof -
  from claim_row_Inr [OF run] obtain l where
    "t = s\<lparr>db_serial := db_serial s + 1,
       db_items := replace_row wi_id (leased_row (st_token st (db_serial s)) now l i) (db_items s),
       db_attempts := db_attempts s @ [new_attempt i (st_token st (db_serial s)) now l]\<rparr>" by blast
  with x show ?thesis by (auto simp: replace_row_iff)
qed

lemma claim_rows_ok:
  assumes "settings_ok st" and "tables_ok st s" and "set is \<subseteq> set (db_items s)" and "distinct (map wi_id is)"
    and "\<And>i. i \<in> set is \<Longrightarrow> claimable_row now i"
    and "smap (claim_row st now lease) is s = (Inr works, t)"
  shows "tables_ok st t"
  using assms
proof (induction "is" arbitrary: s works)
  case Nil
  then show ?case by simp
next
  case (Cons i "is")
  from Cons.prems(6) obtain work u works' where u: "claim_row st now lease i s = (Inr work, u)"
    and rest: "smap (claim_row st now lease) is u = (Inr works', t)" by (auto simp: sbind_Inr)
  have "tables_ok st u" using Cons.prems by (intro claim_row_ok [OF _ _ _ _ u]) auto
  moreover have "set is \<subseteq> set (db_items u)"
  proof
    fix x assume "x \<in> set is"
    with Cons.prems(3,4) have "x \<in> set (db_items s)" "wi_id x \<in> wi_id ` set is" "wi_id i \<notin> wi_id ` set is" by auto
    then have "x \<in> set (db_items s)" "wi_id x \<noteq> wi_id i" by metis+
    then show "x \<in> set (db_items u)" by (rule claim_row_keeps [OF u])
  qed
  ultimately show ?case using Cons.prems rest by (intro Cons.IH [of u works']) auto
qed

lemma claim_candidates_facts:
  assumes "keys_ok st s"
  shows "set (claim_candidates rank locked kind now n s) \<subseteq> set (db_items s)"
    and "distinct (map wi_id (claim_candidates rank locked kind now n s))"
    and "i \<in> set (claim_candidates rank locked kind now n s) \<Longrightarrow> claimable_row now i \<and> wi_kind i = kind \<and> wi_id i \<notin> locked"
proof -
  let ?l = "sort_key (\<lambda>i. (wi_available_at i, rank (wi_id i))) (filter (\<lambda>i. wi_id i \<notin> locked \<and> wi_kind i = kind \<and> claimable_row now i) (db_items s))"
  have "distinct (map wi_id ?l)" using keys_okD(2) [OF assms] by (simp add: distinct_map_sort_key distinct_map_filter)
  then show "distinct (map wi_id (claim_candidates rank locked kind now n s))"
    unfolding claim_candidates_def take_map [symmetric] by (rule distinct_take)
  have sub: "set (claim_candidates rank locked kind now n s) \<subseteq> set ?l"
    unfolding claim_candidates_def by (rule set_take_subset)
  then show "set (claim_candidates rank locked kind now n s) \<subseteq> set (db_items s)" by (rule order_trans) simp
  show "claimable_row now i \<and> wi_kind i = kind \<and> wi_id i \<notin> locked" if "i \<in> set (claim_candidates rank locked kind now n s)"
    using subsetD [OF sub that] by simp
qed

lemma claim_batch_ok:
  assumes "settings_ok st" and s: "tables_ok st s" and run: "claim_batch st rank locked kind now lease n s = (Inr works, t)"
  shows "tables_ok st t"
proof -
  note c = claim_candidates_facts [OF tables_okD(1) [OF s], where rank = rank and locked = locked and kind = kind and now = now and n = n]
  from run have "smap (claim_row st now lease) (claim_candidates rank locked kind now n s) s = (Inr works, t)"
    by (auto simp: claim_batch_def sbind_Inr)
  then show ?thesis using c by (intro claim_rows_ok [OF assms(1) s]) auto
qed

lemma claim_one_ok:
  assumes "settings_ok st" and s: "tables_ok st s" and run: "claim_one st locked i now lease s = (Inr work, t)"
  shows "tables_ok st t"
proof (cases "find (\<lambda>x. wi_id x = i \<and> wi_id x \<notin> locked \<and> claimable_row now x) (db_items s)")
  case None
  with run s show ?thesis by (auto simp: claim_one_def sbind_Inr)
next
  case (Some x)
  with run obtain w where "claim_row st now lease x s = (Inr w, t)" by (auto simp: claim_one_def sbind_Inr)
  with find_Some_in [OF Some] show ?thesis by (intro claim_row_ok [OF assms(1) s]) auto
qed

section \<open>Workspaces\<close>

lemma create_workspace_Inr [simp]: "create_workspace w s = (Inr y, t) \<longleftrightarrow>
    wr_id w \<notin> wr_id ` set (db_workspaces s) \<and> wr_session_digest w \<notin> wr_session_digest ` set (db_workspaces s) \<and>
    workspace_row_valid w \<and> length (wr_session_digest w) \<le> 64 \<and> t = s\<lparr>db_workspaces := db_workspaces s @ [w]\<rparr>"
  by (auto simp: create_workspace_def sbind_Inr image_iff)

lemma repository_create_ok:
  assumes st: "settings_ok st" and s: "tables_ok st s" and run: "repository_create st digest created s = (Inr w, t)"
  shows "tables_ok st t"
proof -
  note k = tables_okD(1) [OF s]
  from run have w: "wr_id w = st_uuid st (db_serial s)" "wr_active_job_count w = 0" "workspace_row_valid w"
    and t: "t = s\<lparr>db_serial := db_serial s + 1, db_workspaces := db_workspaces s @ [w]\<rparr>"
    by (auto simp: repository_create_def sbind_Inr Let_def)
  have "keys_ok st t" using k w(1) fresh_uuid(2) [OF st k] by (auto simp: keys_ok_def t)
  moreover have "rows_ok t" using tables_okD(2) [OF s] w(3) by (auto simp: rows_ok_def t)
  moreover have "owned_ok t" using tables_okD(3) [OF s] by (auto simp: owned_ok_def t)
  moreover have "leases_ok t" using tables_okD(4) [OF s] by (simp add: leases_ok_def t)
  moreover have "quota_ok t"
  proof -
    have "wi_workspace i \<noteq> wr_id w" if "i \<in> set (db_items s)" for i
    proof -
      from tables_okD(3) [OF s] that obtain y where "y \<in> set (db_workspaces s)" "wr_id y = wi_workspace i"
        unfolding owned_ok_def by blast
      then have "wi_workspace i \<in> wr_id ` set (db_workspaces s)" by (metis imageI)
      with fresh_uuid(2) [OF st k] show ?thesis unfolding w(1) by metis
    qed
    then have "filter (holds_quota (wr_id w)) (db_items s) = []" by (auto simp: filter_empty_conv holds_quota_def)
    then show ?thesis using tables_okD(5) [OF s] w(2) by (auto simp: quota_ok_def t)
  qed
  ultimately show ?thesis by (simp add: tables_ok_def)
qed

text \<open>Quotas of resources other than jobs.\<close>

lemma reserve_ok:
  assumes s: "tables_ok st s" and q: "valid_amounts requested" "qa_active_jobs requested = 0"
    and run: "reserve st clock i requested s = (Inr r, t)"
  shows "tables_ok st t"
  using run q(1)
proof (rule reserve_Inr)
  fix w limits assume w: "workspace_of s i = Some w" "wr_state w = ACTIVE" "workspace_row_valid (with_usage w r)"
    "\<forall>x. amount_of x r = amount_of x (counts w) + amount_of x requested \<and> amount_of x r \<le> amount_of x limits"
    "t = s\<lparr>db_workspaces := replace_row wr_id (with_usage w r) (db_workspaces s)\<rparr>"
  from w(4) [rule_format, of ACTIVE_JOBS] q(2) have "qa_active_jobs r = wr_active_job_count w" by simp
  with w workspace_of_iff [OF tables_okD(1) [OF s]] show ?thesis
    by (intro workspace_replaced [OF s, of w "with_usage w r"]) simp_all
qed

lemma release_ok:
  assumes s: "tables_ok st s" and q: "qa_active_jobs released = 0" and run: "release st clock i released s = (Inr r, t)"
  shows "tables_ok st t"
  using run
proof (rule release_Inr)
  fix w assume w: "workspace_of s i = Some w" "wr_state w = ACTIVE" "workspace_row_valid (with_usage w r)"
    "\<forall>x. amount_of x r = amount_of x (counts w) - amount_of x released"
    "t = s\<lparr>db_workspaces := replace_row wr_id (with_usage w r) (db_workspaces s)\<rparr>"
  from w(4) [rule_format, of ACTIVE_JOBS] q have "qa_active_jobs r = wr_active_job_count w" by simp
  with w workspace_of_iff [OF tables_okD(1) [OF s]] show ?thesis
    by (intro workspace_replaced [OF s, of w "with_usage w r"]) simp_all
qed

lemma revoked_row_fields [simp]:
  "wr_id (revoked_row final at_time w) = wr_id w" "wr_active_job_count (revoked_row final at_time w) = wr_active_job_count w"
  "wr_session_digest (revoked_row final at_time w) = wr_session_digest w"
  by (simp_all add: revoked_row_def)

lemma revoked_row_inactive: "final \<noteq> ACTIVE \<Longrightarrow> wr_state (revoked_row final at_time w) \<noteq> ACTIVE"
  by (cases final) (auto simp: revoked_row_def)

lemma item_for_None: "item_for s target = None \<longleftrightarrow> target \<notin> wi_target ` set (db_items s)"
  by (auto simp: item_for_def find_None_iff)

lemma request_cleanup_Inr:
  "request_cleanup i reason at_time s = (Inr y, t) \<Longrightarrow> \<exists>c. t = s\<lparr>db_cleanups := c\<rparr>"
proof (cases "cleanup_of s i")
  assume "request_cleanup i reason at_time s = (Inr y, t)"
  moreover case None
  ultimately show ?thesis by (auto simp: request_cleanup_def sbind_Inr)
next
  assume run: "request_cleanup i reason at_time s = (Inr y, t)"
  case (Some c)
  show ?thesis
  proof (cases "reason = DELETED_WORKSPACE")
    case True
    with run Some show ?thesis by (auto simp: request_cleanup_def sbind_Inr)
  next
    case False
    with run Some have "t = s\<lparr>db_cleanups := db_cleanups s\<rparr>" by (simp add: request_cleanup_def sbind_Inr)
    then show ?thesis by blast
  qed
qed

text \<open>A new item without attempts, in a workspace that may hold it.\<close>

lemma item_created:
  assumes s: "tables_ok st s" and i: "wi_id i \<notin> wi_id ` set (db_items s)" "wi_target i \<notin> wi_target ` set (db_items s)"
      "wi_id i \<in> st_uuid st ` {..<db_serial t}" "work_item_valid i" "wi_state i = READY" "wi_attempt_count i = 0"
    and w: "w \<in> set (db_workspaces t)" "wr_id w = wi_workspace i"
      "wi_kind i = WORKSPACE_CLEANUP \<longrightarrow> wi_target i = CleanupRequest (wr_id w) \<and> wr_state w \<noteq> ACTIVE"
    and t: "db_items t = db_items s @ [i]" "db_attempts t = db_attempts s" "db_serial s \<le> db_serial t"
      "map wr_id (db_workspaces t) = map wr_id (db_workspaces s)"
    and ws: "\<forall>x \<in> set (db_workspaces t). workspace_row_valid x \<and> (\<exists>y \<in> set (db_workspaces s). wr_id x = wr_id y \<and>
      (wr_state x = ACTIVE \<longrightarrow> wr_state y = ACTIVE) \<and>
      wr_active_job_count x = wr_active_job_count y + of_bool (wr_id x = wi_workspace i \<and> wi_kind i \<noteq> WORKSPACE_CLEANUP))"
  shows "tables_ok st t"
proof -
  note k = tables_okD(1) [OF s]
  note d = keys_okD [OF k]
  have none: "ja_work_item a \<noteq> wi_id i" if "a \<in> set (db_attempts s)" for a
  proof -
    from tables_okD(3) [OF s] that obtain x where "x \<in> set (db_items s)" "wi_id x = ja_work_item a"
      unfolding owned_ok_def by blast
    then have "ja_work_item a \<in> wi_id ` set (db_items s)" by (metis imageI)
    with i(1) show ?thesis by metis
  qed
  have sub: "st_uuid st ` {..<db_serial s} \<subseteq> st_uuid st ` {..<db_serial t}" "st_token st ` {..<db_serial s} \<subseteq> st_token st ` {..<db_serial t}"
    using t(3) by auto
  have "keys_ok st t"
  proof -
    have "wi_id ` set (db_items s) \<subseteq> st_uuid st ` {..<db_serial t}" using k sub(1) unfolding keys_ok_def set_map by (meson order_trans)
    then have "set (map wi_id (db_items t)) \<subseteq> st_uuid st ` {..<db_serial t}" using i(3) by (simp add: t)
    moreover have "distinct (map wi_id (db_items t))" "distinct (map wi_target (db_items t))" using d(2,3) i(1,2) by (simp_all add: t)
    ultimately show ?thesis using k sub unfolding keys_ok_def t(2,4) by blast
  qed
  moreover have "rows_ok t" using tables_okD(2) [OF s] i(4) ws by (auto simp: rows_ok_def t)
  moreover have "owned_ok t"
  proof -
    have "\<exists>v \<in> set (db_workspaces t). wr_id v = wi_workspace x \<and> (wi_kind x = WORKSPACE_CLEANUP \<longrightarrow>
        wi_target x = CleanupRequest (wr_id v) \<and> wr_state v \<noteq> ACTIVE)" if x: "x \<in> set (db_items s)" for x
    proof -
      from tables_okD(3) [OF s] x obtain y where y: "y \<in> set (db_workspaces s)" "wr_id y = wi_workspace x"
        "wi_kind x = WORKSPACE_CLEANUP \<longrightarrow> wi_target x = CleanupRequest (wr_id y) \<and> wr_state y \<noteq> ACTIVE" by (auto simp: owned_ok_def)
      from y(1) t(4) have "wr_id y \<in> set (map wr_id (db_workspaces t))" by simp
      then obtain v where v: "v \<in> set (db_workspaces t)" "wr_id v = wr_id y" by auto
      with ws obtain z where "z \<in> set (db_workspaces s)" "wr_id v = wr_id z" "wr_state v = ACTIVE \<longrightarrow> wr_state z = ACTIVE" by blast
      with distinct_same [OF d(1) y(1) this(1)] v y show ?thesis by (intro bexI [of _ v]) auto
    qed
    then show ?thesis using w tables_okD(3) [OF s] by (auto simp: owned_ok_def t)
  qed
  moreover have "leases_ok t"
  proof (rule leases_okI)
    note l = leases_okD [OF tables_okD(4) [OF s]]
    show "\<exists>a \<in> set (db_attempts t). ja_token a = v \<and> ja_work_item a = wi_id x \<and> ja_outcome a = None \<and>
        wi_lease_until x = Some (ja_lease_until a)" if "x \<in> set (db_items t)" "wi_current_token x = Some v" for x v
    proof -
      have "wi_current_token i = None" using i(4,5) by (simp add: work_item_valid_def)
      with that have "x \<in> set (db_items s)" by (auto simp: t)
      then show ?thesis using l(1) that(2) by (simp add: t)
    qed
    show "\<exists>x \<in> set (db_items t). wi_id x = ja_work_item a \<and> wi_state x = SUCCEEDED"
      if "a \<in> set (db_attempts t)" "ja_outcome a = Some SUCCEEDED_ATTEMPT" for a
      using l(2) [of a] that by (auto simp: t)
    show "a = b" if "a \<in> set (db_attempts t)" "b \<in> set (db_attempts t)" "ja_outcome a = Some SUCCEEDED_ATTEMPT"
      "ja_outcome b = Some SUCCEEDED_ATTEMPT" "ja_work_item a = ja_work_item b" for a b
      using l(3) [of a b] that by (simp add: t)
    show "wi_attempt_count x = int (length (filter (\<lambda>a. ja_work_item a = wi_id x) (db_attempts t)))" if "x \<in> set (db_items t)" for x
    proof (cases "x = i")
      case True
      have "filter (\<lambda>a. ja_work_item a = wi_id i) (db_attempts s) = []" using none by (auto simp: filter_empty_conv)
      with True i(6) show ?thesis by (simp add: t)
    next
      case False
      with that have "x \<in> set (db_items s)" by (simp add: t)
      from l(4) [OF this] show ?thesis by (simp add: t)
    qed
  qed
  moreover have "quota_ok t"
    unfolding quota_ok_def
  proof
    fix x assume x: "x \<in> set (db_workspaces t)"
    with ws obtain y where y: "y \<in> set (db_workspaces s)" "wr_id x = wr_id y"
      "wr_active_job_count x = wr_active_job_count y + of_bool (wr_id x = wi_workspace i \<and> wi_kind i \<noteq> WORKSPACE_CLEANUP)" by blast
    have "wr_active_job_count y = int (length (filter (holds_quota (wr_id y)) (db_items s)))"
      using tables_okD(5) [OF s] y(1) by (simp add: quota_ok_def)
    moreover have "holds_quota (wr_id x) i \<longleftrightarrow> wr_id x = wi_workspace i \<and> wi_kind i \<noteq> WORKSPACE_CLEANUP"
      using i(5) by (auto simp: holds_quota_def)
    ultimately show "wr_active_job_count x = int (length (filter (holds_quota (wr_id x)) (db_items t)))"
      using y(2,3) by (simp add: t)
  qed
  ultimately show ?thesis by (simp add: tables_ok_def)
qed


section \<open>Enqueueing\<close>

lemma tables_ok_fields:
  assumes "tables_ok st s" and "db_workspaces t = db_workspaces s" and "db_items t = db_items s"
    and "db_attempts t = db_attempts s" and "db_serial s \<le> db_serial t"
  shows "tables_ok st t"
proof -
  have "keys_ok st t" by (rule keys_ok_mono [OF tables_okD(1) [OF assms(1)]]) (simp_all add: assms)
  with assms show ?thesis by (simp add: tables_ok_def rows_ok_def owned_ok_def leases_ok_def quota_ok_def)
qed

lemma new_item_fields [simp]:
  "wi_id (new_item i w kind target m now) = i" "wi_workspace (new_item i w kind target m now) = w"
  "wi_kind (new_item i w kind target m now) = kind" "wi_target (new_item i w kind target m now) = target"
  "wi_state (new_item i w kind target m now) = READY" "wi_attempt_count (new_item i w kind target m now) = 0"
  by (simp_all add: new_item_def)

lemma new_item_valid: "target_shape kind target \<Longrightarrow> 1 \<le> m \<Longrightarrow> m < 2 ^ 31 \<Longrightarrow> work_item_valid (new_item i w kind target m now)"
  by (simp add: work_item_valid_def new_item_def)

lemma reserve_one:
  assumes "reserve st clock i one_active_job s = (Inr q, t)"
  obtains w limits where "workspace_of s i = Some w" "wr_state w = ACTIVE" "clock < wr_expires_at w" "workspace_row_valid (with_usage w q)"
    "qa_active_jobs q = wr_active_job_count w + 1" "configured_limits st = Inr limits" "qa_active_jobs q \<le> qa_active_jobs limits"
    "t = s\<lparr>db_workspaces := replace_row wr_id (with_usage w q) (db_workspaces s)\<rparr>"
  using assms amount_one_active_job(2)
proof (rule reserve_Inr)
  fix w limits assume w: "workspace_of s i = Some w" "wr_state w = ACTIVE" "clock < wr_expires_at w" "workspace_row_valid (with_usage w q)"
    "configured_limits st = Inr limits"
    "\<forall>x. amount_of x q = amount_of x (counts w) + amount_of x one_active_job \<and> amount_of x q \<le> amount_of x limits"
    "t = s\<lparr>db_workspaces := replace_row wr_id (with_usage w q) (db_workspaces s)\<rparr>"
  from w(6) [rule_format, of ACTIVE_JOBS] have "qa_active_jobs q = wr_active_job_count w + 1" "qa_active_jobs q \<le> qa_active_jobs limits" by simp_all
  with w show thesis by (intro that [of w limits])
qed

lemma enqueue_cases:
  assumes st: "settings_ok st" and s: "tables_ok st s" and m: "1 \<le> m" "m < 2 ^ 31" and shape: "target_shape kind target"
    and new: "item_for s target = None"
  shows "(\<exists>e. enqueue st clock w kind m now target s = (Inl e, s)) \<or>
    (\<exists>q t. reserve st clock w one_active_job s = (Inr q, t) \<and>
       enqueue st clock w kind m now target s =
         (Inr (new_item (st_uuid st (db_serial s)) w kind target m now),
          t\<lparr>db_serial := db_serial s + 1, db_items := db_items s @ [new_item (st_uuid st (db_serial s)) w kind target m now]\<rparr>))"
proof (cases "reserve st clock w one_active_job s")
  case (Pair r t)
  show ?thesis
  proof (cases r)
    case (Inl e)
    with Pair transactional_ops(1) have "t = s" unfolding transactional_def by blast
    with Pair Inl new show ?thesis by (auto simp: enqueue_def sbind_run gets_def)
  next
    case (Inr q)
    with Pair have run: "reserve st clock w one_active_job s = (Inr q, t)" by simp
    let ?i = "new_item (st_uuid st (db_serial s)) w kind target m now"
    from run have t: "db_serial t = db_serial s" "db_items t = db_items s" by (auto elim!: reserve_one)
    have c: "create_item ?i (t\<lparr>db_serial := Suc (db_serial s)\<rparr>) = (Inr (), t\<lparr>db_serial := Suc (db_serial s), db_items := db_items s @ [?i]\<rparr>)"
      using fresh_uuid(1) [OF st tables_okD(1) [OF s]] new new_item_valid [OF shape m] t by (simp add: item_for_None)
    have "enqueue st clock w kind m now target s = (Inr ?i, t\<lparr>db_serial := db_serial s + 1, db_items := db_items s @ [?i]\<rparr>)"
      by (simp add: enqueue_def sbind_run gets_def run fresh_def modify_def ok_def t new Let_def c del: create_item_Inr)
    with run show ?thesis by blast
  qed
qed

lemma enqueue_ok:
  assumes st: "settings_ok st" and s: "tables_ok st s" and m: "1 \<le> m" "m < 2 ^ 31" and shape: "target_shape kind target"
    and kind: "kind \<noteq> WORKSPACE_CLEANUP"
  shows "tables_ok st (snd (enqueue st clock w kind m now target s))"
proof (cases "item_for s target")
  case (Some x)
  then show ?thesis using s by (simp add: enqueue_def sbind_run gets_def ok_def)
next
  case None
  from enqueue_cases [OF st s m shape None, of clock w now] show ?thesis
  proof
    assume "\<exists>e. enqueue st clock w kind m now target s = (Inl e, s)"
    with s show ?thesis by auto
  next
    let ?i = "new_item (st_uuid st (db_serial s)) w kind target m now"
    assume "\<exists>q t. reserve st clock w one_active_job s = (Inr q, t) \<and> enqueue st clock w kind m now target s =
       (Inr ?i, t\<lparr>db_serial := db_serial s + 1, db_items := db_items s @ [?i]\<rparr>)"
    then obtain q t where run: "reserve st clock w one_active_job s = (Inr q, t)"
      and eq: "snd (enqueue st clock w kind m now target s) = t\<lparr>db_serial := db_serial s + 1, db_items := db_items s @ [?i]\<rparr>" by auto
    note k = tables_okD(1) [OF s]
    from run show ?thesis
    proof (rule reserve_one)
      fix x limits assume x: "workspace_of s w = Some x" "wr_state x = ACTIVE" "workspace_row_valid (with_usage x q)"
        "qa_active_jobs q = wr_active_job_count x + 1" "t = s\<lparr>db_workspaces := replace_row wr_id (with_usage x q) (db_workspaces s)\<rparr>"
      from x(1) have in_s: "x \<in> set (db_workspaces s)" "wr_id x = w" using workspace_of_iff [OF k] by simp_all
      have "\<forall>v \<in> set (replace_row wr_id (with_usage x q) (db_workspaces s)). workspace_row_valid v \<and>
          (\<exists>y \<in> set (db_workspaces s). wr_id v = wr_id y \<and> (wr_state v = ACTIVE \<longrightarrow> wr_state y = ACTIVE) \<and>
            wr_active_job_count v = wr_active_job_count y + of_bool (wr_id v = w \<and> kind \<noteq> WORKSPACE_CLEANUP))"
      proof
        fix v assume "v \<in> set (replace_row wr_id (with_usage x q) (db_workspaces s))"
        then have "v = with_usage x q \<or> v \<in> set (db_workspaces s) \<and> wr_id v \<noteq> w" using in_s(2) by (auto simp: replace_row_iff)
        then show "workspace_row_valid v \<and> (\<exists>y \<in> set (db_workspaces s). wr_id v = wr_id y \<and> (wr_state v = ACTIVE \<longrightarrow> wr_state y = ACTIVE) \<and>
            wr_active_job_count v = wr_active_job_count y + of_bool (wr_id v = w \<and> kind \<noteq> WORKSPACE_CLEANUP))"
          using x in_s kind tables_okD(2) [OF s] by (elim disjE) (auto simp: rows_ok_def)
      qed
      moreover have "with_usage x q \<in> set (replace_row wr_id (with_usage x q) (db_workspaces s))" using in_s by (auto simp: replace_row_iff)
      ultimately show ?thesis
        unfolding eq using fresh_uuid(1) [OF st k] None new_item_valid [OF shape m] kind x in_s
        by (intro item_created [OF s, of ?i _ "with_usage x q"]) (simp_all add: item_for_None)
    qed
  qed
qed

section \<open>Revocation\<close>

lemma revoke_ok:
  assumes st: "settings_ok st" and s: "tables_ok st s" and final: "final \<noteq> ACTIVE"
    and run: "revoke st i now final reason s = (Inr v, t)"
  shows "tables_ok st t"
proof -
  note k = tables_okD(1) [OF s]
  from run obtain r w s1 s2 where w: "workspace_of s i = Some w"
    and s1: "(if final = DELETED \<or> wr_state w = ACTIVE then save_workspace (revoked_row final r w) else ok ()) s = (Inr (), s1)"
    and s2: "request_cleanup i reason r s1 = (Inr (), s2)"
    and s3: "request_cleanup_job st i r s2 = (Inr (), t)"
    by (auto simp: revoke_def sbind_Inr Let_def split: stamp.splits)
  from w have in_s: "w \<in> set (db_workspaces s)" "wr_id w = i" using workspace_of_iff [OF k] by simp_all
  let ?v = "revoked_row final r w"
  have ok1: "tables_ok st s1 \<and> ?v \<in> set (db_workspaces s1)"
  proof (cases "final = DELETED \<or> wr_state w = ACTIVE")
    case True
    with s1 have valid: "workspace_row_valid ?v" and t: "s1 = s\<lparr>db_workspaces := replace_row wr_id ?v (db_workspaces s)\<rparr>" by simp_all
    have "tables_ok st s1"
      using valid revoked_row_inactive [OF final] by (intro workspace_replaced [OF s in_s(1), of ?v]) (simp_all add: t)
    moreover have "?v \<in> set (db_workspaces s1)" using in_s by (auto simp: t replace_row_iff)
    ultimately show ?thesis by simp
  next
    case False
    then have "?v = w" by (simp add: revoked_row_def)
    with False s1 s in_s show ?thesis by simp
  qed
  from request_cleanup_Inr [OF s2] obtain c where c: "s2 = s1\<lparr>db_cleanups := c\<rparr>" by blast
  have ok2: "tables_ok st s2" by (rule tables_ok_fields [OF conjunct1 [OF ok1]]) (simp_all add: c)
  show ?thesis
  proof (cases "item_for s2 (CleanupRequest i)")
    case (Some x)
    with s3 ok2 show ?thesis by (auto simp: request_cleanup_job_def sbind_Inr)
  next
    case None
    let ?i = "new_item (st_uuid st (db_serial s2)) i WORKSPACE_CLEANUP (CleanupRequest i) (st_cleanup_max_attempts st) r"
    from s3 None have t: "t = s2\<lparr>db_serial := db_serial s2 + 1, db_items := db_items s2 @ [?i]\<rparr>" and valid: "work_item_valid ?i"
      by (auto simp: request_cleanup_job_def sbind_Inr)
    have "\<forall>x \<in> set (db_workspaces s2). workspace_row_valid x \<and> (\<exists>y \<in> set (db_workspaces s2). wr_id x = wr_id y \<and>
        (wr_state x = ACTIVE \<longrightarrow> wr_state y = ACTIVE) \<and> wr_active_job_count x = wr_active_job_count y +
          of_bool (wr_id x = wi_workspace ?i \<and> wi_kind ?i \<noteq> WORKSPACE_CLEANUP))"
      using tables_okD(2) [OF ok2] by (auto simp: rows_ok_def)
    moreover have "?v \<in> set (db_workspaces s2)" using ok1 by (simp add: c)
    ultimately show ?thesis
      using fresh_uuid(1) [OF st tables_okD(1) [OF ok2]] None valid in_s(2) revoked_row_inactive [OF final, of r w]
      by (intro item_created [OF ok2, of ?i _ ?v]) (simp_all add: item_for_None t)
  qed
qed

section \<open>Purges\<close>

lemma cleanup_target_owned:
  assumes "tables_ok st s" and "x \<in> set (db_items s)" and "wi_target x = CleanupRequest i"
  shows "wi_workspace x = i"
proof -
  have "wi_kind x = WORKSPACE_CLEANUP"
    using tables_okD(2) [OF assms(1)] assms(2,3) by (auto simp: rows_ok_def work_item_valid_def target_shape_def)
  moreover from tables_okD(3) [OF assms(1)] assms(2) obtain w :: workspace_row where "wr_id w = wi_workspace x"
    "wi_kind x = WORKSPACE_CLEANUP \<longrightarrow> wi_target x = CleanupRequest (wr_id w) \<and> wr_state w \<noteq> ACTIVE" unfolding owned_ok_def by blast
  ultimately show ?thesis using assms(3) by simp
qed

lemma attempt_owner:
  assumes s: "tables_ok st s" and a: "a \<in> set (db_attempts s)" and x: "x \<in> set (db_items s)" "wi_id x = ja_work_item a"
  shows "ja_workspace a = wi_workspace x"
proof -
  from tables_okD(3) [OF s] a obtain y where y: "y \<in> set (db_items s)" "wi_id y = ja_work_item a" "wi_workspace y = ja_workspace a"
    unfolding owned_ok_def by blast
  have "wi_id y = wi_id x" using y(2) x(2) by metis
  with distinct_same [OF keys_okD(2) [OF tables_okD(1) [OF s]] y(1) x(1)] y(3) show ?thesis by simp
qed

lemma delete_workspace_ok:
  assumes s: "tables_ok st s"
  shows "tables_ok st (delete_workspace i s)"
proof -
  let ?t = "delete_workspace i s"
  note k = tables_okD(1) [OF s]
  note d = keys_okD [OF k]
  have items: "db_items ?t = filter (\<lambda>x. wi_workspace x \<noteq> i) (db_items s)"
    using cleanup_target_owned [OF s] by (auto simp: delete_workspace_def intro!: filter_cong)
  have attempts: "db_attempts ?t = filter (\<lambda>a. ja_workspace a \<noteq> i) (db_attempts s)"
  proof -
    have "ja_workspace a \<noteq> i \<and> (\<forall>x \<in> set (db_items s). wi_id x = ja_work_item a \<longrightarrow> wi_workspace x \<noteq> i \<and> wi_target x \<noteq> CleanupRequest i) \<longleftrightarrow>
        ja_workspace a \<noteq> i" if "a \<in> set (db_attempts s)" for a
      using attempt_owner [OF s that] cleanup_target_owned [OF s] by metis
    then show ?thesis by (auto simp: delete_workspace_def intro!: filter_cong)
  qed
  have ws: "db_workspaces ?t = filter (\<lambda>w. wr_id w \<noteq> i) (db_workspaces s)" "db_serial ?t = db_serial s"
    by (simp_all add: delete_workspace_def)
  have "keys_ok st ?t" using k by (auto simp: keys_ok_def items attempts ws distinct_map_filter)
  moreover have "rows_ok ?t" using tables_okD(2) [OF s] by (simp add: rows_ok_def items attempts ws)
  moreover have "owned_ok ?t"
  proof -
    have "\<exists>w \<in> set (db_workspaces ?t). wr_id w = wi_workspace x \<and> (wi_kind x = WORKSPACE_CLEANUP \<longrightarrow>
        wi_target x = CleanupRequest (wr_id w) \<and> wr_state w \<noteq> ACTIVE)" if "x \<in> set (db_items ?t)" for x
      using tables_okD(3) [OF s] that unfolding owned_ok_def items ws by fastforce
    moreover have "\<exists>x \<in> set (db_items ?t). wi_id x = ja_work_item a \<and> wi_workspace x = ja_workspace a" if "a \<in> set (db_attempts ?t)" for a
      using tables_okD(3) [OF s] that unfolding owned_ok_def items attempts by fastforce
    ultimately show ?thesis unfolding owned_ok_def by blast
  qed
  moreover have "leases_ok ?t"
  proof (rule leases_okI)
    note l = leases_okD [OF tables_okD(4) [OF s]]
    fix x v assume x: "x \<in> set (db_items ?t)" "wi_current_token x = Some v"
    then have in_s: "x \<in> set (db_items s)" "wi_workspace x \<noteq> i" by (simp_all add: items)
    from l(1) [OF in_s(1) x(2)] obtain a where a: "a \<in> set (db_attempts s)" "ja_token a = v" "ja_work_item a = wi_id x" "ja_outcome a = None"
      "wi_lease_until x = Some (ja_lease_until a)" by blast
    with attempt_owner [OF s a(1) in_s(1)] in_s(2) show "\<exists>a \<in> set (db_attempts ?t). ja_token a = v \<and> ja_work_item a = wi_id x \<and>
        ja_outcome a = None \<and> wi_lease_until x = Some (ja_lease_until a)" by (auto simp: attempts)
  next
    fix a assume a: "a \<in> set (db_attempts ?t)" "ja_outcome a = Some SUCCEEDED_ATTEMPT"
    then have in_s: "a \<in> set (db_attempts s)" "ja_workspace a \<noteq> i" by (simp_all add: attempts)
    from leases_okD(2) [OF tables_okD(4) [OF s] in_s(1) a(2)] obtain x where x: "x \<in> set (db_items s)" "wi_id x = ja_work_item a" "wi_state x = SUCCEEDED"
      by blast
    with attempt_owner [OF s in_s(1) x(1,2)] in_s(2) show "\<exists>x \<in> set (db_items ?t). wi_id x = ja_work_item a \<and> wi_state x = SUCCEEDED"
      by (auto simp: items)
  next
    fix a b assume "a \<in> set (db_attempts ?t)" "b \<in> set (db_attempts ?t)" "ja_outcome a = Some SUCCEEDED_ATTEMPT"
      "ja_outcome b = Some SUCCEEDED_ATTEMPT" "ja_work_item a = ja_work_item b"
    then show "a = b" using leases_okD(3) [OF tables_okD(4) [OF s]] by (simp add: attempts)
  next
    fix x assume "x \<in> set (db_items ?t)"
    then have x: "x \<in> set (db_items s)" "wi_workspace x \<noteq> i" by (simp_all add: items)
    have "filter (\<lambda>a. ja_work_item a = wi_id x) (filter (\<lambda>a. ja_workspace a \<noteq> i) (db_attempts s)) = filter (\<lambda>a. ja_work_item a = wi_id x) (db_attempts s)"
      using attempt_owner [OF s _ x(1)] x(2) by (auto simp: filter_filter intro!: filter_cong)
    with leases_okD(4) [OF tables_okD(4) [OF s] x(1)]
    show "wi_attempt_count x = int (length (filter (\<lambda>a. ja_work_item a = wi_id x) (db_attempts ?t)))" by (simp add: attempts)
  qed
  moreover have "quota_ok ?t"
  proof -
    have "filter (holds_quota w) (filter (\<lambda>x. wi_workspace x \<noteq> i) (db_items s)) = filter (holds_quota w) (db_items s)" if "w \<noteq> i" for w
      using that by (auto simp: filter_filter holds_quota_def intro!: filter_cong)
    then show ?thesis using tables_okD(5) [OF s] by (simp add: quota_ok_def items ws)
  qed
  ultimately show ?thesis by (simp add: tables_ok_def)
qed

lemma purge_rows_Inr:
  "purge_rows i guard s = (Inr b, t) \<Longrightarrow> t = (if b then delete_workspace i s else s)"
  by (auto simp: purge_rows_def sbind_Inr split: option.splits)

lemma purge_workspace_ok:
  assumes s: "tables_ok st s"
  shows "tables_ok st (snd (purge_workspace i guard s))"
proof (cases "purge_rows i guard s")
  case (Pair r t)
  show ?thesis
  proof (cases r)
    case (Inl e)
    with Pair transactional_ops(7) have "t = s" unfolding transactional_def by blast
    with Pair Inl s show ?thesis by (simp add: purge_workspace_def sbind_run gets_def ok_def)
  next
    case (Inr b)
    with Pair have t: "t = (if b then delete_workspace i s else s)" using purge_rows_Inr by blast
    have "tables_ok st t" using delete_workspace_ok [OF s] s t by simp
    then have "tables_ok st (t\<lparr>db_store := z\<rparr>)" for z by (rule tables_ok_fields) simp_all
    with Pair Inr s \<open>tables_ok st t\<close> show ?thesis by (simp add: purge_workspace_def sbind_run gets_def ok_def modify_def)
  qed
qed

end
