(* ===== verification/JobRuns.thy ===== *)
theory JobRuns
  imports JobSteps
begin

text \<open>
  The queue as a transition system, and what holds along its runs: the counters, the fencing of
  stale leases, the finality of finished jobs, and progress.
\<close>

section \<open>Steps\<close>

definition empty_db :: db where
  "empty_db = \<lparr>db_workspaces = [], db_cleanups = [], db_items = [], db_attempts = [], db_artifacts = [],
     db_store = [], db_serial = 0\<rparr>"

text \<open>
  One transaction of a service, whatever it returns or raises. Other components enqueue imports
  and runs with a positive number of attempts, and hold quotas of bytes and books.
\<close>

inductive job_step :: "settings \<Rightarrow> db \<Rightarrow> db \<Rightarrow> bool" for st :: settings where
  created: "job_step st s (snd (repository_create st digest now s))"
| enqueued: "1 \<le> m \<Longrightarrow> m < 2 ^ 31 \<Longrightarrow> target_shape kind target \<Longrightarrow> kind \<noteq> WORKSPACE_CLEANUP \<Longrightarrow>
    job_step st s (snd (enqueue st clock w kind m at_time target s))"
| claimed_batch: "job_step st s (snd (claim_batch st rank locked kind at_time lease n s))"
| claimed_one: "job_step st s (snd (claim_one st locked i at_time lease s))"
| succeeded: "job_step st s (snd (mark_succeeded st clock token at_time s))"
| failed: "retry_outcome (ro_state outcome) (ro_available_at outcome) = Inr outcome \<Longrightarrow>
    job_step st s (snd (mark_failed st clock token outcome category at_time s))"
| expired: "job_step st s (snd (expire st w now s))"
| deleted: "job_step st s (snd (delete_requested st w now s))"
| purged: "job_step st s (snd (purge_workspace w guard s))"
| reserved: "valid_amounts q \<Longrightarrow> qa_active_jobs q = 0 \<Longrightarrow> job_step st s (snd (reserve st clock w q s))"
| released: "qa_active_jobs q = 0 \<Longrightarrow> job_step st s (snd (release st clock w q s))"

inductive_cases job_stepE: "job_step st s t"

inductive reachable :: "settings \<Rightarrow> db \<Rightarrow> bool" for st :: settings where
  start: "reachable st empty_db"
| step: "reachable st s \<Longrightarrow> job_step st s t \<Longrightarrow> reachable st t"

lemma transactional_create [simp]: "transactional (repository_create st digest now)"
  by (simp add: repository_create_def transactional_reading)

lemma empty_db_ok: "tables_ok st empty_db"
  by (simp add: tables_ok_def keys_ok_def rows_ok_def owned_ok_def leases_ok_def quota_ok_def empty_db_def)

lemma retry_outcome_state: "retry_outcome (ro_state r) (ro_available_at r) = Inr r \<Longrightarrow> ro_state r = READY \<or> ro_state r = FAILED"
  by (auto simp: retry_outcome_Inr)

lemma transaction_ok:
  "transactional m \<Longrightarrow> tables_ok st s \<Longrightarrow> (\<And>x t. m s = (Inr x, t) \<Longrightarrow> tables_ok st t) \<Longrightarrow> tables_ok st (snd (m s))"
  by (rule transactional_state [where P = "tables_ok st"])

lemma job_step_ok:
  assumes st: "settings_ok st" and step: "job_step st s t" and s: "tables_ok st s"
  shows "tables_ok st t"
  using step
proof cases
  case (created digest now)
  show ?thesis unfolding created(1) by (rule transaction_ok [OF _ s]) (auto intro: repository_create_ok [OF st s])
next
  case (enqueued m kind target clock w at_time)
  then show ?thesis using enqueue_ok [OF st s] by simp
next
  case (claimed_batch rank locked kind at_time lease n)
  show ?thesis unfolding claimed_batch by (rule transaction_ok [OF _ s]) (auto intro: claim_batch_ok [OF st s])
next
  case (claimed_one locked i at_time lease)
  show ?thesis unfolding claimed_one by (rule transaction_ok [OF _ s]) (auto intro: claim_one_ok [OF st s])
next
  case (succeeded clock token at_time)
  show ?thesis unfolding succeeded by (rule transaction_ok [OF _ s]) (auto intro: mark_succeeded_ok [OF s])
next
  case (failed outcome clock token category at_time)
  show ?thesis unfolding failed(1)
    by (rule transaction_ok [OF _ s]) (auto intro: mark_failed_ok [OF s retry_outcome_state [OF failed(2)]])
next
  case (expired w now)
  show ?thesis unfolding expired expire_def by (rule transaction_ok [OF _ s]) (auto intro: revoke_ok [OF st s])
next
  case (deleted w now)
  show ?thesis unfolding deleted delete_requested_def by (rule transaction_ok [OF _ s]) (auto intro: revoke_ok [OF st s])
next
  case (purged w guard)
  then show ?thesis using purge_workspace_ok [OF s] by simp
next
  case (reserved q clock w)
  show ?thesis unfolding reserved(1) by (rule transaction_ok [OF _ s]) (auto intro: reserve_ok [OF s reserved(2,3)])
next
  case (released q clock w)
  show ?thesis unfolding released(1) by (rule transaction_ok [OF _ s]) (auto intro: release_ok [OF s released(2)])
qed

lemma reachable_ok:
  assumes "settings_ok st" and "reachable st s"
  shows "tables_ok st s"
  using assms(2) by induction (auto intro: empty_db_ok job_step_ok [OF assms(1)])


section \<open>Finished jobs\<close>

definition finished :: "work_item \<Rightarrow> bool" where
  "finished i \<longleftrightarrow> wi_state i = SUCCEEDED \<or> wi_state i = FAILED"

definition keeps_finished :: "db \<Rightarrow> db \<Rightarrow> bool" where
  "keeps_finished s t \<longleftrightarrow> (\<forall>i \<in> set (db_items s). finished i \<longrightarrow> i \<in> set (db_items t) \<or> (\<forall>w \<in> set (db_workspaces t). wr_id w \<noteq> wi_workspace i))"

lemma keeps_finished_refl [simp]: "keeps_finished s s"
  by (simp add: keeps_finished_def)

lemma keeps_finishedI: "(\<And>i. i \<in> set (db_items s) \<Longrightarrow> finished i \<Longrightarrow> i \<in> set (db_items t)) \<Longrightarrow> keeps_finished s t"
  by (simp add: keeps_finished_def)

lemma keeps_transaction:
  "transactional m \<Longrightarrow> (\<And>x t. m s = (Inr x, t) \<Longrightarrow> keeps_finished s t) \<Longrightarrow> keeps_finished s (snd (m s))"
  by (rule transactional_state [where P = "keeps_finished s"]) simp_all

lemma claim_rows_keep:
  assumes "smap (claim_row st now lease) is s = (Inr works, t)" and "x \<in> set (db_items s)" and "wi_id x \<notin> wi_id ` set is"
  shows "x \<in> set (db_items t)"
  using assms
proof (induction "is" arbitrary: s works)
  case Nil
  then show ?case by simp
next
  case (Cons i "is")
  from Cons.prems(1) obtain work u works' where u: "claim_row st now lease i s = (Inr work, u)"
    and rest: "smap (claim_row st now lease) is u = (Inr works', t)" by (auto simp: sbind_Inr)
  have "x \<in> set (db_items u)" using Cons.prems(2,3) by (intro claim_row_keeps [OF u]) auto
  then show ?case using Cons.prems(3) by (intro Cons.IH [OF rest]) auto
qed

lemma claimable_not_finished: "claimable_row now i \<Longrightarrow> \<not> finished i"
  by (auto simp: claimable_row_def finished_def)

lemma claim_batch_keeps:
  assumes s: "tables_ok st s" and run: "claim_batch st rank locked kind now lease n s = (Inr works, t)"
  shows "keeps_finished s t"
proof (rule keeps_finishedI)
  note k = tables_okD(1) [OF s]
  note c = claim_candidates_facts [OF k, where rank = rank and locked = locked and kind = kind and now = now and n = n]
  from run have claims: "smap (claim_row st now lease) (claim_candidates rank locked kind now n s) s = (Inr works, t)"
    by (auto simp: claim_batch_def sbind_Inr)
  fix i assume i: "i \<in> set (db_items s)" "finished i"
  have "wi_id i \<notin> wi_id ` set (claim_candidates rank locked kind now n s)"
  proof
    assume "wi_id i \<in> wi_id ` set (claim_candidates rank locked kind now n s)"
    then obtain j where j: "j \<in> set (claim_candidates rank locked kind now n s)" "wi_id i = wi_id j" by auto
    with c(1) distinct_same [OF keys_okD(2) [OF k] i(1)] have "i = j" by blast
    with c(3) [OF j(1)] i(2) claimable_not_finished show False by blast
  qed
  with claims i(1) show "i \<in> set (db_items t)" by (rule claim_rows_keep)
qed

lemma claim_one_keeps:
  assumes s: "tables_ok st s" and run: "claim_one st locked i now lease s = (Inr work, t)"
  shows "keeps_finished s t"
proof (cases "find (\<lambda>x. wi_id x = i \<and> wi_id x \<notin> locked \<and> claimable_row now x) (db_items s)")
  case None
  with run show ?thesis by (auto simp: claim_one_def sbind_Inr)
next
  case (Some x)
  with run obtain w where w: "claim_row st now lease x s = (Inr w, t)" by (auto simp: claim_one_def sbind_Inr)
  from find_Some_in [OF Some] have x: "x \<in> set (db_items s)" "\<not> finished x" using claimable_not_finished by blast+
  show ?thesis
  proof (rule keeps_finishedI)
    fix j assume j: "j \<in> set (db_items s)" "finished j"
    then have "wi_id j \<noteq> wi_id x" using distinct_same [OF keys_okD(2) [OF tables_okD(1) [OF s]] j(1) x(1)] x(2) by auto
    with j(1) show "j \<in> set (db_items t)" by (rule claim_row_keeps [OF w])
  qed
qed

lemma replaced_keeps:
  assumes s: "tables_ok st s" and i: "i \<in> set (db_items s)" "wi_current_token i = Some v" and j: "wi_id j = wi_id i"
    and t: "db_items t = replace_row wi_id j (db_items s)"
  shows "keeps_finished s t"
proof (rule keeps_finishedI)
  fix x assume x: "x \<in> set (db_items s)" "finished x"
  have "wi_state i = LEASED"
    using tables_okD(2) [OF s] i by (auto simp: rows_ok_def work_item_valid_def split: if_splits)
  then have "wi_id x \<noteq> wi_id i" using distinct_same [OF keys_okD(2) [OF tables_okD(1) [OF s]] x(1) i(1)] x(2) by (auto simp: finished_def)
  with x(1) j show "x \<in> set (db_items t)" by (auto simp: t replace_row_iff)
qed

lemma release_items: "release st clock w q s = (Inr r, t) \<Longrightarrow> db_items t = db_items s \<and> db_attempts t = db_attempts s"
  by (auto elim!: release_Inr)

lemma mark_succeeded_keeps:
  assumes s: "tables_ok st s" and run: "mark_succeeded st clock token now s = (Inr r, t)"
  shows "keeps_finished s t"
proof -
  from run obtain a i where a: "attempt_of s token = Some a" and i: "item_of s (ja_work_item a) = Some i"
    and items: "db_items t = (if wi_current_token i = Some token then replace_row wi_id (released_row SUCCEEDED (wi_available_at i) now i) (db_items s) else db_items s)"
    by (auto simp: mark_succeeded_def sbind_Inr update_attempt_Inr split: if_splits option.splits dest!: release_items)
  note f = claimed_item_facts [OF s a i]
  show ?thesis
  proof (cases "wi_current_token i = Some token")
    case True
    with items show ?thesis by (intro replaced_keeps [OF s f(3)]) auto
  next
    case False
    with items show ?thesis by (simp add: keeps_finished_def)
  qed
qed

lemma mark_failed_keeps:
  assumes s: "tables_ok st s" and run: "mark_failed st clock token outcome category now s = (Inr r, t)"
  shows "keeps_finished s t"
proof -
  define available where "available i = (if ro_state outcome = READY
      then (case ro_available_at outcome of None \<Rightarrow> wi_available_at i | Some a \<Rightarrow> a) else wi_available_at i)" for i :: work_item
  from run obtain a i where a: "attempt_of s token = Some a" and i: "item_of s (ja_work_item a) = Some i"
    and body: "(if wi_current_token i \<noteq> Some token
        then sbind (update_attempt token EXPIRED_ATTEMPT now None) (\<lambda>_. ok False)
        else sbind (save_item (released_row (ro_state outcome) (available i) now i))
             (\<lambda>_. sbind (update_attempt token FAILED_ATTEMPT now (Some category))
             (\<lambda>_. sbind (if ro_state outcome = FAILED
                   then sbind (release st clock (wi_workspace i) one_active_job) (\<lambda>_. ok ()) else ok ())
             (\<lambda>_. ok True)))) s = (Inr r, t)"
    unfolding mark_failed_def atomic_Inr available_def Let_def sbind_Inr [of "claimed_item token"] claimed_item_Inr by blast
  note f = claimed_item_facts [OF s a i]
  show ?thesis
  proof (cases "wi_current_token i = Some token")
    case True
    with body have "db_items t = replace_row wi_id (released_row (ro_state outcome) (available i) now i) (db_items s)"
      by (auto simp: sbind_Inr update_attempt_Inr split: if_splits option.splits dest!: release_items)
    with True show ?thesis by (intro replaced_keeps [OF s f(3)]) auto
  next
    case False
    with body have "db_items t = db_items s" by (auto simp: sbind_Inr update_attempt_Inr split: option.splits)
    then show ?thesis by (simp add: keeps_finished_def)
  qed
qed

lemma revoke_keeps:
  assumes run: "revoke st i now final reason s = (Inr v, t)"
  shows "keeps_finished s t"
proof (rule keeps_finishedI)
  from run obtain r w s1 s2 where
    s1: "(if final = DELETED \<or> wr_state w = ACTIVE then save_workspace (revoked_row final r w) else ok ()) s = (Inr (), s1)"
    and s2: "request_cleanup i reason r s1 = (Inr (), s2)"
    and s3: "request_cleanup_job st i r s2 = (Inr (), t)"
    by (auto simp: revoke_def sbind_Inr Let_def split: stamp.splits)
  have "db_items s1 = db_items s" using s1 by (auto split: if_splits)
  moreover have "db_items s2 = db_items s1" using request_cleanup_Inr [OF s2] by auto
  moreover have "set (db_items s2) \<subseteq> set (db_items t)"
    using s3 by (auto simp: request_cleanup_job_def sbind_Inr split: option.splits)
  ultimately show "x \<in> set (db_items t)" if "x \<in> set (db_items s)" for x using that by auto
qed

lemma purge_keeps:
  assumes s: "tables_ok st s"
  shows "keeps_finished s (snd (purge_workspace i guard s))"
proof (cases "purge_rows i guard s")
  case (Pair r t)
  have deleted: "keeps_finished s ((delete_workspace i s)\<lparr>db_store := z\<rparr>)" for z
    using cleanup_target_owned [OF s] by (auto simp: keeps_finished_def delete_workspace_def)
  show ?thesis
  proof (cases r)
    case (Inl e)
    with Pair transactional_ops(7) have "t = s" unfolding transactional_def by blast
    with Pair Inl show ?thesis by (simp add: purge_workspace_def sbind_run gets_def ok_def)
  next
    case (Inr b)
    with Pair have t: "t = (if b then delete_workspace i s else s)" using purge_rows_Inr by blast
    show ?thesis
    proof (cases b)
      case True
      with Pair Inr t deleted show ?thesis by (simp add: purge_workspace_def sbind_run gets_def ok_def modify_def)
    next
      case False
      with Pair Inr t show ?thesis by (simp add: purge_workspace_def sbind_run gets_def ok_def modify_def)
    qed
  qed
qed

lemma enqueue_keeps:
  assumes st: "settings_ok st" and s: "tables_ok st s" and m: "1 \<le> m" "m < 2 ^ 31" and shape: "target_shape kind target"
  shows "keeps_finished s (snd (enqueue st clock w kind m now target s))"
proof (cases "item_for s target")
  case (Some x)
  then show ?thesis by (simp add: enqueue_def sbind_run gets_def ok_def)
next
  case None
  from enqueue_cases [OF st s m shape None, of clock w now] show ?thesis
    by (auto simp: keeps_finished_def)
qed

lemma job_step_keeps:
  assumes st: "settings_ok st" and s: "tables_ok st s" and step: "job_step st s t"
  shows "keeps_finished s t"
  using step
proof cases
  case (created digest now)
  show ?thesis unfolding created(1)
    by (rule keeps_transaction [OF transactional_create]) (auto simp: repository_create_def sbind_Inr Let_def keeps_finished_def)
next
  case (enqueued m kind target clock w at_time)
  then show ?thesis using enqueue_keeps [OF st s] by simp
next
  case (claimed_batch rank locked kind at_time lease n)
  show ?thesis unfolding claimed_batch by (rule keeps_transaction) (auto intro: claim_batch_keeps [OF s])
next
  case (claimed_one locked i at_time lease)
  show ?thesis unfolding claimed_one by (rule keeps_transaction) (auto intro: claim_one_keeps [OF s])
next
  case (succeeded clock token at_time)
  show ?thesis unfolding succeeded by (rule keeps_transaction) (auto intro: mark_succeeded_keeps [OF s])
next
  case (failed outcome clock token category at_time)
  show ?thesis unfolding failed(1) by (rule keeps_transaction) (auto intro: mark_failed_keeps [OF s])
next
  case (expired w now)
  show ?thesis unfolding expired expire_def by (rule keeps_transaction) (auto intro: revoke_keeps)
next
  case (deleted w now)
  show ?thesis unfolding deleted delete_requested_def by (rule keeps_transaction) (auto intro: revoke_keeps)
next
  case (purged w guard)
  then show ?thesis using purge_keeps [OF s] by simp
next
  case (reserved q clock w)
  show ?thesis unfolding reserved(1)
    by (rule keeps_transaction) (auto simp: keeps_finished_def elim!: reserve_Inr [OF _ reserved(2)])
next
  case (released q clock w)
  show ?thesis unfolding released(1) by (rule keeps_transaction) (auto simp: keeps_finished_def dest: release_items)
qed

end
