(* ===== verification/JobClaims.thy ===== *)
theory JobClaims
  imports JobRuns
begin

text \<open>
  The properties of the job queue: the invariant of every reachable state read off as facts about
  the tables, fencing and finality, the agreement of the claim query with the domain rule, and
  progress of abandoned and failed work.
\<close>

section \<open>A concrete queue\<close>

definition sample_settings :: settings where
  "sample_settings = \<lparr>st_uuid = (\<lambda>n. replicate n (CHR ''u'')), st_token = (\<lambda>n. replicate (n + 1) (CHR ''t'')),
     st_retained_bytes_limit = 1000, st_book_limit = 10, st_active_job_limit = 2, st_cleanup_max_attempts = 3\<rparr>"

definition sample_created :: db where
  "sample_created = snd (repository_create sample_settings ''digest'' (utc_stamp 0) empty_db)"

definition sample_enqueued :: db where
  "sample_enqueued = snd (enqueue sample_settings 0 '''' IMPORT_VALIDATION 3 0 (ImportAttempt ''a'') sample_created)"

definition sample_claimed :: db where
  "sample_claimed = snd (claim_one sample_settings {} ''u'' 1 10 sample_enqueued)"

definition sample_reclaimed :: db where
  "sample_reclaimed = snd (claim_one sample_settings {} ''u'' 20 10 sample_claimed)"

definition sample_workspace :: "int \<Rightarrow> workspace_row" where
  "sample_workspace jobs = \<lparr>wr_id = '''', wr_session_digest = ''digest'', wr_state = ACTIVE, wr_created_at = 0,
     wr_expires_at = 7 * us_per_day, wr_revoked_at = None, wr_deleted_at = None, wr_retained_bytes = 0,
     wr_book_count = 0, wr_active_job_count = jobs\<rparr>"

definition sample_item :: work_item where
  "sample_item = new_item ''u'' '''' IMPORT_VALIDATION (ImportAttempt ''a'') 3 0"

definition sample_attempt :: "string \<Rightarrow> int \<Rightarrow> int \<Rightarrow> job_attempt" where
  "sample_attempt token leased until = new_attempt sample_item token leased until"

definition sample_leased :: work_item where
  "sample_leased = leased_row ''ttt'' 1 11 sample_item"

definition sample_leased_again :: work_item where
  "sample_leased_again = leased_row ''tttt'' 20 30 sample_leased"

lemmas sample_defs = sample_settings_def sample_workspace_def sample_item_def sample_attempt_def sample_leased_def
  sample_leased_again_def new_item_def new_attempt_def leased_row_def empty_db_def

lemma sample_settings_ok: "settings_ok sample_settings"
proof -
  have "x = y" if "replicate x (CHR ''u'') = replicate y (CHR ''u'')" for x y using arg_cong [OF that, of length] by simp
  moreover have "x = y" if "replicate (x + 1) (CHR ''t'') = replicate (y + 1) (CHR ''t'')" for x y
    using arg_cong [OF that, of length] by simp
  ultimately show ?thesis unfolding settings_ok_def sample_settings_def by (auto simp: inj_def)
qed

lemma sample_created_eval: "repository_create sample_settings ''digest'' (utc_stamp 0) empty_db =
    (Inr (sample_workspace 0), empty_db\<lparr>db_workspaces := [sample_workspace 0], db_serial := 1\<rparr>)"
  by (simp add: repository_create_def policy_expires_at_def default_expiry_def as_utc_def valid_datetime_def dt_add_def
      datetime_max_def us_per_day_def op_simps fresh_def create_workspace_def sample_defs workspace_row_valid_def Let_def)

lemma sample_enqueued_eval: "enqueue sample_settings 0 '''' IMPORT_VALIDATION 3 0 (ImportAttempt ''a'')
    (empty_db\<lparr>db_workspaces := [sample_workspace 0], db_serial := 1\<rparr>) =
    (Inr sample_item, empty_db\<lparr>db_workspaces := [sample_workspace 1], db_items := [sample_item], db_serial := 2\<rparr>)"
  by (simp add: enqueue_def item_for_def op_simps reserve_def locked_workspace_def configured_limits_def one_active_job_def
      quota_amounts_post_init_def checks.simps workspace_of_def require_active_def evaluate_def as_utc_def valid_datetime_def
      datetime_max_def us_per_day_def usage_of_def quota_reserve_def quota_plus_def save_workspace_def with_usage_def
      workspace_row_valid_def replace_row_def fresh_def create_item_def work_item_valid_def target_shape_def sample_defs Let_def)

lemma sample_claimed_eval: "claim_one sample_settings {} ''u'' 1 10
    (empty_db\<lparr>db_workspaces := [sample_workspace 1], db_items := [sample_item], db_serial := 2\<rparr>) =
    (Inr (Some (sample_leased, ''ttt'')), empty_db\<lparr>db_workspaces := [sample_workspace 1], db_items := [sample_leased],
       db_attempts := [sample_attempt ''ttt'' 1 11], db_serial := 3\<rparr>)"
  by (simp add: claim_one_def claim_row_def op_simps fresh_def lease_token_def checks.simps dt_add_def valid_datetime_def
      datetime_max_def us_per_day_def save_item_def create_attempt_def work_item_valid_def target_shape_def job_attempt_valid_def
      replace_row_def claimable_row_def sample_defs numeral_eq_Suc)

lemma sample_reclaimed_eval: "claim_one sample_settings {} ''u'' 20 10
    (empty_db\<lparr>db_workspaces := [sample_workspace 1], db_items := [sample_leased],
       db_attempts := [sample_attempt ''ttt'' 1 11], db_serial := 3\<rparr>) =
    (Inr (Some (sample_leased_again, ''tttt'')), empty_db\<lparr>db_workspaces := [sample_workspace 1], db_items := [sample_leased_again],
       db_attempts := [sample_attempt ''ttt'' 1 11, sample_attempt ''tttt'' 20 30], db_serial := 4\<rparr>)"
  by (simp add: claim_one_def claim_row_def op_simps fresh_def lease_token_def checks.simps dt_add_def valid_datetime_def
      datetime_max_def us_per_day_def save_item_def create_attempt_def work_item_valid_def target_shape_def job_attempt_valid_def
      replace_row_def claimable_row_def sample_defs numeral_eq_Suc)

lemma sample_queue:
  "sample_created = empty_db\<lparr>db_workspaces := [sample_workspace 0], db_serial := 1\<rparr>"
  "sample_enqueued = empty_db\<lparr>db_workspaces := [sample_workspace 1], db_items := [sample_item], db_serial := 2\<rparr>"
  "sample_claimed = empty_db\<lparr>db_workspaces := [sample_workspace 1], db_items := [sample_leased],
     db_attempts := [sample_attempt ''ttt'' 1 11], db_serial := 3\<rparr>"
  "sample_reclaimed = empty_db\<lparr>db_workspaces := [sample_workspace 1], db_items := [sample_leased_again],
     db_attempts := [sample_attempt ''ttt'' 1 11, sample_attempt ''tttt'' 20 30], db_serial := 4\<rparr>"
  unfolding sample_reclaimed_def sample_claimed_def sample_enqueued_def sample_created_def
  by (simp_all only: sample_created_eval sample_enqueued_eval sample_claimed_eval sample_reclaimed_eval snd_conv)

lemma sample_reachable: "reachable sample_settings sample_enqueued" "reachable sample_settings sample_claimed"
  "reachable sample_settings sample_reclaimed"
proof -
  have "reachable sample_settings sample_created"
    unfolding sample_created_def by (intro reachable.step [OF reachable.start] job_step.created)
  then show e: "reachable sample_settings sample_enqueued"
    unfolding sample_enqueued_def by (rule reachable.step) (rule job_step.enqueued; simp add: target_shape_def)
  then show c: "reachable sample_settings sample_claimed"
    unfolding sample_claimed_def by (rule reachable.step) (rule job_step.claimed_one)
  then show "reachable sample_settings sample_reclaimed"
    unfolding sample_reclaimed_def by (rule reachable.step) (rule job_step.claimed_one)
qed

lemma find_only:
  assumes "x \<in> set xs" and "Q x" and "\<And>y. y \<in> set xs \<Longrightarrow> Q y \<Longrightarrow> y = x"
  shows "find Q xs = Some x"
proof (cases "find Q xs")
  case None
  then have "\<forall>y \<in> set xs. \<not> Q y" by (simp add: find_None_iff)
  with assms(1,2) show ?thesis by blast
next
  case (Some y)
  from find_Some_in [OF Some] have "y = x" by (intro assms(3)) simp_all
  with Some show ?thesis by simp
qed

section \<open>The invariant of every reachable state\<close>

text \<open>C24. Every state the services can reach is well formed: all rows satisfy the check constraints, the keys are
  unique, a job belongs to a workspace of the table and an attempt to a job of the same workspace.\<close>

theorem reachable_tables_well_formed:
  assumes "settings_ok st" and "reachable st s"
  shows "(\<forall>w \<in> set (db_workspaces s). workspace_row_valid w) \<and> (\<forall>i \<in> set (db_items s). work_item_valid i) \<and>
    (\<forall>a \<in> set (db_attempts s). job_attempt_valid a) \<and> distinct (map wi_target (db_items s)) \<and>
    distinct (map wi_id (db_items s)) \<and> distinct (map ja_token (db_attempts s)) \<and>
    (\<forall>i \<in> set (db_items s). \<exists>w \<in> set (db_workspaces s). wr_id w = wi_workspace i) \<and>
    (\<forall>a \<in> set (db_attempts s). \<exists>i \<in> set (db_items s). wi_id i = ja_work_item a \<and> wi_workspace i = ja_workspace a)"
proof -
  note s = tables_okD [OF reachable_ok [OF assms]]
  have "\<exists>w \<in> set (db_workspaces s). wr_id w = wi_workspace i" if "i \<in> set (db_items s)" for i
    using s(3) that unfolding owned_ok_def by blast
  moreover have "\<exists>i \<in> set (db_items s). wi_id i = ja_work_item a \<and> wi_workspace i = ja_workspace a" if "a \<in> set (db_attempts s)" for a
    using s(3) that unfolding owned_ok_def by blast
  ultimately show ?thesis using s(2) keys_okD [OF s(1)] by (simp add: rows_ok_def)
qed

theorem reachable_tables_well_formed_witness:
  "distinct (map wi_target (db_items sample_reclaimed)) \<and> db_attempts sample_reclaimed \<noteq> []"
  using reachable_tables_well_formed [OF sample_settings_ok sample_reachable(3)] by (simp add: sample_queue(4))

text \<open>C9. The \<open>active_job_count\<close> of a workspace is the number of its import and run jobs that are ready or leased, in
  every state the services can reach.\<close>

theorem active_jobs_counted:
  assumes "settings_ok st" and "reachable st s" and "w \<in> set (db_workspaces s)"
  shows "wr_active_job_count w = int (length (filter (\<lambda>i. wi_workspace i = wr_id w \<and> wi_kind i \<noteq> WORKSPACE_CLEANUP \<and>
      (wi_state i = READY \<or> wi_state i = LEASED)) (db_items s)))"
  using tables_okD(5) [OF reachable_ok [OF assms(1,2)]] assms(3) unfolding quota_ok_def holds_quota_def by blast

theorem active_jobs_counted_witness:
  "wr_active_job_count (sample_workspace 1) = int (length (db_items sample_reclaimed))"
proof -
  have "sample_workspace 1 \<in> set (db_workspaces sample_reclaimed)" by (simp add: sample_queue(4))
  from active_jobs_counted [OF sample_settings_ok sample_reachable(3) this] show ?thesis
    by (simp add: sample_queue(4) sample_defs)
qed

text \<open>C10. A job succeeds at most once: whatever leases expired and were taken over, at most one of its attempts is
  recorded as successful, and then the job itself is.\<close>

theorem success_at_most_once:
  assumes "settings_ok st" and "reachable st s" and "a \<in> set (db_attempts s)" and "ja_outcome a = Some SUCCEEDED_ATTEMPT"
  shows "(\<exists>i \<in> set (db_items s). wi_id i = ja_work_item a \<and> wi_state i = SUCCEEDED) \<and>
    (\<forall>b \<in> set (db_attempts s). ja_work_item b = ja_work_item a \<and> ja_outcome b = Some SUCCEEDED_ATTEMPT \<longrightarrow> b = a)"
proof -
  note l = leases_okD [OF tables_okD(4) [OF reachable_ok [OF assms(1,2)]]]
  from l(2) [OF assms(3,4)] l(3) [OF _ assms(3) _ assms(4)] show ?thesis by blast
qed

definition sample_done :: db where
  "sample_done = snd (mark_succeeded sample_settings 25 ''tttt'' 25 sample_reclaimed)"

definition sample_finished :: work_item where
  "sample_finished = released_row SUCCEEDED 0 25 sample_leased_again"

lemma sample_done_eval: "mark_succeeded sample_settings 25 ''tttt'' 25 sample_reclaimed =
    (Inr True, empty_db\<lparr>db_workspaces := [sample_workspace 0], db_items := [sample_finished],
       db_attempts := [sample_attempt ''ttt'' 1 11,
         finished_attempt SUCCEEDED_ATTEMPT 25 None (sample_attempt ''tttt'' 20 30)], db_serial := 4\<rparr>)"
  by (simp add: sample_queue(4) mark_succeeded_def claimed_item_def op_simps attempt_of_def item_of_def update_attempt_def
      save_item_def replace_row_def work_item_valid_def target_shape_def job_attempt_valid_def released_row_def
      release_def locked_workspace_def configured_limits_def one_active_job_def quota_minus_def save_workspace_def
      quota_amounts_post_init_def checks.simps workspace_of_def require_active_def evaluate_def as_utc_def valid_datetime_def
      datetime_max_def us_per_day_def usage_of_def with_usage_def workspace_row_valid_def finished_attempt_def
      sample_finished_def sample_defs Let_def)

lemma sample_done: "reachable sample_settings sample_done"
  "sample_done = empty_db\<lparr>db_workspaces := [sample_workspace 0], db_items := [sample_finished],
     db_attempts := [sample_attempt ''ttt'' 1 11,
       finished_attempt SUCCEEDED_ATTEMPT 25 None (sample_attempt ''tttt'' 20 30)], db_serial := 4\<rparr>"
proof -
  show "reachable sample_settings sample_done"
    unfolding sample_done_def by (rule reachable.step [OF sample_reachable(3)]) (rule job_step.succeeded)
qed (simp only: sample_done_def sample_done_eval snd_conv)

theorem success_at_most_once_witness:
  "\<exists>i \<in> set (db_items sample_done). wi_id i = ''u'' \<and> wi_state i = SUCCEEDED"
proof -
  have a: "finished_attempt SUCCEEDED_ATTEMPT 25 None (sample_attempt ''tttt'' 20 30) \<in> set (db_attempts sample_done)"
    by (simp add: sample_done(2))
  from success_at_most_once [OF sample_settings_ok sample_done(1) a] show ?thesis
    by (simp add: sample_attempt_def sample_item_def new_item_def)
qed

text \<open>C28. A job that succeeded or failed for good is never touched again: no step changes its row, and only the
  deletion of its workspace removes it.\<close>

theorem finished_is_final:
  assumes "settings_ok st" and "reachable st s" and "job_step st s t"
    and "i \<in> set (db_items s)" and "wi_state i = SUCCEEDED \<or> wi_state i = FAILED"
  shows "i \<in> set (db_items t) \<or> (\<forall>w \<in> set (db_workspaces t). wr_id w \<noteq> wi_workspace i)"
  using job_step_keeps [OF assms(1) reachable_ok [OF assms(1,2)] assms(3)] assms(4,5)
  unfolding keeps_finished_def finished_def by blast

theorem finished_is_final_witness:
  "sample_finished \<in> set (db_items (snd (claim_one sample_settings {} ''u'' 100 10 sample_done))) \<or>
   db_workspaces (snd (claim_one sample_settings {} ''u'' 100 10 sample_done)) = []"
proof -
  have i: "sample_finished \<in> set (db_items sample_done)" by (simp add: sample_done(2))
  have "wi_state sample_finished = SUCCEEDED \<or> wi_state sample_finished = FAILED" by (simp add: sample_finished_def)
  from finished_is_final [OF sample_settings_ok sample_done(1) job_step.claimed_one i this, of "{}" "''u''" 100 10]
  show ?thesis
    by (auto simp: claim_one_def op_simps claimable_row_def sample_done(2) sample_finished_def sample_defs)
qed

section \<open>Fencing and the claim query\<close>

text \<open>C11. A worker whose lease was taken over can change nothing: acknowledging with a token that is not the current
  one of the job neither returns True nor touches a job, a workspace or any attempt but its own.\<close>

theorem stale_token_fenced:
  assumes "attempt_of s token = Some a" and "item_of s (ja_work_item a) = Some i" and "wi_current_token i \<noteq> Some token"
    and "m = mark_succeeded st clock token now \<or> m = mark_failed st clock token outcome category now"
  shows "fst (m s) \<noteq> Inr True \<and> db_items (snd (m s)) = db_items s \<and> db_workspaces (snd (m s)) = db_workspaces s \<and>
    (\<forall>b \<in> set (db_attempts s). ja_token b \<noteq> token \<longrightarrow> b \<in> set (db_attempts (snd (m s))))"
proof -
  have "m s = atomic (sbind (update_attempt token EXPIRED_ATTEMPT now None) (\<lambda>_. ok False)) s"
    using assms by (auto simp: mark_succeeded_def mark_failed_def atomic_def sbind_run claimed_item_def gets_def ok_def)
  moreover have "ja_token a = token" using find_Some_in assms(1) unfolding attempt_of_def by fastforce
  ultimately show ?thesis
    using assms(1) by (auto simp: op_simps update_attempt_def Let_def replace_row_def image_iff)
qed

theorem stale_token_fenced_witness:
  "db_items (snd (mark_succeeded sample_settings 25 ''ttt'' 25 sample_reclaimed)) = [sample_leased_again]"
proof -
  have a: "attempt_of sample_reclaimed ''ttt'' = Some (sample_attempt ''ttt'' 1 11)"
    by (simp add: sample_queue(4) attempt_of_def sample_defs)
  have i: "item_of sample_reclaimed (ja_work_item (sample_attempt ''ttt'' 1 11)) = Some sample_leased_again"
    by (simp add: sample_queue(4) item_of_def sample_defs)
  have "wi_current_token sample_leased_again \<noteq> Some ''ttt''" by (simp add: sample_leased_again_def)
  from stale_token_fenced [OF a i this disjI1 [OF refl], of sample_settings 25 25] show ?thesis
    by (simp add: sample_queue(4))
qed

text \<open>C34. The filter of the claim query agrees with the domain rule \<open>is_claimable\<close> on every row that satisfies the
  check constraints.\<close>

theorem claim_query_is_claimable:
  assumes "work_item_valid i" and "valid_datetime (wi_available_at i)" and "valid_datetime now"
    and "pred_option valid_datetime (wi_lease_until i)"
  shows "rbind (claim_snapshot (wi_state i) (utc_stamp (wi_available_at i)) (map_option utc_stamp (wi_lease_until i)))
      (\<lambda>c. is_claimable c (utc_stamp now)) = Inr (claimable_row now i)"
  using assms
  by (cases "wi_state i"; cases "wi_lease_until i")
    (auto simp: claim_snapshot_def optional_utc_def is_claimable_def claimable_row_def checks.simps work_item_valid_def)

theorem claim_query_is_claimable_witness:
  "rbind (claim_snapshot LEASED (utc_stamp 0) (Some (utc_stamp 11))) (\<lambda>c. is_claimable c (utc_stamp 20)) = Inr True"
proof -
  have "work_item_valid sample_leased" by (simp add: sample_defs work_item_valid_def target_shape_def)
  from claim_query_is_claimable [OF this, of 20] show ?thesis
    by (simp add: sample_defs valid_datetime_def datetime_max_def us_per_day_def claimable_row_def)
qed

section \<open>Progress\<close>

text \<open>C26. Work of a crashed worker is picked up: once its lease has expired, claiming the job succeeds, under a new
  lease that fences the old token.\<close>

theorem expired_lease_is_reclaimed:
  assumes "settings_ok st" and "reachable st s" and i: "i \<in> set (db_items s)" "wi_id i \<notin> locked"
    and state: "wi_state i = LEASED" "wi_lease_until i = Some l" "l < now"
    and lease: "0 < lease" "valid_datetime (now + lease)" and count: "wi_attempt_count i + 1 < 2 ^ 31"
    and token: "st_token st (db_serial s) \<noteq> []" "length (st_token st (db_serial s)) \<le> 64"
  shows "\<exists>t j. claim_one st locked (wi_id i) now lease s = (Inr (Some (j, st_token st (db_serial s))), t) \<and>
    j \<in> set (db_items t) \<and> wi_id j = wi_id i \<and> wi_current_token j = Some (st_token st (db_serial s)) \<and>
    wi_lease_until j = Some (now + lease) \<and> wi_current_token i \<noteq> Some (st_token st (db_serial s))"
proof -
  let ?T = "st_token st (db_serial s)"
  note s = reachable_ok [OF assms(1,2)]
  note k = tables_okD(1) [OF s]
  note new = fresh_token [OF assms(1) k]
  have valid: "work_item_valid i" using tables_okD(2) [OF s] i(1) by (simp add: rows_ok_def)
  have "find (\<lambda>x. wi_id x = wi_id i \<and> wi_id x \<notin> locked \<and> claimable_row now x) (db_items s) = Some i"
    using i state distinct_same [OF keys_okD(2) [OF k] _ i(1)]
    by (intro find_only) (auto simp: claimable_row_def)
  moreover have "work_item_valid (leased_row ?T now (now + lease) i)"
    using valid count by (auto simp: work_item_valid_def leased_row_def)
  moreover have "job_attempt_valid (new_attempt i ?T now (now + lease))"
    using lease(1) by (simp add: job_attempt_valid_def new_attempt_def)
  ultimately have "claim_one st locked (wi_id i) now lease s = (Inr (Some (leased_row ?T now (now + lease) i, ?T)),
      s\<lparr>db_serial := db_serial s + 1, db_items := replace_row wi_id (leased_row ?T now (now + lease) i) (db_items s),
        db_attempts := db_attempts s @ [new_attempt i ?T now (now + lease)]\<rparr>)"
    using token new lease(2)
    by (auto simp: claim_one_def sbind_Inr claim_row_def lease_token_def checks_Inr_iff dt_add_def image_iff)
  moreover have "leased_row ?T now (now + lease) i \<in> set (replace_row wi_id (leased_row ?T now (now + lease) i) (db_items s))"
    using i(1) by (auto simp: replace_row_iff)
  moreover have "wi_current_token i \<noteq> Some ?T"
    using leases_okD(1) [OF tables_okD(4) [OF s] i(1), of ?T] new by (metis image_eqI)
  ultimately show ?thesis by auto
qed

theorem expired_lease_is_reclaimed_witness:
  "\<exists>t j. claim_one sample_settings {} ''u'' 20 10 sample_claimed = (Inr (Some (j, ''tttt'')), t) \<and>
     wi_lease_until j = Some 30"
proof -
  have i: "sample_leased \<in> set (db_items sample_claimed)" by (simp add: sample_queue(3))
  have f: "wi_id sample_leased \<notin> {}" "wi_state sample_leased = LEASED" "wi_lease_until sample_leased = Some 11"
    "(11::int) < 20" "(0::int) < 10" "valid_datetime (20 + 10)" "wi_attempt_count sample_leased + 1 < 2 ^ 31"
    "st_token sample_settings (db_serial sample_claimed) \<noteq> []" "length (st_token sample_settings (db_serial sample_claimed)) \<le> 64"
    by (simp_all add: sample_queue(3) sample_defs valid_datetime_def datetime_max_def us_per_day_def)
  from expired_lease_is_reclaimed [OF sample_settings_ok sample_reachable(2) i f] show ?thesis
    by (auto simp: sample_queue(3) sample_defs numeral_eq_Suc)
qed

section \<open>Completion of a current lease\<close>

text \<open>While a job is open its unit of the quota is reserved, so releasing it cannot fail in a live workspace.\<close>

lemma release_returns:
  assumes s: "tables_ok st s" and i: "i \<in> set (db_items s)" "holds_quota (wr_id w) i"
    and w: "workspace_of s (wi_workspace i) = Some w" "wr_state w = ACTIVE" "clock < wr_expires_at w"
      "valid_datetime clock" "valid_datetime (wr_expires_at w)"
    and limits: "configured_limits st = Inr limits" and t: "db_workspaces t = db_workspaces s"
  shows "release st clock (wi_workspace i) one_active_job t =
    (Inr (quota_minus (counts w) one_active_job),
     t\<lparr>db_workspaces := replace_row wr_id (with_usage w (quota_minus (counts w) one_active_job)) (db_workspaces s)\<rparr>)"
proof -
  from find_Some_in [OF w(1) [unfolded workspace_of_def]] have row: "w \<in> set (db_workspaces s)" by simp
  with tables_okD(2) [OF s] have valid: "workspace_row_valid w" by (simp add: rows_ok_def)
  have "wr_active_job_count w = int (length (filter (holds_quota (wr_id w)) (db_items s)))"
    using tables_okD(5) [OF s] row by (simp add: quota_ok_def)
  moreover have "filter (holds_quota (wr_id w)) (db_items s) \<noteq> []" using i by (auto simp: filter_empty_conv)
  ultimately have count: "1 \<le> wr_active_job_count w" by (cases "filter (holds_quota (wr_id w)) (db_items s)") auto
  have "workspace_of t (wi_workspace i) = Some w" using w(1) t by (simp add: workspace_of_def)
  moreover have "workspace_row_valid (with_usage w (quota_minus (counts w) one_active_job))"
    using valid count w(2) by (simp add: workspace_row_valid_def with_usage_def quota_minus_def counts_def one_active_job_def)
  moreover have "usage_of w = Inr (counts w)"
    using valid by (simp add: usage_of_Inr valid_amounts_def all_resources counts_def workspace_row_valid_def)
  moreover have "quota_amounts_post_init (quota_minus (counts w) one_active_job) = Inr (quota_minus (counts w) one_active_job)"
    using valid count by (simp add: quota_amounts_post_init_Inr valid_amounts_def all_resources quota_minus_def counts_def
        one_active_job_def workspace_row_valid_def)
  moreover have "0 \<le> wr_retained_bytes w" "0 \<le> wr_book_count w" using valid by (simp_all add: workspace_row_valid_def)
  ultimately show ?thesis
    using count limits require_active_passes [OF w(2-5)] t
    by (simp add: release_def op_simps locked_workspace_def save_workspace_def Let_def)
      (simp add: quota_minus_def one_active_job_def counts_def)
qed

lemma current_lease:
  assumes s: "tables_ok st s" and a: "attempt_of s token = Some a" and i: "item_of s (ja_work_item a) = Some i"
    and token: "wi_current_token i = Some token"
  shows "i \<in> set (db_items s)" "work_item_valid i" "wi_state i = LEASED" "ja_outcome a = None" "job_attempt_valid a"
    "1 \<le> wi_attempt_count i" "wi_id i = ja_work_item a"
proof -
  note k = tables_okD(1) [OF s]
  from i item_of_iff [OF k] show 1: "i \<in> set (db_items s)" and id: "wi_id i = ja_work_item a" by auto
  with tables_okD(2) [OF s] show 2: "work_item_valid i" by (simp add: rows_ok_def)
  with token show "wi_state i = LEASED" by (auto simp: work_item_valid_def split: if_splits)
  from a attempt_of_iff [OF k] have a': "a \<in> set (db_attempts s)" "ja_token a = token" by auto
  with tables_okD(2) [OF s] show "job_attempt_valid a" by (simp add: rows_ok_def)
  from leases_okD(1) [OF tables_okD(4) [OF s] 1 token] obtain b where b: "b \<in> set (db_attempts s)" "ja_token b = token" "ja_outcome b = None"
    by blast
  with a' distinct_same [OF keys_okD(4) [OF k], of a b] show "ja_outcome a = None" by auto
  have "filter (\<lambda>a. ja_work_item a = wi_id i) (db_attempts s) \<noteq> []" using a' id by (auto simp: filter_empty_conv)
  with leases_okD(4) [OF tables_okD(4) [OF s] 1] show "1 \<le> wi_attempt_count i"
    by (cases "filter (\<lambda>a. ja_work_item a = wi_id i) (db_attempts s)") auto
qed

lemma item_of_replaced: "item_of (s\<lparr>db_items := replace_row wi_id j (db_items s)\<rparr>) (wi_id j) =
    (if \<exists>x \<in> set (db_items s). wi_id x = wi_id j then Some j else None)"
  by (auto simp: item_of_def find_replace_row find_None_iff)

lemma workspace_of_replaced: "workspace_of s (wr_id w) = Some v \<Longrightarrow> db_workspaces t = replace_row wr_id w (db_workspaces s) \<Longrightarrow>
    workspace_of t (wr_id w) = Some w"
  by (auto simp: workspace_of_def find_replace_row dest: find_Some_in)

text \<open>C27. The holder of the current lease of an import or run job in a live workspace can always acknowledge it: the
  job is recorded as succeeded and its unit of the quota is returned.\<close>

theorem current_lease_succeeds:
  assumes "settings_ok st" and "reachable st s" and a: "attempt_of s token = Some a" and i: "item_of s (ja_work_item a) = Some i"
    and token: "wi_current_token i = Some token" and kind: "wi_kind i \<noteq> WORKSPACE_CLEANUP"
    and w: "workspace_of s (wi_workspace i) = Some w" "wr_state w = ACTIVE" "clock < wr_expires_at w"
      "valid_datetime clock" "valid_datetime (wr_expires_at w)" and limits: "configured_limits st = Inr limits"
  shows "\<exists>t j v. mark_succeeded st clock token now s = (Inr True, t) \<and> item_of t (wi_id i) = Some j \<and>
    wi_state j = SUCCEEDED \<and> wi_current_token j = None \<and> workspace_of t (wi_workspace i) = Some v \<and>
    wr_active_job_count v = wr_active_job_count w - 1"
proof -
  note s = reachable_ok [OF assms(1,2)]
  note c = current_lease [OF s a i token]
  define j where "j = released_row SUCCEEDED (wi_available_at i) now i"
  define b where "b = finished_attempt SUCCEEDED_ATTEMPT now None a"
  define u where "u = s\<lparr>db_items := replace_row wi_id j (db_items s), db_attempts := replace_row ja_token b (db_attempts s)\<rparr>"
  have hold: "holds_quota (wr_id w) i" using kind c(3) find_Some_in [OF w(1) [unfolded workspace_of_def]] by (simp add: holds_quota_def)
  have j: "work_item_valid j" "wi_id j = wi_id i" using c(2) by (auto simp: j_def released_row_def work_item_valid_def)
  have b: "job_attempt_valid b" using c(4,5) by (simp add: b_def finished_attempt_def job_attempt_valid_def)
  have "mark_succeeded st clock token now s = (Inr True, snd (release st clock (wi_workspace i) one_active_job u))"
    using a i token j(1) b release_returns [OF s c(1) hold w limits, of u]
    by (simp add: mark_succeeded_def op_simps claimed_item_def save_item_def update_attempt_def attempt_of_def Let_def
        j_def [symmetric] b_def finished_attempt_def u_def)
  moreover have "wr_id w = wi_workspace i" using find_Some_in [OF w(1) [unfolded workspace_of_def]] by simp
  ultimately show ?thesis
    using release_returns [OF s c(1) hold w limits, of u] w(1) j(2) c(1)
    by (auto simp: u_def item_of_def workspace_of_def find_replace_row j_def quota_minus_def one_active_job_def counts_def
        dest: find_Some_in)
qed

lemma sample_rows:
  "attempt_of sample_reclaimed ''tttt'' = Some (sample_attempt ''tttt'' 20 30)"
  "item_of sample_reclaimed (ja_work_item (sample_attempt ''tttt'' 20 30)) = Some sample_leased_again"
  "wi_current_token sample_leased_again = Some ''tttt''" "wi_kind sample_leased_again \<noteq> WORKSPACE_CLEANUP"
  "workspace_of sample_reclaimed (wi_workspace sample_leased_again) = Some (sample_workspace 1)"
  "wr_state (sample_workspace 1) = ACTIVE" "25 < wr_expires_at (sample_workspace 1)" "valid_datetime 25"
  "valid_datetime (wr_expires_at (sample_workspace 1))" 
  "configured_limits sample_settings = Inr \<lparr>qa_retained_bytes = 1000, qa_books = 10, qa_active_jobs = 2\<rparr>"
  by (simp_all add: sample_queue(4) attempt_of_def item_of_def workspace_of_def sample_defs valid_datetime_def
      datetime_max_def us_per_day_def configured_limits_def quota_amounts_post_init_def checks.simps)

theorem current_lease_succeeds_witness:
  "\<exists>t. mark_succeeded sample_settings 25 ''tttt'' 25 sample_reclaimed = (Inr True, t)"
  using current_lease_succeeds [OF sample_settings_ok sample_reachable(3) sample_rows, of 25] by blast

text \<open>C25. A failed attempt of the current lease, recorded with the decision of the retry policy, makes the job ready
  again after an exponential delay while the failure is transient and attempts are left, and otherwise fails it for
  good and returns its unit of the quota.\<close>

theorem failure_retries_or_fails:
  assumes "settings_ok st" and "reachable st s" and a: "attempt_of s token = Some a" and i: "item_of s (ja_work_item a) = Some i"
    and token: "wi_current_token i = Some token" and kind: "wi_kind i \<noteq> WORKSPACE_CLEANUP"
    and w: "workspace_of s (wi_workspace i) = Some w" "wr_state w = ACTIVE" "clock < wr_expires_at w"
      "valid_datetime clock" "valid_datetime (wr_expires_at w)" and limits: "configured_limits st = Inr limits"
    and now: "valid_datetime now" and decision: "decide p (wi_attempt_count i) category (utc_stamp now) = Inr outcome"
  shows "\<exists>t j v. mark_failed st clock token outcome category now s = (Inr True, t) \<and> item_of t (wi_id i) = Some j \<and>
    wi_current_token j = None \<and> workspace_of t (wi_workspace i) = Some v \<and>
    (if category = TRANSIENT \<and> wi_attempt_count i < rt_max_attempts p
     then wi_state j = READY \<and> wi_available_at j = now + rt_backoff p * 2 ^ nat (wi_attempt_count i - 1) \<and> v = w
     else wi_state j = FAILED \<and> wr_active_job_count v = wr_active_job_count w - 1)"
proof -
  note s = reachable_ok [OF assms(1,2)]
  note c = current_lease [OF s a i token]
  have retry: "category = TRANSIENT \<and> wi_attempt_count i < rt_max_attempts p \<longleftrightarrow> ro_state outcome = READY"
    using decision c(6) now decide_retry [OF decision _ now]
    by (cases category) (auto simp: decide_permanent decide_exhausted decide_def checks.simps rbind_Inr_iff retry_outcome_Inr)
  define j where "j = released_row (ro_state outcome) (if ro_state outcome = READY
      then (case ro_available_at outcome of None \<Rightarrow> wi_available_at i | Some x \<Rightarrow> x) else wi_available_at i) now i"
  define b where "b = finished_attempt FAILED_ATTEMPT now (Some category) a"
  define u where "u = s\<lparr>db_items := replace_row wi_id j (db_items s), db_attempts := replace_row ja_token b (db_attempts s)\<rparr>"
  have states: "ro_state outcome = READY \<or> ro_state outcome = FAILED" using decide_cases [OF decision] by blast
  have hold: "holds_quota (wr_id w) i" using kind c(3) find_Some_in [OF w(1) [unfolded workspace_of_def]] by (simp add: holds_quota_def)
  have j: "work_item_valid j" "wi_id j = wi_id i" using c(2) states by (auto simp: j_def released_row_def work_item_valid_def)
  have b: "job_attempt_valid b" using c(4,5) by (simp add: b_def finished_attempt_def job_attempt_valid_def)
  have run: "mark_failed st clock token outcome category now s = (Inr True,
      if ro_state outcome = FAILED then snd (release st clock (wi_workspace i) one_active_job u) else u)"
    using a i token j(1) b release_returns [OF s c(1) hold w limits, of u]
    by (auto simp: mark_failed_def op_simps claimed_item_def save_item_def update_attempt_def attempt_of_def Let_def
        j_def [symmetric] b_def finished_attempt_def u_def)
  have ids: "wr_id w = wi_workspace i" using find_Some_in [OF w(1) [unfolded workspace_of_def]] by simp
  have item: "item_of t (wi_id i) = Some j" if "db_items t = replace_row wi_id j (db_items s)" for t
    using that j(2) c(1) by (auto simp: item_of_def find_replace_row)
  show ?thesis
  proof (cases "ro_state outcome = READY")
    case True
    have "item_of u (wi_id i) = Some j" "workspace_of u (wi_workspace i) = Some w"
      using w(1) by (auto simp: item u_def workspace_of_def)
    with True run retry decide_retry [OF decision True now] show ?thesis by (auto simp: j_def released_row_def)
  next
    case False
    with states have failed: "ro_state outcome = FAILED" by blast
    let ?v = "with_usage w (quota_minus (counts w) one_active_job)"
    have "item_of (snd (release st clock (wi_workspace i) one_active_job u)) (wi_id i) = Some j"
      "workspace_of (snd (release st clock (wi_workspace i) one_active_job u)) (wi_workspace i) = Some ?v"
      using release_returns [OF s c(1) hold w limits, of u] w(1) ids
      by (auto simp: item u_def workspace_of_def find_replace_row dest: find_Some_in)
    with False failed run retry show ?thesis
      by (auto simp: j_def quota_minus_def one_active_job_def counts_def)
  qed
qed

theorem failure_retries_or_fails_witness:
  "\<exists>t j. mark_failed sample_settings 25 ''tttt'' \<lparr>ro_state = READY, ro_available_at = Some 225\<rparr> TRANSIENT 25 sample_reclaimed =
     (Inr True, t) \<and> item_of t ''u'' = Some j \<and> wi_available_at j = 225"
proof -
  let ?p = "\<lparr>rt_max_attempts = 3, rt_backoff = 100\<rparr>"
  have count: "wi_attempt_count sample_leased_again = 2" "wi_id sample_leased_again = ''u''" by (simp_all add: sample_defs)
  have "decide ?p (wi_attempt_count sample_leased_again) TRANSIENT (utc_stamp 25) =
      Inr \<lparr>ro_state = READY, ro_available_at = Some 225\<rparr>"
    by (simp add: count decide_def checks.simps as_utc_def valid_datetime_def datetime_max_def us_per_day_def timedelta_scale_def
        timedelta_max_def dt_add_def retry_outcome_def)
  from failure_retries_or_fails [OF sample_settings_ok sample_reachable(3) sample_rows sample_rows(8) this] show ?thesis
    by (auto simp: count)
qed

section \<open>Two surprises\<close>

lemma require_active_refuses:
  "wr_state w \<noteq> ACTIVE \<Longrightarrow> valid_datetime clock \<Longrightarrow> valid_datetime (wr_expires_at w) \<Longrightarrow>
   require_active st w (utc_stamp clock) s = (Inl WorkspaceUnavailable, s)"
  by (cases "wr_state w") (simp_all add: require_active_def evaluate_def op_simps)

text \<open>C35. A cleanup job that fails for good cannot be recorded as failed: the services release a unit of a quota it never
  reserved, which is refused because its workspace is not active. The transaction is undone and the lease stays.\<close>

theorem cleanup_failure_is_not_recorded:
  assumes "settings_ok st" and "reachable st s" and a: "attempt_of s token = Some a" and i: "item_of s (ja_work_item a) = Some i"
    and token: "wi_current_token i = Some token" and kind: "wi_kind i = WORKSPACE_CLEANUP"
    and now: "valid_datetime clock" "\<And>w. workspace_of s (wi_workspace i) = Some w \<Longrightarrow> valid_datetime (wr_expires_at w)"
    and limits: "configured_limits st = Inr limits" and failed: "ro_state outcome = FAILED"
  shows "mark_failed st clock token outcome category now s = (Inl WorkspaceUnavailable, s)"
proof -
  note s = reachable_ok [OF assms(1,2)]
  note c = current_lease [OF s a i token]
  from tables_okD(3) [OF s] c(1) kind obtain w :: workspace_row where w: "w \<in> set (db_workspaces s)" "wr_id w = wi_workspace i"
    "wr_state w \<noteq> ACTIVE" unfolding owned_ok_def by blast
  then have w': "workspace_of s (wi_workspace i) = Some w" using workspace_of_iff [OF tables_okD(1) [OF s]] by auto
  define j where "j = released_row FAILED (wi_available_at i) now i"
  define b where "b = finished_attempt FAILED_ATTEMPT now (Some category) a"
  define u where "u = s\<lparr>db_items := replace_row wi_id j (db_items s), db_attempts := replace_row ja_token b (db_attempts s)\<rparr>"
  have j: "work_item_valid j" using c(2) by (auto simp: j_def released_row_def work_item_valid_def)
  have b: "job_attempt_valid b" using c(4,5) by (simp add: b_def finished_attempt_def job_attempt_valid_def)
  have "workspace_of u (wi_workspace i) = Some w" using w' by (simp add: u_def workspace_of_def)
  then have "release st clock (wi_workspace i) one_active_job u = (Inl WorkspaceUnavailable, u)"
    using require_active_refuses [OF w(3) now(1) now(2) [OF w']] limits by (simp add: release_def op_simps locked_workspace_def)
  then show ?thesis
    using a i token j b failed
    by (simp add: mark_failed_def op_simps claimed_item_def save_item_def update_attempt_def attempt_of_def Let_def
        j_def [symmetric] b_def finished_attempt_def u_def)
qed

definition sample_revoked :: db where
  "sample_revoked = snd (claim_one sample_settings {} ''uu'' 30 10
     (snd (delete_requested sample_settings '''' (utc_stamp 20) sample_enqueued)))"

definition sample_cleanup :: work_item where
  "sample_cleanup = leased_row ''tttt'' 30 40 (new_item ''uu'' '''' WORKSPACE_CLEANUP (CleanupRequest '''') 3 20)"

definition sample_cleanup_attempt :: job_attempt where
  "sample_cleanup_attempt = new_attempt sample_cleanup ''tttt'' 30 40"

definition sample_deleted_workspace :: workspace_row where
  "sample_deleted_workspace = (sample_workspace 1)\<lparr>wr_state := DELETED, wr_revoked_at := Some 20, wr_deleted_at := Some 20\<rparr>"

lemma sample_revoked:
  "sample_revoked = \<lparr>db_workspaces = [sample_deleted_workspace],
     db_cleanups = [\<lparr>cr_workspace = '''', cr_reason = DELETED_WORKSPACE, cr_requested_at = 20, cr_processed_at = None\<rparr>],
     db_items = [sample_item, sample_cleanup], db_attempts = [sample_cleanup_attempt], db_artifacts = [], db_store = [], db_serial = 4\<rparr>"
proof -
  have "snd (delete_requested sample_settings '''' (utc_stamp 20) sample_enqueued) =
    \<lparr>db_workspaces = [sample_deleted_workspace],
     db_cleanups = [\<lparr>cr_workspace = '''', cr_reason = DELETED_WORKSPACE, cr_requested_at = 20, cr_processed_at = None\<rparr>],
     db_items = [sample_item, new_item ''uu'' '''' WORKSPACE_CLEANUP (CleanupRequest '''') 3 20], db_attempts = [],
     db_artifacts = [], db_store = [], db_serial = 3\<rparr>"
    by (simp add: sample_queue(2) delete_requested_def revoke_def op_simps as_utc_def valid_datetime_def datetime_max_def
        us_per_day_def locked_workspace_def workspace_of_def revoked_row_def save_workspace_def workspace_row_valid_def
        replace_row_def request_cleanup_def cleanup_of_def request_cleanup_job_def item_for_def fresh_def create_item_def
        work_item_valid_def target_shape_def sample_deleted_workspace_def sample_defs numeral_eq_Suc Let_def)
  then show ?thesis
    unfolding sample_revoked_def
    by (simp add: claim_one_def claim_row_def op_simps fresh_def lease_token_def checks.simps dt_add_def valid_datetime_def
      datetime_max_def us_per_day_def save_item_def create_attempt_def work_item_valid_def target_shape_def job_attempt_valid_def
      replace_row_def claimable_row_def sample_cleanup_def sample_cleanup_attempt_def sample_defs numeral_eq_Suc)
qed

lemma sample_revoked_reachable: "reachable sample_settings sample_revoked"
  unfolding sample_revoked_def
  by (rule reachable.step [OF reachable.step [OF sample_reachable(1) job_step.deleted] job_step.claimed_one])

theorem cleanup_failure_is_not_recorded_witness:
  "mark_failed sample_settings 35 ''tttt'' \<lparr>ro_state = FAILED, ro_available_at = None\<rparr> PERMANENT 35 sample_revoked =
     (Inl WorkspaceUnavailable, sample_revoked)"
proof (rule cleanup_failure_is_not_recorded [OF sample_settings_ok sample_revoked_reachable])
  show "attempt_of sample_revoked ''tttt'' = Some sample_cleanup_attempt"
    by (simp add: sample_revoked attempt_of_def sample_cleanup_attempt_def)
  show "item_of sample_revoked (ja_work_item sample_cleanup_attempt) = Some sample_cleanup"
    by (simp add: sample_revoked item_of_def sample_cleanup_attempt_def sample_cleanup_def sample_defs)
  show "configured_limits sample_settings = Inr \<lparr>qa_retained_bytes = 1000, qa_books = 10, qa_active_jobs = 2\<rparr>"
    by (rule sample_rows(10))
qed (auto simp: sample_revoked workspace_of_def sample_cleanup_def sample_deleted_workspace_def sample_defs valid_datetime_def
    datetime_max_def us_per_day_def)

lemma acknowledged_rows:
  assumes "mark_succeeded st clock token now s = (Inr True, t)"
  shows "\<exists>a i. attempt_of s token = Some a \<and> item_of s (ja_work_item a) = Some i \<and> wi_current_token i = Some token \<and>
    db_items t = replace_row wi_id (released_row SUCCEEDED (wi_available_at i) now i) (db_items s) \<and>
    db_attempts t = replace_row ja_token (finished_attempt SUCCEEDED_ATTEMPT now None a) (db_attempts s) \<and>
    job_attempt_valid (finished_attempt SUCCEEDED_ATTEMPT now None a)"
proof -
  from assms obtain a i where a: "attempt_of s token = Some a" and i: "item_of s (ja_work_item a) = Some i"
    and token: "wi_current_token i = Some token"
    and body: "sbind (save_item (released_row SUCCEEDED (wi_available_at i) now i))
          (\<lambda>_. sbind (update_attempt token SUCCEEDED_ATTEMPT now None)
          (\<lambda>_. sbind (release st clock (wi_workspace i) one_active_job)
          (\<lambda>_. ok True))) s = (Inr True, t)"
    by (auto simp: mark_succeeded_def sbind_Inr [of "claimed_item token"] sbind_Inr [of "update_attempt token EXPIRED_ATTEMPT now None"] split: if_splits)
  then obtain q u where u: "update_attempt token SUCCEEDED_ATTEMPT now None
      (s\<lparr>db_items := replace_row wi_id (released_row SUCCEEDED (wi_available_at i) now i) (db_items s)\<rparr>) = (Inr (), u)"
    and r: "release st clock (wi_workspace i) one_active_job u = (Inr q, t)" by (auto simp: sbind_Inr)
  from u a have "db_items u = replace_row wi_id (released_row SUCCEEDED (wi_available_at i) now i) (db_items s) \<and>
      db_attempts u = replace_row ja_token (finished_attempt SUCCEEDED_ATTEMPT now None a) (db_attempts s) \<and>
      job_attempt_valid (finished_attempt SUCCEEDED_ATTEMPT now None a)"
    by (simp add: update_attempt_Inr attempt_of_def)
  with release_items [OF r] a i token show ?thesis by auto
qed

text \<open>C36. Acknowledging a success a second time, which is documented to have no effect, rewrites the record of the
  attempt: its outcome is expired afterwards, so that the job is succeeded without a successful attempt.\<close>

theorem duplicate_ack_rewrites_outcome:
  assumes "settings_ok st" and "reachable st s" and run: "mark_succeeded st clock token now s = (Inr True, t)"
  shows "\<exists>u a. mark_succeeded st clock' token later t = (Inr False, u) \<and> attempt_of u token = Some a \<and>
    ja_outcome a = Some EXPIRED_ATTEMPT \<and> ja_completed_at a = Some later \<and> db_items u = db_items t"
proof -
  note s = reachable_ok [OF assms(1,2)]
  from run obtain a i where a: "attempt_of s token = Some a" and i: "item_of s (ja_work_item a) = Some i"
    and token: "wi_current_token i = Some token"
    and items: "db_items t = replace_row wi_id (released_row SUCCEEDED (wi_available_at i) now i) (db_items s)"
    and attempts: "db_attempts t = replace_row ja_token (finished_attempt SUCCEEDED_ATTEMPT now None a) (db_attempts s)"
    and valid: "job_attempt_valid (finished_attempt SUCCEEDED_ATTEMPT now None a)"
    using acknowledged_rows by blast
  note c = current_lease [OF s a i token]
  have ja: "ja_token a = token" "a \<in> set (db_attempts s)" using find_Some_in [OF a [unfolded attempt_of_def]] by simp_all
  define b where "b = finished_attempt EXPIRED_ATTEMPT later None (finished_attempt SUCCEEDED_ATTEMPT now None a)"
  define u where "u = t\<lparr>db_attempts := replace_row ja_token b (db_attempts t)\<rparr>"
  have at: "attempt_of t token = Some (finished_attempt SUCCEEDED_ATTEMPT now None a)"
    using ja by (auto simp: attempt_of_def attempts find_replace_row)
  have it: "item_of t (ja_work_item a) = Some (released_row SUCCEEDED (wi_available_at i) now i)"
    using c(1,7) by (auto simp: item_of_def items find_replace_row)
  have "job_attempt_valid b" using valid by (simp add: b_def job_attempt_valid_def finished_attempt_def)
  with at have "update_attempt token EXPIRED_ATTEMPT later None t = (Inr (), u)" by (simp add: update_attempt_Inr b_def u_def)
  then have "mark_succeeded st clock' token later t = (Inr False, u)"
    using at it by (simp add: mark_succeeded_def op_simps claimed_item_def)
  moreover have "attempt_of u token = Some b"
    using ja find_Some_in [OF at [unfolded attempt_of_def]] by (auto simp: u_def attempt_of_def find_replace_row b_def)
  moreover have "ja_outcome b = Some EXPIRED_ATTEMPT" "ja_completed_at b = Some later" by (simp_all add: b_def finished_attempt_def)
  moreover have "db_items u = db_items t" by (simp add: u_def)
  ultimately show ?thesis by blast
qed

theorem duplicate_ack_rewrites_outcome_witness:
  "\<exists>u a. mark_succeeded sample_settings 26 ''tttt'' 26 sample_done = (Inr False, u) \<and> attempt_of u ''tttt'' = Some a \<and>
     ja_outcome a = Some EXPIRED_ATTEMPT"
proof -
  have "mark_succeeded sample_settings 25 ''tttt'' 25 sample_reclaimed = (Inr True, sample_done)"
    by (simp add: sample_done_eval sample_done(2))
  from duplicate_ack_rewrites_outcome [OF sample_settings_ok sample_reachable(3) this, of 26 26] show ?thesis by blast
qed

end
