(* ===== verification/Review.thy ===== *)
theory Review
  imports Contracts
begin

text \<open>
  Review authority and case identity (\<open>reconciliation/domain/review.py\<close>): the commands of a
  reviewer, the health of a decision under new evidence, the stable keys of cases and the lineage
  between the cases of successive runs. \<open>hashlib.sha256\<close> is a parameter from text to hex digest.
\<close>

definition CASE_KEY_VERSION :: string where
  "CASE_KEY_VERSION = ''stable-case-key-v1''"

datatype decision_action = LINK | ACCEPT_UNMATCHED | REJECT_CANDIDATE | REAFFIRM | REVOKE | REPLACE

datatype authority_kind = LINK_AUTHORITY | ACCEPT_UNMATCHED_AUTHORITY | REJECT_CANDIDATE_AUTHORITY

datatype decision_health = UNCHANGED | EVIDENCE_CHANGED | PARTNER_UNAVAILABLE | NEW_CANDIDATE

datatype decision_attention = COMPARISON_CHANGED | AUTHORITATIVE_REFERENCE_CONFLICT | DIAGNOSTIC_INCOMPLETE

datatype review_conflict_code = STALE_GENERATION | STALE_REVISION | ENDPOINT_CLAIMED | CONFLICT_SET_CHANGED

datatype case_kind = PAIR_CASE | UNPAIRED_CASE | AMBIGUITY_CASE

datatype case_result_kind = PAIR_RESULT | UNPAIRED_RESULT | AMBIGUITY_RESULT

primrec action_value :: "decision_action \<Rightarrow> string" where
  "action_value LINK = ''LINK''"
| "action_value ACCEPT_UNMATCHED = ''ACCEPT_UNMATCHED''"
| "action_value REJECT_CANDIDATE = ''REJECT_CANDIDATE''"
| "action_value REAFFIRM = ''REAFFIRM''"
| "action_value REVOKE = ''REVOKE''"
| "action_value REPLACE = ''REPLACE''"

primrec authority_value :: "authority_kind \<Rightarrow> string" where
  "authority_value LINK_AUTHORITY = ''LINK''"
| "authority_value ACCEPT_UNMATCHED_AUTHORITY = ''ACCEPT_UNMATCHED''"
| "authority_value REJECT_CANDIDATE_AUTHORITY = ''REJECT_CANDIDATE''"

primrec attention_value :: "decision_attention \<Rightarrow> string" where
  "attention_value COMPARISON_CHANGED = ''COMPARISON_CHANGED''"
| "attention_value AUTHORITATIVE_REFERENCE_CONFLICT = ''AUTHORITATIVE_REFERENCE_CONFLICT''"
| "attention_value DIAGNOSTIC_INCOMPLETE = ''DIAGNOSTIC_INCOMPLETE''"

primrec case_kind_value :: "case_kind \<Rightarrow> string" where
  "case_kind_value PAIR_CASE = ''PAIR''"
| "case_kind_value UNPAIRED_CASE = ''UNPAIRED''"
| "case_kind_value AMBIGUITY_CASE = ''AMBIGUITY''"

primrec result_kind_value :: "case_result_kind \<Rightarrow> string" where
  "result_kind_value PAIR_RESULT = ''PAIR''"
| "result_kind_value UNPAIRED_RESULT = ''UNPAIRED''"
| "result_kind_value AMBIGUITY_RESULT = ''AMBIGUITY''"

definition canonical_texts :: "string list \<Rightarrow> string \<Rightarrow> string list result" where
  "canonical_texts values name = checks
     (map (\<lambda>v. required_text v name) values @ [(\<not> distinct values, name @ '' values must be unique'')])
     (sort values)"

section \<open>Authority\<close>

record decision_authority =
  da_kind :: authority_kind
  da_left_id :: "string option"
  da_right_id :: "string option"
  da_record_id :: "string option"
  da_record_side :: "record_side option"

definition decision_authority_post_init :: "decision_authority \<Rightarrow> decision_authority result" where
  "decision_authority_post_init a =
     (let pair_values = da_left_id a \<noteq> None \<or> da_right_id a \<noteq> None;
          single_values = da_record_id a \<noteq> None \<or> da_record_side a \<noteq> None
      in if da_kind a \<noteq> ACCEPT_UNMATCHED_AUTHORITY
         then checks
           [(\<not> pair_values \<or> da_left_id a = None \<or> da_right_id a = None, ''pair authority requires left_id and right_id''),
            required_text (the (da_left_id a)) ''left_id'', required_text (the (da_right_id a)) ''right_id'',
            (da_left_id a = da_right_id a, ''pair authority endpoints must be distinct''),
            (single_values, ''pair authority cannot carry a single endpoint'')] a
         else checks
           [(pair_values, ''accepted-unmatched authority cannot carry pair endpoints''),
            (da_record_id a = None \<or> da_record_side a = None,
               ''accepted-unmatched authority requires record_id and record_side''),
            required_text (the (da_record_id a)) ''record_id''] a)"

definition authority_link :: "string \<Rightarrow> string \<Rightarrow> decision_authority result" where
  "authority_link left_id right_id = decision_authority_post_init
     \<lparr>da_kind = LINK_AUTHORITY, da_left_id = Some left_id, da_right_id = Some right_id, da_record_id = None,
      da_record_side = None\<rparr>"

definition authority_accept_unmatched :: "string \<Rightarrow> record_side \<Rightarrow> decision_authority result" where
  "authority_accept_unmatched record_id record_side = decision_authority_post_init
     \<lparr>da_kind = ACCEPT_UNMATCHED_AUTHORITY, da_left_id = None, da_right_id = None, da_record_id = Some record_id,
      da_record_side = Some record_side\<rparr>"

definition authority_reject_candidate :: "string \<Rightarrow> string \<Rightarrow> decision_authority result" where
  "authority_reject_candidate left_id right_id = decision_authority_post_init
     \<lparr>da_kind = REJECT_CANDIDATE_AUTHORITY, da_left_id = Some left_id, da_right_id = Some right_id,
      da_record_id = None, da_record_side = None\<rparr>"

definition endpoint_ids :: "decision_authority \<Rightarrow> string list result" where
  "endpoint_ids a =
     (if da_kind a = ACCEPT_UNMATCHED_AUTHORITY
      then (case da_record_id a of None \<Rightarrow> Inl AssertionError | Some i \<Rightarrow> Inr [i])
      else (case (da_left_id a, da_right_id a) of (Some l, Some r) \<Rightarrow> Inr [l, r] | _ \<Rightarrow> Inl AssertionError))"

definition reserves_endpoints :: "decision_authority \<Rightarrow> bool" where
  "reserves_endpoints a \<longleftrightarrow> da_kind a \<noteq> REJECT_CANDIDATE_AUTHORITY"

section \<open>Commands\<close>

record expected_revision =
  er_decision_id :: string
  er_revision_id :: string

definition expected_revision_post_init :: "expected_revision \<Rightarrow> expected_revision result" where
  "expected_revision_post_init e = checks
     [required_text (er_decision_id e) ''decision_id'', required_text (er_revision_id e) ''revision_id''] e"

text \<open>\<open>order=True\<close>: the fields compare as a tuple.\<close>

definition revision_order :: "expected_revision \<Rightarrow> string \<times> string" where
  "revision_order e = (er_decision_id e, er_revision_id e)"

record decision_command =
  dc_action :: decision_action
  dc_reason :: string
  dc_actor :: string
  dc_expected_generation :: int
  dc_authority :: "decision_authority option"
  dc_target :: "expected_revision option"
  dc_approved_conflicts :: "expected_revision list"
  dc_reviewed :: "string list"

definition initial_kind :: "decision_action \<Rightarrow> authority_kind option" where
  "initial_kind action =
     (case action of LINK \<Rightarrow> Some LINK_AUTHORITY | ACCEPT_UNMATCHED \<Rightarrow> Some ACCEPT_UNMATCHED_AUTHORITY
      | REJECT_CANDIDATE \<Rightarrow> Some REJECT_CANDIDATE_AUTHORITY | _ \<Rightarrow> None)"

definition require_reviewed_cardinality :: "string list \<Rightarrow> decision_authority \<Rightarrow> unit result" where
  "require_reviewed_cardinality reviewed a =
     rbind (endpoint_ids a) (\<lambda>ids. checks
       [(length reviewed \<noteq> length ids, authority_value (da_kind a) @ '' requires '' @ int_text (int (length ids)) @
           '' reviewed observation identities'')] ())"

definition command_shape :: "decision_command \<Rightarrow> expected_revision list \<Rightarrow> string list \<Rightarrow> unit result" where
  "command_shape c conflicts reviewed =
     (case initial_kind (dc_action c) of
        Some kind \<Rightarrow>
          (case dc_authority c of
             None \<Rightarrow> Inl (DomainValidationError (action_value (dc_action c) @ '' requires '' @ authority_value kind @ '' authority''))
           | Some a \<Rightarrow>
               rbind (checks
                 [(da_kind a \<noteq> kind, action_value (dc_action c) @ '' requires '' @ authority_value kind @ '' authority''),
                  (dc_target c \<noteq> None \<or> conflicts \<noteq> [],
                     action_value (dc_action c) @ '' cannot target or supersede a decision'')] ())
               (\<lambda>_. require_reviewed_cardinality reviewed a))
      | None \<Rightarrow>
          if dc_action c = REAFFIRM then checks
            [(dc_target c = None \<or> dc_authority c \<noteq> None \<or> conflicts \<noteq> [],
                ''REAFFIRM requires one target and cannot replace authority''),
             (reviewed = [], ''REAFFIRM requires a fresh reviewed observation baseline''),
             (2 < length reviewed, ''REAFFIRM reviewed baseline contains at most two observations'')] ()
          else if dc_action c = REVOKE then checks
            [(dc_target c = None \<or> dc_authority c \<noteq> None \<or> conflicts \<noteq> [] \<or> reviewed \<noteq> [],
                ''REVOKE requires one target and no authority, conflicts, or baseline'')] ()
          else (case (dc_target c, dc_authority c) of
              (Some t, Some a) \<Rightarrow>
                rbind (checks
                  [(\<exists>e \<in> set conflicts. er_decision_id e = er_decision_id t,
                      ''replacement conflicts cannot repeat its target decision'')] ())
                (\<lambda>_. require_reviewed_cardinality reviewed a)
            | _ \<Rightarrow> Inl (DomainValidationError ''REPLACE requires a target and replacement authority'')))"

definition decision_command_post_init :: "decision_command \<Rightarrow> decision_command result" where
  "decision_command_post_init c =
     (let conflicts = sort_key revision_order (dc_approved_conflicts c)
      in rbind (checks
        [required_text (dc_reason c) ''reason'', required_text (dc_actor c) ''actor'',
         nonnegative_int (dc_expected_generation c) ''expected_resolution_generation'',
         (\<not> distinct (map er_decision_id conflicts), ''approved conflicts must contain each decision exactly once'')] ())
      (\<lambda>_. rbind (canonical_texts (dc_reviewed c) ''reviewed observation identity'')
      (\<lambda>reviewed. rbind (command_shape c conflicts reviewed)
      (\<lambda>_. Inr (c\<lparr>dc_approved_conflicts := conflicts, dc_reviewed := reviewed\<rparr>)))))"

section \<open>Previews and conflicts\<close>

record decision_conflict =
  cf_decision_id :: string
  cf_revision_id :: string
  cf_claimed :: "string list"

definition decision_conflict_post_init :: "decision_conflict \<Rightarrow> decision_conflict result" where
  "decision_conflict_post_init c =
     rbind (checks [required_text (cf_decision_id c) ''conflict decision_id'',
        required_text (cf_revision_id c) ''conflict revision_id''] ())
     (\<lambda>_. rbind (canonical_texts (cf_claimed c) ''claimed record identity'')
     (\<lambda>claimed. checks [(claimed = [], ''decision conflict requires a claimed endpoint'')] (c\<lparr>cf_claimed := claimed\<rparr>)))"

definition conflict_order :: "decision_conflict \<Rightarrow> string \<times> string \<times> string list" where
  "conflict_order c = (cf_decision_id c, cf_revision_id c, cf_claimed c)"

record replacement_preview =
  rp_authority :: decision_authority
  rp_target :: expected_revision
  rp_conflicts :: "decision_conflict list"
  rp_generation :: int

definition replacement_preview_post_init :: "replacement_preview \<Rightarrow> replacement_preview result" where
  "replacement_preview_post_init p =
     (let conflicts = sort_key conflict_order (rp_conflicts p)
      in checks
        [nonnegative_int (rp_generation p) ''resolution_generation'',
         (\<not> distinct (map cf_decision_id conflicts), ''replacement preview must contain each conflicting decision once''),
         (\<exists>c \<in> set conflicts. cf_decision_id c = er_decision_id (rp_target p),
            ''replacement preview conflicts cannot repeat its target'')]
        (p\<lparr>rp_conflicts := conflicts\<rparr>))"

definition expected_conflicts :: "replacement_preview \<Rightarrow> expected_revision list result" where
  "expected_conflicts p = rmap (\<lambda>c. expected_revision_post_init
     \<lparr>er_decision_id = cf_decision_id c, er_revision_id = cf_revision_id c\<rparr>) (rp_conflicts p)"

record review_conflict =
  rc_code :: review_conflict_code
  rc_message :: string
  rc_affected :: "expected_revision list"

definition review_conflict_post_init :: "review_conflict \<Rightarrow> review_conflict result" where
  "review_conflict_post_init c =
     (let affected = sort_key revision_order (rc_affected c)
      in checks
        [required_text (rc_message c) ''review conflict message'',
         (\<not> distinct (map er_decision_id affected), ''review conflict must contain each affected decision once'')]
        (c\<lparr>rc_affected := affected\<rparr>))"

section \<open>Decision health\<close>

record health_projection =
  hp_decision_id :: string
  hp_revision_id :: string
  hp_run_id :: string
  hp_health :: decision_health
  hp_attention :: "decision_attention list"

definition health_projection_post_init :: "health_projection \<Rightarrow> health_projection result" where
  "health_projection_post_init p =
     (let attention = sort_key attention_value (hp_attention p)
      in checks
        [required_text (hp_decision_id p) ''health decision_id'', required_text (hp_revision_id p) ''health revision_id'',
         required_text (hp_run_id p) ''health run_id'',
         (\<not> distinct attention, ''decision attention reasons must be unique'')] (p\<lparr>hp_attention := attention\<rparr>))"

record health_evidence =
  he_authority_kind :: authority_kind
  he_endpoints_available :: bool
  he_evidence_changed :: bool
  he_new_candidate :: bool
  he_diagnostic_complete :: bool
  he_comparison_changed :: bool
  he_reference_conflict :: bool

definition health_evidence_post_init :: "health_evidence \<Rightarrow> health_evidence result" where
  "health_evidence_post_init e = checks
     [(he_authority_kind e \<noteq> ACCEPT_UNMATCHED_AUTHORITY \<and> (he_new_candidate e \<or> \<not> he_diagnostic_complete e),
        ''new-candidate and diagnostic-completeness evidence belongs to accepted-unmatched authority''),
      (he_authority_kind e \<noteq> LINK_AUTHORITY \<and> he_comparison_changed e,
        ''comparison-change attention belongs to link authority''),
      (he_authority_kind e \<noteq> REJECT_CANDIDATE_AUTHORITY \<and> he_reference_conflict e,
        ''authoritative-reference conflict belongs to rejected relationships'')] e"

definition project_decision_health :: "string \<Rightarrow> string \<Rightarrow> string \<Rightarrow> health_evidence \<Rightarrow> health_projection result" where
  "project_decision_health decision_id revision_id run_id e =
     (let attention = (if he_comparison_changed e then [COMPARISON_CHANGED] else []) @
            (if he_reference_conflict e then [AUTHORITATIVE_REFERENCE_CONFLICT] else []) @
            (if \<not> he_diagnostic_complete e then [DIAGNOSTIC_INCOMPLETE] else []);
          health = (if \<not> he_endpoints_available e then PARTNER_UNAVAILABLE
            else if he_authority_kind e = ACCEPT_UNMATCHED_AUTHORITY \<and> he_new_candidate e then NEW_CANDIDATE
            else if he_evidence_changed e \<or> he_comparison_changed e then EVIDENCE_CHANGED
            else UNCHANGED)
      in health_projection_post_init \<lparr>hp_decision_id = decision_id, hp_revision_id = revision_id,
           hp_run_id = run_id, hp_health = health, hp_attention = attention\<rparr>)"

end
