(* ===== verification/CaseKeys.thy ===== *)
theory CaseKeys
  imports Review
begin

text \<open>
  The stable identity of cases (\<open>reconciliation/domain/review.py\<close>, from \<open>CaseKey\<close> on): keys are
  digests of length-prefixed parts, and the lineage plan links the cases of successive runs.
\<close>

section \<open>Digests\<close>

text \<open>The number of characters of a text: of its bytes that do not continue one.\<close>

definition py_len :: "string \<Rightarrow> nat" where
  "py_len s = length (filter (\<lambda>c. (of_char c :: nat) div 64 \<noteq> 2) s)"

definition ascii_space :: "char \<Rightarrow> bool" where
  "ascii_space c \<longleftrightarrow> (of_char c :: nat) = 32 \<or> 9 \<le> (of_char c :: nat) \<and> (of_char c :: nat) \<le> 13"

definition is_hex :: "char \<Rightarrow> bool" where
  "is_hex c \<longleftrightarrow> c \<in> set ''0123456789abcdefABCDEF''"

definition ascii_lower :: "char \<Rightarrow> char" where
  "ascii_lower c = (let n = of_char c :: nat in if 65 \<le> n \<and> n \<le> 90 then char_of (n + 32) else c)"

text \<open>
  Whether \<open>bytes.fromhex\<close> accepts a text: pairs of hexadecimal digits, with ASCII white space
  skipped between the pairs.
\<close>

fun fromhex_ok :: "string \<Rightarrow> bool" where
  "fromhex_ok [] = True"
| "fromhex_ok [c] = ascii_space c"
| "fromhex_ok (c # d # s) = (if ascii_space c then fromhex_ok (d # s) else is_hex c \<and> is_hex d \<and> fromhex_ok s)"

text \<open>
  \<open>value.lower()\<close> matters only for text that \<open>bytes.fromhex\<close> accepts, which is ASCII: any other
  text is rejected with the same message.
\<close>

definition bad_digest :: "string \<Rightarrow> bool" where
  "bad_digest value \<longleftrightarrow> py_len value \<noteq> 64 \<or> \<not> fromhex_ok value \<or> value \<noteq> map ascii_lower value"

definition validate_sha256 :: "string \<Rightarrow> string \<Rightarrow> (bool \<times> string)" where
  "validate_sha256 value name = (bad_digest value, name @ '' must be a lowercase SHA-256 digest'')"

record case_key =
  ck_kind :: case_kind
  ck_digest :: string

definition case_key_post_init :: "case_key \<Rightarrow> case_key result" where
  "case_key_post_init k = checks [validate_sha256 (ck_digest k) ''case digest''] k"

definition case_key_text :: "case_key \<Rightarrow> string" where
  "case_key_text k = map ascii_lower (case_kind_value (ck_kind k)) @ '':'' @ ck_digest k"

text \<open>\<open>n.to_bytes(w, "big")\<close>.\<close>

fun big_endian :: "nat \<Rightarrow> nat \<Rightarrow> string" where
  "big_endian 0 n = []"
| "big_endian (Suc w) n = big_endian w (n div 256) @ [char_of (n mod 256)]"

definition length_prefixed :: "string \<Rightarrow> string" where
  "length_prefixed value = big_endian 8 (length value) @ value"

definition case_payload :: "case_kind \<Rightarrow> (string \<times> string) list \<Rightarrow> string" where
  "case_payload kind parts = concat (map length_prefixed
     ([CASE_KEY_VERSION, case_kind_value kind] @ concat (map (\<lambda>(label, value). [label, value]) parts)))"

definition case_key_of :: "(string \<Rightarrow> string) \<Rightarrow> case_kind \<Rightarrow> (string \<times> string) list \<Rightarrow> case_key result" where
  "case_key_of sha256 kind parts =
     case_key_post_init \<lparr>ck_kind = kind, ck_digest = sha256 (case_payload kind parts)\<rparr>"

section \<open>Keys of the three kinds of case\<close>

definition pair_case_key :: "(string \<Rightarrow> string) \<Rightarrow> string \<Rightarrow> string \<Rightarrow> string \<Rightarrow> case_key result" where
  "pair_case_key sha256 book_id left_id right_id =
     rbind (checks [required_text book_id ''book_id'', required_text left_id ''left_id'', required_text right_id ''right_id''] ())
     (\<lambda>_. case_key_of sha256 PAIR_CASE [(''book'', book_id), (''left'', left_id), (''right'', right_id)])"

definition unpaired_case_key :: "(string \<Rightarrow> string) \<Rightarrow> string \<Rightarrow> record_side \<Rightarrow> string \<Rightarrow> case_key result" where
  "unpaired_case_key sha256 book_id side record_id =
     rbind (checks [required_text book_id ''book_id'', required_text record_id ''record_id''] ())
     (\<lambda>_. case_key_of sha256 UNPAIRED_CASE [(''book'', book_id), (''side'', record_side_value side), (''record'', record_id)])"

definition ambiguity_parts :: "string \<Rightarrow> string \<Rightarrow> string \<Rightarrow> string list \<Rightarrow> string list \<Rightarrow> (string \<times> string) list" where
  "ambiguity_parts book_id scope_id policy_digest left right =
     [(''book'', book_id), (''scope'', scope_id), (''policy'', policy_digest), (''left-count'', nat_text (length left))] @
     map (\<lambda>i. (''left-member'', i)) left @ [(''right-count'', nat_text (length right))] @
     map (\<lambda>i. (''right-member'', i)) right"

definition ambiguity_case_key :: "(string \<Rightarrow> string) \<Rightarrow> string \<Rightarrow> string \<Rightarrow> string \<Rightarrow> string list \<Rightarrow> string list \<Rightarrow>
    case_key result" where
  "ambiguity_case_key sha256 book_id scope_id policy_digest left_ids right_ids =
     rbind (checks [validate_sha256 policy_digest ''policy_digest''] ())
     (\<lambda>_. rbind (canonical_texts left_ids ''ambiguity left identity'')
     (\<lambda>left. rbind (canonical_texts right_ids ''ambiguity right identity'')
     (\<lambda>right. rbind (checks
       [(left = [] \<or> right = [], ''ambiguity case requires complete members on both sides''),
        (set left \<inter> set right \<noteq> {}, ''ambiguity member identities must be unique across sides''),
        required_text book_id ''book_id'', required_text scope_id ''scope_id''] ())
     (\<lambda>_. case_key_of sha256 AMBIGUITY_CASE (ambiguity_parts book_id scope_id policy_digest left right)))))"

section \<open>Occurrences and lineage\<close>

record case_occurrence =
  co_case_key :: case_key
  co_run_id :: string
  co_result_kind :: case_result_kind
  co_result_id :: string

definition case_occurrence_post_init :: "case_occurrence \<Rightarrow> case_occurrence result" where
  "case_occurrence_post_init x = checks
     [required_text (co_run_id x) ''occurrence run_id'', required_text (co_result_id x) ''occurrence result_id'',
      (case_kind_value (ck_kind (co_case_key x)) \<noteq> result_kind_value (co_result_kind x),
         ''case occurrence result kind must match its stable case kind'')] x"

record lineage_edge =
  le_predecessor :: case_key
  le_successor :: case_key

definition lineage_edge_post_init :: "lineage_edge \<Rightarrow> lineage_edge result" where
  "lineage_edge_post_init e = checks
     [(le_predecessor e = le_successor e, ''case lineage cannot contain a self-edge'')] e"

definition key_order :: "case_key \<Rightarrow> string \<times> string" where
  "key_order k = (case_kind_value (ck_kind k), ck_digest k)"

definition edge_order :: "lineage_edge \<Rightarrow> (string \<times> string) \<times> string \<times> string" where
  "edge_order e = (key_order (le_predecessor e), key_order (le_successor e))"

definition transition_plan :: "lineage_edge list \<Rightarrow> lineage_edge list result" where
  "transition_plan edges = checks [(\<not> distinct edges, ''case lineage edges must be unique'')] (sort_key edge_order edges)"

record transition_node =
  tn_case_key :: case_key
  tn_member_ids :: "string list"

definition transition_node_post_init :: "transition_node \<Rightarrow> transition_node result" where
  "transition_node_post_init n =
     rbind (canonical_texts (tn_member_ids n) ''transition member identity'')
     (\<lambda>members. checks [(members = [], ''transition node requires at least one member'')] (n\<lparr>tn_member_ids := members\<rparr>))"

definition node_order :: "transition_node \<Rightarrow> string \<times> string" where
  "node_order n = key_order (tn_case_key n)"

definition overlapping :: "transition_node list \<Rightarrow> transition_node list \<Rightarrow> lineage_edge list" where
  "overlapping before after =
     [\<lparr>le_predecessor = tn_case_key old, le_successor = tn_case_key new\<rparr>.
        old \<leftarrow> before, new \<leftarrow> after,
        tn_case_key old \<noteq> tn_case_key new \<and> set (tn_member_ids old) \<inter> set (tn_member_ids new) \<noteq> {}]"

definition plan_case_transitions :: "transition_node list \<Rightarrow> transition_node list \<Rightarrow> lineage_edge list result" where
  "plan_case_transitions previous current =
     rbind (rmap lineage_edge_post_init (overlapping (sort_key node_order previous) (sort_key node_order current)))
       transition_plan"

section \<open>Facts\<close>

lemma length_big_endian [simp]: "length (big_endian w n) = w"
  by (induction w arbitrary: n) auto

lemma big_endian_inject: "m < 256 ^ w \<Longrightarrow> n < 256 ^ w \<Longrightarrow> big_endian w m = big_endian w n \<longleftrightarrow> m = n"
proof (induction w arbitrary: m n)
  case 0
  then show ?case by simp
next
  case (Suc w)
  then have "m div 256 < 256 ^ w" "n div 256 < 256 ^ w" by (auto simp: less_mult_imp_div_less mult.commute)
  moreover have "(char_of (m mod 256) :: char) = char_of (n mod 256) \<longleftrightarrow> m mod 256 = n mod 256"
    by (simp add: char_of_eq_iff take_bit_eq_mod)
  ultimately show ?case using Suc.IH [of "m div 256" "n div 256"] by (auto) (metis div_mod_decomp)+
qed

lemma length_prefixed_append:
  assumes "length a < 256 ^ 8" and "length b < 256 ^ 8"
  shows "length_prefixed a @ s = length_prefixed b @ t \<longleftrightarrow> a = b \<and> s = t"
  using assms by (auto simp: length_prefixed_def big_endian_inject append_eq_append_conv)

lemma length_prefixed_nonempty [simp]: "length_prefixed a \<noteq> []"
  by (metis length_big_endian length_prefixed_def append_is_Nil_conv list.size(3) zero_neq_numeral)

text \<open>The parts can be read back from their concatenation.\<close>

lemma length_prefixed_concat:
  assumes "\<forall>a \<in> set xs. length a < 256 ^ 8" and "\<forall>a \<in> set ys. length a < 256 ^ 8"
  shows "concat (map length_prefixed xs) = concat (map length_prefixed ys) \<longleftrightarrow> xs = ys"
  using assms
proof (induction xs arbitrary: ys)
  case Nil
  then show ?case by (cases ys) auto
next
  case (Cons x xs)
  show ?case
  proof (cases ys)
    case Nil
    then show ?thesis by simp
  next
    case (Cons y ys')
    with Cons.prems Cons.IH [of ys'] show ?thesis by (auto simp: length_prefixed_append)
  qed
qed


section \<open>Stable identity\<close>

definition short_texts :: "string list \<Rightarrow> bool" where
  "short_texts xs \<longleftrightarrow> (\<forall>x \<in> set xs. length x < 256 ^ 8)"

lemma case_key_of_Inr: "case_key_of sha256 kind parts = Inr k \<Longrightarrow> k = \<lparr>ck_kind = kind, ck_digest = sha256 (case_payload kind parts)\<rparr>"
  by (simp add: case_key_of_def case_key_post_init_def checks_Inr_iff)

lemma concat_parts: "concat (map (\<lambda>(l, v). [l, v]) ps) = concat (map (\<lambda>(l, v). [l, v]) qs) \<longleftrightarrow> ps = qs"
proof (induction ps arbitrary: qs)
  case Nil
  then show ?case by (cases qs) auto
next
  case (Cons p ps)
  then show ?case by (cases qs) (auto split: prod.splits)
qed

lemma short_fixed: "length (case_kind_value k) < 256 ^ 8" "length CASE_KEY_VERSION < 256 ^ 8"
  by (cases k; simp) (simp add: CASE_KEY_VERSION_def)

lemma case_payload_inject:
  assumes "short_texts (concat (map (\<lambda>(l, v). [l, v]) ps))" and "short_texts (concat (map (\<lambda>(l, v). [l, v]) qs))"
  shows "case_payload k ps = case_payload k' qs \<longleftrightarrow> k = k' \<and> ps = qs"
proof -
  have "case_kind_value k = case_kind_value k' \<longleftrightarrow> k = k'" by (cases k; cases k') simp_all
  then show ?thesis
    using assms short_fixed unfolding case_payload_def short_texts_def
    by (subst length_prefixed_concat) (auto simp: concat_parts)
qed

text \<open>Keys are equal exactly for equal kinds and parts, unless the hash function collides on the two payloads.\<close>

lemma case_key_of_inject:
  assumes "case_key_of sha256 k ps = Inr key" and "case_key_of sha256 k' qs = Inr key'"
    and "short_texts (concat (map (\<lambda>(l, v). [l, v]) ps))" and "short_texts (concat (map (\<lambda>(l, v). [l, v]) qs))"
    and "inj_on sha256 {case_payload k ps, case_payload k' qs}"
  shows "key = key' \<longleftrightarrow> k = k' \<and> ps = qs"
proof -
  have keys: "key = \<lparr>ck_kind = k, ck_digest = sha256 (case_payload k ps)\<rparr>" "key' = \<lparr>ck_kind = k', ck_digest = sha256 (case_payload k' qs)\<rparr>"
    using case_key_of_Inr [OF assms(1)] case_key_of_Inr [OF assms(2)] by simp_all
  have "sha256 (case_payload k ps) = sha256 (case_payload k' qs) \<longleftrightarrow> case_payload k ps = case_payload k' qs"
    by (rule inj_on_eq_iff [OF assms(5)]) simp_all
  moreover have "key = key' \<longleftrightarrow> k = k' \<and> sha256 (case_payload k ps) = sha256 (case_payload k' qs)" by (simp add: keys)
  ultimately show ?thesis using case_payload_inject [OF assms(3,4)] by blast
qed

lemma canonical_texts_Inr: "canonical_texts xs name = Inr ys \<longleftrightarrow> ys = sort xs \<and> distinct xs \<and> (\<forall>x \<in> set xs. \<not> blank x)"
  by (auto simp: canonical_texts_def checks_Inr_iff)

text \<open>What a case is about, and when two cases are the same.\<close>

datatype case_identity =
    PairOf string string string
  | UnpairedOf string record_side string
  | AmbiguityOf string string string "string list" "string list"

fun key_for :: "(string \<Rightarrow> string) \<Rightarrow> case_identity \<Rightarrow> case_key result" where
  "key_for sha256 (PairOf b l r) = pair_case_key sha256 b l r"
| "key_for sha256 (UnpairedOf b side i) = unpaired_case_key sha256 b side i"
| "key_for sha256 (AmbiguityOf b scope p ls rs) = ambiguity_case_key sha256 b scope p ls rs"

fun same_case :: "case_identity \<Rightarrow> case_identity \<Rightarrow> bool" where
  "same_case (PairOf b l r) (PairOf b' l' r') \<longleftrightarrow> b = b' \<and> l = l' \<and> r = r'"
| "same_case (UnpairedOf b side i) (UnpairedOf b' side' i') \<longleftrightarrow> b = b' \<and> side = side' \<and> i = i'"
| "same_case (AmbiguityOf b scope p ls rs) (AmbiguityOf b' scope' p' ls' rs') \<longleftrightarrow>
     b = b' \<and> scope = scope' \<and> p = p' \<and> set ls = set ls' \<and> set rs = set rs'"
| "same_case _ _ \<longleftrightarrow> False"

fun identity_kind :: "case_identity \<Rightarrow> case_kind" where
  "identity_kind (PairOf b l r) = PAIR_CASE"
| "identity_kind (UnpairedOf b side i) = UNPAIRED_CASE"
| "identity_kind (AmbiguityOf b scope p ls rs) = AMBIGUITY_CASE"

fun identity_parts :: "case_identity \<Rightarrow> (string \<times> string) list" where
  "identity_parts (PairOf b l r) = [(''book'', b), (''left'', l), (''right'', r)]"
| "identity_parts (UnpairedOf b side i) = [(''book'', b), (''side'', record_side_value side), (''record'', i)]"
| "identity_parts (AmbiguityOf b scope p ls rs) = ambiguity_parts b scope p (sort ls) (sort rs)"

fun distinct_members :: "case_identity \<Rightarrow> bool" where
  "distinct_members (AmbiguityOf b scope p ls rs) \<longleftrightarrow> distinct ls \<and> distinct rs"
| "distinct_members _ \<longleftrightarrow> True"

definition short_identity :: "case_identity \<Rightarrow> bool" where
  "short_identity i \<longleftrightarrow> short_texts (concat (map (\<lambda>(l, v). [l, v]) (identity_parts i)))"

definition identity_payload :: "case_identity \<Rightarrow> string" where
  "identity_payload i = case_payload (identity_kind i) (identity_parts i)"

lemma key_for_Inr:
  "key_for sha256 i = Inr k \<Longrightarrow> case_key_of sha256 (identity_kind i) (identity_parts i) = Inr k \<and> distinct_members i"
  by (cases i)
    (auto simp: pair_case_key_def unpaired_case_key_def ambiguity_case_key_def rbind_Inr_iff checks_Inr_iff canonical_texts_Inr)

lemma ambiguity_parts_inject:
  "ambiguity_parts b s p l r = ambiguity_parts b' s' p' l' r' \<longleftrightarrow> b = b' \<and> s = s' \<and> p = p' \<and> l = l' \<and> r = r'"
proof
  assume e: "ambiguity_parts b s p l r = ambiguity_parts b' s' p' l' r'"
  then have "nat_text (length l) = nat_text (length l')" by (simp add: ambiguity_parts_def)
  then have len: "length l = length l'" by (simp add: nat_text_inject)
  from e have "map (Pair ''left-member'') l @ [(''right-count'', nat_text (length r))] @ map (Pair ''right-member'') r =
      map (Pair ''left-member'') l' @ [(''right-count'', nat_text (length r'))] @ map (Pair ''right-member'') r'"
    by (simp add: ambiguity_parts_def)
  with len have "map (Pair ''left-member'') l = map (Pair ''left-member'') l'"
    and "map (Pair ''right-member'') r = map (Pair ''right-member'') r'" by simp_all
  then have "l = l'" "r = r'" by (simp_all add: inj_map_eq_map inj_def)
  with e show "b = b' \<and> s = s' \<and> p = p' \<and> l = l' \<and> r = r'" by (simp add: ambiguity_parts_def)
qed auto

lemma sort_eq_iff_set: "distinct xs \<Longrightarrow> distinct ys \<Longrightarrow> sort xs = sort ys \<longleftrightarrow> set xs = set ys" for xs ys :: "string list"
  by (metis set_sort sort_canonical)

lemma same_case_parts:
  assumes "distinct_members a" and "distinct_members b"
  shows "same_case a b \<longleftrightarrow> identity_kind a = identity_kind b \<and> identity_parts a = identity_parts b"
  using assms by (cases a; cases b) (auto simp: ambiguity_parts_inject sort_eq_iff_set)

text \<open>C38. The key of a case identifies it: two keys are equal exactly if the cases are of the same kind and about the same
  book and records, for an ambiguity in any order of its members. The assumption is that the digest does not collide on
  the two payloads, and that no text is longer than the length prefix can say.\<close>

theorem case_keys_identify:
  assumes "key_for sha256 a = Inr k" and "key_for sha256 b = Inr k'"
    and "inj_on sha256 {identity_payload a, identity_payload b}" and "short_identity a" and "short_identity b"
  shows "k = k' \<longleftrightarrow> same_case a b"
  using case_key_of_inject [OF conjunct1 [OF key_for_Inr [OF assms(1)]] conjunct1 [OF key_for_Inr [OF assms(2)]]]
    same_case_parts [OF conjunct2 [OF key_for_Inr [OF assms(1)]] conjunct2 [OF key_for_Inr [OF assms(2)]]] assms(3-5)
  by (simp add: short_identity_def identity_payload_def)

text \<open>A hexadecimal text of 64 lower case digits passes the check.\<close>

lemma fromhex_ok_hex: "even (length s) \<Longrightarrow> \<forall>c \<in> set s. is_hex c \<and> \<not> ascii_space c \<Longrightarrow> fromhex_ok s"
  by (induction s rule: fromhex_ok.induct) auto

lemma hex_digit_facts:
  "\<forall>c \<in> set ''0123456789abcdef''. is_hex c \<and> \<not> ascii_space c \<and> (of_char c :: nat) div 64 \<noteq> 2 \<and> ascii_lower c = c"
  by (simp add: is_hex_def ascii_space_def ascii_lower_def)

lemma hex_digest_ok:
  assumes "length s = 64" and "set s \<subseteq> set ''0123456789abcdef''"
  shows "\<not> bad_digest s"
proof -
  have c: "\<forall>c \<in> set s. is_hex c \<and> \<not> ascii_space c \<and> (of_char c :: nat) div 64 \<noteq> 2 \<and> ascii_lower c = c"
    using assms(2) hex_digit_facts by blast
  then have "filter (\<lambda>c. (of_char c :: nat) div 64 \<noteq> 2) s = s" "map ascii_lower s = s"
    by (simp_all add: filter_id_conv map_idI)
  with assms(1) c fromhex_ok_hex [of s] show ?thesis by (simp add: bad_digest_def py_len_def)
qed

text \<open>A toy digest for the examples: it tells apart what the examples hash.\<close>

definition toy_sha256 :: "string \<Rightarrow> string" where
  "toy_sha256 s = replicate 63 (CHR ''0'') @ [if CHR ''x'' \<in> set s then CHR ''1'' else CHR ''2'']"

lemma toy_digest_ok: "\<not> bad_digest (toy_sha256 s)"
  by (rule hex_digest_ok) (auto simp: toy_sha256_def)

lemma big_endian_no_x: "n < 100 \<Longrightarrow> CHR ''x'' \<notin> set (big_endian w n)"
proof (induction w arbitrary: n)
  case 0
  then show ?case by simp
next
  case (Suc w)
  have "(char_of (n mod 256) :: char) \<noteq> CHR ''x''" using Suc.prems by (simp add: char_of_eq_iff take_bit_eq_mod)
  with Suc.IH [of "n div 256"] Suc.prems show ?case by auto
qed

theorem case_keys_identify_witness:
  "pair_case_key toy_sha256 ''b'' ''l'' ''r'' \<noteq> pair_case_key toy_sha256 ''b'' ''l'' ''x''"
proof -
  define a b where "a = PairOf ''b'' ''l'' ''r''" and "b = PairOf ''b'' ''l'' ''x''"
  have keys: "key_for toy_sha256 i = Inr \<lparr>ck_kind = PAIR_CASE, ck_digest = toy_sha256 (identity_payload i)\<rparr>"
    if "i \<in> {a, b}" for i
    using that toy_digest_ok
    by (auto simp: a_def b_def pair_case_key_def checks.simps case_key_of_def case_key_post_init_def validate_sha256_def
        identity_payload_def)
  have "toy_sha256 (identity_payload a) \<noteq> toy_sha256 (identity_payload b)"
    by (simp add: a_def b_def identity_payload_def case_payload_def length_prefixed_def CASE_KEY_VERSION_def toy_sha256_def
        big_endian_no_x)
  then have "inj_on toy_sha256 {identity_payload a, identity_payload b}" by (auto simp: inj_on_def)
  moreover have "short_identity a" "short_identity b" by (simp_all add: a_def b_def short_identity_def short_texts_def)
  moreover have "\<not> same_case a b" by (simp add: a_def b_def)
  moreover have ka: "key_for toy_sha256 a = Inr \<lparr>ck_kind = PAIR_CASE, ck_digest = toy_sha256 (identity_payload a)\<rparr>"
    and kb: "key_for toy_sha256 b = Inr \<lparr>ck_kind = PAIR_CASE, ck_digest = toy_sha256 (identity_payload b)\<rparr>"
    using keys by simp_all
  ultimately have "key_for toy_sha256 a \<noteq> key_for toy_sha256 b"
    using case_keys_identify [OF ka kb] by simp
  then show ?thesis by (simp add: a_def b_def)
qed

section \<open>Lineage\<close>

text \<open>For runs whose cases have distinct keys the lineage plan is returned and contains exactly one edge from each
  earlier case to each later case with another key that shares a member with it, in the order of the keys.\<close>

lemma transitions_link_overlaps:
  assumes "distinct (map tn_case_key previous)" and "distinct (map tn_case_key current)"
  shows "\<exists>edges. plan_case_transitions previous current = Inr edges \<and> distinct edges \<and> sorted (map edge_order edges) \<and>
    (\<forall>p s. \<lparr>le_predecessor = p, le_successor = s\<rparr> \<in> set edges \<longleftrightarrow>
      (\<exists>old \<in> set previous. \<exists>new \<in> set current. p = tn_case_key old \<and> s = tn_case_key new \<and> p \<noteq> s \<and>
         set (tn_member_ids old) \<inter> set (tn_member_ids new) \<noteq> {}))"
proof -
  define es where "es = overlapping (sort_key node_order previous) (sort_key node_order current)"
  have new: "distinct [\<lparr>le_predecessor = p, le_successor = tn_case_key new\<rparr>. new \<leftarrow> ns, Q new]"
    if "distinct (map tn_case_key ns)" for p Q ns
    using that by (induction ns) auto
  have "distinct (overlapping olds news)" if "distinct (map tn_case_key olds)" "distinct (map tn_case_key news)" for olds news
    using that unfolding overlapping_def
  proof (induction olds)
    case Nil
    then show ?case by simp
  next
    case (Cons x olds)
    then show ?case using new [of news] by (auto)
  qed
  with assms have d: "distinct es" by (simp add: es_def)
  have "lineage_edge_post_init e = Inr e" if "e \<in> set es" for e
    using that by (auto simp: es_def overlapping_def lineage_edge_post_init_def checks.simps split: if_splits)
  then have "rmap lineage_edge_post_init es = Inr es" using rmap_total [of es lineage_edge_post_init "\<lambda>e. e"] by simp
  then have "plan_case_transitions previous current = Inr (sort_key edge_order es)"
    using d by (simp add: plan_case_transitions_def es_def [symmetric] transition_plan_def checks.simps)
  moreover have "\<lparr>le_predecessor = p, le_successor = s\<rparr> \<in> set es \<longleftrightarrow>
      (\<exists>old \<in> set previous. \<exists>new \<in> set current. p = tn_case_key old \<and> s = tn_case_key new \<and> p \<noteq> s \<and>
         set (tn_member_ids old) \<inter> set (tn_member_ids new) \<noteq> {})" for p s
    by (auto simp: es_def overlapping_def)
  ultimately show ?thesis using d by auto
qed

end
