(* ===== verification/ReviewFacts.thy ===== *)
theory ReviewFacts
  imports CaseKeys
begin

text \<open>
  The commands a reviewer can issue and the health of a decision: the constructors are canonical,
  an accepted command has the shape of its action, and the health of a decision is classified by
  priority.
\<close>

section \<open>Canonical constructors\<close>

interpretation authority: canonical_value decision_authority_post_init
  by unfold_locales (auto simp: decision_authority_post_init_def Let_def checks_Inr_iff split: if_splits)

interpretation expected: canonical_value expected_revision_post_init
  by unfold_locales (auto simp: expected_revision_post_init_def checks_Inr_iff)

lemma command_shape_cong:
  "command_shape (c\<lparr>dc_approved_conflicts := xs, dc_reviewed := ys\<rparr>) conflicts reviewed = command_shape c conflicts reviewed"
  by (cases "initial_kind (dc_action c)"; cases "dc_authority c"; cases "dc_target c") (simp_all add: command_shape_def)

lemma decision_command_Inr:
  "decision_command_post_init c = Inr d \<longleftrightarrow>
     d = c\<lparr>dc_approved_conflicts := sort_key revision_order (dc_approved_conflicts c), dc_reviewed := sort (dc_reviewed c)\<rparr> \<and>
     \<not> blank (dc_reason c) \<and> \<not> blank (dc_actor c) \<and> 0 \<le> dc_expected_generation c \<and>
     distinct (map er_decision_id (dc_approved_conflicts c)) \<and> distinct (dc_reviewed c) \<and> (\<forall>x \<in> set (dc_reviewed c). \<not> blank x) \<and>
     command_shape c (sort_key revision_order (dc_approved_conflicts c)) (sort (dc_reviewed c)) = Inr ()"
  by (auto simp: decision_command_post_init_def Let_def rbind_Inr_iff checks_Inr_iff canonical_texts_Inr)

interpretation command: canonical_value decision_command_post_init
  by unfold_locales (simp add: decision_command_Inr command_shape_cong)

interpretation conflict: canonical_value decision_conflict_post_init
  by unfold_locales (auto simp: decision_conflict_post_init_def rbind_Inr_iff checks_Inr_iff canonical_texts_Inr)

interpretation preview: canonical_value replacement_preview_post_init
  by unfold_locales (auto simp: replacement_preview_post_init_def Let_def checks_Inr_iff)

interpretation review_conflict: canonical_value review_conflict_post_init
  by unfold_locales (auto simp: review_conflict_post_init_def Let_def checks_Inr_iff)

interpretation health: canonical_value health_projection_post_init
  by unfold_locales (auto simp: health_projection_post_init_def Let_def checks_Inr_iff)

section \<open>Commands\<close>

definition endpoint_count :: "decision_authority \<Rightarrow> nat" where
  "endpoint_count a = (if da_kind a = ACCEPT_UNMATCHED_AUTHORITY then 1 else 2)"

text \<open>What a command of each action carries.\<close>

definition well_formed_command :: "decision_command \<Rightarrow> bool" where
  "well_formed_command c \<longleftrightarrow>
     (case dc_action c of
        REAFFIRM \<Rightarrow> dc_target c \<noteq> None \<and> dc_authority c = None \<and> dc_approved_conflicts c = [] \<and>
          1 \<le> length (dc_reviewed c) \<and> length (dc_reviewed c) \<le> 2
      | REVOKE \<Rightarrow> dc_target c \<noteq> None \<and> dc_authority c = None \<and> dc_approved_conflicts c = [] \<and> dc_reviewed c = []
      | REPLACE \<Rightarrow> (\<exists>t a. dc_target c = Some t \<and> dc_authority c = Some a \<and> length (dc_reviewed c) = endpoint_count a \<and>
          er_decision_id t \<notin> er_decision_id ` set (dc_approved_conflicts c))
      | _ \<Rightarrow> dc_target c = None \<and> dc_approved_conflicts c = [] \<and>
          (\<exists>a. dc_authority c = Some a \<and> initial_kind (dc_action c) = Some (da_kind a) \<and> length (dc_reviewed c) = endpoint_count a))"

lemma endpoint_ids_length:
  "endpoint_ids a = Inr ids \<Longrightarrow> length ids = endpoint_count a"
  by (auto simp: endpoint_ids_def endpoint_count_def split: if_splits option.splits)

lemma require_reviewed_cardinality_Inr:
  "require_reviewed_cardinality reviewed a = Inr () \<Longrightarrow> length reviewed = endpoint_count a"
  by (auto simp: require_reviewed_cardinality_def rbind_Inr_iff checks_Inr_iff dest!: endpoint_ids_length)

text \<open>C37. A command that its constructor accepts carries exactly what its action needs: an authority of the kind of an
  initial action, a target for a change, distinct conflicts in canonical order only for a replacement and without its
  target, and as many distinct reviewed observations as the authority has endpoints.\<close>

theorem accepted_commands_are_well_formed:
  assumes "decision_command_post_init c = Inr d"
  shows "well_formed_command d \<and> sorted (dc_reviewed d) \<and> distinct (dc_reviewed d) \<and>
    sorted (map revision_order (dc_approved_conflicts d)) \<and> distinct (map er_decision_id (dc_approved_conflicts d)) \<and>
    \<not> blank (dc_reason d) \<and> \<not> blank (dc_actor d) \<and> 0 \<le> dc_expected_generation d"
proof -
  note c = assms [unfolded decision_command_Inr]
  have "command_shape c (dc_approved_conflicts d) (dc_reviewed d) = Inr ()" using c by simp
  moreover have "dc_action d = dc_action c" "dc_target d = dc_target c" "dc_authority d = dc_authority c" using c by simp_all
  ultimately have "well_formed_command d"
    by (cases "dc_action c")
      (auto simp: well_formed_command_def command_shape_def initial_kind_def rbind_Inr_iff checks_Inr_iff Suc_le_eq image_iff
        split: option.splits if_splits dest!: require_reviewed_cardinality_Inr)
  with c show ?thesis by simp
qed

definition sample_revoke :: decision_command where
  "sample_revoke = \<lparr>dc_action = REVOKE, dc_reason = ''duplicate'', dc_actor = ''reviewer'', dc_expected_generation = 3,
     dc_authority = None, dc_target = Some \<lparr>er_decision_id = ''d'', er_revision_id = ''r''\<rparr>, dc_approved_conflicts = [],
     dc_reviewed = []\<rparr>"

theorem accepted_commands_are_well_formed_witness:
  "decision_command_post_init sample_revoke = Inr sample_revoke \<and> well_formed_command sample_revoke"
proof -
  have "decision_command_post_init sample_revoke = Inr sample_revoke"
    by (simp add: decision_command_Inr sample_revoke_def command_shape_def initial_kind_def checks.simps)
  with accepted_commands_are_well_formed [OF this] show ?thesis by simp
qed

section \<open>Health\<close>

text \<open>Projecting the health of a decision always succeeds for identified decisions and follows a fixed priority: an
  unavailable partner hides everything else, then a new candidate for an accepted unmatched record, then changed evidence;
  the attention reasons are exactly the flags that are set, in the order of their names.\<close>

lemma health_follows_priority:
  assumes "\<not> blank decision_id" and "\<not> blank revision_id" and "\<not> blank run_id" and "health_evidence_post_init e = Inr e"
  shows "\<exists>p. project_decision_health decision_id revision_id run_id e = Inr p \<and>
    hp_decision_id p = decision_id \<and> hp_revision_id p = revision_id \<and> hp_run_id p = run_id \<and>
    (hp_health p = PARTNER_UNAVAILABLE \<longleftrightarrow> \<not> he_endpoints_available e) \<and>
    (hp_health p = NEW_CANDIDATE \<longleftrightarrow> he_endpoints_available e \<and> he_new_candidate e) \<and>
    (hp_health p = EVIDENCE_CHANGED \<longleftrightarrow> he_endpoints_available e \<and> \<not> he_new_candidate e \<and>
       (he_evidence_changed e \<or> he_comparison_changed e)) \<and>
    set (hp_attention p) = {x. x = COMPARISON_CHANGED \<and> he_comparison_changed e \<or>
       x = AUTHORITATIVE_REFERENCE_CONFLICT \<and> he_reference_conflict e \<or> x = DIAGNOSTIC_INCOMPLETE \<and> \<not> he_diagnostic_complete e} \<and>
    distinct (hp_attention p) \<and> sorted (map attention_value (hp_attention p))"
  using assms
  by (auto simp: project_decision_health_def health_projection_post_init_def Let_def checks_Inr_iff health_evidence_post_init_def)

end
