(* ===== verification/Uuids.thy ===== *)
theory Uuids
  imports CaseKeys
begin

text \<open>
  \<open>uuid.UUID(text)\<close> as far as the services use it: from a text to the canonical text of the same
  identifier, or no value where it raises \<open>ValueError\<close>. Rows keep their identifiers in canonical
  text. A text with characters outside ASCII counts as invalid here; Python would also read decimal
  digits of other scripts.
\<close>

definition is_ascii :: "string \<Rightarrow> bool" where
  "is_ascii s \<longleftrightarrow> (\<forall>c \<in> set s. (of_char c :: nat) < 128)"

text \<open>\<open>s.replace(w, "")\<close>.\<close>

fun remove_all :: "string \<Rightarrow> string \<Rightarrow> string" where
  "remove_all w [] = []"
| "remove_all w (c # s) = (if starts_with w (c # s) then remove_all w (drop (length w - 1) s) else c # remove_all w s)"

definition strip_chars :: "char set \<Rightarrow> string \<Rightarrow> string" where
  "strip_chars cs s = rev (dropWhile (\<lambda>c. c \<in> cs) (rev (dropWhile (\<lambda>c. c \<in> cs) s)))"

text \<open>Hexadecimal digits with single underscores between them, as \<open>int(text, 16)\<close> reads them.\<close>

fun hex_digits :: "bool \<Rightarrow> string \<Rightarrow> string option" where
  "hex_digits after_digit [] = (if after_digit then Some [] else None)"
| "hex_digits after_digit (c # s) =
     (if is_hex c then map_option (Cons (ascii_lower c)) (hex_digits True s)
      else if c = CHR ''_'' \<and> after_digit then hex_digits False s
      else None)"

definition int16_digits :: "string \<Rightarrow> string option" where
  "int16_digits s =
     (let t = rev (dropWhile ascii_space (rev (dropWhile ascii_space s)));
          u = (if starts_with ''+'' t then tl t else t);
          v = (if starts_with ''0x'' u \<or> starts_with ''0X'' u
               then (if starts_with ''_'' (drop 2 u) then drop 3 u else drop 2 u) else u)
      in hex_digits False v)"

definition hyphenated :: "string \<Rightarrow> string" where
  "hyphenated h = take 8 h @ ''-'' @ take 4 (drop 8 h) @ ''-'' @ take 4 (drop 12 h) @ ''-'' @ take 4 (drop 16 h) @
     ''-'' @ drop 20 h"

definition uuid_text :: "string \<Rightarrow> string option" where
  "uuid_text s =
     (let h = remove_all ''-'' (strip_chars {CHR ''{'', CHR ''}''} (remove_all ''uuid:'' (remove_all ''urn:'' s)))
      in if \<not> is_ascii s \<or> length h \<noteq> 32 then None
         else map_option (\<lambda>ds. hyphenated (replicate (32 - length ds) (CHR ''0'') @ ds)) (int16_digits h))"

end
