(* ===== verification/Resolutions.thy ===== *)
theory Resolutions
  imports ReviewFacts Uuids JobOps Json
begin

text \<open>
  The command service for reviewer decisions (\<open>resolutions/services.py\<close>) on the tables of
  \<open>resolutions/models.py\<close>: an append-only log of decision revisions and supersessions beside the
  mutable claims of endpoints. Of the tables of \<open>books\<close>, \<open>sources\<close> and \<open>ingestion\<close> the columns the
  service reads are kept; the role and the book of a logical transaction are those of its source.
\<close>

section \<open>Tables\<close>

record book_row =
  bk_id :: string
  bk_workspace :: string
  bk_resolution_generation :: int

record scope_row =
  so_id :: string
  so_workspace :: string
  so_book :: string
  so_generation :: int
  so_is_dirty :: bool

record logical_row =
  lg_id :: string
  lg_workspace :: string
  lg_book :: string
  lg_role :: record_side

record observation_row =
  ob_id :: string
  ob_workspace :: string
  ob_logical :: string
  ob_fingerprint :: string

record decision_row =
  dn_id :: string
  dn_workspace :: string
  dn_book :: string
  dn_current :: "string option"
  dn_created_at :: datetime

record revision_row =
  rv_id :: string
  rv_workspace :: string
  rv_decision :: string
  rv_predecessor :: "string option"
  rv_revision :: int
  rv_action :: decision_action
  rv_authority_kind :: "authority_kind option"
  rv_left :: "string option"
  rv_right :: "string option"
  rv_record :: "string option"
  rv_side :: "record_side option"
  rv_reason :: string
  rv_actor :: string
  rv_reviewed :: "string list"
  rv_digest :: "string option"
  rv_created_at :: datetime

definition revision_authority_shape :: "revision_row \<Rightarrow> bool" where
  "revision_authority_shape r \<longleftrightarrow>
     (case rv_authority_kind r of
        None \<Rightarrow> rv_action r = REVOKE \<and> rv_left r = None \<and> rv_right r = None \<and> rv_record r = None \<and> rv_side r = None
      | Some ACCEPT_UNMATCHED_AUTHORITY \<Rightarrow> rv_left r = None \<and> rv_right r = None \<and> rv_record r \<noteq> None \<and> rv_side r \<noteq> None
      | Some _ \<Rightarrow> rv_left r \<noteq> None \<and> rv_right r \<noteq> None \<and> rv_record r = None \<and> rv_side r = None)"

definition revision_action_shape :: "revision_row \<Rightarrow> bool" where
  "revision_action_shape r \<longleftrightarrow>
     (case initial_kind (rv_action r) of
        Some kind \<Rightarrow> rv_authority_kind r = Some kind
      | None \<Rightarrow> if rv_action r = REVOKE then rv_authority_kind r = None else rv_authority_kind r \<noteq> None)"

definition revision_valid :: "revision_row \<Rightarrow> bool" where
  "revision_valid r \<longleftrightarrow>
     1 \<le> rv_revision r \<and> rv_revision r < 2 ^ 31 \<and> rv_reason r \<noteq> [] \<and> rv_actor r \<noteq> [] \<and> py_len (rv_actor r) \<le> 80 \<and>
     \<not> (rv_left r \<noteq> None \<and> rv_left r = rv_right r) \<and> revision_authority_shape r \<and> revision_action_shape r"

record supersession_row =
  su_workspace :: string
  su_replacement :: string
  su_superseded :: string
  su_created_at :: datetime

record active_claim =
  ac_workspace :: string
  ac_book :: string
  ac_logical :: string
  ac_revision :: string

record review_db =
  rd_base :: db
  rd_books :: "book_row list"
  rd_scopes :: "scope_row list"
  rd_logicals :: "logical_row list"
  rd_observations :: "observation_row list"
  rd_decisions :: "decision_row list"
  rd_revisions :: "revision_row list"
  rd_supersessions :: "supersession_row list"
  rd_claims :: "active_claim list"

text \<open>An operation on the workspace and job tables.\<close>

definition on_base :: "(db, 'a) op \<Rightarrow> (review_db, 'a) op" where
  "on_base m = (\<lambda>s. case m (rd_base s) of (r, b) \<Rightarrow> (r, s\<lparr>rd_base := b\<rparr>))"

text \<open>\<open>try\<close> with an \<open>except\<close> clause for some errors.\<close>

definition catch :: "(py_error \<Rightarrow> ('s, 'a) op option) \<Rightarrow> ('s, 'a) op \<Rightarrow> ('s, 'a) op" where
  "catch handler m = (\<lambda>s. case m s of
     (Inl e, t) \<Rightarrow> (case handler e of None \<Rightarrow> (Inl e, t) | Some k \<Rightarrow> k t)
   | (Inr x, t) \<Rightarrow> (Inr x, t))"

definition revision_of :: "review_db \<Rightarrow> string \<Rightarrow> revision_row option" where
  "revision_of s i = find (\<lambda>r. rv_id r = i) (rd_revisions s)"

definition superseded :: "review_db \<Rightarrow> string \<Rightarrow> bool" where
  "superseded s i \<longleftrightarrow> (\<exists>x \<in> set (rd_supersessions s). su_superseded x = i)"

definition create_revision :: "revision_row \<Rightarrow> (review_db, unit) op" where
  "create_revision r =
     sbind (gets (\<lambda>s. \<exists>x \<in> set (rd_revisions s). rv_id x = rv_id r \<or> rv_decision x = rv_decision r \<and> rv_revision x = rv_revision r \<or>
        rv_predecessor r \<noteq> None \<and> rv_predecessor x = rv_predecessor r))
     (\<lambda>duplicate. sbind (raise_if (duplicate \<or> \<not> revision_valid r) (IntegrityError ''decision_revision''))
     (\<lambda>_. modify (\<lambda>s. s\<lparr>rd_revisions := rd_revisions s @ [r]\<rparr>)))"

definition create_supersessions :: "supersession_row list \<Rightarrow> (review_db, unit) op" where
  "create_supersessions xs =
     sbind (gets (\<lambda>s. (\<exists>x \<in> set xs. \<exists>y \<in> set (rd_supersessions s). su_replacement x = su_replacement y \<and> su_superseded x = su_superseded y)))
     (\<lambda>duplicate. sbind (raise_if (duplicate \<or> \<not> distinct (map (\<lambda>x. (su_replacement x, su_superseded x)) xs) \<or>
         (\<exists>x \<in> set xs. su_replacement x = su_superseded x)) (IntegrityError ''decision_supersession''))
     (\<lambda>_. modify (\<lambda>s. s\<lparr>rd_supersessions := rd_supersessions s @ xs\<rparr>)))"

definition create_claims :: "active_claim list \<Rightarrow> (review_db, unit) op" where
  "create_claims xs =
     sbind (gets (\<lambda>s. \<exists>x \<in> set xs. \<exists>y \<in> set (rd_claims s). ac_logical x = ac_logical y \<and>
        (ac_book x = ac_book y \<or> ac_revision x = ac_revision y)))
     (\<lambda>duplicate. sbind (raise_if (duplicate \<or> \<not> distinct (map (\<lambda>x. (ac_book x, ac_logical x)) xs) \<or>
         \<not> distinct (map (\<lambda>x. (ac_revision x, ac_logical x)) xs)) (IntegrityError ''active_decision_claim''))
     (\<lambda>_. modify (\<lambda>s. s\<lparr>rd_claims := rd_claims s @ xs\<rparr>)))"

section \<open>Lookups and validation\<close>

primrec conflict_code_value :: "review_conflict_code \<Rightarrow> string" where
  "conflict_code_value STALE_GENERATION = ''STALE_GENERATION''"
| "conflict_code_value STALE_REVISION = ''STALE_REVISION''"
| "conflict_code_value ENDPOINT_CLAIMED = ''ENDPOINT_CLAIMED''"
| "conflict_code_value CONFLICT_SET_CHANGED = ''CONFLICT_SET_CHANGED''"

text \<open>\<open>DecisionMutationConflict(ReviewConflict(code, message, affected))\<close>.\<close>

definition mutation_conflict :: "review_conflict_code \<Rightarrow> string \<Rightarrow> expected_revision list \<Rightarrow> py_error" where
  "mutation_conflict code message affected =
     (case review_conflict_post_init \<lparr>rc_code = code, rc_message = message, rc_affected = affected\<rparr> of
        Inl e \<Rightarrow> e
      | Inr c \<Rightarrow> DecisionMutationConflict (conflict_code_value (rc_code c)) (rc_message c) (map revision_order (rc_affected c)))"

definition require_active_workspace :: "settings \<Rightarrow> string \<Rightarrow> datetime \<Rightarrow> (review_db, unit) op" where
  "require_active_workspace st w now =
     catch (\<lambda>e. if e = WorkspaceUnavailable then Some (raise DecisionMutationUnavailable) else None)
       (on_base (sbind (locked_workspace w) (\<lambda>row. require_active st row (utc_stamp now))))"

definition locked_book :: "string \<Rightarrow> string \<Rightarrow> (review_db, book_row) op" where
  "locked_book w b =
     sbind (gets (\<lambda>s. find (\<lambda>x. bk_id x = b \<and> bk_workspace x = w) (rd_books s)))
     (\<lambda>row. case row of None \<Rightarrow> raise DecisionMutationUnavailable | Some x \<Rightarrow> ok x)"

definition parse_uuid :: "string \<Rightarrow> (review_db, string) op" where
  "parse_uuid t = (case uuid_text t of None \<Rightarrow> raise DecisionMutationUnavailable | Some u \<Rightarrow> ok u)"

definition expected_of :: "string \<Rightarrow> string \<Rightarrow> (review_db, expected_revision) op" where
  "expected_of d r = lift_result (expected_revision_post_init \<lparr>er_decision_id = d, er_revision_id = r\<rparr>)"

definition current_revision :: "string \<Rightarrow> string \<Rightarrow> expected_revision \<Rightarrow> (review_db, revision_row) op" where
  "current_revision w b target =
     sbind (parse_uuid (er_decision_id target))
     (\<lambda>decision_id. sbind (parse_uuid (er_revision_id target))
     (\<lambda>revision_id. sbind (gets (\<lambda>s. find (\<lambda>d. dn_id d = decision_id \<and> dn_workspace d = w \<and> dn_book d = b) (rd_decisions s)))
     (\<lambda>row. case row of
        None \<Rightarrow> raise DecisionMutationUnavailable
      | Some d \<Rightarrow> (case dn_current d of
          None \<Rightarrow> raise (mutation_conflict STALE_REVISION ''The decision revision changed; refresh before saving.'' [])
        | Some c \<Rightarrow> sbind (gets (\<lambda>s. find (\<lambda>r. rv_id r = c \<and> rv_workspace r = w) (rd_revisions s)))
            (\<lambda>current. case current of
               None \<Rightarrow> raise DecisionMutationUnavailable
             | Some r \<Rightarrow>
                 if rv_id r \<noteq> revision_id
                 then sbind (expected_of (dn_id d) (rv_id r))
                   (\<lambda>e. raise (mutation_conflict STALE_REVISION ''The decision revision changed; refresh before saving.'' [e]))
                 else sbind (gets (\<lambda>s. superseded s (rv_id r)))
                   (\<lambda>gone. if rv_action r = REVOKE \<or> gone
                      then raise (mutation_conflict STALE_REVISION ''The decision is no longer active; refresh before saving.'' [])
                      else ok r))))))"

definition role_of :: "logical_row list \<Rightarrow> string \<Rightarrow> record_side option" where
  "role_of logicals i = map_option lg_role (find (\<lambda>l. lg_id l = i) logicals)"

definition resolve_authority :: "string \<Rightarrow> string \<Rightarrow> decision_authority \<Rightarrow> (review_db, logical_row list) op" where
  "resolve_authority w b a =
     sbind (lift_result (endpoint_ids a))
     (\<lambda>ids. sbind (smap parse_uuid ids)
     (\<lambda>parsed. sbind (gets (\<lambda>s. filter (\<lambda>l. lg_workspace l = w \<and> lg_id l \<in> set parsed) (rd_logicals s)))
     (\<lambda>logicals. sbind (raise_if
         (set (map lg_id logicals) \<noteq> set ids \<or> (\<exists>l \<in> set logicals. lg_book l \<noteq> b) \<or>
          (if da_kind a = ACCEPT_UNMATCHED_AUTHORITY
           then role_of logicals (the (da_record_id a)) \<noteq> da_record_side a
           else role_of logicals (the (da_left_id a)) \<noteq> Some LEFT \<or> role_of logicals (the (da_right_id a)) \<noteq> Some RIGHT))
         DecisionMutationUnavailable)
     (\<lambda>_. ok logicals))))"

definition resolve_reviewed :: "string \<Rightarrow> string \<Rightarrow> decision_command \<Rightarrow> logical_row list \<Rightarrow> (review_db, observation_row list) op" where
  "resolve_reviewed w b c logicals =
     sbind (smap parse_uuid (dc_reviewed c))
     (\<lambda>ids. sbind (gets (\<lambda>s. sort_key ob_id (filter (\<lambda>o'. ob_workspace o' = w \<and> ob_id o' \<in> set ids) (rd_observations s))))
     (\<lambda>observations. sbind (gets (\<lambda>s. \<exists>o' \<in> set observations.
          \<forall>l \<in> set (rd_logicals s). lg_id l = ob_logical o' \<longrightarrow> lg_book l \<noteq> b))
     (\<lambda>foreign. sbind (raise_if
         (length observations \<noteq> length ids \<or> foreign \<or>
          (\<exists>o' \<in> set observations. ob_logical o' \<notin> set (map lg_id logicals)) \<or>
          set (map ob_logical observations) \<noteq> set (map lg_id logicals))
         DecisionMutationUnavailable)
     (\<lambda>_. ok observations))))"

text \<open>The decisions whose claims overlap the endpoints of an authority, each with all its claims.\<close>

definition claim_conflict :: "review_db \<Rightarrow> string \<Rightarrow> string \<Rightarrow> string \<Rightarrow> decision_conflict result" where
  "claim_conflict s w b r =
     (case revision_of s r of
        None \<Rightarrow> Inl KeyError
      | Some x \<Rightarrow> decision_conflict_post_init \<lparr>cf_decision_id = rv_decision x, cf_revision_id = r,
          cf_claimed = sort (map ac_logical (filter (\<lambda>c. ac_workspace c = w \<and> ac_book c = b \<and> ac_revision c = r) (rd_claims s)))\<rparr>)"

definition decision_of_claim :: "review_db \<Rightarrow> active_claim \<Rightarrow> string option" where
  "decision_of_claim s c = map_option rv_decision (revision_of s (ac_revision c))"

definition claim_conflicts :: "string \<Rightarrow> string \<Rightarrow> decision_authority \<Rightarrow> string option \<Rightarrow> (review_db, decision_conflict list) op" where
  "claim_conflicts w b a excluding =
     (if \<not> reserves_endpoints a then ok []
      else sbind (lift_result (endpoint_ids a))
        (\<lambda>ids. sbind (gets (\<lambda>s. filter (\<lambda>c. ac_workspace c = w \<and> ac_book c = b \<and> ac_logical c \<in> set ids \<and>
            (excluding = None \<or> decision_of_claim s c \<noteq> excluding)) (rd_claims s)))
        (\<lambda>overlapping. sbind (\<lambda>s. (rmap (claim_conflict s w b) (remdups (map ac_revision overlapping)), s))
        (\<lambda>conflicts. ok (sort_key (\<lambda>c. (cf_decision_id c, cf_revision_id c)) conflicts)))))"

definition conflict_revision :: "decision_conflict \<Rightarrow> (review_db, expected_revision) op" where
  "conflict_revision c = expected_of (cf_decision_id c) (cf_revision_id c)"

definition reject_claim_conflicts :: "string \<Rightarrow> string \<Rightarrow> decision_authority \<Rightarrow> (review_db, unit) op" where
  "reject_claim_conflicts w b a =
     (if \<not> reserves_endpoints a then ok ()
      else sbind (claim_conflicts w b a None)
        (\<lambda>conflicts. if conflicts = [] then ok ()
           else sbind (smap conflict_revision conflicts)
             (\<lambda>affected. raise (mutation_conflict ENDPOINT_CLAIMED
                ''A reviewed endpoint is already reserved; preview a replacement.'' affected))))"

section \<open>Revisions\<close>

definition reviewed_evidence_digest :: "(string \<Rightarrow> string) \<Rightarrow> observation_row list \<Rightarrow> string" where
  "reviewed_evidence_digest sha256 observations = sha256 (json_dumps (json_object
     [(''version'', JText ''reviewed-evidence-v1''),
      (''observations'', JArray (map (\<lambda>o'. json_object
         [(''logical_transaction_id'', JText (ob_logical o')), (''observation_id'', JText (ob_id o')),
          (''fingerprint'', JText (ob_fingerprint o'))]) (sort_key ob_id observations)))]))"

text \<open>The endpoint columns of an authority; none for a revocation.\<close>

definition with_authority :: "decision_authority option \<Rightarrow> revision_row \<Rightarrow> revision_row" where
  "with_authority authority r =
     (case authority of
        None \<Rightarrow> r\<lparr>rv_authority_kind := None\<rparr>
      | Some a \<Rightarrow> if da_kind a = ACCEPT_UNMATCHED_AUTHORITY
          then r\<lparr>rv_authority_kind := Some (da_kind a), rv_record := da_record_id a, rv_side := da_record_side a\<rparr>
          else r\<lparr>rv_authority_kind := Some (da_kind a), rv_left := da_left_id a, rv_right := da_right_id a\<rparr>)"

definition initial_revision :: "(string \<Rightarrow> string) \<Rightarrow> string \<Rightarrow> string \<Rightarrow> string \<Rightarrow> decision_command \<Rightarrow> decision_authority \<Rightarrow>
    observation_row list \<Rightarrow> datetime \<Rightarrow> revision_row" where
  "initial_revision sha256 w i d c a observations created_at = with_authority (Some a)
     \<lparr>rv_id = i, rv_workspace = w, rv_decision = d, rv_predecessor = None, rv_revision = 1, rv_action = dc_action c,
      rv_authority_kind = None, rv_left = None, rv_right = None, rv_record = None, rv_side = None,
      rv_reason = py_strip (dc_reason c), rv_actor = py_strip (dc_actor c), rv_reviewed = map ob_id observations,
      rv_digest = Some (reviewed_evidence_digest sha256 observations), rv_created_at = created_at\<rparr>"

definition lifecycle_revision :: "(string \<Rightarrow> string) \<Rightarrow> string \<Rightarrow> string \<Rightarrow> revision_row \<Rightarrow> decision_command \<Rightarrow>
    decision_authority option \<Rightarrow> observation_row list \<Rightarrow> datetime \<Rightarrow> revision_row" where
  "lifecycle_revision sha256 w i current c authority observations created_at = with_authority authority
     \<lparr>rv_id = i, rv_workspace = w, rv_decision = rv_decision current, rv_predecessor = Some (rv_id current),
      rv_revision = rv_revision current + 1, rv_action = dc_action c,
      rv_authority_kind = None, rv_left = None, rv_right = None, rv_record = None, rv_side = None,
      rv_reason = py_strip (dc_reason c), rv_actor = py_strip (dc_actor c), rv_reviewed = map ob_id observations,
      rv_digest = (if observations = [] then None else Some (reviewed_evidence_digest sha256 observations)),
      rv_created_at = created_at\<rparr>"

definition authority_from_revision :: "revision_row \<Rightarrow> decision_authority result" where
  "authority_from_revision r =
     (case rv_authority_kind r of
        None \<Rightarrow> Inl ValueError
      | Some ACCEPT_UNMATCHED_AUTHORITY \<Rightarrow> (case (rv_record r, rv_side r) of
          (Some i, Some side) \<Rightarrow> authority_accept_unmatched i side
        | _ \<Rightarrow> Inl AssertionError)
      | Some kind \<Rightarrow> (case (rv_left r, rv_right r) of
          (Some left, Some right) \<Rightarrow> if kind = LINK_AUTHORITY then authority_link left right else authority_reject_candidate left right
        | _ \<Rightarrow> Inl AssertionError))"

section \<open>Commands\<close>

definition claims_of :: "string \<Rightarrow> string \<Rightarrow> string \<Rightarrow> string list \<Rightarrow> active_claim list" where
  "claims_of w b r ids = map (\<lambda>i. \<lparr>ac_workspace = w, ac_book = b, ac_logical = i, ac_revision = r\<rparr>) ids"

definition integrity_conflict :: "string \<Rightarrow> py_error \<Rightarrow> (review_db, unit) op option" where
  "integrity_conflict message e =
     (case e of IntegrityError _ \<Rightarrow> Some (raise (mutation_conflict ENDPOINT_CLAIMED message [])) | _ \<Rightarrow> None)"

text \<open>Claiming the endpoints of an authority; a violated uniqueness constraint is a conflict.\<close>

definition claim_endpoints :: "string \<Rightarrow> string \<Rightarrow> string \<Rightarrow> decision_authority \<Rightarrow> string \<Rightarrow> (review_db, unit) op" where
  "claim_endpoints w b r a message =
     (if \<not> reserves_endpoints a then ok ()
      else sbind (lift_result (endpoint_ids a))
        (\<lambda>ids. catch (integrity_conflict message) (create_claims (claims_of w b r ids))))"

definition set_current :: "string \<Rightarrow> string \<Rightarrow> (review_db, unit) op" where
  "set_current d r = modify (\<lambda>s. s\<lparr>rd_decisions := map (\<lambda>x. if dn_id x = d then x\<lparr>dn_current := Some r\<rparr> else x) (rd_decisions s)\<rparr>)"

text \<open>The generation of the book and of its scopes; \<open>PositiveBigIntegerField\<close> is 63 bits wide.\<close>

definition advance_generations :: "string \<Rightarrow> string \<Rightarrow> (review_db, unit) op" where
  "advance_generations w b =
     sbind (gets (\<lambda>s. (\<exists>x \<in> set (rd_books s). bk_id x = b \<and> 2 ^ 63 \<le> bk_resolution_generation x + 1) \<or>
        (\<exists>x \<in> set (rd_scopes s). so_workspace x = w \<and> so_book x = b \<and> 2 ^ 63 \<le> so_generation x + 1)))
     (\<lambda>overflow. sbind (raise_if overflow (IntegrityError ''generation''))
     (\<lambda>_. modify (\<lambda>s. s\<lparr>
        rd_books := map (\<lambda>x. if bk_id x = b then x\<lparr>bk_resolution_generation := bk_resolution_generation x + 1\<rparr> else x) (rd_books s),
        rd_scopes := map (\<lambda>x. if so_workspace x = w \<and> so_book x = b
          then x\<lparr>so_is_dirty := True, so_generation := so_generation x + 1\<rparr> else x) (rd_scopes s)\<rparr>)))"

definition require_generation :: "book_row \<Rightarrow> decision_command \<Rightarrow> (review_db, unit) op" where
  "require_generation book c = raise_if (bk_resolution_generation book \<noteq> dc_expected_generation c)
     (mutation_conflict STALE_GENERATION ''The review state changed; refresh before saving this decision.'' [])"

text \<open>The writes of \<open>commit_initial\<close>, once the command is validated.\<close>

definition record_initial :: "settings \<Rightarrow> (string \<Rightarrow> string) \<Rightarrow> datetime \<Rightarrow> string \<Rightarrow> string \<Rightarrow> decision_command \<Rightarrow>
    decision_authority \<Rightarrow> observation_row list \<Rightarrow> (review_db, revision_row) op" where
  "record_initial st sha256 clock w b c a observations =
     sbind (on_base (fresh st_uuid st))
     (\<lambda>d. sbind (modify (\<lambda>s. s\<lparr>rd_decisions := rd_decisions s @
         [\<lparr>dn_id = d, dn_workspace = w, dn_book = b, dn_current = None, dn_created_at = clock\<rparr>]\<rparr>))
     (\<lambda>_. sbind (on_base (fresh st_uuid st))
     (\<lambda>i. let r = initial_revision sha256 w i d c a observations clock
        in sbind (create_revision r)
        (\<lambda>_. sbind (set_current d i)
        (\<lambda>_. sbind (claim_endpoints w b i a ''A reviewed endpoint is already reserved; refresh before saving.'')
        (\<lambda>_. sbind (advance_generations w b)
        (\<lambda>_. ok r)))))))"

definition commit_initial :: "settings \<Rightarrow> (string \<Rightarrow> string) \<Rightarrow> datetime \<Rightarrow> string \<Rightarrow> string \<Rightarrow> decision_command \<Rightarrow>
    (review_db, revision_row) op" where
  "commit_initial st sha256 clock w b c =
     (case (initial_kind (dc_action c), dc_authority c) of
        (None, _) \<Rightarrow> raise (InitialDecisionActionRequired
          ''commit_initial accepts LINK, ACCEPT_UNMATCHED, or REJECT_CANDIDATE'')
      | (Some _, None) \<Rightarrow> raise AssertionError
      | (Some _, Some a) \<Rightarrow> atomic
          (sbind (require_active_workspace st w clock)
          (\<lambda>_. sbind (locked_book w b)
          (\<lambda>book. sbind (require_generation book c)
          (\<lambda>_. sbind (resolve_authority w b a)
          (\<lambda>logicals. sbind (resolve_reviewed w b c logicals)
          (\<lambda>observations. sbind (reject_claim_conflicts w b a)
          (\<lambda>_. record_initial st sha256 clock w b c a observations))))))))"

definition preview_replacement :: "settings \<Rightarrow> datetime \<Rightarrow> string \<Rightarrow> string \<Rightarrow> expected_revision \<Rightarrow> decision_authority \<Rightarrow>
    (review_db, replacement_preview) op" where
  "preview_replacement st clock w b target a =
     sbind (require_active_workspace st w clock)
     (\<lambda>_. sbind (locked_book w b)
     (\<lambda>book. sbind (current_revision w b target)
     (\<lambda>current. sbind (resolve_authority w b a)
     (\<lambda>_. sbind (claim_conflicts w b a (Some (rv_decision current)))
     (\<lambda>conflicts. lift_result (replacement_preview_post_init
        \<lparr>rp_authority = a, rp_target = target, rp_conflicts = conflicts, rp_generation = bk_resolution_generation book\<rparr>))))))"

text \<open>What a change puts in place of the current revision: authority, reviewed observations and conflicts.\<close>

definition prepare_change :: "string \<Rightarrow> string \<Rightarrow> decision_command \<Rightarrow> revision_row \<Rightarrow> decision_authority \<Rightarrow>
    (review_db, decision_authority option \<times> observation_row list \<times> decision_conflict list) op" where
  "prepare_change w b c current inherited =
     (if dc_action c = REAFFIRM
      then sbind (resolve_authority w b inherited)
        (\<lambda>logicals. sbind (resolve_reviewed w b c logicals)
        (\<lambda>observations. ok (Some inherited, observations, [])))
      else if dc_action c = REPLACE
      then (case dc_authority c of
          None \<Rightarrow> raise AssertionError
        | Some a \<Rightarrow> sbind (resolve_authority w b a)
            (\<lambda>logicals. sbind (resolve_reviewed w b c logicals)
            (\<lambda>observations. sbind (claim_conflicts w b a (Some (rv_decision current)))
            (\<lambda>conflicts. sbind (smap conflict_revision conflicts)
            (\<lambda>actual. sbind (raise_if (actual \<noteq> dc_approved_conflicts c)
                (mutation_conflict CONFLICT_SET_CHANGED
                   ''The affected decisions changed; preview the replacement again.'' actual))
            (\<lambda>_. ok (Some a, observations, conflicts)))))))
      else ok (None, [], []))"

definition move_claims :: "string \<Rightarrow> string \<Rightarrow> string \<Rightarrow> string \<Rightarrow> (review_db, unit) op" where
  "move_claims w b old new = modify (\<lambda>s. s\<lparr>rd_claims := map (\<lambda>x.
     if ac_workspace x = w \<and> ac_book x = b \<and> ac_revision x = old then x\<lparr>ac_revision := new\<rparr> else x) (rd_claims s)\<rparr>)"

definition drop_claims :: "string \<Rightarrow> string \<Rightarrow> string list \<Rightarrow> (review_db, unit) op" where
  "drop_claims w b revisions = modify (\<lambda>s. s\<lparr>rd_claims :=
     filter (\<lambda>x. \<not> (ac_workspace x = w \<and> ac_book x = b \<and> ac_revision x \<in> set revisions)) (rd_claims s)\<rparr>)"

definition settle_claims :: "datetime \<Rightarrow> string \<Rightarrow> string \<Rightarrow> decision_command \<Rightarrow> revision_row \<Rightarrow> string \<Rightarrow>
    decision_authority option \<Rightarrow> decision_conflict list \<Rightarrow> (review_db, unit) op" where
  "settle_claims clock w b c current i authority conflicts =
     (if dc_action c = REAFFIRM then move_claims w b (rv_id current) i
      else if dc_action c = REVOKE then drop_claims w b [rv_id current]
      else let gone = rv_id current # map cf_revision_id conflicts
        in sbind (create_supersessions (map (\<lambda>x. \<lparr>su_workspace = w, su_replacement = i, su_superseded = x, su_created_at = clock\<rparr>) gone))
           (\<lambda>_. sbind (drop_claims w b gone)
           (\<lambda>_. case authority of
               None \<Rightarrow> raise AssertionError
             | Some a \<Rightarrow> claim_endpoints w b i a ''A reviewed endpoint is already reserved; preview again.'')))"

text \<open>The writes of \<open>commit_change\<close>, once the change is prepared.\<close>

definition record_change :: "settings \<Rightarrow> (string \<Rightarrow> string) \<Rightarrow> datetime \<Rightarrow> string \<Rightarrow> string \<Rightarrow> decision_command \<Rightarrow> revision_row \<Rightarrow>
    decision_authority option \<times> observation_row list \<times> decision_conflict list \<Rightarrow> (review_db, revision_row) op" where
  "record_change st sha256 clock w b c current = (\<lambda>(authority, observations, conflicts).
     sbind (on_base (fresh st_uuid st))
     (\<lambda>i. let r = lifecycle_revision sha256 w i current c authority observations clock
        in sbind (create_revision r)
        (\<lambda>_. sbind (settle_claims clock w b c current i authority conflicts)
        (\<lambda>_. sbind (set_current (rv_decision current) i)
        (\<lambda>_. sbind (advance_generations w b)
        (\<lambda>_. ok r))))))"

definition commit_change :: "settings \<Rightarrow> (string \<Rightarrow> string) \<Rightarrow> datetime \<Rightarrow> string \<Rightarrow> string \<Rightarrow> decision_command \<Rightarrow>
    (review_db, revision_row) op" where
  "commit_change st sha256 clock w b c =
     (case (initial_kind (dc_action c), dc_target c) of
        (Some _, _) \<Rightarrow> raise (InitialDecisionActionRequired ''commit_change accepts REAFFIRM, REVOKE, or REPLACE'')
      | (None, None) \<Rightarrow> raise AssertionError
      | (None, Some target) \<Rightarrow> atomic
          (sbind (require_active_workspace st w clock)
          (\<lambda>_. sbind (locked_book w b)
          (\<lambda>book. sbind (require_generation book c)
          (\<lambda>_. sbind (current_revision w b target)
          (\<lambda>current. sbind (lift_result (authority_from_revision current))
          (\<lambda>inherited. sbind (prepare_change w b c current inherited)
          (\<lambda>change. record_change st sha256 clock w b c current change))))))))"

end
