(* ===== verification/ResolutionFacts.thy ===== *)
theory ResolutionFacts
  imports Resolutions JobMachine
begin

text \<open>
  The states the command service leaves behind: what each part of a command that returns did, and
  the invariant that ties the mutable claims to the append-only log.
\<close>

section \<open>Results of the parts\<close>

lemma on_base_Inr [simp]: "on_base m s = (Inr x, t) \<longleftrightarrow> (\<exists>b. m (rd_base s) = (Inr x, b) \<and> t = s\<lparr>rd_base := b\<rparr>)"
  by (auto simp: on_base_def split: prod.splits)

lemma catch_Inr: "catch handler m s = (Inr x, t) \<longleftrightarrow>
    m s = (Inr x, t) \<or> (\<exists>e u k. m s = (Inl e, u) \<and> handler e = Some k \<and> k u = (Inr x, t))"
  by (auto simp: catch_def split: prod.splits sum.splits option.splits)

lemma require_active_workspace_Inr:
  "require_active_workspace st w now s = (Inr x, t) \<Longrightarrow> t = s"
  by (auto simp: require_active_workspace_def catch_Inr sbind_Inr split: if_splits dest!: require_active_Inr)

lemma locked_book_Inr [simp]:
  "locked_book w b s = (Inr x, t) \<longleftrightarrow> find (\<lambda>x. bk_id x = b \<and> bk_workspace x = w) (rd_books s) = Some x \<and> t = s"
  by (auto simp: locked_book_def sbind_Inr split: option.splits)

lemma parse_uuid_Inr [simp]: "parse_uuid u s = (Inr x, t) \<longleftrightarrow> uuid_text u = Some x \<and> t = s"
  by (auto simp: parse_uuid_def split: option.splits)

lemma smap_state: "smap f xs s = (Inr ys, t) \<Longrightarrow> (\<And>x y u v. f x u = (Inr y, v) \<Longrightarrow> v = u) \<Longrightarrow> t = s"
  by (induction xs arbitrary: s ys) (fastforce simp: sbind_Inr)+

lemma expected_of_Inr [simp]:
  "expected_of d r s = (Inr e, t) \<longleftrightarrow> e = \<lparr>er_decision_id = d, er_revision_id = r\<rparr> \<and> \<not> blank d \<and> \<not> blank r \<and> t = s"
  by (auto simp: expected_of_def expected_revision_post_init_def checks_Inr_iff)

lemma current_revision_Inr:
  assumes "current_revision w b target s = (Inr r, t)"
  shows "t = s \<and> uuid_text (er_revision_id target) = Some (rv_id r) \<and>
     rv_action r \<noteq> REVOKE \<and> \<not> superseded s (rv_id r) \<and> r \<in> set (rd_revisions s) \<and> rv_workspace r = w \<and>
     (\<exists>d \<in> set (rd_decisions s). uuid_text (er_decision_id target) = Some (dn_id d) \<and> dn_workspace d = w \<and> dn_book d = b \<and>
        dn_current d = Some (rv_id r))"
proof -
  from assms obtain u d where u: "uuid_text (er_decision_id target) = Some u"
    and d: "find (\<lambda>d. dn_id d = u \<and> dn_workspace d = w \<and> dn_book d = b) (rd_decisions s) = Some d"
    by (fastforce simp: current_revision_def sbind_Inr split: option.split_asm)
  from assms u d obtain c x where c: "dn_current d = Some c"
    and x: "find (\<lambda>r. rv_id r = c \<and> rv_workspace r = w) (rd_revisions s) = Some x"
    by (fastforce simp: current_revision_def sbind_Inr split: option.split_asm)
  with assms u d have "r = x \<and> t = s \<and> uuid_text (er_revision_id target) = Some (rv_id x) \<and> rv_action x \<noteq> REVOKE \<and> \<not> superseded s (rv_id x)"
    by (auto simp: current_revision_def sbind_Inr split: if_splits)
  with find_Some_in [OF d] find_Some_in [OF x] u c show ?thesis by auto
qed

lemma resolve_authority_Inr:
  "resolve_authority w b a s = (Inr ls, t) \<Longrightarrow> t = s \<and> (\<exists>ids. endpoint_ids a = Inr ids \<and> set (map lg_id ls) = set ids)"
  by (auto simp: resolve_authority_def sbind_Inr dest!: smap_state)

lemma resolve_reviewed_Inr: "resolve_reviewed w b c ls s = (Inr obs, t) \<Longrightarrow> t = s"
  by (auto simp: resolve_reviewed_def sbind_Inr dest!: smap_state)

lemma claim_conflict_Inr:
  "claim_conflict s w b r = Inr c \<Longrightarrow> cf_revision_id c = r \<and> (\<exists>x \<in> set (rd_revisions s). rv_id x = r \<and> cf_decision_id c = rv_decision x)"
  by (auto simp: claim_conflict_def revision_of_def decision_conflict_post_init_def rbind_Inr_iff checks_Inr_iff split: option.splits dest!: find_Some_in)

lemma claim_conflicts_Inr:
  assumes "claim_conflicts w b a excluding s = (Inr cs, t)"
  shows "t = s \<and> (if reserves_endpoints a
     then \<exists>ids. endpoint_ids a = Inr ids \<and> set (map cf_revision_id cs) = ac_revision ` {c \<in> set (rd_claims s). ac_workspace c = w \<and>
        ac_book c = b \<and> ac_logical c \<in> set ids \<and> (excluding = None \<or> decision_of_claim s c \<noteq> excluding)} \<and>
        distinct (map cf_revision_id cs)
     else cs = [])"
proof (cases "reserves_endpoints a")
  case False
  with assms show ?thesis by (simp add: claim_conflicts_def)
next
  case True
  with assms obtain ids xs where ids: "endpoint_ids a = Inr ids" and t: "t = s" and cs: "cs = sort_key (\<lambda>c. (cf_decision_id c, cf_revision_id c)) xs"
    and xs: "rmap (claim_conflict s w b) (remdups (map ac_revision (filter (\<lambda>c. ac_workspace c = w \<and> ac_book c = b \<and>
        ac_logical c \<in> set ids \<and> (excluding = None \<or> decision_of_claim s c \<noteq> excluding)) (rd_claims s)))) = Inr xs"
    by (auto simp: claim_conflicts_def sbind_Inr)
  from rmap_map_eq [OF xs, of cf_revision_id "\<lambda>r. r"] claim_conflict_Inr
  have "map cf_revision_id xs = remdups (map ac_revision (filter (\<lambda>c. ac_workspace c = w \<and> ac_book c = b \<and>
        ac_logical c \<in> set ids \<and> (excluding = None \<or> decision_of_claim s c \<noteq> excluding)) (rd_claims s)))" by auto
  then have "set (map cf_revision_id xs) = ac_revision ` {c \<in> set (rd_claims s). ac_workspace c = w \<and>
        ac_book c = b \<and> ac_logical c \<in> set ids \<and> (excluding = None \<or> decision_of_claim s c \<noteq> excluding)} \<and> distinct (map cf_revision_id xs)"
    by simp
  then show ?thesis using True ids t by (simp add: cs)
qed

lemma reject_claim_conflicts_Inr: "reject_claim_conflicts w b a s = (Inr x, t) \<Longrightarrow> t = s"
  by (auto simp: reject_claim_conflicts_def sbind_Inr split: if_splits dest!: claim_conflicts_Inr)

lemma create_revision_Inr [simp]:
  "create_revision r s = (Inr x, t) \<longleftrightarrow> revision_valid r \<and> (\<forall>y \<in> set (rd_revisions s). rv_id y \<noteq> rv_id r \<and>
     (rv_decision y = rv_decision r \<longrightarrow> rv_revision y \<noteq> rv_revision r) \<and>
     (rv_predecessor r \<noteq> None \<longrightarrow> rv_predecessor y \<noteq> rv_predecessor r)) \<and> t = s\<lparr>rd_revisions := rd_revisions s @ [r]\<rparr>"
  by (auto simp: create_revision_def sbind_Inr)

lemma create_supersessions_Inr: "create_supersessions xs s = (Inr x, t) \<Longrightarrow> t = s\<lparr>rd_supersessions := rd_supersessions s @ xs\<rparr>"
  by (auto simp: create_supersessions_def sbind_Inr)

lemma create_claims_Inr:
  "create_claims xs s = (Inr x, t) \<Longrightarrow> t = s\<lparr>rd_claims := rd_claims s @ xs\<rparr> \<and>
     distinct (map (\<lambda>x. (ac_book x, ac_logical x)) xs) \<and>
     (\<forall>x \<in> set xs. \<forall>y \<in> set (rd_claims s). ac_logical x = ac_logical y \<longrightarrow> ac_book x \<noteq> ac_book y)"
  by (auto simp: create_claims_def sbind_Inr)

lemma integrity_conflict_Some: "integrity_conflict message e = Some k \<Longrightarrow> k = raise (mutation_conflict ENDPOINT_CLAIMED message [])"
  by (cases e) (simp_all add: integrity_conflict_def)

lemma claim_endpoints_Inr:
  assumes "claim_endpoints w b r a message s = (Inr x, t)"
  shows "\<exists>xs. t = s\<lparr>rd_claims := rd_claims s @ xs\<rparr> \<and> distinct (map (\<lambda>x. (ac_book x, ac_logical x)) xs) \<and>
     (\<forall>x \<in> set xs. \<forall>y \<in> set (rd_claims s). ac_logical x = ac_logical y \<longrightarrow> ac_book x \<noteq> ac_book y) \<and>
     (if reserves_endpoints a then \<exists>ids. endpoint_ids a = Inr ids \<and> xs = claims_of w b r ids else xs = [])"
proof (cases "reserves_endpoints a")
  case False
  with assms show ?thesis by (simp add: claim_endpoints_def)
next
  case True
  with assms obtain ids where ids: "endpoint_ids a = Inr ids" and c: "create_claims (claims_of w b r ids) s = (Inr x, t)"
    by (auto simp: claim_endpoints_def sbind_Inr catch_Inr dest!: integrity_conflict_Some)
  from create_claims_Inr [OF c] ids True show ?thesis by auto
qed

lemma set_current_Inr [simp]: "set_current d r s = (Inr x, t) \<longleftrightarrow>
   t = s\<lparr>rd_decisions := map (\<lambda>x. if dn_id x = d then x\<lparr>dn_current := Some r\<rparr> else x) (rd_decisions s)\<rparr>"
  by (simp add: set_current_def)

lemma advance_generations_Inr:
  "advance_generations w b s = (Inr x, t) \<Longrightarrow> t = s\<lparr>
     rd_books := map (\<lambda>x. if bk_id x = b then x\<lparr>bk_resolution_generation := bk_resolution_generation x + 1\<rparr> else x) (rd_books s),
     rd_scopes := map (\<lambda>x. if so_workspace x = w \<and> so_book x = b
       then x\<lparr>so_is_dirty := True, so_generation := so_generation x + 1\<rparr> else x) (rd_scopes s)\<rparr>"
  by (auto simp: advance_generations_def sbind_Inr)

section \<open>The log and the claims\<close>

text \<open>The endpoints the authority of a revision reserves.\<close>

definition reserved_endpoints :: "revision_row \<Rightarrow> string set" where
  "reserved_endpoints r =
     (case rv_authority_kind r of
        Some LINK_AUTHORITY \<Rightarrow> set_option (rv_left r) \<union> set_option (rv_right r)
      | Some ACCEPT_UNMATCHED_AUTHORITY \<Rightarrow> set_option (rv_record r)
      | _ \<Rightarrow> {})"

text \<open>What the append-only log says: the current revisions that are neither revoked nor superseded.\<close>

definition active_revision :: "review_db \<Rightarrow> decision_row \<Rightarrow> revision_row \<Rightarrow> bool" where
  "active_revision s d r \<longleftrightarrow> d \<in> set (rd_decisions s) \<and> r \<in> set (rd_revisions s) \<and> rv_decision r = dn_id d \<and>
     dn_current d = Some (rv_id r) \<and> rv_action r \<noteq> REVOKE \<and> \<not> superseded s (rv_id r)"

definition implied_claims :: "review_db \<Rightarrow> active_claim set" where
  "implied_claims s = {\<lparr>ac_workspace = rv_workspace r, ac_book = dn_book d, ac_logical = i, ac_revision = rv_id r\<rparr> | d r i.
     active_revision s d r \<and> i \<in> reserved_endpoints r}"

definition log_ok :: "settings \<Rightarrow> review_db \<Rightarrow> bool" where
  "log_ok st s \<longleftrightarrow>
     distinct (map dn_id (rd_decisions s)) \<and> distinct (map rv_id (rd_revisions s)) \<and>
     set (map dn_id (rd_decisions s)) \<subseteq> st_uuid st ` {..<db_serial (rd_base s)} \<and>
     set (map rv_id (rd_revisions s)) \<subseteq> st_uuid st ` {..<db_serial (rd_base s)} \<and>
     (\<forall>r \<in> set (rd_revisions s). revision_valid r \<and> (\<exists>d \<in> set (rd_decisions s). dn_id d = rv_decision r \<and> dn_workspace d = rv_workspace r)) \<and>
     (\<forall>d \<in> set (rd_decisions s). \<exists>r \<in> set (rd_revisions s). dn_current d = Some (rv_id r) \<and> rv_decision r = dn_id d) \<and>
     (\<forall>x \<in> set (rd_supersessions s). su_superseded x \<in> rv_id ` set (rd_revisions s))"

definition claims_ok :: "review_db \<Rightarrow> bool" where
  "claims_ok s \<longleftrightarrow> set (rd_claims s) = implied_claims s \<and> distinct (map (\<lambda>x. (ac_book x, ac_logical x)) (rd_claims s))"

definition review_ok :: "settings \<Rightarrow> review_db \<Rightarrow> bool" where
  "review_ok st s \<longleftrightarrow> log_ok st s \<and> claims_ok s"


section \<open>Extending the log\<close>

lemma log_okD:
  assumes "log_ok st s"
  shows "distinct (map dn_id (rd_decisions s))" "distinct (map rv_id (rd_revisions s))"
    "\<And>d. d \<in> set (rd_decisions s) \<Longrightarrow> dn_id d \<in> st_uuid st ` {..<db_serial (rd_base s)}"
    "\<And>r. r \<in> set (rd_revisions s) \<Longrightarrow> rv_id r \<in> st_uuid st ` {..<db_serial (rd_base s)}"
    "\<And>r. r \<in> set (rd_revisions s) \<Longrightarrow> revision_valid r"
    "\<And>r. r \<in> set (rd_revisions s) \<Longrightarrow> \<exists>d \<in> set (rd_decisions s). dn_id d = rv_decision r \<and> dn_workspace d = rv_workspace r"
    "\<And>d. d \<in> set (rd_decisions s) \<Longrightarrow> \<exists>r \<in> set (rd_revisions s). dn_current d = Some (rv_id r) \<and> rv_decision r = dn_id d"
    "\<And>x. x \<in> set (rd_supersessions s) \<Longrightarrow> su_superseded x \<in> rv_id ` set (rd_revisions s)"
  using assms by (auto simp: log_ok_def)

lemma uuid_fresh:
  assumes "inj (st_uuid st)" and "n \<le> k"
  shows "st_uuid st k \<notin> st_uuid st ` {..<n}"
  using assms by (auto dest: injD)

lemma superseded_in_log: "log_ok st s \<Longrightarrow> superseded s i \<Longrightarrow> i \<in> rv_id ` set (rd_revisions s)"
  using log_okD(8) by (auto simp: superseded_def)

lemma log_ok_new:
  assumes s: "log_ok st s" and inj: "inj (st_uuid st)" and r: "revision_valid r" "rv_id r = st_uuid st (n + 1)"
    and n: "n = db_serial (rd_base s)" and d: "dn_id d = st_uuid st n" "dn_current d = Some (rv_id r)" "rv_decision r = dn_id d"
      "dn_workspace d = rv_workspace r"
    and t: "rd_decisions t = rd_decisions s @ [d]" "rd_revisions t = rd_revisions s @ [r]" "rd_supersessions t = rd_supersessions s"
      "db_serial (rd_base t) = n + 2"
  shows "log_ok st t"
proof -
  have sub: "st_uuid st ` {..<n} \<subseteq> st_uuid st ` {..<n + 2}" by auto
  have new: "st_uuid st n \<in> st_uuid st ` {..<n + 2}" "st_uuid st (n + 1) \<in> st_uuid st ` {..<n + 2}" by simp_all
  have fresh: "dn_id d \<notin> dn_id ` set (rd_decisions s)" "rv_id r \<notin> rv_id ` set (rd_revisions s)"
    using uuid_fresh [OF inj, of n n] uuid_fresh [OF inj, of n "n + 1"] log_okD(3,4) [OF s] d(1) r(2) n by auto
  have "distinct (map dn_id (rd_decisions t))" "distinct (map rv_id (rd_revisions t))"
    using log_okD(1,2) [OF s] fresh by (auto simp: t)
  moreover have "set (map dn_id (rd_decisions t)) \<subseteq> st_uuid st ` {..<n + 2}" "set (map rv_id (rd_revisions t)) \<subseteq> st_uuid st ` {..<n + 2}"
    using log_okD(3,4) [OF s] sub new d(1) r(2) n by (auto simp: t)
  moreover have "revision_valid x \<and> (\<exists>d \<in> set (rd_decisions t). dn_id d = rv_decision x \<and> dn_workspace d = rv_workspace x)"
    if "x \<in> set (rd_revisions t)" for x
    using that log_okD(5,6) [OF s] r(1) d by (auto simp: t)
  moreover have "\<exists>r \<in> set (rd_revisions t). dn_current x = Some (rv_id r) \<and> rv_decision r = dn_id x" if "x \<in> set (rd_decisions t)" for x
    using that log_okD(7) [OF s] d by (auto simp: t)
  moreover have "su_superseded x \<in> rv_id ` set (rd_revisions t)" if "x \<in> set (rd_supersessions t)" for x
    using that log_okD(8) [OF s] by (auto simp: t)
  ultimately show ?thesis unfolding log_ok_def t(4) by blast
qed

lemma implied_new:
  assumes s: "log_ok st s" and fresh: "dn_id d \<notin> dn_id ` set (rd_decisions s)" "rv_id r \<notin> rv_id ` set (rd_revisions s)"
    and d: "dn_current d = Some (rv_id r)" "rv_decision r = dn_id d" and action: "rv_action r \<noteq> REVOKE"
    and t: "rd_decisions t = rd_decisions s @ [d]" "rd_revisions t = rd_revisions s @ [r]" "rd_supersessions t = rd_supersessions s"
  shows "implied_claims t = implied_claims s \<union>
    {\<lparr>ac_workspace = rv_workspace r, ac_book = dn_book d, ac_logical = i, ac_revision = rv_id r\<rparr> | i. i \<in> reserved_endpoints r}"
proof -
  have sup: "superseded t = superseded s" by (simp add: superseded_def t fun_eq_iff)
  have notsup: "\<not> superseded s (rv_id r)" using superseded_in_log [OF s] fresh(2) by blast
  have "active_revision t d' r' \<longleftrightarrow> active_revision s d' r' \<or> d' = d \<and> r' = r" for d' r'
  proof -
    have old: "rv_decision x \<noteq> dn_id d" if "x \<in> set (rd_revisions s)" for x
      using log_okD(6) [OF s that] fresh(1) by (metis image_eqI)
    have cur: "dn_id x \<noteq> rv_decision r" if "x \<in> set (rd_decisions s)" for x
      using that fresh(1) d(2) by (metis image_eqI)
    show ?thesis
      unfolding active_revision_def sup t using old cur notsup d action by (auto dest: sym)
  qed
  then show ?thesis unfolding implied_claims_def by blast
qed

lemma log_ok_change:
  assumes s: "log_ok st s" and inj: "inj (st_uuid st)" and r: "revision_valid r" "rv_id r = st_uuid st n"
    and n: "n = db_serial (rd_base s)" and d: "d \<in> set (rd_decisions s)" "rv_decision r = dn_id d" "dn_workspace d = rv_workspace r"
    and t: "rd_decisions t = map (\<lambda>x. if dn_id x = dn_id d then x\<lparr>dn_current := Some (rv_id r)\<rparr> else x) (rd_decisions s)"
      "rd_revisions t = rd_revisions s @ [r]" "db_serial (rd_base t) = n + 1"
    and sup: "\<And>x. x \<in> set (rd_supersessions t) \<Longrightarrow> su_superseded x \<in> rv_id ` set (rd_revisions s)"
  shows "log_ok st t"
proof -
  have sub: "st_uuid st ` {..<n} \<subseteq> st_uuid st ` {..<n + 1}" by auto
  have new: "st_uuid st n \<in> st_uuid st ` {..<n + 1}" by simp
  have fresh: "rv_id r \<notin> rv_id ` set (rd_revisions s)"
    using uuid_fresh [OF inj, of n n] log_okD(4) [OF s] r(2) n by auto
  have ids: "map dn_id (rd_decisions t) = map dn_id (rd_decisions s)" by (simp add: t)
  have "distinct (map dn_id (rd_decisions t))" "distinct (map rv_id (rd_revisions t))"
    using log_okD(1,2) [OF s] fresh unfolding ids by (auto simp: t)
  moreover have "set (map dn_id (rd_decisions t)) \<subseteq> st_uuid st ` {..<n + 1}" "set (map rv_id (rd_revisions t)) \<subseteq> st_uuid st ` {..<n + 1}"
    using log_okD(3,4) [OF s] sub new r(2) n unfolding ids by (auto simp: t)
  moreover have "revision_valid x \<and> (\<exists>d \<in> set (rd_decisions t). dn_id d = rv_decision x \<and> dn_workspace d = rv_workspace x)"
    if x: "x \<in> set (rd_revisions t)" for x
  proof -
    obtain e where e: "e \<in> set (rd_decisions s)" "dn_id e = rv_decision x" "dn_workspace e = rv_workspace x" "revision_valid x"
      using x log_okD(5,6) [OF s] r(1) d by (auto simp: t)
    let ?e = "if dn_id e = dn_id d then e\<lparr>dn_current := Some (rv_id r)\<rparr> else e"
    have "?e \<in> set (rd_decisions t)" "dn_id ?e = rv_decision x" "dn_workspace ?e = rv_workspace x"
      using e by (auto simp: t)
    with e(4) show ?thesis by blast
  qed
  moreover have "\<exists>r \<in> set (rd_revisions t). dn_current x = Some (rv_id r) \<and> rv_decision r = dn_id x" if x: "x \<in> set (rd_decisions t)" for x
  proof -
    from x obtain e where e: "e \<in> set (rd_decisions s)" "x = (if dn_id e = dn_id d then e\<lparr>dn_current := Some (rv_id r)\<rparr> else e)"
      by (auto simp: t)
    then show ?thesis using log_okD(7) [OF s e(1)] d(2) by (auto simp: t)
  qed
  moreover have "su_superseded x \<in> rv_id ` set (rd_revisions t)" if "x \<in> set (rd_supersessions t)" for x
    using sup [OF that] by (auto simp: t)
  ultimately show ?thesis unfolding log_ok_def t(3) by blast
qed

lemma implied_change:
  assumes s: "log_ok st s" and d: "d \<in> set (rd_decisions s)" "dn_current d = Some (rv_id cur)" "rv_decision cur = dn_id d"
    and cur: "cur \<in> set (rd_revisions s)" and r: "rv_decision r = dn_id d" and fresh: "rv_id r \<notin> rv_id ` set (rd_revisions s)"
    and t: "rd_decisions t = map (\<lambda>x. if dn_id x = dn_id d then x\<lparr>dn_current := Some (rv_id r)\<rparr> else x) (rd_decisions s)"
      "rd_revisions t = rd_revisions s @ [r]"
    and sup: "\<And>i. superseded t i \<longleftrightarrow> superseded s i \<or> i \<in> gone" and gone: "gone \<subseteq> rv_id ` set (rd_revisions s)"
  shows "implied_claims t = {x \<in> implied_claims s. ac_revision x \<noteq> rv_id cur \<and> ac_revision x \<notin> gone} \<union>
    {\<lparr>ac_workspace = rv_workspace r, ac_book = dn_book d, ac_logical = i, ac_revision = rv_id r\<rparr> | i. rv_action r \<noteq> REVOKE \<and> i \<in> reserved_endpoints r}"
proof -
  have notsup: "\<not> superseded t (rv_id r)" using superseded_in_log [OF s] fresh gone sup by blast
  have only: "e = d" if "e \<in> set (rd_decisions s)" "dn_id e = dn_id d" for e
    using distinct_same [OF log_okD(1) [OF s] that(1) d(1) that(2)] .
  have current: "x = cur" if "x \<in> set (rd_revisions s)" "rv_id x = rv_id cur" for x
    using distinct_same [OF log_okD(2) [OF s] that(1) cur that(2)] .
  have iff: "active_revision t d' r' \<longleftrightarrow> active_revision s d' r' \<and> rv_id r' \<noteq> rv_id cur \<and> rv_id r' \<notin> gone \<or>
      d' = d\<lparr>dn_current := Some (rv_id r)\<rparr> \<and> r' = r \<and> rv_action r \<noteq> REVOKE" for d' r'
  proof
    assume a: "active_revision t d' r'"
    then obtain e where e: "e \<in> set (rd_decisions s)" "d' = (if dn_id e = dn_id d then e\<lparr>dn_current := Some (rv_id r)\<rparr> else e)"
      by (auto simp: active_revision_def t)
    show "active_revision s d' r' \<and> rv_id r' \<noteq> rv_id cur \<and> rv_id r' \<notin> gone \<or>
      d' = d\<lparr>dn_current := Some (rv_id r)\<rparr> \<and> r' = r \<and> rv_action r \<noteq> REVOKE"
    proof (cases "dn_id e = dn_id d")
      case True
      with only [OF e(1)] e(2) have d': "d' = d\<lparr>dn_current := Some (rv_id r)\<rparr>" by simp
      with a have "rv_id r' = rv_id r" "r' \<in> set (rd_revisions t)" "rv_action r' \<noteq> REVOKE" by (auto simp: active_revision_def)
      with fresh have "r' = r" by (metis (no_types, lifting) Un_iff empty_iff image_eqI list.set(1,2) insert_iff set_append t(2))
      with d' \<open>rv_action r' \<noteq> REVOKE\<close> show ?thesis by simp
    next
      case False
      with e have d': "d' = e" by simp
      with a e have act: "active_revision s d' r'" "rv_id r' \<notin> gone"
        using False fresh r log_okD(7) [OF s e(1)] sup by (auto simp: active_revision_def t)
      moreover have "rv_id r' \<noteq> rv_id cur"
        using current [of r'] act(1) d(3) False d' by (auto simp: active_revision_def)
      ultimately show ?thesis by blast
    qed
  next
    assume "active_revision s d' r' \<and> rv_id r' \<noteq> rv_id cur \<and> rv_id r' \<notin> gone \<or>
      d' = d\<lparr>dn_current := Some (rv_id r)\<rparr> \<and> r' = r \<and> rv_action r \<noteq> REVOKE"
    then show "active_revision t d' r'"
    proof
      assume a: "active_revision s d' r' \<and> rv_id r' \<noteq> rv_id cur \<and> rv_id r' \<notin> gone"
      then have "dn_id d' \<noteq> dn_id d" using only [of d'] d(2) by (auto simp: active_revision_def)
      with a sup show ?thesis by (force simp: active_revision_def t)
    next
      assume "d' = d\<lparr>dn_current := Some (rv_id r)\<rparr> \<and> r' = r \<and> rv_action r \<noteq> REVOKE"
      with d(1) r notsup show ?thesis by (force simp: active_revision_def t)
    qed
  qed
  let ?claim = "\<lambda>d r i. \<lparr>ac_workspace = rv_workspace r, ac_book = dn_book d, ac_logical = i, ac_revision = rv_id r\<rparr>"
  show ?thesis (is "_ = ?old \<union> ?new")
  proof (intro equalityI subsetI)
    fix x assume "x \<in> implied_claims t"
    then obtain d' r' i where x: "x = ?claim d' r' i" "i \<in> reserved_endpoints r'" and a: "active_revision t d' r'"
      unfolding implied_claims_def by blast
    from a [unfolded iff] show "x \<in> ?old \<union> ?new"
    proof
      assume "active_revision s d' r' \<and> rv_id r' \<noteq> rv_id cur \<and> rv_id r' \<notin> gone"
      moreover from this x have "x \<in> implied_claims s" unfolding implied_claims_def by blast
      ultimately show ?thesis using x by simp
    next
      assume "d' = d\<lparr>dn_current := Some (rv_id r)\<rparr> \<and> r' = r \<and> rv_action r \<noteq> REVOKE"
      with x show ?thesis by simp
    qed
  next
    fix x assume "x \<in> ?old \<union> ?new"
    then show "x \<in> implied_claims t"
    proof
      assume "x \<in> ?old"
      then obtain d' r' i where x: "x = ?claim d' r' i" "i \<in> reserved_endpoints r'" and a: "active_revision s d' r'"
        and n: "rv_id r' \<noteq> rv_id cur" "rv_id r' \<notin> gone" unfolding implied_claims_def by auto
      then have "active_revision t d' r'" unfolding iff by blast
      with x show ?thesis unfolding implied_claims_def by blast
    next
      assume "x \<in> ?new"
      then obtain i where x: "x = ?claim (d\<lparr>dn_current := Some (rv_id r)\<rparr>) r i" "i \<in> reserved_endpoints r" "rv_action r \<noteq> REVOKE" by auto
      then have "active_revision t (d\<lparr>dn_current := Some (rv_id r)\<rparr>) r" unfolding iff by blast
      with x show ?thesis unfolding implied_claims_def by blast
    qed
  qed
qed

end
