(* ===== verification/ResolutionRuns.thy ===== *)
theory ResolutionRuns
  imports ResolutionFacts
begin

text \<open>
  The command service as a transition system: every command keeps the log and the claims in step,
  so in every reachable state the claims are those the log implies.
\<close>

section \<open>A committed initial decision\<close>

lemma reserved_of_authority:
  assumes "endpoint_ids a = Inr ids" and "rv_authority_kind r = None"
  shows "reserved_endpoints (with_authority (Some a) r) = (if reserves_endpoints a then set ids else {})"
  using assms
  by (cases "da_kind a") (auto simp: endpoint_ids_def reserved_endpoints_def with_authority_def reserves_endpoints_def
      split: option.splits if_splits)

lemma with_authority_fields [simp]:
  "rv_id (with_authority a r) = rv_id r" "rv_workspace (with_authority a r) = rv_workspace r"
  "rv_decision (with_authority a r) = rv_decision r" "rv_action (with_authority a r) = rv_action r"
  by (auto simp: with_authority_def split: option.splits)

lemma initial_revision_fields [simp]:
  "rv_id (initial_revision sha256 w i d c a obs now) = i" "rv_workspace (initial_revision sha256 w i d c a obs now) = w"
  "rv_decision (initial_revision sha256 w i d c a obs now) = d" "rv_action (initial_revision sha256 w i d c a obs now) = dc_action c"
  by (simp_all add: initial_revision_def)

lemma lifecycle_revision_fields [simp]:
  "rv_id (lifecycle_revision sha256 w i cur c a obs now) = i" "rv_workspace (lifecycle_revision sha256 w i cur c a obs now) = w"
  "rv_decision (lifecycle_revision sha256 w i cur c a obs now) = rv_decision cur"
  "rv_action (lifecycle_revision sha256 w i cur c a obs now) = dc_action c"
  by (simp_all add: lifecycle_revision_def)

lemma commit_initial_Inr:
  assumes "commit_initial st sha256 clock w b c s = (Inr r, t)"
  obtains a kind book obs where "dc_authority c = Some a" "initial_kind (dc_action c) = Some kind"
    "find (\<lambda>x. bk_id x = b \<and> bk_workspace x = w) (rd_books s) = Some book" "bk_resolution_generation book = dc_expected_generation c"
    "\<exists>ids. endpoint_ids a = Inr ids" "record_initial st sha256 clock w b c a obs s = (Inr r, t)"
  using assms
  by (auto simp: commit_initial_def sbind_Inr require_generation_def split: option.split_asm
      dest!: require_active_workspace_Inr resolve_authority_Inr resolve_reviewed_Inr reject_claim_conflicts_Inr)

lemma sbind_step: "m s = (Inr x, t) \<Longrightarrow> sbind m f s = f x t"
  by (simp add: sbind_run)

lemma on_base_fresh: "on_base (fresh f st) s =
    (Inr (f st (db_serial (rd_base s))), s\<lparr>rd_base := (rd_base s)\<lparr>db_serial := db_serial (rd_base s) + 1\<rparr>\<rparr>)"
  by (simp add: on_base_def fresh_def op_simps)

lemma modify_run: "modify f s = (Inr (), f s)"
  by (simp add: modify_def)

lemma record_initial_Inr:
  assumes "record_initial st sha256 clock w b c a obs s = (Inr r, t)"
  obtains d xs where
    "r = initial_revision sha256 w (st_uuid st (db_serial (rd_base s) + 1)) (st_uuid st (db_serial (rd_base s))) c a obs clock"
    "revision_valid r" "d = \<lparr>dn_id = rv_decision r, dn_workspace = w, dn_book = b, dn_current = None, dn_created_at = clock\<rparr>"
    "rd_decisions t = map (\<lambda>x. if dn_id x = rv_decision r then x\<lparr>dn_current := Some (rv_id r)\<rparr> else x) (rd_decisions s @ [d])"
    "rd_revisions t = rd_revisions s @ [r]" "rd_supersessions t = rd_supersessions s" "rd_claims t = rd_claims s @ xs"
    "db_serial (rd_base t) = db_serial (rd_base s) + 2" "distinct (map (\<lambda>x. (ac_book x, ac_logical x)) xs)"
    "\<forall>x \<in> set xs. \<forall>y \<in> set (rd_claims s). ac_logical x = ac_logical y \<longrightarrow> ac_book x \<noteq> ac_book y"
    "if reserves_endpoints a then \<exists>ids. endpoint_ids a = Inr ids \<and> xs = claims_of w b (rv_id r) ids else xs = []"
    "rd_books t = map (\<lambda>x. if bk_id x = b then x\<lparr>bk_resolution_generation := bk_resolution_generation x + 1\<rparr> else x) (rd_books s)"
    "rd_logicals t = rd_logicals s"
proof -
  define n where "n = db_serial (rd_base s)"
  define d where "d = \<lparr>dn_id = st_uuid st n, dn_workspace = w, dn_book = b, dn_current = None, dn_created_at = clock\<rparr>"
  define r' where "r' = initial_revision sha256 w (st_uuid st (n + 1)) (st_uuid st n) c a obs clock"
  define s0 where "s0 = s\<lparr>rd_decisions := rd_decisions s @ [d], rd_base := (rd_base s)\<lparr>db_serial := n + 2\<rparr>\<rparr>"
  have run: "record_initial st sha256 clock w b c a obs s = sbind (create_revision r')
        (\<lambda>_. sbind (set_current (st_uuid st n) (st_uuid st (n + 1)))
        (\<lambda>_. sbind (claim_endpoints w b (st_uuid st (n + 1)) a ''A reviewed endpoint is already reserved; refresh before saving.'')
        (\<lambda>_. sbind (advance_generations w b)
        (\<lambda>_. ok r')))) s0"
    by (simp add: record_initial_def sbind_step [OF on_base_fresh] sbind_step [OF modify_run] Let_def s0_def d_def r'_def n_def)
  from assms [unfolded run] obtain x1 u1 where 1: "create_revision r' s0 = (Inr x1, u1)"
    and k1: "sbind (set_current (st_uuid st n) (st_uuid st (n + 1)))
        (\<lambda>_. sbind (claim_endpoints w b (st_uuid st (n + 1)) a ''A reviewed endpoint is already reserved; refresh before saving.'')
        (\<lambda>_. sbind (advance_generations w b)
        (\<lambda>_. ok r'))) u1 = (Inr r, t)"
    unfolding sbind_Inr [of "create_revision r'"] by blast
  then obtain x2 u2 where 2: "set_current (st_uuid st n) (st_uuid st (n + 1)) u1 = (Inr x2, u2)"
    and k2: "sbind (claim_endpoints w b (st_uuid st (n + 1)) a ''A reviewed endpoint is already reserved; refresh before saving.'')
        (\<lambda>_. sbind (advance_generations w b)
        (\<lambda>_. ok r')) u2 = (Inr r, t)"
    unfolding sbind_Inr [of "set_current d r" for d r] by blast
  then obtain x3 y where claims: "claim_endpoints w b (st_uuid st (n + 1)) a
        ''A reviewed endpoint is already reserved; refresh before saving.'' u2 = (Inr x3, y)"
    and k3: "sbind (advance_generations w b) (\<lambda>_. ok r') y = (Inr r, t)"
    unfolding sbind_Inr [of "claim_endpoints w b i a m" for w b i a m] by blast
  then obtain x4 where 4: "advance_generations w b y = (Inr x4, t)" and r: "r = r'" by (auto simp: sbind_Inr)
  from 1 have valid: "revision_valid r'" and u1: "u1 = s0\<lparr>rd_revisions := rd_revisions s0 @ [r']\<rparr>" by simp_all
  from 2 have u2: "u2 = u1\<lparr>rd_decisions := map (\<lambda>x. if dn_id x = st_uuid st n then x\<lparr>dn_current := Some (st_uuid st (n + 1))\<rparr> else x) (rd_decisions u1)\<rparr>"
    by simp
  from claim_endpoints_Inr [OF claims] obtain xs where xs: "y = u2\<lparr>rd_claims := rd_claims u2 @ xs\<rparr>"
    "distinct (map (\<lambda>x. (ac_book x, ac_logical x)) xs)"
    "\<forall>z \<in> set xs. \<forall>y \<in> set (rd_claims u2). ac_logical z = ac_logical y \<longrightarrow> ac_book z \<noteq> ac_book y"
    "if reserves_endpoints a then \<exists>ids. endpoint_ids a = Inr ids \<and> xs = claims_of w b (st_uuid st (n + 1)) ids else xs = []"
    by blast
  have f: "rv_decision r = st_uuid st n" "rv_id r = st_uuid st (n + 1)" by (simp_all add: r r'_def)
  show thesis
  proof (rule that [of d xs])
    show "d = \<lparr>dn_id = rv_decision r, dn_workspace = w, dn_book = b, dn_current = None, dn_created_at = clock\<rparr>" by (simp add: f d_def)
    show "r = initial_revision sha256 w (st_uuid st (db_serial (rd_base s) + 1)) (st_uuid st (db_serial (rd_base s))) c a obs clock"
      by (simp add: r r'_def n_def)
    show "if reserves_endpoints a then \<exists>ids. endpoint_ids a = Inr ids \<and> xs = claims_of w b (rv_id r) ids else xs = []"
      using xs(4) by (simp only: f)
  qed (use valid advance_generations_Inr [OF 4] xs(2,3) in \<open>simp_all add: r xs(1) u1 u2 s0_def n_def r'_def\<close>)
qed


lemma claims_of_set: "set (claims_of w b r ids) = {\<lparr>ac_workspace = w, ac_book = b, ac_logical = i, ac_revision = r\<rparr> | i. i \<in> set ids}"
  by (auto simp: claims_of_def)

lemma endpoints_claimed:
  assumes "endpoint_ids a = Inr ids'" and "if reserves_endpoints a then \<exists>ids. endpoint_ids a = Inr ids \<and> xs = claims_of w b i ids else xs = []"
    and "rv_authority_kind r0 = None"
  shows "set xs = {\<lparr>ac_workspace = w, ac_book = b, ac_logical = j, ac_revision = i\<rparr> | j. j \<in> reserved_endpoints (with_authority (Some a) r0)}"
  using assms by (auto simp: reserved_of_authority claims_of_set split: if_splits)

lemma record_initial_ok:
  assumes inj: "inj (st_uuid st)" and s: "review_ok st s" and ids: "endpoint_ids a = Inr ids" and action: "initial_kind (dc_action c) = Some kind"
    and run: "record_initial st sha256 clock w b c a obs s = (Inr r, t)"
  shows "review_ok st t"
proof -
  let ?n = "db_serial (rd_base s)"
  from s have log: "log_ok st s" and claims: "claims_ok s" by (simp_all add: review_ok_def)
  from run obtain d xs where r: "r = initial_revision sha256 w (st_uuid st (?n + 1)) (st_uuid st ?n) c a obs clock" "revision_valid r"
    and d: "d = \<lparr>dn_id = rv_decision r, dn_workspace = w, dn_book = b, dn_current = None, dn_created_at = clock\<rparr>"
    and t: "rd_decisions t = map (\<lambda>x. if dn_id x = rv_decision r then x\<lparr>dn_current := Some (rv_id r)\<rparr> else x) (rd_decisions s @ [d])"
      "rd_revisions t = rd_revisions s @ [r]" "rd_supersessions t = rd_supersessions s" "rd_claims t = rd_claims s @ xs"
      "db_serial (rd_base t) = ?n + 2"
    and xs: "distinct (map (\<lambda>x. (ac_book x, ac_logical x)) xs)"
      "\<forall>x \<in> set xs. \<forall>y \<in> set (rd_claims s). ac_logical x = ac_logical y \<longrightarrow> ac_book x \<noteq> ac_book y"
      "if reserves_endpoints a then \<exists>ids. endpoint_ids a = Inr ids \<and> xs = claims_of w b (rv_id r) ids else xs = []"
    by (rule record_initial_Inr)
  have fields: "rv_id r = st_uuid st (?n + 1)" "rv_decision r = st_uuid st ?n" "rv_workspace r = w" "rv_action r \<noteq> REVOKE"
    using action by (auto simp: r(1) initial_kind_def)
  have fresh: "rv_decision r \<notin> dn_id ` set (rd_decisions s)" "rv_id r \<notin> rv_id ` set (rd_revisions s)"
    using uuid_fresh [OF inj, of ?n ?n] uuid_fresh [OF inj, of ?n "?n + 1"] log_okD(3,4) [OF log] unfolding fields
    by (metis image_iff order_refl, metis image_iff le_add1)
  let ?d = "d\<lparr>dn_current := Some (rv_id r)\<rparr>"
  have "map (\<lambda>x. if dn_id x = rv_decision r then x\<lparr>dn_current := Some (rv_id r)\<rparr> else x) (rd_decisions s) = rd_decisions s"
    by (rule map_idI) (use fresh(1) in force)
  then have decisions: "rd_decisions t = rd_decisions s @ [?d]" by (simp add: t(1) d)
  have ok: "log_ok st t"
    by (rule log_ok_new [OF log inj r(2) _ refl, of ?d]) (use fields decisions t in \<open>simp_all add: d\<close>)
  have "implied_claims t = implied_claims s \<union>
      {\<lparr>ac_workspace = rv_workspace r, ac_book = dn_book ?d, ac_logical = i, ac_revision = rv_id r\<rparr> | i. i \<in> reserved_endpoints r}"
    by (rule implied_new [OF log _ fresh(2) _ _ fields(4) decisions t(2,3)]) (use fresh(1) in \<open>simp_all add: d\<close>)
  moreover have "set xs = {\<lparr>ac_workspace = w, ac_book = b, ac_logical = i, ac_revision = rv_id r\<rparr> | i. i \<in> reserved_endpoints r}"
  proof -
    obtain r0 where r0: "r = with_authority (Some a) r0" "rv_authority_kind r0 = None"
      by (rule that [OF r(1) [unfolded initial_revision_def]]) simp
    show ?thesis using endpoints_claimed [OF ids xs(3) r0(2)] by (simp only: r0(1) [symmetric])
  qed
  ultimately have "set (rd_claims t) = implied_claims t" using claims fields(3) by (simp add: t(4) claims_ok_def d)
  moreover have "distinct (map (\<lambda>x. (ac_book x, ac_logical x)) (rd_claims t))"
  proof -
    have "(ac_book y, ac_logical y) \<noteq> (ac_book x, ac_logical x)" if "y \<in> set (rd_claims s)" "x \<in> set xs" for x y
      using xs(2) that by (metis prod.inject)
    then show ?thesis using claims xs(1) unfolding t(4) claims_ok_def map_append distinct_append by (auto simp del: prod.inject)
  qed
  ultimately show ?thesis using ok by (simp add: review_ok_def claims_ok_def)
qed

section \<open>A committed change\<close>

lemma prepare_change_Inr:
  assumes "prepare_change w b c cur inherited s = (Inr (authority, obs, conflicts), t)"
  shows "t = s \<and> (\<forall>a. authority = Some a \<longrightarrow> (\<exists>ids. endpoint_ids a = Inr ids)) \<and>
    (dc_action c = REAFFIRM \<longrightarrow> authority = Some inherited \<and> conflicts = []) \<and>
    (dc_action c \<noteq> REAFFIRM \<longrightarrow> dc_action c \<noteq> REPLACE \<longrightarrow> authority = None \<and> conflicts = []) \<and>
    (dc_action c = REPLACE \<longrightarrow> authority = dc_authority c \<and> authority \<noteq> None \<and>
       (\<forall>x \<in> set conflicts. \<exists>y \<in> set (rd_claims s). ac_revision y = cf_revision_id x \<and> ac_workspace y = w \<and> ac_book y = b))"
proof -
  have conf: "\<forall>x \<in> set cs. \<exists>y \<in> set (rd_claims u). ac_revision y = cf_revision_id x \<and> ac_workspace y = w \<and> ac_book y = b"
    if "claim_conflicts w b a e u = (Inr cs, v)" for a e u v cs
  proof
    fix x assume x: "x \<in> set cs"
    with claim_conflicts_Inr [OF that] have "cf_revision_id x \<in> ac_revision ` {c \<in> set (rd_claims u). ac_workspace c = w \<and> ac_book c = b}"
      by (force split: if_splits)
    then show "\<exists>y \<in> set (rd_claims u). ac_revision y = cf_revision_id x \<and> ac_workspace y = w \<and> ac_book y = b" by force
  qed
  have revs: "v = u" if "smap conflict_revision cs u = (Inr es, v)" for cs u v es
    by (rule smap_state [OF that]) (simp add: conflict_revision_def)
  show ?thesis
  proof (cases "dc_action c = REPLACE")
    case True
    with assms obtain a ls obs' u1 u2 u3 es u4 where a: "dc_authority c = Some a" "authority = Some a"
      and 1: "resolve_authority w b a s = (Inr ls, u1)" and 2: "resolve_reviewed w b c ls u1 = (Inr obs', u2)"
      and 3: "claim_conflicts w b a (Some (rv_decision cur)) u2 = (Inr conflicts, u3)"
      and 4: "smap conflict_revision conflicts u3 = (Inr es, u4)" and t: "t = u4"
      by (auto simp: prepare_change_def sbind_Inr split: option.split_asm)
    have "u1 = s" "u2 = s" using resolve_authority_Inr [OF 1] resolve_reviewed_Inr [OF 2] by auto
    moreover have "u3 = u2" using claim_conflicts_Inr [OF 3] by simp
    ultimately show ?thesis
      using True a t revs [OF 4] conf [OF 3] resolve_authority_Inr [OF 1] by auto
  next
    case False
    with assms show ?thesis
      by (auto simp: prepare_change_def sbind_Inr split: if_splits dest!: resolve_authority_Inr resolve_reviewed_Inr)
  qed
qed

lemma settle_reaffirm:
  "dc_action c = REAFFIRM \<Longrightarrow> settle_claims clock w b c cur i authority conflicts s = (Inr x, t) \<Longrightarrow>
   t = s\<lparr>rd_claims := map (\<lambda>x. if ac_workspace x = w \<and> ac_book x = b \<and> ac_revision x = rv_id cur
     then x\<lparr>ac_revision := i\<rparr> else x) (rd_claims s)\<rparr>"
  by (simp add: settle_claims_def move_claims_def)

lemma settle_revoke:
  "dc_action c = REVOKE \<Longrightarrow> settle_claims clock w b c cur i authority conflicts s = (Inr x, t) \<Longrightarrow>
   t = s\<lparr>rd_claims := filter (\<lambda>x. \<not> (ac_workspace x = w \<and> ac_book x = b \<and> ac_revision x = rv_id cur)) (rd_claims s)\<rparr>"
  by (simp add: settle_claims_def drop_claims_def)

lemma settle_replace:
  assumes "settle_claims clock w b c cur i authority conflicts s = (Inr x, t)" and "dc_action c \<noteq> REAFFIRM" "dc_action c \<noteq> REVOKE"
  obtains a su xs where "authority = Some a" "map su_superseded su = rv_id cur # map cf_revision_id conflicts"
    "t = s\<lparr>rd_supersessions := rd_supersessions s @ su, rd_claims := filter (\<lambda>x. \<not> (ac_workspace x = w \<and> ac_book x = b \<and>
       ac_revision x \<in> set (rv_id cur # map cf_revision_id conflicts))) (rd_claims s) @ xs\<rparr>"
    "distinct (map (\<lambda>x. (ac_book x, ac_logical x)) xs)"
    "\<forall>x \<in> set xs. \<forall>y \<in> set (rd_claims s). ac_logical x = ac_logical y \<longrightarrow> ac_book x = ac_book y \<longrightarrow>
       ac_workspace y = w \<and> ac_book y = b \<and> ac_revision y \<in> set (rv_id cur # map cf_revision_id conflicts)"
    "if reserves_endpoints a then \<exists>ids. endpoint_ids a = Inr ids \<and> xs = claims_of w b i ids else xs = []"
proof -
  define su where "su = map (\<lambda>x. \<lparr>su_workspace = w, su_replacement = i, su_superseded = x, su_created_at = clock\<rparr>)
     (rv_id cur # map cf_revision_id conflicts)"
  have gone: "map su_superseded su = rv_id cur # map cf_revision_id conflicts" by (simp add: su_def comp_def)
  from assms obtain a u1 u2 where a: "authority = Some a" and 1: "create_supersessions su s = (Inr (), u1)"
    and 2: "drop_claims w b (rv_id cur # map cf_revision_id conflicts) u1 = (Inr (), u2)"
    and 3: "claim_endpoints w b i a ''A reviewed endpoint is already reserved; preview again.'' u2 = (Inr (), t)"
    by (auto simp: settle_claims_def sbind_Inr Let_def su_def split: option.split_asm)
  from 2 create_supersessions_Inr [OF 1] have u2: "u2 = s\<lparr>rd_supersessions := rd_supersessions s @ su, rd_claims :=
      filter (\<lambda>x. \<not> (ac_workspace x = w \<and> ac_book x = b \<and> ac_revision x \<in> set (rv_id cur # map cf_revision_id conflicts))) (rd_claims s)\<rparr>"
    by (simp add: drop_claims_def)
  from claim_endpoints_Inr [OF 3] obtain xs where xs: "t = u2\<lparr>rd_claims := rd_claims u2 @ xs\<rparr>"
    "distinct (map (\<lambda>x. (ac_book x, ac_logical x)) xs)"
    "\<forall>x \<in> set xs. \<forall>y \<in> set (rd_claims u2). ac_logical x = ac_logical y \<longrightarrow> ac_book x \<noteq> ac_book y"
    "if reserves_endpoints a then \<exists>ids. endpoint_ids a = Inr ids \<and> xs = claims_of w b i ids else xs = []" by blast
  show thesis
  proof (rule that [OF a gone _ xs(2) _ xs(4)])
    show "t = s\<lparr>rd_supersessions := rd_supersessions s @ su, rd_claims := filter (\<lambda>x. \<not> (ac_workspace x = w \<and> ac_book x = b \<and>
       ac_revision x \<in> set (rv_id cur # map cf_revision_id conflicts))) (rd_claims s) @ xs\<rparr>" by (simp add: xs(1) u2)
    show "\<forall>x \<in> set xs. \<forall>y \<in> set (rd_claims s). ac_logical x = ac_logical y \<longrightarrow> ac_book x = ac_book y \<longrightarrow>
       ac_workspace y = w \<and> ac_book y = b \<and> ac_revision y \<in> set (rv_id cur # map cf_revision_id conflicts)"
      using xs(3) by (auto simp: u2)
  qed
qed


lemma record_change_Inr:
  assumes "record_change st sha256 clock w b c cur (authority, obs, conflicts) s = (Inr r, t)"
  obtains u v where "r = lifecycle_revision sha256 w (st_uuid st (db_serial (rd_base s))) cur c authority obs clock" "revision_valid r"
    "u = s\<lparr>rd_base := (rd_base s)\<lparr>db_serial := db_serial (rd_base s) + 1\<rparr>, rd_revisions := rd_revisions s @ [r]\<rparr>"
    "settle_claims clock w b c cur (rv_id r) authority conflicts u = (Inr (), v)"
    "rd_decisions t = map (\<lambda>x. if dn_id x = rv_decision cur then x\<lparr>dn_current := Some (rv_id r)\<rparr> else x) (rd_decisions v)"
    "rd_revisions t = rd_revisions v" "rd_supersessions t = rd_supersessions v" "rd_claims t = rd_claims v" "rd_base t = rd_base v"
    "rd_books t = map (\<lambda>x. if bk_id x = b then x\<lparr>bk_resolution_generation := bk_resolution_generation x + 1\<rparr> else x) (rd_books v)"
    "rd_logicals t = rd_logicals v"
proof -
  define n where "n = db_serial (rd_base s)"
  define r' where "r' = lifecycle_revision sha256 w (st_uuid st n) cur c authority obs clock"
  define s0 where "s0 = s\<lparr>rd_base := (rd_base s)\<lparr>db_serial := n + 1\<rparr>\<rparr>"
  have run: "record_change st sha256 clock w b c cur (authority, obs, conflicts) s = sbind (create_revision r')
        (\<lambda>_. sbind (settle_claims clock w b c cur (st_uuid st n) authority conflicts)
        (\<lambda>_. sbind (set_current (rv_decision cur) (st_uuid st n))
        (\<lambda>_. sbind (advance_generations w b)
        (\<lambda>_. ok r')))) s0"
    by (simp add: record_change_def sbind_step [OF on_base_fresh] Let_def s0_def r'_def n_def)
  from assms [unfolded run] obtain x1 u where 1: "create_revision r' s0 = (Inr x1, u)"
    and k1: "sbind (settle_claims clock w b c cur (st_uuid st n) authority conflicts)
        (\<lambda>_. sbind (set_current (rv_decision cur) (st_uuid st n))
        (\<lambda>_. sbind (advance_generations w b)
        (\<lambda>_. ok r'))) u = (Inr r, t)"
    unfolding sbind_Inr [of "create_revision r'"] by blast
  then obtain x2 v where 2: "settle_claims clock w b c cur (st_uuid st n) authority conflicts u = (Inr x2, v)"
    and k2: "sbind (set_current (rv_decision cur) (st_uuid st n))
        (\<lambda>_. sbind (advance_generations w b)
        (\<lambda>_. ok r')) v = (Inr r, t)"
    unfolding sbind_Inr [of "settle_claims clock w b c cur i authority conflicts" for i] by blast
  then obtain x3 y where 3: "set_current (rv_decision cur) (st_uuid st n) v = (Inr x3, y)"
    and k3: "sbind (advance_generations w b) (\<lambda>_. ok r') y = (Inr r, t)"
    unfolding sbind_Inr [of "set_current d i" for d i] by blast
  then obtain x4 where 4: "advance_generations w b y = (Inr x4, t)" and r: "r = r'" by (auto simp: sbind_Inr)
  have id: "rv_id r = st_uuid st n" by (simp add: r r'_def)
  show thesis
    by (rule that [of u v]) (use 1 2 3 advance_generations_Inr [OF 4] in \<open>simp_all add: r id [unfolded r] s0_def n_def [symmetric]\<close>, simp_all add: r'_def n_def)
qed

text \<open>Claims of one revision share workspace and book.\<close>

lemma implied_same_book:
  assumes log: "log_ok st s" and x: "x \<in> implied_claims s" "y \<in> implied_claims s" "ac_revision x = ac_revision y"
  shows "ac_workspace x = ac_workspace y \<and> ac_book x = ac_book y"
proof -
  from x obtain d r e q where "active_revision s d r" "active_revision s e q" and f: "rv_id r = rv_id q"
    "ac_workspace x = rv_workspace r" "ac_book x = dn_book d" "ac_workspace y = rv_workspace q" "ac_book y = dn_book e"
    unfolding implied_claims_def by auto
  then have a: "d \<in> set (rd_decisions s)" "e \<in> set (rd_decisions s)" "r \<in> set (rd_revisions s)" "q \<in> set (rd_revisions s)"
    "rv_decision r = dn_id d" "rv_decision q = dn_id e" by (auto simp: active_revision_def)
  then have "r = q" using distinct_same [OF log_okD(2) [OF log]] f(1) by blast
  with a distinct_same [OF log_okD(1) [OF log], of d e] f show ?thesis by simp
qed

lemma authority_from_revision_reserved:
  assumes "authority_from_revision r = Inr a" and "revision_valid r"
  shows "\<exists>ids. endpoint_ids a = Inr ids \<and> reserved_endpoints r = (if reserves_endpoints a then set ids else {})"
  using assms
  by (auto simp: authority_from_revision_def authority_accept_unmatched_def authority_link_def authority_reject_candidate_def
      decision_authority_post_init_def checks_Inr_iff endpoint_ids_def reserves_endpoints_def reserved_endpoints_def
      split: option.split_asm authority_kind.split_asm if_splits)


lemma active_claims:
  assumes log: "log_ok st s" and act: "active_revision s d cur" and x: "x \<in> implied_claims s" "ac_revision x = rv_id cur"
  shows "\<exists>i \<in> reserved_endpoints cur. x = \<lparr>ac_workspace = rv_workspace cur, ac_book = dn_book d, ac_logical = i, ac_revision = rv_id cur\<rparr>"
proof -
  from x obtain e r i where e: "active_revision s e r" "i \<in> reserved_endpoints r" "rv_id r = rv_id cur"
    "x = \<lparr>ac_workspace = rv_workspace r, ac_book = dn_book e, ac_logical = i, ac_revision = rv_id r\<rparr>"
    unfolding implied_claims_def by auto
  then have "r = cur" using act distinct_same [OF log_okD(2) [OF log]] unfolding active_revision_def by blast
  moreover from this have "e = d"
    using e(1) act distinct_same [OF log_okD(1) [OF log], of e d] unfolding active_revision_def by force
  ultimately show ?thesis using e by blast
qed

lemma reaffirmed_claims:
  assumes log: "log_ok st s" and act: "active_revision s d cur" and w: "rv_workspace cur = w" "dn_book d = b"
  shows "(\<lambda>x. if ac_workspace x = w \<and> ac_book x = b \<and> ac_revision x = rv_id cur then x\<lparr>ac_revision := n\<rparr> else x) ` implied_claims s =
    {x \<in> implied_claims s. ac_revision x \<noteq> rv_id cur} \<union>
    {\<lparr>ac_workspace = w, ac_book = b, ac_logical = i, ac_revision = n\<rparr> | i. i \<in> reserved_endpoints cur}"
  (is "?f ` _ = ?old \<union> ?new")
proof (intro equalityI subsetI)
  fix y assume "y \<in> ?f ` implied_claims s"
  then obtain x where x: "x \<in> implied_claims s" "y = ?f x" by blast
  show "y \<in> ?old \<union> ?new"
  proof (cases "ac_revision x = rv_id cur")
    case True
    from active_claims [OF log act x(1) True] w x(2) show ?thesis by auto
  next
    case False
    with x show ?thesis by auto
  qed
next
  fix y assume "y \<in> ?old \<union> ?new"
  then show "y \<in> ?f ` implied_claims s"
  proof
    assume "y \<in> ?old"
    then have "y = ?f y" "y \<in> implied_claims s" by auto
    then show ?thesis by blast
  next
    assume "y \<in> ?new"
    then obtain i where i: "i \<in> reserved_endpoints cur" "y = \<lparr>ac_workspace = w, ac_book = b, ac_logical = i, ac_revision = n\<rparr>" by blast
    let ?x = "\<lparr>ac_workspace = w, ac_book = b, ac_logical = i, ac_revision = rv_id cur\<rparr>"
    have "?x \<in> implied_claims s" using act w i(1) unfolding implied_claims_def by blast
    moreover have "y = ?f ?x" using i by simp
    ultimately show ?thesis by blast
  qed
qed

lemma record_change_ok:
  assumes inj: "inj (st_uuid st)" and s: "review_ok st s"
    and d: "d \<in> set (rd_decisions s)" "dn_workspace d = w" "dn_book d = b" "dn_current d = Some (rv_id cur)"
    and cur: "cur \<in> set (rd_revisions s)" "rv_workspace cur = w" "rv_action cur \<noteq> REVOKE" "\<not> superseded s (rv_id cur)"
    and inherited: "authority_from_revision cur = Inr inherited" and action: "initial_kind (dc_action c) = None"
    and prep: "prepare_change w b c cur inherited s = (Inr (authority, obs, conflicts), s)"
    and run: "record_change st sha256 clock w b c cur (authority, obs, conflicts) s = (Inr r, t)"
  shows "review_ok st t"
proof -
  from s have log: "log_ok st s" and claims: "set (rd_claims s) = implied_claims s"
    and dist: "distinct (map (\<lambda>x. (ac_book x, ac_logical x)) (rd_claims s))" by (simp_all add: review_ok_def claims_ok_def)
  have dec: "rv_decision cur = dn_id d"
    using log_okD(7) [OF log d(1)] d(4) distinct_same [OF log_okD(2) [OF log] _ cur(1)] by force
  have act: "active_revision s d cur" using d cur dec by (simp add: active_revision_def)
  note prep = prepare_change_Inr [OF prep]
  from run obtain u v where r: "r = lifecycle_revision sha256 w (st_uuid st (db_serial (rd_base s))) cur c authority obs clock" "revision_valid r"
    and u: "u = s\<lparr>rd_base := (rd_base s)\<lparr>db_serial := db_serial (rd_base s) + 1\<rparr>, rd_revisions := rd_revisions s @ [r]\<rparr>"
    and settle: "settle_claims clock w b c cur (rv_id r) authority conflicts u = (Inr (), v)"
    and t: "rd_decisions t = map (\<lambda>x. if dn_id x = rv_decision cur then x\<lparr>dn_current := Some (rv_id r)\<rparr> else x) (rd_decisions v)"
      "rd_revisions t = rd_revisions v" "rd_supersessions t = rd_supersessions v" "rd_claims t = rd_claims v" "rd_base t = rd_base v"
    by (rule record_change_Inr)
  have f: "rv_id r = st_uuid st (db_serial (rd_base s))" "rv_decision r = dn_id d" "rv_workspace r = w" "rv_action r = dc_action c"
    by (simp_all add: r(1) dec)
  have fresh: "rv_id r \<notin> rv_id ` set (rd_revisions s)"
    using uuid_fresh [OF inj order_refl, of "db_serial (rd_base s)"] log_okD(4) [OF log] unfolding f(1) by (metis image_iff)
  obtain r0 where r0: "r = with_authority authority r0" "rv_authority_kind r0 = None"
    by (rule that [OF r(1) [unfolded lifecycle_revision_def]]) simp
  have log_t: "log_ok st t" if "rd_decisions v = rd_decisions s" "rd_revisions v = rd_revisions u" "rd_base v = rd_base u"
      "\<And>x. x \<in> set (rd_supersessions v) \<Longrightarrow> su_superseded x \<in> rv_id ` set (rd_revisions s)"
    by (rule log_ok_change [OF log inj r(2) f(1) refl d(1) f(2)]) (use that t f d(2) in \<open>simp_all add: u dec\<close>)
  have implied_t: "implied_claims t = {x \<in> implied_claims s. ac_revision x \<noteq> rv_id cur \<and> ac_revision x \<notin> gone} \<union>
      {\<lparr>ac_workspace = w, ac_book = b, ac_logical = i, ac_revision = rv_id r\<rparr> | i. dc_action c \<noteq> REVOKE \<and> i \<in> reserved_endpoints r}"
    if v: "rd_decisions v = rd_decisions s" "rd_revisions v = rd_revisions u" "\<And>i. superseded v i \<longleftrightarrow> superseded s i \<or> i \<in> gone"
      "gone \<subseteq> rv_id ` set (rd_revisions s)" for gone
  proof -
    have sup: "superseded t i \<longleftrightarrow> superseded s i \<or> i \<in> gone" for i using v(3) [of i] by (simp add: superseded_def t(3))
    have "rd_decisions t = map (\<lambda>x. if dn_id x = dn_id d then x\<lparr>dn_current := Some (rv_id r)\<rparr> else x) (rd_decisions s)"
      "rd_revisions t = rd_revisions s @ [r]" using t v by (simp_all add: u dec)
    from implied_change [OF log d(1,4) dec cur(1) f(2) fresh this sup v(4)] show ?thesis by (simp add: f d)
  qed
  consider (reaffirm) "dc_action c = REAFFIRM" | (revoke) "dc_action c = REVOKE" | (replace) "dc_action c = REPLACE"
    using action by (cases "dc_action c") (simp_all add: initial_kind_def)
  then show ?thesis
  proof cases
    case reaffirm
    note v = settle_reaffirm [OF reaffirm settle]
    from authority_from_revision_reserved [OF inherited log_okD(5) [OF log cur(1)]] prep reaffirm r0
    have "reserved_endpoints r = reserved_endpoints cur" by (auto simp: reserved_of_authority)
    moreover have "set (rd_claims t) = (\<lambda>x. if ac_workspace x = w \<and> ac_book x = b \<and> ac_revision x = rv_id cur
        then x\<lparr>ac_revision := rv_id r\<rparr> else x) ` implied_claims s" using claims by (simp add: t(4) v u)
    ultimately have "set (rd_claims t) = implied_claims t"
      using reaffirmed_claims [OF log act cur(2) d(3), of "rv_id r"] implied_t [of "{}"] reaffirm by (simp add: v u superseded_def)
    moreover have "map (\<lambda>x. (ac_book x, ac_logical x)) (rd_claims t) = map (\<lambda>x. (ac_book x, ac_logical x)) (rd_claims s)"
      by (simp add: t(4) v u)
    moreover have "log_ok st t" by (rule log_t) (use log_okD(8) [OF log] in \<open>simp_all add: v u\<close>)
    ultimately show ?thesis using dist by (simp add: review_ok_def claims_ok_def)
  next
    case revoke
    note v = settle_revoke [OF revoke settle]
    have "ac_workspace x = w \<and> ac_book x = b" if "x \<in> implied_claims s" "ac_revision x = rv_id cur" for x
      using active_claims [OF log act that] cur(2) d(3) by auto
    then have "set (rd_claims t) = {x \<in> implied_claims s. ac_revision x \<noteq> rv_id cur}"
      using claims by (auto simp: t(4) v u)
    then have "set (rd_claims t) = implied_claims t" using implied_t [of "{}"] revoke by (simp add: v u superseded_def)
    moreover have "distinct (map (\<lambda>x. (ac_book x, ac_logical x)) (rd_claims t))"
      using dist by (simp add: t(4) v u distinct_map_filter)
    moreover have "log_ok st t" by (rule log_t) (use log_okD(8) [OF log] in \<open>simp_all add: v u\<close>)
    ultimately show ?thesis by (simp add: review_ok_def claims_ok_def)
  next
    case replace
    let ?gone = "set (rv_id cur # map cf_revision_id conflicts)"
    from settle obtain a su xs where a: "authority = Some a" and su: "map su_superseded su = rv_id cur # map cf_revision_id conflicts"
      and v: "v = u\<lparr>rd_supersessions := rd_supersessions u @ su, rd_claims := filter (\<lambda>x. \<not> (ac_workspace x = w \<and> ac_book x = b \<and>
          ac_revision x \<in> ?gone)) (rd_claims u) @ xs\<rparr>"
      and xs: "distinct (map (\<lambda>x. (ac_book x, ac_logical x)) xs)"
        "\<forall>x \<in> set xs. \<forall>y \<in> set (rd_claims u). ac_logical x = ac_logical y \<longrightarrow> ac_book x = ac_book y \<longrightarrow>
          ac_workspace y = w \<and> ac_book y = b \<and> ac_revision y \<in> ?gone"
        "if reserves_endpoints a then \<exists>ids. endpoint_ids a = Inr ids \<and> xs = claims_of w b (rv_id r) ids else xs = []"
      by (rule settle_replace) (simp_all add: replace)
    have conf: "\<exists>y \<in> implied_claims s. ac_revision y = cf_revision_id x \<and> ac_workspace y = w \<and> ac_book y = b" if "x \<in> set conflicts" for x
      using prep replace that claims by blast
    have gone: "?gone \<subseteq> rv_id ` set (rd_revisions s)"
    proof
      fix x assume "x \<in> ?gone"
      then consider "x = rv_id cur" | z where "z \<in> set conflicts" "x = cf_revision_id z" by auto
      then show "x \<in> rv_id ` set (rd_revisions s)"
      proof cases
        case 2
        with conf obtain y where "y \<in> implied_claims s" "ac_revision y = x" by blast
        then show ?thesis by (auto simp: implied_claims_def active_revision_def)
      qed (use cur(1) in simp)
    qed
    have book: "ac_workspace x = w \<and> ac_book x = b" if x: "x \<in> implied_claims s" "ac_revision x \<in> ?gone" for x
    proof (cases "ac_revision x = rv_id cur")
      case True
      with active_claims [OF log act x(1)] cur(2) d(3) show ?thesis by auto
    next
      case False
      with x(2) obtain z where z: "z \<in> set conflicts" "ac_revision x = cf_revision_id z" by auto
      with conf obtain y where "y \<in> implied_claims s" "ac_revision y = cf_revision_id z" "ac_workspace y = w" "ac_book y = b" by blast
      with implied_same_book [OF log x(1), of y] z(2) show ?thesis by simp
    qed
    have sup: "superseded v i \<longleftrightarrow> superseded s i \<or> i \<in> ?gone" for i
    proof -
      have "(\<exists>x \<in> set su. su_superseded x = i) \<longleftrightarrow> i \<in> set (map su_superseded su)" by auto
      then show ?thesis unfolding su by (auto simp: superseded_def v u)
    qed
    from prep a obtain ids where ids: "endpoint_ids a = Inr ids" by auto
    have "set xs = {\<lparr>ac_workspace = w, ac_book = b, ac_logical = i, ac_revision = rv_id r\<rparr> | i. i \<in> reserved_endpoints r}"
      using endpoints_claimed [OF ids xs(3) r0(2)] by (simp only: r0(1) [unfolded a, symmetric])
    moreover have "set (rd_claims t) = {x \<in> implied_claims s. ac_revision x \<notin> ?gone} \<union> set xs"
      using claims book by (auto simp: t(4) v u)
    moreover have "{x \<in> implied_claims s. ac_revision x \<noteq> rv_id cur \<and> ac_revision x \<notin> ?gone} = {x \<in> implied_claims s. ac_revision x \<notin> ?gone}"
      by auto
    ultimately have "set (rd_claims t) = implied_claims t"
      using implied_t [OF _ _ sup gone] replace by (simp add: v u)
    moreover have "distinct (map (\<lambda>x. (ac_book x, ac_logical x)) (rd_claims t))"
    proof -
      have "(ac_book y, ac_logical y) \<noteq> (ac_book x, ac_logical x)"
        if "y \<in> set (rd_claims s)" "\<not> (ac_workspace y = w \<and> ac_book y = b \<and> ac_revision y \<in> ?gone)" "x \<in> set xs" for x y
        using xs(2) that by (simp add: u) metis
      then show ?thesis
        using dist xs(1) by (auto simp: t(4) v u distinct_map_filter simp del: prod.inject)
    qed
    moreover have "log_ok st t"
    proof (rule log_t)
      fix x assume "x \<in> set (rd_supersessions v)"
      then have "superseded v (su_superseded x)" by (auto simp: superseded_def)
      with sup superseded_in_log [OF log] gone show "su_superseded x \<in> rv_id ` set (rd_revisions s)" by blast
    qed (simp_all add: v u)
    ultimately show ?thesis by (simp add: review_ok_def claims_ok_def)
  qed
qed


section \<open>Runs\<close>

lemma commit_change_Inr:
  assumes "commit_change st sha256 clock w b c s = (Inr r, t)"
  obtains target book d cur inherited change where "dc_target c = Some target" "initial_kind (dc_action c) = None"
    "find (\<lambda>x. bk_id x = b \<and> bk_workspace x = w) (rd_books s) = Some book" "bk_resolution_generation book = dc_expected_generation c"
    "current_revision w b target s = (Inr cur, s)" "authority_from_revision cur = Inr inherited"
    "prepare_change w b c cur inherited s = (Inr change, s)" "record_change st sha256 clock w b c cur change s = (Inr r, t)"
proof -
  from assms obtain target where target: "dc_target c = Some target" and action: "initial_kind (dc_action c) = None"
    and run: "atomic (sbind (require_active_workspace st w clock)
          (\<lambda>_. sbind (locked_book w b)
          (\<lambda>book. sbind (require_generation book c)
          (\<lambda>_. sbind (current_revision w b target)
          (\<lambda>current. sbind (lift_result (authority_from_revision current))
          (\<lambda>inherited. sbind (prepare_change w b c current inherited)
          (\<lambda>change. record_change st sha256 clock w b c current change))))))) s = (Inr r, t)"
    by (auto simp: commit_change_def split: option.split_asm)
  from run obtain book cur u inherited change v where book: "find (\<lambda>x. bk_id x = b \<and> bk_workspace x = w) (rd_books s) = Some book"
      "bk_resolution_generation book = dc_expected_generation c"
    and 1: "current_revision w b target s = (Inr cur, u)" "authority_from_revision cur = Inr inherited"
    and 2: "prepare_change w b c cur inherited u = (Inr change, v)" "record_change st sha256 clock w b c cur change v = (Inr r, t)"
    by (auto simp: sbind_Inr require_generation_def dest!: require_active_workspace_Inr)
  have "u = s" using current_revision_Inr [OF 1(1)] by simp
  moreover from this have "v = s" using prepare_change_Inr [of w b c cur inherited s "fst change" "fst (snd change)" "snd (snd change)" v] 2(1) by simp
  ultimately show thesis using that target action book 1 2 by blast
qed

lemma commit_initial_ok:
  assumes "inj (st_uuid st)" and "review_ok st s" and "commit_initial st sha256 clock w b c s = (Inr r, t)"
  shows "review_ok st t"
  using assms(3) by (rule commit_initial_Inr) (use record_initial_ok [OF assms(1,2)] in blast)

lemma commit_change_ok:
  assumes inj: "inj (st_uuid st)" and s: "review_ok st s" and run: "commit_change st sha256 clock w b c s = (Inr r, t)"
  shows "review_ok st t"
proof -
  from run obtain target book d cur inherited change where action: "initial_kind (dc_action c) = None"
    and cur: "current_revision w b target s = (Inr cur, s)" and inherited: "authority_from_revision cur = Inr inherited"
    and prep: "prepare_change w b c cur inherited s = (Inr change, s)"
    and rec: "record_change st sha256 clock w b c cur change s = (Inr r, t)"
    by (rule commit_change_Inr)
  obtain authority obs conflicts where change: "change = (authority, obs, conflicts)" by (cases change) auto
  note c = current_revision_Inr [OF cur]
  then obtain d where "d \<in> set (rd_decisions s)" "dn_workspace d = w" "dn_book d = b" "dn_current d = Some (rv_id cur)" by blast
  from record_change_ok [OF inj s this _ _ _ _ inherited action prep [unfolded change] rec [unfolded change]] c show ?thesis by blast
qed

text \<open>
  One command of the service, whatever it returns or raises, or a transaction of another component,
  which may change the tables it owns but neither the log nor the claims.
\<close>

inductive review_step :: "settings \<Rightarrow> review_db \<Rightarrow> review_db \<Rightarrow> bool" for st :: settings where
  initial: "review_step st s (snd (commit_initial st sha256 clock w b c s))"
| change: "review_step st s (snd (commit_change st sha256 clock w b c s))"
| preview: "review_step st s (snd (preview_replacement st clock w b target a s))"
| other: "rd_decisions t = rd_decisions s \<Longrightarrow> rd_revisions t = rd_revisions s \<Longrightarrow> rd_supersessions t = rd_supersessions s \<Longrightarrow>
    rd_claims t = rd_claims s \<Longrightarrow> db_serial (rd_base s) \<le> db_serial (rd_base t) \<Longrightarrow> review_step st s t"

inductive_cases review_stepE: "review_step st s t"

definition empty_log :: "review_db \<Rightarrow> bool" where
  "empty_log s \<longleftrightarrow> rd_decisions s = [] \<and> rd_revisions s = [] \<and> rd_supersessions s = [] \<and> rd_claims s = []"

inductive review_reachable :: "settings \<Rightarrow> review_db \<Rightarrow> bool" for st :: settings where
  start: "empty_log s \<Longrightarrow> review_reachable st s"
| step: "review_reachable st s \<Longrightarrow> review_step st s t \<Longrightarrow> review_reachable st t"

lemma review_ok_other:
  assumes "review_ok st s" and "rd_decisions t = rd_decisions s" and "rd_revisions t = rd_revisions s" and "rd_supersessions t = rd_supersessions s"
    and "rd_claims t = rd_claims s" and "db_serial (rd_base s) \<le> db_serial (rd_base t)"
  shows "review_ok st t"
proof -
  have "implied_claims t = implied_claims s" by (simp add: implied_claims_def active_revision_def superseded_def assms)
  moreover have "st_uuid st ` {..<db_serial (rd_base s)} \<subseteq> st_uuid st ` {..<db_serial (rd_base t)}" using assms(6) by auto
  ultimately show ?thesis
    using assms(1) unfolding review_ok_def log_ok_def claims_ok_def assms(2-5) by blast
qed

lemma commit_Inl_state:
  "fst (commit_initial st sha256 clock w b c s) = Inl e \<Longrightarrow> snd (commit_initial st sha256 clock w b c s) = s"
  "fst (commit_change st sha256 clock w b c s) = Inl e \<Longrightarrow> snd (commit_change st sha256 clock w b c s) = s"
  by (auto simp: commit_initial_def commit_change_def raise_def split: option.splits dest: atomic_state)


text \<open>A preview changes nothing but the workspace tables, where it may revoke a lapsed workspace.\<close>

lemma preserves_option: "(\<And>x. preserves P (f x)) \<Longrightarrow> preserves P m \<Longrightarrow> preserves P (case v of None \<Rightarrow> m | Some x \<Rightarrow> f x)"
  by (cases v) simp_all

lemma preserves_if: "preserves P m \<Longrightarrow> preserves P n \<Longrightarrow> preserves P (if b then m else n)"
  by simp

lemma preserves_Pair: "preserves P (\<lambda>s. (f s, s))"
  by (simp add: preserves_def)

lemma preserves_atomic_op: "preserves P m \<Longrightarrow> preserves P (atomic m)"
  by (rule preserves_atomic) (metis preserves_def snd_conv)

lemma reads:
  "preserves P (locked_book w b)" "preserves P (current_revision w b target)" "preserves P (resolve_authority w b a)"
  "preserves P (claim_conflicts w b a excluding)"
  unfolding locked_book_def current_revision_def resolve_authority_def claim_conflicts_def parse_uuid_def expected_of_def
  by (intro preserves_sbind preserves_smap preserves_option preserves_if preserves_Pair preserves_gets preserves_raise preserves_ok
      preserves_lift preserves_raise_if)+

lemma serial_grows: "preserves (\<lambda>b. k \<le> db_serial b) (sbind (locked_workspace w) (\<lambda>row. require_active st row now))"
proof -
  have m: "preserves (\<lambda>b. k \<le> db_serial b) (modify f)" if "\<And>b. db_serial b \<le> db_serial (f b)" for f
    by (rule preserves_modify) (use that order_trans in blast)
  have "preserves (\<lambda>b. k \<le> db_serial b) (revoke st i n final reason)" for i n final reason
    unfolding revoke_def locked_workspace_def save_workspace_def request_cleanup_def request_cleanup_job_def create_item_def fresh_def Let_def
    by (cases n) (auto intro!: preserves_sbind preserves_option preserves_if preserves_atomic_op m)
  then show ?thesis
    unfolding locked_workspace_def require_active_def expire_def
    by (intro preserves_sbind preserves_option preserves_if preserves_gets preserves_raise preserves_ok preserves_lift preserves_raise_if)
qed


lemma on_base_review_ok:
  assumes "review_ok st s"
  shows "review_ok st (snd (on_base (sbind (locked_workspace w) (\<lambda>row. require_active st' row now)) s))"
proof -
  obtain r b where run: "sbind (locked_workspace w) (\<lambda>row. require_active st' row now) (rd_base s) = (r, b)" by (cases "sbind (locked_workspace w) (\<lambda>row. require_active st' row now) (rd_base s)") auto
  then have "db_serial (rd_base s) \<le> db_serial b"
    using serial_grows [of "db_serial (rd_base s)" w st' now] unfolding preserves_def by fastforce
  then show ?thesis using run by (auto simp: on_base_def intro: review_ok_other [OF assms])
qed

lemma preserves_catch: "preserves P m \<Longrightarrow> (\<And>e k. h e = Some k \<Longrightarrow> preserves P k) \<Longrightarrow> preserves P (catch h m)"
  unfolding preserves_def
proof (intro allI impI)
  fix s assume m: "\<forall>s. P s \<longrightarrow> P (snd (m s))" and h: "\<And>e k. h e = Some k \<Longrightarrow> \<forall>s. P s \<longrightarrow> P (snd (k s))" and s: "P s"
  obtain r t where run: "m s = (r, t)" by (cases "m s")
  with m s have t: "P t" by fastforce
  show "P (snd (catch h m s))"
  proof (cases r)
    case (Inl e)
    show ?thesis by (cases "h e") (use run Inl t h in \<open>auto simp: catch_def\<close>)
  qed (use run t in \<open>simp add: catch_def\<close>)
qed

lemma preserves_require_active:
  "preserves P (on_base (sbind (locked_workspace w) (\<lambda>row. require_active st row (utc_stamp now)))) \<Longrightarrow>
   preserves P (require_active_workspace st w now)"
  unfolding require_active_workspace_def by (rule preserves_catch) (auto simp: preserves_raise split: if_splits)

lemma preview_ok: "review_ok st s \<Longrightarrow> review_ok st (snd (preview_replacement st clock w b target a s))"
proof -
  have "preserves (review_ok st) (require_active_workspace st w clock)"
    by (rule preserves_require_active) (use on_base_review_ok in \<open>simp add: preserves_def\<close>)
  then have "preserves (review_ok st) (preview_replacement st clock w b target a)"
    unfolding preview_replacement_def by (intro preserves_sbind reads preserves_lift)
  then show "review_ok st s \<Longrightarrow> ?thesis" by (simp add: preserves_def)
qed

lemma commits_ok:
  assumes inj: "inj (st_uuid st)" and s: "review_ok st s"
  shows "review_ok st (snd (commit_initial st sha256 clock w b c s))" "review_ok st (snd (commit_change st sha256 clock w b c s))"
proof -
  show "review_ok st (snd (commit_initial st sha256 clock w b c s))"
  proof (cases "commit_initial st sha256 clock w b c s")
    case (Pair x t)
    then show ?thesis using commit_Inl_state(1) [of st sha256 clock w b c s] commit_initial_ok [OF inj s, of sha256 clock w b c] s
      by (cases x) auto
  qed
  show "review_ok st (snd (commit_change st sha256 clock w b c s))"
  proof (cases "commit_change st sha256 clock w b c s")
    case (Pair x t)
    then show ?thesis using commit_Inl_state(2) [of st sha256 clock w b c s] commit_change_ok [OF inj s, of sha256 clock w b c] s
      by (cases x) auto
  qed
qed

lemma review_step_ok:
  assumes "inj (st_uuid st)" and "review_step st s t" and "review_ok st s"
  shows "review_ok st t"
  using assms(2) by cases (use commits_ok [OF assms(1,3)] preview_ok [OF assms(3)] review_ok_other [OF assms(3)] in auto)

lemma review_reachable_ok:
  assumes inj: "inj (st_uuid st)" and "review_reachable st s"
  shows "review_ok st s"
  using assms(2)
proof induction
  case (start s)
  then show ?case
    by (auto simp: empty_log_def review_ok_def log_ok_def claims_ok_def implied_claims_def active_revision_def)
next
  case (step s t)
  then show ?case using review_step_ok [OF inj] by blast
qed

section \<open>The log only grows\<close>

definition log_grows :: "review_db \<Rightarrow> review_db \<Rightarrow> bool" where
  "log_grows s t \<longleftrightarrow> (\<exists>rs su. rd_revisions t = rd_revisions s @ rs \<and> rd_supersessions t = rd_supersessions s @ su)"

lemma log_grows_refl [simp]: "log_grows s s"
  by (simp add: log_grows_def)

lemma settle_log: "settle_claims clock w b c cur i authority conflicts s = (Inr x, t) \<Longrightarrow>
    rd_revisions t = rd_revisions s \<and> rd_books t = rd_books s \<and> (\<exists>su. rd_supersessions t = rd_supersessions s @ su)"
proof -
  assume run: "settle_claims clock w b c cur i authority conflicts s = (Inr x, t)"
  consider "dc_action c = REAFFIRM" | "dc_action c = REVOKE" | "dc_action c \<noteq> REAFFIRM" "dc_action c \<noteq> REVOKE" by blast
  then show ?thesis
  proof cases
    case 1
    from settle_reaffirm [OF 1 run] show ?thesis by simp
  next
    case 2
    from settle_revoke [OF 2 run] show ?thesis by simp
  next
    case 3
    show ?thesis by (rule settle_replace [OF run 3]) simp
  qed
qed

lemma commit_log_grows:
  "commit_initial st sha256 clock w b c s = (Inr r, t) \<Longrightarrow> log_grows s t"
  "commit_change st sha256 clock w b c s = (Inr r, t) \<Longrightarrow> log_grows s t"
proof -
  show "commit_initial st sha256 clock w b c s = (Inr r, t) \<Longrightarrow> log_grows s t"
    by (erule commit_initial_Inr, erule record_initial_Inr) (simp add: log_grows_def)
  assume "commit_change st sha256 clock w b c s = (Inr r, t)"
  then obtain cur change where run: "record_change st sha256 clock w b c cur change s = (Inr r, t)" by (rule commit_change_Inr)
  obtain authority obs conflicts where change: "change = (authority, obs, conflicts)" by (cases change) auto
  from run [unfolded change] obtain u v where u: "u = s\<lparr>rd_base := (rd_base s)\<lparr>db_serial := db_serial (rd_base s) + 1\<rparr>, rd_revisions := rd_revisions s @ [r]\<rparr>"
    and v: "settle_claims clock w b c cur (rv_id r) authority conflicts u = (Inr (), v)"
    and t: "rd_revisions t = rd_revisions v" "rd_supersessions t = rd_supersessions v" by (rule record_change_Inr)
  from settle_log [OF v] t show "log_grows s t" by (auto simp: log_grows_def u)
qed

lemma on_base_fields [simp]:
  "rd_revisions (snd (on_base m s)) = rd_revisions s" "rd_supersessions (snd (on_base m s)) = rd_supersessions s"
  by (simp_all add: on_base_def split: prod.splits)

lemma preview_log: "log_grows s (snd (preview_replacement st clock w b target a s))"
proof -
  let ?P = "\<lambda>t. rd_revisions t = rd_revisions s \<and> rd_supersessions t = rd_supersessions s"
  have "preserves ?P (require_active_workspace st w clock)"
    by (rule preserves_require_active) (simp add: preserves_def)
  then have "preserves ?P (preview_replacement st clock w b target a)"
    unfolding preview_replacement_def by (intro preserves_sbind reads preserves_lift)
  then show ?thesis unfolding log_grows_def preserves_def by simp
qed

lemma review_step_log_grows:
  assumes "review_step st s t"
  shows "log_grows s t"
  using assms
proof cases
  case (initial sha256 clock w b c)
  then show ?thesis
    using commit_log_grows(1) [of st sha256 clock w b c s] commit_Inl_state(1) [of st sha256 clock w b c s]
    by (cases "commit_initial st sha256 clock w b c s"; cases "fst (commit_initial st sha256 clock w b c s)") auto
next
  case (change sha256 clock w b c)
  then show ?thesis
    using commit_log_grows(2) [of st sha256 clock w b c s] commit_Inl_state(2) [of st sha256 clock w b c s]
    by (cases "commit_change st sha256 clock w b c s"; cases "fst (commit_change st sha256 clock w b c s)") auto
next
  case (preview clock w b target a)
  with preview_log [of s st clock w b target a] show ?thesis by simp
qed (simp add: log_grows_def)

section \<open>Generations\<close>

lemma advanced_book:
  assumes "find (\<lambda>x. bk_id x = b \<and> bk_workspace x = w) bs = Some book"
  shows "find (\<lambda>x. bk_id x = b \<and> bk_workspace x = w)
    (map (\<lambda>x. if bk_id x = b then x\<lparr>bk_resolution_generation := bk_resolution_generation x + 1\<rparr> else x) bs) =
    Some (book\<lparr>bk_resolution_generation := bk_resolution_generation book + 1\<rparr>)"
  using assms by (induction bs) (auto split: if_splits)


lemma committed_book:
  "commit_initial st sha256 clock w b c s = (Inr r, t) \<Longrightarrow> \<exists>book. find (\<lambda>x. bk_id x = b \<and> bk_workspace x = w) (rd_books t) = Some book \<and>
     bk_resolution_generation book = dc_expected_generation c + 1"
  "commit_change st sha256 clock w b c s = (Inr r, t) \<Longrightarrow> \<exists>book. find (\<lambda>x. bk_id x = b \<and> bk_workspace x = w) (rd_books t) = Some book \<and>
     bk_resolution_generation book = dc_expected_generation c + 1"
proof -
  show "commit_initial st sha256 clock w b c s = (Inr r, t) \<Longrightarrow> \<exists>book. find (\<lambda>x. bk_id x = b \<and> bk_workspace x = w) (rd_books t) = Some book \<and>
     bk_resolution_generation book = dc_expected_generation c + 1"
    by (erule commit_initial_Inr, erule record_initial_Inr) (auto dest: advanced_book)
  assume "commit_change st sha256 clock w b c s = (Inr r, t)"
  then obtain book cur change where book: "find (\<lambda>x. bk_id x = b \<and> bk_workspace x = w) (rd_books s) = Some book"
    "bk_resolution_generation book = dc_expected_generation c" and run: "record_change st sha256 clock w b c cur change s = (Inr r, t)"
    by (rule commit_change_Inr)
  obtain authority obs conflicts where change: "change = (authority, obs, conflicts)" by (cases change) auto
  from run [unfolded change] obtain u v where u: "u = s\<lparr>rd_base := (rd_base s)\<lparr>db_serial := db_serial (rd_base s) + 1\<rparr>, rd_revisions := rd_revisions s @ [r]\<rparr>"
    and v: "settle_claims clock w b c cur (rv_id r) authority conflicts u = (Inr (), v)"
    and t: "rd_books t = map (\<lambda>x. if bk_id x = b then x\<lparr>bk_resolution_generation := bk_resolution_generation x + 1\<rparr> else x) (rd_books v)"
    by (rule record_change_Inr)
  from advanced_book [OF book(1)] book(2) settle_log [OF v] t
  show "\<exists>book. find (\<lambda>x. bk_id x = b \<and> bk_workspace x = w) (rd_books t) = Some book \<and>
     bk_resolution_generation book = dc_expected_generation c + 1" by (simp add: u)
qed

end
