(* ===== verification/Texts.thy ===== *)
theory Texts
  imports CaseKeys
begin

text \<open>Facts about \<open>str.strip()\<close> that the components which parse text share.\<close>

definition visible :: "char \<Rightarrow> bool" where
  "visible c \<longleftrightarrow> 33 \<le> (of_char c :: nat) \<and> (of_char c :: nat) \<le> 127"

lemma whitespace_bytes: "w \<in> set py_whitespace \<Longrightarrow> w \<noteq> [] \<and> \<not> visible (hd w) \<and> \<not> visible (last w)"
  by (auto simp: py_whitespace_def visible_def)

lemma space_length_hd: "s \<noteq> [] \<Longrightarrow> visible (hd s) \<Longrightarrow> space_length s = 0"
proof -
  assume s: "s \<noteq> []" "visible (hd s)"
  have "\<not> starts_with w s" if "w \<in> set py_whitespace" for w
    using s whitespace_bytes [OF that] by (cases w; cases s) (auto simp: starts_with_def)
  then have "find (\<lambda>w. starts_with w s) py_whitespace = None" by (simp add: find_None_iff)
  then show ?thesis by (simp add: space_length_def)
qed

lemma space_length_rev_hd: "s \<noteq> [] \<Longrightarrow> visible (hd s) \<Longrightarrow> space_length_rev s = 0"
proof -
  assume s: "s \<noteq> []" "visible (hd s)"
  have "\<not> starts_with (rev w) s" if "w \<in> set py_whitespace" for w
    using s whitespace_bytes [OF that] by (cases w rule: rev_cases; cases s) (auto simp: starts_with_def)
  then have "find (\<lambda>w. starts_with (rev w) s) py_whitespace = None" by (simp add: find_None_iff)
  then show ?thesis by (simp add: space_length_rev_def)
qed

text \<open>A text between two visible ASCII characters is kept.\<close>

lemma strip_kept: "s \<noteq> [] \<Longrightarrow> visible (hd s) \<Longrightarrow> visible (last s) \<Longrightarrow> py_strip s = s"
  using space_length_hd [of s] space_length_rev_hd [of "rev s"]
  by (simp add: py_strip_def py_lstrip.simps [of s] py_strip_rev.simps [of "rev s"] hd_rev)

lemma strip_Nil [simp]: "py_strip [] = []"
  using blank_py_strip [of "[]"] by simp

end
