(* ===== verification/ResolutionClaims.thy ===== *)
theory ResolutionClaims
  imports ResolutionRuns JobClaims Texts
begin

text \<open>
  What the command service for reviewer decisions guarantees over all its commands: the mutable
  claims are the projection of the append-only log, the log only grows, and a generation of a book
  is spent by one commit.
\<close>

section \<open>A concrete ledger\<close>

definition sample_record :: string where
  "sample_record = ''00000000-0000-0000-0000-0000000000a1''"

definition sample_observation :: string where
  "sample_observation = ''00000000-0000-0000-0000-0000000000b1''"

definition sample_ledger :: review_db where
  "sample_ledger = \<lparr>rd_base = empty_db\<lparr>db_workspaces := [sample_workspace 0], db_serial := 1\<rparr>,
     rd_books = [\<lparr>bk_id = ''b'', bk_workspace = '''', bk_resolution_generation = 4\<rparr>], rd_scopes = [],
     rd_logicals = [\<lparr>lg_id = sample_record, lg_workspace = '''', lg_book = ''b'', lg_role = LEFT\<rparr>],
     rd_observations = [\<lparr>ob_id = sample_observation, ob_workspace = '''', ob_logical = sample_record, ob_fingerprint = ''f''\<rparr>],
     rd_decisions = [], rd_revisions = [], rd_supersessions = [], rd_claims = []\<rparr>"

definition sample_command :: decision_command where
  "sample_command = \<lparr>dc_action = ACCEPT_UNMATCHED, dc_reason = ''no partner'', dc_actor = ''ann'', dc_expected_generation = 4,
     dc_authority = Some \<lparr>da_kind = ACCEPT_UNMATCHED_AUTHORITY, da_left_id = None, da_right_id = None,
       da_record_id = Some sample_record, da_record_side = Some LEFT\<rparr>,
     dc_target = None, dc_approved_conflicts = [], dc_reviewed = [sample_observation]\<rparr>"

definition sample_revision :: revision_row where
  "sample_revision = \<lparr>rv_id = ''uu'', rv_workspace = '''', rv_decision = ''u'', rv_predecessor = None, rv_revision = 1,
     rv_action = ACCEPT_UNMATCHED, rv_authority_kind = Some ACCEPT_UNMATCHED_AUTHORITY, rv_left = None, rv_right = None,
     rv_record = Some sample_record, rv_side = Some LEFT, rv_reason = ''no partner'', rv_actor = ''ann'',
     rv_reviewed = [sample_observation], rv_digest = Some ''digest'', rv_created_at = 1\<rparr>"

definition sample_committed :: review_db where
  "sample_committed = sample_ledger\<lparr>
     rd_base := empty_db\<lparr>db_workspaces := [sample_workspace 0], db_serial := 3\<rparr>,
     rd_books := [\<lparr>bk_id = ''b'', bk_workspace = '''', bk_resolution_generation = 5\<rparr>],
     rd_decisions := [\<lparr>dn_id = ''u'', dn_workspace = '''', dn_book = ''b'', dn_current = Some ''uu'', dn_created_at = 1\<rparr>],
     rd_revisions := [sample_revision],
     rd_claims := [\<lparr>ac_workspace = '''', ac_book = ''b'', ac_logical = sample_record, ac_revision = ''uu''\<rparr>]\<rparr>"

lemma sample_ids: "uuid_text sample_record = Some sample_record" "uuid_text sample_observation = Some sample_observation"
  unfolding sample_record_def sample_observation_def by code_simp+

lemma sample_active: "require_active_workspace sample_settings '''' 1 sample_ledger = (Inr (), sample_ledger)"
  by (simp add: require_active_workspace_def catch_def on_base_def locked_workspace_def workspace_of_def require_active_def
      evaluate_def as_utc_def valid_datetime_def datetime_max_def us_per_day_def op_simps sample_ledger_def sample_defs)

lemma sample_strip: "py_strip ''no partner'' = ''no partner''" "py_strip ''ann'' = ''ann''" "py_len ''ann'' = 3"
  by (simp_all add: strip_kept visible_def py_len_def)

lemma sample_fields [simp]: "dc_action sample_command = ACCEPT_UNMATCHED" "dc_expected_generation sample_command = 4"
  "dc_authority sample_command = Some \<lparr>da_kind = ACCEPT_UNMATCHED_AUTHORITY, da_left_id = None, da_right_id = None,
       da_record_id = Some sample_record, da_record_side = Some LEFT\<rparr>"
  by (simp_all add: sample_command_def)

lemma sample_commit: "commit_initial sample_settings (\<lambda>_. ''digest'') 1 '''' ''b'' sample_command sample_ledger =
    (Inr sample_revision, sample_committed)"
proof -
  let ?a = "\<lparr>da_kind = ACCEPT_UNMATCHED_AUTHORITY, da_left_id = None, da_right_id = None,
       da_record_id = Some sample_record, da_record_side = Some LEFT\<rparr>"
  let ?b = "\<lparr>bk_id = ''b'', bk_workspace = '''', bk_resolution_generation = 4\<rparr>"
  let ?l = "\<lparr>lg_id = sample_record, lg_workspace = '''', lg_book = ''b'', lg_role = LEFT\<rparr>"
  let ?o = "\<lparr>ob_id = sample_observation, ob_workspace = '''', ob_logical = sample_record, ob_fingerprint = ''f''\<rparr>"
  have 1: "locked_book '''' ''b'' sample_ledger = (Inr ?b, sample_ledger)"
    by (simp add: sample_ledger_def)
  have 2: "require_generation ?b sample_command sample_ledger = (Inr (), sample_ledger)"
    by (simp add: require_generation_def op_simps)
  have 3: "resolve_authority '''' ''b'' ?a sample_ledger = (Inr [?l], sample_ledger)"
    by (simp add: resolve_authority_def endpoint_ids_def parse_uuid_def sample_ids role_of_def op_simps) (auto simp: sample_ledger_def)
  have 4: "resolve_reviewed '''' ''b'' sample_command [?l] sample_ledger = (Inr [?o], sample_ledger)"
    by (simp add: resolve_reviewed_def sample_command_def parse_uuid_def sample_ids op_simps) (auto simp: sample_ledger_def)
  have 5: "reject_claim_conflicts '''' ''b'' ?a sample_ledger = (Inr (), sample_ledger)"
    by (simp add: reject_claim_conflicts_def claim_conflicts_def endpoint_ids_def op_simps) (simp add: sample_ledger_def)
  have 6: "record_initial sample_settings (\<lambda>_. ''digest'') 1 '''' ''b'' sample_command ?a [?o] sample_ledger =
      (Inr sample_revision, sample_committed)"
    by (simp add: record_initial_def on_base_fresh sbind_run modify_run Let_def create_revision_def set_current_def claim_endpoints_def
        endpoint_ids_def create_claims_def catch_def claims_of_def reserves_endpoints_def advance_generations_def op_simps)
      (simp add: sample_ledger_def sample_committed_def sample_command_def sample_revision_def initial_revision_def with_authority_def
        sample_strip revision_valid_def revision_authority_shape_def revision_action_shape_def initial_kind_def
        reviewed_evidence_digest_def sample_settings_def numeral_eq_Suc)
  show ?thesis
    by (simp add: commit_initial_def initial_kind_def atomic_def sbind_run sample_active 1 2 3 4 5 6)
qed

lemma sample_committed_reachable: "review_reachable sample_settings sample_committed"
proof -
  have "review_reachable sample_settings sample_ledger"
    by (rule review_reachable.start) (simp add: empty_log_def sample_ledger_def)
  from review_reachable.step [OF this review_step.initial [of _ _ "\<lambda>_. ''digest''" 1 "''''" "''b''" sample_command]]
  show ?thesis by (simp add: sample_commit)
qed

section \<open>Claims\<close>

text \<open>C8. Refinement: in every state the commands of the service can reach, the mutable claims are exactly
  the endpoints that the append-only log reserves: those of the current revisions that are neither
  revocations nor superseded. No endpoint of a book is claimed twice.\<close>

theorem claims_mirror_log:
  assumes "inj (st_uuid st)" and "review_reachable st s"
  shows "set (rd_claims s) = implied_claims s \<and> distinct (map (\<lambda>x. (ac_book x, ac_logical x)) (rd_claims s))"
  using review_reachable_ok [OF assms] by (simp add: review_ok_def claims_ok_def)

theorem claims_mirror_log_witness:
  "implied_claims sample_committed = {\<lparr>ac_workspace = '''', ac_book = ''b'', ac_logical = sample_record, ac_revision = ''uu''\<rparr>}"
  using claims_mirror_log [of sample_settings sample_committed] sample_settings_ok sample_committed_reachable
  by (simp add: settings_ok_def) (simp add: sample_committed_def)

text \<open>C13. History: whatever sequence of commands runs, revisions and supersessions are only appended; none is
  changed, dropped or reordered.\<close>

theorem history_is_append_only:
  assumes "rtranclp (review_step st) s t"
  shows "\<exists>rs su. rd_revisions t = rd_revisions s @ rs \<and> rd_supersessions t = rd_supersessions s @ su"
  using assms
proof induction
  case (step t u)
  from review_step_log_grows [OF step.hyps(2)] step.IH show ?case by (auto simp: log_grows_def)
qed simp

theorem history_is_append_only_witness:
  "\<exists>rs su. rd_revisions sample_committed = rd_revisions sample_ledger @ rs \<and>
     rd_supersessions sample_committed = rd_supersessions sample_ledger @ su"
proof (rule history_is_append_only)
  show "rtranclp (review_step sample_settings) sample_ledger sample_committed"
    using review_step.initial [of sample_settings sample_ledger "\<lambda>_. ''digest''" 1 "''''" "''b''" sample_command]
    by (simp add: sample_commit)
qed

text \<open>C12. Optimistic concurrency: a commit spends the generation of the book it was prepared against. In the
  state a commit leaves, any other command for that book with the same expected generation is refused,
  whatever it asks for and whatever the clock shows, and leaves no trace.\<close>

theorem one_commit_per_generation:
  assumes "commit_initial st sha256 clock w b c s = (Inr r, t) \<or> commit_change st sha256 clock w b c s = (Inr r, t)"
    and "dc_expected_generation c' = dc_expected_generation c"
  shows "(\<exists>e. commit_initial st sha256 clock' w b c' t = (Inl e, t)) \<and> (\<exists>e. commit_change st sha256 clock' w b c' t = (Inl e, t))"
proof -
  have "\<exists>book. find (\<lambda>x. bk_id x = b \<and> bk_workspace x = w) (rd_books t) = Some book \<and>
      bk_resolution_generation book = dc_expected_generation c + 1"
    using assms(1) by (rule disjE) (erule committed_book)+
  then obtain book where "find (\<lambda>x. bk_id x = b \<and> bk_workspace x = w) (rd_books t) = Some book"
    "bk_resolution_generation book = dc_expected_generation c + 1" by blast
  with assms(2) have other: "find (\<lambda>x. bk_id x = b \<and> bk_workspace x = w) (rd_books t) = Some x \<Longrightarrow>
      bk_resolution_generation x \<noteq> dc_expected_generation c'" for x by simp
  have 1: False if "commit_initial st sha256 clock' w b c' t = (Inr x, u)" for x u
    using that by (rule commit_initial_Inr) (use other in blast)
  have 2: False if "commit_change st sha256 clock' w b c' t = (Inr x, u)" for x u
    using that by (rule commit_change_Inr) (use other in blast)
  obtain e f u v where e: "commit_initial st sha256 clock' w b c' t = (Inl e, u)" "commit_change st sha256 clock' w b c' t = (Inl f, v)"
    using 1 2 by (metis prod.exhaust sum.exhaust)
  with commit_Inl_state [of st sha256 clock' w b c' t] have "u = t" "v = t" by simp_all
  with e show ?thesis by blast
qed

theorem one_commit_per_generation_witness:
  "(\<exists>e. commit_initial sample_settings (\<lambda>_. ''digest'') 2 '''' ''b'' sample_command sample_committed = (Inl e, sample_committed)) \<and>
   (\<exists>e. commit_change sample_settings (\<lambda>_. ''digest'') 2 '''' ''b'' sample_command sample_committed = (Inl e, sample_committed))"
  by (rule one_commit_per_generation [where s = sample_ledger and c = sample_command]) (use sample_commit in auto)

end
