(* ===== verification/ReplacementClaims.thy ===== *)
theory ReplacementClaims
  imports ResolutionClaims
begin

text \<open>
  A replacement is previewed first and committed later with the conflicts the reviewer approved.
  What a preview shows is what the commit compares against: committed in the state it was previewed
  in, the replacement is never refused as stale or for a changed set of conflicts.
\<close>

section \<open>The errors of an operation\<close>

definition raises :: "(py_error \<Rightarrow> bool) \<Rightarrow> ('s, 'a) op \<Rightarrow> bool" where
  "raises E m \<longleftrightarrow> (\<forall>s e t. m s = (Inl e, t) \<longrightarrow> E e)"

named_theorems raises_intros \<open>which errors an operation raises\<close>

lemma raises_return [raises_intros]: "raises E (ok x)" "raises E (gets f)" "raises E (modify g)"
  by (simp_all add: raises_def op_simps)

lemma raises_raise [raises_intros]: "E e \<Longrightarrow> raises E (raise e)" "E e \<Longrightarrow> raises E (raise_if c e)"
  by (simp_all add: raises_def op_simps)

lemma raises_lift [raises_intros]: "(\<And>e. r = Inl e \<Longrightarrow> E e) \<Longrightarrow> raises E (lift_result r)"
  by (simp add: raises_def op_simps)

lemma raises_sbind [raises_intros]: "raises E m \<Longrightarrow> (\<And>x. raises E (f x)) \<Longrightarrow> raises E (sbind m f)"
  unfolding raises_def sbind_Inl by blast

lemma raises_if [raises_intros]: "raises E m \<Longrightarrow> raises E n \<Longrightarrow> raises E (if c then m else n)"
  by simp

lemma raises_option [raises_intros]:
  "raises E m \<Longrightarrow> (\<And>x. raises E (f x)) \<Longrightarrow> raises E (case v of None \<Rightarrow> m | Some x \<Rightarrow> f x)"
  by (cases v) simp_all

lemma raises_smap [raises_intros]: "(\<And>x. raises E (f x)) \<Longrightarrow> raises E (smap f xs)"
  by (induction xs) (simp_all add: raises_intros)

lemma raises_fresh [raises_intros]: "raises E (on_base (fresh f st))"
  by (simp add: raises_def on_base_fresh)

lemma raises_catch:
  assumes "\<And>e k. h e = Some k \<Longrightarrow> raises E k" and "raises (\<lambda>e. h e = None \<longrightarrow> E e) m"
  shows "raises E (catch h m)"
  using assms unfolding raises_def catch_def by (fastforce split: prod.split_asm sum.split_asm option.split_asm)

text \<open>An error is not a refusal as stale: of the conflicts of a mutation only a claimed endpoint remains.\<close>

definition not_stale :: "py_error \<Rightarrow> bool" where
  "not_stale e \<longleftrightarrow> (\<forall>code message affected. e = DecisionMutationConflict code message affected \<longrightarrow> code = ''ENDPOINT_CLAIMED'')"

lemma not_stale_simps [simp]: "not_stale (DomainValidationError m)" "not_stale ValueError" "not_stale AssertionError"
  "not_stale KeyError" "not_stale (IntegrityError m)" "not_stale DecisionMutationUnavailable" "not_stale WorkspaceUnavailable"
  by (simp_all add: not_stale_def)

lemma checks_not_stale: "checks cs x = Inl e \<Longrightarrow> not_stale e"
  by (induction cs) (auto simp: checks.simps split: if_splits)

lemma endpoint_ids_not_stale: "endpoint_ids a = Inl e \<Longrightarrow> not_stale e"
  by (auto simp: endpoint_ids_def split: if_splits option.splits)

lemma authority_from_revision_not_stale: "authority_from_revision r = Inl e \<Longrightarrow> not_stale e"
  by (auto simp: authority_from_revision_def authority_accept_unmatched_def authority_link_def authority_reject_candidate_def
      decision_authority_post_init_def rbind_Inl_iff dest: checks_not_stale split: option.splits authority_kind.splits if_splits)

lemma claimed_not_stale: "not_stale (mutation_conflict ENDPOINT_CLAIMED message [])"
  by (auto simp: mutation_conflict_def review_conflict_post_init_def Let_def dest: checks_not_stale split: sum.splits)
    (auto simp: not_stale_def checks_Inr_iff)

lemma raises_claim_endpoints [raises_intros]: "raises not_stale (claim_endpoints w b i a message)"
  unfolding claim_endpoints_def
proof (intro raises_intros raises_catch)
  fix e k assume "integrity_conflict message e = Some k"
  then show "raises not_stale k" using integrity_conflict_Some claimed_not_stale by (blast intro: raises_intros)
qed (auto simp: create_claims_def integrity_conflict_def endpoint_ids_not_stale intro!: raises_intros)

lemma raises_record_change: "raises not_stale (record_change st sha256 clock w b c cur (authority, obs, conflicts))"
  unfolding record_change_def create_revision_def settle_claims_def move_claims_def drop_claims_def create_supersessions_def
    set_current_def advance_generations_def Let_def prod.case
  by (intro raises_intros) simp_all

lemma raises_resolve_reviewed: "raises not_stale (resolve_reviewed w b c ls)"
  unfolding resolve_reviewed_def parse_uuid_def by (intro raises_intros) simp_all

section \<open>Previews\<close>

lemma smap_lift: "smap (\<lambda>x. lift_result (f x)) xs s = (rmap f xs, s)"
  by (induction xs) (auto simp: op_simps split: sum.splits)

lemma approved_conflicts:
  assumes "replacement_preview_post_init \<lparr>rp_authority = a, rp_target = target, rp_conflicts = sort_key (\<lambda>c. (cf_decision_id c, cf_revision_id c)) xs,
      rp_generation = g\<rparr> = Inr p"
  shows "rp_conflicts p = sort_key (\<lambda>c. (cf_decision_id c, cf_revision_id c)) xs \<and> rp_generation p = g"
proof -
  let ?cs = "sort_key (\<lambda>c. (cf_decision_id c, cf_revision_id c)) xs"
  have strict: "sorted (map conflict_order cs)"
    if "distinct (map cf_decision_id cs)" "sorted (map (\<lambda>c. (cf_decision_id c, cf_revision_id c)) cs)" for cs
    using that by (induction cs) (force simp: conflict_order_def)+
  from assms have d: "distinct (map cf_decision_id (sort_key conflict_order ?cs))"
    and p: "p = \<lparr>rp_authority = a, rp_target = target, rp_conflicts = sort_key conflict_order ?cs, rp_generation = g\<rparr>"
    by (auto simp: replacement_preview_post_init_def Let_def checks_Inr_iff)
  have "mset (map cf_decision_id (sort_key conflict_order ?cs)) = mset (map cf_decision_id ?cs)" by simp
  with d have "distinct (map cf_decision_id ?cs)" by (metis mset_eq_imp_distinct_iff)
  from strict [OF this sorted_sort_key] p show ?thesis by (simp add: sort_key_id_if_sorted)
qed

lemma preview_Inr:
  assumes "preview_replacement st clock w b target a s = (Inr p, t)"
  obtains x book cur ls cs where "t = s" "require_active_workspace st w clock s = (Inr x, s)" "locked_book w b s = (Inr book, s)"
    "bk_resolution_generation book = rp_generation p" "current_revision w b target s = (Inr cur, s)"
    "resolve_authority w b a s = (Inr ls, s)" "claim_conflicts w b a (Some (rv_decision cur)) s = (Inr cs, s)" "rp_conflicts p = cs"
proof -
  from assms obtain x u book cur v ls y cs z where 1: "require_active_workspace st w clock s = (Inr x, u)" "locked_book w b u = (Inr book, u)"
    "current_revision w b target u = (Inr cur, v)" "resolve_authority w b a v = (Inr ls, y)"
    "claim_conflicts w b a (Some (rv_decision cur)) y = (Inr cs, z)"
    "replacement_preview_post_init \<lparr>rp_authority = a, rp_target = target, rp_conflicts = cs, rp_generation = bk_resolution_generation book\<rparr> = Inr p"
    "t = z"
    unfolding preview_replacement_def sbind_Inr by (auto simp: lift_result_def)
  have u: "u = s" "v = s" "y = s" "z = s"
    using require_active_workspace_Inr [OF 1(1)] current_revision_Inr [OF 1(3)] resolve_authority_Inr [OF 1(4)] claim_conflicts_Inr [OF 1(5)]
    by simp_all
  from 1(5) obtain xs where cs: "cs = sort_key (\<lambda>c. (cf_decision_id c, cf_revision_id c)) xs"
    by (cases "reserves_endpoints a") (auto simp: claim_conflicts_def sbind_Inr op_defs intro: that [of "[]"])
  from approved_conflicts [OF 1(6) [unfolded cs]] cs have "rp_conflicts p = cs" "bk_resolution_generation book = rp_generation p" by simp_all
  with 1 show thesis unfolding u by (intro that)
qed


text \<open>C14. Preview and commit agree: take a replacement whose preview returned, and whose reviewer approved the
  conflicts it showed for the generation it showed. Committed in that state it is never refused as stale
  or for a changed set of conflicts; the only conflict left is an endpoint that the uniqueness
  constraint of the claims still holds.\<close>

theorem previewed_replacement_is_current:
  assumes "preview_replacement st clock w b target a s = (Inr p, t)"
    and "dc_action c = REPLACE" and "dc_authority c = Some a" and "dc_target c = Some target"
    and "dc_expected_generation c = rp_generation p" and "expected_conflicts p = Inr (dc_approved_conflicts c)"
  shows "t = s \<and> (\<forall>code message affected u. commit_change st sha256 clock w b c t = (Inl (DecisionMutationConflict code message affected), u) \<longrightarrow>
     code = ''ENDPOINT_CLAIMED'' \<and> u = s)"
proof -
  from assms(1) obtain x book cur ls cs where t: "t = s" and run: "require_active_workspace st w clock s = (Inr x, s)"
    "locked_book w b s = (Inr book, s)" and g: "bk_resolution_generation book = rp_generation p"
    and cur: "current_revision w b target s = (Inr cur, s)"
    and prep: "resolve_authority w b a s = (Inr ls, s)" "claim_conflicts w b a (Some (rv_decision cur)) s = (Inr cs, s)"
    and cs: "rp_conflicts p = cs" by (rule preview_Inr)
  have gen: "require_generation book c s = (Inr (), s)"
    by (simp add: require_generation_def raise_if_def ok_def g assms(5))
  have approved: "smap conflict_revision cs s = (Inr (dc_approved_conflicts c), s)"
    using assms(6) unfolding expected_conflicts_def conflict_revision_def expected_of_def smap_lift cs by simp
  have "not_stale e" if e: "commit_change st sha256 clock w b c s = (Inl e, u)" for e u
  proof -
    from e obtain v where body: "sbind (lift_result (authority_from_revision cur))
          (\<lambda>inherited. sbind (prepare_change w b c cur inherited)
          (\<lambda>change. record_change st sha256 clock w b c cur change)) s = (Inl e, v)"
      using assms(2,4) by (auto simp: commit_change_def initial_kind_def atomic_Inl sbind_run [of "require_active_workspace st w clock"]
          sbind_run [of "locked_book w b"] sbind_run [of "require_generation book c"] sbind_run [of "current_revision w b target"] run gen cur)
    have change: "prepare_change w b c cur inherited s = sbind (resolve_reviewed w b c ls) (\<lambda>obs. sbind (claim_conflicts w b a (Some (rv_decision cur)))
            (\<lambda>conflicts. sbind (smap conflict_revision conflicts)
            (\<lambda>actual. sbind (raise_if (actual \<noteq> dc_approved_conflicts c)
                (mutation_conflict CONFLICT_SET_CHANGED
                   ''The affected decisions changed; preview the replacement again.'' actual))
            (\<lambda>_. ok (Some a, obs, conflicts))))) s" for inherited
      using assms(2,3) by (simp add: prepare_change_def sbind_run [of "resolve_authority w b a"] prep(1))
    show ?thesis
    proof (cases "resolve_reviewed w b c ls s")
      case (Pair r y)
      show ?thesis
      proof (cases r)
        case (Inl f)
        with Pair raises_resolve_reviewed [of w b c ls] have "not_stale f" unfolding raises_def by blast
        with body change Pair Inl show ?thesis
          by (auto simp: sbind_run lift_result_def authority_from_revision_not_stale split: sum.split_asm)
      next
        case (Inr obs)
        with Pair have "resolve_reviewed w b c ls s = (Inr obs, s)" using resolve_reviewed_Inr by blast
        with change prep approved have "prepare_change w b c cur inherited s = (Inr (Some a, obs, cs), s)" for inherited
          by (simp add: sbind_run raise_if_def ok_def)
        with body raises_record_change [of st sha256 clock w b c cur "Some a" obs cs] show ?thesis
          unfolding raises_def by (auto simp: sbind_Inl lift_result_def authority_from_revision_not_stale)
      qed
    qed
  qed
  then show ?thesis
    using t commit_Inl_state(2) [of st sha256 clock w b c s] unfolding not_stale_def by fastforce
qed

definition sample_decision :: string where
  "sample_decision = ''00000000-0000-0000-0000-0000000000d1''"

definition sample_authority :: decision_authority where
  "sample_authority = \<lparr>da_kind = ACCEPT_UNMATCHED_AUTHORITY, da_left_id = None, da_right_id = None,
     da_record_id = Some sample_record, da_record_side = Some LEFT\<rparr>"

definition sample_target :: expected_revision where
  "sample_target = \<lparr>er_decision_id = sample_decision, er_revision_id = sample_observation\<rparr>"

definition sample_standing :: review_db where
  "sample_standing = sample_ledger\<lparr>
     rd_decisions := [\<lparr>dn_id = sample_decision, dn_workspace = '''', dn_book = ''b'', dn_current = Some sample_observation, dn_created_at = 0\<rparr>],
     rd_revisions := [sample_revision\<lparr>rv_id := sample_observation, rv_decision := sample_decision\<rparr>],
     rd_claims := [\<lparr>ac_workspace = '''', ac_book = ''b'', ac_logical = sample_record, ac_revision = sample_observation\<rparr>]\<rparr>"

definition sample_replacement :: decision_command where
  "sample_replacement = sample_command\<lparr>dc_action := REPLACE, dc_authority := Some sample_authority, dc_target := Some sample_target\<rparr>"

lemma sample_decision_id: "uuid_text sample_decision = Some sample_decision"
  unfolding sample_decision_def by code_simp

lemma sample_preview: "preview_replacement sample_settings 1 '''' ''b'' sample_target sample_authority sample_standing =
    (Inr \<lparr>rp_authority = sample_authority, rp_target = sample_target, rp_conflicts = [], rp_generation = 4\<rparr>, sample_standing)"
proof -
  let ?r = "sample_revision\<lparr>rv_id := sample_observation, rv_decision := sample_decision\<rparr>"
  let ?l = "\<lparr>lg_id = sample_record, lg_workspace = '''', lg_book = ''b'', lg_role = LEFT\<rparr>"
  have 1: "require_active_workspace sample_settings '''' 1 sample_standing = (Inr (), sample_standing)"
    by (simp add: require_active_workspace_def catch_def on_base_def locked_workspace_def workspace_of_def require_active_def
        evaluate_def as_utc_def valid_datetime_def datetime_max_def us_per_day_def op_simps sample_standing_def sample_ledger_def sample_defs)
  have 2: "locked_book '''' ''b'' sample_standing = (Inr \<lparr>bk_id = ''b'', bk_workspace = '''', bk_resolution_generation = 4\<rparr>, sample_standing)"
    by (simp add: sample_standing_def sample_ledger_def)
  have 3: "current_revision '''' ''b'' sample_target sample_standing = (Inr ?r, sample_standing)"
    by (simp add: current_revision_def parse_uuid_def sample_target_def sample_decision_id sample_ids superseded_def op_simps)
      (simp add: sample_standing_def sample_ledger_def sample_revision_def superseded_def op_simps)
  have 4: "resolve_authority '''' ''b'' sample_authority sample_standing = (Inr [?l], sample_standing)"
    by (simp add: resolve_authority_def sample_authority_def endpoint_ids_def parse_uuid_def sample_ids role_of_def op_simps)
      (auto simp: sample_standing_def sample_ledger_def)
  have 5: "claim_conflicts '''' ''b'' sample_authority (Some sample_decision) sample_standing = (Inr [], sample_standing)"
    by (simp add: claim_conflicts_def sample_authority_def endpoint_ids_def reserves_endpoints_def op_simps)
      (simp add: sample_standing_def sample_ledger_def decision_of_claim_def revision_of_def op_simps)
  show ?thesis
    by (simp add: preview_replacement_def sbind_run 1 2 3 4 5 lift_result_def replacement_preview_post_init_def nonnegative_int_def checks.simps)
qed

theorem previewed_replacement_is_current_witness:
  "\<forall>message affected. fst (commit_change sample_settings (\<lambda>_. ''digest'') 1 '''' ''b'' sample_replacement sample_standing) \<noteq>
     Inl (DecisionMutationConflict ''STALE_REVISION'' message affected)"
proof (intro allI notI)
  fix message affected
  assume "fst (commit_change sample_settings (\<lambda>_. ''digest'') 1 '''' ''b'' sample_replacement sample_standing) =
     Inl (DecisionMutationConflict ''STALE_REVISION'' message affected)"
  then have "commit_change sample_settings (\<lambda>_. ''digest'') 1 '''' ''b'' sample_replacement sample_standing =
     (Inl (DecisionMutationConflict ''STALE_REVISION'' message affected), snd (commit_change sample_settings (\<lambda>_. ''digest'') 1 '''' ''b''
        sample_replacement sample_standing))" by (simp add: prod_eq_iff)
  moreover have p: "dc_action sample_replacement = REPLACE" "dc_authority sample_replacement = Some sample_authority"
    "dc_target sample_replacement = Some sample_target" "dc_expected_generation sample_replacement = 4"
    "dc_approved_conflicts sample_replacement = []" by (simp_all add: sample_replacement_def sample_command_def)
  from previewed_replacement_is_current [OF sample_preview p(1-3), of "\<lambda>_. ''digest''"] p(4,5)
  have "\<forall>code message affected u. commit_change sample_settings (\<lambda>_. ''digest'') 1 '''' ''b'' sample_replacement sample_standing =
     (Inl (DecisionMutationConflict code message affected), u) \<longrightarrow> code = ''ENDPOINT_CLAIMED''" by (simp add: expected_conflicts_def)
  ultimately have "''STALE_REVISION'' = ''ENDPOINT_CLAIMED''" by blast
  then show False by simp
qed

end
