(* ===== verification/DecimalText.thy ===== *)
theory DecimalText
  imports PyDecimal Json Texts
begin

text \<open>
  \<open>Decimal(text)\<close>: the grammar of numeric strings of the \<open>decimal\<close> module, with the limits of its
  C implementation, and the round trip with \<open>str\<close>. \<open>None\<close> stands for \<open>InvalidOperation\<close>. Python
  also reads decimal digits of other scripts, which count as invalid here.
\<close>

datatype decimal_value = Finite dec | Infinite bool | NotANumber

section \<open>Digits\<close>

definition digit_value :: "char \<Rightarrow> nat" where
  "digit_value c = of_char c - 48"

definition digits_value :: "string \<Rightarrow> nat" where
  "digits_value s = fold (\<lambda>c n. 10 * n + digit_value c) s 0"

lemma digits_value_snoc: "digits_value (s @ [c]) = 10 * digits_value s + digit_value c"
  by (simp add: digits_value_def)

lemma digit_value_char: "n < 10 \<Longrightarrow> digit_value (digit_char n) = n"
  by (simp add: digit_value_def digit_char_def)

lemma digits_value_nat_text [simp]: "digits_value (nat_text n) = n"
proof (induction n rule: nat_text.induct)
  case (1 n)
  show ?case
  proof (cases "n < 10")
    case True
    then show ?thesis by (simp add: nat_text.simps [of n] digits_value_def digit_value_char)
  next
    case False
    with 1 show ?thesis by (simp add: nat_text.simps [of n] digits_value_snoc digit_value_char)
  qed
qed

lemma digits_value_zeros: "digits_value (replicate k (CHR ''0'') @ s) = digits_value s"
  by (induction k) (simp_all add: digits_value_def digit_value_def)

lemma length_nat_text: "length (nat_text n) = ndigits n"
  by (induction n rule: nat_text.induct) (simp add: nat_text.simps ndigits.simps)

section \<open>The constructor\<close>

definition signed_text :: "string \<Rightarrow> bool \<times> string" where
  "signed_text s = (case s of
      c # r \<Rightarrow> if c = CHR ''-'' then (True, r) else if c = CHR ''+'' then (False, r) else (False, s)
    | [] \<Rightarrow> (False, []))"

definition exponent_part :: "string \<Rightarrow> int option" where
  "exponent_part s = (case s of
      [] \<Rightarrow> Some 0
    | c # r \<Rightarrow> if c = CHR ''E'' \<or> c = CHR ''e''
        then (case signed_text r of (negative, ds) \<Rightarrow>
          if ds \<noteq> [] \<and> list_all is_digit ds
          then Some (if negative then - int (digits_value ds) else int (digits_value ds)) else None)
        else None)"

definition fraction_part :: "string \<Rightarrow> string \<times> string" where
  "fraction_part s = (case s of
      c # r \<Rightarrow> if c = CHR ''.'' then (takeWhile is_digit r, dropWhile is_digit r) else ([], s)
    | [] \<Rightarrow> ([], []))"

text \<open>\<open>Emax\<close> and \<open>Etiny\<close> of the widest context: what lies outside is no exact value.\<close>

definition decimal_exact :: "dec \<Rightarrow> bool" where
  "decimal_exact d \<longleftrightarrow> - 1999999999999999997 \<le> dexp d \<and>
     (if dcoef d = 0 then dexp d else dexp d + int (ndigits (dcoef d)) - 1) \<le> 999999999999999999"

definition special_value :: "bool \<Rightarrow> string \<Rightarrow> decimal_value option" where
  "special_value negative s =
     (let l = map ascii_lower s;
          payload = (if take 4 l = ''snan'' then Some (drop 4 l) else if take 3 l = ''nan'' then Some (drop 3 l) else None)
      in if l = ''inf'' \<or> l = ''infinity'' then Some (Infinite negative)
         else case payload of
             Some ds \<Rightarrow> if list_all is_digit ds then Some NotANumber else None
           | None \<Rightarrow> None)"

definition decimal_of_text :: "string \<Rightarrow> decimal_value option" where
  "decimal_of_text s =
     (case signed_text (filter (\<lambda>c. c \<noteq> CHR ''_'') (py_strip s)) of (negative, u) \<Rightarrow>
      let whole = takeWhile is_digit u in
      case fraction_part (dropWhile is_digit u) of (part, rest) \<Rightarrow>
      if whole @ part = [] then special_value negative u
      else case exponent_part rest of
          None \<Rightarrow> None
        | Some e \<Rightarrow>
            let d = Dec negative (digits_value (whole @ part)) (e - int (length part))
            in if decimal_exact d then Some (Finite d) else None)"

section \<open>The round trip\<close>

lemma digit_not_sign: "is_digit c \<Longrightarrow> c \<noteq> CHR ''-'' \<and> c \<noteq> CHR ''+'' \<and> c \<noteq> CHR ''.'' \<and> c \<noteq> CHR ''_''"
  by (auto simp: is_digit_code)

lemma digit_visible: "is_digit c \<Longrightarrow> visible c"
  by (auto simp: is_digit_code visible_def)

lemma nat_text_all_digits: "list_all is_digit (nat_text n)"
  using nat_text_digits by (simp add: list_all_iff)

lemma exponent_part_text:
  "exponent_part (''E'' @ (if 0 \<le> k then ''+'' else []) @ int_text k) = Some k"
proof (cases "0 \<le> k")
  case True
  with nat_text_all_digits [of "nat k"] show ?thesis
    by (simp add: exponent_part_def signed_text_def int_text_def)
next
  case False
  with nat_text_all_digits [of "nat (- k)"] show ?thesis
    by (simp add: exponent_part_def signed_text_def int_text_def)
qed

lemma span_digits:
  assumes "list_all is_digit w" and "s = [] \<or> \<not> is_digit (hd s)"
  shows "takeWhile is_digit (w @ s) = w \<and> dropWhile is_digit (w @ s) = s"
  using assms by (induction w) (cases s, auto)

text \<open>Reading an optional sign, digits, an optional fraction and an exponent.\<close>

lemma decimal_of_parts:
  assumes w: "list_all is_digit w" "w \<noteq> []" and p: "list_all is_digit p" and f: "f = (if p = [] then [] else ''.'' @ p)"
    and x: "x = [] \<or> hd x = CHR ''E''" "list_all (\<lambda>c. c \<noteq> CHR ''_'') x" "x = [] \<or> visible (last x)" "exponent_part x = Some e"
    and exact: "decimal_exact (Dec n (digits_value (w @ p)) (e - int (length p)))"
  shows "decimal_of_text ((if n then ''-'' else []) @ w @ f @ x) =
    Some (Finite (Dec n (digits_value (w @ p)) (e - int (length p))))"
proof -
  let ?s = "(if n then ''-'' else []) @ w @ f @ x"
  obtain c v where cv: "w = c # v" using w(2) by (cases w) auto
  have c: "is_digit c" "visible c" "c \<noteq> CHR ''-''" "c \<noteq> CHR ''+''"
    using w(1) digit_visible [of c] digit_not_sign [of c] by (simp_all add: cv)
  have ends: "visible (last t)" if "list_all is_digit t" "t \<noteq> []" for t
    using that digit_visible [of "last t"] by (simp add: list_all_iff)
  have minus: "visible (CHR ''-'')" by (simp add: visible_def)
  have "visible (hd ?s)" using c minus by (simp add: cv)
  moreover have "visible (last ?s)"
  proof (cases "x = []")
    case True
    show ?thesis by (cases "p = []") (use True f ends [OF w] ends [OF p] w(2) in \<open>simp_all add: last_append\<close>)
  next
    case False
    with x(3) show ?thesis by (simp add: last_append)
  qed
  ultimately have strip: "py_strip ?s = ?s" using w(2) by (intro strip_kept) simp_all
  have digits: "filter (\<lambda>c. c \<noteq> CHR ''_'') t = t" if "list_all is_digit t" for t
    using that digit_not_sign by (simp add: list_all_iff filter_id_conv)
  have keep: "filter (\<lambda>c. c \<noteq> CHR ''_'') ?s = ?s"
    using x(2) digits [OF w(1)] digits [OF p] by (simp add: f list_all_iff filter_id_conv)
  have sign: "signed_text ?s = (n, w @ f @ x)" using c by (simp add: signed_text_def cv)
  have dot: "\<not> is_digit (CHR ''.'')" "\<not> is_digit (CHR ''E'')" by (simp_all add: is_digit_code)
  have stop: "f @ x = [] \<or> \<not> is_digit (hd (f @ x))"
    using x(1) f dot by (cases "p = []") auto
  have xs: "x = [] \<or> \<not> is_digit (hd x)" using x(1) dot by auto
  have part: "fraction_part (f @ x) = (p, x)"
  proof (cases "p = []")
    case True
    with x(1) f show ?thesis by (cases x) (simp_all add: fraction_part_def)
  next
    case False
    with f span_digits [OF p xs] show ?thesis by (simp add: fraction_part_def)
  qed
  show ?thesis
    unfolding decimal_of_text_def strip keep sign
    using w(2) x(4) exact span_digits [OF w(1) stop] by (simp add: part Let_def)
qed

lemma decimal_text_roundtrip:
  assumes "decimal_exact d"
  shows "decimal_of_text (dec_text d) = Some (Finite d)"
proof (cases d)
  case (Dec n c e)
  let ?ds = "nat_text c"
  let ?N = "length ?ds"
  let ?left = "e + int ?N"
  have all: "list_all is_digit ?ds" by (rule nat_text_all_digits)
  have sub: "list_all is_digit (take k ?ds)" "list_all is_digit (drop k ?ds)" for k
    using all by (auto simp: list_all_iff dest: in_set_takeD in_set_dropD)
  have N: "0 < ?N" by simp
  have exact: "decimal_exact (Dec n c e)" using assms Dec by simp
  have read: "decimal_of_text (dec_text d) = Some (Finite d)"
    if shape: "dec_text d = (if n then ''-'' else []) @ w @ (if p = [] then [] else ''.'' @ p) @ x"
      and w: "list_all is_digit w" "w \<noteq> []" "list_all is_digit p" "digits_value (w @ p) = c" and e: "k - int (length p) = e"
      and x: "x = [] \<or> hd x = CHR ''E''" "list_all (\<lambda>c. c \<noteq> CHR ''_'') x" "x = [] \<or> visible (last x)" "exponent_part x = Some k"
    for w p x :: string and k :: int
    using decimal_of_parts [OF w(1-3) refl x, of n] exact by (simp add: shape w(4) e) (simp add: Dec)
  have none: "exponent_part [] = Some 0" by (simp add: exponent_part_def)
  show ?thesis
  proof (cases "e \<le> 0 \<and> - 6 < ?left")
    case plain: True
    consider "?left \<le> 0" | "0 < ?left" "int ?N \<le> ?left" | "0 < ?left" "?left < int ?N" by linarith
    then show ?thesis
    proof cases
      case 1
      let ?p = "replicate (nat (- ?left)) (CHR ''0'') @ ?ds"
      have t: "dec_text d = (if n then ''-'' else []) @ ''0'' @ (if ?p = [] then [] else ''.'' @ ?p) @ []"
        using plain 1 by (simp add: dec_text_def Dec sign_text_def Let_def)
      have v: "digits_value (''0'' @ ?p) = c"
        using digits_value_zeros [of "Suc (nat (- ?left))" ?ds] by simp
      have l: "0 - int (length ?p) = e" using 1 by simp
      have zeros: "list_all is_digit (replicate k (CHR ''0''))" for k by (induction k) (simp_all add: is_digit_code)
      have g: "list_all is_digit ''0''" "list_all is_digit ?p" using all zeros zeros [of 1] by simp_all
      show ?thesis by (rule read [OF t g(1) _ g(2) v l]) (simp_all add: none)
    next
      case 2
      with plain have "e = 0" by simp
      with 2 plain show ?thesis
        by (intro read [of ?ds "[]" "[]" 0]) (use none all in \<open>simp_all add: dec_text_def Dec sign_text_def Let_def\<close>)
    next
      case 3
      let ?k = "nat ?left"
      have k: "0 < ?k" "?k < ?N" using 3 by linarith+
      with 3 plain show ?thesis
        by (intro read [of "take ?k ?ds" "drop ?k ?ds" "[]" 0])
          (use none sub in \<open>simp_all add: dec_text_def Dec sign_text_def Let_def\<close>)
    qed
  next
    case sci: False
    let ?x = "''E'' @ (if 0 \<le> ?left - 1 then ''+'' else []) @ int_text (?left - 1)"
    have ne: "?left \<noteq> 1" using sci N by linarith
    have ds: "list_all (\<lambda>c. c \<noteq> CHR ''_'') (nat_text k)" "visible (last (nat_text k))" for k
      using nat_text_all_digits [of k] digit_not_sign digit_visible by (auto simp: list_all_iff)
    have xs: "list_all (\<lambda>c. c \<noteq> CHR ''_'') ?x" "?x = [] \<or> visible (last ?x)"
      using ds by (simp_all add: int_text_def last_append)
    show ?thesis
    proof (cases "?N = 1")
      case True
      with sci ne show ?thesis
        by (intro read [of ?ds "[]" ?x "?left - 1"])
          (use exponent_part_text xs all in \<open>simp_all add: dec_text_def Dec sign_text_def Let_def\<close>)
    next
      case False
      with N have k: "1 < ?N" by linarith
      have t: "dec_text d = (if n then ''-'' else []) @ take 1 ?ds @ (if drop 1 ?ds = [] then [] else ''.'' @ drop 1 ?ds) @ ?x"
        unfolding dec_text_def Let_def Dec dec.sel if_not_P [OF sci] using ne k by (simp add: sign_text_def)
      have v: "take 1 ?ds \<noteq> []" "digits_value (take 1 ?ds @ drop 1 ?ds) = c" "?left - 1 - int (length (drop 1 ?ds)) = e"
        using k by simp_all
      show ?thesis by (rule read [OF t sub(1) v(1) sub(2) v(2,3) _ xs exponent_part_text]) simp
    qed
  qed
qed

end
