(* ===== verification/Policies.thy ===== *)
theory Policies
  imports Contracts DecimalText Effects Uuids
begin

text \<open>
  The adapters between persisted policies and domain policies (\<open>reconciliation/policies.py\<close>): a
  policy as a JSON object and back. Payload values are JSON values without floating point numbers;
  the members of an object have distinct names. \<open>repr\<close> of an array or an object, which \<open>str\<close>
  falls back to on malformed payloads, is a parameter.
\<close>

section \<open>Python operations on payload values\<close>

text \<open>\<open>payload[name]\<close>\<close>

definition member :: "json \<Rightarrow> string \<Rightarrow> json result" where
  "member j name = (case j of
      JObject ms \<Rightarrow> (case map_of ms name of None \<Rightarrow> Inl KeyError | Some v \<Rightarrow> Inr v)
    | _ \<Rightarrow> Inl TypeError)"

definition str_of :: "(json \<Rightarrow> string) \<Rightarrow> json \<Rightarrow> string" where
  "str_of repr j = (case j of
      JText s \<Rightarrow> s
    | JInt i \<Rightarrow> int_text i
    | JBool b \<Rightarrow> if b then ''True'' else ''False''
    | JNull \<Rightarrow> ''None''
    | _ \<Rightarrow> repr j)"

text \<open>The digits of \<open>int(text)\<close>: single underscores may stand between them.\<close>

fun grouped_digits :: "bool \<Rightarrow> string \<Rightarrow> string option" where
  "grouped_digits after_digit [] = (if after_digit then Some [] else None)"
| "grouped_digits after_digit (c # s) =
     (if is_digit c then map_option (Cons c) (grouped_digits True s)
      else if c = CHR ''_'' \<and> after_digit then grouped_digits False s
      else None)"

definition int_of_text :: "string \<Rightarrow> int option" where
  "int_of_text s = (case signed_text (py_strip s) of (negative, t) \<Rightarrow>
     map_option (\<lambda>ds. if negative then - int (digits_value ds) else int (digits_value ds)) (grouped_digits False t))"

definition int_of_value :: "json \<Rightarrow> int result" where
  "int_of_value j = (case j of
      JInt i \<Rightarrow> Inr i
    | JBool b \<Rightarrow> Inr (of_bool b)
    | JText s \<Rightarrow> (case int_of_text s of None \<Rightarrow> Inl ValueError | Some i \<Rightarrow> Inr i)
    | _ \<Rightarrow> Inl TypeError)"

definition truth :: "json \<Rightarrow> bool" where
  "truth j = (case j of
      JNull \<Rightarrow> False | JBool b \<Rightarrow> b | JInt i \<Rightarrow> i \<noteq> 0 | JText s \<Rightarrow> s \<noteq> []
    | JArray js \<Rightarrow> js \<noteq> [] | JObject ms \<Rightarrow> ms \<noteq> [])"

text \<open>The values a loop over a payload value visits; a text yields its characters.\<close>

definition elements :: "json \<Rightarrow> json list result" where
  "elements j = (case j of
      JArray js \<Rightarrow> Inr js
    | JObject ms \<Rightarrow> Inr (map (\<lambda>m. JText (fst m)) ms)
    | JText s \<Rightarrow> Inr (map (\<lambda>c. JText [c]) s)
    | _ \<Rightarrow> Inl TypeError)"

definition pair_of :: "json \<Rightarrow> (json \<times> json) result" where
  "pair_of j = rbind (elements j) (\<lambda>xs. case xs of [a, b] \<Rightarrow> Inr (a, b) | _ \<Rightarrow> Inl ValueError)"

text \<open>\<open>Enum(value)\<close> looks a member up by its value.\<close>

definition enum_of :: "('a \<Rightarrow> string) \<Rightarrow> 'a list \<Rightarrow> json \<Rightarrow> 'a result" where
  "enum_of name members j = (case find (\<lambda>x. j = JText (name x)) members of None \<Rightarrow> Inl ValueError | Some x \<Rightarrow> Inr x)"

definition decimal_of :: "string \<Rightarrow> decimal_value result" where
  "decimal_of s = (case decimal_of_text s of None \<Rightarrow> Inl InvalidOperation | Some v \<Rightarrow> Inr v)"

text \<open>\<open>_finite_decimal(value, name, nonnegative=True)\<close>\<close>

definition nonnegative_decimal :: "decimal_value \<Rightarrow> string \<Rightarrow> dec result" where
  "nonnegative_decimal v name = (case v of
      Finite d \<Rightarrow> checks [finite_decimal d name] d
    | _ \<Rightarrow> Inl (DomainValidationError (name @ '' must be a finite Decimal'')))"

section \<open>Durations and decimals\<close>

definition duration_microseconds :: "timedelta option \<Rightarrow> json" where
  "duration_microseconds v = (case v of
      None \<Rightarrow> JNull
    | Some d \<Rightarrow> JInt (d div us_per_day * 86400000000 + d mod us_per_day div us_per_second * 1000000 + d mod us_per_second))"

definition valid_timedelta :: "timedelta \<Rightarrow> bool" where
  "valid_timedelta d \<longleftrightarrow> - 999999999 * us_per_day \<le> d \<and> d \<le> timedelta_max"

definition microseconds_duration :: "json \<Rightarrow> timedelta option result" where
  "microseconds_duration v = (if v = JNull then Inr None
     else rbind (int_of_value v) (\<lambda>i. if valid_timedelta i then Inr (Some i) else Inl OverflowError))"

definition numeric_payload :: "numeric_similarity \<Rightarrow> json" where
  "numeric_payload p = JObject [(''absolute_band'', JText (dec_text (ns_absolute_band p))),
     (''relative_band'', JText (dec_text (ns_relative_band p)))]"

definition numeric_from_payload :: "(json \<Rightarrow> string) \<Rightarrow> json \<Rightarrow> numeric_similarity result" where
  "numeric_from_payload repr j =
     rbind (member j ''absolute_band'') (\<lambda>a. rbind (decimal_of (str_of repr a))
     (\<lambda>x. rbind (member j ''relative_band'') (\<lambda>r. rbind (decimal_of (str_of repr r))
     (\<lambda>y. rbind (nonnegative_decimal x ''absolute_band'')
     (\<lambda>absolute. rbind (nonnegative_decimal y ''relative_band'')
     (\<lambda>relative. numeric_similarity_post_init \<lparr>ns_absolute_band = absolute, ns_relative_band = relative\<rparr>))))))"

definition tolerance_payload :: "decimal_tolerance \<Rightarrow> json" where
  "tolerance_payload t = JObject [(''absolute'', JText (dec_text (dt_absolute t))), (''relative'', JText (dec_text (dt_relative t)))]"

definition tolerance_from_payload :: "(json \<Rightarrow> string) \<Rightarrow> json \<Rightarrow> decimal_tolerance result" where
  "tolerance_from_payload repr j =
     rbind (member j ''absolute'') (\<lambda>a. rbind (decimal_of (str_of repr a))
     (\<lambda>x. rbind (member j ''relative'') (\<lambda>r. rbind (decimal_of (str_of repr r))
     (\<lambda>y. rbind (nonnegative_decimal x ''decimal tolerance absolute'')
     (\<lambda>absolute. rbind (nonnegative_decimal y ''decimal tolerance relative'')
     (\<lambda>relative. decimal_tolerance_post_init \<lparr>dt_absolute = absolute, dt_relative = relative\<rparr>))))))"

section \<open>Matching policies\<close>

definition pass_payload :: "blocking_pass \<Rightarrow> json" where
  "pass_payload p = JObject
     [(''pass_id'', JText (bp_pass_id p)), (''version'', JText (bp_version p)),
      (''time_window_microseconds'', duration_microseconds (bp_time_window p)),
      (''require_instrument'', JBool (bp_require_instrument p)), (''require_side'', JBool (bp_require_side p)),
      (''require_currency'', JBool (bp_require_currency p)), (''use_shared_alias'', JBool (bp_use_shared_alias p))]"

definition pass_from_payload :: "(json \<Rightarrow> string) \<Rightarrow> json \<Rightarrow> blocking_pass result" where
  "pass_from_payload repr j =
     rbind (member j ''pass_id'') (\<lambda>pass_id. rbind (member j ''version'')
     (\<lambda>version. rbind (member j ''time_window_microseconds'') (\<lambda>window. rbind (microseconds_duration window)
     (\<lambda>time_window. rbind (member j ''require_instrument'')
     (\<lambda>instrument. rbind (member j ''require_side'')
     (\<lambda>side. rbind (member j ''require_currency'')
     (\<lambda>currency. rbind (member j ''use_shared_alias'')
     (\<lambda>alias. blocking_pass_post_init
        \<lparr>bp_pass_id = str_of repr pass_id, bp_version = str_of repr version, bp_time_window = time_window,
         bp_require_instrument = truth instrument, bp_require_side = truth side,
         bp_require_currency = truth currency, bp_use_shared_alias = truth alias\<rparr>))))))))"

definition weight_payload :: "feature_weight \<Rightarrow> json" where
  "weight_payload w = JObject [(''feature'', JText (feature_value (fw_feature w))), (''weight_bp'', JInt (fw_weight_bp w))]"

definition weight_from_payload :: "json \<Rightarrow> feature_weight result" where
  "weight_from_payload j =
     rbind (member j ''feature'') (\<lambda>f. rbind (enum_of feature_value all_features f)
     (\<lambda>feature. rbind (member j ''weight_bp'') (\<lambda>w. rbind (int_of_value w)
     (\<lambda>weight. feature_weight_post_init \<lparr>fw_feature = feature, fw_weight_bp = weight\<rparr>))))"

definition limits_payload :: "capacity_limits \<Rightarrow> json" where
  "limits_payload l = JObject
     [(''max_component_nodes'', JInt (cl_max_component_nodes l)), (''max_component_edges'', JInt (cl_max_component_edges l)),
      (''max_run_candidate_edges'', JInt (cl_max_run_candidate_edges l)),
      (''max_candidates_per_record'', JInt (cl_max_candidates_per_record l))]"

definition limit_names :: "string list" where
  "limit_names = [''max_component_nodes'', ''max_component_edges'', ''max_run_candidate_edges'', ''max_candidates_per_record'']"

text \<open>\<open>CapacityLimits(**values)\<close>: absent names take their defaults, unknown ones are refused.\<close>

definition limits_from_payload :: "json \<Rightarrow> capacity_limits result" where
  "limits_from_payload j = (case j of
      JObject ms \<Rightarrow> rbind (rmap (\<lambda>m. rbind (int_of_value (snd m)) (\<lambda>i. Inr (fst m, i))) ms)
        (\<lambda>vs. let value = (\<lambda>name d. case map_of vs name of None \<Rightarrow> d default_limits | Some i \<Rightarrow> i)
          in if \<not> set (map fst vs) \<subseteq> set limit_names then Inl TypeError
             else capacity_limits_post_init
               \<lparr>cl_max_component_nodes = value ''max_component_nodes'' cl_max_component_nodes,
                cl_max_component_edges = value ''max_component_edges'' cl_max_component_edges,
                cl_max_run_candidate_edges = value ''max_run_candidate_edges'' cl_max_run_candidate_edges,
                cl_max_candidates_per_record = value ''max_candidates_per_record'' cl_max_candidates_per_record\<rparr>)
    | _ \<Rightarrow> Inl AttributeError)"

primrec contract_value :: "reference_contract \<Rightarrow> string" where
  "contract_value SHARED_MUST_AGREE = ''SHARED_MUST_AGREE''"
| "contract_value SOURCE_LOCAL_OR_ALIAS = ''SOURCE_LOCAL_OR_ALIAS''"

definition all_contracts :: "reference_contract list" where
  "all_contracts = [SHARED_MUST_AGREE, SOURCE_LOCAL_OR_ALIAS]"

definition matching_policy_to_payload :: "matching_policy \<Rightarrow> json" where
  "matching_policy_to_payload p = JObject
     [(''policy_version'', JText (mp_policy_version p)),
      (''engine_version'', JText (mp_engine_version p)),
      (''solver_version'', JText (mp_solver_version p)),
      (''reference_contract'', JText (contract_value (mp_reference_contract p))),
      (''blocking_passes'', JArray (map pass_payload (mp_blocking_passes p))),
      (''feature_weights'', JArray (map weight_payload (mp_feature_weights p))),
      (''quantity_similarity'', numeric_payload (mp_quantity_similarity p)),
      (''timestamp_similarity'', JObject [(''band_microseconds'', duration_microseconds (Some (ts_band (mp_timestamp_similarity p))))]),
      (''unit_price_similarity'', numeric_payload (mp_unit_price_similarity p)),
      (''gross_amount_similarity'', numeric_payload (mp_gross_amount_similarity p)),
      (''assignment_floor_bp'', JInt (mp_assignment_floor_bp p)),
      (''automatic_threshold_bp'', JInt (mp_automatic_threshold_bp p)),
      (''minimum_global_gap_bp'', JInt (mp_minimum_global_gap_bp p)),
      (''limits'', limits_payload (mp_limits p))]"

definition band_from_payload :: "json \<Rightarrow> timestamp_similarity result" where
  "band_from_payload j =
     rbind (member j ''band_microseconds'') (\<lambda>v. rbind (microseconds_duration v)
     (\<lambda>band. case band of
         None \<Rightarrow> Inl (DomainValidationError ''timestamp similarity band must be nonnegative'')
       | Some b \<Rightarrow> timestamp_similarity_post_init \<lparr>ts_band = b\<rparr>))"

definition int_member :: "json \<Rightarrow> string \<Rightarrow> int result" where
  "int_member j name = rbind (member j name) int_of_value"

definition array_member :: "(json \<Rightarrow> 'a result) \<Rightarrow> json \<Rightarrow> string \<Rightarrow> 'a list result" where
  "array_member f j name = rbind (member j name) (\<lambda>v. rbind (elements v) (rmap f))"

definition matching_policy_from_payload :: "(json \<Rightarrow> string) \<Rightarrow> json \<Rightarrow> matching_policy result" where
  "matching_policy_from_payload repr j =
     rbind (member j ''policy_version'') (\<lambda>policy_version. rbind (member j ''engine_version'')
     (\<lambda>engine_version. rbind (member j ''solver_version'')
     (\<lambda>solver_version. rbind (rbind (member j ''reference_contract'') (enum_of contract_value all_contracts))
     (\<lambda>contract. rbind (array_member (pass_from_payload repr) j ''blocking_passes'')
     (\<lambda>passes. rbind (array_member weight_from_payload j ''feature_weights'')
     (\<lambda>weights. rbind (rbind (member j ''quantity_similarity'') (numeric_from_payload repr))
     (\<lambda>quantity. rbind (rbind (member j ''timestamp_similarity'') band_from_payload)
     (\<lambda>timestamp. rbind (rbind (member j ''unit_price_similarity'') (numeric_from_payload repr))
     (\<lambda>unit_price. rbind (rbind (member j ''gross_amount_similarity'') (numeric_from_payload repr))
     (\<lambda>gross_amount. rbind (int_member j ''assignment_floor_bp'')
     (\<lambda>floor_bp. rbind (int_member j ''automatic_threshold_bp'')
     (\<lambda>threshold_bp. rbind (int_member j ''minimum_global_gap_bp'')
     (\<lambda>gap_bp. rbind (rbind (member j ''limits'') limits_from_payload)
     (\<lambda>limits. matching_policy_post_init
        \<lparr>mp_policy_version = str_of repr policy_version, mp_engine_version = str_of repr engine_version,
         mp_solver_version = str_of repr solver_version, mp_reference_contract = contract,
         mp_blocking_passes = passes, mp_feature_weights = weights, mp_quantity_similarity = quantity,
         mp_timestamp_similarity = timestamp, mp_unit_price_similarity = unit_price,
         mp_gross_amount_similarity = gross_amount, mp_assignment_floor_bp = floor_bp,
         mp_automatic_threshold_bp = threshold_bp, mp_minimum_global_gap_bp = gap_bp, mp_limits = limits\<rparr>))))))))))))))"

section \<open>Comparison policies\<close>

definition all_states :: "canonical_state list" where
  "all_states = [SETTLED, CANCELLED]"

definition comparison_policy_to_payload :: "comparison_policy \<Rightarrow> json" where
  "comparison_policy_to_payload p = JObject
     [(''policy_version'', JText (cp_policy_version p)),
      (''timestamp_tolerance_microseconds'', duration_microseconds (Some (cp_timestamp_tolerance p))),
      (''quantity_tolerance'', tolerance_payload (cp_quantity_tolerance p)),
      (''unit_price_tolerance'', tolerance_payload (cp_unit_price_tolerance p)),
      (''gross_amount_tolerance'', tolerance_payload (cp_gross_amount_tolerance p)),
      (''compatible_state_pairs'', JArray (map (\<lambda>x. JArray [JText (state_value (fst x)), JText (state_value (snd x))])
         (cp_compatible_state_pairs p)))]"

definition state_pair_of :: "json \<Rightarrow> (canonical_state \<times> canonical_state) result" where
  "state_pair_of j = rbind (pair_of j) (\<lambda>x. rbind (enum_of state_value all_states (fst x))
     (\<lambda>left. rbind (enum_of state_value all_states (snd x)) (\<lambda>right. Inr (left, right))))"

definition state_pairs_of :: "json \<Rightarrow> (canonical_state \<times> canonical_state) list result" where
  "state_pairs_of j = (case j of
      JObject ms \<Rightarrow> (case map_of ms ''compatible_state_pairs'' of
          None \<Rightarrow> Inr []
        | Some v \<Rightarrow> rbind (elements v) (rmap state_pair_of))
    | _ \<Rightarrow> Inl AttributeError)"

definition comparison_policy_from_payload :: "(json \<Rightarrow> string) \<Rightarrow> json \<Rightarrow> comparison_policy result" where
  "comparison_policy_from_payload repr j =
     rbind (member j ''policy_version'') (\<lambda>policy_version.
     rbind (rbind (member j ''timestamp_tolerance_microseconds'') microseconds_duration)
     (\<lambda>tolerance. rbind (rbind (member j ''quantity_tolerance'') (tolerance_from_payload repr))
     (\<lambda>quantity. rbind (rbind (member j ''unit_price_tolerance'') (tolerance_from_payload repr))
     (\<lambda>unit_price. rbind (rbind (member j ''gross_amount_tolerance'') (tolerance_from_payload repr))
     (\<lambda>gross_amount. rbind (state_pairs_of j)
     (\<lambda>pairs. case tolerance of
         None \<Rightarrow> rbind (checks [required_text (str_of repr policy_version) ''comparison policy_version''] ())
             (\<lambda>_. Inl (DomainValidationError ''timestamp_tolerance must be nonnegative''))
       | Some t \<Rightarrow> comparison_policy_post_init
           \<lparr>cp_policy_version = str_of repr policy_version, cp_timestamp_tolerance = t, cp_quantity_tolerance = quantity,
            cp_unit_price_tolerance = unit_price, cp_gross_amount_tolerance = gross_amount,
            cp_compatible_state_pairs = pairs\<rparr>))))))"

end
