(* ===== verification/PolicyClaims.thy ===== *)
theory PolicyClaims
  imports Policies Scoring ComparisonFacts ScoringFacts
begin

text \<open>
  Persisted policies are read back unchanged: a decimal survives \<open>str\<close> and \<open>Decimal\<close>, a duration
  its number of microseconds, an enumeration its value, and the constructors accept what they
  once constructed.
\<close>

section \<open>Values\<close>

lemma member_simps [simp]:
  "member (JObject ((k, v) # ms)) name = (if k = name then Inr v else member (JObject ms) name)"
  by (simp add: member_def)

lemma duration_roundtrip [simp]:
  "(case v of None \<Rightarrow> True | Some d \<Rightarrow> valid_timedelta d) \<Longrightarrow> microseconds_duration (duration_microseconds v) = Inr v"
proof (cases v)
  case (Some d)
  assume "case v of None \<Rightarrow> True | Some d \<Rightarrow> valid_timedelta d"
  moreover have "d mod us_per_day div us_per_second * 1000000 + d mod us_per_second = d mod us_per_day"
    using div_mult_mod_eq [of "d mod us_per_day" us_per_second] mod_mod_cancel [of us_per_second us_per_day d]
    unfolding us_per_day_def us_per_second_def by (simp only: dvd_numeral_simp numeral_mod_numeral) (simp; linarith)
  then have "d div us_per_day * 86400000000 + d mod us_per_day div us_per_second * 1000000 + d mod us_per_second = d"
    using div_mult_mod_eq [of d us_per_day] by (simp add: us_per_day_def [THEN arg_cong, of "\<lambda>k. d div us_per_day * k"] add.assoc)
  ultimately show ?thesis by (simp add: Some duration_microseconds_def microseconds_duration_def int_of_value_def)
qed (simp add: duration_microseconds_def microseconds_duration_def)

lemma decimal_roundtrip [simp]: "decimal_exact d \<Longrightarrow> decimal_of (str_of repr (JText (dec_text d))) = Inr (Finite d)"
  by (simp add: decimal_of_def str_of_def decimal_text_roundtrip)

lemma nonnegative_decimal_Finite: "nonnegative_decimal (Finite d) name = Inr d \<longleftrightarrow> \<not> dval d < 0"
  by (simp add: nonnegative_decimal_def checks_Inr_iff)

lemma numeric_roundtrip:
  assumes "numeric_similarity_post_init p = Inr p" and "decimal_exact (ns_absolute_band p)" "decimal_exact (ns_relative_band p)"
  shows "numeric_from_payload repr (numeric_payload p) = Inr p"
proof -
  from assms(1) have "nonnegative_decimal (Finite (ns_absolute_band p)) ''absolute_band'' = Inr (ns_absolute_band p)"
    "nonnegative_decimal (Finite (ns_relative_band p)) ''relative_band'' = Inr (ns_relative_band p)"
    by (simp_all add: nonnegative_decimal_Finite numeric_similarity_post_init_def checks_Inr_iff)
  with assms show ?thesis by (cases p) (simp add: numeric_from_payload_def numeric_payload_def)
qed

lemma tolerance_roundtrip:
  assumes "decimal_tolerance_post_init t = Inr t" and "decimal_exact (dt_absolute t)" "decimal_exact (dt_relative t)"
  shows "tolerance_from_payload repr (tolerance_payload t) = Inr t"
proof -
  from assms(1) have "nonnegative_decimal (Finite (dt_absolute t)) ''decimal tolerance absolute'' = Inr (dt_absolute t)"
    "nonnegative_decimal (Finite (dt_relative t)) ''decimal tolerance relative'' = Inr (dt_relative t)"
    by (simp_all add: nonnegative_decimal_Finite decimal_tolerance_post_init_def checks_Inr_iff)
  with assms show ?thesis by (cases t) (simp add: tolerance_from_payload_def tolerance_payload_def)
qed

lemma enum_roundtrip [simp]: "x \<in> set xs \<Longrightarrow> inj_on f (set xs) \<Longrightarrow> enum_of f xs (JText (f x)) = Inr x"
proof -
  assume x: "x \<in> set xs" and inj: "inj_on f (set xs)"
  then have "find (\<lambda>y. JText (f x) = JText (f y)) xs = Some x"
  proof (induction xs)
    case (Cons a xs)
    show ?case
    proof (cases "f x = f a")
      case True
      with Cons.prems have "x = a" by (meson inj_onD list.set_intros(1))
      then show ?thesis by simp
    next
      case False
      with Cons.prems have "x \<in> set xs" "inj_on f (set xs)" by (auto intro: inj_on_subset)
      with False Cons.IH show ?thesis by simp
    qed
  qed simp
  then show ?thesis by (simp add: enum_of_def)
qed

lemma rmap_roundtrip: "(\<And>x. x \<in> set xs \<Longrightarrow> f (g x) = Inr x) \<Longrightarrow> rmap f (map g xs) = Inr xs"
  by (induction xs) simp_all

lemma array_roundtrip:
  "(\<And>x. x \<in> set xs \<Longrightarrow> f (g x) = Inr x) \<Longrightarrow> member j name = Inr (JArray (map g xs)) \<Longrightarrow> array_member f j name = Inr xs"
  by (simp add: array_member_def elements_def rmap_roundtrip)

section \<open>Parts of a policy\<close>

lemma pass_roundtrip:
  assumes "blocking_pass_post_init p = Inr p" and "case bp_time_window p of None \<Rightarrow> True | Some d \<Rightarrow> valid_timedelta d"
  shows "pass_from_payload repr (pass_payload p) = Inr p"
  using assms by (cases p) (simp add: pass_from_payload_def pass_payload_def str_of_def truth_def)

lemma features: "f \<in> set all_features" "inj_on feature_value (set all_features)"
  by (cases f) (auto simp: all_features_def inj_on_def)

lemma weight_roundtrip: "feature_weight_post_init w = Inr w \<Longrightarrow> weight_from_payload (weight_payload w) = Inr w"
  by (cases w) (simp add: weight_from_payload_def weight_payload_def features int_of_value_def)

lemma limits_roundtrip: "capacity_limits_post_init l = Inr l \<Longrightarrow> limits_from_payload (limits_payload l) = Inr l"
  by (cases l) (simp add: limits_from_payload_def limits_payload_def int_of_value_def limit_names_def)

lemma contracts: "c \<in> set all_contracts" "inj_on contract_value (set all_contracts)"
  by (cases c) (auto simp: all_contracts_def inj_on_def)

lemma states: "s \<in> set all_states" "inj_on state_value (set all_states)"
  by (cases s) (auto simp: all_states_def inj_on_def)

lemma state_pair_roundtrip: "state_pair_of (JArray [JText (state_value (fst x)), JText (state_value (snd x))]) = Inr x"
  by (simp add: state_pair_of_def pair_of_def elements_def states)

section \<open>Claim\<close>

text \<open>Decimals and durations within the limits of their Python types.\<close>

definition storable_numeric :: "numeric_similarity \<Rightarrow> bool" where
  "storable_numeric p \<longleftrightarrow> decimal_exact (ns_absolute_band p) \<and> decimal_exact (ns_relative_band p)"

definition storable_tolerance :: "decimal_tolerance \<Rightarrow> bool" where
  "storable_tolerance t \<longleftrightarrow> decimal_exact (dt_absolute t) \<and> decimal_exact (dt_relative t)"

text \<open>Constructed policies: every part is a fixed point of its constructor.\<close>

definition storable_matching :: "matching_policy \<Rightarrow> bool" where
  "storable_matching p \<longleftrightarrow> valid_policy p \<and>
     (\<forall>x \<in> set (mp_blocking_passes p). case bp_time_window x of None \<Rightarrow> True | Some d \<Rightarrow> valid_timedelta d) \<and>
     valid_timedelta (ts_band (mp_timestamp_similarity p)) \<and> storable_numeric (mp_quantity_similarity p) \<and>
     storable_numeric (mp_unit_price_similarity p) \<and> storable_numeric (mp_gross_amount_similarity p)"

definition storable_comparison :: "comparison_policy \<Rightarrow> bool" where
  "storable_comparison p \<longleftrightarrow> valid_comparison p \<and> valid_timedelta (cp_timestamp_tolerance p) \<and>
     storable_tolerance (cp_quantity_tolerance p) \<and> storable_tolerance (cp_unit_price_tolerance p) \<and>
     storable_tolerance (cp_gross_amount_tolerance p)"

lemma matching_eta:
  "\<lparr>mp_policy_version = mp_policy_version p, mp_engine_version = mp_engine_version p, mp_solver_version = mp_solver_version p,
    mp_reference_contract = mp_reference_contract p, mp_blocking_passes = mp_blocking_passes p,
    mp_feature_weights = mp_feature_weights p, mp_quantity_similarity = mp_quantity_similarity p,
    mp_timestamp_similarity = mp_timestamp_similarity p, mp_unit_price_similarity = mp_unit_price_similarity p,
    mp_gross_amount_similarity = mp_gross_amount_similarity p, mp_assignment_floor_bp = mp_assignment_floor_bp p,
    mp_automatic_threshold_bp = mp_automatic_threshold_bp p, mp_minimum_global_gap_bp = mp_minimum_global_gap_bp p,
    mp_limits = mp_limits p\<rparr> = p"
  by simp

lemma comparison_eta:
  "\<lparr>cp_policy_version = cp_policy_version q, cp_timestamp_tolerance = cp_timestamp_tolerance q,
    cp_quantity_tolerance = cp_quantity_tolerance q, cp_unit_price_tolerance = cp_unit_price_tolerance q,
    cp_gross_amount_tolerance = cp_gross_amount_tolerance q, cp_compatible_state_pairs = cp_compatible_state_pairs q\<rparr> = q"
  by simp

text \<open>C20. Round trip: a constructed matching policy and a constructed comparison policy, written to their
  payloads and read back, are the same policies to the last digit of every decimal; reading never
  depends on how Python prints containers.\<close>

theorem policies_roundtrip:
  assumes "storable_matching p" and "storable_comparison q"
  shows "matching_policy_from_payload repr (matching_policy_to_payload p) = Inr p \<and>
    comparison_policy_from_payload repr (comparison_policy_to_payload q) = Inr q"
proof
  note p = assms(1) [unfolded storable_matching_def valid_policy_def list_all_iff storable_numeric_def]
  note q = assms(2) [unfolded storable_comparison_def valid_comparison_def valid_tolerance_def storable_tolerance_def]
  have band: "band_from_payload (JObject [(''band_microseconds'', duration_microseconds (Some (ts_band (mp_timestamp_similarity p))))]) =
      Inr (mp_timestamp_similarity p)"
    using p by (cases "mp_timestamp_similarity p") (simp add: band_from_payload_def)
  have passes: "array_member (pass_from_payload repr) (matching_policy_to_payload p) ''blocking_passes'' = Inr (mp_blocking_passes p)"
    by (rule array_roundtrip [where g = pass_payload]) (use p in \<open>simp_all add: matching_policy_to_payload_def pass_roundtrip\<close>)
  have weights: "array_member weight_from_payload (matching_policy_to_payload p) ''feature_weights'' = Inr (mp_feature_weights p)"
    by (rule array_roundtrip [where g = weight_payload]) (use p in \<open>simp_all add: matching_policy_to_payload_def weight_roundtrip\<close>)
  show "matching_policy_from_payload repr (matching_policy_to_payload p) = Inr p"
    using p unfolding matching_policy_from_payload_def passes weights
    by (simp add: matching_policy_to_payload_def matching_eta band numeric_roundtrip contracts int_member_def int_of_value_def
        limits_roundtrip str_of_def)
  have pairs: "state_pairs_of (comparison_policy_to_payload q) = Inr (cp_compatible_state_pairs q)"
    by (simp add: state_pairs_of_def comparison_policy_to_payload_def elements_def rmap_roundtrip state_pair_roundtrip)
  show "comparison_policy_from_payload repr (comparison_policy_to_payload q) = Inr q"
    using q unfolding comparison_policy_from_payload_def pairs
    by (simp add: comparison_policy_to_payload_def comparison_eta tolerance_roundtrip str_of_def)
qed

lemma demo_exact: "decimal_exact (Dec False c e)" if "c < 10" "- 100 \<le> e" "e \<le> 0"
  using that by (simp add: decimal_exact_def ndigits.simps)

theorem policies_roundtrip_witness:
  "matching_policy_from_payload (\<lambda>_. []) (matching_policy_to_payload demo_policy) = Inr demo_policy"
proof -
  have "storable_matching demo_policy"
    using demo_policy_valid by (simp add: storable_matching_def storable_numeric_def demo_policy_eval demo_exact valid_timedelta_def
        timedelta_max_def us_per_day_def)
  moreover have "storable_comparison demo_comparison_policy"
    using demo_comparison_valid
    by (simp add: storable_comparison_def storable_tolerance_def demo_comparison_policy_def demo_exact valid_timedelta_def
        timedelta_max_def us_per_day_def)
  ultimately show ?thesis using policies_roundtrip [of demo_policy demo_comparison_policy "\<lambda>_. []"] by blast
qed

end
