(* ===== verification/Ingestion.thy ===== *)
theory Ingestion
  imports Canonical DecimalText Effects
begin

text \<open>
  Source contracts and the interpretation of raw cells (\<open>reconciliation/domain/ingestion.py\<close>). The
  time zone database and the readers of timestamps (\<open>datetime.fromisoformat\<close>, \<open>strptime\<close>) are
  parameters; a cell is interpreted into a value or into the issue the code raises for it.
\<close>

section \<open>Enumerations\<close>

datatype row_error_code =
    MISSING_COLUMN | DUPLICATE_HEADER | UNEXPECTED_COLUMN | MISSING_FIELD | NULL_REQUIRED | EMPTY_REQUIRED
  | UNKNOWN_ENUM | INVALID_DECIMAL | NON_FINITE_DECIMAL | UNSUPPORTED_PRECISION | INVALID_DATETIME
  | MISSING_TIMEZONE | AMBIGUOUS_DATETIME | NONEXISTENT_DATETIME | DUPLICATE_SOURCE_KEY | INVALID_OPERATION

primrec error_code_value :: "row_error_code \<Rightarrow> string" where
  "error_code_value MISSING_COLUMN = ''MISSING_COLUMN''"
| "error_code_value DUPLICATE_HEADER = ''DUPLICATE_HEADER''"
| "error_code_value UNEXPECTED_COLUMN = ''UNEXPECTED_COLUMN''"
| "error_code_value MISSING_FIELD = ''MISSING_FIELD''"
| "error_code_value NULL_REQUIRED = ''NULL_REQUIRED''"
| "error_code_value EMPTY_REQUIRED = ''EMPTY_REQUIRED''"
| "error_code_value UNKNOWN_ENUM = ''UNKNOWN_ENUM''"
| "error_code_value INVALID_DECIMAL = ''INVALID_DECIMAL''"
| "error_code_value NON_FINITE_DECIMAL = ''NON_FINITE_DECIMAL''"
| "error_code_value UNSUPPORTED_PRECISION = ''UNSUPPORTED_PRECISION''"
| "error_code_value INVALID_DATETIME = ''INVALID_DATETIME''"
| "error_code_value MISSING_TIMEZONE = ''MISSING_TIMEZONE''"
| "error_code_value AMBIGUOUS_DATETIME = ''AMBIGUOUS_DATETIME''"
| "error_code_value NONEXISTENT_DATETIME = ''NONEXISTENT_DATETIME''"
| "error_code_value DUPLICATE_SOURCE_KEY = ''DUPLICATE_SOURCE_KEY''"
| "error_code_value INVALID_OPERATION = ''INVALID_OPERATION''"

primrec cell_kind_value :: "raw_cell_kind \<Rightarrow> string" where
  "cell_kind_value MISSING_CELL = ''MISSING''"
| "cell_kind_value NULL_CELL = ''NULL''"
| "cell_kind_value EMPTY_CELL = ''EMPTY''"
| "cell_kind_value VALUE_CELL = ''VALUE''"

primrec operation_value :: "ingestion_operation \<Rightarrow> string" where
  "operation_value SNAPSHOT = ''SNAPSHOT''"
| "operation_value UPSERT = ''UPSERT''"
| "operation_value CANCEL = ''CANCEL''"
| "operation_value RETRACT = ''RETRACT''"

section \<open>Cells and issues\<close>

record raw_cell =
  cell_kind :: raw_cell_kind
  cell_original :: "string option"

definition raw_cell_post_init :: "raw_cell \<Rightarrow> raw_cell result" where
  "raw_cell_post_init c = checks
     [(cell_kind c = MISSING_CELL \<and> cell_original c \<noteq> None, ''a missing cell cannot contain a value''),
      (cell_kind c = EMPTY_CELL \<and> cell_original c \<noteq> Some [], ''an empty cell must preserve an empty string''),
      (cell_kind c \<in> {NULL_CELL, VALUE_CELL} \<and> cell_original c = None,
       ''a '' @ (if cell_kind c = NULL_CELL then ''null'' else ''value'') @ '' cell must preserve source text''),
      (cell_kind c = NULL_CELL \<and> cell_original c = Some [], ''a null cell token must not be empty'')] c"

definition cell_missing :: "raw_cell result" where
  "cell_missing = raw_cell_post_init \<lparr>cell_kind = MISSING_CELL, cell_original = None\<rparr>"

definition cell_from_source :: "string \<Rightarrow> string list \<Rightarrow> raw_cell result" where
  "cell_from_source value null_tokens = raw_cell_post_init
     \<lparr>cell_kind = (if value = [] then EMPTY_CELL else if value \<in> set null_tokens then NULL_CELL else VALUE_CELL),
      cell_original = Some value\<rparr>"

definition cell_semantic_value :: "raw_cell \<Rightarrow> string \<times> string option" where
  "cell_semantic_value c = (cell_kind_value (cell_kind c), cell_original c)"

record row_issue =
  iss_row_number :: int
  iss_field :: string
  iss_code :: row_error_code
  iss_original :: "string option"
  iss_expected :: string

definition row_issue_post_init :: "row_issue \<Rightarrow> row_issue result" where
  "row_issue_post_init i = checks
     [(iss_row_number i < 1, ''row_number must be a positive integer''),
      (blank (iss_field i), ''field must not be blank''),
      (blank (iss_expected i), ''expected must not be blank'')] i"

definition raise_issue :: "int \<Rightarrow> string \<Rightarrow> row_error_code \<Rightarrow> raw_cell \<Rightarrow> string \<Rightarrow> 'a result" where
  "raise_issue row_number field code cell expected =
     rbind (row_issue_post_init \<lparr>iss_row_number = row_number, iss_field = field, iss_code = code,
        iss_original = cell_original cell, iss_expected = expected\<rparr>)
     (\<lambda>i. Inl (FieldInterpretationError (iss_row_number i) (iss_field i) (error_code_value (iss_code i)) (iss_original i)
        (iss_expected i)))"

text \<open>\<open>str(error)\<close> of an interpretation error.\<close>

definition issue_text :: "row_issue \<Rightarrow> string" where
  "issue_text i = ''row '' @ int_text (iss_row_number i) @ '' '' @ iss_field i @ '': '' @ error_code_value (iss_code i)"

section \<open>Contracts\<close>

record field_binding =
  fb_canonical_field :: string
  fb_source_column :: "string option"
  fb_constant :: "string option"

definition field_binding_post_init :: "field_binding \<Rightarrow> field_binding result" where
  "field_binding_post_init b = checks
     [(blank (fb_canonical_field b), ''canonical_field must not be blank''),
      ((fb_source_column b = None) = (fb_constant b = None), ''a field binding requires exactly one source column or constant''),
      (case fb_source_column b of None \<Rightarrow> False | Some c \<Rightarrow> blank c, ''source_column must not be blank'')] b"

record enum_mapping =
  en_canonical_field :: string
  en_values :: "(string \<times> string) list"

definition enum_mapping_post_init :: "enum_mapping \<Rightarrow> enum_mapping result" where
  "enum_mapping_post_init m = checks
     [(blank (en_canonical_field m), ''canonical_field must not be blank''),
      (en_values m = [] \<or> (\<exists>s \<in> set (map fst (en_values m)). blank s) \<or> \<not> distinct (map fst (en_values m)),
       ''enum source values must be nonempty and unique''),
      (\<exists>v \<in> set (en_values m). blank (snd v), ''enum canonical values must not be blank'')] m"

text \<open>
  A time zone: the UTC offset of a wall time, by its \<open>fold\<close>, and the wall time of an instant. A
  lookup finds a zone, finds none (\<open>ZoneInfoNotFoundError\<close>), or fails in another way.
\<close>

record timezone =
  tz_offset :: "int \<Rightarrow> bool \<Rightarrow> int"
  tz_wall :: "int \<Rightarrow> int"

type_synonym zone_database = "string \<Rightarrow> timezone option result"

record source_contract =
  sct_adapter_key :: string
  sct_parser_version :: string
  sct_mode :: dataset_mode
  sct_identity_namespace :: string
  sct_reference_semantics :: reference_semantics
  sct_timestamp_format :: string
  sct_timezone_name :: "string option"
  sct_bindings :: "field_binding list"
  sct_enum_mappings :: "enum_mapping list"
  sct_null_tokens :: "string list"
  sct_operation_field :: "string option"
  sct_operation_mapping :: "(string \<times> ingestion_operation) list"
  sct_fold_policy :: date_fold_policy

definition timezone_check :: "zone_database \<Rightarrow> string option \<Rightarrow> unit result" where
  "timezone_check zones name = (case name of
      None \<Rightarrow> Inr ()
    | Some n \<Rightarrow> rbind (checks [(blank n, ''timezone_name must be None or a valid IANA zone'')] ())
        (\<lambda>_. rbind (zones n) (\<lambda>z. checks [(z = None, ''timezone_name must be a valid IANA zone'')] ())))"

definition operation_checks :: "source_contract \<Rightarrow> (bool \<times> string) list" where
  "operation_checks c =
     (let sources = map fst (sct_operation_mapping c); operations = set (map snd (sct_operation_mapping c))
      in [((\<exists>s \<in> set sources. blank s) \<or> \<not> distinct sources, ''operation source values must be nonempty and unique''),
          (sct_mode c = FULL_SNAPSHOT \<and> (sct_operation_field c \<noteq> None \<or> sct_operation_mapping c \<noteq> []),
           ''a full snapshot cannot declare delta operation mapping''),
          (sct_mode c = DELTA \<and> ((case sct_operation_field c of None \<Rightarrow> True | Some f \<Rightarrow> blank f) \<or> sct_operation_mapping c = []),
           ''a delta contract requires an operation field and mapping''),
          (sct_mode c = DELTA \<and> SNAPSHOT \<in> operations, ''a delta operation cannot map to SNAPSHOT''),
          (sct_mode c = DELTA \<and> operations \<noteq> {UPSERT, CANCEL, RETRACT},
           ''a delta contract must distinguish upsert, cancel, and retract'')])"

definition source_contract_post_init :: "zone_database \<Rightarrow> source_contract \<Rightarrow> source_contract result" where
  "source_contract_post_init zones c =
     rbind (checks
       [(blank (sct_adapter_key c), ''adapter_key must not be blank''),
        (blank (sct_parser_version c), ''parser_version must not be blank''),
        (blank (sct_identity_namespace c), ''identity_namespace must not be blank''),
        (blank (sct_timestamp_format c), ''timestamp_format must not be blank''),
        (sct_bindings c = [] \<or> \<not> distinct (map fb_canonical_field (sct_bindings c)),
         ''contract bindings must be nonempty and canonical fields unique''),
        (\<not> distinct (map en_canonical_field (sct_enum_mappings c)), ''enum mappings must target unique fields''),
        ([] \<in> set (sct_null_tokens c) \<or> \<not> distinct (sct_null_tokens c), ''null tokens must be nonempty and unique'')] ())
     (\<lambda>_. rbind (timezone_check zones (sct_timezone_name c))
     (\<lambda>_. checks (operation_checks c) c))"

section \<open>Canonical rows\<close>

record field_provenance =
  pv_canonical_field :: string
  pv_source_column :: "string option"
  pv_raw_cell :: raw_cell
  pv_transformation :: string

definition field_provenance_post_init :: "field_provenance \<Rightarrow> field_provenance result" where
  "field_provenance_post_init p = checks
     [(blank (pv_canonical_field p) \<or> blank (pv_transformation p), ''provenance field and transformation must not be blank'')] p"

definition MAX_NUMERIC_PRECISION :: int where
  "MAX_NUMERIC_PRECISION = 38"

definition MAX_NUMERIC_SCALE :: int where
  "MAX_NUMERIC_SCALE = 12"

definition validate_numeric_value :: "dec \<Rightarrow> string \<Rightarrow> unit result" where
  "validate_numeric_value value name =
     (let scale = max (- dexp value) 0;
          integer_digits = max (int (ndigits (dcoef value)) + dexp value) 0;
          precision = integer_digits + scale
      in checks [(MAX_NUMERIC_SCALE < scale \<or> MAX_NUMERIC_PRECISION < precision, name @ '' exceeds NUMERIC(38,12)'')] ())"

record canonical_row =
  cw_row_number :: int
  cw_source_record_key :: string
  cw_business_reference :: "string option"
  cw_executed_at_utc :: stamp
  cw_instrument :: string
  cw_side :: canonical_side
  cw_quantity :: dec
  cw_unit_price :: dec
  cw_gross_amount :: dec
  cw_currency :: string
  cw_state :: canonical_state
  cw_operation :: ingestion_operation
  cw_provenance :: "field_provenance list"

definition canonical_row_post_init :: "canonical_row \<Rightarrow> canonical_row result" where
  "canonical_row_post_init r =
     rbind (checks
       [(cw_row_number r < 1, ''row_number must be a positive integer''),
        (blank (cw_source_record_key r), ''source_record_key must not be blank''),
        (blank (cw_instrument r), ''instrument must not be blank''),
        (blank (cw_currency r), ''currency must not be blank''),
        (case cw_business_reference r of None \<Rightarrow> False | Some b \<Rightarrow> blank b, ''business_reference must be nonblank or None'')] ())
     (\<lambda>_. rbind (as_utc (cw_executed_at_utc r) ''executed_at_utc'')
     (\<lambda>executed. rbind (validate_numeric_value (cw_quantity r) ''quantity'')
     (\<lambda>_. rbind (validate_numeric_value (cw_unit_price r) ''unit_price'')
     (\<lambda>_. rbind (validate_numeric_value (cw_gross_amount r) ''gross_amount'')
     (\<lambda>_. checks
       [(cw_operation r = RETRACT, ''a retraction does not create a canonical observation''),
        (cw_operation r = CANCEL \<and> cw_state r \<noteq> CANCELLED, ''a cancellation operation requires cancelled state''),
        (\<not> distinct (map pv_canonical_field (cw_provenance r)), ''provenance fields must be unique'')]
       (r\<lparr>cw_executed_at_utc := utc_stamp executed\<rparr>))))))"

definition eligible_for_matching :: "canonical_row \<Rightarrow> bool" where
  "eligible_for_matching r \<longleftrightarrow> cw_state r \<noteq> CANCELLED"

definition provenance_by_field :: "canonical_row \<Rightarrow> (string \<times> field_provenance) list" where
  "provenance_by_field r = dict_of pv_canonical_field (cw_provenance r) "

section \<open>Parsing cells\<close>

definition required_source_value :: "raw_cell \<Rightarrow> int \<Rightarrow> string \<Rightarrow> string result" where
  "required_source_value cell row_number field =
     (case cell_kind cell of
        MISSING_CELL \<Rightarrow> raise_issue row_number field MISSING_FIELD cell ''a present required field''
      | NULL_CELL \<Rightarrow> raise_issue row_number field NULL_REQUIRED cell ''a non-null value''
      | EMPTY_CELL \<Rightarrow> raise_issue row_number field EMPTY_REQUIRED cell ''a nonempty value''
      | VALUE_CELL \<Rightarrow> (case cell_original cell of None \<Rightarrow> Inl AssertionError | Some v \<Rightarrow> Inr v))"

definition parse_required_text :: "raw_cell \<Rightarrow> int \<Rightarrow> string \<Rightarrow> bool \<Rightarrow> string result" where
  "parse_required_text cell row_number field trim =
     rbind (required_source_value cell row_number field)
     (\<lambda>value. let parsed = (if trim then py_strip value else value)
        in if parsed = [] then raise_issue row_number field EMPTY_REQUIRED cell ''a nonempty text value'' else Inr parsed)"

definition parse_decimal_value :: "raw_cell \<Rightarrow> int \<Rightarrow> string \<Rightarrow> dec result" where
  "parse_decimal_value cell row_number field =
     rbind (required_source_value cell row_number field)
     (\<lambda>source. case decimal_of_text (py_strip source) of
         None \<Rightarrow> raise_issue row_number field INVALID_DECIMAL cell ''a base-10 decimal''
       | Some (Finite d) \<Rightarrow> (case validate_numeric_value d field of
             Inl _ \<Rightarrow> raise_issue row_number field UNSUPPORTED_PRECISION cell ''at most 38 total digits and 12 fractional digits''
           | Inr _ \<Rightarrow> Inr d)
       | Some _ \<Rightarrow> raise_issue row_number field NON_FINITE_DECIMAL cell ''a finite decimal'')"

text \<open>\<open>", ".join(xs)\<close>\<close>

fun comma_join :: "string list \<Rightarrow> string" where
  "comma_join [] = []"
| "comma_join [x] = x"
| "comma_join (x # xs) = x @ '', '' @ comma_join xs"

definition parse_enum_value :: "raw_cell \<Rightarrow> int \<Rightarrow> string \<Rightarrow> (string \<times> 'a) list \<Rightarrow> 'a result" where
  "parse_enum_value cell row_number field mapping =
     rbind (required_source_value cell row_number field)
     (\<lambda>source. case map_of (rev mapping) (py_strip source) of
         Some v \<Rightarrow> Inr v
       | None \<Rightarrow> raise_issue row_number field UNKNOWN_ENUM cell
           (''one of: '' @ comma_join (sort (remdups (map fst mapping)))))"

text \<open>The instant of a wall time under one \<open>fold\<close>, and whether the zone shows it as that wall time.\<close>

definition instant_of :: "timezone \<Rightarrow> int \<Rightarrow> bool \<Rightarrow> datetime result" where
  "instant_of zone wall later = (let u = wall - tz_offset zone wall later
     in if valid_datetime u then Inr u else Inl OverflowError)"

definition round_trips :: "timezone \<Rightarrow> int \<Rightarrow> bool \<Rightarrow> bool result" where
  "round_trips zone wall later = rbind (instant_of zone wall later)
     (\<lambda>u. if valid_datetime (tz_wall zone u) then Inr (tz_wall zone u = wall) else Inl OverflowError)"

definition fold_instants :: "timezone \<Rightarrow> int \<Rightarrow> bool \<Rightarrow> datetime list result" where
  "fold_instants zone wall later = rbind (round_trips zone wall later)
     (\<lambda>same. if same then rbind (instant_of zone wall later) (\<lambda>u. Inr [u]) else Inr [])"

definition distinct_instants :: "timezone \<Rightarrow> int \<Rightarrow> datetime list result" where
  "distinct_instants zone wall = rbind (fold_instants zone wall False)
     (\<lambda>a. rbind (fold_instants zone wall True) (\<lambda>b. Inr (sort (remdups (a @ b)))))"

text \<open>How timestamps are read: \<open>datetime.fromisoformat\<close> and \<open>datetime.strptime\<close>; \<open>None\<close> is \<open>ValueError\<close>.\<close>

record timestamp_readers =
  read_iso :: "string \<Rightarrow> stamp option"
  read_format :: "string \<Rightarrow> string \<Rightarrow> stamp option"

definition zulu_as_offset :: "string \<Rightarrow> string" where
  "zulu_as_offset s = concat (map (\<lambda>c. if c = CHR ''Z'' then ''+00:00'' else [c]) s)"

definition parse_datetime_value :: "timestamp_readers \<Rightarrow> zone_database \<Rightarrow> raw_cell \<Rightarrow> int \<Rightarrow> string \<Rightarrow> string \<Rightarrow>
    string option \<Rightarrow> date_fold_policy \<Rightarrow> datetime result" where
  "parse_datetime_value readers zones cell row_number field timestamp_format timezone_name fold_policy =
     rbind (required_source_value cell row_number field)
     (\<lambda>value. let source = py_strip value in
        case (if timestamp_format = ''ISO8601'' then read_iso readers (zulu_as_offset source)
              else read_format readers timestamp_format source) of
          None \<Rightarrow> raise_issue row_number field INVALID_DATETIME cell (''datetime format '' @ timestamp_format)
        | Some (Aware wall offset) \<Rightarrow> if valid_datetime (wall - offset) then Inr (wall - offset) else Inl OverflowError
        | Some (Naive wall) \<Rightarrow>
            if timezone_name = None \<or> timezone_name = Some []
            then raise_issue row_number field MISSING_TIMEZONE cell ''an explicit timezone for a timestamp without an offset''
            else rbind (zones (the timezone_name))
              (\<lambda>found. case found of
                  None \<Rightarrow> Inl (DomainValidationError ''timezone_name must be a valid IANA zone'')
                | Some zone \<Rightarrow> rbind (distinct_instants zone wall)
                    (\<lambda>instants. case instants of
                        [] \<Rightarrow> raise_issue row_number field NONEXISTENT_DATETIME cell
                          (''an existing local time in '' @ the timezone_name)
                      | [u] \<Rightarrow> Inr u
                      | u # _ \<Rightarrow> if fold_policy = REJECT_FOLD
                          then raise_issue row_number field AMBIGUOUS_DATETIME cell
                            (''an unambiguous local time in '' @ the timezone_name @ '' or an explicit fold'')
                          else Inr (if fold_policy = EARLIER_FOLD then u else last instants))))"

end
