(* ===== verification/Hashing.thy ===== *)
theory Hashing
  imports Ingestion CaseKeys
begin

text \<open>
  The versioned digests of ingestion and materialised state (\<open>reconciliation/domain/hashing.py\<close>).
  Texts are byte sequences in UTF-8, so \<open>encode("utf-8")\<close> is the identity; \<open>sha256\<close>, from bytes to
  the hexadecimal text, is a parameter. Payload values are JSON values without floating point
  numbers.
\<close>

definition HASH_SCHEME_VERSION :: string where
  "HASH_SCHEME_VERSION = ''reconciliation-sha256-v1''"

datatype semantic_tag =
  TEXT_TAG | DECIMAL_TAG | DATETIME_TAG | ENUM_TAG | MISSING_TAG | NULL_TAG | EMPTY_TAG | RAW_TAG

primrec tag_value :: "semantic_tag \<Rightarrow> string" where
  "tag_value TEXT_TAG = ''TEXT''"
| "tag_value DECIMAL_TAG = ''DECIMAL''"
| "tag_value DATETIME_TAG = ''DATETIME''"
| "tag_value ENUM_TAG = ''ENUM''"
| "tag_value MISSING_TAG = ''MISSING''"
| "tag_value NULL_TAG = ''NULL''"
| "tag_value EMPTY_TAG = ''EMPTY''"
| "tag_value RAW_TAG = ''RAW''"

record semantic_value =
  sv_tag :: semantic_tag
  sv_value :: "string option"

definition semantic_value_post_init :: "semantic_value \<Rightarrow> semantic_value result" where
  "semantic_value_post_init v = checks
     [(sv_tag v = MISSING_TAG \<and> sv_value v \<noteq> None, ''a missing semantic value has no payload''),
      (sv_tag v \<noteq> MISSING_TAG \<and> sv_value v = None, ''a semantic value payload must be text''),
      (sv_tag v = EMPTY_TAG \<and> sv_value v \<noteq> Some [], ''an empty semantic value must preserve empty text'')] v"

primrec tag_of_kind :: "raw_cell_kind \<Rightarrow> semantic_tag" where
  "tag_of_kind MISSING_CELL = MISSING_TAG"
| "tag_of_kind NULL_CELL = NULL_TAG"
| "tag_of_kind EMPTY_CELL = EMPTY_TAG"
| "tag_of_kind VALUE_CELL = RAW_TAG"

definition semantic_from_raw :: "raw_cell_kind \<Rightarrow> string option \<Rightarrow> semantic_value result" where
  "semantic_from_raw kind value = semantic_value_post_init \<lparr>sv_tag = tag_of_kind kind, sv_value = value\<rparr>"

record semantic_row =
  sr_operation :: string
  sr_fields :: "(string \<times> semantic_value) list"

definition semantic_row_post_init :: "semantic_row \<Rightarrow> semantic_row result" where
  "semantic_row_post_init r = checks
     [(blank (sr_operation r), ''semantic row operation must not be blank''),
      ((\<exists>n \<in> set (map fst (sr_fields r)). blank n) \<or> \<not> distinct (map fst (sr_fields r)),
       ''semantic row field names must be nonempty and unique'')] r"

section \<open>Encodings\<close>

text \<open>\<open>sort_keys=True\<close> at every level of a payload.\<close>

fun sorted_keys :: "json \<Rightarrow> json" where
  "sorted_keys (JArray js) = JArray (map sorted_keys js)"
| "sorted_keys (JObject ms) = JObject (sort_key fst (map (\<lambda>m. (fst m, sorted_keys (snd m))) ms))"
| "sorted_keys j = j"

definition canonical_json :: "json \<Rightarrow> string" where
  "canonical_json j = json_dumps (sorted_keys j)"

definition digest_of :: "(string \<Rightarrow> string) \<Rightarrow> string \<Rightarrow> json \<Rightarrow> string" where
  "digest_of sha256 kind payload = sha256 (canonical_json (JObject
     [(''version'', JText HASH_SCHEME_VERSION), (''kind'', JText kind), (''payload'', payload)]))"

definition record_digest :: "(string \<Rightarrow> string) \<Rightarrow> string \<Rightarrow> json \<Rightarrow> string list \<Rightarrow> string" where
  "record_digest sha256 kind metadata records = sha256 (concat (map length_prefixed
     (canonical_json (JObject [(''version'', JText HASH_SCHEME_VERSION), (''kind'', JText kind), (''metadata'', metadata)]) #
      sort records)))"

definition validate_digest :: "string \<Rightarrow> string \<Rightarrow> unit result" where
  "validate_digest value name = checks [validate_sha256 value name] ()"

definition canonical_decimal :: "dec \<Rightarrow> string" where
  "canonical_decimal value =
     (if dec_is_zero value then ''0'' else dec_text_f (dec_normalize default_precision value))"

text \<open>\<open>isoformat(timespec="microseconds")\<close> of the UTC time, ending in \<open>Z\<close>.\<close>

definition canonical_datetime :: "stamp \<Rightarrow> string result" where
  "canonical_datetime value = rbind (as_utc value ''canonical datetime'')
     (\<lambda>t. Inr (date_text (t div us_per_day) @ ''T'' @ clock_text (t mod us_per_day div us_per_second) @ ''.'' @
        zero_padded 6 (nat (t mod us_per_second)) @ ''Z''))"

section \<open>Digests\<close>

definition physical_artifact_hash :: "(string \<Rightarrow> string) \<Rightarrow> string list \<Rightarrow> string" where
  "physical_artifact_hash sha256 chunks = sha256 (concat chunks)"

definition mapping_revision_digest :: "(string \<Rightarrow> string) \<Rightarrow> json \<Rightarrow> string" where
  "mapping_revision_digest sha256 mapping = digest_of sha256 ''mapping-revision'' mapping"

definition source_contract_digest :: "(string \<Rightarrow> string) \<Rightarrow> json \<Rightarrow> string" where
  "source_contract_digest sha256 contract = digest_of sha256 ''source-contract'' contract"

definition policy_revision_digest :: "(string \<Rightarrow> string) \<Rightarrow> json \<Rightarrow> json \<Rightarrow> string result" where
  "policy_revision_digest sha256 matching_policy comparison_policy =
     (case (matching_policy, comparison_policy) of
        (JObject ms, JObject cs) \<Rightarrow> checks [(ms = [] \<or> cs = [], ''policy payloads must not be empty'')]
          (digest_of sha256 ''policy-revision''
            (JObject [(''matching_policy'', matching_policy), (''comparison_policy'', comparison_policy)]))
      | _ \<Rightarrow> Inl (DomainValidationError ''policy payloads must be objects''))"

definition field_json :: "string \<times> semantic_value \<Rightarrow> json" where
  "field_json f = JObject [(''name'', JText (fst f)), (''tag'', JText (tag_value (sv_tag (snd f)))),
     (''value'', json_text_or_null (sv_value (snd f)))]"

text \<open>The names of a row are distinct, so that sorting its pairs compares names only.\<close>

definition fields_json :: "(string \<times> semantic_value) list \<Rightarrow> json" where
  "fields_json named = JArray (map field_json (sort_key fst named))"

definition semantic_input_hash :: "(string \<Rightarrow> string) \<Rightarrow> string \<Rightarrow> string list \<Rightarrow> semantic_row list \<Rightarrow> string result" where
  "semantic_input_hash sha256 contract_digest header rows =
     rbind (validate_digest contract_digest ''contract_digest'')
     (\<lambda>_. Inr (record_digest sha256 ''semantic-input''
        (JObject [(''contract_digest'', JText contract_digest), (''header'', json_texts (sort header))])
        (map (\<lambda>r. canonical_json (JObject [(''operation'', JText (sr_operation r)), (''fields'', fields_json (sr_fields r))])) rows)))"

definition tagged :: "semantic_tag \<Rightarrow> string \<Rightarrow> semantic_value result" where
  "tagged tag value = semantic_value_post_init \<lparr>sv_tag = tag, sv_value = Some value\<rparr>"

definition semantic_row_from_canonical :: "canonical_row \<Rightarrow> semantic_row result" where
  "semantic_row_from_canonical r =
     rbind (canonical_datetime (cw_executed_at_utc r))
     (\<lambda>executed. rbind (rmap (\<lambda>(name, tag, value). rbind (tagged tag value) (\<lambda>v. Inr (name, v)))
       [(''source_record_key'', TEXT_TAG, cw_source_record_key r),
        (''business_reference'', TEXT_TAG, (case cw_business_reference r of None \<Rightarrow> [] | Some b \<Rightarrow> b)),
        (''executed_at_utc'', DATETIME_TAG, executed),
        (''instrument'', TEXT_TAG, cw_instrument r),
        (''side'', ENUM_TAG, side_value (cw_side r)),
        (''quantity'', DECIMAL_TAG, canonical_decimal (cw_quantity r)),
        (''unit_price'', DECIMAL_TAG, canonical_decimal (cw_unit_price r)),
        (''gross_amount'', DECIMAL_TAG, canonical_decimal (cw_gross_amount r)),
        (''currency'', TEXT_TAG, cw_currency r),
        (''state'', ENUM_TAG, state_value (cw_state r))])
     (\<lambda>named. semantic_row_post_init \<lparr>sr_operation = operation_value (cw_operation r), sr_fields = named\<rparr>))"

definition provenance_json :: "field_provenance \<Rightarrow> json" where
  "provenance_json p = JObject
     [(''canonical_field'', JText (pv_canonical_field p)), (''source_column'', json_text_or_null (pv_source_column p)),
      (''source_kind'', JText (cell_kind_value (cell_kind (pv_raw_cell p)))), (''transformation'', JText (pv_transformation p))]"

definition observation_payload :: "string \<Rightarrow> semantic_row \<Rightarrow> field_provenance list \<Rightarrow> json" where
  "observation_payload contract_digest semantic provenance = JObject
     [(''contract_digest'', JText contract_digest), (''operation'', JText (sr_operation semantic)),
      (''fields'', fields_json (sr_fields semantic)),
      (''provenance'', JArray (map provenance_json (sort_key pv_canonical_field provenance)))]"

definition observation_fingerprint :: "(string \<Rightarrow> string) \<Rightarrow> string \<Rightarrow> canonical_row \<Rightarrow> string result" where
  "observation_fingerprint sha256 contract_digest r =
     rbind (validate_digest contract_digest ''contract_digest'')
     (\<lambda>_. rbind (semantic_row_from_canonical r)
     (\<lambda>semantic. Inr (digest_of sha256 ''observation'' (observation_payload contract_digest semantic (cw_provenance r)))))"

fun state_records :: "string list \<Rightarrow> (string \<times> string) list \<Rightarrow> string list result" where
  "state_records seen [] = Inr []"
| "state_records seen ((identity, fingerprint) # members) =
     rbind (checks [(blank identity \<or> identity \<in> set seen, ''resolved state identities must be nonempty and unique'')] ())
     (\<lambda>_. rbind (validate_digest fingerprint ''observation fingerprint'')
     (\<lambda>_. rbind (state_records (identity # seen) members)
     (\<lambda>records. Inr (canonical_json (JObject [(''identity'', JText identity), (''observation_fingerprint'', JText fingerprint)]) #
        records))))"

definition resolved_state_hash :: "(string \<Rightarrow> string) \<Rightarrow> (string \<times> string) list \<Rightarrow> string result" where
  "resolved_state_hash sha256 members =
     rbind (state_records [] members) (\<lambda>records. Inr (record_digest sha256 ''resolved-state'' (JObject []) records))"

end
