(* ===== verification/CanonicalText.thy ===== *)
theory CanonicalText
  imports Hashing ComparisonFacts
begin

text \<open>
  The canonical texts of amounts and times (\<open>canonical_decimal\<close> and \<open>canonical_datetime\<close> of
  \<open>reconciliation/domain/hashing.py\<close>): what a reader gets back from them, and so what two equal
  texts say of their values.
\<close>

section \<open>Amounts as text\<close>

text \<open>What \<open>Decimal\<close> reads back from \<open>format(d, "f")\<close>: no positive exponent remains.\<close>

definition expanded :: "dec \<Rightarrow> dec" where
  "expanded d = (if dexp d \<le> 0 then d else Dec (dneg d) (dcoef d * 10 ^ nat (dexp d)) 0)"

lemma dval_expanded: "dval (expanded d) = dval d"
  by (simp add: expanded_def dval_def power_int_def)

lemma zeros_digits: "list_all is_digit (replicate k (CHR ''0''))"
  by (induction k) (simp_all add: is_digit_code)

lemma digits_value_append_zeros: "digits_value (s @ replicate k (CHR ''0'')) = digits_value s * 10 ^ k"
proof (induction k)
  case (Suc k)
  have "s @ replicate (Suc k) (CHR ''0'') = (s @ replicate k (CHR ''0'')) @ ''0''"
    by (simp add: replicate_append_same)
  then show ?case by (simp only: digits_value_snoc Suc) (simp add: digit_value_def)
qed simp

lemma text_f_roundtrip:
  assumes "dcoef d \<noteq> 0" and exact: "decimal_exact (expanded d)"
  shows "decimal_of_text (dec_text_f d) = Some (Finite (expanded d))"
proof (cases d)
  case (Dec n c e)
  let ?ds = "nat_text c"
  let ?N = "int (length ?ds)"
  have c: "c \<noteq> 0" using assms Dec by simp
  have none: "exponent_part [] = Some 0" by (simp add: exponent_part_def)
  have all: "list_all is_digit ?ds" by (rule nat_text_all_digits)
  have sub: "list_all is_digit (take k ?ds)" "list_all is_digit (drop k ?ds)" for k
    using all by (auto simp: list_all_iff dest: in_set_takeD in_set_dropD)
  have read: "decimal_of_text (dec_text_f d) = Some (Finite (expanded d))"
    if shape: "dec_text_f d = (if n then ''-'' else []) @ w @ (if p = [] then [] else ''.'' @ p) @ []"
      and w: "list_all is_digit w" "w \<noteq> []" "list_all is_digit p"
      and v: "Dec n (digits_value (w @ p)) (0 - int (length p)) = expanded d" for w p :: string
    using decimal_of_parts [OF w(1-3) refl, of "[]" 0 n] exact by (simp only: shape v) (simp add: none)
  consider "e + ?N < 0" | "0 < e" | "e + ?N = 0" | "0 < e + ?N" "e \<le> 0" by linarith
  then show ?thesis
  proof cases
    case 1
    let ?p = "replicate (nat (- (e + ?N))) (CHR ''0'') @ ?ds"
    have v: "digits_value (''0'' @ ?p) = c" using digits_value_zeros [of "Suc (nat (- (e + ?N)))" ?ds] by simp
    show ?thesis
      by (rule read [of "''0''" ?p]) (use 1 c all zeros_digits zeros_digits [of 1] v in
        \<open>simp_all add: dec_text_f_def Dec sign_text_def Let_def expanded_def\<close>)
  next
    case 2
    show ?thesis
      by (rule read [of "?ds @ replicate (nat e) (CHR ''0'')" "[]"]) (use 2 c all zeros_digits in
        \<open>simp_all add: dec_text_f_def Dec sign_text_def Let_def expanded_def digits_value_append_zeros\<close>)
  next
    case 3
    have v: "digits_value (''0'' @ ?ds) = c" using digits_value_zeros [of 1 ?ds] by simp
    show ?thesis
      by (rule read [of "''0''" ?ds]) (use 3 c all zeros_digits [of 1] v in
        \<open>simp_all add: dec_text_f_def Dec sign_text_def Let_def expanded_def\<close>)
  next
    case 4
    show ?thesis
      by (rule read [of "take (nat (e + ?N)) ?ds" "drop (nat (e + ?N)) ?ds"]) (use 4 c sub in
        \<open>simp_all add: dec_text_f_def Dec sign_text_def Let_def expanded_def\<close>)
  qed
qed

lemma ndigits_mult_power: "0 < c \<Longrightarrow> ndigits (c * 10 ^ k) = ndigits c + k"
proof (induction k)
  case (Suc k)
  then have "0 < c * 10 ^ k" by simp
  then have "ndigits (c * 10 ^ k * 10) = Suc (ndigits (c * 10 ^ k))"
    by (subst ndigits.simps) simp
  with Suc show ?case by (simp add: mult.left_commute mult.commute)
qed simp

lemma strip_all_zeros_power:
  "strip_all_zeros c e = (c', e') \<Longrightarrow> 0 < c \<Longrightarrow> 0 < c' \<and> (\<exists>k. c = c' * 10 ^ k \<and> e' = e + int k)"
proof (induction c e arbitrary: c' e' rule: strip_all_zeros.induct)
  case (1 c e)
  show ?case
  proof (cases "c mod 10 = 0")
    case True
    with 1(3) have pos: "0 < c div 10" by auto
    from True 1(2,3) have "strip_all_zeros (c div 10) (e + 1) = (c', e')" by (simp add: strip_all_zeros.simps [of c e])
    with 1(1) [OF _ this pos] True 1(3) obtain k where "0 < c'" "c div 10 = c' * 10 ^ k" "e' = e + 1 + int k" by auto
    moreover have "c = c div 10 * 10" using True by auto
    ultimately have "0 < c' \<and> c = c' * 10 ^ Suc k \<and> e' = e + int (Suc k)" by (simp add: mult.assoc mult.commute)
    then show ?thesis by blast
  next
    case False
    with 1(2,3) show ?thesis by (intro conjI exI [of _ 0]) (auto simp: strip_all_zeros.simps [of c e])
  qed
qed

lemma valid_numeric:
  "validate_numeric_value d field = Inr () \<longleftrightarrow> - 12 \<le> dexp d \<and> max (int (ndigits (dcoef d)) + dexp d) 0 + max (- dexp d) 0 \<le> 38"
  by (auto simp: validate_numeric_value_def Let_def checks_Inr_iff MAX_NUMERIC_SCALE_def MAX_NUMERIC_PRECISION_def)

lemma dec_fix_nonzero:
  assumes "0 < p" and "0 < dcoef d"
  shows "0 < dcoef (dec_fix p d)"
proof (cases "ndigits (dcoef d) \<le> p")
  case False
  let ?k = "ndigits (dcoef d) - p"
  have k: "ndigits (dcoef d) - 1 = (p - 1) + ?k" using False assms(1) by simp
  have "10 ^ (p - 1) * 10 ^ ?k \<le> dcoef d" using ndigits_lower [OF assms(2)] unfolding k power_add .
  then have q: "10 ^ (p - 1) \<le> half_even_div (dcoef d) (10 ^ ?k)" by (intro half_even_div_ge) simp_all
  then have pos: "0 < half_even_div (dcoef d) (10 ^ ?k)" by (meson less_le_trans zero_less_numeral zero_less_power)
  moreover have "10 \<le> half_even_div (dcoef d) (10 ^ ?k)" if "p < ndigits (half_even_div (dcoef d) (10 ^ ?k))"
  proof -
    have "10 ^ p \<le> half_even_div (dcoef d) (10 ^ ?k)"
      using that ndigits_le_iff [of p "half_even_div (dcoef d) (10 ^ ?k)"] assms(1) by linarith
    moreover have "(10 :: nat) \<le> 10 ^ p" using self_le_power [of 10 p] assms(1) by simp
    ultimately show ?thesis by linarith
  qed
  ultimately show ?thesis using False by (auto simp: dec_fix_def Let_def)
qed (use assms in \<open>simp add: dec_fix_exact\<close>)

lemma dexp_dec_fix: "dexp d \<le> dexp (dec_fix p d) \<and> dexp (dec_fix p d) \<le> dexp d + int (ndigits (dcoef d)) + 1"
  by (simp add: dec_fix_def Let_def)

text \<open>The canonical text of an accepted amount reads back as the amount rounded to the precision of the context.\<close>

lemma canonical_decimal_reads:
  assumes valid: "validate_numeric_value q m = Inr ()"
  shows "\<exists>x. decimal_of_text (canonical_decimal q) = Some (Finite x) \<and> dval x = dval (dec_fix default_precision q)"
proof (cases "dec_is_zero q")
  case True
  have char_zero: "char_of (48 :: nat) = CHR ''0''" by code_simp
  have "decimal_of_text ''0'' = Some (Finite (Dec False 0 0))"
    using decimal_text_roundtrip [of "Dec False 0 0"]
    by (simp add: decimal_exact_def dec_text_def sign_text_def nat_text.simps digit_char_def char_zero)
  with True show ?thesis by (simp add: canonical_decimal_def dec_is_zero_def default_precision_def dval_def)
next
  case False
  let ?f = "dec_fix default_precision q" and ?n = "dec_normalize default_precision q"
  have p: "0 < default_precision" by (simp add: default_precision_def)
  have pos: "0 < dcoef ?f" using False by (intro dec_fix_nonzero p) (simp add: dec_is_zero_def)
  obtain c e where ce: "strip_all_zeros (dcoef ?f) (dexp ?f) = (c, e)" by fastforce
  from pos ce have n: "?n = Dec (dneg ?f) c e" by (simp add: dec_normalize_def)
  from strip_all_zeros_power [OF ce pos] obtain k where k: "0 < c" "dcoef ?f = c * 10 ^ k" "e = dexp ?f + int k" by blast
  have "int (ndigits c) + int k \<le> 28"
    using ndigits_dec_fix [OF p, of q] k by (simp add: ndigits_mult_power default_precision_def)
  moreover have "- 12 \<le> dexp ?f" "dexp ?f \<le> 39" using dexp_dec_fix [of q default_precision] valid by (auto simp: valid_numeric)
  ultimately have "decimal_exact (expanded ?n)"
    using k by (auto simp: decimal_exact_def n expanded_def ndigits_mult_power)
  then have "decimal_of_text (dec_text_f ?n) = Some (Finite (expanded ?n))"
    using k by (intro text_f_roundtrip) (simp_all add: n)
  with False show ?thesis by (auto simp: canonical_decimal_def dval_expanded dval_dec_normalize p)
qed

lemma canonical_decimal_value:
  assumes "validate_numeric_value q m = Inr ()" and "validate_numeric_value r n = Inr ()"
    and "canonical_decimal q = canonical_decimal r"
  shows "dval (dec_fix default_precision q) = dval (dec_fix default_precision r)"
  using canonical_decimal_reads [OF assms(1)] canonical_decimal_reads [OF assms(2)] assms(3) by auto

section \<open>Times as text\<close>

text \<open>Every day has its own date: the days before a date can be counted from it.\<close>

definition days_before_year :: "int \<Rightarrow> int" where
  "days_before_year y = (y - 1) * 365 + (y - 1) div 4 - (y - 1) div 100 + (y - 1) div 400"

definition days_of_ymd :: "int \<times> int \<times> int \<Rightarrow> int" where
  "days_of_ymd ymd = (case ymd of (y, m, d) \<Rightarrow> days_before_year y + sum_list (take (nat (m - 1)) (month_lengths y)) + d - 1)"

lemma month_day_counts:
  assumes "month_day ls m n = (m', d)" and "0 \<le> n" and "ls \<noteq> []"
  shows "m \<le> m' \<and> sum_list (take (nat (m' - m)) ls) + d = n + 1 \<and> 1 \<le> d"
  using assms
proof (induction ls m n rule: month_day.induct)
  case (1 l l' ls m n)
  show ?case
  proof (cases "n < l")
    case True
    with 1 show ?thesis by auto
  next
    case False
    with 1(1) [OF False] 1(2,3) have le: "m + 1 \<le> m'" and sum: "sum_list (take (nat (m' - (m + 1))) (l' # ls)) + d = n - l + 1" "1 \<le> d"
      by auto
    have "nat (m' - m) = Suc (nat (m' - (m + 1)))" using le by simp
    with le sum show ?thesis by simp
  qed
qed auto

lemma year_parts:
  fixes a b c d :: int
  assumes "0 \<le> b" "b \<le> 3" "0 \<le> c" "c \<le> 24" "0 \<le> d" "d \<le> 3"
  shows "days_before_year (a * 400 + b * 100 + c * 4 + d + 1) = a * 146097 + b * 36524 + c * 1461 + d * 365"
proof -
  let ?y = "a * 400 + b * 100 + c * 4 + d"
  have "?y div 4 = a * 100 + b * 25 + c" "?y div 100 = a * 4 + b" "?y div 400 = a" using assms by linarith+
  then show ?thesis by (simp add: days_before_year_def)
qed

lemma days_of_ymd_of_days:
  assumes "0 \<le> n"
  shows "days_of_ymd (ymd_of_days n) = n \<and> (case ymd_of_days n of (y, m, d) \<Rightarrow> 1 \<le> y \<and> 1 \<le> m \<and> 1 \<le> d)"
proof -
  define a r400 where "a = n div 146097" and "r400 = n mod 146097"
  define b r100 where "b = r400 div 36524" and "r100 = r400 mod 36524"
  define c r4 where "c = r100 div 1461" and "r4 = r100 mod 1461"
  define d r1 where "d = r4 div 365" and "r1 = r4 mod 365"
  note defs = a_def r400_def b_def r100_def c_def r4_def d_def r1_def
  have parts: "n = a * 146097 + r400" "r400 = b * 36524 + r100" "r100 = c * 1461 + r4" "r4 = d * 365 + r1" by (simp_all add: defs)
  have rests: "0 \<le> r400" "r400 < 146097" "0 \<le> r100" "r100 < 36524" "0 \<le> r4" "r4 < 1461" "0 \<le> r1" "r1 < 365" by (simp_all add: defs)
  note facts = parts rests
  have n: "n = a * 146097 + b * 36524 + c * 1461 + d * 365 + r1" using parts by simp
  have bounds: "0 \<le> a" "0 \<le> b" "b \<le> 4" "0 \<le> c" "c \<le> 24" "0 \<le> d" "d \<le> 4" "0 \<le> r1" "r1 \<le> 364"
    using facts assms by linarith+
  have b4: "c = 0 \<and> d = 0 \<and> r1 = 0" if "b = 4" using facts bounds that by linarith
  have d4: "d = 4 \<Longrightarrow> r1 = 0" and c24: "c = 24 \<Longrightarrow> d \<le> 3" using facts by linarith+
  let ?y = "a * 400 + b * 100 + c * 4 + d + 1"
  have ymd: "ymd_of_days n = (if d = 4 \<or> b = 4 then (?y - 1, 12, 31) else case month_day (month_lengths ?y) 1 r1 of (m, k) \<Rightarrow> (?y, m, k))"
    by (simp add: ymd_of_days_def Let_def defs)
  show ?thesis
  proof (cases "d = 4 \<or> b = 4")
    case True
    have "is_leap (?y - 1) \<and> days_before_year (?y - 1) = n - 365"
    proof (cases "b = 4")
      case True
      with b4 have z: "c = 0" "d = 0" "r1 = 0" by auto
      have "days_before_year (a * 400 + 3 * 100 + 24 * 4 + 3 + 1) = a * 146097 + 3 * 36524 + 24 * 1461 + 3 * 365"
        by (rule year_parts) simp_all
      with True z show ?thesis by (simp add: is_leap_def n)
    next
      case False
      with True have d: "d = 4" by simp
      with d4 c24 bounds(5) have z: "r1 = 0" "c \<noteq> 24" by auto
      have "days_before_year (a * 400 + b * 100 + c * 4 + 4) = a * 146097 + b * 36524 + c * 1461 + 3 * 365"
        using year_parts [of b c 3 a] bounds False by (simp add: add.assoc)
      moreover have "(a * 400 + b * 100 + c * 4 + 4) mod 4 = 0" by presburger
      moreover have "(c * 4 + 4 + 100 * (a * 4 + b)) mod 100 = (c * 4 + 4) mod 100" by (rule mod_mult_self2)
      then have "(a * 400 + b * 100 + c * 4 + 4) mod 100 = c * 4 + 4" using bounds(4,5) z(2) by (simp add: algebra_simps)
      then have "(a * 400 + b * 100 + c * 4 + 4) mod 100 \<noteq> 0" using bounds(4) by linarith
      ultimately have "is_leap (a * 400 + b * 100 + c * 4 + 4)"
        "days_before_year (a * 400 + b * 100 + c * 4 + 4) = n - 365" unfolding is_leap_def by (simp_all only: n d z(1)) simp_all
      moreover have "?y - 1 = a * 400 + b * 100 + c * 4 + 4" using d by simp
      ultimately show ?thesis by (simp only:)
    qed
    moreover have "1 \<le> ?y - 1" using True bounds by auto
    ultimately show ?thesis using True by (simp add: ymd days_of_ymd_def month_lengths_def)
  next
    case False
    obtain m k where mk: "month_day (month_lengths ?y) 1 r1 = (m, k)" by fastforce
    have "days_before_year ?y = a * 146097 + b * 36524 + c * 1461 + d * 365"
      using bounds False by (intro year_parts) auto
    moreover have "month_lengths ?y \<noteq> []" by (simp add: month_lengths_def)
    note month_day_counts [OF mk bounds(8) this]
    moreover from False mk have "ymd_of_days n = (?y, m, k)" by (simp add: ymd)
    moreover have "1 \<le> ?y" using bounds by linarith
    ultimately show ?thesis using n by (simp add: days_of_ymd_def)
  qed
qed

text \<open>Texts that start with digits up to a separator.\<close>

lemma zero_padded_digits: "list_all is_digit (zero_padded w n)"
  by (simp add: zero_padded_def Let_def nat_text_all_digits zeros_digits)

lemma zero_padded_inject: "zero_padded v m = zero_padded w n \<Longrightarrow> m = n"
proof -
  have "digits_value (zero_padded w n) = n" for w n by (simp add: zero_padded_def Let_def digits_value_zeros)
  then show "zero_padded v m = zero_padded w n \<Longrightarrow> m = n" by metis
qed

lemma digits_then:
  assumes "\<not> is_digit c"
  shows "zero_padded v m @ c # s = zero_padded w n @ c # t \<longleftrightarrow> zero_padded v m = zero_padded w n \<and> s = t"
proof -
  have "takeWhile is_digit (zero_padded w n @ c # s) = zero_padded w n" for w n s
    using assms zero_padded_digits [of w n] by (subst takeWhile_append2) (auto simp: list_all_iff)
  then show ?thesis by (metis append_same_eq same_append_eq list.inject)
qed

lemma canonical_datetime_inject:
  assumes t: "valid_datetime t" and u: "valid_datetime u"
    and eq: "canonical_datetime (utc_stamp t) = canonical_datetime (utc_stamp u)"
  shows "t = u"
proof -
  let ?s = "\<lambda>t. t mod us_per_day div us_per_second"
  have sep: "\<not> is_digit (CHR ''-'')" "\<not> is_digit (CHR ''T'')" "\<not> is_digit (CHR '':'')" "\<not> is_digit (CHR ''.'')" "\<not> is_digit (CHR ''Z'')"
    by (simp_all add: is_digit_code)
  obtain y m d where ymd: "ymd_of_days (t div us_per_day) = (y, m, d)" by (cases "ymd_of_days (t div us_per_day)")
  obtain y' m' d' where ymd': "ymd_of_days (u div us_per_day) = (y', m', d')" by (cases "ymd_of_days (u div us_per_day)")
  have pos: "0 \<le> t div us_per_day" "0 \<le> u div us_per_day"
    using t u by (simp_all add: valid_datetime_def us_per_day_def pos_imp_zdiv_nonneg_iff)
  note days = days_of_ymd_of_days [OF pos(1), unfolded ymd] days_of_ymd_of_days [OF pos(2), unfolded ymd']
  from eq t u have
    "nat y = nat y' \<and> nat m = nat m' \<and> nat d = nat d' \<and> nat (?s t div 3600) = nat (?s u div 3600) \<and>
     nat (?s t div 60 mod 60) = nat (?s u div 60 mod 60) \<and> nat (?s t mod 60) = nat (?s u mod 60) \<and>
     nat (t mod us_per_second) = nat (u mod us_per_second)"
    by (auto simp: canonical_datetime_def date_text_def clock_text_def ymd ymd' digits_then sep dest: zero_padded_inject)
  then have e: "nat y = nat y'" "nat m = nat m'" "nat d = nat d'" "nat (?s t div 3600) = nat (?s u div 3600)"
    "nat (?s t div 60 mod 60) = nat (?s u div 60 mod 60)" "nat (?s t mod 60) = nat (?s u mod 60)"
    "nat (t mod us_per_second) = nat (u mod us_per_second)" by blast+
  have inj: "nat a = nat b \<Longrightarrow> 0 \<le> a \<Longrightarrow> 0 \<le> b \<Longrightarrow> a = b" for a b by (simp only: eq_nat_nat_iff)
  have s: "0 \<le> ?s x" for x by (simp add: us_per_day_def us_per_second_def pos_imp_zdiv_nonneg_iff)
  have "y = y'" "m = m'" "d = d'" using days by (intro inj e; simp)+
  then have eqs: "(y, m, d) = (y', m', d')" by simp
  have nonneg: "0 \<le> x div 3600 \<and> 0 \<le> x div 60 mod 60 \<and> 0 \<le> x mod 60" if "0 \<le> x" for x :: int
    using that by (simp add: pos_imp_zdiv_nonneg_iff)
  note n = nonneg [OF s [of t]] nonneg [OF s [of u]]
  have clock: "?s t div 3600 = ?s u div 3600" "?s t div 60 mod 60 = ?s u div 60 mod 60" "?s t mod 60 = ?s u mod 60"
    by (rule inj [OF e(4)] inj [OF e(5)] inj [OF e(6)]; rule n [THEN conjunct1] n [THEN conjunct2, THEN conjunct1]
        n [THEN conjunct2, THEN conjunct2])+
  have us: "t mod us_per_second = u mod us_per_second" by (rule inj [OF e(7)]) (simp_all add: us_per_second_def)
  from eqs days have "t div us_per_day = u div us_per_day" by auto
  moreover have "a = b" if "a div 3600 = b div 3600" "a div 60 mod 60 = b div 60 mod 60" "a mod 60 = b mod 60" for a b :: int
  proof -
    have split: "x = 3600 * (x div 3600) + 60 * (x div 60 mod 60) + x mod 60" for x :: int
    proof -
      have "x div 3600 = x div 60 div 60" by (simp flip: zdiv_zmult2_eq)
      then show ?thesis using mult_div_mod_eq [of 60 "x div 60"] mult_div_mod_eq [of 60 x] by linarith
    qed
    have "a = 3600 * (b div 3600) + 60 * (b div 60 mod 60) + b mod 60" using split [of a] unfolding that .
    also have "\<dots> = b" by (rule split [symmetric])
    finally show ?thesis .
  qed
  from this [OF clock] have "?s t = ?s u" .
  moreover have "x = x div us_per_day * us_per_day + ?s x * us_per_second + x mod us_per_second" for x
  proof -
    have "x mod us_per_day mod us_per_second = x mod us_per_second"
      by (rule mod_mod_cancel) (simp add: us_per_day_def us_per_second_def)
    then show ?thesis using div_mult_mod_eq [of x us_per_day] div_mult_mod_eq [of "x mod us_per_day" us_per_second] by linarith
  qed
  ultimately show ?thesis using us by metis
qed

end
