(* ===== verification/IngestionClaims.thy ===== *)
theory IngestionClaims
  imports CanonicalText
begin

text \<open>
  What the interpretation of raw cells guarantees: which instant a local time denotes, which
  decimals are accepted, and what the fingerprint of an observation tells apart.
\<close>

section \<open>Parsed values\<close>

lemma raise_issue_Inl [simp]: "raise_issue n field code cell expected \<noteq> Inr x"
  by (auto simp: raise_issue_def rbind_Inr_iff)

lemma required_source_value_Inr [simp]:
  "required_source_value cell n field = Inr v \<longleftrightarrow> cell_kind cell = VALUE_CELL \<and> cell_original cell = Some v"
  by (auto simp: required_source_value_def split: raw_cell_kind.splits option.splits)

lemma parse_decimal_Inr:
  "parse_decimal_value cell n field = Inr d \<longleftrightarrow> cell_kind cell = VALUE_CELL \<and> (\<exists>s. cell_original cell = Some s \<and>
     decimal_of_text (py_strip s) = Some (Finite d) \<and> validate_numeric_value d field = Inr ())"
  (is "?l \<longleftrightarrow> ?r")
proof
  assume ?l
  then obtain s where s: "cell_kind cell = VALUE_CELL" "cell_original cell = Some s"
    and v: "(case decimal_of_text (py_strip s) of
         None \<Rightarrow> raise_issue n field INVALID_DECIMAL cell ''a base-10 decimal''
       | Some (Finite d) \<Rightarrow> (case validate_numeric_value d field of
             Inl _ \<Rightarrow> raise_issue n field UNSUPPORTED_PRECISION cell ''at most 38 total digits and 12 fractional digits''
           | Inr _ \<Rightarrow> Inr d)
       | Some _ \<Rightarrow> raise_issue n field NON_FINITE_DECIMAL cell ''a finite decimal'') = Inr d"
    by (auto simp: parse_decimal_value_def rbind_Inr_iff)
  from v obtain x where x: "decimal_of_text (py_strip s) = Some (Finite x)"
    by (cases "decimal_of_text (py_strip s)"; cases "the (decimal_of_text (py_strip s))") simp_all
  with v have "validate_numeric_value x field = Inr () \<and> x = d" by (cases "validate_numeric_value x field") simp_all
  with s x show ?r by blast
next
  show "?r \<Longrightarrow> ?l" by (auto simp: parse_decimal_value_def rbind_Inr_iff)
qed

lemma dval_bound: "\<bar>dval d\<bar> < 10 powi (int (ndigits (dcoef d)) + dexp d)"
proof -
  have "(of_nat (dcoef d) :: rat) < of_nat (10 ^ ndigits (dcoef d))"
    using ndigits_upper [of "dcoef d"] by (simp only: of_nat_less_iff)
  then have "of_nat (dcoef d) * (10 :: rat) powi dexp d < 10 powi int (ndigits (dcoef d)) * 10 powi dexp d"
    by (simp add: mult_less_cancel_right_pos)
  then show ?thesis by (simp add: dval_def abs_mult power_int_add)
qed

text \<open>C39. Accepted decimals are read exactly: the value is the one the cell spells, it is a whole number of
  units of the twelfth decimal place, and it is below 10^38 in absolute value. That is not what the
  column NUMERIC(38,12) holds, which ends at 10^26.\<close>

theorem accepted_decimals_are_exact:
  assumes "parse_decimal_value cell n field = Inr d"
  shows "(\<exists>s. cell_original cell = Some s \<and> decimal_of_text (py_strip s) = Some (Finite d)) \<and>
    (\<exists>k. dval d * 10 ^ 12 = of_int k) \<and> \<bar>dval d\<bar> < 10 ^ 38"
proof (intro conjI)
  from assms have v: "- 12 \<le> dexp d" "max (int (ndigits (dcoef d)) + dexp d) 0 + max (- dexp d) 0 \<le> 38"
    and s: "\<exists>s. cell_original cell = Some s \<and> decimal_of_text (py_strip s) = Some (Finite d)"
    by (auto simp: parse_decimal_Inr valid_numeric)
  show "\<exists>s. cell_original cell = Some s \<and> decimal_of_text (py_strip s) = Some (Finite d)" by (rule s)
  have "dval d * 10 ^ 12 = of_int (scaled d (- 12))"
    using scaled_dval [of "- 12" d] v(1) by (simp add: power_int_minus field_simps)
  then show "\<exists>k. dval d * 10 ^ 12 = of_int k" by blast
  have "int (ndigits (dcoef d)) + dexp d \<le> 38" using v(2) by linarith
  then have "(10 :: rat) powi (int (ndigits (dcoef d)) + dexp d) \<le> 10 powi 38" by (intro power_int_increasing) simp_all
  with dval_bound [of d] show "\<bar>dval d\<bar> < 10 ^ 38" by (simp add: power_int_def)
qed

definition large_cell :: raw_cell where
  "large_cell = \<lparr>cell_kind = VALUE_CELL, cell_original = Some ''1E+30''\<rparr>"

lemma large_accepted: "parse_decimal_value large_cell 1 ''quantity'' = Inr (Dec False 1 30)"
proof -
  have n: "ndigits (Suc 0) = Suc 0" "nat_text (Suc 0) = ''1''" "nat_text 30 = ''30''" by (simp_all add: ndigits.simps nat_text.simps)
  have "dec_text (Dec False 1 30) = ''1E+30''" by (simp add: dec_text_def sign_text_def int_text_def Let_def n)
  moreover have "decimal_exact (Dec False 1 30)" using n by (simp add: decimal_exact_def)
  ultimately have "decimal_of_text ''1E+30'' = Some (Finite (Dec False 1 30))" using decimal_text_roundtrip by metis
  moreover have "py_strip ''1E+30'' = ''1E+30''" by (rule strip_kept) (simp_all add: visible_def)
  ultimately show ?thesis using n by (simp add: parse_decimal_Inr valid_numeric large_cell_def)
qed

text \<open>The number accepted here has 31 digits before the point; the column holds 26.\<close>

theorem accepted_decimals_are_exact_witness:
  "dval (Dec False 1 30) < (10 :: rat) ^ 38 \<and> (10 :: rat) ^ 26 \<le> dval (Dec False 1 30)"
  using accepted_decimals_are_exact [OF large_accepted] by (simp add: dval_def power_int_def)

section \<open>Local times\<close>

lemma instant_Inr: "instant_of zone wall later = Inr u \<longleftrightarrow> u = wall - tz_offset zone wall later \<and> valid_datetime u"
  by (auto simp: instant_of_def Let_def)

lemma fold_instants_Inr:
  "fold_instants zone wall later = Inr us \<Longrightarrow> set us = {u. instant_of zone wall later = Inr u \<and> tz_wall zone u = wall} \<and> (\<exists>u. instant_of zone wall later = Inr u)"
  by (auto simp: fold_instants_def round_trips_def rbind_Inr_iff split: if_splits)

lemma distinct_instants_Inr:
  assumes "distinct_instants zone wall = Inr us"
  shows "sorted us \<and> distinct us \<and>
    set us = {u. valid_datetime u \<and> (\<exists>later. u = wall - tz_offset zone wall later) \<and> tz_wall zone u = wall}"
proof -
  from assms obtain a b where a: "fold_instants zone wall False = Inr a" "fold_instants zone wall True = Inr b"
    and us: "us = sort (remdups (a @ b))" by (auto simp: distinct_instants_def rbind_Inr_iff)
  have "(\<exists>later. u = wall - tz_offset zone wall later) \<longleftrightarrow>
      u = wall - tz_offset zone wall False \<or> u = wall - tz_offset zone wall True" for u
    by (auto simp: ex_bool_eq)
  with fold_instants_Inr [OF a(1)] fold_instants_Inr [OF a(2)] show ?thesis by (auto simp: us instant_Inr)
qed

text \<open>
  What the documentation of \<open>datetime\<close> promises of a time zone (PEP 495): the wall time of an instant
  and one of the two values of \<open>fold\<close> give the offset that leads back to the instant.
\<close>

definition lawful_zone :: "timezone \<Rightarrow> bool" where
  "lawful_zone zone \<longleftrightarrow> (\<forall>v. valid_datetime v \<longrightarrow> (\<exists>later. v = tz_wall zone v - tz_offset zone (tz_wall zone v) later))"

text \<open>C22. A timestamp without an offset, in the ISO format or in another one, denotes an instant at which the zone
  shows exactly that wall time. Under the policy that rejects folds no other instant of the years 1 to
  9999 shows it; otherwise it is the earliest or the latest one that does, as the contract says. The zone
  keeps the promise of PEP 495.\<close>

theorem local_times_resolve:
  assumes "parse_datetime_value readers zones cell n field fmt (Some name) policy = Inr u"
    and "cell_original cell = Some s"
    and "(if fmt = ''ISO8601'' then read_iso readers (zulu_as_offset (py_strip s)) else read_format readers fmt (py_strip s)) =
      Some (Naive wall)"
    and "zones name = Inr (Some zone)" and "lawful_zone zone"
  shows "valid_datetime u \<and> tz_wall zone u = wall \<and> (\<forall>v. valid_datetime v \<and> tz_wall zone v = wall \<longrightarrow>
    (case policy of REJECT_FOLD \<Rightarrow> v = u | EARLIER_FOLD \<Rightarrow> u \<le> v | LATER_FOLD \<Rightarrow> v \<le> u))"
proof -
  from assms(1-4) obtain us where us: "distinct_instants zone wall = Inr us"
    and u: "(case us of [] \<Rightarrow> raise_issue n field NONEXISTENT_DATETIME cell (''an existing local time in '' @ the (Some name))
      | [u] \<Rightarrow> Inr u
      | u # _ \<Rightarrow> if policy = REJECT_FOLD
          then raise_issue n field AMBIGUOUS_DATETIME cell (''an unambiguous local time in '' @ the (Some name) @ '' or an explicit fold'')
          else Inr (if policy = EARLIER_FOLD then u else last us)) = Inr u"
    by (auto simp: parse_datetime_value_def rbind_Inr_iff Let_def split: if_splits)
  note all = distinct_instants_Inr [OF us]
  have shown: "v \<in> set us \<longleftrightarrow> valid_datetime v \<and> tz_wall zone v = wall" for v
    using all assms(5) unfolding lawful_zone_def by auto
  consider "us = [u]" | x y zs where "us = x # y # zs" "policy \<noteq> REJECT_FOLD" "u = (if policy = EARLIER_FOLD then x else last us)"
    using u by (cases us rule: remdups_adj.cases) (simp_all split: if_split_asm)
  then have "u \<in> set us \<and> (\<forall>v \<in> set us. case policy of REJECT_FOLD \<Rightarrow> v = u | EARLIER_FOLD \<Rightarrow> u \<le> v | LATER_FOLD \<Rightarrow> v \<le> u)"
  proof cases
    case 1
    then show ?thesis by (simp split: date_fold_policy.splits)
  next
    case 2
    have "sorted xs \<Longrightarrow> v \<in> set xs \<Longrightarrow> v \<le> last xs" for xs :: "int list" and v by (induction xs) auto
    with all have top: "v \<le> last us" if "v \<in> set us" for v using that by blast
    have "last us \<in> set us" using 2(1) by simp
    moreover have "x \<le> v" if "v \<in> set us" for v using that all 2(1) by auto
    ultimately show ?thesis using 2 top by (cases policy) simp_all
  qed
  then show ?thesis by (simp add: shown)
qed

text \<open>A zone whose clocks go back by an hour at \<open>10000\<close> seconds.\<close>

definition autumn_zone :: timezone where
  "autumn_zone = \<lparr>tz_offset = (\<lambda>wall later. if wall < 10000000000 then 3600000000
       else if wall < 13600000000 then (if later then 0 else 3600000000) else 0),
     tz_wall = (\<lambda>u. if u < 10000000000 then u + 3600000000 else u)\<rparr>"

lemma autumn_lawful: "lawful_zone autumn_zone"
  by (auto simp: lawful_zone_def autumn_zone_def ex_bool_eq)

theorem local_times_resolve_witness:
  "tz_wall autumn_zone 11000000000 = 11000000000 \<and>
   parse_datetime_value \<lparr>read_iso = (\<lambda>_. Some (Naive 11000000000)), read_format = (\<lambda>_ _. None)\<rparr> (\<lambda>_. Inr (Some autumn_zone))
     \<lparr>cell_kind = VALUE_CELL, cell_original = Some ''x''\<rparr> 1 ''at'' ''ISO8601'' (Some ''Z'') LATER_FOLD = Inr 11000000000"
proof -
  have "parse_datetime_value \<lparr>read_iso = (\<lambda>_. Some (Naive 11000000000)), read_format = (\<lambda>_ _. None)\<rparr> (\<lambda>_. Inr (Some autumn_zone))
     \<lparr>cell_kind = VALUE_CELL, cell_original = Some ''x''\<rparr> 1 ''at'' ''ISO8601'' (Some ''Z'') LATER_FOLD = Inr 11000000000"
    by (simp add: parse_datetime_value_def required_source_value_def distinct_instants_def fold_instants_def round_trips_def
        instant_of_def autumn_zone_def valid_datetime_def datetime_max_def us_per_day_def Let_def)
  with local_times_resolve [OF this, of "''x''" 11000000000 autumn_zone] autumn_lawful show ?thesis by simp
qed

section \<open>Fingerprints\<close>

text \<open>The members of an object survive sorting.\<close>

lemma sorted_member:
  assumes "sorted_keys (JObject ms) = sorted_keys (JObject ns)" and "(k, v) \<in> set ms"
  shows "\<exists>w. (k, w) \<in> set ns \<and> sorted_keys v = sorted_keys w"
proof -
  from assms(1) have "set (sort_key fst (map (\<lambda>m. (fst m, sorted_keys (snd m))) ms)) =
      set (sort_key fst (map (\<lambda>m. (fst m, sorted_keys (snd m))) ns))" by simp
  moreover from assms(2) have "(k, sorted_keys v) \<in> set (map (\<lambda>m. (fst m, sorted_keys (snd m))) ms)" by force
  ultimately have "(k, sorted_keys v) \<in> (\<lambda>m. (fst m, sorted_keys (snd m))) ` set ns" by (simp only: set_sort set_map)
  then obtain n where "n \<in> set ns" "k = fst n" "sorted_keys v = sorted_keys (snd n)" by auto
  then show ?thesis by (metis prod.collapse)
qed

text \<open>The text a digest is taken of.\<close>

definition digest_text :: "string \<Rightarrow> json \<Rightarrow> string" where
  "digest_text kind payload = canonical_json (JObject
     [(''version'', JText HASH_SCHEME_VERSION), (''kind'', JText kind), (''payload'', payload)])"

lemma digest_of_text: "digest_of sha256 kind payload = sha256 (digest_text kind payload)"
  by (simp only: digest_of_def digest_text_def)

lemma digest_text_inject:
  assumes "digest_text kind p = digest_text kind q"
  shows "sorted_keys p = sorted_keys q"
proof -
  let ?o = "\<lambda>x. JObject [(''version'', JText HASH_SCHEME_VERSION), (''kind'', JText kind), (''payload'', x)]"
  from assms have "canonical_json (?o p) = canonical_json (?o q)" unfolding digest_text_def .
  then have "sorted_keys (?o p) = sorted_keys (?o q)" unfolding canonical_json_def json_dumps_inject .
  from sorted_member [OF this, of "''payload''" p] show ?thesis by simp
qed

lemma tag_value_inject: "tag_value a = tag_value b \<longleftrightarrow> a = b"
  by (cases a; cases b) simp_all

lemma json_text_or_null_simps: "sorted_keys (json_text_or_null v) = json_text_or_null v"
  "json_text_or_null v = json_text_or_null w \<longleftrightarrow> v = w"
  by (cases v; cases w; simp add: json_text_or_null_def)+

lemma sorted_field_json: "sorted_keys (field_json f) = sorted_keys (field_json g) \<Longrightarrow> f = g"
proof -
  assume eq: "sorted_keys (field_json f) = sorted_keys (field_json g)"
  note member = sorted_member [OF eq [unfolded field_json_def]]
  from member [of "''name''" "JText (fst f)"] member [of "''tag''" "JText (tag_value (sv_tag (snd f)))"]
    member [of "''value''" "json_text_or_null (sv_value (snd f))"]
  have "fst f = fst g" "sv_tag (snd f) = sv_tag (snd g)" "sv_value (snd f) = sv_value (snd g)"
    by (simp_all add: tag_value_inject json_text_or_null_simps)
  then show ?thesis by (simp add: prod_eq_iff)
qed

lemma sorted_fields_json: "sorted_keys (fields_json ms) = sorted_keys (fields_json ns) \<Longrightarrow> set ms = set ns"
proof -
  assume "sorted_keys (fields_json ms) = sorted_keys (fields_json ns)"
  then have "map (\<lambda>f. sorted_keys (field_json f)) (sort_key fst ms) = map (\<lambda>f. sorted_keys (field_json f)) (sort_key fst ns)"
    by (simp add: fields_json_def comp_def)
  moreover have "inj (\<lambda>f. sorted_keys (field_json f))" by (rule injI) (rule sorted_field_json)
  ultimately have "sort_key fst ms = sort_key fst ns" by (simp only: inj_map_eq_map)
  then show ?thesis by (metis set_sort)
qed

text \<open>The fields of a record with the given time of execution.\<close>

definition semantic_fields :: "canonical_row \<Rightarrow> string \<Rightarrow> (string \<times> semantic_value) list" where
  "semantic_fields r executed =
     [(''source_record_key'', \<lparr>sv_tag = TEXT_TAG, sv_value = Some (cw_source_record_key r)\<rparr>),
      (''business_reference'', \<lparr>sv_tag = TEXT_TAG, sv_value = Some (case cw_business_reference r of None \<Rightarrow> [] | Some b \<Rightarrow> b)\<rparr>),
      (''executed_at_utc'', \<lparr>sv_tag = DATETIME_TAG, sv_value = Some executed\<rparr>),
      (''instrument'', \<lparr>sv_tag = TEXT_TAG, sv_value = Some (cw_instrument r)\<rparr>),
      (''side'', \<lparr>sv_tag = ENUM_TAG, sv_value = Some (side_value (cw_side r))\<rparr>),
      (''quantity'', \<lparr>sv_tag = DECIMAL_TAG, sv_value = Some (canonical_decimal (cw_quantity r))\<rparr>),
      (''unit_price'', \<lparr>sv_tag = DECIMAL_TAG, sv_value = Some (canonical_decimal (cw_unit_price r))\<rparr>),
      (''gross_amount'', \<lparr>sv_tag = DECIMAL_TAG, sv_value = Some (canonical_decimal (cw_gross_amount r))\<rparr>),
      (''currency'', \<lparr>sv_tag = TEXT_TAG, sv_value = Some (cw_currency r)\<rparr>),
      (''state'', \<lparr>sv_tag = ENUM_TAG, sv_value = Some (state_value (cw_state r))\<rparr>)]"

lemma semantic_fields_inject:
  assumes same: "set (semantic_fields q x) = set (semantic_fields r y)"
  shows "x = y \<and> cw_source_record_key q = cw_source_record_key r \<and>
    (case cw_business_reference q of None \<Rightarrow> [] | Some b \<Rightarrow> b) = (case cw_business_reference r of None \<Rightarrow> [] | Some b \<Rightarrow> b) \<and>
    cw_instrument q = cw_instrument r \<and> cw_side q = cw_side r \<and> cw_currency q = cw_currency r \<and> cw_state q = cw_state r \<and>
    canonical_decimal (cw_quantity q) = canonical_decimal (cw_quantity r) \<and>
    canonical_decimal (cw_unit_price q) = canonical_decimal (cw_unit_price r) \<and>
    canonical_decimal (cw_gross_amount q) = canonical_decimal (cw_gross_amount r)"
proof -
  have kept: "v = w" if "(n, v) \<in> set (semantic_fields q x)" "(n, w) \<in> set (semantic_fields r y)" for n v w
  proof -
    have "distinct (map fst (semantic_fields r y))" by (simp add: semantic_fields_def)
    with that same show ?thesis by (metis eq_key_imp_eq_value)
  qed
  note member = kept [unfolded semantic_fields_def]
  have "x = y"
    using member [of "''executed_at_utc''"] by simp
  moreover have "cw_source_record_key q = cw_source_record_key r"
    using member [of "''source_record_key''"] by simp
  moreover have "(case cw_business_reference q of None \<Rightarrow> [] | Some b \<Rightarrow> b) = (case cw_business_reference r of None \<Rightarrow> [] | Some b \<Rightarrow> b)"
    using member [of "''business_reference''"] by simp
  moreover have "cw_instrument q = cw_instrument r"
    using member [of "''instrument''"] by simp
  moreover have "cw_side q = cw_side r"
    using member [of "''side''"] by simp
  moreover have "cw_currency q = cw_currency r"
    using member [of "''currency''"] by simp
  moreover have "cw_state q = cw_state r"
    using member [of "''state''"] by simp
  moreover have "canonical_decimal (cw_quantity q) = canonical_decimal (cw_quantity r)"
    using member [of "''quantity''"] by simp
  moreover have "canonical_decimal (cw_unit_price q) = canonical_decimal (cw_unit_price r)"
    using member [of "''unit_price''"] by simp
  moreover have "canonical_decimal (cw_gross_amount q) = canonical_decimal (cw_gross_amount r)"
    using member [of "''gross_amount''"] by simp
  ultimately show ?thesis by blast
qed

lemma tagged_Inr: "tag \<noteq> MISSING_TAG \<Longrightarrow> tag \<noteq> EMPTY_TAG \<Longrightarrow> tagged tag v = Inr \<lparr>sv_tag = tag, sv_value = Some v\<rparr>"
  by (simp add: tagged_def semantic_value_post_init_def checks_Inr_iff)

lemma semantic_row_Inr:
  assumes "semantic_row_from_canonical r = Inr s"
  shows "\<exists>executed. canonical_datetime (cw_executed_at_utc r) = Inr executed \<and> sr_operation s = operation_value (cw_operation r) \<and>
    sr_fields s = semantic_fields r executed"
proof -
  from assms obtain executed where executed: "canonical_datetime (cw_executed_at_utc r) = Inr executed"
    by (auto simp: semantic_row_from_canonical_def rbind_Inr_iff)
  have "semantic_row_post_init \<lparr>sr_operation = operation_value (cw_operation r), sr_fields = semantic_fields r executed\<rparr> = Inr s"
    using assms by (simp add: semantic_row_from_canonical_def executed tagged_Inr semantic_fields_def)
  then have "s = \<lparr>sr_operation = operation_value (cw_operation r), sr_fields = semantic_fields r executed\<rparr>"
    by (simp add: semantic_row_post_init_def checks_Inr_iff del: checks.simps)
  then show ?thesis using executed by simp
qed

lemma operation_value_inject: "operation_value a = operation_value b \<longleftrightarrow> a = b"
  by (cases a; cases b) simp_all

lemma cell_kind_value_inject: "cell_kind_value a = cell_kind_value b \<longleftrightarrow> a = b"
  by (cases a; cases b) simp_all

text \<open>What a fingerprint records of the provenance of a field: not the raw text of its cell.\<close>

definition provenance_facts :: "field_provenance \<Rightarrow> string \<times> string option \<times> raw_cell_kind \<times> string" where
  "provenance_facts p = (pv_canonical_field p, pv_source_column p, cell_kind (pv_raw_cell p), pv_transformation p)"

lemma sorted_provenance_json:
  assumes "sorted_keys (provenance_json p) = sorted_keys (provenance_json q)"
  shows "provenance_facts p = provenance_facts q"
proof -
  note member = sorted_member [OF assms [unfolded provenance_json_def]]
  from member [of "''canonical_field''" "JText (pv_canonical_field p)"] member [of "''transformation''" "JText (pv_transformation p)"]
    member [of "''source_column''" "json_text_or_null (pv_source_column p)"]
    member [of "''source_kind''" "JText (cell_kind_value (cell_kind (pv_raw_cell p)))"]
  show ?thesis by (simp add: provenance_facts_def json_text_or_null_simps cell_kind_value_inject)
qed

lemma map_eq_coarser:
  assumes "\<And>x y. f x = f y \<Longrightarrow> h x = h y"
  shows "map f xs = map f ys \<Longrightarrow> map h xs = map h ys"
proof (induction xs arbitrary: ys)
  case (Cons x xs)
  then obtain y zs where "ys = y # zs" "f x = f y" "map f xs = map f zs" by (cases ys) simp_all
  then show ?case using Cons.IH [of zs] assms [of x y] by simp
qed simp

lemma sorted_provenances:
  assumes "map (\<lambda>p. sorted_keys (provenance_json p)) ps = map (\<lambda>q. sorted_keys (provenance_json q)) qs"
  shows "provenance_facts ` set ps = provenance_facts ` set qs"
proof -
  from assms have "map provenance_facts ps = map provenance_facts qs"
    by (rule map_eq_coarser [rotated]) (rule sorted_provenance_json)
  then show ?thesis by (metis set_map)
qed

text \<open>The text the fingerprint of a row is taken of.\<close>

definition fingerprint_text :: "string \<Rightarrow> canonical_row \<Rightarrow> string" where
  "fingerprint_text c r = (case semantic_row_from_canonical r of
     Inl _ \<Rightarrow> [] | Inr s \<Rightarrow> digest_text ''observation'' (observation_payload c s (cw_provenance r)))"

lemma fingerprint_Inr:
  assumes "observation_fingerprint sha256 c r = Inr f"
  shows "\<exists>s. semantic_row_from_canonical r = Inr s \<and> f = sha256 (fingerprint_text c r) \<and>
    fingerprint_text c r = digest_text ''observation'' (observation_payload c s (cw_provenance r))"
  using assms by (auto simp: observation_fingerprint_def rbind_Inr_iff digest_of_text fingerprint_text_def)

lemma observation_payload_inject:
  assumes "sorted_keys (observation_payload c s ps) = sorted_keys (observation_payload d t qs)"
  shows "c = d \<and> sr_operation s = sr_operation t \<and> set (sr_fields s) = set (sr_fields t) \<and>
    provenance_facts ` set ps = provenance_facts ` set qs"
proof -
  note member = sorted_member [OF assms [unfolded observation_payload_def]]
  from member [of "''contract_digest''" "JText c"] member [of "''operation''" "JText (sr_operation s)"]
  have "c = d" "sr_operation s = sr_operation t" by simp_all
  moreover from member [of "''fields''" "fields_json (sr_fields s)"]
  have "set (sr_fields s) = set (sr_fields t)" by (intro sorted_fields_json) simp
  moreover from member [of "''provenance''" "JArray (map provenance_json (sort_key pv_canonical_field ps))"]
  have "map (\<lambda>p. sorted_keys (provenance_json p)) (sort_key pv_canonical_field ps) =
      map (\<lambda>q. sorted_keys (provenance_json q)) (sort_key pv_canonical_field qs)" by (simp add: comp_def)
  then have "provenance_facts ` set ps = provenance_facts ` set qs" using sorted_provenances by (metis set_sort)
  ultimately show ?thesis by blast
qed

lemma canonical_row_Inr:
  "canonical_row_post_init r = Inr s \<longleftrightarrow> 1 \<le> cw_row_number r \<and> \<not> blank (cw_source_record_key r) \<and> \<not> blank (cw_instrument r) \<and>
     \<not> blank (cw_currency r) \<and> (case cw_business_reference r of None \<Rightarrow> True | Some b \<Rightarrow> \<not> blank b) \<and>
     (\<exists>t. as_utc (cw_executed_at_utc r) ''executed_at_utc'' = Inr t \<and> s = r\<lparr>cw_executed_at_utc := utc_stamp t\<rparr>) \<and>
     validate_numeric_value (cw_quantity r) ''quantity'' = Inr () \<and> validate_numeric_value (cw_unit_price r) ''unit_price'' = Inr () \<and>
     validate_numeric_value (cw_gross_amount r) ''gross_amount'' = Inr () \<and> cw_operation r \<noteq> RETRACT \<and>
     (cw_operation r = CANCEL \<longrightarrow> cw_state r = CANCELLED) \<and> distinct (map pv_canonical_field (cw_provenance r))"
  by (cases "cw_business_reference r")
    (auto simp: canonical_row_post_init_def rbind_Inr_iff checks_Inr_iff not_less)

text \<open>What the constructor of a canonical row leaves of the fields the fingerprint reads.\<close>

lemma constructed_row_fields:
  assumes "canonical_row_post_init r = Inr r"
  shows "\<exists>t. valid_datetime t \<and> cw_executed_at_utc r = utc_stamp t" and "cw_business_reference r \<noteq> Some []"
    and "validate_numeric_value (cw_quantity r) ''quantity'' = Inr ()" "validate_numeric_value (cw_unit_price r) ''unit_price'' = Inr ()"
      "validate_numeric_value (cw_gross_amount r) ''gross_amount'' = Inr ()"
proof -
  from assms obtain t where t: "as_utc (cw_executed_at_utc r) ''executed_at_utc'' = Inr t" "r\<lparr>cw_executed_at_utc := utc_stamp t\<rparr> = r"
    and rest: "\<not> (case cw_business_reference r of None \<Rightarrow> False | Some b \<Rightarrow> blank b)"
    and nums: "validate_numeric_value (cw_quantity r) ''quantity'' = Inr ()" "validate_numeric_value (cw_unit_price r) ''unit_price'' = Inr ()"
      "validate_numeric_value (cw_gross_amount r) ''gross_amount'' = Inr ()"
    by (auto simp: canonical_row_post_init_def rbind_Inr_iff checks_Inr_iff)
  from arg_cong [OF t(2), of cw_executed_at_utc] have "cw_executed_at_utc r = utc_stamp t" by simp
  then show "\<exists>t. valid_datetime t \<and> cw_executed_at_utc r = utc_stamp t" using t(1) by (auto simp: as_utc_Inr)
  show "cw_business_reference r \<noteq> Some []" using rest by (auto simp: blank_def py_strip_def)
  show "validate_numeric_value (cw_quantity r) ''quantity'' = Inr ()" "validate_numeric_value (cw_unit_price r) ''unit_price'' = Inr ()"
    "validate_numeric_value (cw_gross_amount r) ''gross_amount'' = Inr ()" by (rule nums)+
qed

text \<open>C21. If the digest does not collide on the two texts, equal fingerprints of two constructed rows come from the
  same contract and from rows that agree in every field the fingerprint covers: the source record, the
  business reference and its absence, the instant of the execution, instrument, side, currency, state
  and operation, the three amounts rounded to the 28 digits of the decimal context, and for each field
  where it came from, how its raw cell was filled and how it was transformed.\<close>

theorem fingerprints_identify:
  assumes "canonical_row_post_init q = Inr q" and "canonical_row_post_init r = Inr r"
    and "inj_on sha256 {fingerprint_text c q, fingerprint_text d r}"
    and "observation_fingerprint sha256 c q = Inr f" and "observation_fingerprint sha256 d r = Inr f"
  shows "c = d \<and> cw_source_record_key q = cw_source_record_key r \<and> cw_business_reference q = cw_business_reference r \<and>
    cw_executed_at_utc q = cw_executed_at_utc r \<and> cw_operation q = cw_operation r \<and>
    cw_instrument q = cw_instrument r \<and> cw_side q = cw_side r \<and> cw_currency q = cw_currency r \<and> cw_state q = cw_state r \<and>
    dval (dec_fix default_precision (cw_quantity q)) = dval (dec_fix default_precision (cw_quantity r)) \<and>
    dval (dec_fix default_precision (cw_unit_price q)) = dval (dec_fix default_precision (cw_unit_price r)) \<and>
    dval (dec_fix default_precision (cw_gross_amount q)) = dval (dec_fix default_precision (cw_gross_amount r)) \<and>
    provenance_facts ` set (cw_provenance q) = provenance_facts ` set (cw_provenance r)"
proof -
  note fq = constructed_row_fields [OF assms(1)] and fr = constructed_row_fields [OF assms(2)]
  obtain s t where s: "semantic_row_from_canonical q = Inr s" and t: "semantic_row_from_canonical r = Inr t"
    and eq: "digest_text ''observation'' (observation_payload c s (cw_provenance q)) =
      digest_text ''observation'' (observation_payload d t (cw_provenance r))"
    using fingerprint_Inr [OF assms(4)] fingerprint_Inr [OF assms(5)] inj_onD [OF assms(3)] by (metis insertI1 insertI2)
  note payload = observation_payload_inject [OF digest_text_inject [OF eq]]
  obtain x where x: "canonical_datetime (cw_executed_at_utc q) = Inr x" "sr_operation s = operation_value (cw_operation q)"
    and fs: "sr_fields s = semantic_fields q x" using semantic_row_Inr [OF s] by blast
  obtain y where y: "canonical_datetime (cw_executed_at_utc r) = Inr y" "sr_operation t = operation_value (cw_operation r)"
    and ft: "sr_fields t = semantic_fields r y" using semantic_row_Inr [OF t] by blast
  from payload have "set (semantic_fields q x) = set (semantic_fields r y)" unfolding fs ft by blast
  note same = semantic_fields_inject [OF this]
  with x(1) y(1) fq(1) fr(1) have "cw_executed_at_utc q = cw_executed_at_utc r" using canonical_datetime_inject by metis
  moreover have "cw_business_reference q = cw_business_reference r" using same fq(2) fr(2) by (auto split: option.splits)
  moreover have "cw_operation q = cw_operation r" using payload x y by (simp add: operation_value_inject)
  moreover note canonical_decimal_value [OF fq(3) fr(3)] canonical_decimal_value [OF fq(4) fr(4)]
    canonical_decimal_value [OF fq(5) fr(5)]
  ultimately show ?thesis using payload same by simp
qed


definition demo_provenance :: "string \<Rightarrow> field_provenance" where
  "demo_provenance n = \<lparr>pv_canonical_field = n, pv_source_column = Some n,
     pv_raw_cell = \<lparr>cell_kind = VALUE_CELL, cell_original = Some ''x''\<rparr>, pv_transformation = ''trim''\<rparr>"

definition demo_row :: "field_provenance list \<Rightarrow> canonical_row" where
  "demo_row ps = \<lparr>cw_row_number = 1, cw_source_record_key = ''k'', cw_business_reference = None,
     cw_executed_at_utc = utc_stamp 0, cw_instrument = ''i'', cw_side = BUY, cw_quantity = Dec False 0 0,
     cw_unit_price = Dec False 0 0, cw_gross_amount = Dec False 0 0, cw_currency = ''USD'', cw_state = SETTLED,
     cw_operation = UPSERT, cw_provenance = ps\<rparr>"

theorem fingerprints_identify_witness:
  "\<exists>f. observation_fingerprint id (replicate 64 (CHR ''0'')) (demo_row [demo_provenance ''side'', demo_provenance ''instrument'']) = Inr f \<and>
     observation_fingerprint id (replicate 64 (CHR ''0'')) (demo_row [demo_provenance ''instrument'', demo_provenance ''side'']) = Inr f \<and>
     cw_instrument (demo_row [demo_provenance ''side'', demo_provenance ''instrument'']) =
     cw_instrument (demo_row [demo_provenance ''instrument'', demo_provenance ''side''])"
proof -
  let ?c = "replicate 64 (CHR ''0'')" and ?p = "demo_provenance ''side''" and ?q = "demo_provenance ''instrument''"
  have "\<not> bad_digest ?c" by code_simp
  then have valid: "validate_digest ?c n = Inr ()" for n
    by (simp add: validate_digest_def checks_Inr_iff validate_sha256_def)
  have row: "semantic_row_from_canonical (demo_row ps) = Inr \<lparr>sr_operation = ''UPSERT'', sr_fields = semantic_fields (demo_row []) x\<rparr>"
    if "canonical_datetime (utc_stamp 0) = Inr x" for ps x
    using that by (simp add: semantic_row_from_canonical_def demo_row_def tagged_Inr semantic_fields_def semantic_row_post_init_def
        checks_Inr_iff)
  have kept: "cw_provenance (demo_row ps) = ps" for ps by (simp add: demo_row_def)
  have "sort_key pv_canonical_field [?p, ?q] = sort_key pv_canonical_field [?q, ?p]" by (simp add: demo_provenance_def)
  then have same: "observation_payload c s [?p, ?q] = observation_payload c s [?q, ?p]" for c s
    by (simp only: observation_payload_def)
  obtain x where x: "canonical_datetime (utc_stamp 0) = Inr x" by (simp add: canonical_datetime_def as_utc_def valid_datetime_def datetime_max_def us_per_day_def)
  have "observation_fingerprint id ?c (demo_row [?p, ?q]) = observation_fingerprint id ?c (demo_row [?q, ?p])"
    by (simp add: observation_fingerprint_def valid row [OF x] same kept)
  moreover obtain f where "observation_fingerprint id ?c (demo_row [?p, ?q]) = Inr f"
    by (simp add: observation_fingerprint_def valid row [OF x])
  moreover have "canonical_row_post_init (demo_row [demo_provenance a, demo_provenance b]) = Inr (demo_row [demo_provenance a, demo_provenance b])"
    if "a \<noteq> b" for a b
    using that by (simp add: canonical_row_Inr demo_row_def demo_provenance_def as_utc_def valid_datetime_def datetime_max_def
        us_per_day_def valid_numeric ndigits.simps)
  then have "canonical_row_post_init (demo_row [?p, ?q]) = Inr (demo_row [?p, ?q])"
    "canonical_row_post_init (demo_row [?q, ?p]) = Inr (demo_row [?q, ?p])" by simp_all
  ultimately show ?thesis using fingerprints_identify [of "demo_row [?p, ?q]" "demo_row [?q, ?p]" id ?c ?c f] by (metis inj_on_id)
qed

section \<open>Rounded amounts\<close>

definition merged_amount :: dec where
  "merged_amount = Dec False (10 ^ 28 + 1) (- 12)"

definition merged_other :: dec where
  "merged_other = Dec False (10 ^ 28 + 2) (- 12)"

lemma merged_fix: "dec_fix default_precision merged_amount = Dec False (10 ^ 27) (- 11)"
  "dec_fix default_precision merged_other = Dec False (10 ^ 27) (- 11)"
proof -
  have n: "ndigits (10 ^ 28 + 1) = 29" "ndigits (10 ^ 28 + 2) = 29" "ndigits (10 ^ 27) = 28" by (rule ndigits_eq; simp)+
  show "dec_fix default_precision merged_amount = Dec False (10 ^ 27) (- 11)"
    unfolding merged_amount_def dec_fix_def default_precision_def dec.sel n Let_def by (simp add: half_even_div_def n(3) [simplified])
  show "dec_fix default_precision merged_other = Dec False (10 ^ 27) (- 11)"
    unfolding merged_other_def dec_fix_def default_precision_def dec.sel n Let_def by (simp add: half_even_div_def n(3) [simplified])
qed

text \<open>C40. Two amounts both of which the column type and the interpretation accept can differ and yet leave the
  fingerprint of an observation unchanged: the canonical text of a decimal is rounded to 28 digits.\<close>

theorem fingerprint_merges_amounts:
  "validate_numeric_value merged_amount n = Inr () \<and> validate_numeric_value merged_other n = Inr () \<and>
   dval merged_amount \<noteq> dval merged_other \<and> dval merged_other < 10 ^ 26 \<and>
   observation_fingerprint sha256 c (r\<lparr>cw_quantity := merged_amount\<rparr>) =
   observation_fingerprint sha256 c (r\<lparr>cw_quantity := merged_other\<rparr>)"
proof -
  have n: "ndigits (10 ^ 28 + 1) = 29" "ndigits (10 ^ 28 + 2) = 29" by (rule ndigits_eq; simp)+
  have "validate_numeric_value merged_amount n = Inr ()" "validate_numeric_value merged_other n = Inr ()"
    unfolding valid_numeric merged_amount_def merged_other_def dec.sel n by simp_all
  moreover have "dval merged_amount \<noteq> dval merged_other" "dval merged_other < 10 ^ 26"
    by (simp_all add: dval_def merged_amount_def merged_other_def power_int_def power_divide)
  moreover have "canonical_decimal merged_amount = canonical_decimal merged_other"
    unfolding canonical_decimal_def dec_normalize_def merged_fix by (simp add: merged_amount_def merged_other_def dec_is_zero_def)
  ultimately show ?thesis by (simp add: observation_fingerprint_def semantic_row_from_canonical_def)
qed

end
