(* ===== verification/Adapters.thy ===== *)
theory Adapters
  imports Ingestion Policies
begin

text \<open>
  The source-contract adapters (\<open>sources/adapters.py\<close>): the two predefined contracts, configurable
  ones, and contracts as JSON payloads. A constant of a binding that is neither text nor null has
  no representation: the code lets it through when it reads a payload, here it is refused.
\<close>

definition LEDGER_ADAPTER_KEY :: string where
  "LEDGER_ADAPTER_KEY = ''atlas-ledger-v1''"

definition COUNTERPARTY_ADAPTER_KEY :: string where
  "COUNTERPARTY_ADAPTER_KEY = ''atlas-counterparty-v1''"

definition CONFIGURABLE_ADAPTER_KEY :: string where
  "CONFIGURABLE_ADAPTER_KEY = ''configurable-v1''"

definition PARSER_VERSION :: string where
  "PARSER_VERSION = ''1''"

definition CANONICAL_FIELDS :: "string list" where
  "CANONICAL_FIELDS =
     [''source_record_key'', ''business_reference'', ''executed_at_utc'', ''instrument'', ''side'', ''quantity'',
      ''unit_price'', ''gross_amount'', ''currency'', ''state'']"

definition REQUIRED_CANONICAL_FIELDS :: "string list" where
  "REQUIRED_CANONICAL_FIELDS = filter (\<lambda>f. f \<noteq> ''business_reference'') CANONICAL_FIELDS"

section \<open>Enumerations by value\<close>

primrec mode_value :: "dataset_mode \<Rightarrow> string" where
  "mode_value FULL_SNAPSHOT = ''FULL_SNAPSHOT''"
| "mode_value DELTA = ''DELTA''"

primrec semantics_value :: "reference_semantics \<Rightarrow> string" where
  "semantics_value TRUSTED_SHARED = ''TRUSTED_SHARED''"
| "semantics_value SECONDARY = ''SECONDARY''"
| "semantics_value NO_REFERENCE = ''NONE''"

primrec fold_value :: "date_fold_policy \<Rightarrow> string" where
  "fold_value REJECT_FOLD = ''REJECT''"
| "fold_value EARLIER_FOLD = ''EARLIER''"
| "fold_value LATER_FOLD = ''LATER''"

definition all_modes :: "dataset_mode list" where
  "all_modes = [FULL_SNAPSHOT, DELTA]"

definition all_semantics :: "reference_semantics list" where
  "all_semantics = [TRUSTED_SHARED, SECONDARY, NO_REFERENCE]"

definition all_folds :: "date_fold_policy list" where
  "all_folds = [REJECT_FOLD, EARLIER_FOLD, LATER_FOLD]"

definition all_operations :: "ingestion_operation list" where
  "all_operations = [SNAPSHOT, UPSERT, CANCEL, RETRACT]"

definition all_sides :: "canonical_side list" where
  "all_sides = [BUY, SELL]"

section \<open>Validation\<close>

text \<open>The first refusal that applies.\<close>

fun refusals :: "(bool \<times> string) list \<Rightarrow> 'a \<Rightarrow> 'a result" where
  "refusals [] x = Inr x"
| "refusals ((bad, message) # cs) x = (if bad then Inl (InvalidSourceContract message) else refusals cs x)"

definition enum_values_of :: "source_contract \<Rightarrow> string \<Rightarrow> (string \<times> string) list" where
  "enum_values_of c field =
     (case dict_get (dict_of en_canonical_field (sct_enum_mappings c)) field of None \<Rightarrow> [] | Some m \<Rightarrow> en_values m)"

definition validated_contract :: "source_contract \<Rightarrow> source_contract result" where
  "validated_contract c =
     (let fields = set (map fb_canonical_field (sct_bindings c)); enums = set (map en_canonical_field (sct_enum_mappings c))
      in refusals
        [(sct_adapter_key c \<notin> {LEDGER_ADAPTER_KEY, COUNTERPARTY_ADAPTER_KEY, CONFIGURABLE_ADAPTER_KEY},
          ''contract uses an unsupported adapter''),
         (\<not> fields \<subseteq> set CANONICAL_FIELDS, ''contract contains an unsupported canonical field''),
         (\<not> set REQUIRED_CANONICAL_FIELDS \<subseteq> fields, ''contract is missing a required canonical field''),
         (sct_reference_semantics c \<noteq> NO_REFERENCE \<and> ''business_reference'' \<notin> fields,
          ''contract reference semantics require a business-reference binding''),
         (\<not> {''side'', ''state''} \<subseteq> enums, ''contract requires side and state enum mappings''),
         (\<not> enums \<subseteq> {''side'', ''state''}, ''contract contains an unsupported enum mapping''),
         (\<not> set (map snd (enum_values_of c ''side'')) \<subseteq> set (map side_value all_sides) \<or>
          \<not> set (map snd (enum_values_of c ''state'')) \<subseteq> set (map state_value all_states),
          ''contract enum mapping has an invalid target'')] c)"

section \<open>Contracts in code\<close>

definition bindings_of :: "(string \<times> string option) list \<Rightarrow> field_binding list result" where
  "bindings_of columns = rmap (\<lambda>(field, column). field_binding_post_init
     (if field = ''currency'' \<and> column = None
      then \<lparr>fb_canonical_field = field, fb_source_column = None, fb_constant = Some ''USD''\<rparr>
      else \<lparr>fb_canonical_field = field, fb_source_column = column, fb_constant = None\<rparr>)) columns"

definition ledger_contract :: "zone_database \<Rightarrow> source_contract result" where
  "ledger_contract zones =
     rbind (bindings_of
       [(''source_record_key'', Some ''trade_id''), (''business_reference'', Some ''trade_id''),
        (''executed_at_utc'', Some ''traded_at''), (''instrument'', Some ''instrument''), (''side'', Some ''side''),
        (''quantity'', Some ''quantity''), (''unit_price'', Some ''price''), (''gross_amount'', Some ''gross_amount''),
        (''currency'', None), (''state'', Some ''state'')])
     (\<lambda>bindings. rbind (rmap enum_mapping_post_init
       [\<lparr>en_canonical_field = ''side'', en_values = [(''BUY'', ''BUY''), (''SELL'', ''SELL'')]\<rparr>,
        \<lparr>en_canonical_field = ''state'', en_values = [(''SETTLED'', ''SETTLED''), (''CANCELLED'', ''CANCELLED'')]\<rparr>])
     (\<lambda>enums. rbind (source_contract_post_init zones
       \<lparr>sct_adapter_key = LEDGER_ADAPTER_KEY, sct_parser_version = PARSER_VERSION, sct_mode = FULL_SNAPSHOT,
        sct_identity_namespace = ''atlas-ledger-trade'', sct_reference_semantics = TRUSTED_SHARED,
        sct_timestamp_format = ''ISO8601'', sct_timezone_name = None, sct_bindings = bindings, sct_enum_mappings = enums,
        sct_null_tokens = [], sct_operation_field = None, sct_operation_mapping = [], sct_fold_policy = REJECT_FOLD\<rparr>)
     validated_contract))"

definition counterparty_contract :: "zone_database \<Rightarrow> source_contract result" where
  "counterparty_contract zones =
     rbind (bindings_of
       [(''source_record_key'', Some ''reference''), (''business_reference'', Some ''reference''),
        (''executed_at_utc'', Some ''executed_at''), (''instrument'', Some ''symbol''), (''side'', Some ''direction''),
        (''quantity'', Some ''qty''), (''unit_price'', Some ''unit_price''), (''gross_amount'', Some ''total''),
        (''currency'', None), (''state'', Some ''status'')])
     (\<lambda>bindings. rbind (rmap enum_mapping_post_init
       [\<lparr>en_canonical_field = ''side'', en_values = [(''B'', ''BUY''), (''S'', ''SELL'')]\<rparr>,
        \<lparr>en_canonical_field = ''state'', en_values = [(''SETTLED'', ''SETTLED''), (''CANCELLED'', ''CANCELLED'')]\<rparr>])
     (\<lambda>enums. rbind (source_contract_post_init zones
       \<lparr>sct_adapter_key = COUNTERPARTY_ADAPTER_KEY, sct_parser_version = PARSER_VERSION, sct_mode = FULL_SNAPSHOT,
        sct_identity_namespace = ''atlas-counterparty-reference'', sct_reference_semantics = TRUSTED_SHARED,
        sct_timestamp_format = ''%Y-%m-%d %H:%M:%S'', sct_timezone_name = Some ''UTC'', sct_bindings = bindings,
        sct_enum_mappings = enums, sct_null_tokens = [], sct_operation_field = None, sct_operation_mapping = [],
        sct_fold_policy = REJECT_FOLD\<rparr>)
     validated_contract))"

text \<open>The parts of a configurable contract other than its adapter and parser; the caller constructs its bindings and mappings.\<close>

definition configurable_contract :: "zone_database \<Rightarrow> source_contract \<Rightarrow> source_contract result" where
  "configurable_contract zones parts = rbind (source_contract_post_init zones
     (parts\<lparr>sct_adapter_key := CONFIGURABLE_ADAPTER_KEY, sct_parser_version := PARSER_VERSION\<rparr>)) validated_contract"

section \<open>Payloads\<close>

definition binding_payload :: "field_binding \<Rightarrow> json" where
  "binding_payload b = JObject
     [(''canonical_field'', JText (fb_canonical_field b)), (''source_column'', json_text_or_null (fb_source_column b)),
      (''constant'', json_text_or_null (fb_constant b))]"

definition mapping_payload :: "enum_mapping \<Rightarrow> json" where
  "mapping_payload m = JObject
     [(''canonical_field'', JText (en_canonical_field m)),
      (''values'', JArray (map (\<lambda>v. JArray [JText (fst v), JText (snd v)]) (en_values m)))]"

definition contract_to_payload :: "source_contract \<Rightarrow> json result" where
  "contract_to_payload c = rbind (validated_contract c) (\<lambda>_. Inr (JObject
     [(''adapter_key'', JText (sct_adapter_key c)), (''parser_version'', JText (sct_parser_version c)),
      (''mode'', JText (mode_value (sct_mode c))), (''identity_namespace'', JText (sct_identity_namespace c)),
      (''reference_semantics'', JText (semantics_value (sct_reference_semantics c))),
      (''timestamp_format'', JText (sct_timestamp_format c)), (''timezone_name'', json_text_or_null (sct_timezone_name c)),
      (''bindings'', JArray (map binding_payload (sct_bindings c))),
      (''enum_mappings'', JArray (map mapping_payload (sct_enum_mappings c))),
      (''null_tokens'', json_texts (sct_null_tokens c)), (''operation_field'', json_text_or_null (sct_operation_field c)),
      (''operation_mapping'', JArray (map (\<lambda>x. JArray [JText (fst x), JText (operation_value (snd x))]) (sct_operation_mapping c))),
      (''fold_policy'', JText (fold_value (sct_fold_policy c)))]))"

text \<open>\<open>payload.get(name, default)\<close>\<close>

definition member_or :: "json \<Rightarrow> string \<Rightarrow> json \<Rightarrow> json result" where
  "member_or j name d = (case j of
      JObject ms \<Rightarrow> (case map_of ms name of None \<Rightarrow> Inr d | Some v \<Rightarrow> Inr v)
    | _ \<Rightarrow> Inl AttributeError)"

text \<open>A value the code calls \<open>strip\<close> on, where it is not \<open>None\<close>.\<close>

definition text_of :: "json \<Rightarrow> string result" where
  "text_of j = (case j of JText s \<Rightarrow> Inr s | _ \<Rightarrow> Inl AttributeError)"

definition optional_text_of :: "json \<Rightarrow> string option result" where
  "optional_text_of j = (if j = JNull then Inr None else rbind (text_of j) (\<lambda>s. Inr (Some s)))"

definition binding_from_payload :: "json \<Rightarrow> field_binding result" where
  "binding_from_payload j =
     rbind (rbind (member j ''canonical_field'') text_of) (\<lambda>field. rbind (rbind (member_or j ''source_column'' JNull) optional_text_of)
     (\<lambda>column. rbind (rbind (member_or j ''constant'' JNull) optional_text_of)
     (\<lambda>constant. field_binding_post_init \<lparr>fb_canonical_field = field, fb_source_column = column, fb_constant = constant\<rparr>)))"

definition text_pair :: "(json \<Rightarrow> string) \<Rightarrow> json \<Rightarrow> (string \<times> string) result" where
  "text_pair repr j = rbind (pair_of j) (\<lambda>x. Inr (str_of repr (fst x), str_of repr (snd x)))"

definition mapping_from_payload :: "(json \<Rightarrow> string) \<Rightarrow> json \<Rightarrow> enum_mapping result" where
  "mapping_from_payload repr j =
     rbind (rbind (member j ''canonical_field'') text_of) (\<lambda>field. rbind (array_member (text_pair repr) j ''values'')
     (\<lambda>values. enum_mapping_post_init \<lparr>en_canonical_field = field, en_values = values\<rparr>))"

definition operation_pair :: "(json \<Rightarrow> string) \<Rightarrow> json \<Rightarrow> (string \<times> ingestion_operation) result" where
  "operation_pair repr j = rbind (pair_of j) (\<lambda>x. rbind (enum_of operation_value all_operations (snd x))
     (\<lambda>operation. Inr (str_of repr (fst x), operation)))"

definition array_or :: "(json \<Rightarrow> 'a result) \<Rightarrow> json \<Rightarrow> string \<Rightarrow> 'a list result" where
  "array_or f j name = rbind (member_or j name (JArray [])) (\<lambda>v. rbind (elements v) (rmap f))"

definition constructed_from_payload :: "zone_database \<Rightarrow> (json \<Rightarrow> string) \<Rightarrow> json \<Rightarrow> source_contract result" where
  "constructed_from_payload zones repr j =
     rbind (member j ''adapter_key'') (\<lambda>adapter_key. rbind (member j ''parser_version'')
     (\<lambda>parser_version. rbind (rbind (member j ''mode'') (enum_of mode_value all_modes))
     (\<lambda>mode. rbind (member j ''identity_namespace'')
     (\<lambda>namespace. rbind (rbind (member j ''reference_semantics'') (enum_of semantics_value all_semantics))
     (\<lambda>semantics. rbind (member j ''timestamp_format'')
     (\<lambda>timestamp_format. rbind (rbind (member_or j ''timezone_name'' JNull) optional_text_of)
     (\<lambda>timezone_name. rbind (array_member binding_from_payload j ''bindings'')
     (\<lambda>bindings. rbind (array_or (mapping_from_payload repr) j ''enum_mappings'')
     (\<lambda>enum_mappings. rbind (array_or (\<lambda>v. Inr (str_of repr v)) j ''null_tokens'')
     (\<lambda>null_tokens. rbind (rbind (member_or j ''operation_field'' JNull) optional_text_of)
     (\<lambda>operation_field. rbind (array_or (operation_pair repr) j ''operation_mapping'')
     (\<lambda>operation_mapping. rbind (rbind (member_or j ''fold_policy'' (JText (fold_value REJECT_FOLD))) (enum_of fold_value all_folds))
     (\<lambda>fold_policy. source_contract_post_init zones
        \<lparr>sct_adapter_key = str_of repr adapter_key, sct_parser_version = str_of repr parser_version, sct_mode = mode,
         sct_identity_namespace = str_of repr namespace, sct_reference_semantics = semantics,
         sct_timestamp_format = str_of repr timestamp_format, sct_timezone_name = timezone_name, sct_bindings = bindings,
         sct_enum_mappings = enum_mappings, sct_null_tokens = null_tokens, sct_operation_field = operation_field,
         sct_operation_mapping = operation_mapping, sct_fold_policy = fold_policy\<rparr>)))))))))))))"

text \<open>The errors \<open>except (AttributeError, KeyError, TypeError, ValueError)\<close> catches.\<close>

definition malformed :: "py_error \<Rightarrow> bool" where
  "malformed e = (case e of DomainValidationError _ \<Rightarrow> True | _ \<Rightarrow> e \<in> {AttributeError, KeyError, TypeError, ValueError})"

definition contract_from_payload :: "zone_database \<Rightarrow> (json \<Rightarrow> string) \<Rightarrow> json \<Rightarrow> source_contract result" where
  "contract_from_payload zones repr j = (case constructed_from_payload zones repr j of
      Inr c \<Rightarrow> validated_contract c
    | Inl e \<Rightarrow> Inl (if malformed e then InvalidSourceContract ''stored source contract is invalid'' else e))"

end
