(* ===== verification/Preview.thy ===== *)
theory Preview
  imports Adapters Hashing
begin

text \<open>
  The interpretation of a CSV file as canonical rows and its evidence (\<open>ingestion/preview.py\<close> from
  \<open>interpret_csv\<close> on, and the structural limits of \<open>ingestion/artifacts.py\<close>). What \<open>csv.reader\<close>
  delivers is a parameter: the rows it yields, and how it stops. The payloads the code builds as
  dictionaries are JSON objects.
\<close>

section \<open>Bounded reading\<close>

record intake_limits =
  il_max_bytes :: int
  il_max_rows :: int
  il_max_columns :: int
  il_max_field_characters :: int

datatype csv_end = CsvEnded | CsvEncodingError | CsvFieldTooLarge | CsvMalformed

record csv_reading =
  rd_rows :: "string list list"
  rd_end :: csv_end

record csv_scan =
  cs_delimiter :: string
  cs_header :: "string list"
  cs_row_count :: int
  cs_maximum_column_count :: int

definition check_column_limit :: "string list \<Rightarrow> int \<Rightarrow> unit result" where
  "check_column_limit row maximum =
     (if maximum < int (length row) then Inl (ArtifactIntakeError ''COLUMN_LIMIT'' (Some maximum)) else Inr ())"

definition reading_error :: "csv_end \<Rightarrow> intake_limits \<Rightarrow> unit result" where
  "reading_error e limits = (case e of
      CsvEnded \<Rightarrow> Inr ()
    | CsvEncodingError \<Rightarrow> Inl (ArtifactIntakeError ''INVALID_ENCODING'' None)
    | CsvFieldTooLarge \<Rightarrow> Inl (ArtifactIntakeError ''FIELD_LIMIT'' (Some (il_max_field_characters limits)))
    | CsvMalformed \<Rightarrow> Inl (ArtifactIntakeError ''MALFORMED_CSV'' None))"

fun scan_rows :: "intake_limits \<Rightarrow> csv_end \<Rightarrow> string list list \<Rightarrow> int \<Rightarrow> int \<Rightarrow> (int \<times> int) result" where
  "scan_rows limits stop [] row_count columns = rbind (reading_error stop limits) (\<lambda>_. Inr (row_count, columns))"
| "scan_rows limits stop (row # rows) row_count columns =
     (if il_max_rows limits < row_count + 1 then Inl (ArtifactIntakeError ''ROW_LIMIT'' (Some (il_max_rows limits)))
      else rbind (check_column_limit row (il_max_columns limits))
        (\<lambda>_. scan_rows limits stop rows (row_count + 1) (max columns (int (length row)))))"

definition scan_locked :: "csv_reading \<Rightarrow> string \<Rightarrow> intake_limits \<Rightarrow> csv_scan result" where
  "scan_locked reading delimiter limits = (case rd_rows reading of
      [] \<Rightarrow> rbind (reading_error (rd_end reading) limits) (\<lambda>_. Inl (ArtifactIntakeError ''EMPTY_FILE'' None))
    | header # rows \<Rightarrow> rbind (check_column_limit header (il_max_columns limits))
        (\<lambda>_. rbind (scan_rows limits (rd_end reading) rows 0 (int (length header)))
        (\<lambda>(row_count, columns). Inr \<lparr>cs_delimiter = delimiter, cs_header = header, cs_row_count = row_count,
           cs_maximum_column_count = columns\<rparr>)))"

definition SUPPORTED_DELIMITERS :: "string list" where
  "SUPPORTED_DELIMITERS = ['','', '';'', [CHR 0x09]]"

record csv_content =
  cc_scan :: csv_scan
  cc_rows :: "string list list"

definition read_bounded_csv :: "csv_reading \<Rightarrow> string \<Rightarrow> intake_limits \<Rightarrow> csv_content result" where
  "read_bounded_csv reading delimiter limits =
     (if delimiter \<notin> set SUPPORTED_DELIMITERS then Inl (ArtifactIntakeError ''UNSUPPORTED_DELIMITER'' None)
      else rbind (scan_locked reading delimiter limits) (\<lambda>scan. Inr \<lparr>cc_scan = scan, cc_rows = tl (rd_rows reading)\<rparr>))"

section \<open>Interpreted rows\<close>

record raw_value =
  rv_column :: string
  rv_kind :: raw_cell_kind
  rv_original :: "string option"

record interpreted_row =
  ir_row_number :: int
  ir_raw_values :: "raw_value list"
  ir_canonical :: "canonical_row option"
  ir_preview :: "json option"
  ir_issues :: "row_issue list"

record interpreted_preview =
  ip_header :: "string list"
  ip_rows :: "interpreted_row list"
  ip_issues :: "row_issue list"

definition error_count :: "interpreted_preview \<Rightarrow> nat" where
  "error_count p = length (ip_issues p) + sum_list (map (\<lambda>r. length (ir_issues r)) (ip_rows p))"

definition new_issue :: "int \<Rightarrow> string \<Rightarrow> row_error_code \<Rightarrow> string option \<Rightarrow> string \<Rightarrow> row_issue result" where
  "new_issue row_number field code original expected = row_issue_post_init
     \<lparr>iss_row_number = row_number, iss_field = field, iss_code = code, iss_original = original, iss_expected = expected\<rparr>"

text \<open>\<open>Counter(header)\<close> lists the names in the order of their first occurrence.\<close>

definition header_issues :: "string list \<Rightarrow> source_contract \<Rightarrow> row_issue list result" where
  "header_issues header c =
     (let names = rev (remdups (rev header));
          required = List.map_filter fb_source_column (sct_bindings c) @ (case sct_operation_field c of None \<Rightarrow> [] | Some f \<Rightarrow> [f])
      in rbind (rmap (\<lambda>name. new_issue 1 (if name = [] then ''_header'' else name) DUPLICATE_HEADER (Some name) ''a unique column header'')
           (filter (\<lambda>name. 1 < count_list header name) names))
         (\<lambda>duplicate. rbind (rmap (\<lambda>name. new_issue 1 name MISSING_COLUMN None (''source column '' @ name))
           (filter (\<lambda>name. name \<notin> set header) (sorted_set required)))
         (\<lambda>missing. Inr (duplicate @ missing))))"

definition raw_value_at :: "string list \<Rightarrow> string list \<Rightarrow> string list \<Rightarrow> nat \<Rightarrow> raw_value result" where
  "raw_value_at header values null_tokens k =
     rbind (if k < length values then cell_from_source (values ! k) null_tokens else cell_missing)
     (\<lambda>cell. Inr \<lparr>rv_column = (if k < length header then header ! k else ''__extra_'' @ nat_text (k - length header + 1)),
        rv_kind = cell_kind cell, rv_original = cell_original cell\<rparr>)"

definition raw_values :: "string list \<Rightarrow> string list \<Rightarrow> string list \<Rightarrow> raw_value list result" where
  "raw_values header values null_tokens =
     rmap (raw_value_at header values null_tokens) [0..<max (length header) (length values)]"

section \<open>Payloads\<close>

definition issue_to_payload :: "row_issue \<Rightarrow> json" where
  "issue_to_payload i = JObject
     [(''row_number'', JInt (iss_row_number i)), (''field'', JText (iss_field i)), (''code'', JText (error_code_value (iss_code i))),
      (''original_value'', json_text_or_null (iss_original i)), (''expected'', JText (iss_expected i))]"

definition provenance_payload :: "field_provenance \<Rightarrow> json" where
  "provenance_payload p = JObject
     [(''canonical_field'', JText (pv_canonical_field p)), (''source_column'', json_text_or_null (pv_source_column p)),
      (''kind'', JText (cell_kind_value (cell_kind (pv_raw_cell p)))),
      (''original'', json_text_or_null (cell_original (pv_raw_cell p))), (''transformation'', JText (pv_transformation p))]"

definition provenances_payload :: "field_provenance list \<Rightarrow> json" where
  "provenances_payload ps = JArray (map provenance_payload ps)"

definition canonical_to_payload :: "canonical_row \<Rightarrow> json result" where
  "canonical_to_payload r = rbind (canonical_datetime (cw_executed_at_utc r)) (\<lambda>executed. Inr (JObject
     [(''complete'', JBool True), (''row_number'', JInt (cw_row_number r)),
      (''source_record_key'', JText (cw_source_record_key r)), (''business_reference'', json_text_or_null (cw_business_reference r)),
      (''executed_at_utc'', JText executed), (''instrument'', JText (cw_instrument r)), (''side'', JText (side_value (cw_side r))),
      (''quantity'', JText (canonical_decimal (cw_quantity r))), (''unit_price'', JText (canonical_decimal (cw_unit_price r))),
      (''gross_amount'', JText (canonical_decimal (cw_gross_amount r))), (''currency'', JText (cw_currency r)),
      (''state'', JText (state_value (cw_state r))), (''eligible_for_matching'', JBool (eligible_for_matching r)),
      (''operation'', JText (operation_value (cw_operation r))), (''provenance'', provenances_payload (cw_provenance r))]))"

text \<open>The values of a row parsed so far, in the order the code parses them.\<close>

record parsed_row =
  pr_source_record_key :: "string option"
  pr_instrument :: "string option"
  pr_currency :: "string option"
  pr_business_reference :: "string option"
  pr_executed_at_utc :: "datetime option"
  pr_quantity :: "dec option"
  pr_unit_price :: "dec option"
  pr_gross_amount :: "dec option"
  pr_side :: "canonical_side option"
  pr_state :: "canonical_state option"

definition present :: "string \<Rightarrow> ('a \<Rightarrow> json) \<Rightarrow> 'a option \<Rightarrow> (string \<times> json) list" where
  "present name f v = (case v of None \<Rightarrow> [] | Some x \<Rightarrow> [(name, f x)])"

definition partial_canonical_to_payload :: "int \<Rightarrow> parsed_row \<Rightarrow> field_provenance list \<Rightarrow> json result" where
  "partial_canonical_to_payload row_number p provenance =
     rbind (case pr_executed_at_utc p of None \<Rightarrow> Inr [] | Some t \<Rightarrow> rbind (canonical_datetime (utc_stamp t)) (\<lambda>s. Inr [(''executed_at_utc'', JText s)]))
     (\<lambda>executed. Inr (JObject
       ([(''complete'', JBool False), (''row_number'', JInt row_number)] @
        present ''source_record_key'' JText (pr_source_record_key p) @ present ''instrument'' JText (pr_instrument p) @
        present ''currency'' JText (pr_currency p) @ [(''business_reference'', json_text_or_null (pr_business_reference p))] @ executed @
        present ''quantity'' (\<lambda>d. JText (canonical_decimal d)) (pr_quantity p) @
        present ''unit_price'' (\<lambda>d. JText (canonical_decimal d)) (pr_unit_price p) @
        present ''gross_amount'' (\<lambda>d. JText (canonical_decimal d)) (pr_gross_amount p) @
        present ''side'' (\<lambda>s. JText (side_value s)) (pr_side p) @ present ''state'' (\<lambda>s. JText (state_value s)) (pr_state p) @
        [(''provenance'', provenances_payload provenance)])))"

section \<open>Interpreting a row\<close>

text \<open>The issue an interpretation error carries; other errors are not caught.\<close>

definition all_codes :: "row_error_code list" where
  "all_codes = [MISSING_COLUMN, DUPLICATE_HEADER, UNEXPECTED_COLUMN, MISSING_FIELD, NULL_REQUIRED, EMPTY_REQUIRED, UNKNOWN_ENUM,
     INVALID_DECIMAL, NON_FINITE_DECIMAL, UNSUPPORTED_PRECISION, INVALID_DATETIME, MISSING_TIMEZONE, AMBIGUOUS_DATETIME,
     NONEXISTENT_DATETIME, DUPLICATE_SOURCE_KEY, INVALID_OPERATION]"

definition issue_of_error :: "py_error \<Rightarrow> row_issue option" where
  "issue_of_error e = (case e of
      FieldInterpretationError row_number field code original expected \<Rightarrow>
        map_option (\<lambda>c. \<lparr>iss_row_number = row_number, iss_field = field, iss_code = c, iss_original = original, iss_expected = expected\<rparr>)
          (find (\<lambda>c. error_code_value c = code) all_codes)
    | _ \<Rightarrow> None)"

text \<open>What the interpretation of a row accumulates.\<close>

record progress =
  pg_issues :: "row_issue list"
  pg_provenance :: "field_provenance list"

text \<open>\<open>try: value = parser(cell) except FieldInterpretationError\<close>, with the provenance of a value.\<close>

definition attempt :: "'a result \<Rightarrow> (row_issue \<Rightarrow> row_issue result) \<Rightarrow> field_provenance \<Rightarrow> progress \<Rightarrow> ('a option \<times> progress) result" where
  "attempt outcome reported entry st = (case outcome of
      Inr v \<Rightarrow> rbind (field_provenance_post_init entry)
        (\<lambda>p. Inr (Some v, st\<lparr>pg_provenance := pg_provenance st @ [p]\<rparr>))
    | Inl e \<Rightarrow> (case issue_of_error e of
        None \<Rightarrow> Inl e
      | Some i \<Rightarrow> rbind (reported i) (\<lambda>j. Inr (None, st\<lparr>pg_issues := pg_issues st @ [j]\<rparr>))))"

definition cell_at :: "(string \<times> raw_cell) list \<Rightarrow> string option \<Rightarrow> raw_cell result" where
  "cell_at cells column = (case Option.bind column (dict_get cells) of None \<Rightarrow> cell_missing | Some cell \<Rightarrow> Inr cell)"

definition parse_field :: "source_contract \<Rightarrow> (string \<times> raw_cell) list \<Rightarrow> string \<Rightarrow> (raw_cell \<Rightarrow> 'a result) \<Rightarrow> progress \<Rightarrow>
    ('a option \<times> progress) result" where
  "parse_field c cells field parser st =
     rbind (dict_index (dict_of fb_canonical_field (sct_bindings c)) field)
     (\<lambda>b. rbind (case fb_constant b of Some constant \<Rightarrow> cell_from_source constant [] | None \<Rightarrow> cell_at cells (fb_source_column b))
     (\<lambda>cell. attempt (parser cell) Inr
        \<lparr>pv_canonical_field = field, pv_source_column = fb_source_column b, pv_raw_cell = cell,
         pv_transformation = (if fb_constant b = None then ''declared mapping'' else ''constant'')\<rparr> st))"

text \<open>The cells by column; columns beyond the header have no name to bind.\<close>

definition row_cells :: "raw_value list \<Rightarrow> string list \<Rightarrow> (string \<times> raw_cell) list result" where
  "row_cells values null_tokens =
     rbind (rmap (\<lambda>v. rbind (if rv_kind v = MISSING_CELL then cell_missing
          else case rv_original v of None \<Rightarrow> Inl AssertionError | Some s \<Rightarrow> cell_from_source s null_tokens)
        (\<lambda>cell. Inr (rv_column v, cell)))
       (filter (\<lambda>v. \<not> starts_with ''__extra_'' (rv_column v)) values))
     (\<lambda>cells. Inr (fold (\<lambda>e d. dict_set d (fst e) (snd e)) cells []))"

definition parse_operation :: "source_contract \<Rightarrow> (string \<times> raw_cell) list \<Rightarrow> int \<Rightarrow> progress \<Rightarrow>
    (ingestion_operation \<times> progress) result" where
  "parse_operation c cells row_number st =
     (if sct_mode c \<noteq> DELTA then Inr (SNAPSHOT, st)
      else rbind (cell_at cells (sct_operation_field c))
        (\<lambda>cell. rbind (attempt (parse_enum_value cell row_number ''operation'' (sct_operation_mapping c))
            (\<lambda>i. new_issue (iss_row_number i) (iss_field i) INVALID_OPERATION (iss_original i) (iss_expected i))
            \<lparr>pv_canonical_field = ''operation'', pv_source_column = sct_operation_field c, pv_raw_cell = cell,
             pv_transformation = ''declared operation mapping''\<rparr> st)
          (\<lambda>(v, st). Inr (case v of None \<Rightarrow> SNAPSHOT | Some operation \<Rightarrow> operation, st))))"

definition retraction_payload :: "int \<Rightarrow> string option \<Rightarrow> field_provenance list \<Rightarrow> json" where
  "retraction_payload row_number key provenance = JObject
     [(''complete'', JBool True), (''row_number'', JInt row_number), (''source_record_key'', json_text_or_null key),
      (''operation'', JText (operation_value RETRACT)), (''provenance'', provenances_payload provenance)]"

text \<open>\<open>(source, Enum(target)) for source, target in enums[field].values\<close>\<close>

definition enum_targets :: "source_contract \<Rightarrow> string \<Rightarrow> ('a \<Rightarrow> string) \<Rightarrow> 'a list \<Rightarrow> (string \<times> 'a) list result" where
  "enum_targets c field name members =
     rbind (dict_index (dict_of en_canonical_field (sct_enum_mappings c)) field)
     (\<lambda>m. rmap (\<lambda>(source, target). rbind (enum_of name members (JText target)) (\<lambda>x. Inr (source, x))) (en_values m))"

definition parse_enum_field :: "source_contract \<Rightarrow> (string \<times> raw_cell) list \<Rightarrow> int \<Rightarrow> string \<Rightarrow> ('a \<Rightarrow> string) \<Rightarrow> 'a list \<Rightarrow> progress \<Rightarrow>
    ('a option \<times> progress) result" where
  "parse_enum_field c cells row_number field name members =
     parse_field c cells field (\<lambda>cell. rbind (enum_targets c field name members) (parse_enum_value cell row_number field))"

definition parse_business_reference :: "source_contract \<Rightarrow> (string \<times> raw_cell) list \<Rightarrow> int \<Rightarrow> progress \<Rightarrow>
    (string option \<times> progress) result" where
  "parse_business_reference c cells row_number st =
     (if ''business_reference'' \<in> set (map fb_canonical_field (sct_bindings c))
      then parse_field c cells ''business_reference'' (\<lambda>cell. parse_required_text cell row_number ''business_reference'' True) st
      else Inr (None, st))"

text \<open>The fields after the key, in the order the code parses them.\<close>

definition parse_rest :: "timestamp_readers \<Rightarrow> zone_database \<Rightarrow> source_contract \<Rightarrow> (string \<times> raw_cell) list \<Rightarrow> int \<Rightarrow>
    string option \<Rightarrow> progress \<Rightarrow> (parsed_row \<times> progress) result" where
  "parse_rest readers zones c cells row_number key st =
     (let text = (\<lambda>field. parse_field c cells field (\<lambda>cell. parse_required_text cell row_number field True));
          number = (\<lambda>field. parse_field c cells field (\<lambda>cell. parse_decimal_value cell row_number field))
      in rbind (text ''instrument'' st) (\<lambda>(instrument, st). rbind (text ''currency'' st)
         (\<lambda>(currency, st). rbind (parse_business_reference c cells row_number st)
         (\<lambda>(reference, st). rbind (parse_field c cells ''executed_at_utc'' (\<lambda>cell. parse_datetime_value readers zones cell row_number
              ''executed_at_utc'' (sct_timestamp_format c) (sct_timezone_name c) (sct_fold_policy c)) st)
         (\<lambda>(executed, st). rbind (number ''quantity'' st)
         (\<lambda>(quantity, st). rbind (number ''unit_price'' st)
         (\<lambda>(unit_price, st). rbind (number ''gross_amount'' st)
         (\<lambda>(gross_amount, st). rbind (parse_enum_field c cells row_number ''side'' side_value all_sides st)
         (\<lambda>(side, st). rbind (parse_enum_field c cells row_number ''state'' state_value all_states st)
         (\<lambda>(state, st). Inr (\<lparr>pr_source_record_key = key, pr_instrument = instrument, pr_currency = currency,
            pr_business_reference = reference, pr_executed_at_utc = executed, pr_quantity = quantity, pr_unit_price = unit_price,
            pr_gross_amount = gross_amount, pr_side = side, pr_state = state\<rparr>, st)))))))))))"

text \<open>Without an issue every value is there.\<close>

definition canonical_of_parsed :: "int \<Rightarrow> parsed_row \<Rightarrow> ingestion_operation \<Rightarrow> field_provenance list \<Rightarrow> canonical_row result" where
  "canonical_of_parsed row_number p operation provenance =
     (case (pr_source_record_key p, pr_instrument p, pr_currency p, pr_executed_at_utc p, pr_quantity p, pr_unit_price p,
            pr_gross_amount p, pr_side p, pr_state p) of
        (Some key, Some instrument, Some currency, Some executed, Some quantity, Some unit_price, Some gross_amount, Some side, Some state) \<Rightarrow>
          canonical_row_post_init \<lparr>cw_row_number = row_number, cw_source_record_key = key,
            cw_business_reference = pr_business_reference p, cw_executed_at_utc = utc_stamp executed, cw_instrument = instrument,
            cw_side = side, cw_quantity = quantity, cw_unit_price = unit_price, cw_gross_amount = gross_amount, cw_currency = currency,
            cw_state = state, cw_operation = operation, cw_provenance = provenance\<rparr>
      | _ \<Rightarrow> Inl AttributeError)"

definition finish_row :: "int \<Rightarrow> raw_value list \<Rightarrow> ingestion_operation \<Rightarrow> parsed_row \<times> progress \<Rightarrow> interpreted_row result" where
  "finish_row row_number values operation outcome = (case outcome of (p, st) \<Rightarrow>
     if pg_issues st = []
     then rbind (canonical_of_parsed row_number p operation (pg_provenance st))
       (\<lambda>canonical. rbind (canonical_to_payload canonical)
       (\<lambda>payload. Inr \<lparr>ir_row_number = row_number, ir_raw_values = values, ir_canonical = Some canonical,
          ir_preview = Some payload, ir_issues = []\<rparr>))
     else rbind (partial_canonical_to_payload row_number p (pg_provenance st))
       (\<lambda>payload. Inr \<lparr>ir_row_number = row_number, ir_raw_values = values, ir_canonical = None,
          ir_preview = Some payload, ir_issues = pg_issues st\<rparr>))"

definition extra_issues :: "int \<Rightarrow> string list \<Rightarrow> string list \<Rightarrow> row_issue list result" where
  "extra_issues row_number header values =
     (if length header < length values
      then rbind (new_issue row_number ''_row'' UNEXPECTED_COLUMN None (''at most '' @ nat_text (length header) @ '' values'')) (\<lambda>i. Inr [i])
      else Inr [])"

definition interpret_row :: "timestamp_readers \<Rightarrow> zone_database \<Rightarrow> int \<Rightarrow> string list \<Rightarrow> string list \<Rightarrow> source_contract \<Rightarrow> bool \<Rightarrow>
    interpreted_row result" where
  "interpret_row readers zones row_number header values c blocked =
     rbind (raw_values header values (sct_null_tokens c))
     (\<lambda>raw. if blocked
        then Inr \<lparr>ir_row_number = row_number, ir_raw_values = raw, ir_canonical = None, ir_preview = None, ir_issues = []\<rparr>
        else rbind (row_cells raw (sct_null_tokens c))
          (\<lambda>cells. rbind (extra_issues row_number header values)
          (\<lambda>extra. rbind (parse_operation c cells row_number \<lparr>pg_issues = extra, pg_provenance = []\<rparr>)
          (\<lambda>(operation, st). rbind (parse_field c cells ''source_record_key''
              (\<lambda>cell. parse_required_text cell row_number ''source_record_key'' True) st)
          (\<lambda>(key, st). if operation = RETRACT \<and> pg_issues st = []
             then Inr \<lparr>ir_row_number = row_number, ir_raw_values = raw, ir_canonical = None,
               ir_preview = Some (retraction_payload row_number key (pg_provenance st)), ir_issues = []\<rparr>
             else rbind (parse_rest readers zones c cells row_number key st) (finish_row row_number raw operation))))))"

section \<open>The whole file\<close>

text \<open>\<open>preview.get("source_record_key")\<close>, where it is there and not empty.\<close>

definition preview_key :: "interpreted_row \<Rightarrow> string option" where
  "preview_key r = (case ir_preview r of
      Some (JObject ms) \<Rightarrow> (case map_of ms ''source_record_key'' of Some (JText k) \<Rightarrow> if k = [] then None else Some k | _ \<Rightarrow> None)
    | _ \<Rightarrow> None)"

definition incomplete_preview :: "json \<Rightarrow> json" where
  "incomplete_preview j = (case j of JObject ms \<Rightarrow> JObject (dict_set ms ''complete'' (JBool False)) | _ \<Rightarrow> j)"

definition mark_duplicate :: "string list \<Rightarrow> interpreted_row \<Rightarrow> interpreted_row result" where
  "mark_duplicate keys r = (case preview_key r of
      None \<Rightarrow> Inr r
    | Some k \<Rightarrow> if count_list keys k \<le> 1 then Inr r
        else rbind (new_issue (ir_row_number r) ''source_record_key'' DUPLICATE_SOURCE_KEY (Some k) ''a unique source record key'')
          (\<lambda>i. Inr (r\<lparr>ir_canonical := None, ir_preview := map_option incomplete_preview (ir_preview r),
             ir_issues := ir_issues r @ [i]\<rparr>)))"

definition mark_duplicate_source_keys :: "interpreted_row list \<Rightarrow> interpreted_row list result" where
  "mark_duplicate_source_keys rows = rmap (mark_duplicate (List.map_filter preview_key rows)) rows"

definition interpret_rows :: "timestamp_readers \<Rightarrow> zone_database \<Rightarrow> string list \<Rightarrow> source_contract \<Rightarrow> bool \<Rightarrow> string list list \<Rightarrow>
    interpreted_row list result" where
  "interpret_rows readers zones header c blocked rows =
     rmap (\<lambda>(k, values). interpret_row readers zones (int k + 2) header values c blocked) (List.enumerate 0 rows)"

definition interpret_csv :: "timestamp_readers \<Rightarrow> zone_database \<Rightarrow> csv_reading \<Rightarrow> string \<Rightarrow> intake_limits \<Rightarrow> source_contract \<Rightarrow>
    interpreted_preview result" where
  "interpret_csv readers zones reading delimiter limits c =
     rbind (read_bounded_csv reading delimiter limits)
     (\<lambda>content. let header = cs_header (cc_scan content) in rbind (header_issues header c)
     (\<lambda>issues. rbind (interpret_rows readers zones header c (issues \<noteq> []) (cc_rows content))
     (\<lambda>rows. rbind (mark_duplicate_source_keys rows)
     (\<lambda>marked. Inr \<lparr>ip_header = header, ip_rows = marked, ip_issues = issues\<rparr>))))"

section \<open>Semantic rows\<close>

definition field_tag :: "string \<Rightarrow> semantic_tag option" where
  "field_tag = map_of
     [(''source_record_key'', TEXT_TAG), (''business_reference'', TEXT_TAG), (''executed_at_utc'', DATETIME_TAG),
      (''instrument'', TEXT_TAG), (''side'', ENUM_TAG), (''quantity'', DECIMAL_TAG), (''unit_price'', DECIMAL_TAG),
      (''gross_amount'', DECIMAL_TAG), (''currency'', TEXT_TAG), (''state'', ENUM_TAG)]"

definition unresolved_row :: "raw_value list \<Rightarrow> semantic_row result" where
  "unresolved_row values =
     rbind (rmap (\<lambda>(k, v). rbind (semantic_from_raw (rv_kind v) (rv_original v)) (\<lambda>x. Inr (nat_text k @ '':'' @ rv_column v, x)))
       (List.enumerate 0 values))
     (\<lambda>fields. semantic_row_post_init \<lparr>sr_operation = ''UNRESOLVED'', sr_fields = fields\<rparr>)"

definition semantic_preview :: "(json \<Rightarrow> string) \<Rightarrow> (string \<times> json) list \<Rightarrow> raw_value list \<Rightarrow> semantic_row result" where
  "semantic_preview repr ms values =
     (let key = (case map_of ms ''source_record_key'' of None \<Rightarrow> JNull | Some k \<Rightarrow> k);
          operation = (case map_of ms ''operation'' of None \<Rightarrow> JNull | Some x \<Rightarrow> x)
      in if map_of ms ''complete'' = Some (JBool True) \<and> operation = JText (operation_value RETRACT) \<and> truth key
         then rbind (tagged TEXT_TAG (str_of repr key))
           (\<lambda>v. semantic_row_post_init \<lparr>sr_operation = operation_value RETRACT, sr_fields = [(''source_record_key'', v)]\<rparr>)
         else if set (''operation'' # REQUIRED_CANONICAL_FIELDS) \<subseteq> set (map fst ms)
         then rbind (rmap (\<lambda>(name, tag, value). rbind (tagged tag (if value = JNull then [] else str_of repr value)) (\<lambda>v. Inr (name, v)))
               (List.map_filter (\<lambda>(name, value). map_option (\<lambda>tag. (name, tag, value)) (field_tag name)) ms))
           (\<lambda>fields. semantic_row_post_init \<lparr>sr_operation = str_of repr operation, sr_fields = fields\<rparr>)
         else unresolved_row values)"

text \<open>\<open>row.canonical_preview or {}\<close>\<close>

definition semantic_row_of :: "(json \<Rightarrow> string) \<Rightarrow> interpreted_row \<Rightarrow> semantic_row result" where
  "semantic_row_of repr r = (case ir_canonical r of
      Some canonical \<Rightarrow> semantic_row_from_canonical canonical
    | None \<Rightarrow> semantic_preview repr (case ir_preview r of Some (JObject ms) \<Rightarrow> ms | _ \<Rightarrow> []) (ir_raw_values r))"

section \<open>Reading a canonical payload\<close>

definition all_kinds :: "raw_cell_kind list" where
  "all_kinds = [MISSING_CELL, NULL_CELL, EMPTY_CELL, VALUE_CELL]"

definition provenance_from_payload :: "json \<Rightarrow> field_provenance result" where
  "provenance_from_payload j =
     rbind (rbind (member j ''canonical_field'') text_of) (\<lambda>field. rbind (rbind (member_or j ''source_column'' JNull) optional_text_of)
     (\<lambda>column. rbind (rbind (member j ''kind'') (enum_of cell_kind_value all_kinds))
     (\<lambda>kind. rbind (rbind (member_or j ''original'' JNull) optional_text_of)
     (\<lambda>original. rbind (raw_cell_post_init \<lparr>cell_kind = kind, cell_original = original\<rparr>)
     (\<lambda>cell. rbind (rbind (member j ''transformation'') text_of)
     (\<lambda>transformation. field_provenance_post_init
        \<lparr>pv_canonical_field = field, pv_source_column = column, pv_raw_cell = cell, pv_transformation = transformation\<rparr>))))))"

text \<open>\<open>Decimal(value)\<close>, and the refusal of values that are not finite.\<close>

definition amount_from :: "(json list \<Rightarrow> decimal_value result) \<Rightarrow> string \<Rightarrow> json \<Rightarrow> dec result" where
  "amount_from structured name j =
     rbind (case j of
         JText s \<Rightarrow> decimal_of s
       | JInt i \<Rightarrow> Inr (Finite (dec_of_int i))
       | JBool b \<Rightarrow> Inr (Finite (dec_of_int (of_bool b)))
       | JArray js \<Rightarrow> structured js
       | _ \<Rightarrow> Inl TypeError)
     (\<lambda>v. case v of Finite d \<Rightarrow> Inr d | _ \<Rightarrow> Inl (DomainValidationError (name @ '' must be a finite Decimal'')))"

definition timestamp_from :: "timestamp_readers \<Rightarrow> json \<Rightarrow> stamp result" where
  "timestamp_from readers j = rbind (text_of j)
     (\<lambda>s. case read_iso readers (zulu_as_offset s) of None \<Rightarrow> Inl ValueError | Some t \<Rightarrow> Inr t)"

definition canonical_row_from :: "timestamp_readers \<Rightarrow> (json list \<Rightarrow> decimal_value result) \<Rightarrow> json \<Rightarrow> canonical_row result" where
  "canonical_row_from readers structured j =
     rbind (array_member provenance_from_payload j ''provenance'') (\<lambda>provenance. rbind (int_member j ''row_number'')
     (\<lambda>row_number. rbind (rbind (member j ''source_record_key'') text_of)
     (\<lambda>key. rbind (rbind (member_or j ''business_reference'' JNull) optional_text_of)
     (\<lambda>reference. rbind (rbind (member j ''executed_at_utc'') (timestamp_from readers))
     (\<lambda>executed. rbind (rbind (member j ''instrument'') text_of)
     (\<lambda>instrument. rbind (rbind (member j ''side'') (enum_of side_value all_sides))
     (\<lambda>side. rbind (rbind (member j ''quantity'') (amount_from structured ''quantity''))
     (\<lambda>quantity. rbind (rbind (member j ''unit_price'') (amount_from structured ''unit_price''))
     (\<lambda>unit_price. rbind (rbind (member j ''gross_amount'') (amount_from structured ''gross_amount''))
     (\<lambda>gross_amount. rbind (rbind (member j ''currency'') text_of)
     (\<lambda>currency. rbind (rbind (member j ''state'') (enum_of state_value all_states))
     (\<lambda>state. rbind (rbind (member j ''operation'') (enum_of operation_value all_operations))
     (\<lambda>operation. canonical_row_post_init
        \<lparr>cw_row_number = row_number, cw_source_record_key = key, cw_business_reference = reference, cw_executed_at_utc = executed,
         cw_instrument = instrument, cw_side = side, cw_quantity = quantity, cw_unit_price = unit_price,
         cw_gross_amount = gross_amount, cw_currency = currency, cw_state = state, cw_operation = operation,
         cw_provenance = provenance\<rparr>)))))))))))))"

text \<open>The errors the code turns into \<open>ValueError\<close>.\<close>

definition canonical_from_payload :: "timestamp_readers \<Rightarrow> (json list \<Rightarrow> decimal_value result) \<Rightarrow> json \<Rightarrow> canonical_row result" where
  "canonical_from_payload readers structured j =
     (if member_or j ''complete'' JNull \<noteq> Inr (JBool True) then Inl ValueError
      else case canonical_row_from readers structured j of
          Inr r \<Rightarrow> Inr r
        | Inl e \<Rightarrow> Inl (if malformed e \<or> e = InvalidOperation then ValueError else e))"

end
