(* ===== verification/AdapterClaims.thy ===== *)
theory AdapterClaims
  imports Adapters PolicyClaims
begin

text \<open>
  Stored source contracts: a validated contract survives its payload, and the predefined contracts
  are valid.
\<close>

lemma refusals_Inr_iff: "refusals cs x = Inr y \<longleftrightarrow> (\<forall>c \<in> set cs. \<not> fst c) \<and> y = x"
  by (induction cs x rule: refusals.induct) auto

lemma member_or_simps [simp]:
  "member_or (JObject ((k, v) # ms)) name d = (if k = name then Inr v else member_or (JObject ms) name d)"
  "member_or (JObject []) name d = Inr d"
  by (simp_all add: member_or_def)

lemma optional_text_roundtrip [simp]: "optional_text_of (json_text_or_null v) = Inr v"
  by (cases v) (simp_all add: optional_text_of_def json_text_or_null_def text_of_def)

lemma text_of_JText [simp]: "text_of (JText s) = Inr s"
  by (simp add: text_of_def)

lemma str_of_JText [simp]: "str_of repr (JText s) = s"
  by (simp add: str_of_def)

lemma pair_of_texts [simp]: "pair_of (JArray [a, b]) = Inr (a, b)"
  by (simp add: pair_of_def elements_def)

lemma enumerations [simp]:
  "m \<in> set all_modes" "inj_on mode_value (set all_modes)" "s \<in> set all_semantics" "inj_on semantics_value (set all_semantics)"
  "f \<in> set all_folds" "inj_on fold_value (set all_folds)" "p \<in> set all_operations" "inj_on operation_value (set all_operations)"
  "d \<in> set all_sides" "inj_on side_value (set all_sides)"
  by (cases m; cases s; cases f; cases p; cases d; auto simp: all_modes_def all_semantics_def all_folds_def all_operations_def
      all_sides_def inj_on_def)+

text \<open>A contract all of whose parts were constructed.\<close>

definition constructed_contract :: "zone_database \<Rightarrow> source_contract \<Rightarrow> bool" where
  "constructed_contract zones c \<longleftrightarrow> source_contract_post_init zones c = Inr c \<and>
     (\<forall>b \<in> set (sct_bindings c). field_binding_post_init b = Inr b) \<and>
     (\<forall>m \<in> set (sct_enum_mappings c). enum_mapping_post_init m = Inr m)"

lemma binding_roundtrip: "field_binding_post_init b = Inr b \<Longrightarrow> binding_from_payload (binding_payload b) = Inr b"
  by (cases b) (simp add: binding_from_payload_def binding_payload_def)

lemma mapping_roundtrip: "enum_mapping_post_init m = Inr m \<Longrightarrow> mapping_from_payload repr (mapping_payload m) = Inr m"
  by (cases m) (simp add: mapping_from_payload_def mapping_payload_def array_member_def elements_def text_pair_def rmap_roundtrip)

lemma operation_roundtrip: "operation_pair repr (JArray [JText (fst x), JText (operation_value (snd x))]) = Inr x"
  by (simp add: operation_pair_def)

lemma array_or_roundtrip:
  "(\<And>x. x \<in> set xs \<Longrightarrow> f (g x) = Inr x) \<Longrightarrow> member_or j name (JArray []) = Inr (JArray (map g xs)) \<Longrightarrow> array_or f j name = Inr xs"
  by (simp add: array_or_def elements_def rmap_roundtrip)

text \<open>Round trip: a constructed contract the adapters support, written to its payload and read back, is the same
  contract; reading does not depend on how Python prints containers.\<close>

lemma contracts_roundtrip:
  assumes "constructed_contract zones c" and "validated_contract c = Inr c"
  shows "\<exists>p. contract_to_payload c = Inr p \<and> contract_from_payload zones repr p = Inr c"
proof -
  obtain p where p: "contract_to_payload c = Inr p" using assms(2) by (simp add: contract_to_payload_def)
  have bindings: "array_member binding_from_payload p ''bindings'' = Inr (sct_bindings c)"
    using p assms by (intro array_roundtrip [of _ _ binding_payload])
      (auto simp: contract_to_payload_def constructed_contract_def binding_roundtrip)
  have enums: "array_or (mapping_from_payload repr) p ''enum_mappings'' = Inr (sct_enum_mappings c)"
    using p assms by (intro array_or_roundtrip [of _ _ mapping_payload])
      (auto simp: contract_to_payload_def constructed_contract_def mapping_roundtrip)
  have operations: "array_or (operation_pair repr) p ''operation_mapping'' = Inr (sct_operation_mapping c)"
    using p assms(2) by (intro array_or_roundtrip [of _ _ "\<lambda>x. JArray [JText (fst x), JText (operation_value (snd x))]"])
      (auto simp: contract_to_payload_def operation_roundtrip)
  have tokens: "array_or (\<lambda>v. Inr (str_of repr v)) p ''null_tokens'' = Inr (sct_null_tokens c)"
    using p assms(2) by (intro array_or_roundtrip [of _ _ JText]) (auto simp: contract_to_payload_def json_texts_def)
  have eta: "\<lparr>sct_adapter_key = sct_adapter_key c, sct_parser_version = sct_parser_version c, sct_mode = sct_mode c,
      sct_identity_namespace = sct_identity_namespace c, sct_reference_semantics = sct_reference_semantics c,
      sct_timestamp_format = sct_timestamp_format c, sct_timezone_name = sct_timezone_name c, sct_bindings = sct_bindings c,
      sct_enum_mappings = sct_enum_mappings c, sct_null_tokens = sct_null_tokens c, sct_operation_field = sct_operation_field c,
      sct_operation_mapping = sct_operation_mapping c, sct_fold_policy = sct_fold_policy c\<rparr> = c" by simp
  have "constructed_from_payload zones repr p = source_contract_post_init zones c"
    using p assms(2) unfolding constructed_from_payload_def bindings enums operations tokens
    by (auto simp: contract_to_payload_def eta)
  with assms p show ?thesis by (simp add: contract_from_payload_def constructed_contract_def)
qed

lemma ledger_valid:
  "\<exists>c. ledger_contract zones = Inr c \<and> constructed_contract zones c \<and> validated_contract c = Inr c"
  by (simp add: ledger_contract_def bindings_of_def field_binding_post_init_def enum_mapping_post_init_def checks.simps
      source_contract_post_init_def timezone_check_def operation_checks_def PARSER_VERSION_def LEDGER_ADAPTER_KEY_def
      validated_contract_def REQUIRED_CANONICAL_FIELDS_def CANONICAL_FIELDS_def enum_values_of_def dict_of_def all_sides_def
      all_states_def constructed_contract_def) auto

lemma contracts_roundtrip_witness:
  "\<exists>c p. ledger_contract zones = Inr c \<and> contract_to_payload c = Inr p \<and>
     contract_from_payload zones (\<lambda>_. []) p = Inr c"
  using ledger_valid [of zones] contracts_roundtrip [of zones _ "\<lambda>_. []"] by blast

end
