(* ===== verification/PreviewClaims.thy ===== *)
theory PreviewClaims
  imports Preview AdapterClaims IngestionClaims
begin

text \<open>
  What the stored payload of a canonical row keeps: a row whose amounts have at most 28 digits is
  read back as it was, and an accepted amount with more digits comes back with another value.
\<close>

section \<open>Stored amounts\<close>

text \<open>What an amount is read back as.\<close>

definition canonical_amount :: "dec \<Rightarrow> dec" where
  "canonical_amount q = (if dec_is_zero q then Dec False 0 0 else expanded (dec_normalize default_precision q))"

lemma dval_canonical_amount:
  assumes "ndigits (dcoef q) \<le> default_precision"
  shows "dval (canonical_amount q) = dval q"
proof (cases "dec_is_zero q")
  case True
  then show ?thesis by (simp add: canonical_amount_def dec_is_zero_def dval_def)
next
  case False
  have "dval (dec_normalize default_precision q) = dval q"
    using assms by (simp add: dval_dec_normalize dec_fix_def default_precision_def)
  then show ?thesis using False by (simp add: canonical_amount_def dval_expanded)
qed

lemma canonical_amount_reads:
  assumes valid: "validate_numeric_value q m = Inr ()" and short: "ndigits (dcoef q) \<le> default_precision"
  shows "decimal_of (canonical_decimal q) = Inr (Finite (canonical_amount q)) \<and>
    validate_numeric_value (canonical_amount q) n = Inr ()"
proof (cases "dec_is_zero q")
  case True
  have char_zero: "char_of (48 :: nat) = CHR ''0''" by code_simp
  have "decimal_of_text ''0'' = Some (Finite (Dec False 0 0))"
    using decimal_text_roundtrip [of "Dec False 0 0"]
    by (simp add: decimal_exact_def dec_text_def sign_text_def nat_text.simps digit_char_def char_zero)
  then show ?thesis using True by (simp add: canonical_decimal_def canonical_amount_def decimal_of_def valid_numeric ndigits.simps)
next
  case False
  let ?n = "dec_normalize default_precision q"
  obtain c e where ce: "strip_all_zeros (dcoef q) (dexp q) = (c, e)" by fastforce
  from False short ce have n: "?n = Dec (dneg q) c e" by (simp add: dec_normalize_def dec_fix_def dec_is_zero_def)
  from strip_all_zeros_power [OF ce] False obtain k where k: "0 < c" "dcoef q = c * 10 ^ k" "e = dexp q + int k"
    by (auto simp: dec_is_zero_def)
  have digits: "int (ndigits (dcoef q)) = int (ndigits c) + int k" by (simp add: k ndigits_mult_power)
  have v: "- 12 \<le> dexp q" "max (int (ndigits (dcoef q)) + dexp q) 0 + max (- dexp q) 0 \<le> 38"
    using valid by (simp_all add: valid_numeric)
  have "validate_numeric_value (expanded ?n) n = Inr ()"
    using v k digits by (auto simp: valid_numeric n expanded_def ndigits_mult_power max_def split: if_splits)
  moreover have "decimal_exact (expanded ?n)"
    using v k digits by (auto simp: decimal_exact_def n expanded_def ndigits_mult_power max_def split: if_splits)
  then have "decimal_of_text (dec_text_f ?n) = Some (Finite (expanded ?n))"
    using k by (intro text_f_roundtrip) (simp_all add: n)
  ultimately show ?thesis using False by (simp add: canonical_decimal_def canonical_amount_def decimal_of_def)
qed

section \<open>Canonical payloads\<close>

definition short_amounts :: "canonical_row \<Rightarrow> bool" where
  "short_amounts r \<longleftrightarrow> (\<forall>q \<in> {cw_quantity r, cw_unit_price r, cw_gross_amount r}. ndigits (dcoef q) \<le> default_precision)"

text \<open>\<open>datetime.fromisoformat\<close> reads back what \<open>isoformat\<close> wrote for the time of a row.\<close>

definition reads_back :: "timestamp_readers \<Rightarrow> canonical_row \<Rightarrow> bool" where
  "reads_back readers r \<longleftrightarrow> (case canonical_datetime (cw_executed_at_utc r) of
      Inl _ \<Rightarrow> True | Inr s \<Rightarrow> read_iso readers (zulu_as_offset s) = Some (cw_executed_at_utc r))"

text \<open>A constructed canonical row, its provenance included.\<close>

definition constructed_provenance :: "field_provenance \<Rightarrow> bool" where
  "constructed_provenance p \<longleftrightarrow> field_provenance_post_init p = Inr p \<and> raw_cell_post_init (pv_raw_cell p) = Inr (pv_raw_cell p)"

definition constructed_row :: "canonical_row \<Rightarrow> bool" where
  "constructed_row r \<longleftrightarrow> canonical_row_post_init r = Inr r \<and> list_all constructed_provenance (cw_provenance r)"

text \<open>What activation reads back.\<close>

definition activated_row :: "canonical_row \<Rightarrow> canonical_row" where
  "activated_row r = r\<lparr>cw_quantity := canonical_amount (cw_quantity r), cw_unit_price := canonical_amount (cw_unit_price r),
     cw_gross_amount := canonical_amount (cw_gross_amount r)\<rparr>"

lemma kinds [simp]: "k \<in> set all_kinds" "inj_on cell_kind_value (set all_kinds)"
  by (cases k; auto simp: all_kinds_def inj_on_def)+

lemma states_member [simp]: "s \<in> set all_states" "inj_on state_value (set all_states)"
  by (cases s; auto simp: all_states_def inj_on_def)+

lemma provenance_roundtrip: "constructed_provenance p \<Longrightarrow> provenance_from_payload (provenance_payload p) = Inr p"
  by (cases p; cases "pv_raw_cell p") (simp add: provenance_from_payload_def provenance_payload_def constructed_provenance_def)

text \<open>A constructed row carries UTC time.\<close>

lemma constructed_row_utc: "canonical_row_post_init r = Inr s \<Longrightarrow> \<exists>t. cw_executed_at_utc s = utc_stamp t \<and> valid_datetime t"
  by (auto simp: canonical_row_Inr as_utc_Inr)

lemma canonical_datetime_utc: "valid_datetime t \<Longrightarrow> \<exists>s. canonical_datetime (utc_stamp t) = Inr s"
  by (simp add: canonical_datetime_def)

lemma payload_total: "canonical_row_post_init r = Inr s \<Longrightarrow> \<exists>p. canonical_to_payload s = Inr p"
  using constructed_row_utc [of r s] canonical_datetime_utc by (fastforce simp: canonical_to_payload_def)

lemma amount_reads:
  "validate_numeric_value q n = Inr () \<Longrightarrow> ndigits (dcoef q) \<le> default_precision \<Longrightarrow>
    amount_from structured name (JText (canonical_decimal q)) = Inr (canonical_amount q)"
  using canonical_amount_reads [of q n] by (simp add: amount_from_def)

lemma payload_row:
  assumes r: "constructed_row r" and short: "short_amounts r" and readers: "reads_back readers r"
    and p: "canonical_to_payload r = Inr p"
  shows "canonical_row_from readers structured p = Inr (activated_row r)"
proof -
  from r have row: "canonical_row_post_init r = Inr r" by (simp add: constructed_row_def)
  obtain t where t: "cw_executed_at_utc r = utc_stamp t" "valid_datetime t" using constructed_row_utc [OF row] by blast
  obtain s where s: "canonical_datetime (utc_stamp t) = Inr s" using canonical_datetime_utc [OF t(2)] by blast
  from s readers have iso: "read_iso readers (zulu_as_offset s) = Some (utc_stamp t)" by (simp add: reads_back_def t(1))
  note p = p [unfolded canonical_to_payload_def t(1) s rbind.simps, symmetric, simplified]
  note v = row [unfolded canonical_row_Inr]
  from v have valid: "validate_numeric_value (cw_quantity r) ''quantity'' = Inr ()"
    "validate_numeric_value (cw_unit_price r) ''unit_price'' = Inr ()"
    "validate_numeric_value (cw_gross_amount r) ''gross_amount'' = Inr ()" by blast+
  from short have digits: "ndigits (dcoef (cw_quantity r)) \<le> default_precision"
    "ndigits (dcoef (cw_unit_price r)) \<le> default_precision" "ndigits (dcoef (cw_gross_amount r)) \<le> default_precision"
    by (simp_all add: short_amounts_def)
  have q: "rbind (member p ''quantity'') (amount_from structured ''quantity'') = Inr (canonical_amount (cw_quantity r))"
    "rbind (member p ''unit_price'') (amount_from structured ''unit_price'') = Inr (canonical_amount (cw_unit_price r))"
    "rbind (member p ''gross_amount'') (amount_from structured ''gross_amount'') = Inr (canonical_amount (cw_gross_amount r))"
    using amount_reads [OF valid(1) digits(1)] amount_reads [OF valid(2) digits(2)] amount_reads [OF valid(3) digits(3)]
    by (simp_all add: p)
  have a: "validate_numeric_value (canonical_amount (cw_quantity r)) n = Inr ()"
    "validate_numeric_value (canonical_amount (cw_unit_price r)) n = Inr ()"
    "validate_numeric_value (canonical_amount (cw_gross_amount r)) n = Inr ()" for n
    using canonical_amount_reads [OF valid(1) digits(1)] canonical_amount_reads [OF valid(2) digits(2)]
      canonical_amount_reads [OF valid(3) digits(3)] by blast+
  have ps: "array_member provenance_from_payload p ''provenance'' = Inr (cw_provenance r)"
    using r by (intro array_roundtrip [of _ _ provenance_payload])
      (auto simp: p constructed_row_def list_all_iff provenance_roundtrip provenances_payload_def)
  have "canonical_row_post_init (activated_row r) = Inr (activated_row r)"
    using v a t unfolding canonical_row_Inr by (simp add: activated_row_def)
  moreover have "activated_row r = \<lparr>cw_row_number = cw_row_number r, cw_source_record_key = cw_source_record_key r,
     cw_business_reference = cw_business_reference r, cw_executed_at_utc = utc_stamp t, cw_instrument = cw_instrument r,
     cw_side = cw_side r, cw_quantity = canonical_amount (cw_quantity r), cw_unit_price = canonical_amount (cw_unit_price r),
     cw_gross_amount = canonical_amount (cw_gross_amount r), cw_currency = cw_currency r, cw_state = cw_state r,
     cw_operation = cw_operation r, cw_provenance = cw_provenance r\<rparr>" by (simp add: activated_row_def t)
  ultimately show ?thesis
    unfolding canonical_row_from_def ps q by (simp add: p int_member_def int_of_value_def timestamp_from_def iso)
qed

lemma payload_reads:
  assumes "constructed_row r" and "short_amounts r" and "reads_back readers r" and p: "canonical_to_payload r = Inr p"
  shows "canonical_from_payload readers structured p = Inr (activated_row r)"
proof -
  from p have "member_or p ''complete'' JNull = Inr (JBool True)" by (auto simp: canonical_to_payload_def rbind_Inr_iff)
  with payload_row [OF assms] show ?thesis by (simp add: canonical_from_payload_def)
qed

text \<open>Round trip: a constructed canonical row whose amounts have at most 28 digits, stored as the payload of its
  preview and read back at activation, is the same row: equal in everything but the amounts, and those equal
  in value. \<open>reads_back\<close> states that \<open>datetime.fromisoformat\<close> reads what \<open>isoformat\<close> wrote.\<close>

lemma previews_roundtrip:
  assumes "constructed_row r" and "short_amounts r" and "reads_back readers r"
  shows "\<exists>p s. canonical_to_payload r = Inr p \<and> canonical_from_payload readers structured p = Inr s \<and>
    dval (cw_quantity s) = dval (cw_quantity r) \<and> dval (cw_unit_price s) = dval (cw_unit_price r) \<and>
    dval (cw_gross_amount s) = dval (cw_gross_amount r) \<and>
    s\<lparr>cw_quantity := cw_quantity r, cw_unit_price := cw_unit_price r, cw_gross_amount := cw_gross_amount r\<rparr> = r"
proof -
  from assms(1) obtain p where p: "canonical_to_payload r = Inr p"
    using payload_total [of r r] by (auto simp: constructed_row_def)
  from assms(2) have digits: "ndigits (dcoef (cw_quantity r)) \<le> default_precision"
    "ndigits (dcoef (cw_unit_price r)) \<le> default_precision" "ndigits (dcoef (cw_gross_amount r)) \<le> default_precision"
    by (simp_all add: short_amounts_def)
  show ?thesis
    using p payload_reads [OF assms p]
    by (intro exI [of _ p] exI [of _ "activated_row r"]) (simp add: activated_row_def dval_canonical_amount digits)
qed


definition constant_readers :: timestamp_readers where
  "constant_readers = \<lparr>read_iso = (\<lambda>_. Some (utc_stamp 0)), read_format = (\<lambda>_ _. None)\<rparr>"

lemma demo_row_constructed:
  "constructed_row (demo_row [demo_provenance ''side''])" "short_amounts (demo_row ps)" "reads_back constant_readers (demo_row ps)"
  by (simp_all add: constructed_row_def canonical_row_Inr demo_row_def as_utc_def valid_datetime_def datetime_max_def us_per_day_def
      valid_numeric ndigits.simps constructed_provenance_def field_provenance_post_init_def raw_cell_post_init_def checks_Inr_iff
      demo_provenance_def short_amounts_def default_precision_def reads_back_def constant_readers_def split: sum.splits)

lemma previews_roundtrip_witness:
  "\<exists>p s. canonical_to_payload (demo_row [demo_provenance ''side'']) = Inr p \<and>
     canonical_from_payload constant_readers (\<lambda>_. Inl TypeError) p = Inr s \<and> cw_instrument s = ''i''"
proof -
  from previews_roundtrip [OF demo_row_constructed, of "\<lambda>_. Inl TypeError"]
  obtain p s where ps: "canonical_to_payload (demo_row [demo_provenance ''side'']) = Inr p"
    "canonical_from_payload constant_readers (\<lambda>_. Inl TypeError) p = Inr s"
    "s\<lparr>cw_quantity := cw_quantity (demo_row [demo_provenance ''side'']), cw_unit_price := cw_unit_price (demo_row [demo_provenance ''side'']),
       cw_gross_amount := cw_gross_amount (demo_row [demo_provenance ''side''])\<rparr> = demo_row [demo_provenance ''side'']" by blast
  from arg_cong [OF ps(3), of cw_instrument] have "cw_instrument s = ''i''" by (simp add: demo_row_def)
  with ps(1,2) show ?thesis by blast
qed

lemma constructed_row_quantity:
  assumes r: "constructed_row r" and q: "validate_numeric_value q ''quantity'' = Inr ()"
  shows "constructed_row (r\<lparr>cw_quantity := q\<rparr>)"
proof -
  note row = r [unfolded constructed_row_def canonical_row_Inr]
  then obtain t where t: "as_utc (cw_executed_at_utc r) ''executed_at_utc'' = Inr t" "r = r\<lparr>cw_executed_at_utc := utc_stamp t\<rparr>" by blast
  then have "cw_executed_at_utc r = utc_stamp t" by (metis canonical_row.select_convs(4) canonical_row.surjective canonical_row.update_convs(4))
  with row t(1) q show ?thesis by (simp add: constructed_row_def canonical_row_Inr)
qed

text \<open>Activation stores other amounts than the file holds: for every constructed row there is an amount of the
  column type which the row may carry, and which the payload gives back with another value.\<close>

lemma activation_rounds_amounts:
  assumes "constructed_row r" and "short_amounts r" and "reads_back readers r"
  shows "\<exists>p s. constructed_row (r\<lparr>cw_quantity := merged_amount\<rparr>) \<and> canonical_to_payload (r\<lparr>cw_quantity := merged_amount\<rparr>) = Inr p \<and>
    canonical_from_payload readers structured p = Inr s \<and> dval (cw_quantity s) \<noteq> dval merged_amount"
proof -
  let ?rounded = "Dec False (10 ^ 27) (- 11)"
  let ?r = "r\<lparr>cw_quantity := ?rounded\<rparr>"
  have n: "ndigits (10 ^ 27) = 28" "ndigits (10 ^ 28 + 1) = 29" by (rule ndigits_eq; simp)+
  have valid: "validate_numeric_value ?rounded m = Inr ()" "validate_numeric_value merged_amount m = Inr ()" for m
    unfolding valid_numeric merged_amount_def dec.sel n by simp_all
  have same: "canonical_decimal merged_amount = canonical_decimal ?rounded"
    unfolding canonical_decimal_def dec_normalize_def merged_fix
    by (simp add: merged_amount_def dec_is_zero_def dec_fix_exact default_precision_def n(1) [simplified])
  have "constructed_row ?r" "constructed_row (r\<lparr>cw_quantity := merged_amount\<rparr>)"
    using constructed_row_quantity [OF assms(1)] valid by blast+
  moreover have "short_amounts ?r" using assms(2) n(1) by (simp add: short_amounts_def default_precision_def)
  moreover have "reads_back readers ?r" using assms(3) by (simp add: reads_back_def split: sum.splits)
  moreover obtain p where p: "canonical_to_payload ?r = Inr p"
    using payload_total [of ?r ?r] \<open>constructed_row ?r\<close> by (auto simp: constructed_row_def)
  moreover have "canonical_to_payload (r\<lparr>cw_quantity := merged_amount\<rparr>) = Inr p"
    using p by (simp add: canonical_to_payload_def same eligible_for_matching_def)
  moreover have "dval (canonical_amount ?rounded) = dval ?rounded" using n(1) by (intro dval_canonical_amount) (simp add: default_precision_def)
  moreover have "dval ?rounded \<noteq> dval merged_amount" by (simp add: dval_def merged_amount_def power_int_def power_divide)
  ultimately show ?thesis using payload_reads [of ?r readers p structured] by (auto simp: activated_row_def)
qed

lemma activation_rounds_amounts_witness:
  "\<exists>p s. canonical_to_payload (demo_row [demo_provenance ''side'']\<lparr>cw_quantity := merged_amount\<rparr>) = Inr p \<and>
     canonical_from_payload constant_readers (\<lambda>_. Inl TypeError) p = Inr s \<and> dval (cw_quantity s) \<noteq> dval merged_amount"
  using activation_rounds_amounts [OF demo_row_constructed, of "\<lambda>_. Inl TypeError"] by blast

end
