(* ===== verification/Spec2Isabelle.thy ===== *)
theory Spec2Isabelle
  imports RunClaims JobClaims ReplacementClaims PolicyClaims IngestionClaims PreviewClaims
begin

text \<open>
  Reconciliation Workbench compares the transactions of an internal ledger with those of a
  counterparty. Files are interpreted as canonical rows under a source contract; a run of the
  engine pairs the rows of two dataset revisions one to one and explains every pair and every
  unpaired record; a reviewer records decisions that later runs obey; background jobs do the work
  under leases; and anonymous workspaces own all of it. This library models the deterministic core
  of the program and proves what it promises. Paths are under \<open>src/\<close>.

  \<^bold>\<open>How the theories follow the code.\<close>

  \<^item> Shared: \<open>Prelude\<close> (errors as the left half of a sum, checks, loops that stop at the first error,
    text, dictionaries in insertion order, the locales \<open>dictionary\<close> and \<open>canonical_value\<close>), \<open>Json\<close> (JSON
    values and \<open>json.dumps\<close>), \<open>PyDecimal\<close>, \<open>DecimalText\<close> (Python's \<open>Decimal\<close> and its text), \<open>PyTime\<close>,
    \<open>Effects\<close> (timestamps, operations on the database with rollback), \<open>Texts\<close>, \<open>Uuids\<close>.
  \<^item> Values of the engine: \<open>Canonical\<close>, \<open>Contracts\<close>, \<open>Evidence\<close>
    (\<open>reconciliation/domain/reconciliation.py\<close>). A frozen dataclass is a record, its
    \<open>__post_init__\<close> a function \<open>x_post_init\<close> that returns the normalised value or the error, and
    every such function is an interpretation of \<open>canonical_value\<close>.
  \<^item> The engine, one theory per module of \<open>reconciliation/domain/\<close>: \<open>References\<close> (references.py),
    \<open>Candidates\<close> (candidates.py), \<open>Scoring\<close> (scoring.py), \<open>Assignment\<close> (assignment.py and
    \<open>reconciliation/solvers/scipy_assignment.py\<close>), \<open>Gating\<close> (gating.py), \<open>Comparison\<close>
    (comparison.py), \<open>Diagnostics\<close> (diagnostics.py), \<open>Engine\<close> (engine.py, \<open>reconcile\<close>), and
    \<open>Policies\<close> (\<open>reconciliation/policies.py\<close>).
  \<^item> Review: \<open>Review\<close>, \<open>CaseKeys\<close> (\<open>reconciliation/domain/review.py\<close>), \<open>Resolutions\<close>
    (\<open>resolutions/services.py\<close> on the tables of \<open>resolutions/models.py\<close>). The state is the record
    \<open>review_db\<close>, the commands are state transformers that roll back on an error.
  \<^item> Jobs and workspaces: \<open>Workspaces\<close>, \<open>Jobs\<close> (\<open>reconciliation/domain/workspaces.py\<close>, jobs.py),
    \<open>Database\<close> (the tables with their constraints), \<open>WorkspaceOps\<close> (\<open>workspaces/\<close>), \<open>JobOps\<close>
    (\<open>jobs/services.py\<close>). The state is the record \<open>db\<close>; \<open>JobRuns\<close> makes the transactions of the
    services the steps of a transition system.
  \<^item> Ingestion: \<open>Ingestion\<close> (\<open>reconciliation/domain/ingestion.py\<close>), \<open>Hashing\<close> (hashing.py),
    \<open>Adapters\<close> (\<open>sources/adapters.py\<close>), \<open>Preview\<close> (\<open>ingestion/preview.py\<close> from
    \<open>interpret_csv\<close> on, and the limits of \<open>ingestion/artifacts.py\<close>).

  \<^bold>\<open>What the lemmas show.\<close>

  \<^item> \<open>ReferenceFates\<close>: the mutable loops of preprocessing compute a fate per record; it succeeds exactly
    for oriented decisions.
  \<^item> \<open>CandidateFacts\<close>: the bisected, limited scan is sound, complete up to the limits it reports,
    bounded, and total. \<open>ScoringFacts\<close>, \<open>ScoreAccuracy\<close>: scores exist and are near exact arithmetic.
  \<^item> \<open>SolverContract\<close>: the locales \<open>minimizing_solver\<close> and \<open>linear_sum_assignment\<close> state what is
    documented of SciPy, and an exhaustive solver interprets them. \<open>ComponentFacts\<close>,
    \<open>AssignmentFacts\<close>: components are connected and the selection is globally optimal.
    \<open>GatingFacts\<close>: an accepted pair passes every gate and its gap is what the best alternative loses.
  \<^item> \<open>ComparisonFacts\<close>: the 28-digit comparisons give the verdicts of exact arithmetic within stated
    bounds on the digits. \<open>DiagnosticsFacts\<close>, \<open>StageFacts\<close>, \<open>EngineFacts\<close>, \<open>RunFacts\<close>,
    \<open>RunClaims\<close>: a run accounts for every record, follows the reviewer, pairs by score only records
    that agree, does not depend on the order of its inputs, and returns.
  \<^item> \<open>ReviewFacts\<close>, \<open>ResolutionFacts\<close>, \<open>ResolutionRuns\<close>, \<open>ResolutionClaims\<close>, \<open>ReplacementClaims\<close>:
    the mutable claims are the projection of the append-only log in every reachable state.
  \<^item> \<open>JobFacts\<close>, \<open>JobMachine\<close>, \<open>JobSteps\<close>, \<open>JobRuns\<close>, \<open>JobClaims\<close>: the invariant of the tables, the
    quota of active jobs, fencing, finality, retries, and the claim query against the domain rule.
  \<^item> \<open>PolicyClaims\<close>, \<open>AdapterClaims\<close>, \<open>PreviewClaims\<close>: round trips of stored policies, contracts and
    rows. \<open>CanonicalText\<close>, \<open>IngestionClaims\<close>: canonical texts, local times, decimals, fingerprints.

  \<^bold>\<open>Conditions, and why they can be met.\<close>

  \<^item> A run returns under \<open>run_ready\<close>. The digests are truncated to 16 hexadecimal digits by the code;
    the condition on them (\<open>partitions_apart\<close>, \<open>components_apart\<close>) is that no two of the blocking keys
    that both sides of the snapshot share, and no two components of the candidates of this very run,
    are given one identity. Otherwise the constructors of the code refuse the run.
  \<^item> Components have at most 900000 nodes: up to there the total cost of a selection is at most
    \<open>2 ^ 53\<close>, so SciPy's doubles are exact, and costs fit 64 bits. The default of the code is 100 nodes.
  \<^item> Scoring uses 80 digits, everything else Python's default context of 28; amounts of the database
    have 38. Where rounding matters the statement says so. The exponent limits of the context
    (999999) are not modelled: amounts of \<open>NUMERIC(38, 12)\<close> stay far inside.
  \<^item> A digest is a parameter. Statements that compare digests assume that it does not collide on the
    texts compared, never that it is injective.
  \<^item> No definition needs fuel: worklists end by a measure, scans by structural recursion.

  \<^bold>\<open>Parameters.\<close> SHA-256; the assignment solver; the time zone database and the readers of timestamps
  (with the law of PEP 495 where stated); the rows and the end that \<open>csv.reader\<close> delivers; \<open>repr\<close> of
  containers in malformed payloads; the clock, the supply of identifiers and tokens, the order and the
  locks a claim query meets.

  \<^bold>\<open>Not modelled.\<close> Type checks that hold by typing; the web interface, read models and exports; the
  persistence around runs, imports and cases (\<open>reconciliation/services.py\<close>, \<open>ingestion/activation.py\<close>,
  \<open>cases/\<close>) and the private file store; \<open>DataError\<close> where a column is too narrow, which is an
  \<open>IntegrityError\<close> here; Python's limit of 4300 digits for \<open>int(text)\<close>; floating point numbers in
  payloads, and constants of bindings that are neither text nor null. A reader of \<open>current_revision\<close>
  will find the workspace in the filter on both paths, where the preview of the code leaves it out:
  the foreign keys make it redundant.
\<close>

end
